(* ===== verification/Prelude.thy ===== *)
theory Prelude
  imports Main "HOL-Library.Word" "HOL-Library.Signed_Division"
begin

unbundle bit_operations_syntax

text \<open>
  Shared vocabulary of the development: the return codes of \<^verbatim>\<open>src/include/nccl/types.h\<close>,
  the error propagation of \<^verbatim>\<open>src/include/nccl/checks.h\<close>, the system error numbers the code
  tells apart, the machine integers, the rounding macros of \<^verbatim>\<open>src/include/nccl/align.h\<close>, and
  the generic lemmas on lists and integers that several components use.
\<close>

section \<open>Return codes and error propagation\<close>

datatype ncclResult =
    ncclSuccess | ncclUnhandledCudaError | ncclSystemError | ncclInternalError
  | ncclInvalidArgument | ncclInvalidUsage | ncclRemoteError | ncclInProgress

text \<open>\<open>NCCLCHECK\<close> and \<open>NCCLCHECKGOTO\<close> propagate every code but success and in-progress.\<close>

definition ncclCheckFails :: "ncclResult \<Rightarrow> bool" where
  "ncclCheckFails res \<longleftrightarrow> res \<noteq> ncclSuccess \<and> res \<noteq> ncclInProgress"

lemma ncclCheckFails_simps [simp]:
  "\<not> ncclCheckFails ncclSuccess" "\<not> ncclCheckFails ncclInProgress"
  "ncclCheckFails ncclUnhandledCudaError" "ncclCheckFails ncclSystemError"
  "ncclCheckFails ncclInternalError" "ncclCheckFails ncclInvalidArgument"
  "ncclCheckFails ncclInvalidUsage" "ncclCheckFails ncclRemoteError"
  by (simp_all add: ncclCheckFails_def)

text \<open>
  The checks of a call's value against an error or an expected one, with the result they leave with, if they leave; the variants
  that jump to a label leave with the same.
\<close>

definition PTHREADCHECK :: "int \<Rightarrow> ncclResult option" where
  "PTHREADCHECK retval = (if retval \<noteq> 0 then Some ncclSystemError else None)"

definition NEQCHECK :: "'a \<Rightarrow> 'a \<Rightarrow> ncclResult option" where
  "NEQCHECK statement v = (if statement \<noteq> v then Some ncclSystemError else None)"

definition EQCHECK :: "'a \<Rightarrow> 'a \<Rightarrow> ncclResult option" where
  "EQCHECK statement v = (if statement = v then Some ncclSystemError else None)"

text \<open>The error numbers the code compares with; any other one is \<open>EOTHER\<close>.\<close>

datatype errno =
    EINTR | EWOULDBLOCK | EAGAIN | ECONNREFUSED | ETIMEDOUT | EINPROGRESS
  | EOPNOTSUPP | EPROTONOSUPPORT | EEXIST | EOTHER

section \<open>Machine integers\<close>

type_synonym u8 = "8 word"
type_synonym u16 = "16 word"
type_synonym u32 = "32 word"
type_synonym u64 = "64 word"

text \<open>
  A C \<open>int\<close> is an \<^typ>\<open>int\<close> of the model. Where the code keeps it in range the model computes
  the same number. Where a sum or a product may leave the range, the model keeps the 32 bits: \<open>i32\<close> is the number they
  stand for in two's complement. Signed overflow is undefined in C++, and this is what the compilers of the program's
  platforms produce for it; a correctness property has the range in which there is none as a hypothesis.
\<close>

definition in_int32 :: "int \<Rightarrow> bool" where
  "in_int32 x \<longleftrightarrow> - (2 ^ 31) \<le> x \<and> x < 2 ^ 31"

definition i32 :: "int \<Rightarrow> int" where
  "i32 x = signed_take_bit 31 x"

lemma i32_id: "- (2 ^ 31) \<le> x \<Longrightarrow> x < 2 ^ 31 \<Longrightarrow> i32 x = x"
  by (simp add: i32_def signed_take_bit_int_eq_self)

lemma i32_0 [simp]: "i32 0 = 0"
  by (simp add: i32_def)

lemma i32_nested [simp]:
  "i32 (i32 x) = i32 x" "i32 (i32 x + y) = i32 (x + y)" "i32 (x - i32 y) = i32 (x - y)"
  by (simp_all add: i32_def signed_take_bit_add signed_take_bit_diff)
   (metis signed_take_bit_add signed_take_bit_signed_take_bit min.idem, metis signed_take_bit_diff signed_take_bit_signed_take_bit min.idem)

text \<open>
  \<open>DIVUP\<close> and \<open>ROUNDUP\<close> of \<^verbatim>\<open>align.h\<close> on operands of type \<^verbatim>\<open>int\<close>; the division
  of C truncates towards zero.
\<close>

definition DIVUP :: "int \<Rightarrow> int \<Rightarrow> int" where
  "DIVUP x y = i32 (x + y - 1) sdiv y"

definition ROUNDUP :: "int \<Rightarrow> int \<Rightarrow> int" where
  "ROUNDUP x y = i32 (DIVUP x y * y)"

lemma sdiv_nonneg_eq_div: "0 \<le> a \<Longrightarrow> 0 < b \<Longrightarrow> (a :: int) sdiv b = a div b"
  by (cases "a = 0") (auto simp: signed_divide_int_def sgn_if)

lemma DIVUP_eq_div: "0 \<le> x \<Longrightarrow> 0 < y \<Longrightarrow> x + y < 2 ^ 31 \<Longrightarrow> DIVUP x y = (x + y - 1) div y"
  by (simp add: DIVUP_def i32_id sdiv_nonneg_eq_div)

lemma DIVUP_bounds:
  assumes "0 \<le> x" "0 < y" "x + y < 2 ^ 31"
  shows "0 \<le> DIVUP x y" "x \<le> DIVUP x y * y" "DIVUP x y * y \<le> x + y - 1"
proof -
  have "x + y - 1 = (x + y - 1) div y * y + (x + y - 1) mod y" by simp
  moreover have "(x + y - 1) mod y \<le> y - 1" "0 \<le> (x + y - 1) mod y" using assms(2) pos_mod_bound [of y "x + y - 1"] by simp_all
  ultimately show "x \<le> DIVUP x y * y" "DIVUP x y * y \<le> x + y - 1" unfolding DIVUP_eq_div [OF assms] by linarith+
  show "0 \<le> DIVUP x y" using assms by (simp add: DIVUP_eq_div pos_imp_zdiv_nonneg_iff)
qed

lemma ROUNDUP_props:
  assumes "0 \<le> x" "0 < y" "x + y < 2 ^ 31"
  shows "x \<le> ROUNDUP x y" "ROUNDUP x y < x + y" "y dvd ROUNDUP x y"
proof -
  note b = DIVUP_bounds [OF assms]
  have "ROUNDUP x y = DIVUP x y * y" unfolding ROUNDUP_def by (rule i32_id) (use b assms in linarith)+
  then show "x \<le> ROUNDUP x y" "ROUNDUP x y < x + y" "y dvd ROUNDUP x y" using b by simp_all
qed

text \<open>Index arithmetic of an array laid out in rows of \<open>n\<close>.\<close>

lemma block_div: "k < n \<Longrightarrow> (j * n + k) div n = (j :: nat)"
  by (cases "n = 0") simp_all

lemma block_mod: "k < n \<Longrightarrow> (j * n + k) mod n = (k :: nat)"
  by simp

lemma block_inj:
  "k < n \<Longrightarrow> k' < n \<Longrightarrow> (j * n + k = j' * n + k') \<longleftrightarrow> j = j' \<and> k = (k' :: nat)"
  by (metis block_div block_mod)

lemma block_bound: "j < m \<Longrightarrow> k < n \<Longrightarrow> j * n + k < m * (n :: nat)"
proof -
  assume j: "j < m" and k: "k < n"
  have "j * n + k < Suc j * n" using k by simp
  also have "\<dots> \<le> m * n" using j by (intro mult_le_mono1) simp
  finally show ?thesis .
qed

section \<open>Lists\<close>

text \<open>The collection of facts that unfold the accessors of the shared list encodings.\<close>

named_theorems list_simps

lemma list_update_nth_neq [list_simps]: "i \<noteq> j \<Longrightarrow> xs[i := v] ! j = xs ! j"
  by simp

lemma list_update_nth_cases:
  "j < length xs \<Longrightarrow> xs[i := v] ! j = (if i = j then v else xs ! j)"
  by (simp add: nth_list_update)

lemma take_update_ge [list_simps]: "n \<le> i \<Longrightarrow> take n (xs[i := v]) = take n xs"
  by (simp add: list_eq_iff_nth_eq)

text \<open>The first index of a list whose element satisfies a test, as the code's search loops find it.\<close>

fun find_index :: "('a \<Rightarrow> bool) \<Rightarrow> 'a list \<Rightarrow> nat option" where
  "find_index P [] = None"
| "find_index P (x # xs) = (if P x then Some 0 else map_option Suc (find_index P xs))"

lemma find_index_Some:
  "find_index P xs = Some i \<Longrightarrow> i < length xs \<and> P (xs ! i) \<and> (\<forall>j<i. \<not> P (xs ! j))"
proof (induction xs arbitrary: i)
  case Nil
  then show ?case by simp
next
  case (Cons x xs)
  then show ?case
    by (auto split: if_splits simp: less_Suc_eq_0_disj nth_Cons')
qed

lemma find_index_None: "find_index P xs = None \<longleftrightarrow> (\<forall>x \<in> set xs. \<not> P x)"
  by (induction xs) auto

lemma find_index_eqI:
  "i < length xs \<Longrightarrow> P (xs ! i) \<Longrightarrow> (\<And>j. j < i \<Longrightarrow> \<not> P (xs ! j)) \<Longrightarrow> find_index P xs = Some i"
proof (induction xs arbitrary: i)
  case Nil
  then show ?case by simp
next
  case (Cons x xs)
  show ?case
  proof (cases i)
    case 0
    with Cons.prems show ?thesis by simp
  next
    case (Suc k)
    have "\<not> P x" using Cons.prems(3)[of 0] Suc by simp
    moreover have "find_index P xs = Some k"
    proof (rule Cons.IH)
      fix j assume "j < k"
      then show "\<not> P (xs ! j)" using Cons.prems(3)[of "Suc j"] Suc by simp
    qed (use Cons.prems Suc in simp_all)
    ultimately show ?thesis using Suc by simp
  qed
qed

end
