(* ===== verification/Machine.thy ===== *)
theory Machine
  imports Prelude
begin

text \<open>
  Runs of a step relation, and the contract of a machine: an invariant its steps keep, and for a machine with a queue what each
  step puts in and takes out. Runs inherit both. The transfer operations of \<^verbatim>\<open>src/unet/unet_ib.cc\<close> are such
  machines, with the open offers of a connection as the queue.
\<close>

inductive run :: "('s \<Rightarrow> 'e \<Rightarrow> 's \<Rightarrow> bool) \<Rightarrow> 's \<Rightarrow> 'e list \<Rightarrow> 's \<Rightarrow> bool" for step c where
  start: "run step c [] c"
| more: "run step c evs c' \<Longrightarrow> step c' ev c'' \<Longrightarrow> run step c (evs @ [ev]) c''"

lemma run_single: "step c ev c' \<Longrightarrow> run step c [ev] c'"
  using run.more [OF run.start] by fastforce

lemma run_two: "step c d c' \<Longrightarrow> step c' e c'' \<Longrightarrow> run step c [d, e] c''"
  using run.more [OF run_single, of step c d c' e c''] by simp

lemma run_append: "run step c' es c'' \<Longrightarrow> run step c ds c' \<Longrightarrow> run step c (ds @ es) c''"
proof (induction rule: run.induct)
  case (more evs c2 ev c3)
  then show ?case using run.more [of step c "ds @ evs" c2 ev c3] by simp
qed simp

locale machine =
  fixes step :: "'s \<Rightarrow> 'e \<Rightarrow> 's \<Rightarrow> bool" and inv :: "'s \<Rightarrow> bool"
  assumes keeps: "inv c \<Longrightarrow> step c ev c' \<Longrightarrow> inv c'"
begin

lemma run_keeps: "run step c evs c' \<Longrightarrow> inv c \<Longrightarrow> inv c'"
  by (induction rule: run.induct) (auto intro: keeps)

end

text \<open>What a step puts in and takes out goes in at the end and comes out at the front.\<close>

locale queue_machine = machine +
  fixes queue :: "'s \<Rightarrow> 'q list" and ins :: "'e \<Rightarrow> 'q list" and outs :: "'e \<Rightarrow> 'q list"
  assumes moves: "inv c \<Longrightarrow> step c ev c' \<Longrightarrow> queue c @ ins ev = outs ev @ queue c'"
begin

lemma run_moves:
  "run step c evs c' \<Longrightarrow> inv c \<Longrightarrow> queue c @ concat (map ins evs) = concat (map outs evs) @ queue c'"
proof (induction rule: run.induct)
  case (more evs c' ev c'')
  have "queue c' @ ins ev = outs ev @ queue c''" using moves [OF run_keeps [OF more(1,4)] more(2)] .
  moreover note more(3) [OF more(4)]
  ultimately show ?case by (metis append_assoc concat.simps concat_append list.simps(8,9) map_append append_Nil2)
qed simp

end

end
