(* ===== verification/CString.thy ===== *)
theory CString
  imports Prelude
begin

text \<open>
  The parts of the C and C++ standard library the sources use on strings: \<^verbatim>\<open>atoi\<close>,
  \<^verbatim>\<open>strtol\<close>, \<^verbatim>\<open>strtoll\<close>, \<^verbatim>\<open>strncmp\<close>, \<^verbatim>\<open>std::to_string\<close> and the splitting of a
  line at a separator with \<^verbatim>\<open>std::getline\<close>. A C string is the list of its characters
  without the terminating null. The numeric functions follow the Linux C library: a value out of
  range is clamped to the range of \<^verbatim>\<open>long\<close>, and \<^verbatim>\<open>atoi\<close> truncates it to
  \<^verbatim>\<open>int\<close>.
\<close>

section \<open>Numbers\<close>

definition is_space :: "char \<Rightarrow> bool" where
  "is_space c \<longleftrightarrow> (let k = (of_char c :: nat) in k = 32 \<or> (9 \<le> k \<and> k \<le> 13))"

definition digit_of :: "nat \<Rightarrow> char \<Rightarrow> nat option" where
  "digit_of base c =
     (let k = (of_char c :: nat);
          d = (if 48 \<le> k \<and> k \<le> 57 then k - 48
               else if 97 \<le> k \<and> k \<le> 122 then k - 87
               else if 65 \<le> k \<and> k \<le> 90 then k - 55 else base)
      in if d < base then Some d else None)"

fun parse_digits :: "nat \<Rightarrow> nat \<Rightarrow> string \<Rightarrow> nat" where
  "parse_digits base acc [] = acc"
| "parse_digits base acc (c # cs) =
     (case digit_of base c of None \<Rightarrow> acc | Some d \<Rightarrow> parse_digits base (acc * base + d) cs)"

fun split_sign :: "string \<Rightarrow> bool \<times> string" where
  "split_sign (c # cs) = (if c = CHR ''-'' then (True, cs)
                          else if c = CHR ''+'' then (False, cs) else (False, c # cs))"
| "split_sign [] = (False, [])"

definition clamp_long :: "int \<Rightarrow> int" where
  "clamp_long v = max (- (2 ^ 63)) (min (2 ^ 63 - 1) v)"

definition strtol10 :: "string \<Rightarrow> int" where
  "strtol10 s =
     (let (neg, ds) = split_sign (dropWhile is_space s);
          v = int (parse_digits 10 0 ds)
      in clamp_long (if neg then - v else v))"

text \<open>Conversion of a \<^verbatim>\<open>long\<close> to an \<^verbatim>\<open>int\<close>: the low 32 bits, read as signed.\<close>

definition c_int_of_long :: "int \<Rightarrow> int" where
  "c_int_of_long v = signed_take_bit 31 v"

definition atoi :: "string \<Rightarrow> int" where
  "atoi s = c_int_of_long (strtol10 s)"

text \<open>
  \<^verbatim>\<open>strtoll(s, NULL, 0)\<close>: the base from the prefix, and whether the value was out of range
  (\<^verbatim>\<open>errno = ERANGE\<close>).
\<close>

definition detect_base :: "string \<Rightarrow> nat \<times> string" where
  "detect_base ds =
     (case ds of
        z # x # h # r \<Rightarrow>
          if z = CHR ''0'' \<and> (x = CHR ''x'' \<or> x = CHR ''X'') \<and> digit_of 16 h \<noteq> None
          then (16, h # r) else if z = CHR ''0'' then (8, ds) else (10, ds)
      | z # _ \<Rightarrow> if z = CHR ''0'' then (8, ds) else (10, ds)
      | [] \<Rightarrow> (10, ds))"

definition strtoll0 :: "string \<Rightarrow> int \<times> bool" where
  "strtoll0 s =
     (let (neg, r) = split_sign (dropWhile is_space s);
          (base, ds) = detect_base r;
          u = int (parse_digits base 0 ds);
          v = (if neg then - u else u)
      in (clamp_long v, clamp_long v \<noteq> v))"

text \<open>\<^verbatim>\<open>std::to_string\<close> of a non-negative number, and of an \<^verbatim>\<open>int\<close>.\<close>

definition digit_char :: "nat \<Rightarrow> char" where
  "digit_char d = char_of (48 + d)"

fun to_string_nat :: "nat \<Rightarrow> string" where
  "to_string_nat n = (if n < 10 then [digit_char n] else to_string_nat (n div 10) @ [digit_char (n mod 10)])"

declare to_string_nat.simps [simp del]

definition to_string_int :: "int \<Rightarrow> string" where
  "to_string_int i = (if i < 0 then CHR ''-'' # to_string_nat (nat (- i)) else to_string_nat (nat i))"

lemma of_char_digit_char: "d < 10 \<Longrightarrow> (of_char (digit_char d) :: nat) = 48 + d"
  by (simp add: digit_char_def of_char_of)

lemma digit_of_digit_char [simp]: "d < 10 \<Longrightarrow> digit_of 10 (digit_char d) = Some d"
  by (simp add: digit_of_def of_char_digit_char)

lemma is_space_digit_char [simp]: "d < 10 \<Longrightarrow> \<not> is_space (digit_char d)"
  by (simp add: is_space_def of_char_digit_char)

lemma digit_char_neq:
  assumes "d < 10" "(of_char c :: nat) < 48 \<or> 57 < (of_char c :: nat)"
  shows "digit_char d \<noteq> c"
  using assms of_char_digit_char [of d] by auto

lemma parse_digits_append:
  "(\<forall>c \<in> set ds. digit_of base c \<noteq> None) \<Longrightarrow>
   parse_digits base acc (ds @ rest) = parse_digits base (parse_digits base acc ds) rest"
  by (induction ds arbitrary: acc) (auto split: option.splits)

lemma to_string_nat_digits: "c \<in> set (to_string_nat n) \<Longrightarrow> \<exists>d < 10. c = digit_char d"
proof (induction n rule: to_string_nat.induct)
  case (1 n)
  show ?case
  proof (cases "n < 10")
    case True
    with "1.prems" show ?thesis by (subst (asm) to_string_nat.simps) auto
  next
    case False
    from "1.prems" have "c \<in> set (to_string_nat (n div 10)) \<or> c = digit_char (n mod 10)"
      by (subst (asm) to_string_nat.simps) (auto simp: False)
    with "1.IH" [OF False] show ?thesis by (metis mod_less_divisor zero_less_numeral)
  qed
qed

lemma to_string_nat_nonempty [simp]: "to_string_nat n \<noteq> []"
  by (subst to_string_nat.simps) simp

lemma parse_to_string_nat: "parse_digits 10 0 (to_string_nat n) = n"
proof (induction n rule: to_string_nat.induct)
  case (1 n)
  show ?case
  proof (cases "n < 10")
    case True
    then show ?thesis by (subst to_string_nat.simps) simp
  next
    case False
    have "\<forall>c \<in> set (to_string_nat (n div 10)). digit_of 10 c \<noteq> None"
      by (auto dest!: to_string_nat_digits)
    with "1.IH" [OF False] False show ?thesis
      by (subst to_string_nat.simps) (simp add: parse_digits_append)
  qed
qed

lemma parse_digits_stop:
  assumes "\<forall>c \<in> set ds. digit_of base c \<noteq> None" "rest = [] \<or> digit_of base (hd rest) = None"
  shows "parse_digits base acc (ds @ rest) = parse_digits base acc ds"
  unfolding parse_digits_append [OF assms(1)] using assms(2) by (cases rest) auto

lemma to_string_nat_hd: "\<exists>d ds. d < 10 \<and> to_string_nat n = digit_char d # ds"
  using to_string_nat_digits [of _ n] to_string_nat_nonempty [of n]
  by (metis list.exhaust list.set_intros(1))

lemma split_sign_to_string_nat:
  "split_sign (dropWhile is_space (to_string_nat n @ rest)) = (False, to_string_nat n @ rest)"
proof -
  obtain d ds where d: "d < 10" "to_string_nat n = digit_char d # ds"
    using to_string_nat_hd by blast
  have "digit_char d \<noteq> CHR ''-''" "digit_char d \<noteq> CHR ''+''"
    using d(1) digit_char_neq [of d "CHR ''-''"] digit_char_neq [of d "CHR ''+''"] by simp_all
  then show ?thesis using d by simp
qed

lemma strtol10_to_string_nat:
  assumes "n < 2 ^ 63" "rest = [] \<or> digit_of 10 (hd rest) = None"
  shows "strtol10 (to_string_nat n @ rest) = int n"
proof -
  have dig: "\<forall>c \<in> set (to_string_nat n). digit_of 10 c \<noteq> None"
    by (auto dest!: to_string_nat_digits)
  have "int n < 2 ^ 63" using assms(1) by (metis of_nat_less_iff of_nat_numeral of_nat_power)
  then show ?thesis
    using parse_digits_stop [OF dig assms(2), of 0]
    by (simp add: strtol10_def split_sign_to_string_nat parse_to_string_nat clamp_long_def)
qed

text \<open>A decimal number printed by \<^verbatim>\<open>to_string\<close> is read back by \<^verbatim>\<open>atoi\<close>.\<close>

lemma length_to_string_nat: "n < 10 ^ k \<Longrightarrow> 0 < k \<Longrightarrow> length (to_string_nat n) \<le> k"
proof (induction k arbitrary: n)
  case 0
  then show ?case by simp
next
  case (Suc k)
  show ?case
  proof (cases "n < 10")
    case True
    then show ?thesis by (simp add: to_string_nat.simps [of n])
  next
    case False
    then have "n div 10 < 10 ^ k" "0 < k" using Suc.prems by (auto intro: gr0I)
    then show ?thesis using Suc.IH [of "n div 10"] False by (simp add: to_string_nat.simps [of n])
  qed
qed

lemma atoi_to_string_nat:
  assumes "n < 2 ^ 31" "rest = [] \<or> digit_of 10 (hd rest) = None"
  shows "atoi (to_string_nat n @ rest) = int n"
proof -
  have "n < 2 ^ 63" using assms(1) by (rule less_le_trans) simp
  moreover have "signed_take_bit 31 (int n) = int n"
  proof (rule signed_take_bit_int_eq_self)
    show "- (2 ^ 31) \<le> int n" by (rule order_trans [of _ 0]) simp_all
    show "int n < 2 ^ 31" using assms(1) by (metis of_nat_less_iff of_nat_numeral of_nat_power)
  qed
  ultimately show ?thesis
    using strtol10_to_string_nat [OF _ assms(2)] by (simp add: atoi_def c_int_of_long_def)
qed

lemma atoi_range: "in_int32 (atoi s)"
proof -
  have "- (2 ^ 31) \<le> signed_take_bit 31 x \<and> signed_take_bit 31 x < 2 ^ 31" for x :: int
    using signed_take_bit_int_greater_eq_minus_exp [of 31 x] signed_take_bit_int_less_exp [of 31 x]
    by blast
  then show ?thesis by (simp add: in_int32_def atoi_def c_int_of_long_def)
qed

section \<open>Comparison\<close>

text \<open>
  \<^verbatim>\<open>strncmp(a, b, n) == 0\<close>: the first \<open>n\<close> bytes agree, the terminating nulls included.
\<close>

definition strncmp_eq :: "string \<Rightarrow> string \<Rightarrow> nat \<Rightarrow> bool" where
  "strncmp_eq a b n \<longleftrightarrow> take n (a @ [CHR 0x00]) = take n (b @ [CHR 0x00])"

definition c_string :: "string \<Rightarrow> bool" where
  "c_string s \<longleftrightarrow> CHR 0x00 \<notin> set s"

definition starts_with :: "string \<Rightarrow> string \<Rightarrow> bool" where
  "starts_with p s \<longleftrightarrow> take (length p) s = p"

lemma strncmp_eq_full:
  assumes "c_string a" "c_string b"
  shows "strncmp_eq a b (length a + 1) \<longleftrightarrow> a = b"
proof
  assume "strncmp_eq a b (length a + 1)"
  then have "a @ [CHR 0x00] = take (length a + 1) (b @ [CHR 0x00])"
    by (simp add: strncmp_eq_def)
  then have "prefix_ok": "\<exists>zs. b @ [CHR 0x00] = a @ [CHR 0x00] @ zs"
    by (metis append.assoc append_take_drop_id)
  then obtain zs where zs: "b @ [CHR 0x00] = a @ CHR 0x00 # zs" by auto
  have "zs = []"
  proof (rule ccontr)
    assume "zs \<noteq> []"
    then have "CHR 0x00 \<in> set (butlast (a @ CHR 0x00 # zs))" by (auto simp: butlast_append)
    with zs have "CHR 0x00 \<in> set b" by (metis butlast_snoc)
    with assms(2) show False by (simp add: c_string_def)
  qed
  with zs show "a = b" by simp
qed (simp add: strncmp_eq_def)

lemma strncmp_eq_prefix:
  assumes "c_string b"
  shows "strncmp_eq a b (length b) \<longleftrightarrow> starts_with b a"
proof (cases "length b \<le> length a")
  case True
  then show ?thesis by (simp add: strncmp_eq_def starts_with_def)
next
  case False
  have "take (length b) (a @ [CHR 0x00]) \<noteq> b"
  proof
    assume "take (length b) (a @ [CHR 0x00]) = b"
    with False have "b = a @ [CHR 0x00]" by (metis length_append_singleton not_less_eq_eq take_all)
    with assms show False by (simp add: c_string_def)
  qed
  moreover have "take (length b) a \<noteq> b"
    using False by (metis length_take min.absorb_iff2 nat_le_linear)
  ultimately show ?thesis by (simp add: strncmp_eq_def starts_with_def)
qed

section \<open>Splitting\<close>

text \<open>
  The loop \<^verbatim>\<open>for (str; std::getline(iss, str, sep);)\<close>: the fields between separators; a
  separator at the end of the text does not start another field.
\<close>

fun split_fields :: "char \<Rightarrow> string \<Rightarrow> string \<Rightarrow> string list" where
  "split_fields sep cur [] = (if cur = [] then [] else [cur])"
| "split_fields sep cur (c # cs) =
     (if c = sep then cur # split_fields sep [] cs else split_fields sep (cur @ [c]) cs)"

definition getline_fields :: "char \<Rightarrow> string \<Rightarrow> string list" where
  "getline_fields sep s = split_fields sep [] s"

lemma split_fields_sep:
  "sep \<notin> set f \<Longrightarrow> split_fields sep cur (f @ sep # rest) = (cur @ f) # split_fields sep [] rest"
  by (induction f arbitrary: cur) auto

lemma split_fields_end:
  "sep \<notin> set f \<Longrightarrow> f \<noteq> [] \<Longrightarrow> split_fields sep cur f = [cur @ f]"
proof (induction f arbitrary: cur)
  case Nil
  then show ?case by simp
next
  case (Cons c f)
  then show ?case by (cases "f = []") auto
qed

fun join_with :: "char \<Rightarrow> string list \<Rightarrow> string" where
  "join_with sep [] = []"
| "join_with sep [f] = f"
| "join_with sep (f # fs) = f @ sep # join_with sep fs"

lemma getline_fields_join:
  assumes "fs \<noteq> []" "\<forall>f \<in> set fs. sep \<notin> set f" "last fs \<noteq> []"
  shows "getline_fields sep (join_with sep fs) = fs"
proof -
  have "split_fields sep [] (join_with sep fs) = fs"
    using assms
  proof (induction sep fs rule: join_with.induct)
    case (1 sep)
    then show ?case by simp
  next
    case (2 sep f)
    then show ?case using split_fields_end [of sep f "[]"] by simp
  next
    case (3 sep f g fs)
    then show ?case using split_fields_sep [of sep f "[]"] by simp
  qed
  then show ?thesis by (simp add: getline_fields_def)
qed

end
