(* ===== verification/Tuner.thy ===== *)
theory Tuner
  imports Prelude
begin

text \<open>
  The collective tuner plugin, \<^verbatim>\<open>src/utuner/plugin.c\<close>: the tables of algorithm and protocol
  choices per cluster size, the search in them, and the entry points of the three versions of
  the tuner interface. Sizes are \<^typ>\<open>nat\<close>: every sum and product of the code stays below
  \<open>2 ^ 32\<close>, far from the range of \<^verbatim>\<open>size_t\<close>. The cost table of version 3 is kept as
  the 32-bit patterns of its floats, row by row, because the code looks at the same memory once
  as floats and once as a pointer.
\<close>

section \<open>Tables\<close>

datatype ncclFunc =
    ncclFuncBroadcast | ncclFuncReduce | ncclFuncAllGather | ncclFuncReduceScatter
  | ncclFuncAllReduce | ncclFuncSendRecv | ncclFuncSend | ncclFuncRecv

abbreviation (input) NCCL_NUM_ALGORITHMS :: int where "NCCL_NUM_ALGORITHMS \<equiv> 7"
abbreviation (input) NCCL_ALGO_UNDEF :: int where "NCCL_ALGO_UNDEF \<equiv> -1"
abbreviation (input) NCCL_ALGO_TREE :: int where "NCCL_ALGO_TREE \<equiv> 0"
abbreviation (input) NCCL_ALGO_RING :: int where "NCCL_ALGO_RING \<equiv> 1"

abbreviation (input) NCCL_NUM_PROTOCOLS :: int where "NCCL_NUM_PROTOCOLS \<equiv> 3"
abbreviation (input) NCCL_PROTO_UNDEF :: int where "NCCL_PROTO_UNDEF \<equiv> -1"
abbreviation (input) NCCL_PROTO_LL :: int where "NCCL_PROTO_LL \<equiv> 0"
abbreviation (input) NCCL_PROTO_LL128 :: int where "NCCL_PROTO_LL128 \<equiv> 1"
abbreviation (input) NCCL_PROTO_SIMPLE :: int where "NCCL_PROTO_SIMPLE \<equiv> 2"

record AlgoProto =
  ap_algo :: int
  ap_proto :: int
  ap_nbytes :: nat

record TunerConfig =
  tc_nranks :: nat
  tc_nnodes :: nat
  tc_choices :: "AlgoProto list"

text \<open>
  The \<^verbatim>\<open>nchoices\<close> field of the code is the number of initialised choices; here it is the
  length of the list.
\<close>

definition mk_ap :: "int \<Rightarrow> int \<Rightarrow> nat \<Rightarrow> AlgoProto" where
  "mk_ap a p shift = \<lparr> ap_algo = a, ap_proto = p, ap_nbytes = 2 ^ shift \<rparr>"

definition mk_cfg :: "nat \<Rightarrow> nat \<Rightarrow> AlgoProto list \<Rightarrow> TunerConfig" where
  "mk_cfg r n cs = \<lparr> tc_nranks = r, tc_nnodes = n, tc_choices = cs \<rparr>"

definition kTunerCfgNum :: nat where
  "kTunerCfgNum = 8"

definition allreduce_tuner_cfgs :: "TunerConfig list" where
  "allreduce_tuner_cfgs =
   [ mk_cfg 16 2
       [ mk_ap NCCL_ALGO_TREE NCCL_PROTO_LL128 20,
         mk_ap NCCL_ALGO_TREE NCCL_PROTO_LL128 23 ],
     mk_cfg 32 4
       [ mk_ap NCCL_ALGO_TREE NCCL_PROTO_LL128 21,
         mk_ap NCCL_ALGO_UNDEF NCCL_PROTO_UNDEF 22,
         mk_ap NCCL_ALGO_UNDEF NCCL_PROTO_UNDEF 24,
         mk_ap NCCL_ALGO_TREE NCCL_PROTO_LL128 25,
         mk_ap NCCL_ALGO_UNDEF NCCL_PROTO_UNDEF 26,
         mk_ap NCCL_ALGO_UNDEF NCCL_PROTO_UNDEF 27,
         mk_ap NCCL_ALGO_RING NCCL_PROTO_SIMPLE 28 ],
     mk_cfg 48 6
       [ mk_ap NCCL_ALGO_TREE NCCL_PROTO_LL128 21,
         mk_ap NCCL_ALGO_UNDEF NCCL_PROTO_UNDEF 22,
         mk_ap NCCL_ALGO_UNDEF NCCL_PROTO_UNDEF 24,
         mk_ap NCCL_ALGO_TREE NCCL_PROTO_LL128 25,
         mk_ap NCCL_ALGO_RING NCCL_PROTO_LL128 26,
         mk_ap NCCL_ALGO_RING NCCL_PROTO_LL128 27,
         mk_ap NCCL_ALGO_RING NCCL_PROTO_SIMPLE 28 ],
     mk_cfg 64 8
       [ mk_ap NCCL_ALGO_TREE NCCL_PROTO_LL128 21,
         mk_ap NCCL_ALGO_UNDEF NCCL_PROTO_UNDEF 22,
         mk_ap NCCL_ALGO_UNDEF NCCL_PROTO_UNDEF 24,
         mk_ap NCCL_ALGO_TREE NCCL_PROTO_LL128 25,
         mk_ap NCCL_ALGO_TREE NCCL_PROTO_LL128 26,
         mk_ap NCCL_ALGO_RING NCCL_PROTO_LL128 27,
         mk_ap NCCL_ALGO_UNDEF NCCL_PROTO_UNDEF 28,
         mk_ap NCCL_ALGO_RING NCCL_PROTO_SIMPLE 29 ],
     mk_cfg 80 10
       [ mk_ap NCCL_ALGO_TREE NCCL_PROTO_LL128 25,
         mk_ap NCCL_ALGO_TREE NCCL_PROTO_LL128 26,
         mk_ap NCCL_ALGO_RING NCCL_PROTO_LL128 27,
         mk_ap NCCL_ALGO_RING NCCL_PROTO_LL128 28 ],
     mk_cfg 96 12
       [ mk_ap NCCL_ALGO_TREE NCCL_PROTO_LL128 25,
         mk_ap NCCL_ALGO_TREE NCCL_PROTO_LL128 26,
         mk_ap NCCL_ALGO_RING NCCL_PROTO_LL128 27,
         mk_ap NCCL_ALGO_RING NCCL_PROTO_LL128 28 ],
     mk_cfg 112 14
       [ mk_ap NCCL_ALGO_TREE NCCL_PROTO_LL128 25,
         mk_ap NCCL_ALGO_TREE NCCL_PROTO_LL128 27,
         mk_ap NCCL_ALGO_RING NCCL_PROTO_LL128 28,
         mk_ap NCCL_ALGO_UNDEF NCCL_PROTO_UNDEF 29,
         mk_ap NCCL_ALGO_RING NCCL_PROTO_SIMPLE 30 ],
     mk_cfg 128 16
       [ mk_ap NCCL_ALGO_TREE NCCL_PROTO_LL128 26,
         mk_ap NCCL_ALGO_TREE NCCL_PROTO_LL128 27,
         mk_ap NCCL_ALGO_RING NCCL_PROTO_LL128 28,
         mk_ap NCCL_ALGO_RING NCCL_PROTO_LL128 29,
         mk_ap NCCL_ALGO_RING NCCL_PROTO_SIMPLE 30 ] ]"

definition reducescatter_tuner_cfgs :: "TunerConfig list" where
  "reducescatter_tuner_cfgs =
   [ mk_cfg 16 2 [ mk_ap NCCL_ALGO_RING NCCL_PROTO_LL 20 ],
     mk_cfg 32 4 [ mk_ap NCCL_ALGO_RING NCCL_PROTO_LL 20, mk_ap NCCL_ALGO_RING NCCL_PROTO_LL 21 ],
     mk_cfg 48 6 [ mk_ap NCCL_ALGO_RING NCCL_PROTO_LL 21, mk_ap NCCL_ALGO_RING NCCL_PROTO_LL 22 ],
     mk_cfg 64 8 [ mk_ap NCCL_ALGO_RING NCCL_PROTO_LL 21, mk_ap NCCL_ALGO_RING NCCL_PROTO_LL 22 ],
     mk_cfg 80 10 [ mk_ap NCCL_ALGO_RING NCCL_PROTO_LL 21, mk_ap NCCL_ALGO_RING NCCL_PROTO_LL 22 ],
     mk_cfg 96 12 [ mk_ap NCCL_ALGO_RING NCCL_PROTO_LL 22 ],
     mk_cfg 112 14 [],
     mk_cfg 128 16 [] ]"

definition allgather_tuner_cfgs :: "TunerConfig list" where
  "allgather_tuner_cfgs =
   [ mk_cfg 16 2 [ mk_ap NCCL_ALGO_RING NCCL_PROTO_LL 20 ],
     mk_cfg 32 4 [ mk_ap NCCL_ALGO_RING NCCL_PROTO_LL 20, mk_ap NCCL_ALGO_RING NCCL_PROTO_LL 21 ],
     mk_cfg 48 6 [ mk_ap NCCL_ALGO_RING NCCL_PROTO_LL 21 ],
     mk_cfg 64 8 [ mk_ap NCCL_ALGO_RING NCCL_PROTO_LL 21, mk_ap NCCL_ALGO_RING NCCL_PROTO_LL 22 ],
     mk_cfg 80 10 [ mk_ap NCCL_ALGO_RING NCCL_PROTO_LL 21, mk_ap NCCL_ALGO_RING NCCL_PROTO_LL 22 ],
     mk_cfg 96 12 [ mk_ap NCCL_ALGO_RING NCCL_PROTO_LL 22 ],
     mk_cfg 112 14 [],
     mk_cfg 128 16 [] ]"

section \<open>Search\<close>

text \<open>
  \<open>get_tuner_cfg_index\<close> scans the all-reduce table only, whatever the collective.
\<close>

definition get_tuner_cfg_index :: "nat \<Rightarrow> nat \<Rightarrow> int" where
  "get_tuner_cfg_index nRanks nNodes =
     (case find_index (\<lambda>c. tc_nranks c = nRanks \<and> tc_nnodes c = nNodes)
             (take kTunerCfgNum allreduce_tuner_cfgs) of
        Some i \<Rightarrow> int i
      | None \<Rightarrow> -1)"

text \<open>The loop \<^verbatim>\<open>while (i < choice_num - 1 && nbytes[i] < nBytes) i++\<close>.\<close>

function choice_scan :: "AlgoProto list \<Rightarrow> nat \<Rightarrow> nat \<Rightarrow> nat" where
  "choice_scan cs nBytes i =
     (if i < length cs - 1 \<and> ap_nbytes (cs ! i) < nBytes then choice_scan cs nBytes (Suc i) else i)"
  by pat_completeness auto
termination
  by (relation "measure (\<lambda>(cs, b, i). length cs - i)") auto

declare choice_scan.simps [simp del]

text \<open>The body of \<open>get_algo_proto\<close> once the table row is known and not empty.\<close>

definition choose_ap :: "AlgoProto list \<Rightarrow> nat \<Rightarrow> int \<times> int" where
  "choose_ap cs nBytes =
     (let undef = (NCCL_ALGO_UNDEF, NCCL_ALGO_UNDEF);
          n = length cs;
          i = choice_scan cs nBytes 0;
          lastb = ap_nbytes (cs ! (n - 1)) in
      if i = 0 \<and> nBytes < ap_nbytes (cs ! 0) * 3 div 4 then undef
      else if i = n - 1 \<and> nBytes > lastb + min (lastb div 2) (2 * 2 ^ 27) then undef
      else let j = (if 0 < i \<and> nBytes < (ap_nbytes (cs ! (i - 1)) + ap_nbytes (cs ! i)) div 2
                    then i - 1 else i)
           in (ap_algo (cs ! j), ap_proto (cs ! j)))"

fun tuner_table :: "ncclFunc \<Rightarrow> TunerConfig list option" where
  "tuner_table ncclFuncAllReduce = Some allreduce_tuner_cfgs"
| "tuner_table ncclFuncAllGather = Some allgather_tuner_cfgs"
| "tuner_table ncclFuncReduceScatter = Some reducescatter_tuner_cfgs"
| "tuner_table _ = None"

definition get_algo_proto :: "int \<Rightarrow> ncclFunc \<Rightarrow> nat \<Rightarrow> int \<times> int" where
  "get_algo_proto cfgIndex collType nBytes =
     (if cfgIndex < 0 \<or> cfgIndex \<ge> int kTunerCfgNum then (NCCL_ALGO_UNDEF, NCCL_ALGO_UNDEF)
      else case tuner_table collType of
             None \<Rightarrow> (NCCL_ALGO_UNDEF, NCCL_ALGO_UNDEF)
           | Some cfgs \<Rightarrow>
               let cs = tc_choices (cfgs ! nat cfgIndex) in
               if length cs = 0 then (NCCL_ALGO_UNDEF, NCCL_ALGO_UNDEF) else choose_ap cs nBytes)"

section \<open>Entry points\<close>

text \<open>
  Version 3 receives the cost table as a \<^verbatim>\<open>float**\<close> but uses it as a row-major array of
  floats; its guard \<^verbatim>\<open>*collCostTable == NULL\<close> reads the first eight bytes of that array.
  \<open>None\<close> is a null pointer. The code overwrites one float with \<open>0.0\<close> (pattern \<open>0\<close>)
  unless it is \<open>-1.0\<close> (pattern \<open>0xBF800000\<close>, its only representation).
\<close>

definition NCCL_ALGO_PROTO_IGNORE :: u32 where
  "NCCL_ALGO_PROTO_IGNORE = 0xBF800000"

definition starts_null :: "u32 list \<Rightarrow> bool" where
  "starts_null t \<longleftrightarrow> t ! 0 = 0 \<and> t ! 1 = 0"

definition cost_entry :: "int \<Rightarrow> int \<Rightarrow> nat" where
  "cost_entry algo proto = nat (algo * NCCL_NUM_PROTOCOLS + proto)"

definition pluginGetCollInfo_v3 ::
    "int option \<Rightarrow> ncclFunc \<Rightarrow> nat \<Rightarrow> u32 list option \<Rightarrow> ncclResult \<times> u32 list option" where
  "pluginGetCollInfo_v3 context collType nBytes collCostTable =
     (case (context, collCostTable) of
        (Some cfg, Some t) \<Rightarrow>
          if starts_null t then (ncclInvalidArgument, collCostTable)
          else let (algo, proto) = get_algo_proto cfg collType nBytes in
            if NCCL_ALGO_UNDEF < algo \<and> algo < NCCL_NUM_ALGORITHMS \<and>
               NCCL_PROTO_UNDEF < proto \<and> proto < NCCL_NUM_PROTOCOLS
            then (if t ! cost_entry algo proto \<noteq> NCCL_ALGO_PROTO_IGNORE
                  then (ncclSuccess, Some (t[cost_entry algo proto := 0]))
                  else (ncclSuccess, Some t))
            else (ncclSuccess, Some t)
      | _ \<Rightarrow> (ncclInvalidArgument, collCostTable))"

text \<open>Version 2 keeps the row index in a context of its own per communicator.\<close>

definition pluginInit_v2 :: "nat \<Rightarrow> nat \<Rightarrow> ncclResult \<times> int" where
  "pluginInit_v2 nRanks nNodes = (ncclSuccess, get_tuner_cfg_index nRanks nNodes)"

definition pluginGetCollInfo_v2 :: "int \<Rightarrow> ncclFunc \<Rightarrow> nat \<Rightarrow> ncclResult \<times> int \<times> int" where
  "pluginGetCollInfo_v2 context collType nBytes = (ncclSuccess, get_algo_proto context collType nBytes)"

text \<open>
  Version 1 keeps one row index per process, in static variables: \<^verbatim>\<open>n\<close>,
  \<^verbatim>\<open>nranks\<close>, \<^verbatim>\<open>nnodes\<close> of \<open>pluginInit_v1\<close> and
  \<^verbatim>\<open>tuner_cfg_index\<close>.
\<close>

record tuner_v1 =
  tv_n :: nat
  tv_nranks :: nat
  tv_nnodes :: nat
  tv_index :: int

definition tuner_v1_start :: tuner_v1 where
  "tuner_v1_start = \<lparr> tv_n = 0, tv_nranks = 0, tv_nnodes = 0, tv_index = -1 \<rparr>"

definition pluginInit_v1 :: "nat \<Rightarrow> nat \<Rightarrow> tuner_v1 \<Rightarrow> ncclResult \<times> tuner_v1" where
  "pluginInit_v1 nRanks nNodes st =
     (let st1 = st\<lparr>tv_n := tv_n st + 1\<rparr> in
      if tv_n st = 0 then
        (ncclSuccess, st1\<lparr>tv_nranks := nRanks, tv_nnodes := nNodes,
                         tv_index := get_tuner_cfg_index nRanks nNodes\<rparr>)
      else if \<not> (tv_nranks st = nRanks \<and> tv_nnodes st = nNodes) then
        (ncclSuccess, st1\<lparr>tv_index := -1\<rparr>)
      else (ncclSuccess, st1))"

definition pluginGetCollInfo_v1 :: "ncclFunc \<Rightarrow> nat \<Rightarrow> tuner_v1 \<Rightarrow> ncclResult \<times> int \<times> int" where
  "pluginGetCollInfo_v1 collType nBytes st = (ncclSuccess, get_algo_proto (tv_index st) collType nBytes)"

section \<open>The search picks the nearest measured size\<close>

lemma choice_scan_props:
  assumes "i < length cs"
  shows "i \<le> choice_scan cs b i" and "choice_scan cs b i < length cs"
    and "\<forall>k. i \<le> k \<and> k < choice_scan cs b i \<longrightarrow> ap_nbytes (cs ! k) < b"
    and "choice_scan cs b i = length cs - 1 \<or> b \<le> ap_nbytes (cs ! choice_scan cs b i)"
proof -
  have "i \<le> choice_scan cs b i \<and> choice_scan cs b i < length cs \<and>
        (\<forall>k. i \<le> k \<and> k < choice_scan cs b i \<longrightarrow> ap_nbytes (cs ! k) < b) \<and>
        (choice_scan cs b i = length cs - 1 \<or> b \<le> ap_nbytes (cs ! choice_scan cs b i))"
    using assms
  proof (induction cs b i rule: choice_scan.induct)
    case (1 cs b i)
    show ?case
    proof (cases "i < length cs - 1 \<and> ap_nbytes (cs ! i) < b")
      case True
      then have eq: "choice_scan cs b i = choice_scan cs b (Suc i)"
        by (simp add: choice_scan.simps [of cs b i])
      from True "1.IH" have IH: "Suc i \<le> choice_scan cs b (Suc i)"
        "choice_scan cs b (Suc i) < length cs"
        "\<forall>k. Suc i \<le> k \<and> k < choice_scan cs b (Suc i) \<longrightarrow> ap_nbytes (cs ! k) < b"
        "choice_scan cs b (Suc i) = length cs - 1 \<or> b \<le> ap_nbytes (cs ! choice_scan cs b (Suc i))"
        by auto
      have "ap_nbytes (cs ! k) < b" if "i \<le> k" "k < choice_scan cs b (Suc i)" for k
        using that IH(3) True by (cases "k = i") auto
      with IH show ?thesis unfolding eq by auto
    next
      case False
      then have eq: "choice_scan cs b i = i"
        unfolding choice_scan.simps [of cs b i] by (rule if_not_P)
      from False "1.prems" show ?thesis unfolding eq by auto
    qed
  qed
  then show "i \<le> choice_scan cs b i" "choice_scan cs b i < length cs"
    "\<forall>k. i \<le> k \<and> k < choice_scan cs b i \<longrightarrow> ap_nbytes (cs ! k) < b"
    "choice_scan cs b i = length cs - 1 \<or> b \<le> ap_nbytes (cs ! choice_scan cs b i)"
    by blast+
qed

text \<open>
  What the tables promise: sizes strictly increasing and even, so that the midpoints the code
  computes with an integer division are exact.
\<close>

definition wf_choices :: "AlgoProto list \<Rightarrow> bool" where
  "wf_choices cs \<longleftrightarrow> sorted_wrt (<) (map ap_nbytes cs) \<and> (\<forall>c \<in> set cs. even (ap_nbytes c))"

definition size_dist :: "AlgoProto \<Rightarrow> nat \<Rightarrow> int" where
  "size_dist c b = \<bar>int (ap_nbytes c) - int b\<bar>"

text \<open>\<open>nearest_choice cs b j\<close>: choice \<open>j\<close> is nearest to size \<open>b\<close>, the larger one on a tie.\<close>

definition nearest_choice :: "AlgoProto list \<Rightarrow> nat \<Rightarrow> nat \<Rightarrow> bool" where
  "nearest_choice cs b j \<longleftrightarrow> j < length cs \<and>
     (\<forall>k < length cs. size_dist (cs ! j) b \<le> size_dist (cs ! k) b \<and>
                      (j < k \<longrightarrow> size_dist (cs ! j) b < size_dist (cs ! k) b))"

definition tuned_range :: "AlgoProto list \<Rightarrow> nat \<Rightarrow> bool" where
  "tuned_range cs b \<longleftrightarrow>
     ap_nbytes (hd cs) * 3 div 4 \<le> b \<and>
     b \<le> ap_nbytes (last cs) + min (ap_nbytes (last cs) div 2) (2 ^ 28)"

lemma wf_choices_less:
  "wf_choices cs \<Longrightarrow> i < k \<Longrightarrow> k < length cs \<Longrightarrow> ap_nbytes (cs ! i) < ap_nbytes (cs ! k)"
  by (auto simp: wf_choices_def sorted_wrt_iff_nth_less)

lemma nearest_choice_scan:
  fixes b :: nat
  assumes wf: "wf_choices cs" and ne: "cs \<noteq> []"
  defines "i \<equiv> choice_scan cs b 0"
  shows "nearest_choice cs b
    (if 0 < i \<and> b < (ap_nbytes (cs ! (i - 1)) + ap_nbytes (cs ! i)) div 2 then i - 1 else i)"
proof -
  let ?nb = "\<lambda>k. ap_nbytes (cs ! k)"
  from ne have n0: "0 < length cs" by simp
  note sc = choice_scan_props [OF n0, of b, folded i_def]
  note lt = wf_choices_less [OF wf]
  have mono: "?nb k \<le> ?nb l" if "k \<le> l" "l < length cs" for k l
    using that lt [of k l] by (cases "k = l") auto
  show ?thesis
  proof (cases "0 < i \<and> b < (?nb (i - 1) + ?nb i) div 2")
    case True
    then have i: "0 < i" and b: "2 * b < ?nb (i - 1) + ?nb i" by auto
    have below: "?nb (i - 1) < b" using sc(3) i by simp
    have "size_dist (cs ! (i - 1)) b \<le> size_dist (cs ! k) b \<and>
          (i - 1 < k \<longrightarrow> size_dist (cs ! (i - 1)) b < size_dist (cs ! k) b)"
      if k: "k < length cs" for k
    proof (cases "i \<le> k")
      case True
      with mono [of i k] k have "?nb i \<le> ?nb k" by simp
      with b below show ?thesis by (simp add: size_dist_def)
    next
      case False
      with mono [of k "i - 1"] sc(2) have "?nb k \<le> ?nb (i - 1)" by simp
      with below False show ?thesis by (auto simp: size_dist_def)
    qed
    with True sc(2) show ?thesis by (simp add: nearest_choice_def)
  next
    case False
    have near: "b \<le> ?nb i \<or> i = length cs - 1" using sc(4) by auto
    have "size_dist (cs ! i) b \<le> size_dist (cs ! k) b \<and>
          (i < k \<longrightarrow> size_dist (cs ! i) b < size_dist (cs ! k) b)"
      if k: "k < length cs" for k
    proof (cases "k < i")
      case True
      then have i: "0 < i" by simp
      with False have b: "(?nb (i - 1) + ?nb i) div 2 \<le> b" by simp
      have "even (?nb (i - 1) + ?nb i)" using wf sc(2) by (auto simp: wf_choices_def)
      with b have b2: "?nb (i - 1) + ?nb i \<le> 2 * b" by presburger
      have le: "?nb k \<le> ?nb (i - 1)" using True mono [of k "i - 1"] sc(2) by simp
      have "?nb (i - 1) < b" using sc(3) i by simp
      moreover have "?nb (i - 1) < ?nb i" using lt [of "i - 1" i] i sc(2) by simp
      ultimately show ?thesis using b2 le True by (auto simp: size_dist_def)
    next
      case False
      show ?thesis
      proof (cases "k = i")
        case True
        then show ?thesis by simp
      next
        case nk: False
        with False near k have "b \<le> ?nb i" by auto
        moreover have "?nb i < ?nb k" using lt [of i k] False nk k by simp
        ultimately show ?thesis by (simp add: size_dist_def)
      qed
    qed
    with False sc(2) show ?thesis by (auto simp: nearest_choice_def)
  qed
qed

lemma choose_ap_spec:
  assumes wf: "wf_choices cs" and ne: "cs \<noteq> []"
  shows "\<not> tuned_range cs b \<Longrightarrow> choose_ap cs b = (NCCL_ALGO_UNDEF, NCCL_PROTO_UNDEF)"
    and "tuned_range cs b \<Longrightarrow>
      \<exists>j. nearest_choice cs b j \<and> choose_ap cs b = (ap_algo (cs ! j), ap_proto (cs ! j))"
proof -
  let ?i = "choice_scan cs b 0"
  from ne have n0: "0 < length cs" by simp
  note sc = choice_scan_props [OF n0, of b]
  have hd: "hd cs = cs ! 0" and la: "last cs = cs ! (length cs - 1)"
    using ne by (simp_all add: hd_conv_nth last_conv_nth)
  have low: "?i = 0" if "b < ap_nbytes (cs ! 0) * 3 div 4"
  proof (rule ccontr)
    assume "?i \<noteq> 0"
    with sc(3) have "ap_nbytes (cs ! 0) < b" by simp
    with that show False by simp
  qed
  have high: "?i = length cs - 1" if "ap_nbytes (cs ! (length cs - 1)) < b"
  proof (rule ccontr)
    assume i: "?i \<noteq> length cs - 1"
    with sc(4) have "b \<le> ap_nbytes (cs ! ?i)" by simp
    moreover have "ap_nbytes (cs ! ?i) < ap_nbytes (cs ! (length cs - 1))"
      using wf_choices_less [OF wf, of ?i "length cs - 1"] i sc(2) by simp
    ultimately show False using that by simp
  qed
  have p28: "(2 :: nat) * 2 ^ 27 = 2 ^ 28" by simp
  show "choose_ap cs b = (NCCL_ALGO_UNDEF, NCCL_PROTO_UNDEF)" if "\<not> tuned_range cs b"
    using that low high unfolding choose_ap_def tuned_range_def hd la Let_def p28 by auto
  assume t: "tuned_range cs b"
  define j where "j = (if 0 < ?i \<and> b < (ap_nbytes (cs ! (?i - 1)) + ap_nbytes (cs ! ?i)) div 2
                       then ?i - 1 else ?i)"
  have "choose_ap cs b = (ap_algo (cs ! j), ap_proto (cs ! j))"
    using t unfolding choose_ap_def tuned_range_def hd la Let_def p28 j_def by auto
  with nearest_choice_scan [OF wf ne, of b, folded j_def]
  show "\<exists>j. nearest_choice cs b j \<and> choose_ap cs b = (ap_algo (cs ! j), ap_proto (cs ! j))"
    by blast
qed

section \<open>The tables of the code\<close>

lemmas tuner_table_defs =
  allreduce_tuner_cfgs_def reducescatter_tuner_cfgs_def allgather_tuner_cfgs_def mk_cfg_def mk_ap_def

lemma tuner_table_cases:
  "tuner_table f = Some cfgs \<Longrightarrow>
   cfgs = allreduce_tuner_cfgs \<or> cfgs = allgather_tuner_cfgs \<or> cfgs = reducescatter_tuner_cfgs"
  by (cases f) auto

lemma tuner_tables_wf:
  "list_all (\<lambda>c. wf_choices (tc_choices c)) allreduce_tuner_cfgs"
  "list_all (\<lambda>c. wf_choices (tc_choices c)) allgather_tuner_cfgs"
  "list_all (\<lambda>c. wf_choices (tc_choices c)) reducescatter_tuner_cfgs"
  by (simp_all add: tuner_table_defs wf_choices_def)

lemma tuner_tables_length:
  "length allreduce_tuner_cfgs = 8" "length allgather_tuner_cfgs = 8"
  "length reducescatter_tuner_cfgs = 8"
  by (simp_all add: tuner_table_defs)

lemma tuner_table_row_wf:
  assumes "tuner_table f = Some cfgs" "i < kTunerCfgNum"
  shows "wf_choices (tc_choices (cfgs ! i))"
  using tuner_table_cases [OF assms(1)] assms(2) tuner_tables_wf
  by (auto simp: list_all_length tuner_tables_length kTunerCfgNum_def)

text \<open>Every entry of every table is either undefined in both components or inside the cost table.\<close>

definition ap_in_range :: "int \<times> int \<Rightarrow> bool" where
  "ap_in_range r \<longleftrightarrow> r = (NCCL_ALGO_UNDEF, NCCL_PROTO_UNDEF) \<or>
     (0 \<le> fst r \<and> fst r < NCCL_NUM_ALGORITHMS \<and> 0 \<le> snd r \<and> snd r < NCCL_NUM_PROTOCOLS)"

lemma tuner_tables_in_range:
  "list_all (\<lambda>c. list_all (\<lambda>a. ap_in_range (ap_algo a, ap_proto a)) (tc_choices c)) allreduce_tuner_cfgs"
  "list_all (\<lambda>c. list_all (\<lambda>a. ap_in_range (ap_algo a, ap_proto a)) (tc_choices c)) allgather_tuner_cfgs"
  "list_all (\<lambda>c. list_all (\<lambda>a. ap_in_range (ap_algo a, ap_proto a)) (tc_choices c)) reducescatter_tuner_cfgs"
  by (simp_all add: tuner_table_defs ap_in_range_def)

lemma tuner_table_row_in_range:
  assumes "tuner_table f = Some cfgs" "i < kTunerCfgNum" "j < length (tc_choices (cfgs ! i))"
  shows "ap_in_range (ap_algo (tc_choices (cfgs ! i) ! j), ap_proto (tc_choices (cfgs ! i) ! j))"
  using tuner_table_cases [OF assms(1)] assms(2,3) tuner_tables_in_range
  by (auto simp: list_all_length tuner_tables_length kTunerCfgNum_def)

lemma get_algo_proto_row:
  assumes "tuner_table f = Some cfgs" "i < kTunerCfgNum" "tc_choices (cfgs ! i) \<noteq> []"
  shows "get_algo_proto (int i) f b = choose_ap (tc_choices (cfgs ! i)) b"
  using assms by (simp add: get_algo_proto_def)

lemma get_algo_proto_in_range: "ap_in_range (get_algo_proto c f b)"
proof -
  have undef: "ap_in_range (NCCL_ALGO_UNDEF, NCCL_ALGO_UNDEF)" by (simp add: ap_in_range_def)
  show ?thesis
  proof (cases "c < 0 \<or> c \<ge> int kTunerCfgNum \<or> tuner_table f = None \<or>
                (\<exists>cfgs. tuner_table f = Some cfgs \<and> tc_choices (cfgs ! nat c) = [])")
    case True
    then show ?thesis using undef by (auto simp: get_algo_proto_def split: option.splits)
  next
    case False
    then obtain cfgs where f: "tuner_table f = Some cfgs" and c: "nat c < kTunerCfgNum" "c = int (nat c)"
      and ne: "tc_choices (cfgs ! nat c) \<noteq> []" by auto
    have eq: "get_algo_proto c f b = choose_ap (tc_choices (cfgs ! nat c)) b"
      using get_algo_proto_row [OF f c(1) ne, of b] c(2) by simp
    note spec = choose_ap_spec [OF tuner_table_row_wf [OF f c(1)] ne, of b]
    show ?thesis
    proof (cases "tuned_range (tc_choices (cfgs ! nat c)) b")
      case True
      then show ?thesis
        using spec(2) tuner_table_row_in_range [OF f c(1)] unfolding eq
        by (fastforce simp: nearest_choice_def)
    next
      case False
      then show ?thesis using spec(1) undef unfolding eq by simp
    qed
  qed
qed

lemma get_tuner_cfg_index_rows:
  "get_tuner_cfg_index nRanks nNodes =
     (if nRanks = 16 \<and> nNodes = 2 then 0 else if nRanks = 32 \<and> nNodes = 4 then 1
      else if nRanks = 48 \<and> nNodes = 6 then 2 else if nRanks = 64 \<and> nNodes = 8 then 3
      else if nRanks = 80 \<and> nNodes = 10 then 4 else if nRanks = 96 \<and> nNodes = 12 then 5
      else if nRanks = 112 \<and> nNodes = 14 then 6 else if nRanks = 128 \<and> nNodes = 16 then 7
      else -1)"
  by (auto simp: get_tuner_cfg_index_def tuner_table_defs kTunerCfgNum_def split: if_splits)

section \<open>Properties\<close>

text \<open>
  C40: for every tuned cluster size and collective, the search returns the algorithm and
  protocol of the measured size nearest to the message (the larger one on a tie) whenever the
  message lies between three quarters of the first size and half above the last one (capped at
  256 MiB above), and no choice outside that range.
\<close>
theorem get_algo_proto_nearest:
  assumes "tuner_table f = Some cfgs" "i < kTunerCfgNum" "tc_choices (cfgs ! i) = cs" "cs \<noteq> []"
  shows "if tuned_range cs b
         then \<exists>j. nearest_choice cs b j \<and>
                  get_algo_proto (int i) f b = (ap_algo (cs ! j), ap_proto (cs ! j))
         else get_algo_proto (int i) f b = (NCCL_ALGO_UNDEF, NCCL_PROTO_UNDEF)"
proof -
  have "get_algo_proto (int i) f b = choose_ap cs b"
    using get_algo_proto_row [OF assms(1,2), of b] assms(3,4) by simp
  moreover have "wf_choices cs" using tuner_table_row_wf [OF assms(1,2)] assms(3) by simp
  ultimately show ?thesis using choose_ap_spec [of cs b] assms(4) by auto
qed

theorem get_algo_proto_nearest_witness:
  "\<exists>j. nearest_choice (tc_choices (allreduce_tuner_cfgs ! 4)) 50000000 j \<and>
       get_algo_proto (int 4) ncclFuncAllReduce 50000000 =
         (ap_algo (tc_choices (allreduce_tuner_cfgs ! 4) ! j),
          ap_proto (tc_choices (allreduce_tuner_cfgs ! 4) ! j))"
proof -
  have "tuned_range (tc_choices (allreduce_tuner_cfgs ! 4)) 50000000"
    by (simp add: tuned_range_def tuner_table_defs)
  moreover have "tc_choices (allreduce_tuner_cfgs ! 4) \<noteq> []" by (simp add: tuner_table_defs)
  moreover have "4 < kTunerCfgNum" by (simp add: kTunerCfgNum_def)
  ultimately show ?thesis
    using get_algo_proto_nearest [of ncclFuncAllReduce allreduce_tuner_cfgs 4
        "tc_choices (allreduce_tuner_cfgs ! 4)" 50000000] by simp
qed

text \<open>
  The cluster lookup knows exactly the clusters of 2, 4, ..., 16 nodes with eight ranks
  each, at row \<open>nodes / 2 - 1\<close>, and answers -1 for any other one; and although it reads the
  all-reduce table only, the row it returns describes the same cluster in every table.
\<close>
theorem get_tuner_cfg_index_correct:
  "get_tuner_cfg_index nRanks nNodes =
     (if even nNodes \<and> 2 \<le> nNodes \<and> nNodes \<le> 16 \<and> nRanks = 8 * nNodes
      then int (nNodes div 2) - 1 else -1) \<and>
   map (\<lambda>c. (tc_nranks c, tc_nnodes c)) allgather_tuner_cfgs =
     map (\<lambda>c. (tc_nranks c, tc_nnodes c)) allreduce_tuner_cfgs \<and>
   map (\<lambda>c. (tc_nranks c, tc_nnodes c)) reducescatter_tuner_cfgs =
     map (\<lambda>c. (tc_nranks c, tc_nnodes c)) allreduce_tuner_cfgs"
proof -
  note rows = get_tuner_cfg_index_rows [of nRanks nNodes]
  have "get_tuner_cfg_index nRanks nNodes =
     (if even nNodes \<and> 2 \<le> nNodes \<and> nNodes \<le> 16 \<and> nRanks = 8 * nNodes
      then int (nNodes div 2) - 1 else -1)"
  proof (cases "even nNodes \<and> 2 \<le> nNodes \<and> nNodes \<le> 16")
    case True
    then have "nNodes = 2 \<or> nNodes = 4 \<or> nNodes = 6 \<or> nNodes = 8 \<or> nNodes = 10 \<or> nNodes = 12 \<or>
      nNodes = 14 \<or> nNodes = 16" by presburger
    then show ?thesis by (elim disjE) (simp_all add: get_tuner_cfg_index_rows)
  next
    case False
    then have "nNodes \<noteq> 2" "nNodes \<noteq> 4" "nNodes \<noteq> 6" "nNodes \<noteq> 8" "nNodes \<noteq> 10" "nNodes \<noteq> 12"
      "nNodes \<noteq> 14" "nNodes \<noteq> 16" by auto
    with False show ?thesis unfolding rows by auto
  qed
  then show ?thesis by (simp add: tuner_table_defs)
qed

text \<open>
  Version 3 of the tuner changes at most one cost, the one of the chosen algorithm and
  protocol, which lies inside the seven by three table; it sets it to zero, and it never
  revives an entry that NCCL marked as ignored.
\<close>
theorem pluginGetCollInfo_v3_frame:
  assumes "length t = 21" "pluginGetCollInfo_v3 (Some c) f b (Some t) = (res, Some t')"
  shows "length t' = 21 \<and>
    (\<forall>k < 21. t' ! k \<noteq> t ! k \<longrightarrow>
       t' ! k = 0 \<and> t ! k \<noteq> NCCL_ALGO_PROTO_IGNORE \<and> res = ncclSuccess \<and>
       k = cost_entry (fst (get_algo_proto c f b)) (snd (get_algo_proto c f b)) \<and>
       0 \<le> fst (get_algo_proto c f b))"
proof -
  obtain a p where ap: "get_algo_proto c f b = (a, p)" by (cases "get_algo_proto c f b")
  have "length t' = 21"
    using assms ap by (auto simp: pluginGetCollInfo_v3_def split: if_splits)
  moreover have "t' ! k = 0 \<and> t ! k \<noteq> NCCL_ALGO_PROTO_IGNORE \<and> res = ncclSuccess \<and>
      k = cost_entry a p \<and> 0 \<le> a" if "k < 21" "t' ! k \<noteq> t ! k" for k
    using that assms ap
    by (auto simp: pluginGetCollInfo_v3_def list_update_nth_cases split: if_splits)
  ultimately show ?thesis unfolding ap by auto
qed

theorem pluginGetCollInfo_v3_frame_witness:
  "((replicate 21 (1 :: u32))[1 := 0]) ! 1 = 0 \<and> replicate 21 1 ! 1 \<noteq> NCCL_ALGO_PROTO_IGNORE \<and>
   1 = cost_entry (fst (get_algo_proto 0 ncclFuncAllReduce 1048576))
                  (snd (get_algo_proto 0 ncclFuncAllReduce 1048576)) \<and>
   0 \<le> fst (get_algo_proto 0 ncclFuncAllReduce 1048576)"
proof -
  let ?t = "replicate 21 (1 :: u32)"
  have "get_algo_proto 0 ncclFuncAllReduce 1048576 = (NCCL_ALGO_TREE, NCCL_PROTO_LL128)"
    by (simp add: get_algo_proto_def kTunerCfgNum_def tuner_table_defs choose_ap_def
        choice_scan.simps)
  then have "pluginGetCollInfo_v3 (Some 0) ncclFuncAllReduce 1048576 (Some ?t) =
      (ncclSuccess, Some (?t[1 := 0]))"
    by (simp add: pluginGetCollInfo_v3_def starts_null_def cost_entry_def
        NCCL_ALGO_PROTO_IGNORE_def)
  from pluginGetCollInfo_v3_frame [OF _ this]
  have "\<forall>k < 21. (?t[1 := 0]) ! k \<noteq> ?t ! k \<longrightarrow>
      (?t[1 := 0]) ! k = 0 \<and> ?t ! k \<noteq> NCCL_ALGO_PROTO_IGNORE \<and> ncclSuccess = ncclSuccess \<and>
      k = cost_entry (fst (get_algo_proto 0 ncclFuncAllReduce 1048576))
                     (snd (get_algo_proto 0 ncclFuncAllReduce 1048576)) \<and>
      0 \<le> fst (get_algo_proto 0 ncclFuncAllReduce 1048576)" by simp
  from this [rule_format, of 1] show ?thesis by simp
qed

text \<open>One process-wide index for all the communicators of version 1.\<close>

fun tuner_v1_run :: "(nat \<times> nat) list \<Rightarrow> tuner_v1 \<Rightarrow> tuner_v1" where
  "tuner_v1_run [] st = st"
| "tuner_v1_run ((r, n) # cs) st = tuner_v1_run cs (snd (pluginInit_v1 r n st))"

lemma tuner_v1_run_later:
  "0 < tv_n st \<Longrightarrow>
   tv_index (tuner_v1_run cs st) =
     (if \<forall>c \<in> set cs. c = (tv_nranks st, tv_nnodes st) then tv_index st else -1)"
proof (induction cs arbitrary: st)
  case Nil
  then show ?case by simp
next
  case (Cons c cs)
  obtain r n where c: "c = (r, n)" by (cases c)
  show ?case
  proof (cases "(r, n) = (tv_nranks st, tv_nnodes st)")
    case True
    then show ?thesis using Cons c by (simp add: pluginInit_v1_def)
  next
    case False
    then show ?thesis
      using Cons.prems c Cons.IH [of "snd (pluginInit_v1 r n st)"]
      by (auto simp: pluginInit_v1_def Let_def)
  qed
qed

text \<open>
  Over any sequence of communicators, the tuner of version 1 uses the row of the first
  one as long as all have the same number of ranks and nodes, and once a different one has been
  initialised it falls back to the default for good, also for the first communicator.
\<close>
theorem pluginInit_v1_shared_index:
  "tv_index (tuner_v1_run ((r, n) # cs) tuner_v1_start) =
     (if \<forall>c \<in> set cs. c = (r, n) then get_tuner_cfg_index r n else -1)"
  using tuner_v1_run_later [of "snd (pluginInit_v1 r n tuner_v1_start)" cs]
  by (simp add: pluginInit_v1_def tuner_v1_start_def)

theorem pluginInit_v1_shared_index_witness:
  "tv_index (tuner_v1_run [(16, 2), (32, 4), (16, 2)] tuner_v1_start) = -1 \<and>
   tv_index (tuner_v1_run [(32, 4), (32, 4)] tuner_v1_start) = 1"
  using pluginInit_v1_shared_index [of 16 2 "[(32, 4), (16, 2)]"]
    pluginInit_v1_shared_index [of 32 4 "[(32, 4)]"] get_tuner_cfg_index_rows [of 32 4]
  by simp

text \<open>
  The type-punned guard of version 3: a cost table whose first two costs are zero is taken for
  a null pointer and the call is rejected.
\<close>

lemma pluginGetCollInfo_v3_zero_prefix:
  "pluginGetCollInfo_v3 (Some c) f b (Some (0 # 0 # t)) = (ncclInvalidArgument, Some (0 # 0 # t))"
  by (simp add: pluginGetCollInfo_v3_def starts_null_def)

end
