(* ===== verification/IfList.thy ===== *)
theory IfList
  imports CString
begin

text \<open>
  Helpers of \<^verbatim>\<open>src/unet/misc.cc\<close>: the parser of interface lists such as
  \<^verbatim>\<open>"mlx5_0:1,mlx5_1"\<close> (used for \<^verbatim>\<open>NCCL_IB_HCA\<close>, \<^verbatim>\<open>NCCL_SOCKET_IFNAME\<close> and
  for address strings), the matching of an interface against such a list, and the cached
  environment parameters (\<^verbatim>\<open>ncclLoadParam\<close> and the \<^verbatim>\<open>NCCL_PARAM\<close> macro of
  \<^verbatim>\<open>src/include/nccl/param.h\<close>). The parser of the code writes each name into a buffer of 64
  characters and does not check its length: a write past the buffer, or past the end of the list,
  is the result \<open>None\<close>.
\<close>

section \<open>Interface lists\<close>

record netIf =
  if_prefix :: string
  if_port :: int

definition IF_PREFIX_SIZE :: nat where
  "IF_PREFIX_SIZE = 64"

text \<open>
  \<open>emit_if\<close>: terminate the pending name, store its port, \<^verbatim>\<open>ifNum++; ifC = 0\<close>. The pending
  name has its characters in \<^verbatim>\<open>prefix[0..ifC-1]\<close>.
\<close>

definition emit_if :: "nat \<Rightarrow> netIf list \<Rightarrow> string \<Rightarrow> int \<Rightarrow> netIf list option" where
  "emit_if maxList ifs pre port =
     (if pre = [] then Some ifs
      else if length ifs < maxList \<and> length pre < IF_PREFIX_SIZE
      then Some (ifs @ [\<lparr> if_prefix = pre, if_port = port \<rparr>]) else None)"

text \<open>
  The \<^verbatim>\<open>do ... while (ifNum < maxList && c)\<close> loop: the text from \<^verbatim>\<open>ptr\<close> on, the entries
  stored so far, and the pending name.
\<close>

function parse_loop :: "nat \<Rightarrow> string \<Rightarrow> netIf list \<Rightarrow> string \<Rightarrow> netIf list option" where
  "parse_loop maxList s ifs pre =
     (case s of
        [] \<Rightarrow> emit_if maxList ifs pre (-1)
      | c # cs \<Rightarrow>
          if c = CHR '':'' then
            (case emit_if maxList ifs pre (atoi cs) of
               None \<Rightarrow> None
             | Some ifs' \<Rightarrow>
                 (case dropWhile (\<lambda>x. x \<noteq> CHR '','') cs of
                    [] \<Rightarrow> Some ifs'
                  | _ # r \<Rightarrow> if length ifs' < maxList then parse_loop maxList r ifs' [] else Some ifs'))
          else if c = CHR '','' then
            (case emit_if maxList ifs pre (-1) of
               None \<Rightarrow> None
             | Some ifs' \<Rightarrow> if length ifs' < maxList then parse_loop maxList cs ifs' [] else Some ifs')
          else if length ifs < maxList \<and> length pre < IF_PREFIX_SIZE
          then parse_loop maxList cs ifs (pre @ [c]) else None)"
  by pat_completeness auto
termination
proof (relation "measure (\<lambda>(m, s, ifs, pre). length s)", goal_cases)
  case (2 maxList s ifs pre c cs ifs' a r)
  have "length (dropWhile (\<lambda>x. x \<noteq> CHR '','') cs) \<le> length cs" by (rule length_dropWhile_le)
  with 2 show ?case by simp
qed simp_all

declare parse_loop.simps [simp del]

definition parseStringList :: "string option \<Rightarrow> nat \<Rightarrow> netIf list option" where
  "parseStringList str maxList =
     (case str of None \<Rightarrow> Some [] | Some s \<Rightarrow> parse_loop maxList s [] [])"

section \<open>Matching\<close>

definition matchIf :: "string \<Rightarrow> string \<Rightarrow> bool \<Rightarrow> bool" where
  "matchIf str ref matchExact =
     (let matchLen = (if matchExact then length str + 1 else length ref)
      in strncmp_eq str ref matchLen)"

definition matchPort :: "int \<Rightarrow> int \<Rightarrow> bool" where
  "matchPort port1 port2 =
     (if port1 = -1 then True else if port2 = -1 then True else port1 = port2)"

fun match_any :: "string \<Rightarrow> int \<Rightarrow> netIf list \<Rightarrow> bool \<Rightarrow> bool" where
  "match_any str port [] matchExact = False"
| "match_any str port (n # ns) matchExact =
     (if matchIf str (if_prefix n) matchExact \<and> matchPort port (if_port n) then True
      else match_any str port ns matchExact)"

definition matchIfList :: "string \<Rightarrow> int \<Rightarrow> netIf list \<Rightarrow> bool \<Rightarrow> bool" where
  "matchIfList str port ifList matchExact =
     (if length ifList = 0 then True else match_any str port ifList matchExact)"

section \<open>Environment parameters\<close>

text \<open>
  A parameter is a cached 64-bit value, \<open>INT64_MIN\<close> while not loaded. \<open>ncclLoadParam\<close> gets the
  value of the environment variable (\<open>None\<close>: not set), \<open>ncclParam\<close> is the getter the macro
  defines: it returns the value and the new cache.
\<close>

definition INT64_MIN :: int where
  "INT64_MIN = - (2 ^ 63)"

definition ncclLoadParam :: "string option \<Rightarrow> int \<Rightarrow> int \<Rightarrow> int \<Rightarrow> int" where
  "ncclLoadParam env deftVal uninitialized cache =
     (if cache = uninitialized then
        (case env of
           None \<Rightarrow> deftVal
         | Some str \<Rightarrow>
             if length str > 0
             then (case strtoll0 str of (value, erange) \<Rightarrow> if erange then deftVal else value)
             else deftVal)
      else cache)"

definition ncclParam :: "string option \<Rightarrow> int \<Rightarrow> int \<Rightarrow> int \<times> int" where
  "ncclParam env deftVal cache =
     (let cache' = (if cache = INT64_MIN then ncclLoadParam env deftVal INT64_MIN cache else cache)
      in (cache', cache'))"

section \<open>The parser against a specification by fields\<close>

text \<open>
  A list is the text cut at commas; a field is a name, optionally followed by a colon and a port;
  fields without a name count for nothing.
\<close>

definition field_name :: "string \<Rightarrow> string" where
  "field_name f = takeWhile (\<lambda>x. x \<noteq> CHR '':'') f"

definition field_if :: "string \<Rightarrow> netIf" where
  "field_if f = \<lparr> if_prefix = field_name f,
                  if_port = (case dropWhile (\<lambda>x. x \<noteq> CHR '':'') f of [] \<Rightarrow> -1 | _ # p \<Rightarrow> atoi p) \<rparr>"

definition fields_ifs :: "string list \<Rightarrow> netIf list" where
  "fields_ifs fs = map field_if (filter (\<lambda>f. field_name f \<noteq> []) fs)"

definition names_fit :: "string list \<Rightarrow> bool" where
  "names_fit fs \<longleftrightarrow> (\<forall>f \<in> set fs. length (field_name f) < IF_PREFIX_SIZE)"

lemma split_fields_first:
  "split_fields sep cur s =
     (case dropWhile (\<lambda>x. x \<noteq> sep) s of
        [] \<Rightarrow> if cur @ takeWhile (\<lambda>x. x \<noteq> sep) s = [] then [] else [cur @ takeWhile (\<lambda>x. x \<noteq> sep) s]
      | _ # r \<Rightarrow> (cur @ takeWhile (\<lambda>x. x \<noteq> sep) s) # split_fields sep [] r)"
proof (induction s arbitrary: cur)
  case Nil
  then show ?case by simp
next
  case (Cons c s)
  show ?case
  proof (cases "c = sep")
    case True
    then show ?thesis by simp
  next
    case False
    then show ?thesis
      using Cons.IH [of "cur @ [c]"] by (cases "dropWhile (\<lambda>x. x \<noteq> sep) s") (simp_all del: dropWhile_eq_Nil_conv)
  qed
qed

lemma parse_digits_cut:
  "digit_of base (hd rest) = None \<Longrightarrow> rest \<noteq> [] \<Longrightarrow>
   parse_digits base acc (ds @ rest) = parse_digits base acc ds"
  by (induction ds arbitrary: acc) (auto simp: neq_Nil_conv split: option.splits)

lemma atoi_cut:
  "digit_of 10 (hd rest) = None \<Longrightarrow> rest \<noteq> [] \<Longrightarrow> hd rest \<noteq> CHR ''-'' \<Longrightarrow> hd rest \<noteq> CHR ''+'' \<Longrightarrow>
   \<not> is_space (hd rest) \<Longrightarrow> atoi (ds @ rest) = atoi ds"
proof -
  assume r: "digit_of 10 (hd rest) = None" "rest \<noteq> []" "hd rest \<noteq> CHR ''-''"
    "hd rest \<noteq> CHR ''+''" "\<not> is_space (hd rest)"
  have cut: "parse_digits 10 0 (xs @ rest) = parse_digits 10 0 xs" for xs
    using r(1,2) by (rule parse_digits_cut)
  from cut [of "[]"] have cut0: "parse_digits 10 0 rest = 0" by simp
  have drop: "dropWhile is_space (ds @ rest) = dropWhile is_space ds @ rest"
    using r(2,5) by (cases rest) (auto simp: dropWhile_append)
  show "atoi (ds @ rest) = atoi ds"
  proof (cases "dropWhile is_space ds")
    case Nil
    obtain x xs where "rest = x # xs" using r(2) by (cases rest) auto
    then show ?thesis
      using r(3,4) cut0 unfolding atoi_def strtol10_def drop Nil by simp
  next
    case (Cons x xs)
    then show ?thesis using cut [of xs] cut [of "x # xs"] by (auto simp: atoi_def strtol10_def drop)
  qed
qed

lemma atoi_cut_comma: "atoi (ds @ CHR '','' # rest) = atoi ds"
  by (rule atoi_cut) (simp_all add: digit_of_def is_space_def)

lemma takeWhile_upto: "x \<notin> set pre \<Longrightarrow> takeWhile (\<lambda>y. y \<noteq> x) (pre @ ys) = pre @ takeWhile (\<lambda>y. y \<noteq> x) ys"
  by (rule takeWhile_append2) auto

lemma dropWhile_upto: "x \<notin> set pre \<Longrightarrow> dropWhile (\<lambda>y. y \<noteq> x) (pre @ ys) = dropWhile (\<lambda>y. y \<noteq> x) ys"
  by (rule dropWhile_append2) auto

lemma field_name_plain: "CHR '':'' \<notin> set pre \<Longrightarrow> field_name pre = pre"
  using takeWhile_upto [of "CHR '':''" pre "[]"] by (simp add: field_name_def)

lemma field_if_plain:
  "CHR '':'' \<notin> set pre \<Longrightarrow> field_if pre = \<lparr> if_prefix = pre, if_port = -1 \<rparr>"
proof -
  assume nc: "CHR '':'' \<notin> set pre"
  then have "dropWhile (\<lambda>x. x \<noteq> CHR '':'') pre = []" unfolding dropWhile_eq_Nil_conv by auto
  with nc show ?thesis by (simp add: field_if_def field_name_plain del: dropWhile_eq_Nil_conv)
qed

lemma field_name_colon: "CHR '':'' \<notin> set pre \<Longrightarrow> field_name (pre @ CHR '':'' # p) = pre"
  by (simp add: field_name_def takeWhile_upto)

lemma field_if_colon:
  "CHR '':'' \<notin> set pre \<Longrightarrow>
   field_if (pre @ CHR '':'' # p) = \<lparr> if_prefix = pre, if_port = atoi p \<rparr>"
  by (simp add: field_if_def field_name_colon dropWhile_upto)

lemma names_fit_pending:
  assumes "names_fit (split_fields CHR '','' pre s)" "CHR '':'' \<notin> set pre"
  shows "length pre < IF_PREFIX_SIZE"
proof -
  have "pre = [] \<or> (\<exists>b fs. split_fields CHR '','' pre s = (pre @ b) # fs)"
    unfolding split_fields_first [of "CHR '',''" pre s] by (auto split: list.split)
  then show ?thesis
  proof
    assume "\<exists>b fs. split_fields CHR '','' pre s = (pre @ b) # fs"
    then obtain b fs where "split_fields CHR '','' pre s = (pre @ b) # fs" by blast
    then have "length (field_name (pre @ b)) < IF_PREFIX_SIZE"
      using assms(1) by (simp add: names_fit_def)
    then show ?thesis using assms(2) by (simp add: field_name_def takeWhile_upto)
  qed (simp add: IF_PREFIX_SIZE_def)
qed

lemma fields_ifs_Cons:
  "fields_ifs (f # fs) = (if field_name f = [] then fields_ifs fs else field_if f # fields_ifs fs)"
  by (simp add: fields_ifs_def)

lemma fields_ifs_Nil [simp]: "fields_ifs [] = []"
  by (simp add: fields_ifs_def)

lemma take_full_append: "length xs = n \<Longrightarrow> take n (xs @ ys) = xs"
  by simp

lemma emit_if_fields:
  assumes "length ifs < maxList" "length pre < IF_PREFIX_SIZE"
  shows "emit_if maxList ifs pre port =
    Some (ifs @ (if pre = [] then [] else [\<lparr> if_prefix = pre, if_port = port \<rparr>]))"
  using assms by (simp add: emit_if_def)

lemma parse_loop_fields:
  "length ifs < maxList \<Longrightarrow> CHR '':'' \<notin> set pre \<Longrightarrow> names_fit (split_fields CHR '','' pre s) \<Longrightarrow>
   parse_loop maxList s ifs pre = Some (take maxList (ifs @ fields_ifs (split_fields CHR '','' pre s)))"
proof (induction maxList s ifs pre rule: parse_loop.induct)
  case (1 maxList s ifs pre)
  note lt = "1.prems"(1) and nc = "1.prems"(2) and fit = "1.prems"(3)
  have pre_fit: "length pre < IF_PREFIX_SIZE" using fit nc by (rule names_fit_pending)
  show ?case
  proof (cases s)
    case Nil
    then show ?thesis
      using lt nc pre_fit
      by (auto simp: parse_loop.simps [of maxList "[]"] emit_if_fields fields_ifs_Cons field_if_plain
          field_name_plain)
  next
    case (Cons c cs)
    show ?thesis
    proof (cases "c = CHR '':''")
      case True
      let ?ifs = "ifs @ (if pre = [] then [] else [\<lparr> if_prefix = pre, if_port = atoi cs \<rparr>])"
      let ?a = "takeWhile (\<lambda>x. x \<noteq> CHR '','') cs"
      have emit: "emit_if maxList ifs pre (atoi cs) = Some ?ifs"
        using emit_if_fields [OF lt] pre_fit Cons True by simp
      have spl: "split_fields CHR '','' pre s =
        (case dropWhile (\<lambda>x. x \<noteq> CHR '','') cs of [] \<Rightarrow> [pre @ CHR '':'' # ?a]
         | _ # r \<Rightarrow> (pre @ CHR '':'' # ?a) # split_fields CHR '','' [] r)"
        using Cons True split_fields_first [of "CHR '',''" "pre @ [CHR '':'']" cs]
        by (cases "dropWhile (\<lambda>x. x \<noteq> CHR '','') cs") (simp_all del: dropWhile_eq_Nil_conv)
      have at: "atoi cs = atoi ?a"
      proof (cases "dropWhile (\<lambda>x. x \<noteq> CHR '','') cs")
        case Nil
        then show ?thesis by (metis append_Nil2 takeWhile_dropWhile_id)
      next
        case (Cons x r)
        then have "x = CHR '',''" using hd_dropWhile [of "\<lambda>x. x \<noteq> CHR '',''" cs] by simp
        then show ?thesis
          using atoi_cut_comma [of ?a r] takeWhile_dropWhile_id [of "\<lambda>x. x \<noteq> CHR '',''" cs] Cons by simp
      qed
      have eq: "parse_loop maxList s ifs pre =
        (case dropWhile (\<lambda>x. x \<noteq> CHR '','') cs of [] \<Rightarrow> Some ?ifs
         | _ # r \<Rightarrow> if length ?ifs < maxList then parse_loop maxList r ?ifs [] else Some ?ifs)"
        unfolding Cons
        by (subst parse_loop.simps) (simp only: list.case True if_True refl emit option.case)
      show ?thesis
      proof (cases "dropWhile (\<lambda>x. x \<noteq> CHR '','') cs")
        case Nil
        have eq': "parse_loop maxList s ifs pre = Some ?ifs" unfolding eq Nil by simp
        have spl': "split_fields CHR '','' pre s = [pre @ CHR '':'' # ?a]" unfolding spl Nil by simp
        show ?thesis
          unfolding eq' spl' at using lt nc
          by (simp add: fields_ifs_Cons field_name_colon field_if_colon)
      next
        case d: (Cons x r)
        have eq': "parse_loop maxList s ifs pre =
            (if length ?ifs < maxList then parse_loop maxList r ?ifs [] else Some ?ifs)"
          unfolding eq d by simp
        have spl': "split_fields CHR '','' pre s =
            (pre @ CHR '':'' # ?a) # split_fields CHR '','' [] r" unfolding spl d by simp
        have fs: "ifs @ fields_ifs (split_fields CHR '','' pre s) =
            ?ifs @ fields_ifs (split_fields CHR '','' [] r)"
          unfolding spl' at using nc by (simp add: fields_ifs_Cons field_name_colon field_if_colon)
        have "parse_loop maxList r ?ifs [] =
            Some (take maxList (?ifs @ fields_ifs (split_fields CHR '','' [] r)))"
          if "length ?ifs < maxList"
          using "1.IH"(1) [OF Cons True emit d that] that fit spl' by (simp add: names_fit_def)
        moreover have "length ?ifs \<le> maxList" using lt by simp
        ultimately show ?thesis unfolding eq' fs by (cases "length ?ifs < maxList") simp_all
      qed
    next
      case nocolon: False
      show ?thesis
      proof (cases "c = CHR '',''")
        case True
        let ?ifs = "ifs @ (if pre = [] then [] else [\<lparr> if_prefix = pre, if_port = -1 \<rparr>])"
        have emit: "emit_if maxList ifs pre (-1) = Some ?ifs"
          using emit_if_fields [OF lt] pre_fit Cons True by simp
        have eq: "parse_loop maxList s ifs pre =
          (if length ?ifs < maxList then parse_loop maxList cs ?ifs [] else Some ?ifs)"
          unfolding Cons True
          by (subst parse_loop.simps) (simp only: list.case emit option.case if_True refl, simp)
        have spl: "split_fields CHR '','' pre s = pre # split_fields CHR '','' [] cs"
          using Cons True by simp
        have "parse_loop maxList cs ?ifs [] =
            Some (take maxList (?ifs @ fields_ifs (split_fields CHR '','' [] cs)))"
          if "length ?ifs < maxList"
          using "1.IH"(2) [OF Cons nocolon True emit that] that fit spl by (simp add: names_fit_def)
        moreover have "length ?ifs \<le> maxList" using lt by simp
        moreover have fs: "ifs @ fields_ifs (split_fields CHR '','' pre s) =
            ?ifs @ fields_ifs (split_fields CHR '','' [] cs)"
          unfolding spl using nc by (simp add: fields_ifs_Cons field_name_plain field_if_plain)
        ultimately show ?thesis unfolding eq fs by (cases "length ?ifs < maxList") simp_all
      next
        case False
        have spl: "split_fields CHR '','' pre s = split_fields CHR '','' (pre @ [c]) cs"
          using Cons False by simp
        from pre_fit
        have eq: "parse_loop maxList s ifs pre = parse_loop maxList cs ifs (pre @ [c])"
          and side: "length ifs < maxList \<and> length pre < IF_PREFIX_SIZE"
          using Cons nocolon False lt by (simp_all add: parse_loop.simps [of maxList "c # cs"])
        show ?thesis
          unfolding eq spl
          using "1.IH"(3) [OF Cons nocolon False side] lt nc nocolon fit spl by simp
      qed
    qed
  qed
qed

section \<open>Printing an interface list\<close>

text \<open>A list as a user writes it: \<^verbatim>\<open>name\<close> or \<^verbatim>\<open>name:port\<close>, separated by commas.\<close>

definition show_if :: "netIf \<Rightarrow> string" where
  "show_if n = (if if_port n = -1 then if_prefix n
                else if_prefix n @ CHR '':'' # to_string_nat (nat (if_port n)))"

definition show_ifs :: "netIf list \<Rightarrow> string" where
  "show_ifs ns = join_with CHR '','' (map show_if ns)"

definition wf_if :: "netIf \<Rightarrow> bool" where
  "wf_if n \<longleftrightarrow> if_prefix n \<noteq> [] \<and> length (if_prefix n) < IF_PREFIX_SIZE \<and>
     CHR '':'' \<notin> set (if_prefix n) \<and> CHR '','' \<notin> set (if_prefix n) \<and>
     (if_port n = -1 \<or> (0 \<le> if_port n \<and> if_port n < 2 ^ 31))"

lemma comma_not_digit: "CHR '','' \<notin> set (to_string_nat k)"
proof
  assume "CHR '','' \<in> set (to_string_nat k)"
  then obtain d where "d < 10" "CHR '','' = digit_char d" using to_string_nat_digits by blast
  moreover have "digit_char d \<noteq> CHR '',''" by (rule digit_char_neq) (simp_all add: \<open>d < 10\<close>)
  ultimately show False by simp
qed

lemma field_if_show_if:
  assumes "wf_if n"
  shows "field_if (show_if n) = n" and "field_name (show_if n) = if_prefix n"
proof -
  have "if_port n = -1 \<or> (if_port n \<noteq> -1 \<and> 0 \<le> if_port n \<and> nat (if_port n) < 2 ^ 31)"
    using assms by (auto simp: wf_if_def nat_less_iff)
  then show "field_if (show_if n) = n" "field_name (show_if n) = if_prefix n"
    using assms atoi_to_string_nat [of "nat (if_port n)" "[]"]
    by (auto simp: show_if_def wf_if_def field_if_plain field_if_colon field_name_plain
        field_name_colon)
qed

lemma show_if_no_comma: "wf_if n \<Longrightarrow> CHR '','' \<notin> set (show_if n)"
  by (auto simp: show_if_def wf_if_def comma_not_digit)

section \<open>Properties\<close>

text \<open>
  The character loop of \<open>parseStringList\<close> computes the specification by fields: it stays in
  bounds and returns the first \<open>maxList\<close> entries of the text cut at commas, whenever every
  name of the text is shorter than the 64-character buffer.
\<close>
theorem parseStringList_fields:
  assumes "0 < maxList" "names_fit (getline_fields CHR '','' s)"
  shows "parseStringList (Some s) maxList =
           Some (take maxList (fields_ifs (getline_fields CHR '','' s)))"
  using parse_loop_fields [of "[]" maxList "[]" s] assms
  by (simp add: parseStringList_def getline_fields_def)

theorem parseStringList_fields_witness:
  "parseStringList (Some ''mlx5_0:1,,:7,mlx5_1'') 32 =
     Some (take 32 (fields_ifs (getline_fields CHR '','' ''mlx5_0:1,,:7,mlx5_1'')))"
  by (rule parseStringList_fields)
    (simp_all add: names_fit_def getline_fields_def field_name_def IF_PREFIX_SIZE_def)

text \<open>
  C39: a list of interfaces printed as names and ports is read back unchanged, if it is not
  longer than the caller's array.
\<close>
theorem parseStringList_roundtrip:
  assumes "ns \<noteq> []" "length ns \<le> maxList" "list_all wf_if ns"
  shows "parseStringList (Some (show_ifs ns)) maxList = Some ns"
proof -
  have wf: "\<And>n. n \<in> set ns \<Longrightarrow> wf_if n" using assms(3) by (simp add: list_all_iff)
  have flds: "getline_fields CHR '','' (show_ifs ns) = map show_if ns"
    unfolding show_ifs_def
  proof (rule getline_fields_join)
    show "last (map show_if ns) \<noteq> []"
      using assms(1) wf by (auto simp: last_map show_if_def wf_if_def)
  qed (use assms(1) wf in \<open>auto dest: show_if_no_comma\<close>)
  have "names_fit (map show_if ns)"
    using wf by (auto simp: names_fit_def field_if_show_if) (simp add: wf_if_def)
  moreover have "fields_ifs (map show_if ns) = ns"
    using wf by (induction ns) (auto simp: fields_ifs_Cons field_if_show_if, auto simp: wf_if_def)
  moreover have "0 < maxList" using assms(1,2) by (cases ns) auto
  ultimately show ?thesis
    using parse_loop_fields [of "[]" maxList "[]" "show_ifs ns"] assms(2) flds
    by (simp add: parseStringList_def getline_fields_def)
qed

theorem parseStringList_roundtrip_witness:
  "parseStringList (Some (show_ifs [\<lparr> if_prefix = ''mlx5_0'', if_port = 1 \<rparr>,
       \<lparr> if_prefix = ''mlx5_1'', if_port = -1 \<rparr>])) 32 =
   Some [\<lparr> if_prefix = ''mlx5_0'', if_port = 1 \<rparr>, \<lparr> if_prefix = ''mlx5_1'', if_port = -1 \<rparr>]"
  by (rule parseStringList_roundtrip) (simp_all add: wf_if_def IF_PREFIX_SIZE_def)

text \<open>
  The unchecked buffer: a name of 64 characters or more is written past its end.
\<close>

lemma parse_loop_long_name:
  "length pre \<le> IF_PREFIX_SIZE \<Longrightarrow> IF_PREFIX_SIZE \<le> length pre + length s \<Longrightarrow>
   CHR '':'' \<notin> set s \<Longrightarrow> CHR '','' \<notin> set s \<Longrightarrow> parse_loop maxList s ifs pre = None"
proof (induction s arbitrary: pre)
  case Nil
  then show ?case
    by (auto simp: parse_loop.simps [of maxList "[]"] emit_if_def IF_PREFIX_SIZE_def split: if_splits)
next
  case (Cons c s)
  then show ?case by (auto simp: parse_loop.simps [of maxList "c # s"])
qed

text \<open>
  A first name of 64 characters or more, whatever the rest, makes the parser write outside
  its buffer: the length of names taken from the environment is not checked.
\<close>
theorem parseStringList_overflow:
  assumes "IF_PREFIX_SIZE \<le> length s" "CHR '':'' \<notin> set s" "CHR '','' \<notin> set s"
  shows "parseStringList (Some s) maxList = None"
  using parse_loop_long_name [of "[]" s maxList "[]"] assms by (simp add: parseStringList_def)

theorem parseStringList_overflow_witness:
  "parseStringList (Some (replicate 64 CHR ''a'')) 32 = None"
  by (rule parseStringList_overflow) (simp_all add: IF_PREFIX_SIZE_def)

text \<open>
  An interface matches a list when the list is empty, or one of its entries is the
  interface's name (exact search) or a prefix of it (default search) and one of the two ports is
  -1 or the ports agree.
\<close>
theorem matchIfList_correct:
  assumes "c_string str" "\<forall>n \<in> set ns. c_string (if_prefix n)"
  shows "matchIfList str port ns exact \<longleftrightarrow>
    ns = [] \<or> (\<exists>n \<in> set ns. (if exact then if_prefix n = str else starts_with (if_prefix n) str) \<and>
                  (port = -1 \<or> if_port n = -1 \<or> if_port n = port))"
proof -
  have port: "matchPort p q \<longleftrightarrow> p = -1 \<or> q = -1 \<or> q = p" for p q
    by (auto simp: matchPort_def)
  have nm: "matchIf str r exact \<longleftrightarrow> (if exact then r = str else starts_with r str)"
    if "c_string r" for r
    using strncmp_eq_full [OF assms(1) that] strncmp_eq_prefix [OF that]
    by (auto simp: matchIf_def)
  have "match_any str port ns exact \<longleftrightarrow>
    (\<exists>n \<in> set ns. (if exact then if_prefix n = str else starts_with (if_prefix n) str) \<and>
                  (port = -1 \<or> if_port n = -1 \<or> if_port n = port))"
    using assms(2) by (induction ns) (auto simp: port nm)
  then show ?thesis by (simp add: matchIfList_def)
qed

theorem matchIfList_correct_witness:
  "matchIfList ''mlx5_10'' 1 [\<lparr> if_prefix = ''mlx5_1'', if_port = 1 \<rparr>] False \<and>
   \<not> matchIfList ''mlx5_10'' 1 [\<lparr> if_prefix = ''mlx5_1'', if_port = 1 \<rparr>] True"
  using matchIfList_correct [of "''mlx5_10''" "[\<lparr> if_prefix = ''mlx5_1'', if_port = 1 \<rparr>]" 1 False]
    matchIfList_correct [of "''mlx5_10''" "[\<lparr> if_prefix = ''mlx5_1'', if_port = 1 \<rparr>]" 1 True]
  by (simp add: c_string_def starts_with_def)

text \<open>
  A parameter is read from the environment once: whatever the environment says later, the
  getter keeps the first value, provided that value is not \<open>INT64_MIN\<close>, the mark of a
  parameter that was never loaded.
\<close>
theorem ncclParam_cached:
  assumes "fst (ncclParam env d INT64_MIN) \<noteq> INT64_MIN"
  shows "ncclParam env' d (snd (ncclParam env d INT64_MIN)) = ncclParam env d INT64_MIN"
  using assms by (simp add: ncclParam_def Let_def)

theorem ncclParam_cached_witness:
  "ncclParam (Some ''8'') 2 (snd (ncclParam (Some ''0x10'') 2 INT64_MIN)) =
     ncclParam (Some ''0x10'') 2 INT64_MIN \<and> fst (ncclParam (Some ''0x10'') 2 INT64_MIN) = 16"
proof -
  have v: "fst (ncclParam (Some ''0x10'') 2 INT64_MIN) = 16"
    by (simp add: ncclParam_def ncclLoadParam_def strtoll0_def detect_base_def digit_of_def
        is_space_def clamp_long_def INT64_MIN_def)
  with ncclParam_cached [of "Some ''0x10''" 2 "Some ''8''"] show ?thesis
    by (simp add: INT64_MIN_def)
qed

end
