(* ===== verification/Pool.thy ===== *)
theory Pool
  imports Prelude
begin

text \<open>
  The interface of a pool of numbered slots, shared by the request table of a communicator
  (\<^verbatim>\<open>ncclIbGetRequest\<close> and \<^verbatim>\<open>ncclIbFreeRequest\<close>) and by the counter groups of a statistics
  segment (\<^verbatim>\<open>StatsShm::allocStat\<close> and \<^verbatim>\<open>freeStat\<close>). A client holds the slots it was given until
  it releases them; the laws say that a slot is never given twice and that the pool refuses
  exactly when all its slots are held.
\<close>

locale slot_pool =
  fixes inv :: "'s \<Rightarrow> bool"
    and slots :: "'s \<Rightarrow> nat set"
    and avail :: "'s \<Rightarrow> nat set"
    and alloc :: "'s \<Rightarrow> (nat \<times> 's) option"
    and release :: "nat \<Rightarrow> 's \<Rightarrow> 's"
  assumes avail_sub: "inv s \<Longrightarrow> avail s \<subseteq> slots s"
    and finite_slots: "inv s \<Longrightarrow> finite (slots s)"
    and alloc_Some: "inv s \<Longrightarrow> alloc s = Some (i, s') \<Longrightarrow>
      i \<in> avail s \<and> avail s' = avail s - {i} \<and> slots s' = slots s \<and> inv s'"
    and alloc_None: "inv s \<Longrightarrow> alloc s = None \<longleftrightarrow> avail s = {}"
    and release_held: "inv s \<Longrightarrow> i \<in> slots s - avail s \<Longrightarrow>
      avail (release i s) = insert i (avail s) \<and> slots (release i s) = slots s \<and> inv (release i s)"
begin

definition held :: "'s \<Rightarrow> nat set" where
  "held s = slots s - avail s"

lemma held_alloc:
  assumes "inv s" "alloc s = Some (i, s')"
  shows "i \<notin> held s" "held s' = insert i (held s)" "inv s'" "slots s' = slots s"
  using alloc_Some [OF assms] avail_sub [OF assms(1)] by (auto simp: held_def)

lemma held_release:
  assumes "inv s" "i \<in> held s"
  shows "held (release i s) = held s - {i}" "inv (release i s)" "slots (release i s) = slots s"
  using release_held [OF assms(1), of i] assms(2) by (auto simp: held_def)

lemma alloc_fails_iff: "inv s \<Longrightarrow> alloc s = None \<longleftrightarrow> card (held s) = card (slots s)"
proof -
  assume i: "inv s"
  have "card (held s) = card (slots s) - card (avail s)" unfolding held_def
    using finite_slots [OF i] avail_sub [OF i] by (simp add: card_Diff_subset finite_subset)
  moreover have "card (avail s) \<le> card (slots s)"
    using finite_slots [OF i] avail_sub [OF i] by (rule card_mono)
  moreover have "card (avail s) = 0 \<longleftrightarrow> avail s = {}"
    using finite_slots [OF i] avail_sub [OF i] finite_subset by fastforce
  ultimately show ?thesis using alloc_None [OF i] by linarith
qed

text \<open>A run of allocations: the slots given are new, distinct and as many as asked for.\<close>

fun alloc_n :: "nat \<Rightarrow> 's \<Rightarrow> (nat list \<times> 's) option" where
  "alloc_n 0 s = Some ([], s)"
| "alloc_n (Suc n) s =
     (case alloc s of None \<Rightarrow> None
      | Some (i, s') \<Rightarrow> map_option (\<lambda>(is, s''). (i # is, s'')) (alloc_n n s'))"

lemma alloc_n_props:
  assumes "inv s" "alloc_n n s = Some (is, s')"
  shows "distinct is \<and> set is \<inter> held s = {} \<and> held s' = held s \<union> set is \<and> length is = n \<and>
    inv s' \<and> slots s' = slots s"
  using assms
proof (induction n arbitrary: s "is")
  case 0
  then show ?case by simp
next
  case (Suc n)
  obtain i s1 where a: "alloc s = Some (i, s1)" using Suc.prems(2) by (auto split: option.splits)
  with Suc.prems(2) obtain js where j: "alloc_n n s1 = Some (js, s')" "is = i # js" by auto
  note h = held_alloc [OF Suc.prems(1) a]
  have ih: "distinct js" "set js \<inter> held s1 = {}" "held s' = held s1 \<union> set js" "length js = n"
    "inv s'" "slots s' = slots s1"
    using Suc.IH [OF h(3) j(1)] by blast+
  have "distinct is" "set is \<inter> held s = {}" using ih(1,2) h(1,2) j(2) by auto
  moreover have "held s' = held s \<union> set is" using ih(3) h(2) j(2) by simp
  ultimately show ?case using ih(4-6) h(4) j(2) by simp
qed

lemma alloc_n_defined:
  assumes "inv s" "n \<le> card (avail s)"
  shows "\<exists>is s'. alloc_n n s = Some (is, s')"
  using assms
proof (induction n arbitrary: s)
  case 0
  then show ?case by simp
next
  case (Suc n)
  have "avail s \<noteq> {}" using Suc.prems(2) by auto
  then obtain i s1 where a: "alloc s = Some (i, s1)"
    using alloc_None [OF Suc.prems(1)] by (cases "alloc s") auto
  note p = alloc_Some [OF Suc.prems(1) a]
  have "finite (avail s)"
    using finite_slots [OF Suc.prems(1)] avail_sub [OF Suc.prems(1)] by (rule finite_subset [rotated])
  moreover have "avail s1 = avail s - {i}" "i \<in> avail s" "inv s1" using p by blast+
  ultimately have "n \<le> card (avail s1)" "inv s1" using Suc.prems(2) by simp_all
  with Suc.IH obtain js s2 where "alloc_n n s1 = Some (js, s2)" by blast
  with a show ?case by simp
qed

end

end
