(* ===== verification/Stats.thy ===== *)
theory Stats
  imports Pool CString
begin

text \<open>
  The statistics segment of \<^verbatim>\<open>src/ucommd/stats.h\<close> and \<^verbatim>\<open>stats.cc\<close>: the counters of a
  \<^verbatim>\<open>Stat\<close> and the shared memory segment \<^verbatim>\<open>StatsShm\<close> that lays them out and hands them out.
  The counters are one array of 64-bit cells (the part of the segment from \<^verbatim>\<open>stats_\<close> on) on
  which additions wrap; a \<^verbatim>\<open>Stat\<close> is a window into it. The atomicity of the counter updates
  is not modelled: a single thread's view of the array is.
\<close>

section \<open>Stat: named counters over a window of the array\<close>

record Stat =
  st_handle :: nat   \<comment> \<open>identity of the shared object\<close>
  st_id :: int
  st_base :: nat     \<comment> \<open>\<open>base_\<close>, as an index of the array\<close>
  st_num :: nat
  st_by_name :: "string \<rightharpoonup> nat"

text \<open>\<open>emplace\<close> keeps the first of two equal names.\<close>

fun emplace_all :: "nat \<Rightarrow> string list \<Rightarrow> (string \<rightharpoonup> nat) \<Rightarrow> (string \<rightharpoonup> nat)" where
  "emplace_all p [] m = m"
| "emplace_all p (n # ns) m = emplace_all (Suc p) ns (if m n = None then m(n \<mapsto> p) else m)"

definition Stat_new :: "nat \<Rightarrow> int \<Rightarrow> nat \<Rightarrow> string list \<Rightarrow> Stat" where
  "Stat_new h i base names =
     \<lparr> st_handle = h, st_id = i, st_base = base, st_num = length names,
       st_by_name = emplace_all base names Map.empty \<rparr>"

type_synonym counters = "u64 list"

definition counter_add :: "nat \<Rightarrow> u64 \<Rightarrow> counters \<Rightarrow> counters" where
  "counter_add p v mem = mem[p := mem ! p + v]"

definition Stat_add_name :: "Stat \<Rightarrow> string \<Rightarrow> u64 \<Rightarrow> counters \<Rightarrow> int \<times> counters" where
  "Stat_add_name s n v mem =
     (case st_by_name s n of None \<Rightarrow> (-1, mem) | Some p \<Rightarrow> (0, counter_add p v mem))"

definition Stat_sub_name :: "Stat \<Rightarrow> string \<Rightarrow> u64 \<Rightarrow> counters \<Rightarrow> int \<times> counters" where
  "Stat_sub_name s n v mem =
     (case st_by_name s n of None \<Rightarrow> (-1, mem) | Some p \<Rightarrow> (0, counter_add p (- v) mem))"

definition Stat_inc_name :: "Stat \<Rightarrow> string \<Rightarrow> counters \<Rightarrow> int \<times> counters" where
  "Stat_inc_name s n mem =
     (case st_by_name s n of None \<Rightarrow> (-1, mem) | Some p \<Rightarrow> (0, counter_add p 1 mem))"

definition Stat_dec_name :: "Stat \<Rightarrow> string \<Rightarrow> counters \<Rightarrow> int \<times> counters" where
  "Stat_dec_name s n mem =
     (case st_by_name s n of None \<Rightarrow> (-1, mem) | Some p \<Rightarrow> (0, counter_add p (- 1) mem))"

definition Stat_get_name :: "Stat \<Rightarrow> string \<Rightarrow> counters \<Rightarrow> u64 \<Rightarrow> int \<times> u64" where
  "Stat_get_name s n mem val =
     (case st_by_name s n of None \<Rightarrow> (-1, val) | Some p \<Rightarrow> (0, mem ! p))"

definition Stat_set_name :: "Stat \<Rightarrow> string \<Rightarrow> u64 \<Rightarrow> counters \<Rightarrow> int \<times> counters" where
  "Stat_set_name s n v mem =
     (case st_by_name s n of None \<Rightarrow> (-1, mem) | Some p \<Rightarrow> (0, mem[p := v]))"

text \<open>
  By index there is no check: the cell \<open>base + i\<close> is updated, whatever the window. The index is
  an integer that the callers compute from ranks; a negative one reaches below the window.
\<close>

definition cell :: "Stat \<Rightarrow> int \<Rightarrow> nat" where
  "cell s i = nat (int (st_base s) + i)"

definition Stat_add :: "Stat \<Rightarrow> int \<Rightarrow> u64 \<Rightarrow> counters \<Rightarrow> counters" where
  "Stat_add s i v mem = counter_add (cell s i) v mem"

definition Stat_sub :: "Stat \<Rightarrow> int \<Rightarrow> u64 \<Rightarrow> counters \<Rightarrow> counters" where
  "Stat_sub s i v mem = counter_add (cell s i) (- v) mem"

definition Stat_inc :: "Stat \<Rightarrow> int \<Rightarrow> counters \<Rightarrow> counters" where
  "Stat_inc s i mem = counter_add (cell s i) 1 mem"

definition Stat_dec :: "Stat \<Rightarrow> int \<Rightarrow> counters \<Rightarrow> counters" where
  "Stat_dec s i mem = counter_add (cell s i) (- 1) mem"

definition Stat_get :: "Stat \<Rightarrow> int \<Rightarrow> counters \<Rightarrow> u64" where
  "Stat_get s i mem = mem ! cell s i"

definition Stat_set :: "Stat \<Rightarrow> int \<Rightarrow> u64 \<Rightarrow> counters \<Rightarrow> counters" where
  "Stat_set s i v mem = mem[cell s i := v]"

fun clear_cells :: "nat \<Rightarrow> nat \<Rightarrow> counters \<Rightarrow> counters" where
  "clear_cells p 0 mem = mem"
| "clear_cells p (Suc n) mem = clear_cells (Suc p) n (mem[p := 0])"

definition Stat_clear :: "Stat \<Rightarrow> counters \<Rightarrow> counters" where
  "Stat_clear s mem = clear_cells (st_base s) (st_num s) mem"

section \<open>StatsShm: the shared memory segment\<close>

text \<open>
  The byte 127 of the two short strings of the header (and of its \<^verbatim>\<open>shm\<close>) is taken as zero: the code
  copies at most 127 characters and never writes it.
\<close>

record Meta =
  m_shm :: string
  m_time :: string
  m_name :: string
  counter_num :: int
  stat_num :: int
  meta_size :: int
  desc_size :: int
  stats_size :: int
  total_size :: int

definition NAME_LEN_MAX :: nat where "NAME_LEN_MAX = 128"
definition DESC_LEN_MAX :: nat where "DESC_LEN_MAX = 128"
definition sizeof_Meta :: nat where "sizeof_Meta = 256 + 128 + 128 + 6 * 4"
definition sizeof_Desc :: nat where "sizeof_Desc = 128"

definition strncpy :: "nat \<Rightarrow> string \<Rightarrow> string" where
  "strncpy n s = take n s"

datatype shm_state = CREATED | INITIALIZED | ERROR

record StatsShm =
  ss_id :: string
  ss_name :: string
  ss_num_counters :: nat
  ss_num_stats :: nat
  ss_counter_list :: "string list"
  ss_shm :: string
  ss_meta :: "Meta option"      \<comment> \<open>\<open>None\<close>: the uninitialised pointer \<open>meta_\<close>\<close>
  ss_desc :: "string list"
  ss_mem :: counters            \<comment> \<open>the array at \<open>stats_\<close>\<close>
  ss_group :: "Stat list"
  ss_avail :: "nat list"
  ss_state :: shm_state
  ss_handles :: nat             \<comment> \<open>objects made so far\<close>

definition StatsShm_new :: "string \<Rightarrow> string \<Rightarrow> nat \<Rightarrow> string list \<Rightarrow> StatsShm" where
  "StatsShm_new i name num cl =
     \<lparr> ss_id = i, ss_name = name, ss_num_counters = length cl, ss_num_stats = num,
       ss_counter_list = cl, ss_shm = [], ss_meta = None, ss_desc = [], ss_mem = [],
       ss_group = [], ss_avail = [0..<num], ss_state = CREATED, ss_handles = 0 \<rparr>"

text \<open>What the operating system answers to the calls of \<^verbatim>\<open>create_shm\<close> and \<^verbatim>\<open>init\<close>.\<close>

record shm_env =
  se_pid :: nat
  se_this :: string             \<comment> \<open>the object's address, as printed\<close>
  se_time :: string
  se_open :: bool
  se_stat :: "nat option"       \<comment> \<open>the size reported by \<open>stat\<close>\<close>
  se_ftruncate :: bool
  se_mmap :: "nat option"       \<comment> \<open>the address of the mapping\<close>

definition kPrefix :: string where "kPrefix = ''.ucommd_stats.''"

definition shm_file_name :: "string \<Rightarrow> string \<Rightarrow> nat \<Rightarrow> string \<Rightarrow> string" where
  "shm_file_name i name pid this =
     kPrefix @ i @ ''.'' @ name @ ''.'' @ to_string_nat pid @ ''.'' @ this"

definition create_shm :: "shm_env \<Rightarrow> nat \<Rightarrow> StatsShm \<Rightarrow> StatsShm \<times> nat option" where
  "create_shm e sz s =
     (let s = s\<lparr> ss_shm := shm_file_name (ss_id s) (ss_name s) (se_pid e) (se_this e) \<rparr> in
      if \<not> se_open e then (s, None)
      else case se_stat e of
             None \<Rightarrow> (s, None)
           | Some cur \<Rightarrow> if cur < sz \<and> \<not> se_ftruncate e then (s, None) else (s, se_mmap e))"

definition StatsShm_init :: "shm_env \<Rightarrow> StatsShm \<Rightarrow> int \<times> StatsShm" where
  "StatsShm_init e s =
     (case ss_state s of
        INITIALIZED \<Rightarrow> (0, s)
      | ERROR \<Rightarrow> (-1, s)
      | CREATED \<Rightarrow>
          let msz = sizeof_Meta;
              dsz = sizeof_Desc * ss_num_counters s;
              ssz = 8 * ss_num_counters s * ss_num_stats s;
              tot = msz + dsz + ssz;
              (s, addr) = create_shm e tot s
          in case addr of
               None \<Rightarrow> (-1, s\<lparr> ss_state := ERROR \<rparr>)
             | Some a \<Rightarrow>
                 let meta = \<lparr> m_shm = strncpy (NAME_LEN_MAX - 1) (ss_shm s),
                               m_time = strncpy (NAME_LEN_MAX - 1) (se_time e),
                               m_name = strncpy (NAME_LEN_MAX - 1) (ss_name s),
                               counter_num = int (ss_num_counters s), stat_num = int (ss_num_stats s),
                               meta_size = int msz, desc_size = int dsz, stats_size = int ssz,
                               total_size = int tot \<rparr>;
                     s = s\<lparr> ss_meta := Some meta,
                            ss_desc := map (strncpy (DESC_LEN_MAX - 1)) (ss_counter_list s),
                            ss_mem := replicate (ss_num_counters s * ss_num_stats s) 0 \<rparr>
                 in if (a + msz + dsz) mod 8 \<noteq> 0 then (-1, s\<lparr> ss_state := ERROR \<rparr>)
                    else (0, s\<lparr> ss_state := INITIALIZED \<rparr>))"

definition allocStat :: "StatsShm \<Rightarrow> int \<times> Stat option \<times> StatsShm" where
  "allocStat s =
     (if ss_state s \<noteq> INITIALIZED then (-1, None, s)
      else case ss_avail s of
             [] \<Rightarrow> (-1, None, s)
           | i # av \<Rightarrow>
               let st = Stat_new (ss_handles s) (int i) (i * ss_num_counters s) (ss_counter_list s)
               in (0, Some st,
                   s\<lparr> ss_avail := av, ss_mem := Stat_clear st (ss_mem s),
                      ss_group := st # ss_group s, ss_handles := Suc (ss_handles s) \<rparr>))"

definition freeStat :: "Stat \<Rightarrow> StatsShm \<Rightarrow> int \<times> StatsShm" where
  "freeStat st s =
     (if ss_state s \<noteq> INITIALIZED then (-1, s)
      else if st_handle st \<in> st_handle ` set (ss_group s)
      then (0, s\<lparr> ss_mem := Stat_clear st (ss_mem s),
                  ss_group := filter (\<lambda>x. st_handle x \<noteq> st_handle st) (ss_group s),
                  ss_avail := ss_avail s @ [nat (st_id st)] \<rparr>)
      else (-1, s))"

text \<open>
  The destructor clears and unmaps the segment without asking whether there is one: \<open>None\<close> when
  \<^verbatim>\<open>meta_\<close> was never set, the access through an uninitialised pointer.
\<close>

definition StatsShm_destroy :: "StatsShm \<Rightarrow> StatsShm option" where
  "StatsShm_destroy s =
     (case ss_meta s of
        None \<Rightarrow> None
      | Some m \<Rightarrow> Some (s\<lparr> ss_state := ERROR, ss_avail := [], ss_group := [], ss_meta := None,
                           ss_desc := [], ss_mem := [] \<rparr>))"

section \<open>Cells and windows\<close>

lemma length_counter_add [simp]: "length (counter_add p v mem) = length mem"
  by (simp add: counter_add_def)

lemma nth_counter_add:
  "q < length mem \<Longrightarrow> counter_add p v mem ! q = (if p = q then mem ! q + v else mem ! q)"
  by (simp add: counter_add_def list_update_nth_cases)

lemma length_clear_cells [simp]: "length (clear_cells p n mem) = length mem"
  by (induction p n mem rule: clear_cells.induct) simp_all

lemma nth_clear_cells:
  "q < length mem \<Longrightarrow> clear_cells p n mem ! q = (if p \<le> q \<and> q < p + n then 0 else mem ! q)"
  by (induction p n mem rule: clear_cells.induct) (auto simp: list_update_nth_cases)

lemma emplace_all_other: "n \<notin> set ns \<Longrightarrow> emplace_all p ns m n = m n"
  by (induction p ns m rule: emplace_all.induct) auto

lemma emplace_all_nth:
  "distinct ns \<Longrightarrow> \<forall>n \<in> set ns. m n = None \<Longrightarrow> k < length ns \<Longrightarrow>
   emplace_all p ns m (ns ! k) = Some (p + k)"
proof (induction p ns m arbitrary: k rule: emplace_all.induct)
  case (1 p m)
  then show ?case by simp
next
  case (2 p n ns m)
  show ?case
  proof (cases k)
    case 0
    with 2 show ?thesis by (simp add: emplace_all_other)
  next
    case (Suc j)
    have "\<forall>x \<in> set ns. (m(n \<mapsto> p)) x = None" using 2 by auto
    with 2 Suc show ?thesis by (simp del: fun_upd_apply)
  qed
qed

lemma Stat_new_by_name:
  "distinct names \<Longrightarrow> k < length names \<Longrightarrow>
   st_by_name (Stat_new h i b names) (names ! k) = Some (b + k)"
  by (simp add: Stat_new_def emplace_all_nth)

lemma cell_nat: "cell st (int k) = st_base st + k"
  by (simp add: cell_def flip: of_nat_add)

lemma cell_window: "cell (Stat_new h i b names) (int k) = b + k"
  by (simp add: Stat_new_def cell_nat)

text \<open>
  With distinct counter names, every operation by name does what the operation by the
  name's index does, and an unknown name is refused without touching a counter.
\<close>
theorem Stat_name_index:
  assumes "distinct names" "k < length names" "st = Stat_new h i b names"
  shows "Stat_add_name st (names ! k) v mem = (0, Stat_add st (int k) v mem) \<and>
    Stat_sub_name st (names ! k) v mem = (0, Stat_sub st (int k) v mem) \<and>
    Stat_inc_name st (names ! k) mem = (0, Stat_inc st (int k) mem) \<and>
    Stat_dec_name st (names ! k) mem = (0, Stat_dec st (int k) mem) \<and>
    Stat_set_name st (names ! k) v mem = (0, Stat_set st (int k) v mem) \<and>
    Stat_get_name st (names ! k) mem x = (0, Stat_get st (int k) mem) \<and>
    (n \<in> set names \<or> Stat_add_name st n v mem = (-1, mem) \<and> Stat_set_name st n v mem = (-1, mem) \<and>
       Stat_get_name st n mem x = (-1, x))"
proof -
  have n: "st_by_name st (names ! k) = Some (b + k)" "cell st (int k) = b + k"
    using Stat_new_by_name [OF assms(1,2)] assms(3) by (simp_all add: cell_window)
  have u: "st_by_name st n = None" if "n \<notin> set names"
    using that assms(3) by (simp add: Stat_new_def emplace_all_other)
  show ?thesis
    using n u
    by (auto simp: Stat_add_name_def Stat_sub_name_def Stat_inc_name_def Stat_dec_name_def
        Stat_set_name_def Stat_get_name_def Stat_add_def Stat_sub_def Stat_inc_def Stat_dec_def
        Stat_set_def Stat_get_def)
qed

theorem Stat_name_index_witness:
  "Stat_add_name (Stat_new 0 0 2 [''a'', ''b'']) ''b'' 5 [1, 2, 3, 4] = (0, [1, 2, 3, 9])"
  using Stat_name_index [of "[''a'', ''b'']" 1 "Stat_new 0 0 2 [''a'', ''b'']" 0 0 2 5 "[1, 2, 3, 4]"]
  by (simp add: Stat_add_def counter_add_def cell_def Stat_new_def)

section \<open>The life of a segment\<close>

text \<open>
  The states a segment goes through: a successful \<open>init\<close>, allocations, releases of live
  or foreign objects, and counter updates through a live object.
\<close>

inductive shm_reach :: "StatsShm \<Rightarrow> bool" where
  init: "StatsShm_init e (StatsShm_new i n num cl) = (0, s) \<Longrightarrow> shm_reach s"
| alloc: "shm_reach s \<Longrightarrow> allocStat s = (r, st, s') \<Longrightarrow> shm_reach s'"
| free: "shm_reach s \<Longrightarrow> st \<in> set (ss_group s) \<or> st_handle st \<notin> st_handle ` set (ss_group s) \<Longrightarrow>
    freeStat st s = (r, s') \<Longrightarrow> shm_reach s'"
| update: "shm_reach s \<Longrightarrow> st \<in> set (ss_group s) \<Longrightarrow> shm_reach (s\<lparr> ss_mem := Stat_add st k v (ss_mem s) \<rparr>)"

definition wf_stat :: "StatsShm \<Rightarrow> Stat \<Rightarrow> bool" where
  "wf_stat s st \<longleftrightarrow> st_handle st < ss_handles s \<and>
     (\<exists>k < ss_num_stats s. k \<notin> set (ss_avail s) \<and>
        st = Stat_new (st_handle st) (int k) (k * ss_num_counters s) (ss_counter_list s))"

definition wf_shm :: "StatsShm \<Rightarrow> bool" where
  "wf_shm s \<longleftrightarrow> ss_state s = INITIALIZED \<and> ss_num_counters s = length (ss_counter_list s) \<and>
     length (ss_mem s) = ss_num_counters s * ss_num_stats s \<and>
     distinct (ss_avail s) \<and> set (ss_avail s) \<subseteq> {..<ss_num_stats s} \<and>
     distinct (map st_handle (ss_group s)) \<and> distinct (map st_id (ss_group s)) \<and>
     (\<forall>st \<in> set (ss_group s). wf_stat s st) \<and>
     (\<forall>k < ss_num_stats s. k \<in> set (ss_avail s) \<or> int k \<in> st_id ` set (ss_group s))"

lemmas wf_shm_defs = wf_shm_def wf_stat_def

lemma st_sel_new [simp]:
  "st_handle (Stat_new h i b cl) = h" "st_id (Stat_new h i b cl) = i"
  "st_base (Stat_new h i b cl) = b" "st_num (Stat_new h i b cl) = length cl"
  by (simp_all add: Stat_new_def)

lemma StatsShm_init_ok:
  assumes "StatsShm_init e (StatsShm_new i n num cl) = (0, s)"
  shows "wf_shm s" "ss_group s = []" "ss_avail s = [0..<num]" "ss_num_stats s = num"
    "ss_counter_list s = cl"
  using assms
  by (auto simp: StatsShm_init_def StatsShm_new_def create_shm_def wf_shm_defs Let_def
      split: if_splits option.splits)

lemma allocStat_cases:
  assumes "wf_shm s"
  obtains (empty) "ss_avail s = []" "allocStat s = (-1, None, s)"
  | (ok) k av where "ss_avail s = k # av"
    "allocStat s = (0, Some (Stat_new (ss_handles s) (int k) (k * ss_num_counters s) (ss_counter_list s)),
       s\<lparr> ss_avail := av,
          ss_mem := Stat_clear (Stat_new (ss_handles s) (int k) (k * ss_num_counters s) (ss_counter_list s)) (ss_mem s),
          ss_group := Stat_new (ss_handles s) (int k) (k * ss_num_counters s) (ss_counter_list s) # ss_group s,
          ss_handles := Suc (ss_handles s) \<rparr>)"
  using assms by (cases "ss_avail s") (auto simp: allocStat_def wf_shm_def Let_def)

lemma length_Stat_clear [simp]: "length (Stat_clear st mem) = length mem"
  by (simp add: Stat_clear_def)

lemma length_Stat_add [simp]: "length (Stat_add st k v mem) = length mem"
  by (simp add: Stat_add_def)

lemma wf_stat_mem [simp]: "wf_stat (s\<lparr> ss_mem := mem \<rparr>) st = wf_stat s st"
  by (simp add: wf_stat_def)

lemma wf_shm_mem: "length mem = length (ss_mem s) \<Longrightarrow> wf_shm (s\<lparr> ss_mem := mem \<rparr>) = wf_shm s"
  by (simp add: wf_shm_def)

lemma wf_stat_id:
  assumes "wf_stat s st"
  obtains k where "k < ss_num_stats s" "st_id st = int k" "k \<notin> set (ss_avail s)"
    "st_base st = k * ss_num_counters s" "st_num st = length (ss_counter_list s)"
  using assms unfolding wf_stat_def by (metis st_sel_new)

lemma wf_shm_alloc:
  assumes wf: "wf_shm s" and a: "allocStat s = (r, st, s')"
  shows "wf_shm s'"
  using wf
proof (cases rule: allocStat_cases)
  case empty
  then show ?thesis using wf a by simp
next
  case (ok k av)
  let ?st = "Stat_new (ss_handles s) (int k) (k * ss_num_counters s) (ss_counter_list s)"
  have s': "s' = s\<lparr> ss_avail := av, ss_mem := Stat_clear ?st (ss_mem s), ss_group := ?st # ss_group s,
      ss_handles := Suc (ss_handles s) \<rparr>" using ok(2) a by simp
  have g: "\<forall>x \<in> set (ss_group s). wf_stat s x" using wf by (simp add: wf_shm_def)
  have h: "ss_handles s \<notin> st_handle ` set (ss_group s)" using g by (auto simp: wf_stat_def)
  have i: "int k \<notin> st_id ` set (ss_group s)"
    using g ok(1) by (fastforce elim: wf_stat_id)
  have w: "wf_stat s' x" if "x \<in> set (ss_group s)" for x
    using g that ok(1) unfolding s' wf_stat_def by (auto intro: less_SucI)
  have k: "k < ss_num_stats s" "k \<notin> set av" using wf ok(1) by (auto simp: wf_shm_def)
  have w': "wf_stat s' ?st" using k unfolding s' wf_stat_def by auto
  show ?thesis
    using wf ok(1) h i w w' unfolding wf_shm_def s' by (auto simp: less_Suc_eq)
qed

lemma wf_shm_free:
  assumes wf: "wf_shm s" and m: "st \<in> set (ss_group s)"
  shows "wf_shm (snd (freeStat st s))" "set (ss_avail (snd (freeStat st s))) = insert (nat (st_id st)) (set (ss_avail s))"
    "fst (freeStat st s) = 0"
proof -
  let ?g = "filter (\<lambda>x. st_handle x \<noteq> st_handle st) (ss_group s)"
  let ?s = "s\<lparr> ss_mem := Stat_clear st (ss_mem s), ss_group := ?g,
               ss_avail := ss_avail s @ [nat (st_id st)] \<rparr>"
  have f: "freeStat st s = (0, ?s)" using wf m by (auto simp: freeStat_def wf_shm_def)
  from m wf have "wf_stat s st" by (simp add: wf_shm_def)
  then obtain k where k: "k < ss_num_stats s" "st_id st = int k" "k \<notin> set (ss_avail s)"
    by (auto elim: wf_stat_id)
  have same: "x = st" if "x \<in> set (ss_group s)" "st_handle x = st_handle st \<or> st_id x = st_id st" for x
    using that m wf unfolding wf_shm_def by (auto simp: distinct_map inj_on_def)
  have w: "wf_stat ?s x" if "x \<in> set ?g" for x
  proof -
    from that have x: "x \<in> set (ss_group s)" "x \<noteq> st" by auto
    then have ws: "wf_stat s x" and ne: "st_id x \<noteq> int k" using wf same k(2) by (auto simp: wf_shm_def)
    then obtain j where j: "j < ss_num_stats s" "j \<notin> set (ss_avail s)"
      "x = Stat_new (st_handle x) (int j) (j * ss_num_counters s) (ss_counter_list s)"
      unfolding wf_stat_def by blast
    have "j \<noteq> k" using ne j(3) by (metis st_sel_new(2))
    then show ?thesis using ws j k(2) unfolding wf_stat_def by auto
  qed
  have "int j \<in> st_id ` set ?g" if "j < ss_num_stats s" "j \<notin> set (ss_avail s)" "j \<noteq> k" for j
  proof -
    have "int j \<in> st_id ` set (ss_group s)" using that wf by (auto simp: wf_shm_def)
    then obtain x where x: "x \<in> set (ss_group s)" "st_id x = int j" by auto
    then have "st_handle x \<noteq> st_handle st" using same k(2) that(3) by fastforce
    with x show ?thesis by force
  qed
  then have cover: "\<forall>j < ss_num_stats s. j \<in> set (ss_avail ?s) \<or> int j \<in> st_id ` set ?g"
    using k(2) by auto
  have "distinct (map st_handle ?g)" "distinct (map st_id ?g)"
    using wf by (simp_all add: wf_shm_def distinct_map_filter)
  then have "wf_shm ?s" using wf k w cover unfolding wf_shm_def by auto
  then show "wf_shm (snd (freeStat st s))" "fst (freeStat st s) = 0"
    "set (ss_avail (snd (freeStat st s))) = insert (nat (st_id st)) (set (ss_avail s))"
    using f by simp_all
qed

lemma shm_reach_wf: "shm_reach s \<Longrightarrow> wf_shm s"
proof (induction rule: shm_reach.induct)
  case (init e i n num cl s)
  then show ?case by (rule StatsShm_init_ok)
next
  case (alloc s r st s')
  then show ?case by (blast intro: wf_shm_alloc)
next
  case (free s st r s')
  show ?case
  proof (cases "st \<in> set (ss_group s)")
    case True
    then show ?thesis using wf_shm_free(1) [OF free.IH True] free.hyps(3) by simp
  next
    case False
    then have "s' = s" using free.hyps(2,3) by (auto simp: freeStat_def split: if_splits)
    then show ?thesis using free.IH by simp
  qed
next
  case (update s st k v)
  then show ?case by (simp add: wf_shm_mem)
qed

text \<open>Cells of live objects lie in the segment, and those of two live objects are different.\<close>

lemma live_cell_bound:
  assumes "wf_shm s" "st \<in> set (ss_group s)" "k < st_num st"
  shows "cell st (int k) < length (ss_mem s)"
proof -
  from assms have "wf_stat s st" by (simp add: wf_shm_def)
  then obtain j where j: "j < ss_num_stats s" "st_base st = j * ss_num_counters s"
    "st_num st = length (ss_counter_list s)" by (auto elim: wf_stat_id)
  have n: "ss_num_counters s = length (ss_counter_list s)"
    "length (ss_mem s) = ss_num_counters s * ss_num_stats s" using assms(1) by (simp_all add: wf_shm_def)
  have "j * ss_num_counters s + k < Suc j * ss_num_counters s" using assms(3) j(3) n(1) by simp
  also have "\<dots> \<le> ss_num_stats s * ss_num_counters s" using j(1) by (intro mult_le_mono1) simp
  finally show ?thesis using j(2) n(2) by (simp add: cell_nat mult.commute)
qed

lemma live_cells_differ:
  assumes wf: "wf_shm s" and st: "st \<in> set (ss_group s)" "st' \<in> set (ss_group s)" "st \<noteq> st'"
    and k: "k < st_num st" "k' < st_num st'"
  shows "cell st (int k) \<noteq> cell st' (int k')"
proof -
  have "wf_stat s st" "wf_stat s st'" using wf st by (simp_all add: wf_shm_def)
  then obtain j j' where j: "st_id st = int j" "st_base st = j * ss_num_counters s"
      "st_num st = length (ss_counter_list s)"
    and j': "st_id st' = int j'" "st_base st' = j' * ss_num_counters s"
      "st_num st' = length (ss_counter_list s)"
    by (auto elim!: wf_stat_id)
  have n: "ss_num_counters s = length (ss_counter_list s)" using wf by (simp add: wf_shm_def)
  have "st_id st \<noteq> st_id st'" using wf st unfolding wf_shm_def by (auto simp: distinct_map inj_on_def)
  then have "j \<noteq> j'" using j j' by simp
  moreover have "j = (j * ss_num_counters s + k) div ss_num_counters s"
    "j' = (j' * ss_num_counters s + k') div ss_num_counters s"
    using k j(3) j'(3) n by (simp_all add: block_div)
  ultimately show ?thesis using j(2) j'(2) by (metis cell_nat)
qed

text \<open>
  C38: in every state a segment can reach, the windows of the live counter objects lie inside
  the segment and apart from each other: an update through one object is seen through it, and
  read through another one, or at another index, nothing has changed.
\<close>
theorem stats_windows:
  assumes "shm_reach s" "st \<in> set (ss_group s)" "st' \<in> set (ss_group s)" "k < st_num st" "k' < st_num st'"
  shows "cell st (int k) < length (ss_mem s) \<and>
    Stat_get st' (int k') (Stat_add st (int k) v (ss_mem s)) =
      (if st = st' \<and> k = k' then Stat_get st (int k) (ss_mem s) + v
       else Stat_get st' (int k') (ss_mem s))"
proof -
  have wf: "wf_shm s" using assms(1) by (rule shm_reach_wf)
  have b: "cell st (int k) < length (ss_mem s)" "cell st' (int k') < length (ss_mem s)"
    using live_cell_bound [OF wf] assms by auto
  have ne: "cell st (int k) \<noteq> cell st' (int k')" if "\<not> (st = st' \<and> k = k')"
    
  proof (cases "st = st'")
    case True
    with that show ?thesis by (simp add: cell_nat)
  next
    case False
    then show ?thesis by (rule live_cells_differ [OF wf assms(2,3) _ assms(4,5)])
  qed
  show ?thesis using b ne by (auto simp: Stat_get_def Stat_add_def nth_counter_add)
qed

definition example_shm_env :: shm_env where
  "example_shm_env = \<lparr> se_pid = 42, se_this = ''0x55'', se_time = ''0'', se_open = True,
     se_stat = Some 0, se_ftruncate = True, se_mmap = Some 4096 \<rparr>"

definition example_shm :: StatsShm where
  "example_shm = snd (StatsShm_init example_shm_env (StatsShm_new ''_'' ''t'' 2 [''a'', ''b'']))"

lemma example_shm_init:
  "StatsShm_init example_shm_env (StatsShm_new ''_'' ''t'' 2 [''a'', ''b'']) = (0, example_shm)"
  by (simp add: example_shm_def StatsShm_init_def StatsShm_new_def create_shm_def
      example_shm_env_def sizeof_Meta_def sizeof_Desc_def Let_def)

theorem stats_windows_witness:
  "let s1 = snd (snd (allocStat example_shm)); s2 = snd (snd (allocStat s1));
       a = Stat_new 0 0 0 [''a'', ''b'']; b = Stat_new 1 1 2 [''a'', ''b'']
   in Stat_get b 1 (Stat_add a 1 7 (ss_mem s2)) = Stat_get b 1 (ss_mem s2) \<and>
      Stat_get a 1 (Stat_add a 1 7 (ss_mem s2)) = Stat_get a 1 (ss_mem s2) + 7"
proof -
  define s1 s2 where "s1 = snd (snd (allocStat example_shm))" and "s2 = snd (snd (allocStat s1))"
  have r0: "shm_reach example_shm" by (rule shm_reach.init [OF example_shm_init])
  have a1: "allocStat example_shm = (0, Some (Stat_new 0 0 0 [''a'', ''b'']), s1)"
    unfolding s1_def using StatsShm_init_ok [OF example_shm_init]
    by (simp add: allocStat_def wf_shm_def Let_def example_shm_def StatsShm_init_def StatsShm_new_def create_shm_def
      example_shm_env_def sizeof_Meta_def sizeof_Desc_def upt_rec)
  have a2: "allocStat s1 = (0, Some (Stat_new 1 1 2 [''a'', ''b'']), s2)"
    unfolding s2_def s1_def
    by (simp add: allocStat_def Let_def example_shm_def StatsShm_init_def StatsShm_new_def create_shm_def
      example_shm_env_def sizeof_Meta_def sizeof_Desc_def upt_rec numeral_2_eq_2)
  have r2: "shm_reach s2" by (rule shm_reach.alloc [OF shm_reach.alloc [OF r0 a1] a2])
  have g: "ss_group s2 = [Stat_new 1 1 2 [''a'', ''b''], Stat_new 0 0 0 [''a'', ''b'']]"
    unfolding s2_def s1_def
    by (simp add: allocStat_def Let_def example_shm_def StatsShm_init_def StatsShm_new_def create_shm_def
      example_shm_env_def sizeof_Meta_def sizeof_Desc_def upt_rec numeral_2_eq_2)
  have ne: "Stat_new 0 0 0 [''a'', ''b''] \<noteq> Stat_new 1 1 2 [''a'', ''b'']" by (simp add: Stat_new_def)
  show ?thesis
    using stats_windows [OF r2, of "Stat_new 0 0 0 [''a'', ''b'']" "Stat_new 1 1 2 [''a'', ''b'']" 1 1 7]
      stats_windows [OF r2, of "Stat_new 0 0 0 [''a'', ''b'']" "Stat_new 0 0 0 [''a'', ''b'']" 1 1 7] g ne
    unfolding s1_def [symmetric] s2_def [symmetric] Let_def by simp
qed

section \<open>The segment as a pool of slots\<close>

definition shm_alloc :: "StatsShm \<Rightarrow> (nat \<times> StatsShm) option" where
  "shm_alloc s = (case allocStat s of (_, None, _) \<Rightarrow> None | (_, Some st, s') \<Rightarrow> Some (nat (st_id st), s'))"

definition shm_release :: "nat \<Rightarrow> StatsShm \<Rightarrow> StatsShm" where
  "shm_release k s =
     (case filter (\<lambda>st. st_id st = int k) (ss_group s) of [] \<Rightarrow> s | st # _ \<Rightarrow> snd (freeStat st s))"

lemma freeStat_num_stats [simp]: "ss_num_stats (snd (freeStat st s)) = ss_num_stats s"
  by (simp add: freeStat_def)

interpretation shm_pool: slot_pool wf_shm "\<lambda>s. {..<ss_num_stats s}" "\<lambda>s. set (ss_avail s)" shm_alloc shm_release
proof unfold_locales
  fix s :: StatsShm
  assume wf: "wf_shm s"
  show "set (ss_avail s) \<subseteq> {..<ss_num_stats s}" using wf by (simp add: wf_shm_def)
  show "finite {..<ss_num_stats s}" by simp
  show "shm_alloc s = None \<longleftrightarrow> set (ss_avail s) = {}"
    using wf by (cases rule: allocStat_cases) (simp_all add: shm_alloc_def)
next
  fix s k s'
  assume wf: "wf_shm s" and a: "shm_alloc s = Some (k, s')"
  have d: "distinct (ss_avail s)" using wf by (simp add: wf_shm_def)
  from wf show "k \<in> set (ss_avail s) \<and> set (ss_avail s') = set (ss_avail s) - {k} \<and>
    {..<ss_num_stats s'} = {..<ss_num_stats s} \<and> wf_shm s'"
  proof (cases rule: allocStat_cases)
    case empty
    then show ?thesis using a by (simp add: shm_alloc_def)
  next
    case (ok j av)
    then show ?thesis using a d wf_shm_alloc [OF wf ok(2)] by (auto simp: shm_alloc_def)
  qed
next
  fix s k
  assume wf: "wf_shm s" and k: "k \<in> {..<ss_num_stats s} - set (ss_avail s)"
  then have "int k \<in> st_id ` set (ss_group s)" by (auto simp: wf_shm_def)
  then obtain st sts where f: "filter (\<lambda>st. st_id st = int k) (ss_group s) = st # sts"
    by (cases "filter (\<lambda>st. st_id st = int k) (ss_group s)") (auto simp: filter_empty_conv)
  then have st: "st \<in> set (ss_group s)" "st_id st = int k"
    by (auto dest!: filter_eq_ConsD)
  show "set (ss_avail (shm_release k s)) = insert k (set (ss_avail s)) \<and>
    {..<ss_num_stats (shm_release k s)} = {..<ss_num_stats s} \<and> wf_shm (shm_release k s)"
    using wf_shm_free [OF wf st(1)] st(2) f by (simp add: shm_release_def)
qed

text \<open>
  An allocation succeeds exactly while fewer objects are live than the segment has windows,
  its window was not held by a live object, its counters read zero, and \<open>freeStat\<close> makes it
  available again.
\<close>
theorem allocStat_pool:
  assumes "shm_reach s"
  shows "(fst (allocStat s) = 0 \<longleftrightarrow> length (ss_group s) < ss_num_stats s) \<and>
    (\<forall>st s'. allocStat s = (0, Some st, s') \<longrightarrow>
       st_id st \<notin> st_id ` set (ss_group s) \<and> st_handle st \<notin> st_handle ` set (ss_group s) \<and>
       (\<forall>k < st_num st. Stat_get st (int k) (ss_mem s') = 0) \<and>
       fst (freeStat st s') = 0 \<and> set (ss_avail (snd (freeStat st s'))) = set (ss_avail s))"
proof -
  have wf: "wf_shm s" using assms by (rule shm_reach_wf)
  have ids: "st_id ` set (ss_group s) = int ` ({..<ss_num_stats s} - set (ss_avail s))"
    using wf by (auto simp: wf_shm_def elim!: wf_stat_id)
  have "length (ss_group s) = card (st_id ` set (ss_group s))"
    using wf by (metis distinct_card length_map list.set_map wf_shm_def)
  also have "\<dots> = card (shm_pool.held s)"
    unfolding ids shm_pool.held_def by (simp add: card_image)
  finally have len: "length (ss_group s) = card (shm_pool.held s)" .
  have fin: "card (shm_pool.held s) \<le> ss_num_stats s"
    unfolding shm_pool.held_def using card_mono [of "{..<ss_num_stats s}"] by (metis Diff_subset card_lessThan finite_lessThan)
  have fails: "fst (allocStat s) = 0 \<longleftrightarrow> shm_alloc s \<noteq> None"
    using wf by (cases rule: allocStat_cases) (simp_all add: shm_alloc_def)
  have 1: "fst (allocStat s) = 0 \<longleftrightarrow> length (ss_group s) < ss_num_stats s"
    using shm_pool.alloc_fails_iff [OF wf] fails len fin by simp linarith
  have 2: "st_id st \<notin> st_id ` set (ss_group s) \<and> st_handle st \<notin> st_handle ` set (ss_group s) \<and>
       (\<forall>k < st_num st. Stat_get st (int k) (ss_mem s') = 0) \<and>
       fst (freeStat st s') = 0 \<and> set (ss_avail (snd (freeStat st s'))) = set (ss_avail s)"
    if a: "allocStat s = (0, Some st, s')" for st s'
    using wf
  proof (cases rule: allocStat_cases)
    case empty
    then show ?thesis using a by simp
  next
    case (ok j av)
    let ?st = "Stat_new (ss_handles s) (int j) (j * ss_num_counters s) (ss_counter_list s)"
    have st: "st = ?st" "st \<in> set (ss_group s')" "ss_mem s' = Stat_clear st (ss_mem s)" "ss_avail s' = av"
      using ok(2) a by auto
    have wf': "wf_shm s'" using wf_shm_alloc [OF wf a] .
    have "cell st (int k) < length (ss_mem s')" if "k < st_num st" for k
      using live_cell_bound [OF wf' st(2) that] .
    then have z: "\<forall>k < st_num st. Stat_get st (int k) (ss_mem s') = 0"
      using st(1,3) by (auto simp: Stat_get_def Stat_clear_def nth_clear_cells cell_nat)
    have "j \<in> set (ss_avail s)" using ok(1) by simp
    then have i: "st_id st \<notin> st_id ` set (ss_group s)" using ids st(1) by auto
    have h: "st_handle st \<notin> st_handle ` set (ss_group s)"
      using wf st(1) by (auto simp: wf_shm_def wf_stat_def)
    show ?thesis using z i h wf_shm_free(2,3) [OF wf' st(2)] st(1,4) ok(1) by simp
  qed
  show ?thesis using 1 2 by blast
qed

theorem allocStat_pool_witness: "fst (allocStat example_shm) = 0"
proof -
  have "length (ss_group example_shm) < ss_num_stats example_shm"
    using StatsShm_init_ok [OF example_shm_init] by simp
  with allocStat_pool [OF shm_reach.init [OF example_shm_init]] show ?thesis by blast
qed

text \<open>
  When the operating system refuses the segment, \<open>init\<close> fails, every later call fails too,
  and destroying the object goes through the header pointer that was never set.
\<close>
theorem StatsShm_failed_init:
  assumes "\<not> se_open e"
  shows "fst (StatsShm_init e (StatsShm_new i n num cl)) = -1 \<and>
    (let s = snd (StatsShm_init e (StatsShm_new i n num cl)) in
       fst (StatsShm_init e' s) = -1 \<and> fst (allocStat s) = -1 \<and> fst (freeStat st s) = -1 \<and>
       StatsShm_destroy s = None)"
  using assms
  by (simp add: StatsShm_init_def StatsShm_new_def create_shm_def allocStat_def freeStat_def
      StatsShm_destroy_def Let_def)

theorem StatsShm_failed_init_witness:
  "StatsShm_destroy (snd (StatsShm_init (example_shm_env\<lparr> se_open := False \<rparr>)
     (StatsShm_new ''_'' ''t'' 1 [''a'']))) = None"
  using StatsShm_failed_init [of "example_shm_env\<lparr> se_open := False \<rparr>" "''_''" "''t''" 1 "[''a'']"]
  by (simp add: example_shm_env_def Let_def)

end
