(* ===== verification/IbTypes.thy ===== *)
theory IbTypes
  imports Stats
begin

text \<open>
  The data of an InfiniBand communicator (\<^verbatim>\<open>src/unet/unet_ib.cc\<close>, from \<^verbatim>\<open>struct ncclIbQpInfo\<close>
  to \<^verbatim>\<open>struct ncclIbRecvComm\<close>) and the world the transfer operations act on: the work
  requests handed to the network card so far and the two counter groups. Pointers into the arrays
  of a communicator are indices; two-dimensional arrays are flat lists indexed row by row, as they
  lie in memory. Fields that only carry buffers for the verbs calls (\<^verbatim>\<open>wrs\<close>, \<^verbatim>\<open>sges\<close>) are local
  to the operation that fills them.
\<close>

section \<open>Constants\<close>

abbreviation (input) NCCL_NET_IB_MAX_RECVS :: nat where "NCCL_NET_IB_MAX_RECVS \<equiv> 8"
abbreviation (input) MAX_REQUESTS :: nat where "MAX_REQUESTS \<equiv> 256"
abbreviation (input) NCCL_IB_MAX_DEVS_PER_NIC :: nat where "NCCL_IB_MAX_DEVS_PER_NIC \<equiv> 2"
abbreviation (input) NCCL_IB_MAX_QPS :: nat where "NCCL_IB_MAX_QPS \<equiv> 128"

text \<open>\<^verbatim>\<open>sizeof(struct ncclIbSendFifo)\<close> and \<^verbatim>\<open>sizeof(int)\<close>.\<close>

abbreviation (input) sizeof_SendFifo :: nat where "sizeof_SendFifo \<equiv> 64"
abbreviation (input) sizeof_int :: nat where "sizeof_int \<equiv> 4"

text \<open>The element \<open>r\<close> of row \<open>slot\<close> of an array \<^verbatim>\<open>[MAX_REQUESTS][NCCL_NET_IB_MAX_RECVS]\<close>.\<close>

definition row :: "nat \<Rightarrow> nat \<Rightarrow> nat" where
  "row slot r = slot * NCCL_NET_IB_MAX_RECVS + r"

section \<open>Work requests\<close>

record ibv_sge =
  sge_addr :: u64
  sge_length :: u32
  sge_lkey :: u32

datatype ibv_wr_opcode = IBV_WR_RDMA_WRITE | IBV_WR_RDMA_WRITE_WITH_IMM | IBV_WR_RDMA_READ

record ibv_send_wr =
  wr_id :: u64
  wr_opcode :: ibv_wr_opcode
  wr_signaled :: bool        \<comment> \<open>\<open>IBV_SEND_SIGNALED\<close>\<close>
  wr_inline :: bool          \<comment> \<open>\<open>IBV_SEND_INLINE\<close>\<close>
  wr_remote_addr :: u64
  wr_rkey :: u32
  wr_imm :: u32
  wr_sg :: "ibv_sge option"  \<comment> \<open>\<open>num_sge\<close> is one or zero\<close>

text \<open>What \<^verbatim>\<open>memset\<close> leaves.\<close>

definition zero_wr :: ibv_send_wr where
  "zero_wr = \<lparr> wr_id = 0, wr_opcode = IBV_WR_RDMA_WRITE, wr_signaled = False, wr_inline = False,
     wr_remote_addr = 0, wr_rkey = 0, wr_imm = 0, wr_sg = None \<rparr>"

text \<open>A call that posted work: the queue pair and the chain of send requests, or a receive.\<close>

datatype nic_op = PostSend nat "ibv_send_wr list" | PostRecv nat u64

text \<open>The verbs library: what the next call returns, given all that was posted before.\<close>

type_synonym verbs = "nic_op list \<Rightarrow> nic_op \<Rightarrow> ncclResult"

section \<open>Requests\<close>

datatype req_type =
    NCCL_NET_IB_REQ_UNUSED | NCCL_NET_IB_REQ_SEND | NCCL_NET_IB_REQ_RECV | NCCL_NET_IB_REQ_FLUSH

text \<open>
  The union of the send and the receive part is two groups of fields: every operation reads the
  group its type of request wrote. \<open>rq_devBases\<close> holds device indices of the communicator
  the request belongs to (\<^verbatim>\<open>&comm->devs[i].base\<close>).
\<close>

record ncclIbRequest =
  rq_type :: req_type
  rq_peer_rank :: int
  rq_sock :: bool
  rq_events :: "int list"
  rq_devBases :: "nat option list"
  rq_nreqs :: int
  send_size :: int
  send_data :: u64
  send_lkeys :: "u32 list"
  send_offset :: int
  recv_sizes :: nat          \<comment> \<open>the row of \<open>sizesFifo\<close>\<close>

section \<open>Communicators\<close>

record ncclIbSendFifo =
  sf_addr :: u64
  sf_size :: int
  sf_rkeys :: "u32 list"
  sf_nreqs :: u32
  sf_tag :: u32
  sf_idx :: u64

definition zero_fifo :: ncclIbSendFifo where
  "zero_fifo = \<lparr> sf_addr = 0, sf_size = 0, sf_rkeys = [0, 0], sf_nreqs = 0, sf_tag = 0, sf_idx = 0 \<rparr>"

record ncclIbQp =
  qp_handle :: nat
  qp_devIndex :: nat
  qp_remDevIdx :: nat

record ncclIbNetCommBase =
  cb_ndevs :: nat
  cb_isSend :: bool
  cb_reqs :: "ncclIbRequest list"
  cb_qps :: "ncclIbQp list"
  cb_nqps :: nat
  cb_qpIndex :: nat
  cb_devIndex :: nat
  cb_ready :: int
  cb_fifoRkeys :: "u32 list"   \<comment> \<open>\<open>remDevs[i].fifoRkey\<close>\<close>
  cb_fatal :: int              \<comment> \<open>\<open>stats.fatalErrorCount\<close>\<close>

text \<open>The registered memory of a user buffer: one pair of keys per device.\<close>

record ncclIbMrKeys =
  mk_lkeys :: "u32 list"
  mk_rkeys :: "u32 list"

record ncclIbRemSizesFifo =
  rs_elems :: "int list"
  rs_local :: u64              \<comment> \<open>the address of \<open>elems\<close>\<close>
  rs_addr :: u64
  rs_rkeys :: "u32 list"
  rs_lkeys :: "u32 list"       \<comment> \<open>\<open>mrs[i]->lkey\<close>\<close>

record ncclIbSendComm =
  sc_base :: ncclIbNetCommBase
  sc_fifo :: "ncclIbSendFifo list"
  sc_fifoReqs :: "nat option list"
  sc_remSizes :: ncclIbRemSizesFifo
  sc_fifoHead :: u64
  sc_ar :: bool
  sc_peer_rank :: int

record ncclIbGpuFlush =
  gf_sge :: ibv_sge
  gf_qp :: nat

record ncclIbRecvComm =
  rc_base :: ncclIbNetCommBase
  rc_fifo_lkeys :: "u32 list"  \<comment> \<open>\<open>devs[i].fifoSge.lkey\<close>\<close>
  rc_flush :: "ncclIbGpuFlush list"
  rc_fifo :: "ncclIbSendFifo list"   \<comment> \<open>\<open>remFifo.elems\<close>\<close>
  rc_fifo_local :: u64         \<comment> \<open>the address of \<open>remFifo.elems\<close>\<close>
  rc_fifoTail :: u64
  rc_fifo_addr :: u64          \<comment> \<open>\<open>remFifo.addr\<close>\<close>
  rc_fifo_inline :: bool       \<comment> \<open>\<open>remFifo.flags\<close>\<close>
  rc_sizesFifo :: "int list"
  rc_flushEnabled :: bool
  rc_peer_rank :: int

section \<open>The world of the transfer operations\<close>

record world =
  wd_posts :: "nic_op list"
  wd_ib_stat :: "Stat option"
  wd_bw_stat :: "Stat option"
  wd_ib_mem :: counters
  wd_bw_mem :: counters

text \<open>The indices of \<^verbatim>\<open>src/ucommd/ucommd.h\<close>.\<close>

abbreviation (input) UNET_PID :: int where "UNET_PID \<equiv> 0"
abbreviation (input) UNET_RANK :: int where "UNET_RANK \<equiv> 1"
abbreviation (input) UNET_IB_CQ_COUNT :: int where "UNET_IB_CQ_COUNT \<equiv> 2"
abbreviation (input) UNET_IB_QP_COUNT :: int where "UNET_IB_QP_COUNT \<equiv> 3"
abbreviation (input) UNET_IB_MR_COUNT :: int where "UNET_IB_MR_COUNT \<equiv> 4"
abbreviation (input) UNET_IB_CPL_COUNT :: int where "UNET_IB_CPL_COUNT \<equiv> 5"
abbreviation (input) UNET_IB_CPL_ERR_COUNT :: int where "UNET_IB_CPL_ERR_COUNT \<equiv> 6"
abbreviation (input) UNET_IB_FIFO_POST_COUNT :: int where "UNET_IB_FIFO_POST_COUNT \<equiv> 7"
abbreviation (input) UNET_IB_FIFO_RECV_COUNT :: int where "UNET_IB_FIFO_RECV_COUNT \<equiv> 8"
abbreviation (input) UNET_IB_TX_BYTES :: int where "UNET_IB_TX_BYTES \<equiv> 9"

definition ib_add :: "int \<Rightarrow> u64 \<Rightarrow> world \<Rightarrow> world" where
  "ib_add i v w =
     (case wd_ib_stat w of None \<Rightarrow> w | Some st \<Rightarrow> w\<lparr> wd_ib_mem := Stat_add st i v (wd_ib_mem w) \<rparr>)"

definition ib_inc :: "int \<Rightarrow> world \<Rightarrow> world" where
  "ib_inc i w = ib_add i 1 w"

definition bw_add :: "int \<Rightarrow> u64 \<Rightarrow> world \<Rightarrow> world" where
  "bw_add i v w =
     (case wd_bw_stat w of None \<Rightarrow> w | Some st \<Rightarrow> w\<lparr> wd_bw_mem := Stat_add st i v (wd_bw_mem w) \<rparr>)"

text \<open>One call of \<^verbatim>\<open>wrap_ibv_post_send\<close> or \<^verbatim>\<open>wrap_ibv_post_recv\<close>; a refused one posts nothing.\<close>

definition nic_post :: "verbs \<Rightarrow> nic_op \<Rightarrow> world \<Rightarrow> ncclResult \<times> world" where
  "nic_post v p w =
     (let res = v (wd_posts w) p in
      (res, if ncclCheckFails res then w else w\<lparr> wd_posts := wd_posts w @ [p] \<rparr>))"

lemma wd_posts_stats [simp]:
  "wd_posts (ib_add i v w) = wd_posts w" "wd_posts (ib_inc i w) = wd_posts w"
  "wd_posts (bw_add i v w) = wd_posts w"
  by (simp_all add: ib_add_def ib_inc_def bw_add_def split: option.splits)

text \<open>The parameters the transfer operations read.\<close>

record ib_params =
  pm_splitDataOnQps :: bool     \<comment> \<open>\<open>ncclParamIbSplitDataOnQps() != 0\<close>\<close>
  pm_arThreshold :: int
  pm_asyncEvents :: bool
  pm_bwOffset :: int

definition UNET_BW_POST_BYTES_BY_RANK :: "ib_params \<Rightarrow> int \<Rightarrow> int" where
  "UNET_BW_POST_BYTES_BY_RANK pm rank = pm_bwOffset pm + rank * 2"

definition UNET_BW_CPL_BYTES_BY_RANK :: "ib_params \<Rightarrow> int \<Rightarrow> int" where
  "UNET_BW_CPL_BYTES_BY_RANK pm rank = pm_bwOffset pm + rank * 2 + 1"

definition ncclIbStatsCheckFatalCount :: "ib_params \<Rightarrow> int \<Rightarrow> ncclResult" where
  "ncclIbStatsCheckFatalCount pm fatalErrorCount =
     (if pm_asyncEvents pm \<and> fatalErrorCount \<noteq> 0 then ncclSystemError else ncclSuccess)"

end
