(* ===== verification/IbRequests.thy ===== *)
theory IbRequests
  imports IbTypes
begin

text \<open>
  The request table of a communicator: \<^verbatim>\<open>ncclIbGetRequest\<close>, \<^verbatim>\<open>ncclIbFreeRequest\<close> and
  \<^verbatim>\<open>ncclIbAddEvent\<close>. A request is identified by its index in \<^verbatim>\<open>base->reqs\<close>, which is also what
  travels in the work request identifiers.
\<close>

definition ncclIbGetRequest ::
    "ncclIbNetCommBase \<Rightarrow> ncclResult \<times> ncclIbNetCommBase \<times> nat option" where
  "ncclIbGetRequest base =
     (case find_index (\<lambda>r. rq_type r = NCCL_NET_IB_REQ_UNUSED) (cb_reqs base) of
        Some i \<Rightarrow>
          (ncclSuccess,
           base\<lparr> cb_reqs := (cb_reqs base)[i := (cb_reqs base ! i)
                   \<lparr> rq_sock := False, rq_devBases := [None, None], rq_events := [0, 0] \<rparr>] \<rparr>,
           Some i)
      | None \<Rightarrow> (ncclInternalError, base, None))"

definition upd_req :: "nat \<Rightarrow> (ncclIbRequest \<Rightarrow> ncclIbRequest) \<Rightarrow> ncclIbNetCommBase \<Rightarrow> ncclIbNetCommBase" where
  "upd_req i f base = base\<lparr> cb_reqs := (cb_reqs base)[i := f (cb_reqs base ! i)] \<rparr>"

definition ncclIbFreeRequest :: "nat \<Rightarrow> ncclIbNetCommBase \<Rightarrow> ncclIbNetCommBase" where
  "ncclIbFreeRequest i base = upd_req i (\<lambda>r. r\<lparr> rq_type := NCCL_NET_IB_REQ_UNUSED \<rparr>) base"

definition ncclIbAddEvent :: "nat \<Rightarrow> ncclIbRequest \<Rightarrow> ncclIbRequest" where
  "ncclIbAddEvent devIndex r =
     r\<lparr> rq_events := (rq_events r)[devIndex := rq_events r ! devIndex + 1],
       rq_devBases := (rq_devBases r)[devIndex := Some devIndex] \<rparr>"

section \<open>Selectors\<close>

lemma upd_req_sel [simp]:
  "cb_ndevs (upd_req i f b) = cb_ndevs b" "cb_isSend (upd_req i f b) = cb_isSend b"
  "cb_qps (upd_req i f b) = cb_qps b" "cb_nqps (upd_req i f b) = cb_nqps b"
  "cb_qpIndex (upd_req i f b) = cb_qpIndex b" "cb_devIndex (upd_req i f b) = cb_devIndex b"
  "cb_ready (upd_req i f b) = cb_ready b" "cb_fatal (upd_req i f b) = cb_fatal b"
  "cb_fifoRkeys (upd_req i f b) = cb_fifoRkeys b"
  "length (cb_reqs (upd_req i f b)) = length (cb_reqs b)"
  by (simp_all add: upd_req_def)

lemma nth_upd_req:
  "j < length (cb_reqs b) \<Longrightarrow>
   cb_reqs (upd_req i f b) ! j = (if i = j then f (cb_reqs b ! j) else cb_reqs b ! j)"
  by (simp add: upd_req_def list_update_nth_cases)

section \<open>The table as a pool\<close>

definition unused :: "ncclIbNetCommBase \<Rightarrow> nat set" where
  "unused b = {i. i < length (cb_reqs b) \<and> rq_type (cb_reqs b ! i) = NCCL_NET_IB_REQ_UNUSED}"

text \<open>Getting a request and giving it its type, as every caller does at once.\<close>

definition take_request :: "req_type \<Rightarrow> ncclIbNetCommBase \<Rightarrow> (nat \<times> ncclIbNetCommBase) option" where
  "take_request t b =
     (case ncclIbGetRequest b of
        (_, b', Some i) \<Rightarrow> Some (i, upd_req i (\<lambda>r. r\<lparr> rq_type := t \<rparr>) b')
      | (_, _, None) \<Rightarrow> None)"

lemma ncclIbGetRequest_cases:
  obtains (full) "unused b = {}" "ncclIbGetRequest b = (ncclInternalError, b, None)"
  | (ok) i where "i \<in> unused b" "\<forall>j<i. j \<notin> unused b"
      "ncclIbGetRequest b = (ncclSuccess,
         upd_req i (\<lambda>r. r\<lparr> rq_sock := False, rq_devBases := [None, None], rq_events := [0, 0] \<rparr>) b, Some i)"
proof (cases "find_index (\<lambda>r. rq_type r = NCCL_NET_IB_REQ_UNUSED) (cb_reqs b)")
  case None
  then have "unused b = {}" by (auto simp: find_index_None unused_def)
  with None full show ?thesis by (simp add: ncclIbGetRequest_def)
next
  case (Some i)
  from find_index_Some [OF Some] have "i \<in> unused b" "\<forall>j<i. j \<notin> unused b"
    by (auto simp: unused_def)
  with Some ok show ?thesis by (simp add: ncclIbGetRequest_def upd_req_def)
qed

lemma unused_upd_req:
  "unused (upd_req i f b) =
     (if i < length (cb_reqs b) \<and> rq_type (f (cb_reqs b ! i)) = NCCL_NET_IB_REQ_UNUSED
      then insert i (unused b) else unused b - {i})"
  by (auto simp: unused_def nth_upd_req split: if_splits)

lemma take_request_Some:
  assumes "take_request t b = Some (i, b')" "t \<noteq> NCCL_NET_IB_REQ_UNUSED"
  shows "i \<in> unused b" "unused b' = unused b - {i}" "length (cb_reqs b') = length (cb_reqs b)"
    "rq_type (cb_reqs b' ! i) = t" "rq_events (cb_reqs b' ! i) = [0, 0]"
    "\<And>j. j < length (cb_reqs b) \<Longrightarrow> j \<noteq> i \<Longrightarrow> cb_reqs b' ! j = cb_reqs b ! j"
proof -
  have "i \<in> unused b \<and> unused b' = unused b - {i} \<and> length (cb_reqs b') = length (cb_reqs b) \<and>
    rq_type (cb_reqs b' ! i) = t \<and> rq_events (cb_reqs b' ! i) = [0, 0] \<and>
    (\<forall>j < length (cb_reqs b). j \<noteq> i \<longrightarrow> cb_reqs b' ! j = cb_reqs b ! j)"
  proof (cases rule: ncclIbGetRequest_cases [of b])
    case full
    then show ?thesis using assms by (simp add: take_request_def)
  next
    case (ok k)
    have "k < length (cb_reqs b)" using ok(1) by (simp add: unused_def)
    then show ?thesis using assms ok
      by (auto simp: take_request_def unused_upd_req nth_upd_req split: if_splits)
  qed
  then show "i \<in> unused b" "unused b' = unused b - {i}" "length (cb_reqs b') = length (cb_reqs b)"
    "rq_type (cb_reqs b' ! i) = t" "rq_events (cb_reqs b' ! i) = [0, 0]"
    "\<And>j. j < length (cb_reqs b) \<Longrightarrow> j \<noteq> i \<Longrightarrow> cb_reqs b' ! j = cb_reqs b ! j" by blast+
qed

interpretation req_pool: slot_pool "\<lambda>b. length (cb_reqs b) = MAX_REQUESTS"
  "\<lambda>b. {..<MAX_REQUESTS}" unused "take_request NCCL_NET_IB_REQ_SEND" ncclIbFreeRequest
proof unfold_locales
  fix b :: ncclIbNetCommBase
  assume len: "length (cb_reqs b) = MAX_REQUESTS"
  show "unused b \<subseteq> {..<MAX_REQUESTS}" using len by (auto simp: unused_def)
  show "take_request NCCL_NET_IB_REQ_SEND b = None \<longleftrightarrow> unused b = {}"
    by (cases rule: ncclIbGetRequest_cases [of b]) (auto simp: take_request_def)
next
  fix b i b'
  assume "length (cb_reqs b) = MAX_REQUESTS" "take_request NCCL_NET_IB_REQ_SEND b = Some (i, b')"
  then show "i \<in> unused b \<and> unused b' = unused b - {i} \<and>
    {..<MAX_REQUESTS} = {..<MAX_REQUESTS} \<and> length (cb_reqs b') = MAX_REQUESTS"
    using take_request_Some(1-3) [of NCCL_NET_IB_REQ_SEND b i b'] by simp
next
  fix b i
  assume "length (cb_reqs b) = MAX_REQUESTS" "i \<in> {..<MAX_REQUESTS} - unused b"
  then show "unused (ncclIbFreeRequest i b) = insert i (unused b) \<and>
    {..<MAX_REQUESTS} = {..<MAX_REQUESTS} \<and> length (cb_reqs (ncclIbFreeRequest i b)) = MAX_REQUESTS"
    by (simp add: ncclIbFreeRequest_def unused_upd_req)
qed simp

text \<open>
  The request table gives out its 256 requests before it fails: a
  run of \<open>n\<close> allocations on a table with no request in use succeeds exactly when \<open>n\<close> is at most 256, the
  indices are distinct, and each fits the eight bits it has in a work request identifier.
\<close>
theorem request_table_capacity:
  assumes "length (cb_reqs b) = MAX_REQUESTS" "unused b = {..<MAX_REQUESTS}"
  shows "(n \<le> MAX_REQUESTS \<longleftrightarrow> (\<exists>is b'. req_pool.alloc_n n b = Some (is, b'))) \<and>
    (\<forall>is b'. req_pool.alloc_n n b = Some (is, b') \<longrightarrow>
       distinct is \<and> length is = n \<and> (\<forall>i \<in> set is. i < 2 ^ 8) \<and> unused b' = {..<MAX_REQUESTS} - set is)"
proof -
  have props: "distinct is \<and> length is = n \<and> (\<forall>i \<in> set is. i < 2 ^ 8) \<and>
      unused b' = {..<MAX_REQUESTS} - set is \<and> n \<le> MAX_REQUESTS"
    if a: "req_pool.alloc_n n b = Some (is, b')" for "is" b'
  proof -
    note p = req_pool.alloc_n_props [OF assms(1) a]
    have len: "length (cb_reqs b') = MAX_REQUESTS" using p by blast
    have h: "{..<MAX_REQUESTS} - unused b' = set is" using p assms(2) by (simp add: req_pool.held_def)
    have "unused b' \<subseteq> {..<MAX_REQUESTS}" using len by (auto simp: unused_def)
    then have u: "unused b' = {..<MAX_REQUESTS} - set is" "set is \<subseteq> {..<MAX_REQUESTS}" using h by auto
    moreover have "card (set is) \<le> card {..<MAX_REQUESTS}" using u(2) by (intro card_mono) simp_all
    ultimately show ?thesis using p distinct_card [of "is"] by auto
  qed
  have "\<exists>is b'. req_pool.alloc_n n b = Some (is, b')" if "n \<le> MAX_REQUESTS"
    using req_pool.alloc_n_defined [OF assms(1), of n] that assms(2) by simp
  then show ?thesis using props by blast
qed

definition idle_request :: ncclIbRequest where
  "idle_request = \<lparr> rq_type = NCCL_NET_IB_REQ_UNUSED, rq_peer_rank = 0, rq_sock = False,
     rq_events = [0, 0], rq_devBases = [None, None], rq_nreqs = 0, send_size = 0, send_data = 0,
     send_lkeys = [0, 0], send_offset = 0, recv_sizes = 0 \<rparr>"

definition example_base :: ncclIbNetCommBase where
  "example_base = \<lparr> cb_ndevs = 1, cb_isSend = True, cb_reqs = replicate MAX_REQUESTS idle_request,
     cb_qps = [\<lparr> qp_handle = 7, qp_devIndex = 0, qp_remDevIdx = 0 \<rparr>], cb_nqps = 1, cb_qpIndex = 0,
     cb_devIndex = 0, cb_ready = 1, cb_fifoRkeys = [5, 0], cb_fatal = 0 \<rparr>"

lemma example_base_unused: "unused example_base = {..<MAX_REQUESTS}"
  by (auto simp: unused_def example_base_def idle_request_def)

lemma example_base_reqs: "length (cb_reqs example_base) = MAX_REQUESTS"
  by (simp add: example_base_def)

theorem request_table_capacity_witness:
  "(\<exists>is b'. req_pool.alloc_n MAX_REQUESTS example_base = Some (is, b')) \<and>
   \<not> (\<exists>is b'. req_pool.alloc_n (MAX_REQUESTS + 1) example_base = Some (is, b'))"
  using request_table_capacity [of example_base MAX_REQUESTS]
    request_table_capacity [of example_base "MAX_REQUESTS + 1"] example_base_unused example_base_reqs
  by simp

end
