(* ===== verification/IbSend.thy ===== *)
theory IbSend
  imports IbRequests
begin

text \<open>
  The sending side of a transfer: \<^verbatim>\<open>ncclIbIsend\<close> and \<^verbatim>\<open>ncclIbMultiSend\<close> of
  \<^verbatim>\<open>src/unet/unet_ib.cc\<close>. The sender waits for the receiver's clear-to-send entries in its
  \<^verbatim>\<open>fifo\<close>, matches them by tag, and once every entry of a slot is matched posts one chain of
  RDMA writes per queue pair.
\<close>

section \<open>ncclIbMultiSend\<close>

text \<open>
  The bytes one queue pair carries of a buffer: a multiple of 128, computed in the 32 bits of an \<^verbatim>\<open>int\<close>, which the
  roundings of a size close to \<open>2^31\<close> leave.
\<close>

definition chunkSize :: "int \<Rightarrow> nat \<Rightarrow> int" where
  "chunkSize sz nqps = i32 (DIVUP (DIVUP sz (int nqps)) 128 * 128)"

text \<open>
  The work requests of a chain while it is being built: one write per request with its gather
  entry, and the extra last request of a multi-send or of adaptive routing.
\<close>

record chain =
  ch_wrs :: "ibv_send_wr list"
  ch_sges :: "ibv_sge list"
  ch_extra :: "ibv_send_wr option"

definition slot_nreqs :: "ncclIbSendComm \<Rightarrow> nat \<Rightarrow> int" where
  "slot_nreqs comm slot = sint (sf_nreqs (sc_fifo comm ! row slot 0))"

definition slot_reqs :: "ncclIbSendComm \<Rightarrow> nat \<Rightarrow> nat \<Rightarrow> nat list" where
  "slot_reqs comm slot n = map (\<lambda>r. the (sc_fifoReqs comm ! row slot r)) [0..<n]"

definition get_req :: "ncclIbSendComm \<Rightarrow> nat \<Rightarrow> ncclIbRequest" where
  "get_req comm i = cb_reqs (sc_base comm) ! i"

text \<open>\<open>wr_id += (reqs[r] - comm->base.reqs) << (r*8)\<close>, on 64 bits.\<close>

definition encode_wr_id :: "nat list \<Rightarrow> u64" where
  "encode_wr_id is = sum_list (map (\<lambda>r. push_bit (8 * r) (word_of_nat (is ! r))) [0..<length is])"

text \<open>The code before the loop over the queue pairs; also fills the sizes of a multi-send.\<close>

definition build_chain :: "ib_params \<Rightarrow> ncclIbSendComm \<Rightarrow> nat \<Rightarrow> nat list \<Rightarrow> chain" where
  "build_chain pm comm slot is =
     (let n = length is;
          wrs = map (\<lambda>r. zero_wr\<lparr> wr_remote_addr := sf_addr (sc_fifo comm ! row slot r) \<rparr>) [0..<n];
          sges = map (\<lambda>i. \<lparr> sge_addr = send_data (get_req comm i), sge_length = 0, sge_lkey = 0 \<rparr>) is;
          rs = sc_remSizes comm;
          sz0 = send_size (get_req comm (is ! 0));
          imm = (if n = 1 then word_of_int sz0 else 0);
          finish = (\<lambda>wr. wr\<lparr> wr_id := encode_wr_id is, wr_opcode := IBV_WR_RDMA_WRITE_WITH_IMM,
                              wr_imm := imm, wr_signaled := True \<rparr>)
      in if n > 1 \<or> (sc_ar comm \<and> sz0 > pm_arThreshold pm)
         then \<lparr> ch_wrs = wrs, ch_sges = sges,
                ch_extra = Some (finish
                  (if n > 1
                   then zero_wr\<lparr> wr_remote_addr := rs_addr rs + word_of_nat (row slot 0 * sizeof_int),
                                wr_sg := Some \<lparr> sge_addr = rs_local rs + word_of_nat (row slot 0 * sizeof_int),
                                               sge_length = word_of_nat (n * sizeof_int), sge_lkey = 0 \<rparr> \<rparr>
                   else zero_wr)) \<rparr>
         else \<lparr> ch_wrs = wrs[n - 1 := finish (wrs ! (n - 1))], ch_sges = sges, ch_extra = None \<rparr>)"

definition store_sizes :: "ncclIbSendComm \<Rightarrow> nat \<Rightarrow> nat list \<Rightarrow> ncclIbSendComm" where
  "store_sizes comm slot is =
     (if length is = 1 then comm
      else comm\<lparr> sc_remSizes := (sc_remSizes comm)\<lparr> rs_elems :=
                   fold (\<lambda>r es. es[row slot r := send_size (get_req comm (is ! r))]) [0..<length is]
                     (rs_elems (sc_remSizes comm)) \<rparr> \<rparr>)"

text \<open>
  One queue pair: the key, length and gather entry of each write; returns the write, its gather
  entry and the bytes it carries.
\<close>

definition send_length :: "ncclIbRequest \<Rightarrow> nat \<Rightarrow> int" where
  "send_length rq nqps = min (i32 (send_size rq - send_offset rq)) (chunkSize (send_size rq) nqps)"

definition prep_wr ::
    "ncclIbSendComm \<Rightarrow> nat \<Rightarrow> ncclIbQp \<Rightarrow> nat \<Rightarrow> nat \<Rightarrow> nat \<Rightarrow> ibv_send_wr \<Rightarrow> ibv_sge \<Rightarrow> ibv_send_wr \<times> ibv_sge" where
  "prep_wr comm slot qp nqps r i wr sge =
     (let rq = get_req comm i;
          wr = wr\<lparr> wr_rkey := sf_rkeys (sc_fifo comm ! row slot r) ! qp_remDevIdx qp \<rparr>;
          len = send_length rq nqps
      in if len \<le> 0 then (wr\<lparr> wr_sg := None \<rparr>, sge)
         else let sge = sge\<lparr> sge_lkey := send_lkeys rq ! qp_devIndex qp, sge_length := word_of_int len \<rparr>
              in (wr\<lparr> wr_sg := Some sge \<rparr>, sge))"

definition prep_chain :: "ncclIbSendComm \<Rightarrow> nat \<Rightarrow> ncclIbQp \<Rightarrow> nat \<Rightarrow> nat list \<Rightarrow> chain \<Rightarrow> chain" where
  "prep_chain comm slot qp nqps is ch =
     (let ps = map (\<lambda>r. prep_wr comm slot qp nqps r (is ! r) (ch_wrs ch ! r) (ch_sges ch ! r)) [0..<length is];
          d = qp_devIndex qp
      in \<lparr> ch_wrs = map fst ps, ch_sges = map snd ps,
           ch_extra = (if length is > 1
             then map_option (\<lambda>wr. wr\<lparr> wr_rkey := rs_rkeys (sc_remSizes comm) ! d,
                    wr_sg := map_option (\<lambda>s. s\<lparr> sge_lkey := rs_lkeys (sc_remSizes comm) ! d \<rparr>) (wr_sg wr) \<rparr>)
                    (ch_extra ch)
             else ch_extra ch) \<rparr>)"

definition chain_posted :: "chain \<Rightarrow> ibv_send_wr list" where
  "chain_posted ch = ch_wrs ch @ (case ch_extra ch of None \<Rightarrow> [] | Some wr \<Rightarrow> [wr])"

definition chain_bytes :: "ncclIbSendComm \<Rightarrow> nat \<Rightarrow> nat list \<Rightarrow> u64" where
  "chain_bytes comm nqps is =
     sum_list (map (\<lambda>i. let l = send_length (get_req comm i) nqps in if l \<le> 0 then 0 else word_of_int l) is)"

text \<open>After the post: every offset and address moves one chunk on, and the next queue pair is selected.\<close>

definition advance_reqs :: "nat \<Rightarrow> nat list \<Rightarrow> ncclIbSendComm \<Rightarrow> ncclIbSendComm" where
  "advance_reqs nqps is comm =
     comm\<lparr> sc_base := fold (\<lambda>i. upd_req i (\<lambda>r. r\<lparr> send_offset := i32 (send_offset r + chunkSize (send_size r) nqps) \<rparr>))
             is (sc_base comm) \<rparr>"

definition advance_chain :: "ncclIbSendComm \<Rightarrow> nat \<Rightarrow> nat list \<Rightarrow> chain \<Rightarrow> chain" where
  "advance_chain comm nqps is ch =
     (let step = (\<lambda>r. word_of_int (chunkSize (send_size (get_req comm (is ! r))) nqps))
      in ch\<lparr> ch_wrs := map (\<lambda>r. let wr = ch_wrs ch ! r in wr\<lparr> wr_remote_addr := wr_remote_addr wr + step r \<rparr>) [0..<length is],
             ch_sges := map (\<lambda>r. let s = ch_sges ch ! r in s\<lparr> sge_addr := sge_addr s + step r \<rparr>) [0..<length is] \<rparr>)"

definition next_qp :: "ncclIbNetCommBase \<Rightarrow> ncclIbNetCommBase" where
  "next_qp b = b\<lparr> cb_qpIndex := (cb_qpIndex b + 1) mod cb_nqps b \<rparr>"

fun multi_send_loop ::
    "verbs \<Rightarrow> nat \<Rightarrow> nat list \<Rightarrow> nat \<Rightarrow> nat \<Rightarrow> chain \<Rightarrow> u64 \<Rightarrow> ncclIbSendComm \<Rightarrow> world
       \<Rightarrow> ncclResult \<times> u64 \<times> ncclIbSendComm \<times> world" where
  "multi_send_loop v slot is nqps 0 ch tot comm w = (ncclSuccess, tot, comm, w)"
| "multi_send_loop v slot is nqps (Suc k) ch tot comm w =
     (let qp = cb_qps (sc_base comm) ! cb_qpIndex (sc_base comm);
          ch = prep_chain comm slot qp nqps is ch;
          tot = tot + chain_bytes comm nqps is;
          (res, w) = nic_post v (PostSend (qp_handle qp) (chain_posted ch)) w
      in if ncclCheckFails res then (res, tot, comm, w)
         else let ch = advance_chain comm nqps is ch;
                  comm = advance_reqs nqps is comm;
                  comm = comm\<lparr> sc_base := next_qp (sc_base comm) \<rparr>
              in multi_send_loop v slot is nqps k ch tot comm w)"

definition conn_nqps :: "ib_params \<Rightarrow> ncclIbNetCommBase \<Rightarrow> nat" where
  "conn_nqps pm b = (if pm_splitDataOnQps pm then cb_nqps b else cb_ndevs b)"

definition ncclIbMultiSend ::
    "ib_params \<Rightarrow> verbs \<Rightarrow> nat \<Rightarrow> ncclIbSendComm \<Rightarrow> world \<Rightarrow> ncclResult \<times> ncclIbSendComm \<times> world" where
  "ncclIbMultiSend pm v slot comm w =
     (let nreqs = slot_nreqs comm slot in
      if nreqs > int NCCL_NET_IB_MAX_RECVS then (ncclInternalError, comm, w)
      else let is = slot_reqs comm slot (nat nreqs);
               ch = build_chain pm comm slot is;
               comm = store_sizes comm slot is;
               nqps = conn_nqps pm (sc_base comm);
               (res, tot, comm, w) = multi_send_loop v slot is nqps nqps ch 0 comm w
           in if ncclCheckFails res then (res, comm, w)
              else (ncclSuccess, comm, ib_add UNET_IB_TX_BYTES tot w))"

section \<open>ncclIbIsend\<close>

text \<open>
  The network card writes entries into the fifo at any time; what it writes while the sender
  spins is a list of deliveries: an index and the new entry.
\<close>

type_synonym delivery = "nat \<times> ncclIbSendFifo"

fun spin :: "u64 \<Rightarrow> nat \<Rightarrow> delivery list \<Rightarrow> ncclIbSendFifo list \<Rightarrow> (delivery list \<times> ncclIbSendFifo list) option" where
  "spin idx p ds fifo =
     (if sf_idx (fifo ! p) = idx then Some (ds, fifo)
      else case ds of [] \<Rightarrow> None | (q, e) # ds' \<Rightarrow> spin idx p ds' (fifo[q := e]))"

fun spin_all :: "u64 \<Rightarrow> nat list \<Rightarrow> delivery list \<Rightarrow> ncclIbSendFifo list \<Rightarrow> (delivery list \<times> ncclIbSendFifo list) option" where
  "spin_all idx [] ds fifo = Some (ds, fifo)"
| "spin_all idx (p # ps) ds fifo =
     (case spin idx p ds fifo of None \<Rightarrow> None | Some (ds', fifo') \<Rightarrow> spin_all idx ps ds' fifo')"

text \<open>One event per queue pair the transfer will use, counted from the current one.\<close>

fun add_events :: "ncclIbNetCommBase \<Rightarrow> ncclIbMrKeys \<Rightarrow> nat \<Rightarrow> nat \<Rightarrow> ncclIbRequest \<Rightarrow> ncclIbRequest" where
  "add_events b mh 0 q r = r"
| "add_events b mh (Suc k) q r =
     (let d = qp_devIndex (cb_qps b ! q);
          r = ncclIbAddEvent d r;
          r = r\<lparr> send_lkeys := (send_lkeys r)[d := mk_lkeys mh ! d] \<rparr>
      in add_events b mh k ((q + 1) mod cb_nqps b) r)"

definition fill_send_request ::
    "ib_params \<Rightarrow> ncclIbSendComm \<Rightarrow> int \<Rightarrow> int \<Rightarrow> u64 \<Rightarrow> ncclIbMrKeys \<Rightarrow> ncclIbRequest \<Rightarrow> ncclIbRequest" where
  "fill_send_request pm comm nreqs sz data mh r =
     (let b = sc_base comm;
          r = r\<lparr> rq_type := NCCL_NET_IB_REQ_SEND, rq_sock := True, rq_nreqs := nreqs, send_size := sz,
                send_data := data, send_offset := 0, rq_peer_rank := sc_peer_rank comm \<rparr>;
          r = add_events b mh (conn_nqps pm b) (cb_qpIndex b) r
      in r\<lparr> send_lkeys := fold (\<lambda>i ks. ks[i := mk_lkeys mh ! i]) [0..<cb_ndevs b] (send_lkeys r) \<rparr>)"

text \<open>The first entry of the slot with this tag and no request yet.\<close>

definition find_match :: "ncclIbSendComm \<Rightarrow> nat \<Rightarrow> nat \<Rightarrow> int \<Rightarrow> nat option" where
  "find_match comm slot n tag =
     find_index (\<lambda>r. sc_fifoReqs comm ! row slot r = None \<and>
                     sf_tag (sc_fifo comm ! row slot r) = word_of_int tag) [0..<n]"

text \<open>\<^verbatim>\<open>memset\<close> of the first fifo entry and of the eight request pointers.\<close>

definition clear_slot :: "nat \<Rightarrow> ncclIbSendComm \<Rightarrow> ncclIbSendComm" where
  "clear_slot slot comm =
     comm\<lparr> sc_fifo := (sc_fifo comm)[row slot 0 := zero_fifo],
           sc_fifoReqs := fold (\<lambda>r ps. ps[row slot r := None]) [0..<NCCL_NET_IB_MAX_RECVS] (sc_fifoReqs comm) \<rparr>"

definition bad_recv_info :: "ncclIbSendFifo \<Rightarrow> bool" where
  "bad_recv_info e \<longleftrightarrow> sf_size e < 0 \<or> sf_addr e = 0 \<or> sf_rkeys e ! 0 = 0"

text \<open>The body of the loop for the matching entry \<open>r\<close>.\<close>

definition isend_matched ::
    "ib_params \<Rightarrow> verbs \<Rightarrow> nat \<Rightarrow> nat \<Rightarrow> nat \<Rightarrow> u64 \<Rightarrow> int \<Rightarrow> ncclIbMrKeys \<Rightarrow> ncclIbSendComm \<Rightarrow> world
       \<Rightarrow> ncclResult \<times> nat option \<times> ncclIbSendComm \<times> world" where
  "isend_matched pm v slot n r data sz mh comm w =
     (let e = sc_fifo comm ! row slot r;
          sz = (if sz > sf_size e then sf_size e else sz)
      in if bad_recv_info e then (ncclInternalError, None, comm, w)
         else case ncclIbGetRequest (sc_base comm) of
           (res, b, None) \<Rightarrow> (res, None, comm\<lparr> sc_base := b \<rparr>, w)
         | (res, b, Some i) \<Rightarrow>
             let comm = comm\<lparr> sc_base := upd_req i (fill_send_request pm comm (int n) sz data mh) b \<rparr>;
                 comm = comm\<lparr> sc_fifoReqs := (sc_fifoReqs comm)[row slot r := Some i] \<rparr>
             in if \<exists>k \<in> set [0..<n]. sc_fifoReqs comm ! row slot k = None
                then (ncclSuccess, Some i, comm, w)
                else let (res, comm, w) = ncclIbMultiSend pm v slot comm w
                     in if ncclCheckFails res then (res, Some i, comm, w)
                        else (ncclSuccess, Some i,
                              (clear_slot slot comm)\<lparr> sc_fifoHead := sc_fifoHead comm + 1 \<rparr>, w))"

definition cur_slot :: "ncclIbSendComm \<Rightarrow> nat" where
  "cur_slot comm = unat (sc_fifoHead comm mod 256)"

text \<open>
  \<open>None\<close>: the call never returns, because an entry it waits for is never written. The request is
  what the call leaves in \<^verbatim>\<open>*request\<close>: \<open>None\<close> for \<^verbatim>\<open>NULL\<close>, and on the errors that leave it
  unset.
\<close>

definition ncclIbIsend ::
    "ib_params \<Rightarrow> verbs \<Rightarrow> u64 \<Rightarrow> int \<Rightarrow> int \<Rightarrow> ncclIbMrKeys \<Rightarrow> delivery list \<Rightarrow> ncclIbSendComm \<Rightarrow> world
       \<Rightarrow> (ncclResult \<times> nat option \<times> delivery list \<times> ncclIbSendComm \<times> world) option" where
  "ncclIbIsend pm v data sz tag mh ds comm w =
     (if cb_ready (sc_base comm) = 0 then Some (ncclInternalError, None, ds, comm, w)
      else let slot = cur_slot comm; idx = sc_fifoHead comm + 1 in
        if sf_idx (sc_fifo comm ! row slot 0) \<noteq> idx then Some (ncclSuccess, None, ds, comm, w)
        else let n = nat (slot_nreqs comm slot) in
          case spin_all idx (map (row slot) [1..<n]) ds (sc_fifo comm) of
            None \<Rightarrow> None
          | Some (ds, fifo) \<Rightarrow>
              let comm = comm\<lparr> sc_fifo := fifo \<rparr>;
                  w = ib_inc UNET_IB_FIFO_RECV_COUNT w
              in case find_match comm slot n tag of
                   None \<Rightarrow> Some (ncclSuccess, None, ds, comm, w)
                 | Some r \<Rightarrow>
                     let (res, req, comm, w) = isend_matched pm v slot n r data sz mh comm w
                     in Some (res, req, ds, comm, w))"

end
