(* ===== verification/WrId.thy ===== *)
theory WrId
  imports IbSend
begin

text \<open>
  The work request identifiers: the sender packs the indices of the requests of a chain, eight
  bits each (\<^verbatim>\<open>ncclIbMultiSend\<close>), and \<^verbatim>\<open>ncclIbTest\<close> unpacks them from the completion.
\<close>

definition decode_wr_id :: "u64 \<Rightarrow> nat \<Rightarrow> nat" where
  "decode_wr_id wid j = unat (drop_bit (j * 8) wid AND 0xff)"

lemma encode_wr_id_Cons: "encode_wr_id (i # is) = word_of_nat i + push_bit 8 (encode_wr_id is)"
proof -
  have split: "[0..<length (i # is)] = 0 # map Suc [0..<length is]"
    by (simp add: upt_conv_Cons map_Suc_upt del: upt_Suc)
  have push: "push_bit 8 (sum_list (map f xs)) = sum_list (map (\<lambda>r. push_bit 8 (f r)) xs)"
    for f :: "nat \<Rightarrow> u64" and xs
    by (induction xs) (simp_all add: push_bit_add)
  show ?thesis
    unfolding encode_wr_id_def split by (simp add: push o_def push_bit_push_bit add.commute)
qed

text \<open>The identifier as a number: the indices are its digits to base 256, the first the lowest.\<close>

fun digits_value :: "nat list \<Rightarrow> nat" where
  "digits_value [] = 0"
| "digits_value (i # is) = i + 256 * digits_value is"

lemma digits_value_bound: "\<forall>i \<in> set is. i < 256 \<Longrightarrow> digits_value is < 256 ^ length is"
proof (induction "is")
  case Nil
  then show ?case by simp
next
  case (Cons i "is")
  then have "digits_value is + 1 \<le> 256 ^ length is" "i < 256" by auto
  then have "i + 256 * digits_value is < 256 * (256 ^ length is)" by linarith
  then show ?case by simp
qed

lemma digits_value_nth:
  "\<forall>i \<in> set is. i < 256 \<Longrightarrow> j < length is \<Longrightarrow> digits_value is div 256 ^ j mod 256 = is ! j"
proof (induction "is" arbitrary: j)
  case Nil
  then show ?case by simp
next
  case (Cons i "is")
  show ?case
  proof (cases j)
    case 0
    with Cons.prems show ?thesis by simp
  next
    case (Suc k)
    have "(i + 256 * digits_value is) div 256 ^ Suc k = digits_value is div 256 ^ k"
      using Cons.prems by (simp add: div_mult2_eq)
    then show ?thesis using Cons Suc by simp
  qed
qed

lemma unat_encode:
  "\<forall>i \<in> set is. i < 256 \<Longrightarrow> length is \<le> 8 \<Longrightarrow> unat (encode_wr_id is) = digits_value is"
proof (induction "is")
  case Nil
  then show ?case by (simp add: encode_wr_id_def)
next
  case (Cons i "is")
  have ih: "unat (encode_wr_id is) = digits_value is" using Cons by simp
  have "(256 :: nat) ^ length (i # is) \<le> 256 ^ 8" using Cons.prems by (intro power_increasing) simp_all
  with digits_value_bound [OF Cons.prems(1)] have b: "i + 256 * digits_value is < 2 ^ 64" by simp
  have "encode_wr_id (i # is) = word_of_nat (i + 256 * digits_value is)"
    by (simp add: encode_wr_id_Cons push_bit_eq_mult ih [symmetric] mult.commute)
  then have "unat (encode_wr_id (i # is)) = take_bit 64 (i + 256 * digits_value is)"
    by (simp only: unsigned_of_nat) simp
  then show ?case using b by (simp add: take_bit_nat_eq_self)
qed

lemma decode_wr_id_div: "decode_wr_id wid j = unat wid div 256 ^ j mod 256"
proof -
  have m: "(0xff :: u64) = mask 8" by (simp add: mask_eq_exp_minus_1)
  have "unat (drop_bit (j * 8) wid AND 0xff) = take_bit 8 (drop_bit (j * 8) (unat wid))"
    unfolding m by (simp add: take_bit_eq_mask [symmetric] unsigned_take_bit_eq unat_drop_bit_eq)
  moreover have "(256 :: nat) ^ j = 2 ^ (j * 8)"
    using power_mult [of "2 :: nat" 8 j] by (simp add: mult.commute)
  ultimately show ?thesis
    by (simp add: decode_wr_id_def take_bit_eq_mod drop_bit_eq_div)
qed

lemma decode_encode:
  "\<forall>i \<in> set is. i < 256 \<Longrightarrow> length is \<le> 8 \<Longrightarrow> j < length is \<Longrightarrow>
   decode_wr_id (encode_wr_id is) j = is ! j"
  by (simp add: decode_wr_id_div unat_encode digits_value_nth)

text \<open>
  C16: the identifier of a chain of up to eight requests, with indices below 256, gives back every
  one of them; so two different lists of the same length never share an identifier, and the
  identifier of a single request is its index.
\<close>
theorem wr_id_roundtrip:
  assumes "\<forall>i \<in> set is. i < 256" "length is \<le> 8"
  shows "map (decode_wr_id (encode_wr_id is)) [0..<length is] = is \<and>
    unat (encode_wr_id is) < 256 ^ length is"
  using decode_encode [OF assms] unat_encode [OF assms] digits_value_bound [OF assms(1)]
  by (auto intro: nth_equalityI)

theorem wr_id_roundtrip_witness:
  "map (decode_wr_id (encode_wr_id [3, 255, 0, 17, 4, 99, 200, 1])) [0..<8] = [3, 255, 0, 17, 4, 99, 200, 1]"
proof -
  let ?is = "[3, 255, 0, 17, 4, 99, 200, 1] :: nat list"
  have "map (decode_wr_id (encode_wr_id ?is)) [0..<length ?is] = ?is"
    by (rule wr_id_roundtrip [THEN conjunct1]) simp_all
  then show ?thesis by (simp add: upt_rec)
qed

end
