(* ===== verification/MultiSend.thy ===== *)
theory MultiSend
  imports WrId
begin

text \<open>
  What \<^verbatim>\<open>ncclIbMultiSend\<close> posts: a closed form of the chains of its loop, from which the
  properties of the transfer follow.
\<close>

section \<open>Closed form of the loop\<close>

definition qp_at :: "ncclIbNetCommBase \<Rightarrow> nat \<Rightarrow> ncclIbQp" where
  "qp_at b k = cb_qps b ! ((cb_qpIndex b + k) mod cb_nqps b)"

definition chunk_len :: "int \<Rightarrow> nat \<Rightarrow> nat \<Rightarrow> int" where
  "chunk_len sz nqps k = min (i32 (sz - int k * chunkSize sz nqps)) (chunkSize sz nqps)"

definition chunk_wr ::
    "ncclIbSendComm \<Rightarrow> nat \<Rightarrow> nat \<Rightarrow> ncclIbQp \<Rightarrow> nat \<Rightarrow> nat \<Rightarrow> nat \<Rightarrow> ibv_send_wr \<Rightarrow> ibv_send_wr" where
  "chunk_wr comm slot nqps qp k r i wr =
     (let rq = get_req comm i; c = chunkSize (send_size rq) nqps; len = chunk_len (send_size rq) nqps k
      in wr\<lparr> wr_remote_addr := wr_remote_addr wr + word_of_int (int k * c),
             wr_rkey := sf_rkeys (sc_fifo comm ! row slot r) ! qp_remDevIdx qp,
             wr_sg := (if len \<le> 0 then None
                       else Some \<lparr> sge_addr = send_data rq + word_of_int (int k * c),
                                   sge_length = word_of_int len,
                                   sge_lkey = send_lkeys rq ! qp_devIndex qp \<rparr>) \<rparr>)"

definition chunk_extra :: "ncclIbSendComm \<Rightarrow> nat \<Rightarrow> ncclIbQp \<Rightarrow> ibv_send_wr option \<Rightarrow> ibv_send_wr option" where
  "chunk_extra comm n qp e =
     (if n > 1
      then map_option (\<lambda>wr. wr\<lparr> wr_rkey := rs_rkeys (sc_remSizes comm) ! qp_devIndex qp,
             wr_sg := map_option (\<lambda>s. s\<lparr> sge_lkey := rs_lkeys (sc_remSizes comm) ! qp_devIndex qp \<rparr>) (wr_sg wr) \<rparr>) e
      else e)"

definition opt_list :: "'a option \<Rightarrow> 'a list" where
  "opt_list x = (case x of None \<Rightarrow> [] | Some a \<Rightarrow> [a])"

definition chunk_wrs :: "ncclIbSendComm \<Rightarrow> nat \<Rightarrow> nat list \<Rightarrow> nat \<Rightarrow> chain \<Rightarrow> nat \<Rightarrow> ibv_send_wr list" where
  "chunk_wrs comm slot is nqps ch k =
     map (\<lambda>r. chunk_wr comm slot nqps (qp_at (sc_base comm) k) k r (is ! r) (ch_wrs ch ! r)) [0..<length is] @
     opt_list (chunk_extra comm (length is) (qp_at (sc_base comm) k) (ch_extra ch))"

definition chunk_op :: "ncclIbSendComm \<Rightarrow> nat \<Rightarrow> nat list \<Rightarrow> nat \<Rightarrow> chain \<Rightarrow> nat \<Rightarrow> nic_op" where
  "chunk_op comm slot is nqps ch k =
     PostSend (qp_handle (qp_at (sc_base comm) k)) (chunk_wrs comm slot is nqps ch k)"

definition chunk_bytes :: "ncclIbSendComm \<Rightarrow> nat list \<Rightarrow> nat \<Rightarrow> nat \<Rightarrow> u64" where
  "chunk_bytes comm is nqps k =
     sum_list (map (\<lambda>i. let l = chunk_len (send_size (get_req comm i)) nqps k in if l \<le> 0 then 0 else word_of_int l) is)"

text \<open>The communicator after \<open>k\<close> rounds: the offsets have moved, nothing else has.\<close>

definition at_chunk :: "ncclIbSendComm \<Rightarrow> nat list \<Rightarrow> nat \<Rightarrow> nat \<Rightarrow> ncclIbSendComm \<Rightarrow> bool" where
  "at_chunk comm0 is nqps k comm \<longleftrightarrow>
     (\<exists>rqs. comm = comm0\<lparr> sc_base := (sc_base comm0)\<lparr> cb_reqs := rqs,
                      cb_qpIndex := (cb_qpIndex (sc_base comm0) + k) mod cb_nqps (sc_base comm0) \<rparr> \<rparr> \<and>
        length rqs = length (cb_reqs (sc_base comm0)) \<and>
        (\<forall>i < length rqs. rqs ! i =
           (if i \<in> set is
            then (get_req comm0 i)\<lparr> send_offset := i32 (int k * chunkSize (send_size (get_req comm0 i)) nqps) \<rparr>
            else get_req comm0 i)))"

definition chain_at :: "ncclIbSendComm \<Rightarrow> nat list \<Rightarrow> nat \<Rightarrow> chain \<Rightarrow> nat \<Rightarrow> chain \<Rightarrow> bool" where
  "chain_at comm0 is nqps ch0 k ch \<longleftrightarrow>
     length (ch_wrs ch) = length is \<and> length (ch_sges ch) = length is \<and>
     (\<forall>r < length is.
        (\<exists>rk sg. ch_wrs ch ! r = (ch_wrs ch0 ! r)
           \<lparr> wr_remote_addr := wr_remote_addr (ch_wrs ch0 ! r) +
               word_of_int (int k * chunkSize (send_size (get_req comm0 (is ! r))) nqps),
             wr_rkey := rk, wr_sg := sg \<rparr>) \<and>
        sge_addr (ch_sges ch ! r) = send_data (get_req comm0 (is ! r)) +
          word_of_int (int k * chunkSize (send_size (get_req comm0 (is ! r))) nqps)) \<and>
     (\<forall>qp. chunk_extra comm0 (length is) qp (ch_extra ch) = chunk_extra comm0 (length is) qp (ch_extra ch0))"

lemma chunk_extra_twice:
  "chunk_extra comm n qp (chunk_extra comm n qp' e) = chunk_extra comm n qp e"
  by (cases e) (auto simp: chunk_extra_def option.map_comp o_def)

lemma at_chunk_req:
  assumes "at_chunk comm0 is nqps k comm" "i \<in> set is" "i < length (cb_reqs (sc_base comm0))"
  shows "get_req comm i =
    (get_req comm0 i)\<lparr> send_offset := i32 (int k * chunkSize (send_size (get_req comm0 i)) nqps) \<rparr>"
  using assms by (auto simp: at_chunk_def get_req_def)

lemma at_chunk_sel:
  assumes "at_chunk comm0 is nqps k comm"
  shows "sc_fifo comm = sc_fifo comm0" "sc_remSizes comm = sc_remSizes comm0"
    "cb_qps (sc_base comm) = cb_qps (sc_base comm0)" "cb_nqps (sc_base comm) = cb_nqps (sc_base comm0)"
    "cb_qpIndex (sc_base comm) = (cb_qpIndex (sc_base comm0) + k) mod cb_nqps (sc_base comm0)"
    "length (cb_reqs (sc_base comm)) = length (cb_reqs (sc_base comm0))"
    "sc_fifoReqs comm = sc_fifoReqs comm0" "sc_fifoHead comm = sc_fifoHead comm0"
  using assms by (auto simp: at_chunk_def)

lemma prep_chain_posted:
  assumes at: "at_chunk comm0 is nqps k comm" and ch: "chain_at comm0 is nqps ch0 k ch"
    and b: "\<forall>i \<in> set is. i < length (cb_reqs (sc_base comm0))"
  defines "qp \<equiv> qp_at (sc_base comm0) k"
  shows "chain_posted (prep_chain comm slot qp nqps is ch) = chunk_wrs comm0 slot is nqps ch0 k"
proof -
  have wr: "fst (prep_wr comm slot qp nqps r (is ! r) (ch_wrs ch ! r) (ch_sges ch ! r)) =
      chunk_wr comm0 slot nqps qp k r (is ! r) (ch_wrs ch0 ! r)" if r: "r < length is" for r
  proof -
    have "is ! r \<in> set is" using r by simp
    then have rq: "get_req comm (is ! r) = (get_req comm0 (is ! r))
        \<lparr> send_offset := i32 (int k * chunkSize (send_size (get_req comm0 (is ! r))) nqps) \<rparr>"
      using at_chunk_req [OF at] b by blast
    obtain rk sg where "ch_wrs ch ! r = (ch_wrs ch0 ! r)
           \<lparr> wr_remote_addr := wr_remote_addr (ch_wrs ch0 ! r) +
               word_of_int (int k * chunkSize (send_size (get_req comm0 (is ! r))) nqps),
             wr_rkey := rk, wr_sg := sg \<rparr>"
      "sge_addr (ch_sges ch ! r) = send_data (get_req comm0 (is ! r)) +
          word_of_int (int k * chunkSize (send_size (get_req comm0 (is ! r))) nqps)"
      using ch r unfolding chain_at_def by blast
    then show ?thesis
      using rq at_chunk_sel(1) [OF at]
      by (cases "ch_sges ch ! r") (simp add: prep_wr_def chunk_wr_def send_length_def chunk_len_def Let_def)
  qed
  have "ch_extra (prep_chain comm slot qp nqps is ch) = chunk_extra comm0 (length is) qp (ch_extra ch)"
    using at_chunk_sel(2) [OF at] by (simp add: prep_chain_def chunk_extra_def Let_def)
  also have "\<dots> = chunk_extra comm0 (length is) qp (ch_extra ch0)"
    using ch by (simp add: chain_at_def)
  finally show ?thesis
    using wr by (simp add: chain_posted_def chunk_wrs_def opt_list_def prep_chain_def Let_def qp_def)
qed

lemma chain_at_advance:
  assumes at: "at_chunk comm0 is nqps k comm" and ch: "chain_at comm0 is nqps ch0 k ch"
    and b: "\<forall>i \<in> set is. i < length (cb_reqs (sc_base comm0))"
  shows "chain_at comm0 is nqps ch0 (Suc k)
    (advance_chain comm nqps is (prep_chain comm slot qp nqps is ch))"
proof -
  let ?ch = "advance_chain comm nqps is (prep_chain comm slot qp nqps is ch)"
  have e: "chunk_extra comm0 (length is) qp' (ch_extra ?ch) = chunk_extra comm0 (length is) qp' (ch_extra ch0)" for qp'
  proof -
    have "ch_extra ?ch = chunk_extra comm0 (length is) qp (ch_extra ch)"
      using at_chunk_sel(2) [OF at] by (simp add: advance_chain_def prep_chain_def chunk_extra_def Let_def)
    then show ?thesis using ch by (simp add: chunk_extra_twice chain_at_def)
  qed
  have rr: "(\<exists>rk sg. ch_wrs ?ch ! r = (ch_wrs ch0 ! r)
           \<lparr> wr_remote_addr := wr_remote_addr (ch_wrs ch0 ! r) +
               word_of_int (int (Suc k) * chunkSize (send_size (get_req comm0 (is ! r))) nqps),
             wr_rkey := rk, wr_sg := sg \<rparr>) \<and>
        sge_addr (ch_sges ?ch ! r) = send_data (get_req comm0 (is ! r)) +
          word_of_int (int (Suc k) * chunkSize (send_size (get_req comm0 (is ! r))) nqps)"
    if r: "r < length is" for r
  proof -
    let ?c = "chunkSize (send_size (get_req comm0 (is ! r))) nqps"
    have "is ! r \<in> set is" using r by simp
    then have rq: "get_req comm (is ! r) = (get_req comm0 (is ! r))\<lparr> send_offset := i32 (int k * ?c) \<rparr>"
      using at_chunk_req [OF at] b by blast
    obtain rk sg where w: "ch_wrs ch ! r = (ch_wrs ch0 ! r)
           \<lparr> wr_remote_addr := wr_remote_addr (ch_wrs ch0 ! r) + word_of_int (int k * ?c),
             wr_rkey := rk, wr_sg := sg \<rparr>"
      and s: "sge_addr (ch_sges ch ! r) = send_data (get_req comm0 (is ! r)) + word_of_int (int k * ?c)"
      using ch r unfolding chain_at_def by blast
    have add: "x + word_of_int (int k * ?c) + word_of_int ?c = x + word_of_int (int (Suc k) * ?c)" for x :: u64
      by (simp add: algebra_simps)
    have "ch_wrs ?ch ! r = (ch_wrs ch0 ! r)
           \<lparr> wr_remote_addr := wr_remote_addr (ch_wrs ch0 ! r) + word_of_int (int (Suc k) * ?c),
             wr_rkey := wr_rkey (ch_wrs ?ch ! r), wr_sg := wr_sg (ch_wrs ?ch ! r) \<rparr>"
      unfolding add [symmetric]
      using w r rq by (cases "ch_wrs ch0 ! r") (simp add: advance_chain_def prep_chain_def prep_wr_def Let_def)
    moreover have "sge_addr (ch_sges ?ch ! r) =
        send_data (get_req comm0 (is ! r)) + word_of_int (int (Suc k) * ?c)"
      unfolding add [symmetric]
      using s r rq by (simp add: advance_chain_def prep_chain_def prep_wr_def Let_def)
    ultimately show ?thesis by blast
  qed
  show ?thesis unfolding chain_at_def using e rr
    by (simp add: advance_chain_def)
qed

lemma fold_upd_req_other:
  "cb_ndevs (fold (\<lambda>i. upd_req i f) is b) = cb_ndevs b"
  "cb_qps (fold (\<lambda>i. upd_req i f) is b) = cb_qps b"
  "length (cb_reqs (fold (\<lambda>i. upd_req i f) is b)) = length (cb_reqs b)"
  by (induction "is" arbitrary: b) simp_all

lemma fold_upd_req_reqs:
  "fold (\<lambda>i. upd_req i f) is b = b\<lparr> cb_reqs := cb_reqs (fold (\<lambda>i. upd_req i f) is b) \<rparr>"
proof (induction "is" arbitrary: b)
  case Nil
  then show ?case by simp
next
  case (Cons a "is")
  have "(upd_req a f b)\<lparr> cb_reqs := X \<rparr> = b\<lparr> cb_reqs := X \<rparr>" for X by (simp add: upd_req_def)
  then show ?case using Cons.IH [of "upd_req a f b"] by (metis fold_simps(2))
qed

lemma nth_fold_upd_req:
  "distinct is \<Longrightarrow> j < length (cb_reqs b) \<Longrightarrow>
   cb_reqs (fold (\<lambda>i. upd_req i f) is b) ! j = (if j \<in> set is then f (cb_reqs b ! j) else cb_reqs b ! j)"
  by (induction "is" arbitrary: b) (auto simp: nth_upd_req)

lemma at_chunk_advance:
  assumes at: "at_chunk comm0 is nqps k comm" and d: "distinct is"
  shows "at_chunk comm0 is nqps (Suc k)
    ((advance_reqs nqps is comm)\<lparr> sc_base := next_qp (sc_base (advance_reqs nqps is comm)) \<rparr>)"
proof -
  let ?f = "\<lambda>r. r\<lparr> send_offset := i32 (send_offset r + chunkSize (send_size r) nqps) \<rparr>"
  let ?b = "fold (\<lambda>i. upd_req i ?f) is (sc_base comm)"
  define R where "R = cb_reqs ?b"
  have b: "?b = (sc_base comm)\<lparr> cb_reqs := R \<rparr>" unfolding R_def by (rule fold_upd_req_reqs)
  obtain rqs where c: "comm = comm0\<lparr> sc_base := (sc_base comm0)\<lparr> cb_reqs := rqs,
        cb_qpIndex := (cb_qpIndex (sc_base comm0) + k) mod cb_nqps (sc_base comm0) \<rparr> \<rparr>"
    and l: "length rqs = length (cb_reqs (sc_base comm0))"
    and r: "\<forall>i < length rqs. rqs ! i =
           (if i \<in> set is
            then (get_req comm0 i)\<lparr> send_offset := i32 (int k * chunkSize (send_size (get_req comm0 i)) nqps) \<rparr>
            else get_req comm0 i)"
    using at unfolding at_chunk_def by blast
  have "(advance_reqs nqps is comm)\<lparr> sc_base := next_qp (sc_base (advance_reqs nqps is comm)) \<rparr> =
      comm0\<lparr> sc_base := (sc_base comm0)\<lparr> cb_reqs := R,
        cb_qpIndex := (cb_qpIndex (sc_base comm0) + Suc k) mod cb_nqps (sc_base comm0) \<rparr> \<rparr>"
    unfolding advance_reqs_def next_qp_def b by (simp add: c mod_Suc_eq)
  moreover have "length R = length (cb_reqs (sc_base comm0))"
    using l by (simp add: fold_upd_req_other c R_def)
  moreover have "R ! i = (if i \<in> set is
      then (get_req comm0 i)\<lparr> send_offset := i32 (int (Suc k) * chunkSize (send_size (get_req comm0 i)) nqps) \<rparr>
      else get_req comm0 i)" if "i < length R" for i
    using that l r c by (simp add: R_def fold_upd_req_other nth_fold_upd_req [OF d] distrib_right add.commute [of "chunkSize _ _"])
  ultimately show ?thesis unfolding at_chunk_def by blast
qed

lemma chain_bytes_at:
  assumes "at_chunk comm0 is nqps k comm" "\<forall>i \<in> set is. i < length (cb_reqs (sc_base comm0))"
  shows "chain_bytes comm nqps is = chunk_bytes comm0 is nqps k"
proof -
  have "send_length (get_req comm i) nqps = chunk_len (send_size (get_req comm0 i)) nqps k" if "i \<in> set is" for i
    using at_chunk_req [OF assms(1) that] assms(2) that by (simp add: send_length_def chunk_len_def)
  then show ?thesis unfolding chain_bytes_def chunk_bytes_def by (simp cong: map_cong)
qed

lemma multi_send_loop_posts:
  assumes "at_chunk comm0 is nqps k comm" "chain_at comm0 is nqps ch0 k ch"
    and b: "\<forall>i \<in> set is. i < length (cb_reqs (sc_base comm0))" and d: "distinct is"
    and "multi_send_loop v slot is nqps m ch tot comm w = (res, tot', comm', w')" "\<not> ncclCheckFails res"
  shows "wd_posts w' = wd_posts w @ map (chunk_op comm0 slot is nqps ch0) [k..<k + m] \<and>
    at_chunk comm0 is nqps (k + m) comm' \<and>
    tot' = tot + sum_list (map (chunk_bytes comm0 is nqps) [k..<k + m]) \<and>
    wd_ib_stat w' = wd_ib_stat w \<and> wd_ib_mem w' = wd_ib_mem w"
  using assms(1,2,5)
proof (induction m arbitrary: k ch tot comm w)
  case 0
  then show ?case by simp
next
  case (Suc m)
  let ?qp = "cb_qps (sc_base comm) ! cb_qpIndex (sc_base comm)"
  let ?ch = "prep_chain comm slot ?qp nqps is ch"
  have qp: "?qp = qp_at (sc_base comm0) k"
    using at_chunk_sel(3,5) [OF Suc.prems(1)] by (simp add: qp_at_def)
  obtain res1 w1 where p: "nic_post v (PostSend (qp_handle ?qp) (chain_posted ?ch)) w = (res1, w1)"
    by fastforce
  have nf: "\<not> ncclCheckFails res1"
    using Suc.prems(3) p assms(6) by (auto simp: Let_def split: if_splits)
  have op: "PostSend (qp_handle ?qp) (chain_posted ?ch) = chunk_op comm0 slot is nqps ch0 k"
    unfolding chunk_op_def qp using prep_chain_posted [OF Suc.prems(1,2) b] by simp
  have w1: "w1 = w\<lparr> wd_posts := wd_posts w @ [chunk_op comm0 slot is nqps ch0 k] \<rparr>"
    using p nf op by (auto simp: nic_post_def Let_def)
  have rec: "multi_send_loop v slot is nqps m (advance_chain comm nqps is ?ch) (tot + chain_bytes comm nqps is)
      ((advance_reqs nqps is comm)\<lparr> sc_base := next_qp (sc_base (advance_reqs nqps is comm)) \<rparr>) w1 =
      (res, tot', comm', w')"
    using Suc.prems(3) p nf by (simp add: Let_def)
  from Suc.IH [OF at_chunk_advance [OF Suc.prems(1) d] chain_at_advance [OF Suc.prems(1,2) b] rec]
  show ?case
    using w1 chain_bytes_at [OF Suc.prems(1) b] by (simp add: upt_conv_Cons add.assoc del: upt_Suc)
qed

end
