(* ===== verification/RdmaMemory.thy ===== *)
theory RdmaMemory
  imports IbTypes
begin

text \<open>
  Memory under RDMA writes: what one work request does to the memory of the other side, and a grid of requests (one row
  for each queue pair, one column for each buffer) that copies areas which do not overlap. This is the memory model of the sends
  of \<^verbatim>\<open>src/unet/unet_ib.cc\<close>.
\<close>

section \<open>Effect of a write\<close>

type_synonym memory = "u64 \<Rightarrow> u8"

definition rdma_write :: "memory \<Rightarrow> ibv_send_wr \<Rightarrow> memory \<Rightarrow> memory" where
  "rdma_write src wr dst =
     (case wr_sg wr of
        None \<Rightarrow> dst
      | Some s \<Rightarrow> (\<lambda>a. if unat (a - wr_remote_addr wr) < unat (sge_length s)
                      then src (sge_addr s + (a - wr_remote_addr wr)) else dst a))"

fun op_wrs :: "nic_op \<Rightarrow> ibv_send_wr list" where
  "op_wrs (PostSend qp wrs) = wrs"
| "op_wrs (PostRecv qp i) = []"

text \<open>All the requests of the posted work, chain by chain.\<close>

definition rdma_writes :: "memory \<Rightarrow> nic_op list \<Rightarrow> memory \<Rightarrow> memory" where
  "rdma_writes src ops dst = fold (rdma_write src) (concat (map op_wrs ops)) dst"

definition hits :: "ibv_send_wr \<Rightarrow> u64 \<Rightarrow> bool" where
  "hits wr a \<longleftrightarrow> (case wr_sg wr of None \<Rightarrow> False | Some s \<Rightarrow> unat (a - wr_remote_addr wr) < unat (sge_length s))"

lemma rdma_write_None: "wr_sg wr = None \<Longrightarrow> rdma_write src wr dst = dst"
  by (simp add: rdma_write_def)

lemma rdma_write_at:
  "\<not> hits wr a \<Longrightarrow> rdma_write src wr dst a = dst a"
  "dst a = dst' a \<Longrightarrow> rdma_write src wr dst a = rdma_write src wr dst' a"
  by (simp_all add: hits_def rdma_write_def split: option.splits)

text \<open>The byte at an address depends only on the requests that hit it.\<close>

lemma fold_rdma_filter:
  assumes "\<And>x. x \<in> set xs \<Longrightarrow> \<not> P x \<Longrightarrow> \<not> hits (W x) a" "dst a = dst' a"
  shows "fold (\<lambda>x. rdma_write src (W x)) xs dst a = fold (\<lambda>x. rdma_write src (W x)) (filter P xs) dst' a"
  using assms
proof (induction xs arbitrary: dst dst')
  case Nil
  then show ?case by simp
next
  case (Cons x xs)
  have tl: "\<And>y. y \<in> set xs \<Longrightarrow> \<not> P y \<Longrightarrow> \<not> hits (W y) a" using Cons.prems(1) by simp
  show ?case
  proof (cases "P x")
    case True
    then show ?thesis using Cons.IH [OF tl] rdma_write_at(2) [of dst a dst'] Cons.prems(2) by simp
  next
    case False
    then have "rdma_write src (W x) dst a = dst' a" using Cons.prems rdma_write_at(1) [of "W x" a src dst] by simp
    then show ?thesis using Cons.IH [OF tl] False by simp
  qed
qed

section \<open>Areas\<close>

text \<open>The contract: \<open>n\<close> bytes from \<open>p\<close> of the source at \<open>q\<close> of the destination, all else kept.\<close>

definition copied :: "memory \<Rightarrow> u64 \<Rightarrow> nat \<Rightarrow> u64 \<Rightarrow> memory \<Rightarrow> memory" where
  "copied src p n q dst = (\<lambda>a. if unat (a - q) < n then src (p + (a - q)) else dst a)"

text \<open>An area: where its bytes come from, where they go, and how many there are.\<close>

type_synonym area = "u64 \<times> u64 \<times> nat"

definition covers :: "area \<Rightarrow> u64 \<Rightarrow> bool" where
  "covers = (\<lambda>(p, q, n) a. unat (a - q) < n)"

definition copied_all :: "memory \<Rightarrow> area list \<Rightarrow> memory \<Rightarrow> memory" where
  "copied_all src areas dst = fold (\<lambda>(p, q, n). copied src p n q) areas dst"

text \<open>No two areas have a byte of the destination in common; an area may go round the end of the addresses.\<close>

definition disjoint_areas :: "area \<Rightarrow> area \<Rightarrow> bool" where
  "disjoint_areas = (\<lambda>(p, q, n) (p', q', n'). n = 0 \<or> n' = 0 \<or> n \<le> unat (q' - q) \<and> n' \<le> unat (q - q'))"

definition apart :: "area list \<Rightarrow> bool" where
  "apart = sorted_wrt disjoint_areas"

lemma disjoint_areasD: "disjoint_areas x y \<Longrightarrow> covers x a \<Longrightarrow> \<not> covers y a"
proof
  assume d: "disjoint_areas x y" and c: "covers x a" "covers y a"
  obtain p q n p' q' n' where x: "x = (p, q, n)" "y = (p', q', n')" by (cases x, cases y) auto
  define u v where "u = a - q" and "v = a - q'"
  have uv: "unat u < n" "unat v < n'" "q' - q = u - v" "q - q' = v - u" using c by (simp_all add: x covers_def u_def v_def)
  then have "n \<le> unat (u - v)" "n' \<le> unat (v - u)" using d by (auto simp: x disjoint_areas_def)
  moreover have "unat (u - v) \<le> unat u \<or> unat (v - u) \<le> unat v"
    by (cases "unat v \<le> unat u") (simp_all add: unat_sub word_le_nat_alt)
  ultimately show False using uv by linarith
qed

lemma apart_unique:
  assumes "apart areas" "i < length areas" "j < length areas" "covers (areas ! i) a" "covers (areas ! j) a"
  shows "i = j"
proof (rule ccontr)
  assume "i \<noteq> j"
  then consider "i < j" | "j < i" by linarith
  then show False
    using assms sorted_wrt_nth_less [of disjoint_areas areas] disjoint_areasD unfolding apart_def by cases metis+
qed

lemma apart_single [simp]: "apart [x]"
  by (simp add: apart_def)

lemma copied_all_single [simp]: "copied_all src [(p, q, n)] dst = copied src p n q dst"
  by (simp add: copied_all_def)

lemma copied_0: "copied src p 0 q dst = dst"
  by (simp add: copied_def)

lemma copied_at: "\<not> covers (p, q, n) a \<Longrightarrow> copied src p n q dst a = dst a"
  by (simp add: covers_def copied_def)

lemma copied_all_outside: "(\<And>x. x \<in> set areas \<Longrightarrow> \<not> covers x a) \<Longrightarrow> copied_all src areas dst a = dst a"
  unfolding copied_all_def
proof (induction areas arbitrary: dst)
  case Nil
  then show ?case by simp
next
  case (Cons x areas)
  obtain p q n where x: "x = (p, q, n)" by (cases x) auto
  have "\<not> covers (p, q, n) a" using Cons.prems [of x] by (simp add: x)
  moreover have "fold (\<lambda>(p, q, n). copied src p n q) areas dst' a = dst' a" for dst' by (rule Cons.IH) (use Cons.prems in simp)
  ultimately show ?case by (simp add: x copied_at)
qed

lemma copied_all_inside:
  assumes "apart areas" "c < length areas" "covers (areas ! c) a" "areas ! c = (p, q, n)"
  shows "copied_all src areas dst a = copied src p n q dst a"
  using assms
proof (induction areas arbitrary: c dst)
  case Nil
  then show ?case by simp
next
  case (Cons x areas)
  obtain p' q' n' where x: "x = (p', q', n')" by (cases x) auto
  have tl: "apart areas" "\<And>y. y \<in> set areas \<Longrightarrow> disjoint_areas x y" using Cons.prems(1) by (auto simp: apart_def)
  have step: "copied_all src (x # areas) dst = copied_all src areas (copied src p' n' q' dst)" by (simp add: copied_all_def x)
  show ?case
  proof (cases c)
    case 0
    then have "x = (p, q, n)" "covers x a" using Cons.prems by simp_all
    moreover from this have "copied_all src areas (copied src p' n' q' dst) a = copied src p' n' q' dst a"
      using tl(2) disjoint_areasD by (intro copied_all_outside) blast
    ultimately show ?thesis unfolding step using x by simp
  next
    case (Suc k)
    then have k: "k < length areas" "covers (areas ! k) a" "areas ! k = (p, q, n)" using Cons.prems by simp_all
    then have "\<not> covers x a" using tl(2) disjoint_areasD nth_mem by blast
    then have "copied src p' n' q' dst a = dst a" by (simp add: x copied_at)
    then show ?thesis unfolding step Cons.IH [OF tl(1) k] by (simp add: copied_def)
  qed
qed

section \<open>A grid of writes\<close>

lemma filter_column:
  "c0 < n \<Longrightarrow> filter (\<lambda>(k, c). c = c0) (List.product ks [0..<n]) = map (\<lambda>k. (k, c0)) ks"
proof (induction ks)
  case Nil
  then show ?case by simp
next
  case (Cons k ks)
  have "filter (\<lambda>c. c = c0) [0..<n] = (if c0 < n then [c0] else [])" by (induction n) auto
  then show ?case using Cons by (simp add: filter_map o_def)
qed

text \<open>If each column copies its own area and the areas are apart, the grid copies all of them, in whatever order its requests come.\<close>

lemma grid_copies:
  fixes W :: "nat \<Rightarrow> nat \<Rightarrow> ibv_send_wr"
  assumes col: "\<And>c p q n. c < length areas \<Longrightarrow> areas ! c = (p, q, n) \<Longrightarrow>
      fold (\<lambda>k. rdma_write src (W k c)) [0..<m] dst = copied src p n q dst"
    and inside: "\<And>k c a. k < m \<Longrightarrow> c < cols \<Longrightarrow> hits (W k c) a \<Longrightarrow> c < length areas \<and> covers (areas ! c) a"
    and ap: "apart areas" and len: "length areas \<le> cols"
  shows "fold (rdma_write src) (concat (map (\<lambda>k. map (W k) [0..<cols]) [0..<m])) dst = copied_all src areas dst"
proof
  fix a
  let ?idx = "List.product [0..<m] [0..<cols]" and ?W = "\<lambda>(k, c). W k c"
  have "concat (map (\<lambda>k. map (W k) [0..<cols]) [0..<m]) = map ?W ?idx"
    by (simp add: product_concat_map map_concat o_def)
  then have grid: "fold (rdma_write src) (concat (map (\<lambda>k. map (W k) [0..<cols]) [0..<m])) dst =
      fold (\<lambda>x. rdma_write src (?W x)) ?idx dst"
    by (simp add: fold_map o_def)
  show "fold (rdma_write src) (concat (map (\<lambda>k. map (W k) [0..<cols]) [0..<m])) dst a = copied_all src areas dst a"
  proof (cases "\<exists>c < length areas. covers (areas ! c) a")
    case True
    then obtain c0 p q n where c0: "c0 < length areas" "covers (areas ! c0) a" "areas ! c0 = (p, q, n)" by (metis prod_cases3)
    have "fold (\<lambda>x. rdma_write src (?W x)) ?idx dst a =
        fold (\<lambda>x. rdma_write src (?W x)) (filter (\<lambda>(k, c). c = c0) ?idx) dst a"
      by (rule fold_rdma_filter) (use inside apart_unique [OF ap c0(1) _ c0(2)] in \<open>auto split: prod.splits\<close>)
    also have "\<dots> = copied src p n q dst a"
      using c0(1) len col [OF c0(1,3)] by (simp add: filter_column fold_map o_def)
    finally show ?thesis using grid copied_all_inside [OF ap c0] by simp
  next
    case False
    have "fold (\<lambda>x. rdma_write src (?W x)) ?idx dst a = fold (\<lambda>x. rdma_write src (?W x)) (filter (\<lambda>x. False) ?idx) dst a"
      by (rule fold_rdma_filter) (use inside False in \<open>(auto split: prod.splits, blast)\<close>)
    moreover have "copied_all src areas dst a = dst a"
      by (rule copied_all_outside) (use False in \<open>auto simp: in_set_conv_nth\<close>)
    ultimately show ?thesis using grid by simp
  qed
qed

section \<open>One column\<close>

text \<open>A part of an area: \<open>len\<close> bytes at the offset \<open>off\<close>.\<close>

lemma in_part:
  fixes a q :: u64
  assumes "0 \<le> off" "0 < len" "off + len \<le> 2 ^ 31"
  shows "unat (a - (q + word_of_int off)) < unat (word_of_int len :: u32) \<longleftrightarrow>
    nat off \<le> unat (a - q) \<and> unat (a - q) < nat (off + len)"
proof -
  define M L where "M = nat off" and "L = nat len"
  have bnd: "off = int M" "len = int L" "M + L \<le> 2 ^ 31" "nat (off + len) = M + L"
    using assms by (auto simp: M_def L_def nat_add_distrib)
  have u: "unat (word_of_nat M :: u64) = M" "unat (word_of_nat L :: u32) = L"
    using bnd(3) assms(1,2) by (simp_all add: unsigned_of_nat take_bit_nat_eq_self bnd)
  define x where "x = a - q"
  have d: "a - (q + word_of_int off) = x - word_of_nat M" "unat (word_of_int len :: u32) = L"
    using u(2) by (simp_all add: x_def bnd(1,2) diff_diff_eq)
  have "unat (x - word_of_nat M) < L \<longleftrightarrow> M \<le> unat x \<and> unat x < M + L"
  proof (cases "M \<le> unat x")
    case True
    then have "unat (x - word_of_nat M) = unat x - M" using u(1) by (simp add: unat_sub_if')
    then show ?thesis using True by linarith
  next
    case False
    then have "unat (x - word_of_nat M) = unat x + 2 ^ 64 - M" using u(1) by (simp add: unat_sub_if')
    then show ?thesis using False bnd(3) by simp
  qed
  then show ?thesis unfolding d bnd(4) M_def [symmetric] x_def .
qed

lemma rdma_write_extends:
  assumes "0 \<le> off" "0 < len" "off + len \<le> 2 ^ 31"
    and wr: "wr_remote_addr wr = q + word_of_int off"
      "wr_sg wr = Some \<lparr> sge_addr = p + word_of_int off, sge_length = word_of_int len, sge_lkey = lk \<rparr>"
  shows "rdma_write src wr (copied src p (nat off) q dst) = copied src p (nat (off + len)) q dst"
proof
  fix a
  have "nat off \<le> nat (off + len)" using assms(1,2) by simp
  then show "rdma_write src wr (copied src p (nat off) q dst) a = copied src p (nat (off + len)) q dst a"
    using in_part [OF assms(1-3), of a q] by (auto simp: rdma_write_def wr copied_def algebra_simps)
qed

lemma copied_twice: "copied src p n q (copied src p n q dst) = copied src p n q dst"
  by (simp add: copied_def fun_eq_iff)

text \<open>A column that writes the same bytes to the same place each time.\<close>

lemma fold_same_area:
  assumes "\<And>k. k < m \<Longrightarrow> \<exists>lk. wr_remote_addr (W k) = q \<and> wr_sg (W k) = Some \<lparr> sge_addr = p, sge_length = len, sge_lkey = lk \<rparr>" "0 < m"
  shows "fold (\<lambda>k. rdma_write src (W k)) [0..<m] dst = copied src p (unat len) q dst"
proof -
  have w: "rdma_write src (W k) dst' = copied src p (unat len) q dst'" if "k < m" for k dst'
    using assms(1) [OF that] by (auto simp: rdma_write_def copied_def)
  have "fold (\<lambda>k. rdma_write src (W k)) [0..<j] dst = (if j = 0 then dst else copied src p (unat len) q dst)" if "j \<le> m" for j
    using that by (induction j) (auto simp: w copied_twice)
  from this [of m] assms(2) show ?thesis by simp
qed

end
