(* ===== verification/Rdma.thy ===== *)
theory Rdma
  imports MultiSend RdmaMemory
begin

text \<open>
  What the posted chains do: RDMA writes move bytes of the sender's memory to the receiver's. The
  theorems of this file are the correctness of a send: the chunks of a buffer, spread over the
  queue pairs, copy exactly the buffer; each chain completes once, at its last request, with the
  identifier and immediate data the receiver expects.
\<close>

section \<open>Chunks\<close>

text \<open>The sizes for which no rounding and no offset leaves the \<^verbatim>\<open>int\<close>.\<close>

definition chunks_fit :: "int \<Rightarrow> nat \<Rightarrow> bool" where
  "chunks_fit sz nqps \<longleftrightarrow> sz + 128 * int nqps < 2 ^ 31"

lemma chunkSize_props:
  assumes "0 \<le> sz" "0 < nqps" "chunks_fit sz nqps"
  shows "0 \<le> chunkSize sz nqps" "128 dvd chunkSize sz nqps" "sz \<le> int nqps * chunkSize sz nqps"
    "int nqps * chunkSize sz nqps < 2 ^ 31"
proof -
  have q: "1 \<le> int nqps" "sz + int nqps < 2 ^ 31" using assms by (simp_all add: chunks_fit_def)
  let ?d = "DIVUP sz (int nqps)"
  have d: "0 \<le> ?d" "sz \<le> ?d * int nqps" "?d * int nqps \<le> sz + int nqps - 1"
    using DIVUP_bounds [OF assms(1) _ q(2)] q(1) by simp_all
  have "?d * 1 \<le> ?d * int nqps" using d(1) q(1) by (intro mult_left_mono) simp_all
  then have "?d + 128 < 2 ^ 31" using d(3) q(1) assms(3) by (simp add: chunks_fit_def)
  note r = ROUNDUP_props [OF d(1) _ this, OF zero_less_numeral]
  have c: "chunkSize sz nqps = ROUNDUP ?d 128" by (simp add: chunkSize_def ROUNDUP_def)
  show "0 \<le> chunkSize sz nqps" "128 dvd chunkSize sz nqps" using r d(1) q(1) c by simp_all
  have "sz \<le> ?d * int nqps" using d(2) q(1) by simp
  also have "\<dots> \<le> chunkSize sz nqps * int nqps" using r(1) d(1) c q(1) by (intro mult_right_mono) simp_all
  finally show "sz \<le> int nqps * chunkSize sz nqps" by (simp add: mult.commute)
  have "chunkSize sz nqps * int nqps \<le> (?d + 127) * int nqps" using r(2) d(1) c q(1) by (intro mult_right_mono) simp_all
  also have "\<dots> \<le> sz + int nqps - 1 + 127 * int nqps" using d(3) q(1) by (simp add: distrib_right)
  finally show "int nqps * chunkSize sz nqps < 2 ^ 31" using assms(3) by (simp add: chunks_fit_def mult.commute)
qed

lemma chunk_len_exact:
  assumes "0 \<le> sz" "0 < nqps" "chunks_fit sz nqps" "k < nqps"
  shows "chunk_len sz nqps k = min (sz - int k * chunkSize sz nqps) (chunkSize sz nqps)"
proof -
  note c = chunkSize_props [OF assms(1-3)]
  have "int k * chunkSize sz nqps \<le> int nqps * chunkSize sz nqps" using assms(4) c(1) by (intro mult_right_mono) simp_all
  moreover have "0 \<le> int k * chunkSize sz nqps" using c(1) by simp
  moreover have "sz < 2 ^ 31" using assms(3) by (simp add: chunks_fit_def)
  ultimately have "i32 (sz - int k * chunkSize sz nqps) = sz - int k * chunkSize sz nqps"
    using assms(1) c(4) by (intro i32_id) linarith+
  then show ?thesis by (simp add: chunk_len_def)
qed

lemma chunk_len_prefix:
  assumes "0 \<le> sz" "0 < nqps" "chunks_fit sz nqps" "k < nqps"
  shows "min sz (int (Suc k) * chunkSize sz nqps) = min sz (int k * chunkSize sz nqps) + max 0 (chunk_len sz nqps k)"
  using chunkSize_props(1) [OF assms(1-3)] chunk_len_exact [OF assms] by (auto simp: min_def max_def algebra_simps)

text \<open>A chunk that is not empty is a part of the buffer.\<close>

lemma chunk_part:
  assumes "0 \<le> sz" "0 < nqps" "chunks_fit sz nqps" "k < nqps" "0 < chunk_len sz nqps k"
  shows "0 \<le> int k * chunkSize sz nqps" "int k * chunkSize sz nqps + chunk_len sz nqps k \<le> sz"
    "int k * chunkSize sz nqps + chunk_len sz nqps k \<le> 2 ^ 31" "min sz (int k * chunkSize sz nqps) = int k * chunkSize sz nqps"
proof -
  note c = chunkSize_props(1) [OF assms(1-3)] chunk_len_exact [OF assms(1-4)]
  show "0 \<le> int k * chunkSize sz nqps" using c(1) by simp
  show l: "int k * chunkSize sz nqps + chunk_len sz nqps k \<le> sz" using c(2) by linarith
  then show "int k * chunkSize sz nqps + chunk_len sz nqps k \<le> 2 ^ 31" using assms(3) by (simp add: chunks_fit_def)
  show "min sz (int k * chunkSize sz nqps) = int k * chunkSize sz nqps" using l assms(5) by linarith
qed

lemma fold_chunks:
  fixes wr :: "nat \<Rightarrow> ibv_send_wr"
  assumes fit: "0 \<le> sz" "0 < nqps" "chunks_fit sz nqps" and m: "m \<le> nqps"
    and wr: "\<And>k. k < m \<Longrightarrow> wr_remote_addr (wr k) = q + word_of_int (int k * chunkSize sz nqps)"
      "\<And>k. k < m \<Longrightarrow> wr_sg (wr k) = (if chunk_len sz nqps k \<le> 0 then None
         else Some \<lparr> sge_addr = p + word_of_int (int k * chunkSize sz nqps),
                     sge_length = word_of_int (chunk_len sz nqps k), sge_lkey = lk k \<rparr>)"
  shows "fold (\<lambda>k. rdma_write src (wr k)) [0..<m] dst =
    copied src p (nat (min sz (int m * chunkSize sz nqps))) q dst"
  using m wr
proof (induction m)
  case 0
  then show ?case using fit by (simp add: copied_0)
next
  case (Suc m)
  let ?c = "chunkSize sz nqps"
  have ih: "fold (\<lambda>k. rdma_write src (wr k)) [0..<m] dst = copied src p (nat (min sz (int m * ?c))) q dst"
    using Suc by simp
  have m: "m < nqps" using Suc.prems(1) by simp
  show ?case
  proof (cases "chunk_len sz nqps m \<le> 0")
    case True
    then show ?thesis
      using ih Suc.prems(3) [of m] chunk_len_prefix [OF fit m] by (simp add: rdma_write_None)
  next
    case False
    then have "0 < chunk_len sz nqps m" by simp
    note c = chunk_part [OF fit m this]
    from rdma_write_extends [OF c(1) _ c(3), of "wr m" q p "lk m"] False Suc.prems(2) [of m] Suc.prems(3) [of m]
    show ?thesis using ih c(4) chunk_len_prefix [OF fit m] by (simp del: of_nat_Suc)
  qed
qed

section \<open>The chains of a send\<close>

text \<open>
  A slot ready to be sent: between one and eight requests, distinct, none of them started, with
  sizes an \<open>int\<close> can hold.
\<close>

definition send_ready :: "ncclIbSendComm \<Rightarrow> nat \<Rightarrow> nat list \<Rightarrow> bool" where
  "send_ready comm slot is \<longleftrightarrow>
     is = slot_reqs comm slot (length is) \<and> slot_nreqs comm slot = int (length is) \<and>
     is \<noteq> [] \<and> length is \<le> NCCL_NET_IB_MAX_RECVS \<and> distinct is \<and>
     length (cb_reqs (sc_base comm)) = MAX_REQUESTS \<and> cb_qpIndex (sc_base comm) < cb_nqps (sc_base comm) \<and>
     (\<forall>i \<in> set is. i < MAX_REQUESTS \<and> send_offset (get_req comm i) = 0 \<and>
        0 \<le> send_size (get_req comm i) \<and> send_size (get_req comm i) < 2 ^ 31)"

definition new_posts :: "world \<Rightarrow> world \<Rightarrow> nic_op list" where
  "new_posts w w' = drop (length (wd_posts w)) (wd_posts w')"

fun op_qp :: "nic_op \<Rightarrow> nat" where
  "op_qp (PostSend qp wrs) = qp"
| "op_qp (PostRecv qp i) = qp"

lemma store_sizes_sel [simp]:
  "sc_base (store_sizes comm slot is) = sc_base comm" "sc_fifo (store_sizes comm slot is) = sc_fifo comm"
  "sc_fifoReqs (store_sizes comm slot is) = sc_fifoReqs comm"
  "sc_fifoHead (store_sizes comm slot is) = sc_fifoHead comm"
  "get_req (store_sizes comm slot is) = get_req comm"
  "rs_rkeys (sc_remSizes (store_sizes comm slot is)) = rs_rkeys (sc_remSizes comm)"
  "rs_lkeys (sc_remSizes (store_sizes comm slot is)) = rs_lkeys (sc_remSizes comm)"
  by (simp_all add: store_sizes_def get_req_def fun_eq_iff)

lemma length_build_chain [simp]:
  "length (ch_wrs (build_chain pm comm slot is)) = length is"
  "length (ch_sges (build_chain pm comm slot is)) = length is"
  by (simp_all add: build_chain_def Let_def)

lemma build_chain_wr:
  assumes "r < length is"
  shows "wr_remote_addr (ch_wrs (build_chain pm comm slot is) ! r) = sf_addr (sc_fifo comm ! row slot r)"
    "sge_addr (ch_sges (build_chain pm comm slot is) ! r) = send_data (get_req comm (is ! r))"
proof -
  show "wr_remote_addr (ch_wrs (build_chain pm comm slot is) ! r) = sf_addr (sc_fifo comm ! row slot r)"
  proof (cases "1 < length is")
    case True
    then show ?thesis using assms by (simp add: build_chain_def Let_def)
  next
    case False
    with assms obtain i where "is = [i]" "r = 0" by (cases "is") auto
    then show ?thesis by (simp add: build_chain_def Let_def)
  qed
  show "sge_addr (ch_sges (build_chain pm comm slot is) ! r) = send_data (get_req comm (is ! r))"
    using assms by (simp add: build_chain_def Let_def)
qed

lemma chunk_op_store_sizes: "chunk_op (store_sizes comm slot is) = chunk_op comm"
  by (simp add: fun_eq_iff chunk_op_def chunk_wrs_def chunk_wr_def chunk_extra_def)

lemma chunk_bytes_store_sizes: "chunk_bytes (store_sizes comm slot is) = chunk_bytes comm"
  by (simp add: fun_eq_iff chunk_bytes_def)

lemma at_chunk_start:
  assumes "send_ready comm slot is"
  shows "at_chunk (store_sizes comm slot is) is nqps 0 (store_sizes comm slot is)"
  unfolding at_chunk_def
proof (intro exI conjI)
  let ?c = "store_sizes comm slot is"
  show "?c = ?c\<lparr> sc_base := (sc_base ?c)\<lparr> cb_reqs := cb_reqs (sc_base ?c),
      cb_qpIndex := (cb_qpIndex (sc_base ?c) + 0) mod cb_nqps (sc_base ?c) \<rparr> \<rparr>"
    using assms by (simp add: send_ready_def)
  show "\<forall>i < length (cb_reqs (sc_base ?c)). cb_reqs (sc_base ?c) ! i =
      (if i \<in> set is then (get_req ?c i)\<lparr> send_offset := i32 (int 0 * chunkSize (send_size (get_req ?c i)) nqps) \<rparr>
       else get_req ?c i)"
    using assms by (auto simp: send_ready_def get_req_def)
qed simp

lemma chain_at_start:
  "chain_at (store_sizes comm slot is) is nqps (build_chain pm comm slot is) 0 (build_chain pm comm slot is)"
proof -
  have "\<exists>rk sg. wr = wr\<lparr> wr_remote_addr := wr_remote_addr wr + word_of_int 0, wr_rkey := rk, wr_sg := sg \<rparr>"
    for wr :: ibv_send_wr
    by (rule exI [of _ "wr_rkey wr"], rule exI [of _ "wr_sg wr"]) simp
  then show ?thesis by (simp add: chain_at_def build_chain_wr(2))
qed

lemma multi_send_closed:
  assumes ready: "send_ready comm slot is"
    and run: "ncclIbMultiSend pm v slot comm w = (res, comm', w')" and ok: "\<not> ncclCheckFails res"
  defines "nqps \<equiv> conn_nqps pm (sc_base comm)"
  shows "res = ncclSuccess"
    "wd_posts w' = wd_posts w @ map (chunk_op comm slot is nqps (build_chain pm comm slot is)) [0..<nqps]"
    "at_chunk (store_sizes comm slot is) is nqps nqps comm'"
    "wd_ib_mem w' = wd_ib_mem (ib_add UNET_IB_TX_BYTES (sum_list (map (chunk_bytes comm is nqps) [0..<nqps])) w)"
proof -
  let ?ch = "build_chain pm comm slot is" and ?c = "store_sizes comm slot is"
  have n: "slot_nreqs comm slot = int (length is)" "slot_reqs comm slot (length is) = is"
    "length is \<le> NCCL_NET_IB_MAX_RECVS"
    using ready by (simp_all add: send_ready_def)
  obtain res1 tot comm1 w1 where l: "multi_send_loop v slot is nqps nqps ?ch 0 ?c w = (res1, tot, comm1, w1)"
    by (cases "multi_send_loop v slot is nqps nqps ?ch 0 ?c w") auto
  have nf: "\<not> ncclCheckFails res1" "res = ncclSuccess" "comm' = comm1"
      "w' = ib_add UNET_IB_TX_BYTES tot w1"
    using run ok n l by (auto simp: ncclIbMultiSend_def nqps_def Let_def split: if_splits)
  have b: "\<forall>i \<in> set is. i < length (cb_reqs (sc_base ?c))" "distinct is"
    using ready by (auto simp: send_ready_def)
  note loop = multi_send_loop_posts [OF at_chunk_start [OF ready] chain_at_start b l nf(1)]
  show "res = ncclSuccess" by (rule nf(2))
  show "wd_posts w' = wd_posts w @ map (chunk_op comm slot is nqps ?ch) [0..<nqps]"
    using loop nf(4) by (simp add: chunk_op_store_sizes)
  show "at_chunk ?c is nqps nqps comm'" using loop nf(3) by simp
  show "wd_ib_mem w' = wd_ib_mem (ib_add UNET_IB_TX_BYTES (sum_list (map (chunk_bytes comm is nqps) [0..<nqps])) w)"
    using loop nf(4) by (auto simp: ib_add_def chunk_bytes_store_sizes split: option.splits)
qed

lemma multi_send_loop_total:
  assumes "\<forall>h p. v h p = ncclSuccess"
  shows "\<exists>tot' comm' w'. multi_send_loop v slot is nqps m ch tot comm w = (ncclSuccess, tot', comm', w')"
  by (induction m arbitrary: ch tot comm w) (simp_all add: nic_post_def assms Let_def)

text \<open>If the card takes every work request, the send succeeds.\<close>

lemma multi_send_total:
  assumes "send_ready comm slot is" "\<forall>h p. v h p = ncclSuccess"
  obtains comm' w' where "ncclIbMultiSend pm v slot comm w = (ncclSuccess, comm', w')"
proof -
  let ?n = "conn_nqps pm (sc_base comm)"
  obtain tot comm1 w1 where "multi_send_loop v slot is ?n ?n (build_chain pm comm slot is) 0 (store_sizes comm slot is) w
      = (ncclSuccess, tot, comm1, w1)"
    using multi_send_loop_total [OF assms(2)] by blast
  then have "ncclIbMultiSend pm v slot comm w = (ncclSuccess, comm1, ib_add UNET_IB_TX_BYTES tot w1)"
    using assms(1) by (simp add: send_ready_def ncclIbMultiSend_def Let_def)
  then show thesis by (rule that)
qed

section \<open>A send on a concrete communicator\<close>

definition example_send_comm :: ncclIbSendComm where
  "example_send_comm =
     \<lparr> sc_base = example_base\<lparr> cb_reqs := (replicate MAX_REQUESTS idle_request)
           [3 := idle_request\<lparr> rq_type := NCCL_NET_IB_REQ_SEND, rq_nreqs := 1, send_size := 1000, send_data := 4096 \<rparr>],
         cb_nqps := 2, cb_qps := [\<lparr> qp_handle = 7, qp_devIndex = 0, qp_remDevIdx = 0 \<rparr>,
                                  \<lparr> qp_handle = 8, qp_devIndex = 0, qp_remDevIdx = 0 \<rparr>] \<rparr>,
       sc_fifo = (replicate 2048 zero_fifo)[0 := \<lparr> sf_addr = 8192, sf_size = 1000, sf_rkeys = [5, 6],
         sf_nreqs = 1, sf_tag = 9, sf_idx = 1 \<rparr>],
       sc_fifoReqs = (replicate 2048 None)[0 := Some 3],
       sc_remSizes = \<lparr> rs_elems = replicate 2048 0, rs_local = 0, rs_addr = 0, rs_rkeys = [0, 0], rs_lkeys = [0, 0] \<rparr>,
       sc_fifoHead = 0, sc_ar = False, sc_peer_rank = 1 \<rparr>"

definition example_params :: ib_params where
  "example_params = \<lparr> pm_splitDataOnQps = True, pm_arThreshold = 8192, pm_asyncEvents = True, pm_bwOffset = 5 \<rparr>"

definition example_world :: world where
  "example_world = \<lparr> wd_posts = [], wd_ib_stat = Some (Stat_new 0 0 0 (replicate 10 ''c'')), wd_bw_stat = None,
     wd_ib_mem = replicate 10 0, wd_bw_mem = [] \<rparr>"

lemma example_send_fifo0:
  "sc_fifo example_send_comm ! 0 = \<lparr> sf_addr = 8192, sf_size = 1000, sf_rkeys = [5, 6],
     sf_nreqs = 1, sf_tag = 9, sf_idx = 1 \<rparr>"
  unfolding example_send_comm_def by simp

lemma example_send_req3:
  "get_req example_send_comm 3 =
     idle_request\<lparr> rq_type := NCCL_NET_IB_REQ_SEND, rq_nreqs := 1, send_size := 1000, send_data := 4096 \<rparr>"
  unfolding example_send_comm_def get_req_def by simp

lemma example_send_sel:
  "sc_fifoReqs example_send_comm ! 0 = Some 3" "length (cb_reqs (sc_base example_send_comm)) = MAX_REQUESTS"
  "cb_nqps (sc_base example_send_comm) = 2" "cb_qpIndex (sc_base example_send_comm) = 0"
  unfolding example_send_comm_def by (simp_all add: example_base_def)

lemma example_send_ready: "send_ready example_send_comm 0 [3]"
  by (simp add: send_ready_def slot_reqs_def slot_nreqs_def row_def example_send_fifo0
      example_send_req3 example_send_sel idle_request_def)

lemma example_send_runs:
  obtains comm' w' where
    "ncclIbMultiSend example_params (\<lambda>_ _. ncclSuccess) 0 example_send_comm example_world = (ncclSuccess, comm', w')"
  using multi_send_total [OF example_send_ready, of "\<lambda>_ _. ncclSuccess" example_params example_world] by auto

section \<open>The theorems of a send\<close>

lemma new_posts_append: "wd_posts w' = wd_posts w @ ops \<Longrightarrow> new_posts w w' = ops"
  by (simp add: new_posts_def)

lemma fold_map_index: "fold f (map g xs) = fold (\<lambda>k. f (g k)) xs"
  by (rule ext) (simp add: fold_map o_def)

text \<open>
  The areas a slot sends: each request's buffer, to the address the receiver gave for it, and for more than one request
  the row of the array of sizes, to the same row of the receiver's array.
\<close>

definition sent_areas :: "ncclIbSendComm \<Rightarrow> nat \<Rightarrow> nat list \<Rightarrow> area list" where
  "sent_areas comm slot is =
     map (\<lambda>r. (send_data (get_req comm (is ! r)), sf_addr (sc_fifo comm ! row slot r), nat (send_size (get_req comm (is ! r)))))
       [0..<length is] @
     (if length is > 1
      then [(rs_local (sc_remSizes comm) + word_of_nat (row slot 0 * sizeof_int),
             rs_addr (sc_remSizes comm) + word_of_nat (row slot 0 * sizeof_int), length is * sizeof_int)]
      else [])"

lemma length_sent_areas: "length (sent_areas comm slot is) = length is + (if length is > 1 then 1 else 0)"
  by (simp add: sent_areas_def)

lemma sent_areas_nth:
  "r < length is \<Longrightarrow> sent_areas comm slot is ! r =
     (send_data (get_req comm (is ! r)), sf_addr (sc_fifo comm ! row slot r), nat (send_size (get_req comm (is ! r))))"
  "length is > 1 \<Longrightarrow> sent_areas comm slot is ! length is =
     (rs_local (sc_remSizes comm) + word_of_nat (row slot 0 * sizeof_int),
      rs_addr (sc_remSizes comm) + word_of_nat (row slot 0 * sizeof_int), length is * sizeof_int)"
  by (simp_all add: sent_areas_def nth_append)

lemma build_chain_extra:
  "length is > 1 \<Longrightarrow> \<exists>e. ch_extra (build_chain pm comm slot is) = Some e \<and>
     wr_remote_addr e = rs_addr (sc_remSizes comm) + word_of_nat (row slot 0 * sizeof_int) \<and>
     wr_sg e = Some \<lparr> sge_addr = rs_local (sc_remSizes comm) + word_of_nat (row slot 0 * sizeof_int),
                      sge_length = word_of_nat (length is * sizeof_int), sge_lkey = 0 \<rparr>"
  "length is \<le> 1 \<Longrightarrow> ch_extra (build_chain pm comm slot is) = Some e \<Longrightarrow> wr_sg e = None"
  by (auto simp: build_chain_def Let_def zero_wr_def split: if_splits)

text \<open>The columns of the chains: a request's parts, and the row of sizes.\<close>

lemma data_column:
  fixes pm :: ib_params and nqps k :: nat and a :: u64
  assumes ready: "send_ready comm slot is" and n: "0 < nqps" and r: "r < length is"
    and fit: "chunks_fit (send_size (get_req comm (is ! r))) nqps"
  defines "wr \<equiv> (\<lambda>k. chunk_wrs comm slot is nqps (build_chain pm comm slot is) k ! r)"
    and "ar \<equiv> (send_data (get_req comm (is ! r)), sf_addr (sc_fifo comm ! row slot r), nat (send_size (get_req comm (is ! r))))"
  shows "fold (\<lambda>k. rdma_write src (wr k)) [0..<nqps] dst =
      copied src (send_data (get_req comm (is ! r))) (nat (send_size (get_req comm (is ! r)))) (sf_addr (sc_fifo comm ! row slot r)) dst"
    "k < nqps \<Longrightarrow> hits (wr k) a \<Longrightarrow> covers ar a"
proof -
  let ?rq = "get_req comm (is ! r)"
  have sz: "0 \<le> send_size ?rq" using ready r by (simp add: send_ready_def)
  have wr: "wr k = chunk_wr comm slot nqps (qp_at (sc_base comm) k) k r (is ! r) (ch_wrs (build_chain pm comm slot is) ! r)" for k
    using r by (simp add: wr_def chunk_wrs_def nth_append)
  have "fold (\<lambda>k. rdma_write src (wr k)) [0..<nqps] dst =
      copied src (send_data ?rq) (nat (min (send_size ?rq) (int nqps * chunkSize (send_size ?rq) nqps))) (sf_addr (sc_fifo comm ! row slot r)) dst"
    by (rule fold_chunks [OF sz n fit order_refl, where lk = "\<lambda>k. send_lkeys ?rq ! qp_devIndex (qp_at (sc_base comm) k)"])
      (simp_all add: wr chunk_wr_def Let_def build_chain_wr(1) [OF r])
  then show "fold (\<lambda>k. rdma_write src (wr k)) [0..<nqps] dst =
      copied src (send_data ?rq) (nat (send_size ?rq)) (sf_addr (sc_fifo comm ! row slot r)) dst"
    using chunkSize_props(3) [OF sz n fit] by (simp add: min_absorb1)
  assume k: "k < nqps" and hit: "hits (wr k) a"
  then have l: "0 < chunk_len (send_size ?rq) nqps k" by (auto simp: hits_def wr chunk_wr_def Let_def split: if_splits)
  note part = chunk_part [OF sz n fit k l]
  have "unat (a - (sf_addr (sc_fifo comm ! row slot r) + word_of_int (int k * chunkSize (send_size ?rq) nqps))) <
      unat (word_of_int (chunk_len (send_size ?rq) nqps k) :: u32)"
    using hit l by (simp add: hits_def wr chunk_wr_def Let_def build_chain_wr(1) [OF r])
  then have "unat (a - sf_addr (sc_fifo comm ! row slot r)) < nat (int k * chunkSize (send_size ?rq) nqps + chunk_len (send_size ?rq) nqps k)"
    unfolding in_part [OF part(1) l part(3)] by blast
  then show "covers ar a" using part(2) by (simp add: covers_def ar_def)
qed

lemma extra_column:
  fixes pm :: ib_params and nqps k :: nat and a :: u64
  assumes ready: "send_ready comm slot is"
  defines "wr \<equiv> (\<lambda>k. chunk_wrs comm slot is nqps (build_chain pm comm slot is) k ! length is)"
  shows "length is > 1 \<Longrightarrow> \<exists>lk. wr_remote_addr (wr k) = rs_addr (sc_remSizes comm) + word_of_nat (row slot 0 * sizeof_int) \<and>
      wr_sg (wr k) = Some \<lparr> sge_addr = rs_local (sc_remSizes comm) + word_of_nat (row slot 0 * sizeof_int),
                           sge_length = word_of_nat (length is * sizeof_int), sge_lkey = lk \<rparr>"
    "length is \<le> 1 \<Longrightarrow> length is < length (chunk_wrs comm slot is nqps (build_chain pm comm slot is) k) \<Longrightarrow> \<not> hits (wr k) a"
proof -
  show "length is > 1 \<Longrightarrow> \<exists>lk. wr_remote_addr (wr k) = rs_addr (sc_remSizes comm) + word_of_nat (row slot 0 * sizeof_int) \<and>
      wr_sg (wr k) = Some \<lparr> sge_addr = rs_local (sc_remSizes comm) + word_of_nat (row slot 0 * sizeof_int),
                           sge_length = word_of_nat (length is * sizeof_int), sge_lkey = lk \<rparr>"
    using build_chain_extra(1) [of "is" pm comm slot]
    by (auto simp: wr_def chunk_wrs_def nth_append chunk_extra_def opt_list_def)
  show "length is \<le> 1 \<Longrightarrow> length is < length (chunk_wrs comm slot is nqps (build_chain pm comm slot is) k) \<Longrightarrow> \<not> hits (wr k) a"
    using build_chain_extra(2) [of "is" pm comm slot]
    by (auto simp: wr_def chunk_wrs_def nth_append chunk_extra_def opt_list_def hits_def split: option.splits)
qed

lemma row_bytes: "send_ready comm slot is \<Longrightarrow> unat (word_of_nat (length is * sizeof_int) :: u32) = length is * sizeof_int"
proof -
  assume "send_ready comm slot is"
  then have "length is * sizeof_int < 2 ^ 32" by (simp add: send_ready_def)
  moreover have "m < 2 ^ 32 \<Longrightarrow> unat (word_of_nat m :: u32) = m" for m by (simp add: unsigned_of_nat take_bit_nat_eq_self)
  ultimately show ?thesis by blast
qed

text \<open>The rows are as long as each other, every column copies its area, and no request writes outside the area of its column.\<close>

lemma slot_columns:
  fixes pm :: ib_params and nqps k :: nat and a :: u64
  assumes ready: "send_ready comm slot is" and n: "0 < nqps"
    and fit: "\<forall>i \<in> set is. chunks_fit (send_size (get_req comm i)) nqps"
  defines "chain \<equiv> chunk_wrs comm slot is nqps (build_chain pm comm slot is)"
    and "cols \<equiv> length is + length (opt_list (ch_extra (build_chain pm comm slot is)))"
  shows "length (chain k) = cols" "length (sent_areas comm slot is) \<le> cols"
    "c < length (sent_areas comm slot is) \<Longrightarrow> sent_areas comm slot is ! c = (p, q, m) \<Longrightarrow>
       fold (\<lambda>k. rdma_write src (chain k ! c)) [0..<nqps] dst = copied src p m q dst"
    "k < nqps \<Longrightarrow> c < cols \<Longrightarrow> hits (chain k ! c) a \<Longrightarrow>
       c < length (sent_areas comm slot is) \<and> covers (sent_areas comm slot is ! c) a"
proof -
  note data = data_column [OF ready n, where pm = pm, folded chain_def]
  note extra = extra_column [OF ready, where pm = pm and nqps = nqps, folded chain_def]
  have fit': "chunks_fit (send_size (get_req comm (is ! r))) nqps" if "r < length is" for r using fit that by simp
  show cols: "length (chain k) = cols" for k
    by (cases "ch_extra (build_chain pm comm slot is)") (simp_all add: chain_def cols_def chunk_wrs_def chunk_extra_def opt_list_def)
  show "length (sent_areas comm slot is) \<le> cols"
    using build_chain_extra(1) [of "is" pm comm slot] by (auto simp: length_sent_areas cols_def opt_list_def)
  show "fold (\<lambda>k. rdma_write src (chain k ! c)) [0..<nqps] dst = copied src p m q dst"
    if "c < length (sent_areas comm slot is)" "sent_areas comm slot is ! c = (p, q, m)"
  proof (cases "c < length is")
    case True
    then show ?thesis using data(1) [OF True fit' [OF True]] that(2) sent_areas_nth(1) [OF True, of comm slot] by simp
  next
    case False
    then have l: "c = length is" "length is > 1" using that(1) by (auto simp: length_sent_areas split: if_splits)
    show ?thesis
      using that(2) fold_same_area [OF extra(1) [OF l(2)] n] row_bytes [OF ready] sent_areas_nth(2) [OF l(2), of comm slot] by (simp add: l(1))
  qed
  show "c < length (sent_areas comm slot is) \<and> covers (sent_areas comm slot is ! c) a"
    if "k < nqps" "c < cols" "hits (chain k ! c) a"
  proof (cases "c < length is")
    case True
    then show ?thesis using data(2) [OF True fit' [OF True] that(1,3)] by (simp add: length_sent_areas sent_areas_nth(1))
  next
    case False
    then have l: "c = length is" using that(2) by (auto simp: cols_def opt_list_def split: option.splits)
    have "\<not> length is \<le> 1" using extra(2) [of k a] that by (auto simp: l cols)
    then have "length is > 1" by simp
    then show ?thesis
      using extra(1) [of k] row_bytes [OF ready] that(3) by (auto simp: l length_sent_areas sent_areas_nth(2) hits_def covers_def)
  qed
qed

lemma rdma_writes_chains:
  assumes "send_ready comm slot is" "ncclIbMultiSend pm v slot comm w = (ncclSuccess, comm', w')"
  defines "nqps \<equiv> conn_nqps pm (sc_base comm)"
  shows "rdma_writes src (new_posts w w') dst =
    fold (rdma_write src) (concat (map (chunk_wrs comm slot is nqps (build_chain pm comm slot is)) [0..<nqps])) dst"
proof -
  have "new_posts w w' = map (chunk_op comm slot is nqps (build_chain pm comm slot is)) [0..<nqps]"
    using multi_send_closed(2) [OF assms(1,2)] by (simp add: new_posts_append nqps_def)
  then show ?thesis by (simp add: rdma_writes_def chunk_op_def o_def)
qed

lemma multi_send_copies:
  assumes ready: "send_ready comm slot is" and n: "0 < conn_nqps pm (sc_base comm)"
    and run: "ncclIbMultiSend pm v slot comm w = (ncclSuccess, comm', w')"
    and fit: "\<forall>i \<in> set is. chunks_fit (send_size (get_req comm i)) (conn_nqps pm (sc_base comm))"
    and ap: "apart (sent_areas comm slot is)"
  shows "rdma_writes src (new_posts w w') dst = copied_all src (sent_areas comm slot is) dst"
proof -
  let ?chain = "chunk_wrs comm slot is (conn_nqps pm (sc_base comm)) (build_chain pm comm slot is)"
  note col = slot_columns [OF ready n fit, where pm = pm]
  have "?chain k = map (\<lambda>c. ?chain k ! c) [0..<length is + length (opt_list (ch_extra (build_chain pm comm slot is)))]" for k
    using map_nth [of "?chain k"] by (simp only: col(1))
  then have "rdma_writes src (new_posts w w') dst = fold (rdma_write src) (concat (map (\<lambda>k. map (\<lambda>c. ?chain k ! c)
      [0..<length is + length (opt_list (ch_extra (build_chain pm comm slot is)))]) [0..<conn_nqps pm (sc_base comm)])) dst"
    unfolding rdma_writes_chains [OF ready run] by presburger
  also have "\<dots> = copied_all src (sent_areas comm slot is) dst"
    by (rule grid_copies [OF col(3) col(4) ap col(2)])
  finally show ?thesis .
qed

lemma multi_send_copies_one:
  assumes "send_ready comm slot [i]" "0 < conn_nqps pm (sc_base comm)"
    "ncclIbMultiSend pm v slot comm w = (ncclSuccess, comm', w')" "chunks_fit (send_size (get_req comm i)) (conn_nqps pm (sc_base comm))"
  shows "rdma_writes src (new_posts w w') dst =
    copied src (send_data (get_req comm i)) (nat (send_size (get_req comm i))) (sf_addr (sc_fifo comm ! row slot 0)) dst"
proof -
  have "sent_areas comm slot [i] = [(send_data (get_req comm i), sf_addr (sc_fifo comm ! row slot 0), nat (send_size (get_req comm i)))]"
    by (simp add: sent_areas_def)
  then show ?thesis using multi_send_copies [OF assms(1-3), of src dst] assms(4) by simp
qed

text \<open>The row of sizes that goes out is the sizes of the requests.\<close>

lemma store_sizes_row:
  assumes "\<forall>r < length is. row slot r < length (rs_elems (sc_remSizes comm))" "length is > 1" "r < length is"
  shows "rs_elems (sc_remSizes (store_sizes comm slot is)) ! row slot r = send_size (get_req comm (is ! r))"
proof -
  have "fold (\<lambda>r es. es[row slot r := f r]) [0..<m] es ! row slot r = (if r < m then f r else es ! row slot r)"
    if "\<forall>r < m. row slot r < length es" for f :: "nat \<Rightarrow> int" and m es
    using that
  proof (induction m)
    case (Suc m)
    have "length (fold (\<lambda>r es. es[row slot r := f r]) [0..<m] es) = length es" by (induction m) simp_all
    then show ?case using Suc by (auto simp: nth_list_update row_def less_Suc_eq)
  qed simp
  then show ?thesis using assms by (simp add: store_sizes_def)
qed

text \<open>
  C4: a send that succeeds moves exactly its data: when no size is so close to \<open>2^31\<close> that the arithmetic of the chunks
  overflows, and the receiver's buffers do not overlap, all the requests posted on all the queue pairs, applied to any memory, put every
  buffer of the slot at the address the receiver gave for it and, for several requests, the row of sizes in the receiver's array; every other
  byte stays as it was; and that row holds the size of each request.
\<close>
theorem multi_send_data:
  assumes "send_ready comm slot is" "0 < conn_nqps pm (sc_base comm)"
    "ncclIbMultiSend pm v slot comm w = (ncclSuccess, comm', w')"
    "\<forall>i \<in> set is. chunks_fit (send_size (get_req comm i)) (conn_nqps pm (sc_base comm))"
    "apart (sent_areas comm slot is)"
    "\<forall>r < length is. row slot r < length (rs_elems (sc_remSizes comm))"
  shows "rdma_writes src (new_posts w w') dst = copied_all src (sent_areas comm slot is) dst \<and>
    (length is = 1 \<or> map (\<lambda>r. rs_elems (sc_remSizes comm') ! row slot r) [0..<length is] = map (\<lambda>i. send_size (get_req comm i)) is)"
proof -
  have "rs_elems (sc_remSizes comm') = rs_elems (sc_remSizes (store_sizes comm slot is))"
    using at_chunk_sel(2) [OF multi_send_closed(3) [OF assms(1,3)]] by simp
  moreover have "is \<noteq> []" using assms(1) by (simp add: send_ready_def)
  then have "length is \<noteq> 1 \<Longrightarrow> length is > 1" using length_0_conv [of "is"] by linarith
  ultimately have "length is = 1 \<or> map (\<lambda>r. rs_elems (sc_remSizes comm') ! row slot r) [0..<length is] = map (\<lambda>i. send_size (get_req comm i)) is"
    using store_sizes_row [OF assms(6)] by (auto intro: nth_equalityI)
  then show ?thesis using multi_send_copies [OF assms(1-5)] by blast
qed

text \<open>Two requests on one slot.\<close>

definition example_pair_comm :: ncclIbSendComm where
  "example_pair_comm = example_send_comm\<lparr>
     sc_base := (sc_base example_send_comm)\<lparr> cb_reqs := (replicate MAX_REQUESTS idle_request)
       [3 := idle_request\<lparr> rq_type := NCCL_NET_IB_REQ_SEND, rq_nreqs := 2, send_size := 1000, send_data := 4096 \<rparr>,
        5 := idle_request\<lparr> rq_type := NCCL_NET_IB_REQ_SEND, rq_nreqs := 2, send_size := 300, send_data := 16384 \<rparr>] \<rparr>,
     sc_fifo := (replicate 2048 zero_fifo)
       [0 := \<lparr> sf_addr = 8192, sf_size = 1000, sf_rkeys = [5, 6], sf_nreqs = 2, sf_tag = 9, sf_idx = 1 \<rparr>,
        1 := \<lparr> sf_addr = 20480, sf_size = 300, sf_rkeys = [5, 6], sf_nreqs = 2, sf_tag = 10, sf_idx = 1 \<rparr>],
     sc_fifoReqs := (replicate 2048 None)[0 := Some 3, 1 := Some 5],
     sc_remSizes := \<lparr> rs_elems = replicate 2048 0, rs_local = 32768, rs_addr = 40960, rs_rkeys = [0, 0], rs_lkeys = [0, 0] \<rparr> \<rparr>"

lemma example_pair_reqs:
  "get_req example_pair_comm 3 = idle_request\<lparr> rq_type := NCCL_NET_IB_REQ_SEND, rq_nreqs := 2, send_size := 1000, send_data := 4096 \<rparr>"
  "get_req example_pair_comm 5 = idle_request\<lparr> rq_type := NCCL_NET_IB_REQ_SEND, rq_nreqs := 2, send_size := 300, send_data := 16384 \<rparr>"
  unfolding example_pair_comm_def get_req_def by simp_all

lemma example_pair_rows:
  "sc_fifo example_pair_comm ! 0 = \<lparr> sf_addr = 8192, sf_size = 1000, sf_rkeys = [5, 6], sf_nreqs = 2, sf_tag = 9, sf_idx = 1 \<rparr>"
  "sc_fifo example_pair_comm ! 1 = \<lparr> sf_addr = 20480, sf_size = 300, sf_rkeys = [5, 6], sf_nreqs = 2, sf_tag = 10, sf_idx = 1 \<rparr>"
  "sc_fifoReqs example_pair_comm ! 0 = Some 3" "sc_fifoReqs example_pair_comm ! 1 = Some 5"
  "rs_local (sc_remSizes example_pair_comm) = 32768" "rs_addr (sc_remSizes example_pair_comm) = 40960"
  "length (rs_elems (sc_remSizes example_pair_comm)) = 2048"
  unfolding example_pair_comm_def by simp_all

lemma example_pair_sel:
  "length (cb_reqs (sc_base example_pair_comm)) = MAX_REQUESTS" "cb_nqps (sc_base example_pair_comm) = 2"
  "cb_qpIndex (sc_base example_pair_comm) = 0" "conn_nqps example_params (sc_base example_pair_comm) = 2"
  unfolding example_pair_comm_def by (simp_all add: example_send_sel conn_nqps_def example_params_def)

lemma example_pair_ready: "send_ready example_pair_comm 0 [3, 5]"
  by (simp add: send_ready_def slot_reqs_def slot_nreqs_def row_def example_pair_rows example_pair_rows [unfolded One_nat_def]
      example_pair_reqs example_pair_sel idle_request_def upt_conv_Cons)

lemma example_pair_areas: "sent_areas example_pair_comm 0 [3, 5] = [(4096, 8192, 1000), (16384, 20480, 300), (32768, 40960, 8)]"
  by (simp add: sent_areas_def row_def example_pair_rows example_pair_rows [unfolded One_nat_def] example_pair_reqs upt_conv_Cons)

theorem multi_send_data_witness:
  "\<exists>comm' w'. ncclIbMultiSend example_params (\<lambda>_ _. ncclSuccess) 0 example_pair_comm example_world = (ncclSuccess, comm', w') \<and>
     rdma_writes (\<lambda>a. ucast a) (new_posts example_world w') (\<lambda>_. 0) =
       copied_all (\<lambda>a. ucast a) [(4096, 8192, 1000), (16384, 20480, 300), (32768, 40960, 8)] (\<lambda>_. 0) \<and>
     rs_elems (sc_remSizes comm') ! 0 = 1000 \<and> rs_elems (sc_remSizes comm') ! 1 = 300"
proof -
  obtain comm' w' where r: "ncclIbMultiSend example_params (\<lambda>_ _. ncclSuccess) 0 example_pair_comm example_world = (ncclSuccess, comm', w')"
    using multi_send_total [OF example_pair_ready, of "\<lambda>_ _. ncclSuccess" example_params example_world] by auto
  have "apart (sent_areas example_pair_comm 0 [3, 5])" by (simp add: example_pair_areas apart_def disjoint_areas_def)
  from multi_send_data [OF example_pair_ready _ r _ this] r show ?thesis
    by (simp add: example_pair_sel example_pair_reqs example_pair_areas example_pair_rows row_def chunks_fit_def less_Suc_eq
        upt_conv_Cons numeral_2_eq_2)
qed

text \<open>What decides the completions of a request: its identifier, operation, signalling and immediate data.\<close>

definition wr_key :: "ibv_send_wr \<Rightarrow> u64 \<times> ibv_wr_opcode \<times> bool \<times> u32" where
  "wr_key wr = (wr_id wr, wr_opcode wr, wr_signaled wr, wr_imm wr)"

definition has_extra :: "ib_params \<Rightarrow> ncclIbSendComm \<Rightarrow> nat list \<Rightarrow> bool" where
  "has_extra pm comm is \<longleftrightarrow>
     length is > 1 \<or> sc_ar comm \<and> send_size (get_req comm (is ! 0)) > pm_arThreshold pm"

definition send_imm :: "ncclIbSendComm \<Rightarrow> nat list \<Rightarrow> u32" where
  "send_imm comm is = (if length is = 1 then word_of_int (send_size (get_req comm (is ! 0))) else 0)"

lemma build_chain_keys:
  assumes "is \<noteq> []"
  shows "map wr_key (chain_posted (build_chain pm comm slot is)) =
    replicate (length is - (if has_extra pm comm is then 0 else 1)) (0, IBV_WR_RDMA_WRITE, False, 0) @
    [(encode_wr_id is, IBV_WR_RDMA_WRITE_WITH_IMM, True, send_imm comm is)]"
proof (cases "has_extra pm comm is")
  case True
  then show ?thesis
    by (auto simp: build_chain_def Let_def chain_posted_def wr_key_def zero_wr_def has_extra_def send_imm_def o_def
        map_replicate_const)
next
  case False
  with assms obtain i where "is = [i]" by (cases "is") (auto simp: has_extra_def)
  then show ?thesis using False
    by (simp add: build_chain_def Let_def chain_posted_def wr_key_def zero_wr_def has_extra_def send_imm_def)
qed

lemma chunk_wrs_keys:
  assumes "length (ch_wrs ch) = length is"
  shows "map wr_key (chunk_wrs comm slot is nqps ch k) = map wr_key (chain_posted ch)"
proof -
  have "map (\<lambda>r. wr_key (chunk_wr comm slot nqps qp k r (is ! r) (ch_wrs ch ! r))) [0..<length is] = map wr_key (ch_wrs ch)" for qp
    by (rule nth_equalityI) (simp_all add: assms wr_key_def chunk_wr_def Let_def)
  moreover have "map wr_key (opt_list (chunk_extra comm n qp (ch_extra ch))) = map wr_key (opt_list (ch_extra ch))" for n qp
    by (auto simp: chunk_extra_def opt_list_def wr_key_def split: option.splits)
  ultimately show ?thesis by (simp add: chunk_wrs_def chain_posted_def opt_list_def o_def)
qed

text \<open>
  A successful send posts one chain on each queue pair of the round, starting at the current
  one and going round, and the next send starts where this one stopped. Each chain completes
  exactly once: all its requests are plain unsignalled writes but the last, which carries the
  indices of all the requests of the slot and, for a single request, its size as immediate data.
\<close>
theorem multi_send_completions:
  assumes "send_ready comm slot is" "ncclIbMultiSend pm v slot comm w = (ncclSuccess, comm', w')"
    "k < conn_nqps pm (sc_base comm)"
  shows "length (new_posts w w') = conn_nqps pm (sc_base comm) \<and>
    op_qp (new_posts w w' ! k) = qp_handle (qp_at (sc_base comm) k) \<and>
    map wr_key (op_wrs (new_posts w w' ! k)) =
      replicate (length is - (if has_extra pm comm is then 0 else 1)) (0, IBV_WR_RDMA_WRITE, False, 0) @
      [(encode_wr_id is, IBV_WR_RDMA_WRITE_WITH_IMM, True, send_imm comm is)] \<and>
    qp_at (sc_base comm') j = qp_at (sc_base comm) (conn_nqps pm (sc_base comm) + j)"
proof -
  let ?n = "conn_nqps pm (sc_base comm)" and ?ch = "build_chain pm comm slot is"
  have ne: "is \<noteq> []" using assms(1) by (simp add: send_ready_def)
  have posts: "new_posts w w' = map (chunk_op comm slot is ?n ?ch) [0..<?n]"
    using multi_send_closed(2) [OF assms(1,2)] by (simp add: new_posts_append)
  have at: "at_chunk (store_sizes comm slot is) is ?n ?n comm'"
    using multi_send_closed(3) [OF assms(1,2)] by simp
  have "qp_at (sc_base comm') j = qp_at (sc_base comm) (?n + j)"
    using at_chunk_sel(3-5) [OF at] by (simp add: qp_at_def mod_add_left_eq add.assoc)
  then show ?thesis
    using assms(3) posts chunk_wrs_keys [of ?ch "is" comm slot ?n k] build_chain_keys [OF ne, of pm comm slot]
    by (simp add: chunk_op_def)
qed

theorem multi_send_completions_witness:
  "\<exists>comm' w'. ncclIbMultiSend example_params (\<lambda>_ _. ncclSuccess) 0 example_send_comm example_world = (ncclSuccess, comm', w') \<and>
     map wr_key (op_wrs (new_posts example_world w' ! 1)) = [(3, IBV_WR_RDMA_WRITE_WITH_IMM, True, 1000)]"
proof -
  obtain comm' w' where r: "ncclIbMultiSend example_params (\<lambda>_ _. ncclSuccess) 0 example_send_comm example_world
      = (ncclSuccess, comm', w')"
    by (rule example_send_runs)
  have k: "1 < conn_nqps example_params (sc_base example_send_comm)"
    by (simp add: conn_nqps_def example_params_def example_send_sel)
  have ar: "sc_ar example_send_comm = False" by (simp add: example_send_comm_def)
  show ?thesis
    using multi_send_completions [OF example_send_ready r k] r
    by (simp add: has_extra_def ar send_imm_def example_send_req3 encode_wr_id_def)
qed

lemma sum_chunk_len:
  assumes "0 \<le> sz" "0 < nqps" "chunks_fit sz nqps"
  shows "sum_list (map (\<lambda>k. max 0 (chunk_len sz nqps k)) [0..<nqps]) = sz"
proof -
  have "sum_list (map (\<lambda>k. max 0 (chunk_len sz nqps k)) [0..<m]) = min sz (int m * chunkSize sz nqps)" if "m \<le> nqps" for m
    using that
  proof (induction m)
    case 0
    then show ?case using assms(1) by simp
  next
    case (Suc m)
    then show ?case using chunk_len_prefix [OF assms, of m] by simp
  qed
  from this [OF order_refl] show ?thesis using chunkSize_props(3) [OF assms] by (simp add: min_absorb1)
qed

lemma sum_list_swap:
  "sum_list (map (\<lambda>k. sum_list (map (f k) xs)) ks) = sum_list (map (\<lambda>x. sum_list (map (\<lambda>k. f k x) ks)) xs)"
  for f :: "'a \<Rightarrow> 'b \<Rightarrow> int"
  by (induction ks) (simp_all add: sum_list_addf)

lemma sum_list_word_of_int: "sum_list (map (\<lambda>k. word_of_int (g k) :: 'a::len word) ks) = word_of_int (sum_list (map g ks))"
  by (induction ks) simp_all

lemma chunk_bytes_int:
  "chunk_bytes comm xs nqps k =
     word_of_int (sum_list (map (\<lambda>i. max 0 (chunk_len (send_size (get_req comm i)) nqps k)) xs))"
  by (induction xs) (simp_all add: chunk_bytes_def Let_def max_def)

lemma sum_chunk_bytes:
  assumes "\<forall>i \<in> set is. 0 \<le> send_size (get_req comm i) \<and> chunks_fit (send_size (get_req comm i)) nqps" "0 < nqps"
  shows "sum_list (map (chunk_bytes comm is nqps) [0..<nqps]) =
    word_of_int (sum_list (map (\<lambda>i. send_size (get_req comm i)) is))"
proof -
  have "sum_list (map (chunk_bytes comm is nqps) [0..<nqps]) =
      word_of_int (sum_list (map (\<lambda>k. sum_list (map (\<lambda>i. max 0 (chunk_len (send_size (get_req comm i)) nqps k)) is)) [0..<nqps]))"
    unfolding chunk_bytes_int by (rule sum_list_word_of_int)
  also have "\<dots> = word_of_int (sum_list (map (\<lambda>i. sum_list (map (\<lambda>k. max 0 (chunk_len (send_size (get_req comm i)) nqps k)) [0..<nqps])) is))"
    by (subst sum_list_swap) (rule refl)
  also have "map (\<lambda>i. sum_list (map (\<lambda>k. max 0 (chunk_len (send_size (get_req comm i)) nqps k)) [0..<nqps])) is =
      map (\<lambda>i. send_size (get_req comm i)) is"
    using sum_chunk_len [OF _ assms(2)] assms(1) by (intro map_cong) blast+
  finally show ?thesis .
qed

text \<open>
  The counter of transmitted bytes grows by the sum of the sizes of the requests of the slot:
  no byte is posted twice and none is left out.
\<close>
theorem multi_send_tx_bytes:
  assumes "send_ready comm slot is" "0 < conn_nqps pm (sc_base comm)"
    "ncclIbMultiSend pm v slot comm w = (ncclSuccess, comm', w')"
    "wd_ib_stat w = Some st" "cell st UNET_IB_TX_BYTES < length (wd_ib_mem w)"
    "\<forall>i \<in> set is. chunks_fit (send_size (get_req comm i)) (conn_nqps pm (sc_base comm))"
  shows "Stat_get st UNET_IB_TX_BYTES (wd_ib_mem w') =
    Stat_get st UNET_IB_TX_BYTES (wd_ib_mem w) +
    word_of_int (sum_list (map (\<lambda>i. send_size (get_req comm i)) is))"
proof -
  have "\<forall>i \<in> set is. 0 \<le> send_size (get_req comm i) \<and> chunks_fit (send_size (get_req comm i)) (conn_nqps pm (sc_base comm))"
    using assms(1,6) by (simp add: send_ready_def)
  from sum_chunk_bytes [OF this assms(2)]
  have "wd_ib_mem w' = Stat_add st UNET_IB_TX_BYTES
      (word_of_int (sum_list (map (\<lambda>i. send_size (get_req comm i)) is))) (wd_ib_mem w)"
    using multi_send_closed(4) [OF assms(1,3)] assms(4) by (simp add: ib_add_def)
  then show ?thesis using assms(5) by (simp add: Stat_get_def Stat_add_def nth_counter_add)
qed

theorem multi_send_tx_bytes_witness:
  "\<exists>comm' w'. ncclIbMultiSend example_params (\<lambda>_ _. ncclSuccess) 0 example_send_comm example_world = (ncclSuccess, comm', w') \<and>
     Stat_get (Stat_new 0 0 0 (replicate 10 ''c'')) UNET_IB_TX_BYTES (wd_ib_mem w') = 1000"
proof -
  obtain comm' w' where r: "ncclIbMultiSend example_params (\<lambda>_ _. ncclSuccess) 0 example_send_comm example_world
      = (ncclSuccess, comm', w')"
    by (rule example_send_runs)
  have n: "0 < conn_nqps example_params (sc_base example_send_comm)"
    by (simp add: conn_nqps_def example_params_def example_send_sel)
  have c: "cell (Stat_new 0 0 0 (replicate 10 ''c'')) 9 < length (wd_ib_mem example_world)"
    "Stat_get (Stat_new 0 0 0 (replicate 10 ''c'')) 9 (wd_ib_mem example_world) = 0"
    by (simp_all add: example_world_def cell_def Stat_get_def)
  show ?thesis
    using multi_send_tx_bytes [OF example_send_ready n r _ c(1)] r c(2)
    by (simp add: example_world_def example_send_req3 chunks_fit_def conn_nqps_def example_params_def example_send_sel)
qed

section \<open>Sizes at the end of the int\<close>

lemma i32_wraps: "2 ^ 31 \<le> x \<Longrightarrow> x < 2 ^ 32 \<Longrightarrow> i32 x = x - 2 ^ 32"
proof -
  assume x: "2 ^ 31 \<le> x" "x < 2 ^ 32"
  have "(x - 2 ^ 31 + 2 ^ 32) mod 2 ^ 32 = x - 2 ^ 31" using x by (simp only: mod_add_self2) simp
  then have "(x + 2 ^ 31) mod 2 ^ 32 = x - 2 ^ 31" by (simp add: add.commute)
  then show ?thesis by (simp add: i32_def signed_take_bit_eq_take_bit_shift take_bit_eq_mod)
qed

lemma chunkSize_overflows:
  assumes "2 ^ 31 - 127 \<le> sz" "sz < 2 ^ 31"
  shows "chunkSize sz 1 < 0"
proof -
  have "DIVUP sz 1 = sz" using assms by (simp add: DIVUP_def i32_id)
  moreover have "i32 (sz + 128 - 1) = sz + 127 - 2 ^ 32" using assms i32_wraps [of "sz + 128 - 1"] by simp
  moreover define y where "y = (2 ^ 32 - sz - 127) div 128"
  moreover have "(sz + 127 - 2 ^ 32) sdiv 128 = - y" using assms by (simp add: signed_divide_int_def sgn_if y_def)
  ultimately have c: "chunkSize sz 1 = i32 (- y * 128)" by (simp add: chunkSize_def DIVUP_def)
  have y: "2 ^ 24 - 1 \<le> y" "y \<le> 2 ^ 24" using assms minus_mod_eq_mult_div [of "2 ^ 32 - sz - 127" 128] pos_mod_bound [of 128 "2 ^ 32 - sz - 127"]
      pos_mod_sign [of 128 "2 ^ 32 - sz - 127"] unfolding y_def [symmetric] by simp_all
  then have "i32 (- y * 128) = - y * 128" by (intro i32_id) simp_all
  then show ?thesis using c y by simp
qed

text \<open>
  With one queue pair, a send of one of the 127 largest sizes succeeds and moves no data: the rounding to chunks overflows, the
  length of the chunk is negative and the request has no buffer, while the size goes to the receiver as immediate data all the same.
\<close>
theorem largest_sends_move_nothing:
  assumes "send_ready comm slot [i]" "conn_nqps pm (sc_base comm) = 1"
    "ncclIbMultiSend pm v slot comm w = (ncclSuccess, comm', w')" "2 ^ 31 - 127 \<le> send_size (get_req comm i)"
  shows "rdma_writes src (new_posts w w') dst = dst \<and>
    wr_imm (last (op_wrs (new_posts w w' ! 0))) = word_of_int (send_size (get_req comm i))"
proof -
  let ?ch = "build_chain pm comm slot [i]"
  have "send_size (get_req comm i) < 2 ^ 31" using assms(1) by (simp add: send_ready_def)
  from chunkSize_overflows [OF assms(4) this] have "chunk_len (send_size (get_req comm i)) 1 0 \<le> 0" by (simp add: chunk_len_def)
  then have none: "wr_sg wr = None" if "wr \<in> set (chunk_wrs comm slot [i] 1 ?ch 0)" for wr
    using that build_chain_extra(2) [of "[i]" pm comm slot]
    by (auto simp: chunk_wrs_def chunk_wr_def chunk_extra_def opt_list_def Let_def split: option.splits)
  have "fold (rdma_write src) wrs dst = dst" if "\<And>wr. wr \<in> set wrs \<Longrightarrow> wr_sg wr = None" for wrs
    using that by (induction wrs) (simp_all add: rdma_write_None)
  from this [OF none] have "rdma_writes src (new_posts w w') dst = dst"
    using rdma_writes_chains [OF assms(1,3)] by (simp add: assms(2))
  moreover have "op_wrs (new_posts w w' ! 0) = chunk_wrs comm slot [i] 1 ?ch 0"
    using multi_send_closed(2) [OF assms(1,3)] by (simp add: new_posts_append assms(2) chunk_op_def)
  moreover have "map wr_key (chunk_wrs comm slot [i] 1 ?ch 0) = map wr_key (chain_posted ?ch)" by (rule chunk_wrs_keys) simp
  then have keys: "map wr_key (chunk_wrs comm slot [i] 1 ?ch 0) =
      replicate (1 - (if has_extra pm comm [i] then 0 else 1)) (0, IBV_WR_RDMA_WRITE, False, 0) @
      [(encode_wr_id [i], IBV_WR_RDMA_WRITE_WITH_IMM, True, send_imm comm [i])]"
    using build_chain_keys [of "[i]" pm comm slot] by simp
  have "chunk_wrs comm slot [i] 1 ?ch 0 \<noteq> []" by (simp add: chunk_wrs_def)
  then have "wr_key (last (chunk_wrs comm slot [i] 1 ?ch 0)) = last (map wr_key (chunk_wrs comm slot [i] 1 ?ch 0))" by (simp add: last_map)
  then have "wr_key (last (chunk_wrs comm slot [i] 1 ?ch 0)) = (encode_wr_id [i], IBV_WR_RDMA_WRITE_WITH_IMM, True, send_imm comm [i])"
    unfolding keys by simp
  then have "wr_imm (last (chunk_wrs comm slot [i] 1 ?ch 0)) = word_of_int (send_size (get_req comm i))"
    by (simp add: wr_key_def send_imm_def)
  ultimately show ?thesis by simp
qed

end
