(* ===== verification/Isend.thy ===== *)
theory Isend
  imports Rdma "HOL-Library.Sublist"
begin

text \<open>
  The invariant of a sending communicator between two calls of \<^verbatim>\<open>ncclIbIsend\<close>, that the call
  keeps it, and what a call that completes a slot has posted and recorded: each request of
  the slot counts, per device, exactly the completions its chains will raise.
\<close>

section \<open>Events\<close>

definition dev_count :: "ncclIbNetCommBase \<Rightarrow> nat \<Rightarrow> nat \<Rightarrow> nat" where
  "dev_count b m d = length (filter (\<lambda>k. qp_devIndex (qp_at b k) = d) [0..<m])"

definition send_events :: "ib_params \<Rightarrow> ncclIbNetCommBase \<Rightarrow> int list" where
  "send_events pm b = [int (dev_count b (conn_nqps pm b) 0), int (dev_count b (conn_nqps pm b) 1)]"

lemma add_events_sel [simp]:
  "rq_type (add_events b mh m q r) = rq_type r" "rq_nreqs (add_events b mh m q r) = rq_nreqs r"
  "send_size (add_events b mh m q r) = send_size r" "send_data (add_events b mh m q r) = send_data r"
  "send_offset (add_events b mh m q r) = send_offset r" "rq_sock (add_events b mh m q r) = rq_sock r"
  "rq_peer_rank (add_events b mh m q r) = rq_peer_rank r"
  "length (rq_events (add_events b mh m q r)) = length (rq_events r)"
  "length (send_lkeys (add_events b mh m q r)) = length (send_lkeys r)"
  by (induction b mh m q r rule: add_events.induct) (simp_all add: ncclIbAddEvent_def Let_def)

lemma dev_count_Suc:
  "dev_count b (Suc m) d = (if qp_devIndex (qp_at b 0) = d then 1 else 0) +
     length (filter (\<lambda>k. qp_devIndex (qp_at b (Suc k)) = d) [0..<m])"
proof -
  have "[0..<Suc m] = 0 # map Suc [0..<m]" by (simp add: upt_conv_Cons map_Suc_upt del: upt_Suc)
  then show ?thesis by (simp add: dev_count_def filter_map o_def del: upt_Suc)
qed

lemma add_events_count:
  "d < length (rq_events r) \<Longrightarrow> q < cb_nqps b \<Longrightarrow>
   rq_events (add_events b mh m q r) ! d = rq_events r ! d + int (dev_count (b\<lparr> cb_qpIndex := q \<rparr>) m d)"
proof (induction b mh m q r rule: add_events.induct)
  case (1 b mh q r)
  then show ?case by (simp add: dev_count_def)
next
  case (2 b mh m q r)
  let ?e = "qp_devIndex (cb_qps b ! q)"
  let ?r = "(ncclIbAddEvent ?e r)\<lparr> send_lkeys := (send_lkeys (ncclIbAddEvent ?e r))[?e := mk_lkeys mh ! ?e] \<rparr>"
  have ih: "rq_events (add_events b mh m ((q + 1) mod cb_nqps b) ?r) ! d =
      rq_events ?r ! d + int (dev_count (b\<lparr> cb_qpIndex := (q + 1) mod cb_nqps b \<rparr>) m d)"
    using "2.IH" [OF refl refl refl] "2.prems" by (simp add: ncclIbAddEvent_def)
  have "dev_count (b\<lparr> cb_qpIndex := (q + 1) mod cb_nqps b \<rparr>) m d =
      length (filter (\<lambda>k. qp_devIndex (qp_at (b\<lparr> cb_qpIndex := q \<rparr>) (Suc k)) = d) [0..<m])"
    by (simp add: dev_count_def qp_at_def mod_add_left_eq)
  then show ?case
    using ih "2.prems" dev_count_Suc [of "b\<lparr> cb_qpIndex := q \<rparr>" m d]
    by (simp add: Let_def ncclIbAddEvent_def list_update_nth_cases qp_at_def)
qed

lemma list2_eqI: "length xs = 2 \<Longrightarrow> xs ! 0 = a \<Longrightarrow> xs ! 1 = b \<Longrightarrow> xs = [a, b]"
  by (cases xs; cases "tl xs") auto

lemma fill_send_request_sel:
  "rq_type (fill_send_request pm comm n sz data mh r) = NCCL_NET_IB_REQ_SEND"
  "send_size (fill_send_request pm comm n sz data mh r) = sz"
  "send_data (fill_send_request pm comm n sz data mh r) = data"
  "send_offset (fill_send_request pm comm n sz data mh r) = 0"
  "rq_nreqs (fill_send_request pm comm n sz data mh r) = n"
  "rq_peer_rank (fill_send_request pm comm n sz data mh r) = sc_peer_rank comm"
  by (simp_all add: fill_send_request_def Let_def)

lemma fill_send_request_events:
  assumes "rq_events r = [0, 0]" "cb_qpIndex (sc_base comm) < cb_nqps (sc_base comm)"
  shows "rq_events (fill_send_request pm comm n sz data mh r) = send_events pm (sc_base comm)"
  unfolding send_events_def
  by (rule list2_eqI) (use assms in \<open>simp_all add: fill_send_request_def Let_def add_events_count\<close>)

section \<open>The invariant of a sending communicator\<close>

definition pending_ok :: "ib_params \<Rightarrow> ncclIbSendComm \<Rightarrow> int \<Rightarrow> nat \<Rightarrow> bool" where
  "pending_ok pm comm n i \<longleftrightarrow> i < MAX_REQUESTS \<and> rq_type (get_req comm i) = NCCL_NET_IB_REQ_SEND \<and>
     send_offset (get_req comm i) = 0 \<and> 0 \<le> send_size (get_req comm i) \<and> send_size (get_req comm i) < 2 ^ 31 \<and>
     rq_nreqs (get_req comm i) = n \<and> rq_peer_rank (get_req comm i) = sc_peer_rank comm \<and>
     rq_events (get_req comm i) = send_events pm (sc_base comm)"

definition send_inv :: "ib_params \<Rightarrow> ncclIbSendComm \<Rightarrow> bool" where
  "send_inv pm comm \<longleftrightarrow>
     length (cb_reqs (sc_base comm)) = MAX_REQUESTS \<and> length (sc_fifo comm) = 2048 \<and>
     length (sc_fifoReqs comm) = 2048 \<and> cb_qpIndex (sc_base comm) < cb_nqps (sc_base comm) \<and>
     0 < cb_ndevs (sc_base comm) \<and>
     (\<forall>slot < 256. \<forall>r < 8. slot \<noteq> cur_slot comm \<longrightarrow> sc_fifoReqs comm ! row slot r = None) \<and>
     (\<forall>r < 8. \<forall>i. sc_fifoReqs comm ! row (cur_slot comm) r = Some i \<longrightarrow>
        pending_ok pm comm (slot_nreqs comm (cur_slot comm)) i) \<and>
     (\<forall>r < 8. \<forall>r' < 8. \<forall>i. sc_fifoReqs comm ! row (cur_slot comm) r = Some i \<longrightarrow>
        sc_fifoReqs comm ! row (cur_slot comm) r' = Some i \<longrightarrow> r = r')"

lemma cur_slot_nat: "cur_slot comm = unat (sc_fifoHead comm) mod 256"
  by (simp add: cur_slot_def unat_mod)

lemma cur_slot_less: "cur_slot comm < 256"
  by (simp add: cur_slot_nat)

lemma row_less: "slot < 256 \<Longrightarrow> r < 8 \<Longrightarrow> row slot r < 2048"
  by (simp add: row_def)

lemma row_inj: "r < 8 \<Longrightarrow> r' < 8 \<Longrightarrow> row slot r = row slot' r' \<longleftrightarrow> slot = slot' \<and> r = r'"
  unfolding row_def by (rule block_inj)

text \<open>A delivery that leaves the first entry of the slot alone, as long as the slot is in use.\<close>

lemma spin_props:
  assumes "spin idx p ds fifo = Some (ds', fifo')"
  shows "length fifo' = length fifo \<and> sf_idx (fifo' ! p) = idx \<and> suffix ds' ds \<and>
    ((\<forall>(q, e) \<in> set ds. q \<noteq> j) \<longrightarrow> fifo' ! j = fifo ! j)"
  using assms
proof (induction idx p ds fifo rule: spin.induct)
  case (1 idx p ds fifo)
  show ?case
  proof (cases "sf_idx (fifo ! p) = idx")
    case True
    then show ?thesis using "1.prems" by (simp add: spin.simps)
  next
    case False
    then obtain q e ds1 where d: "ds = (q, e) # ds1" "spin idx p ds1 (fifo[q := e]) = Some (ds', fifo')"
      using "1.prems" by (auto simp: spin.simps [of idx p ds] split: list.splits if_splits)
    from "1.IH" [OF False d(1) refl d(2)] show ?thesis
      using d(1) by (auto intro: suffix_ConsI)
  qed
qed

declare spin.simps [simp del]

lemma spin_all_props:
  assumes "spin_all idx ps ds fifo = Some (ds', fifo')"
  shows "length fifo' = length fifo \<and> suffix ds' ds \<and> ((\<forall>(q, e) \<in> set ds. q \<noteq> j) \<longrightarrow> fifo' ! j = fifo ! j)"
  using assms
proof (induction idx ps ds fifo rule: spin_all.induct)
  case (1 idx ds fifo)
  then show ?case by simp
next
  case (2 idx p ps ds fifo)
  then obtain ds1 f1 where s: "spin idx p ds fifo = Some (ds1, f1)" "spin_all idx ps ds1 f1 = Some (ds', fifo')"
    by (auto split: option.splits)
  note a = spin_props [OF s(1), of j] and b = "2.IH" [OF s(1) refl s(2)]
  have "set ds1 \<subseteq> set ds" using a by (auto simp: suffix_def)
  with a b show ?case by (auto intro: suffix_order.trans)
qed

section \<open>One matched entry\<close>

lemma send_events_cong:
  "cb_qps b' = cb_qps b \<Longrightarrow> cb_nqps b' = cb_nqps b \<Longrightarrow> cb_qpIndex b' = cb_qpIndex b \<Longrightarrow> cb_ndevs b' = cb_ndevs b \<Longrightarrow>
   send_events pm b' = send_events pm b"
  by (simp add: send_events_def dev_count_def qp_at_def conn_nqps_def)

text \<open>The communicator with the new request \<open>i\<close> in entry \<open>r\<close>.\<close>

definition with_request ::
    "ib_params \<Rightarrow> nat \<Rightarrow> nat \<Rightarrow> nat \<Rightarrow> u64 \<Rightarrow> int \<Rightarrow> ncclIbMrKeys \<Rightarrow> nat \<Rightarrow> ncclIbSendComm \<Rightarrow> ncclIbSendComm" where
  "with_request pm slot n r data sz mh i comm =
     comm\<lparr> sc_base := upd_req i (fill_send_request pm comm (int n) sz data mh)
             (upd_req i (\<lambda>q. q\<lparr> rq_sock := False, rq_devBases := [None, None], rq_events := [0, 0] \<rparr>) (sc_base comm)),
           sc_fifoReqs := (sc_fifoReqs comm)[row slot r := Some i] \<rparr>"

lemma with_request_sel [simp]:
  "sc_fifo (with_request pm slot n r data sz mh i comm) = sc_fifo comm"
  "sc_fifoReqs (with_request pm slot n r data sz mh i comm) = (sc_fifoReqs comm)[row slot r := Some i]"
  "sc_fifoHead (with_request pm slot n r data sz mh i comm) = sc_fifoHead comm"
  "cur_slot (with_request pm slot n r data sz mh i comm) = cur_slot comm"
  "slot_nreqs (with_request pm slot n r data sz mh i comm) = slot_nreqs comm"
  "sc_peer_rank (with_request pm slot n r data sz mh i comm) = sc_peer_rank comm"
  "cb_qpIndex (sc_base (with_request pm slot n r data sz mh i comm)) = cb_qpIndex (sc_base comm)"
  "cb_nqps (sc_base (with_request pm slot n r data sz mh i comm)) = cb_nqps (sc_base comm)"
  "cb_ndevs (sc_base (with_request pm slot n r data sz mh i comm)) = cb_ndevs (sc_base comm)"
  "cb_qps (sc_base (with_request pm slot n r data sz mh i comm)) = cb_qps (sc_base comm)"
  "length (cb_reqs (sc_base (with_request pm slot n r data sz mh i comm))) = length (cb_reqs (sc_base comm))"
  "send_events pm' (sc_base (with_request pm slot n r data sz mh i comm)) = send_events pm' (sc_base comm)"
  by (simp_all add: with_request_def cur_slot_def slot_nreqs_def fun_eq_iff cong: send_events_cong)

lemma get_req_with_request:
  assumes "i < length (cb_reqs (sc_base comm))" "j < length (cb_reqs (sc_base comm))"
  shows "get_req (with_request pm slot n r data sz mh i comm) j =
    (if i = j then fill_send_request pm comm (int n) sz data mh ((get_req comm i)\<lparr> rq_sock := False,
       rq_devBases := [None, None], rq_events := [0, 0] \<rparr>)
     else get_req comm j)"
  using assms by (simp add: with_request_def get_req_def nth_upd_req)

lemma pending_with_request:
  assumes "send_inv pm comm" "i \<in> unused (sc_base comm)" "0 \<le> sz" "sz < 2 ^ 31"
  shows "pending_ok pm (with_request pm slot n r data sz mh i comm) (int n) i"
    "pending_ok pm comm m j \<Longrightarrow> pending_ok pm (with_request pm slot n r data sz mh i comm) m j \<and> j \<noteq> i"
proof -
  have i: "i < length (cb_reqs (sc_base comm))" "rq_type (get_req comm i) = NCCL_NET_IB_REQ_UNUSED"
    and l: "length (cb_reqs (sc_base comm)) = MAX_REQUESTS"
    and q: "cb_qpIndex (sc_base comm) < cb_nqps (sc_base comm)"
    using assms(1,2) by (simp_all add: unused_def get_req_def send_inv_def)
  show "pending_ok pm (with_request pm slot n r data sz mh i comm) (int n) i"
    using assms(3,4) i l q
    by (simp add: pending_ok_def get_req_with_request fill_send_request_sel fill_send_request_events)
  show "pending_ok pm (with_request pm slot n r data sz mh i comm) m j \<and> j \<noteq> i" if "pending_ok pm comm m j"
    using that i l by (auto simp: pending_ok_def get_req_with_request)
qed

lemma send_inv_with_request:
  assumes inv: "send_inv pm comm" and i: "i \<in> unused (sc_base comm)" and sz: "0 \<le> sz" "sz < 2 ^ 31"
    and r: "r < 8" and n: "int n = slot_nreqs comm (cur_slot comm)"
  shows "send_inv pm (with_request pm (cur_slot comm) n r data sz mh i comm)"
proof -
  let ?s = "cur_slot comm"
  let ?c = "with_request pm ?s n r data sz mh i comm"
  have len: "length (sc_fifoReqs comm) = 2048" using inv by (simp add: send_inv_def)
  have nth: "sc_fifoReqs ?c ! row s k = (if s = ?s \<and> k = r then Some i else sc_fifoReqs comm ! row s k)"
    if "s < 256" "k < 8" for s k
    using that len r row_less [OF that] by (auto simp: list_update_nth_cases row_inj)
  have own: "\<forall>k<8. \<forall>j. sc_fifoReqs comm ! row ?s k = Some j \<longrightarrow> pending_ok pm comm (int n) j"
    using inv n by (simp add: send_inv_def)
  note pend = pending_with_request [OF inv i sz, where slot = "cur_slot comm" and n = n and r = r and data = data and mh = mh]
  have "\<forall>s<256. \<forall>k<8. s \<noteq> ?s \<longrightarrow> sc_fifoReqs ?c ! row s k = None"
    using inv nth by (simp add: send_inv_def)
  moreover have "pending_ok pm ?c (int n) j" if "k < 8" "sc_fifoReqs ?c ! row ?s k = Some j" for k j
    using that nth [OF cur_slot_less that(1)] own pend by (auto split: if_splits)
  moreover have "k = k'" if "k < 8" "k' < 8" "sc_fifoReqs ?c ! row ?s k = Some j" "sc_fifoReqs ?c ! row ?s k' = Some j" for k k' j
  proof -
    have ne: "sc_fifoReqs comm ! row ?s x \<noteq> Some i" if "x < 8" for x
      using own pend(2) that by blast
    have "\<forall>k<8. \<forall>k'<8. \<forall>j. sc_fifoReqs comm ! row ?s k = Some j \<longrightarrow> sc_fifoReqs comm ! row ?s k' = Some j \<longrightarrow> k = k'"
      using inv by (simp add: send_inv_def)
    then show ?thesis
      using that ne nth [OF cur_slot_less that(1)] nth [OF cur_slot_less that(2)] by (auto split: if_splits)
  qed
  ultimately show ?thesis using inv n unfolding send_inv_def by simp
qed

text \<open>When every entry has its request, the slot is ready.\<close>

lemma slot_ready:
  assumes inv: "send_inv pm comm" and n: "slot_nreqs comm (cur_slot comm) = int n" "1 \<le> n" "n \<le> 8"
    and all: "\<forall>k < n. sc_fifoReqs comm ! row (cur_slot comm) k \<noteq> None"
  shows "send_ready comm (cur_slot comm) (slot_reqs comm (cur_slot comm) n)"
    "\<forall>i \<in> set (slot_reqs comm (cur_slot comm) n). pending_ok pm comm (int n) i"
proof -
  let ?s = "cur_slot comm" and ?is = "slot_reqs comm (cur_slot comm) n"
  have len: "length ?is = n" by (simp add: slot_reqs_def)
  have nth: "sc_fifoReqs comm ! row ?s k = Some (?is ! k)" if "k < n" for k
    using all that by (auto simp: slot_reqs_def)
  have pend: "pending_ok pm comm (int n) (?is ! k)" if "k < n" for k
  proof -
    have "\<forall>r<8. \<forall>i. sc_fifoReqs comm ! row ?s r = Some i \<longrightarrow> pending_ok pm comm (slot_nreqs comm ?s) i"
      using inv by (simp add: send_inv_def)
    moreover have "k < 8" using that n(3) by simp
    ultimately show ?thesis using nth [OF that] n(1) by simp
  qed
  have "distinct ?is"
    unfolding distinct_conv_nth len
  proof (intro allI impI)
    fix k k' assume k: "k < n" "k' < n" "k \<noteq> k'"
    then have k8: "k < 8" "k' < 8" using n(3) by simp_all
    have "\<forall>r<8. \<forall>r'<8. \<forall>i. sc_fifoReqs comm ! row ?s r = Some i \<longrightarrow> sc_fifoReqs comm ! row ?s r' = Some i \<longrightarrow> r = r'"
      using inv unfolding send_inv_def by blast
    then show "?is ! k \<noteq> ?is ! k'" using nth [OF k(1)] nth [OF k(2)] k8 k(3) by force
  qed
  moreover have "\<forall>i \<in> set ?is. i < MAX_REQUESTS \<and> send_offset (get_req comm i) = 0 \<and>
      0 \<le> send_size (get_req comm i) \<and> send_size (get_req comm i) < 2 ^ 31"
    using pend len unfolding pending_ok_def by (simp add: all_set_conv_all_nth)
  moreover have "?is \<noteq> []" "length ?is \<le> NCCL_NET_IB_MAX_RECVS" using len n by auto
  moreover have "length (cb_reqs (sc_base comm)) = MAX_REQUESTS" "cb_qpIndex (sc_base comm) < cb_nqps (sc_base comm)"
    using inv by (simp_all add: send_inv_def)
  ultimately show "send_ready comm ?s ?is" unfolding send_ready_def len using n(1) by blast
  show "\<forall>i \<in> set ?is. pending_ok pm comm (int n) i"
    using pend len by (simp add: all_set_conv_all_nth)
qed

section \<open>A call\<close>

lemma nth_fold_update:
  "j < length ps \<Longrightarrow> fold (\<lambda>r ps. ps[f r := x]) rs ps ! j = (if j \<in> f ` set rs then x else ps ! j)"
  by (induction rs arbitrary: ps) (auto simp: list_update_nth_cases)

lemma length_fold_update [simp]: "length (fold (\<lambda>r ps. ps[f r := x]) rs ps) = length ps"
  by (induction rs arbitrary: ps) simp_all

lemma clear_slot_sel [simp]:
  "sc_base (clear_slot slot comm) = sc_base comm" "sc_fifoHead (clear_slot slot comm) = sc_fifoHead comm"
  "length (sc_fifo (clear_slot slot comm)) = length (sc_fifo comm)"
  "length (sc_fifoReqs (clear_slot slot comm)) = length (sc_fifoReqs comm)"
  by (simp_all add: clear_slot_def)

lemma clear_slot_reqs:
  assumes "length (sc_fifoReqs comm) = 2048" "s < 256" "k < 8"
  shows "sc_fifoReqs (clear_slot slot comm) ! row s k = (if s = slot then None else sc_fifoReqs comm ! row s k)"
proof -
  have "row s k \<in> row slot ` set [0..<8] \<longleftrightarrow> s = slot"
    using assms(3) by (auto simp: row_inj image_iff)
  then show ?thesis using assms row_less [OF assms(2,3)] by (simp add: clear_slot_def nth_fold_update)
qed

text \<open>After a completed slot nothing is pending.\<close>

lemma send_inv_cleared:
  assumes inv: "send_inv pm comm" and at: "at_chunk (store_sizes comm (cur_slot comm) is) is nqps nqps comm2"
  shows "send_inv pm ((clear_slot (cur_slot comm) comm2)\<lparr> sc_fifoHead := h \<rparr>)"
proof -
  let ?c = "(clear_slot (cur_slot comm) comm2)\<lparr> sc_fifoHead := h \<rparr>"
  note sel = at_chunk_sel [OF at]
  have len: "length (sc_fifoReqs comm2) = 2048" using inv sel(7) by (simp add: send_inv_def)
  have "sc_fifoReqs comm ! row s k = None" if "s < 256" "k < 8" "s \<noteq> cur_slot comm" for s k
    using inv that by (simp add: send_inv_def)
  then have none: "sc_fifoReqs ?c ! row s k = None" if "s < 256" "k < 8" for s k
    using clear_slot_reqs [OF len that] that sel(7) by simp
  have ndevs: "cb_ndevs (sc_base comm2) = cb_ndevs (sc_base comm)" using at by (auto simp: at_chunk_def)
  have q: "cb_qpIndex (sc_base comm2) < cb_nqps (sc_base comm2)"
    using inv sel(4,5) by (simp add: send_inv_def)
  show ?thesis
    using inv none none [OF cur_slot_less] q ndevs sel len unfolding send_inv_def by simp
qed

lemma isend_matched_cases:
  assumes inv: "send_inv pm comm" and sz: "0 \<le> sz" "sz < 2 ^ 31"
    and run: "isend_matched pm v slot n r data sz mh comm w = (res, req, comm', w')" and ok: "\<not> ncclCheckFails res"
  obtains (partial) i sz' k where "i \<in> unused (sc_base comm)" "0 \<le> sz'" "sz' < 2 ^ 31" "req = Some i" "w' = w"
      "comm' = with_request pm slot n r data sz' mh i comm" "k < n" "sc_fifoReqs comm' ! row slot k = None"
  | (complete) i sz' comm2 where "i \<in> unused (sc_base comm)" "0 \<le> sz'" "sz' < 2 ^ 31" "req = Some i"
      "\<forall>k < n. sc_fifoReqs (with_request pm slot n r data sz' mh i comm) ! row slot k \<noteq> None"
      "ncclIbMultiSend pm v slot (with_request pm slot n r data sz' mh i comm) w = (ncclSuccess, comm2, w')"
      "comm' = (clear_slot slot comm2)\<lparr> sc_fifoHead := sc_fifoHead comm2 + 1 \<rparr>"
proof -
  let ?e = "sc_fifo comm ! row slot r"
  define sz' where "sz' = (if sz > sf_size ?e then sf_size ?e else sz)"
  have good: "\<not> bad_recv_info ?e" using run ok by (auto simp: isend_matched_def Let_def)
  then have sz': "0 \<le> sz'" "sz' < 2 ^ 31" using sz by (auto simp: sz'_def bad_recv_info_def)
  show thesis
  proof (cases rule: ncclIbGetRequest_cases [of "sc_base comm"])
    case full
    then show thesis using run ok good by (simp add: isend_matched_def Let_def)
  next
    case (ok i)
    let ?c = "with_request pm slot n r data sz' mh i comm"
    have eq: "comm\<lparr> sc_base := upd_req i (fill_send_request pm comm (int n) sz' data mh)
          (upd_req i (\<lambda>r. r\<lparr> rq_sock := False, rq_devBases := [None, None], rq_events := [0, 0] \<rparr>) (sc_base comm)),
        sc_fifoReqs := (sc_fifoReqs comm)[row slot r := Some i] \<rparr> = ?c"
      by (simp add: with_request_def)
    show thesis
    proof (cases "\<exists>k \<in> set [0..<n]. sc_fifoReqs ?c ! row slot k = None")
      case True
      then obtain k where "k < n" "sc_fifoReqs ?c ! row slot k = None" by auto
      moreover have "req = Some i \<and> w' = w \<and> comm' = ?c"
        using run good True unfolding isend_matched_def sz'_def [symmetric] Let_def ok(3) by (simp add: eq)
      ultimately show thesis using partial [of i sz' k] ok(1) sz' by simp
    next
      case False
      obtain res2 comm2 w2 where ms: "ncclIbMultiSend pm v slot ?c w = (res2, comm2, w2)"
        by (cases "ncclIbMultiSend pm v slot ?c w") auto
      have "isend_matched pm v slot n r data sz mh comm w =
          (if ncclCheckFails res2 then (res2, Some i, comm2, w2)
           else (ncclSuccess, Some i, (clear_slot slot comm2)\<lparr> sc_fifoHead := sc_fifoHead comm2 + 1 \<rparr>, w2))"
        using good False ms unfolding isend_matched_def sz'_def [symmetric] Let_def ok(3)
        by (simp add: eq) fastforce
      then have "\<not> ncclCheckFails res2" "req = Some i" "w' = w2"
          "comm' = (clear_slot slot comm2)\<lparr> sc_fifoHead := sc_fifoHead comm2 + 1 \<rparr>"
        using run assms(5) by (auto split: if_splits)
      moreover have "res2 = ncclSuccess"
        using ms \<open>\<not> ncclCheckFails res2\<close> by (auto simp: ncclIbMultiSend_def Let_def split: if_splits prod.splits)
      moreover have "\<forall>k < n. sc_fifoReqs ?c ! row slot k \<noteq> None" using False by auto
      ultimately show thesis using complete [of i sz' comm2] ok(1) sz' ms by blast
    qed
  qed
qed

text \<open>How a call that does not fail goes: nothing to do, or one entry matched.\<close>

lemma ncclIbIsend_cases:
  assumes run: "ncclIbIsend pm v data sz tag mh ds comm w = Some (res, req, ds', comm', w')" and ok: "\<not> ncclCheckFails res"
    and quiet: "\<forall>(q, e) \<in> set ds. q \<noteq> row (cur_slot comm) 0"
  obtains (idle) fifo where "req = None" "comm' = comm\<lparr> sc_fifo := fifo \<rparr>" "length fifo = length (sc_fifo comm)"
      "fifo ! row (cur_slot comm) 0 = sc_fifo comm ! row (cur_slot comm) 0" "wd_posts w' = wd_posts w"
  | (matched) fifo r w1 where "length fifo = length (sc_fifo comm)"
      "fifo ! row (cur_slot comm) 0 = sc_fifo comm ! row (cur_slot comm) 0" "wd_posts w1 = wd_posts w"
      "r < nat (slot_nreqs comm (cur_slot comm))"
      "isend_matched pm v (cur_slot comm) (nat (slot_nreqs comm (cur_slot comm))) r data sz mh (comm\<lparr> sc_fifo := fifo \<rparr>) w1
         = (res, req, comm', w')"
proof (cases "sf_idx (sc_fifo comm ! row (cur_slot comm) 0) = sc_fifoHead comm + 1 \<and> cb_ready (sc_base comm) \<noteq> 0")
  case False
  then have "req = None \<and> comm' = comm \<and> w' = w"
    using run ok by (auto simp: ncclIbIsend_def Let_def split: if_splits)
  then show thesis using idle [of "sc_fifo comm"] by simp
next
  case True
  let ?s = "cur_slot comm" and ?n = "nat (slot_nreqs comm (cur_slot comm))"
  obtain ds1 fifo where sp: "spin_all (sc_fifoHead comm + 1) (map (row ?s) [1..<?n]) ds (sc_fifo comm) = Some (ds1, fifo)"
    using run True by (auto simp: ncclIbIsend_def Let_def split: option.splits)
  have f: "length fifo = length (sc_fifo comm)" "fifo ! row ?s 0 = sc_fifo comm ! row ?s 0"
    using spin_all_props [OF sp, of "row ?s 0"] quiet by simp_all
  show thesis
  proof (cases "find_match (comm\<lparr> sc_fifo := fifo \<rparr>) ?s ?n tag")
    case None
    then show thesis using run True sp idle [of fifo] f by (auto simp: ncclIbIsend_def Let_def)
  next
    case (Some r)
    then have "r < ?n" by (auto simp: find_match_def dest: find_index_Some)
    moreover have "isend_matched pm v ?s ?n r data sz mh (comm\<lparr> sc_fifo := fifo \<rparr>) (ib_inc UNET_IB_FIFO_RECV_COUNT w)
        = (res, req, comm', w')"
      using run True sp Some by (auto simp: ncclIbIsend_def Let_def split: prod.splits)
    ultimately show thesis using matched [of fifo "ib_inc UNET_IB_FIFO_RECV_COUNT w" r] f by simp
  qed
qed

lemma fifo_update_inv:
  assumes "length fifo = length (sc_fifo comm)" "fifo ! row (cur_slot comm) 0 = sc_fifo comm ! row (cur_slot comm) 0"
  shows "send_inv pm (comm\<lparr> sc_fifo := fifo \<rparr>) = send_inv pm comm"
    "slot_nreqs (comm\<lparr> sc_fifo := fifo \<rparr>) (cur_slot comm) = slot_nreqs comm (cur_slot comm)"
    "cur_slot (comm\<lparr> sc_fifo := fifo \<rparr>) = cur_slot comm"
  using assms by (simp_all add: send_inv_def cur_slot_def slot_nreqs_def pending_ok_def get_req_def)

lemma conn_nqps_cong:
  "cb_nqps b' = cb_nqps b \<Longrightarrow> cb_ndevs b' = cb_ndevs b \<Longrightarrow> conn_nqps pm b' = conn_nqps pm b"
  by (simp add: conn_nqps_def)

lemma qp_at_cong:
  "cb_qps b' = cb_qps b \<Longrightarrow> cb_nqps b' = cb_nqps b \<Longrightarrow> cb_qpIndex b' = cb_qpIndex b \<Longrightarrow> qp_at b' = qp_at b"
  by (simp add: qp_at_def fun_eq_iff)

text \<open>
  The two outcomes of a call that does not fail: the slot still waits, or all its requests went
  out. In the second case \<open>d\<close> is the communicator \<^verbatim>\<open>ncclIbMultiSend\<close> was called on.
\<close>

lemma isend_outcome:
  assumes inv: "send_inv pm comm" and n8: "slot_nreqs comm (cur_slot comm) \<le> 8"
    and sz: "0 \<le> sz" "sz < 2 ^ 31" and quiet: "\<forall>(q, e) \<in> set ds. q \<noteq> row (cur_slot comm) 0"
    and run: "ncclIbIsend pm v data sz tag mh ds comm w = Some (res, req, ds', comm', w')" and ok: "\<not> ncclCheckFails res"
  obtains (waits) "sc_fifoHead comm' = sc_fifoHead comm" "send_inv pm comm'" "wd_posts w' = wd_posts w"
  | (sent) d w1 comm2 "is" where "send_inv pm d" "cur_slot d = cur_slot comm" "send_ready d (cur_slot comm) is"
      "int (length is) = slot_nreqs comm (cur_slot comm)" "\<forall>i \<in> set is. pending_ok pm d (int (length is)) i"
      "req \<in> Some ` set is" "wd_posts w1 = wd_posts w"
      "conn_nqps pm (sc_base d) = conn_nqps pm (sc_base comm)" "qp_at (sc_base d) = qp_at (sc_base comm)"
      "ncclIbMultiSend pm v (cur_slot comm) d w1 = (ncclSuccess, comm2, w')"
      "comm' = (clear_slot (cur_slot comm) comm2)\<lparr> sc_fifoHead := sc_fifoHead comm2 + 1 \<rparr>"
  using run ok quiet
proof (cases rule: ncclIbIsend_cases)
  case (idle fifo)
  then show ?thesis using waits inv fifo_update_inv(1) by simp
next
  case (matched fifo r w1)
  let ?c = "comm\<lparr> sc_fifo := fifo \<rparr>" and ?s = "cur_slot comm" and ?n = "nat (slot_nreqs comm (cur_slot comm))"
  note f = fifo_update_inv [OF matched(1,2)]
  have inv1: "send_inv pm ?c" using inv f(1) by simp
  have r: "r < 8" "int ?n = slot_nreqs ?c (cur_slot ?c)" "1 \<le> ?n" "?n \<le> 8" using matched(4) n8 f by auto
  from inv1 sz matched(5) ok show ?thesis
  proof (cases rule: isend_matched_cases)
    case (partial i sz' k)
    then show ?thesis using waits send_inv_with_request [OF inv1 _ _ _ r(1,2)] f(3) matched(3) by simp
  next
    case (complete i sz' comm2)
    let ?d = "with_request pm ?s ?n r data sz' mh i ?c"
    let ?is = "slot_reqs ?d ?s ?n"
    have inv2: "send_inv pm ?d" using send_inv_with_request [OF inv1 complete(1-3) r(1,2)] f(3) by simp
    have ready: "send_ready ?d ?s ?is" and pend: "\<forall>j \<in> set ?is. pending_ok pm ?d (int ?n) j"
      using slot_ready [OF inv2 _ r(3,4)] complete(5) r(2) f by simp_all
    have len: "length ?is = ?n" by (simp add: slot_reqs_def)
    have nq: "conn_nqps pm (sc_base ?d) = conn_nqps pm (sc_base comm)" "qp_at (sc_base ?d) = qp_at (sc_base comm)"
      by (rule conn_nqps_cong qp_at_cong; simp)+
    have "?is ! r = i" using matched(4) inv cur_slot_less row_less [of ?s r] r(1)
      by (simp add: slot_reqs_def send_inv_def)
    then have "i \<in> set ?is" using len matched(4) nth_mem by metis
    then have "req \<in> Some ` set ?is" using complete(4) by simp
    moreover have "int (length ?is) = slot_nreqs comm ?s" using len r(3) by simp
    moreover have "\<forall>j \<in> set ?is. pending_ok pm ?d (int (length ?is)) j" using pend len by simp
    moreover have "cur_slot ?d = ?s" using f(3) by simp
    ultimately show ?thesis using sent [OF inv2 _ ready _ _ _ matched(3) nq complete(6,7)] by blast
  qed
qed

text \<open>
  C17: \<^verbatim>\<open>ncclIbIsend\<close> keeps the invariant of the sending communicator: every request waiting for
  the rest of its slot is in the table once, unsent, and counts the events of the round that will
  send it; no other slot has requests.
\<close>
theorem isend_keeps_inv:
  assumes inv: "send_inv pm comm" and n8: "slot_nreqs comm (cur_slot comm) \<le> 8"
    and sz: "0 \<le> sz" "sz < 2 ^ 31" and quiet: "\<forall>(q, e) \<in> set ds. q \<noteq> row (cur_slot comm) 0"
    and run: "ncclIbIsend pm v data sz tag mh ds comm w = Some (res, req, ds', comm', w')" and ok: "\<not> ncclCheckFails res"
  shows "send_inv pm comm'"
  using assms
proof (cases rule: isend_outcome)
  case waits
  then show ?thesis by simp
next
  case (sent d w1 comm2 "is")
  have "at_chunk (store_sizes d (cur_slot d) is) is (conn_nqps pm (sc_base d)) (conn_nqps pm (sc_base d)) comm2"
    using multi_send_closed(3) [OF sent(3,10)] sent(2) by simp
  from send_inv_cleared [OF sent(1) this] show ?thesis using sent(2,11) by simp
qed

text \<open>What a chain looks like to the completion side, from the closed form.\<close>

lemma multi_send_ops:
  assumes "send_ready comm slot is" "ncclIbMultiSend pm v slot comm w = (ncclSuccess, comm', w')"
  shows "length (new_posts w w') = conn_nqps pm (sc_base comm)"
    "k < conn_nqps pm (sc_base comm) \<Longrightarrow> op_qp (new_posts w w' ! k) = qp_handle (qp_at (sc_base comm) k) \<and>
       wr_id (last (op_wrs (new_posts w w' ! k))) = encode_wr_id is"
    "i < MAX_REQUESTS \<Longrightarrow> rq_type (get_req comm' i) = rq_type (get_req comm i) \<and>
       rq_events (get_req comm' i) = rq_events (get_req comm i) \<and> rq_nreqs (get_req comm' i) = rq_nreqs (get_req comm i)"
proof -
  let ?n = "conn_nqps pm (sc_base comm)" and ?ch = "build_chain pm comm slot is"
  have ne: "is \<noteq> []" using assms(1) by (simp add: send_ready_def)
  have posts: "new_posts w w' = map (chunk_op comm slot is ?n ?ch) [0..<?n]"
    using multi_send_closed(2) [OF assms] by (simp add: new_posts_append)
  then show "length (new_posts w w') = ?n" by simp
  have keys: "map wr_key (chunk_wrs comm slot is ?n ?ch k) = replicate (length is - (if has_extra pm comm is then 0 else 1))
      (0, IBV_WR_RDMA_WRITE, False, 0) @ [(encode_wr_id is, IBV_WR_RDMA_WRITE_WITH_IMM, True, send_imm comm is)]" for k
    using chunk_wrs_keys [of ?ch "is" comm slot ?n k] build_chain_keys [OF ne, of pm comm slot] by simp
  have "chunk_wrs comm slot is ?n ?ch k \<noteq> []" for k using keys [of k] by auto
  then have "wr_key (last (chunk_wrs comm slot is ?n ?ch k)) =
      (encode_wr_id is, IBV_WR_RDMA_WRITE_WITH_IMM, True, send_imm comm is)" for k
    using keys [of k] by (metis last_map last_snoc)
  then show "op_qp (new_posts w w' ! k) = qp_handle (qp_at (sc_base comm) k) \<and>
      wr_id (last (op_wrs (new_posts w w' ! k))) = encode_wr_id is" if "k < ?n"
    using that posts by (simp add: chunk_op_def wr_key_def)
  have "at_chunk (store_sizes comm slot is) is ?n ?n comm'" using multi_send_closed(3) [OF assms] by simp
  then show "rq_type (get_req comm' i) = rq_type (get_req comm i) \<and> rq_events (get_req comm' i) = rq_events (get_req comm i) \<and>
      rq_nreqs (get_req comm' i) = rq_nreqs (get_req comm i)" if "i < MAX_REQUESTS"
    using that assms(1) by (auto simp: at_chunk_def get_req_def send_ready_def)
qed

text \<open>
  C5: when a call completes its slot, it has posted one chain per queue pair of the round, every
  chain carries the identifiers of the requests of the slot, and every one of these requests
  counts for each device exactly the chains posted on that device's queue pairs: the number of
  completions that will name it. The request the call returns is one of them.
\<close>
theorem isend_event_accounting:
  assumes inv: "send_inv pm comm" and n8: "slot_nreqs comm (cur_slot comm) \<le> 8"
    and sz: "0 \<le> sz" "sz < 2 ^ 31" and quiet: "\<forall>(q, e) \<in> set ds. q \<noteq> row (cur_slot comm) 0"
    and run: "ncclIbIsend pm v data sz tag mh ds comm w = Some (ncclSuccess, req, ds', comm', w')"
    and sent: "sc_fifoHead comm' \<noteq> sc_fifoHead comm"
  shows "\<exists>is. int (length is) = slot_nreqs comm (cur_slot comm) \<and> distinct is \<and> req \<in> Some ` set is \<and>
    length (new_posts w w') = conn_nqps pm (sc_base comm) \<and>
    (\<forall>k < length (new_posts w w'). op_qp (new_posts w w' ! k) = qp_handle (qp_at (sc_base comm) k) \<and>
       map (decode_wr_id (wr_id (last (op_wrs (new_posts w w' ! k))))) [0..<length is] = is) \<and>
    (\<forall>i \<in> set is. rq_type (get_req comm' i) = NCCL_NET_IB_REQ_SEND \<and> rq_nreqs (get_req comm' i) = int (length is) \<and>
       rq_events (get_req comm' i) = map (\<lambda>d. int (dev_count (sc_base comm) (length (new_posts w w')) d)) [0, 1])"
proof -
  have ok: "\<not> ncclCheckFails ncclSuccess" by simp
  from inv n8 sz quiet run ok show ?thesis
  proof (cases rule: isend_outcome)
    case waits
    then show ?thesis using sent by simp
  next
    case (sent d w1 comm2 "is")
    have small: "\<forall>j \<in> set is. j < 256" using sent(5) by (simp add: pending_ok_def)
    have new: "new_posts w1 w' = new_posts w w'" using sent(7) by (simp add: new_posts_def)
    note ops = multi_send_ops [OF sent(3,10), unfolded new sent(8,9)]
    have 2: "op_qp (new_posts w w' ! k) = qp_handle (qp_at (sc_base comm) k) \<and>
        map (decode_wr_id (wr_id (last (op_wrs (new_posts w w' ! k))))) [0..<length is] = is"
      if "k < length (new_posts w w')" for k
    proof -
      have "length is \<le> 8" using sent(4) n8 by simp
      then have "map (decode_wr_id (encode_wr_id is)) [0..<length is] = is"
        by (intro nth_equalityI) (simp_all add: decode_encode [OF small])
      then show ?thesis using ops(2) [of k] that ops(1) by simp
    qed
    have 3: "rq_type (get_req comm' j) = NCCL_NET_IB_REQ_SEND \<and> rq_nreqs (get_req comm' j) = int (length is) \<and>
        rq_events (get_req comm' j) = map (\<lambda>d. int (dev_count (sc_base comm) (length (new_posts w w')) d)) [0, 1]"
      if "j \<in> set is" for j
    proof -
      have "get_req comm' j = get_req comm2 j" using sent(11) by (simp add: get_req_def)
      moreover have "dev_count (sc_base d) = dev_count (sc_base comm)"
        using sent(9) by (simp add: dev_count_def fun_eq_iff)
      ultimately show ?thesis
        using ops(3) [of j] sent(5,8) that ops(1) unfolding pending_ok_def by (simp add: send_events_def)
    qed
    have "distinct is" using sent(3) by (simp add: send_ready_def)
    then show ?thesis using sent(4,6) 2 3 ops(1) by blast
  qed
qed

section \<open>A send that goes through\<close>

text \<open>
  The head entry is the receiver's offer number \<open>fifoHead + 1\<close>, for a single receive with this
  tag, and there is a request left.
\<close>

definition offer_ready :: "ncclIbSendComm \<Rightarrow> int \<Rightarrow> bool" where
  "offer_ready comm tag \<longleftrightarrow> (let e = sc_fifo comm ! row (cur_slot comm) 0 in
     cb_ready (sc_base comm) \<noteq> 0 \<and> sf_idx e = sc_fifoHead comm + 1 \<and> slot_nreqs comm (cur_slot comm) = 1 \<and>
     sc_fifoReqs comm ! row (cur_slot comm) 0 = None \<and> sf_tag e = word_of_int tag \<and> \<not> bad_recv_info e \<and>
     unused (sc_base comm) \<noteq> {})"

lemma isend_single:
  assumes inv: "send_inv pm comm" and off: "offer_ready comm tag" and sz: "0 \<le> sz" "sz < 2 ^ 31"
    and v: "\<forall>h p. v h p = ncclSuccess"
  obtains i sz' comm2 w' where "i \<in> unused (sc_base comm)"
    "sz' = min sz (sf_size (sc_fifo comm ! row (cur_slot comm) 0))"
    "send_ready (with_request pm (cur_slot comm) 1 0 data sz' mh i comm) (cur_slot comm) [i]"
    "ncclIbMultiSend pm v (cur_slot comm) (with_request pm (cur_slot comm) 1 0 data sz' mh i comm)
       (ib_inc UNET_IB_FIFO_RECV_COUNT w) = (ncclSuccess, comm2, w')"
    "ncclIbIsend pm v data sz tag mh ds comm w = Some (ncclSuccess, Some i, ds,
       (clear_slot (cur_slot comm) comm2)\<lparr> sc_fifoHead := sc_fifoHead comm2 + 1 \<rparr>, w')"
    "sc_fifoHead comm2 = sc_fifoHead comm"
proof -
  let ?s = "cur_slot comm" and ?e = "sc_fifo comm ! row (cur_slot comm) 0"
  define sz' where "sz' = (if sz > sf_size ?e then sf_size ?e else sz)"
  have good: "\<not> bad_recv_info ?e" using off by (simp add: offer_ready_def Let_def)
  have sz': "0 \<le> sz'" "sz' < 2 ^ 31" "sz' = min sz (sf_size ?e)"
    using sz good by (auto simp: sz'_def bad_recv_info_def)
  obtain i where i: "i \<in> unused (sc_base comm)" "ncclIbGetRequest (sc_base comm) = (ncclSuccess,
      upd_req i (\<lambda>r. r\<lparr> rq_sock := False, rq_devBases := [None, None], rq_events := [0, 0] \<rparr>) (sc_base comm), Some i)"
    using off by (cases rule: ncclIbGetRequest_cases [of "sc_base comm"]) (auto simp: offer_ready_def Let_def)
  let ?d = "with_request pm ?s 1 0 data sz' mh i comm"
  have n: "slot_nreqs comm ?s = 1" using off by (simp add: offer_ready_def Let_def)
  have inv2: "send_inv pm ?d" using send_inv_with_request [OF inv i(1) sz'(1,2), of 0 1] n by simp
  have r0: "row ?s 0 < length (sc_fifoReqs comm)" using inv row_less [OF cur_slot_less, of 0] by (simp add: send_inv_def)
  have "slot_reqs ?d ?s 1 = [i]" using r0 by (simp add: slot_reqs_def)
  then have ready: "send_ready ?d ?s [i]" using slot_ready(1) [OF inv2, of 1] n r0 by simp
  obtain comm2 w' where ms: "ncclIbMultiSend pm v ?s ?d (ib_inc UNET_IB_FIFO_RECV_COUNT w) = (ncclSuccess, comm2, w')"
    using multi_send_total [OF ready v, of pm "ib_inc UNET_IB_FIFO_RECV_COUNT w"] by blast
  have eq: "comm\<lparr> sc_base := upd_req i (fill_send_request pm comm 1 sz' data mh)
          (upd_req i (\<lambda>r. r\<lparr> rq_sock := False, rq_devBases := [None, None], rq_events := [0, 0] \<rparr>) (sc_base comm)),
        sc_fifoReqs := (sc_fifoReqs comm)[row ?s 0 := Some i] \<rparr> = ?d"
    by (simp add: with_request_def)
  have "isend_matched pm v ?s 1 0 data sz mh comm (ib_inc UNET_IB_FIFO_RECV_COUNT w) =
      (ncclSuccess, Some i, (clear_slot ?s comm2)\<lparr> sc_fifoHead := sc_fifoHead comm2 + 1 \<rparr>, w')"
    using good ms r0 unfolding isend_matched_def sz'_def [symmetric] Let_def i(2) by (simp add: eq)
  then have run: "ncclIbIsend pm v data sz tag mh ds comm w = Some (ncclSuccess, Some i, ds,
      (clear_slot ?s comm2)\<lparr> sc_fifoHead := sc_fifoHead comm2 + 1 \<rparr>, w')"
    using off by (simp add: ncclIbIsend_def offer_ready_def Let_def find_match_def)
  have "sc_fifoHead comm2 = sc_fifoHead comm"
    using at_chunk_sel(8) [OF multi_send_closed(3) [OF ready ms]] by simp
  then show thesis using that [of i sz' comm2 w'] i(1) sz'(3) ready ms run by blast
qed

text \<open>
  C3: when the receiver's offer for a single receive is there, its tag matches and the card takes
  the work, \<^verbatim>\<open>ncclIbIsend\<close> returns a request, moves to the next slot, and all the work it
  posted puts the first \<open>min(size, offered size)\<close> bytes of the buffer at the offered address and
  changes nothing else, unless that number of bytes is so close to \<open>2^31\<close> that the arithmetic of the chunks overflows.
\<close>
theorem isend_delivers:
  assumes "send_inv pm comm" "offer_ready comm tag" "0 \<le> sz" "sz < 2 ^ 31" "\<forall>h p. v h p = ncclSuccess"
    "chunks_fit (min sz (sf_size (sc_fifo comm ! row (cur_slot comm) 0))) (conn_nqps pm (sc_base comm))"
  shows "\<exists>i comm' w'. ncclIbIsend pm v data sz tag mh ds comm w = Some (ncclSuccess, Some i, ds, comm', w') \<and>
    sc_fifoHead comm' = sc_fifoHead comm + 1 \<and> i \<in> unused (sc_base comm) \<and>
    rdma_writes src (new_posts w w') dst =
      copied src data (nat (min sz (sf_size (sc_fifo comm ! row (cur_slot comm) 0))))
        (sf_addr (sc_fifo comm ! row (cur_slot comm) 0)) dst"
proof -
  obtain i sz' comm2 w' where i: "i \<in> unused (sc_base comm)"
    and sz': "sz' = min sz (sf_size (sc_fifo comm ! row (cur_slot comm) 0))"
    and ready: "send_ready (with_request pm (cur_slot comm) 1 0 data sz' mh i comm) (cur_slot comm) [i]"
    and ms: "ncclIbMultiSend pm v (cur_slot comm) (with_request pm (cur_slot comm) 1 0 data sz' mh i comm)
       (ib_inc UNET_IB_FIFO_RECV_COUNT w) = (ncclSuccess, comm2, w')"
    and run: "ncclIbIsend pm v data sz tag mh ds comm w = Some (ncclSuccess, Some i, ds,
       (clear_slot (cur_slot comm) comm2)\<lparr> sc_fifoHead := sc_fifoHead comm2 + 1 \<rparr>, w')"
    and head: "sc_fifoHead comm2 = sc_fifoHead comm"
    by (rule isend_single [OF assms(1-5)])
  let ?d = "with_request pm (cur_slot comm) 1 0 data sz' mh i comm"
  have nq: "0 < conn_nqps pm (sc_base ?d)" "conn_nqps pm (sc_base ?d) = conn_nqps pm (sc_base comm)"
    using assms(1) by (auto simp: conn_nqps_def send_inv_def)
  have "i < length (cb_reqs (sc_base comm))" using i by (simp add: unused_def)
  then have rq: "send_data (get_req ?d i) = data" "send_size (get_req ?d i) = sz'"
    by (simp_all add: get_req_with_request fill_send_request_sel)
  have "rdma_writes src (new_posts (ib_inc UNET_IB_FIFO_RECV_COUNT w) w') dst =
      copied src data (nat sz') (sf_addr (sc_fifo comm ! row (cur_slot comm) 0)) dst"
    using multi_send_copies_one [OF ready nq(1) ms, of src dst] rq nq(2) assms(6) sz' by simp
  then show ?thesis using run head i sz' by (simp add: new_posts_def)
qed

section \<open>A concrete call\<close>

definition example_offer_comm :: ncclIbSendComm where
  "example_offer_comm = example_send_comm\<lparr> sc_base := (sc_base example_send_comm)
      \<lparr> cb_reqs := replicate MAX_REQUESTS idle_request \<rparr>, sc_fifoReqs := replicate 2048 None \<rparr>"

lemma example_offer_sel:
  "sc_fifo example_offer_comm = sc_fifo example_send_comm" "cur_slot example_offer_comm = 0"
  "slot_nreqs example_offer_comm 0 = 1" "sc_fifoHead example_offer_comm = 0"
  "conn_nqps example_params (sc_base example_offer_comm) = 2"
  by (simp_all add: example_offer_comm_def cur_slot_def slot_nreqs_def row_def example_send_fifo0 conn_nqps_def
      example_params_def example_send_sel) (simp add: example_send_comm_def)+

lemma example_offer_unused: "unused (sc_base example_offer_comm) = {..<MAX_REQUESTS}"
  by (auto simp: unused_def example_offer_comm_def idle_request_def)

lemma example_offer_inv: "send_inv example_params example_offer_comm"
proof -
  have none: "sc_fifoReqs example_offer_comm ! row s r = None" if "s < 256" "r < 8" for s r
    using row_less [OF that] by (simp add: example_offer_comm_def)
  have "length (cb_reqs (sc_base example_offer_comm)) = MAX_REQUESTS" "length (sc_fifoReqs example_offer_comm) = 2048"
    "length (sc_fifo example_offer_comm) = 2048" "cb_qpIndex (sc_base example_offer_comm) < cb_nqps (sc_base example_offer_comm)"
    "0 < cb_ndevs (sc_base example_offer_comm)"
    by (simp_all add: example_offer_comm_def example_send_comm_def example_base_def)
  then show ?thesis using none none [OF cur_slot_less] unfolding send_inv_def by simp
qed

lemma example_offer_ready: "offer_ready example_offer_comm 9"
  unfolding offer_ready_def Let_def example_offer_sel
  by (simp add: row_def example_send_fifo0 bad_recv_info_def example_offer_unused example_offer_sel lessThan_empty_iff)
    (simp add: example_offer_comm_def example_send_comm_def example_base_def)

lemma example_offer_run:
  obtains i comm' w' where
    "ncclIbIsend example_params (\<lambda>_ _. ncclSuccess) 4096 2000 9 mh [] example_offer_comm example_world =
       Some (ncclSuccess, Some i, [], comm', w')"
    "sc_fifoHead comm' = 1"
  by (rule isend_single [OF example_offer_inv example_offer_ready, of 2000 "\<lambda>_ _. ncclSuccess" 4096 mh example_world "[]"])
    (simp_all add: example_offer_sel)

theorem isend_delivers_witness:
  "\<exists>i comm' w'. ncclIbIsend example_params (\<lambda>_ _. ncclSuccess) 4096 2000 9 \<lparr> mk_lkeys = [1, 2], mk_rkeys = [3, 4] \<rparr> []
       example_offer_comm example_world = Some (ncclSuccess, Some i, [], comm', w') \<and>
     rdma_writes (\<lambda>a. ucast a) (new_posts example_world w') (\<lambda>_. 0) =
       copied (\<lambda>a. ucast a) 4096 1000 8192 (\<lambda>_. 0)"
  using isend_delivers [OF example_offer_inv example_offer_ready, of 2000 "\<lambda>_ _. ncclSuccess" 4096
      "\<lparr> mk_lkeys = [1, 2], mk_rkeys = [3, 4] \<rparr>" "[]" example_world "\<lambda>a. ucast a" "\<lambda>_. 0"]
  by (simp add: example_offer_sel row_def example_send_fifo0 chunks_fit_def) blast

theorem isend_keeps_inv_witness:
  "\<exists>i comm' w'. ncclIbIsend example_params (\<lambda>_ _. ncclSuccess) 4096 2000 9 \<lparr> mk_lkeys = [1, 2], mk_rkeys = [3, 4] \<rparr> []
       example_offer_comm example_world = Some (ncclSuccess, Some i, [], comm', w') \<and> send_inv example_params comm'"
proof -
  obtain i comm' w' where r: "ncclIbIsend example_params (\<lambda>_ _. ncclSuccess) 4096 2000 9 \<lparr> mk_lkeys = [1, 2], mk_rkeys = [3, 4] \<rparr> []
       example_offer_comm example_world = Some (ncclSuccess, Some i, [], comm', w')"
    by (rule example_offer_run)
  from isend_keeps_inv [OF example_offer_inv _ _ _ _ r] r show ?thesis by (simp add: example_offer_sel)
qed

theorem isend_event_accounting_witness:
  "\<exists>i comm' w'. ncclIbIsend example_params (\<lambda>_ _. ncclSuccess) 4096 2000 9 \<lparr> mk_lkeys = [1, 2], mk_rkeys = [3, 4] \<rparr> []
       example_offer_comm example_world = Some (ncclSuccess, Some i, [], comm', w') \<and>
     length (new_posts example_world w') = 2 \<and> rq_events (get_req comm' i) = [2, 0]"
proof -
  obtain i comm' w' where r: "ncclIbIsend example_params (\<lambda>_ _. ncclSuccess) 4096 2000 9 \<lparr> mk_lkeys = [1, 2], mk_rkeys = [3, 4] \<rparr> []
       example_offer_comm example_world = Some (ncclSuccess, Some i, [], comm', w')" and h: "sc_fifoHead comm' = 1"
    by (rule example_offer_run)
  have dev: "dev_count (sc_base example_offer_comm) 2 0 = 2" "dev_count (sc_base example_offer_comm) 2 1 = 0"
    by (simp_all add: dev_count_def qp_at_def example_offer_comm_def example_send_comm_def example_base_def
        numeral_2_eq_2)
  from isend_event_accounting [OF example_offer_inv _ _ _ _ r] h dev r show ?thesis
    by (auto simp: example_offer_sel)
qed

end
