(* ===== verification/IbTest.thy ===== *)
theory IbTest
  imports Isend
begin

text \<open>
  \<^verbatim>\<open>ncclIbTest\<close> of \<^verbatim>\<open>src/unet/unet_ib.cc\<close>: polling the completion queues and accounting the
  completions to the requests they name. The completion queue of a device is the list of what
  the next polls of it return; an exhausted list is an empty queue. The counts of fatal errors,
  which another thread raises, are those at the time of the call.
\<close>

section \<open>Definitions\<close>

datatype ibv_wc_opcode = IBV_WC_RECV_RDMA_WITH_IMM | IBV_WC_SEND_SIDE

record ibv_wc =
  wc_ok :: bool              \<comment> \<open>\<open>status == IBV_WC_SUCCESS\<close>\<close>
  wc_wr_id :: u64
  wc_opcode :: ibv_wc_opcode
  wc_imm :: u32

text \<open>The state of a communicator that the call reads and writes, whichever its direction.\<close>

record test_state =
  ts_base :: ncclIbNetCommBase
  ts_sizesFifo :: "int list"
  ts_world :: world
  ts_cqs :: "nat \<Rightarrow> (ncclResult \<times> ibv_wc list) list"

definition dec_event :: "nat \<Rightarrow> ncclIbRequest \<Rightarrow> ncclIbRequest" where
  "dec_event i r = r\<lparr> rq_events := (rq_events r)[i := rq_events r ! i - 1] \<rparr>"

definition wc_req :: "ibv_wc \<Rightarrow> ncclIbNetCommBase \<Rightarrow> ncclIbRequest" where
  "wc_req wc b = cb_reqs b ! decode_wr_id (wc_wr_id wc) 0"

text \<open>The loop over the requests a chain completes.\<close>

fun complete_sends :: "nat \<Rightarrow> u64 \<Rightarrow> nat list \<Rightarrow> ncclIbNetCommBase \<Rightarrow> ncclResult \<times> ncclIbNetCommBase" where
  "complete_sends i wid [] b = (ncclSuccess, b)"
| "complete_sends i wid (j # js) b =
     (let s = decode_wr_id wid j in
      if rq_events (cb_reqs b ! s) ! i \<le> 0 then (ncclInternalError, b)
      else complete_sends i wid js (upd_req s (dec_event i) b))"

definition handle_wc :: "ib_params \<Rightarrow> nat \<Rightarrow> ibv_wc \<Rightarrow> test_state \<Rightarrow> ncclResult \<times> test_state" where
  "handle_wc pm i wc st =
     (if \<not> wc_ok wc then (ncclRemoteError, st\<lparr> ts_world := ib_inc UNET_IB_CPL_ERR_COUNT (ts_world st) \<rparr>)
      else
        let st = st\<lparr> ts_world := ib_inc UNET_IB_CPL_COUNT (ts_world st) \<rparr>;
            k = decode_wr_id (wc_wr_id wc) 0;
            req = wc_req wc (ts_base st)
        in if rq_type req = NCCL_NET_IB_REQ_SEND
           then let (res, b) = complete_sends i (wc_wr_id wc) [0..<nat (rq_nreqs req)] (ts_base st);
                    st = st\<lparr> ts_base := b \<rparr>
                in if ncclCheckFails res then (res, st)
                   else (ncclSuccess, st\<lparr> ts_world :=
                          bw_add (UNET_BW_CPL_BYTES_BY_RANK pm (rq_peer_rank req)) (word_of_int (send_size req)) (ts_world st) \<rparr>)
           else if wc_opcode wc = IBV_WC_RECV_RDMA_WITH_IMM \<and> rq_type req \<noteq> NCCL_NET_IB_REQ_RECV
           then (ncclInternalError, st)
           else let st = (if wc_opcode wc = IBV_WC_RECV_RDMA_WITH_IMM \<and> rq_nreqs req = 1
                          then st\<lparr> ts_sizesFifo := (ts_sizesFifo st)[row (recv_sizes req) 0 := sint (wc_imm wc)] \<rparr>
                          else st)
                in (ncclSuccess, st\<lparr> ts_base := upd_req k (dec_event i) (ts_base st) \<rparr>))"

fun handle_wcs :: "ib_params \<Rightarrow> nat \<Rightarrow> ibv_wc list \<Rightarrow> test_state \<Rightarrow> ncclResult \<times> test_state" where
  "handle_wcs pm i [] st = (ncclSuccess, st)"
| "handle_wcs pm i (wc # wcs) st =
     (let (res, st) = handle_wc pm i wc st in
      if ncclCheckFails res then (res, st) else handle_wcs pm i wcs st)"

definition poll_cq :: "nat \<Rightarrow> test_state \<Rightarrow> ncclResult \<times> ibv_wc list \<times> test_state" where
  "poll_cq i st =
     (case ts_cqs st i of
        [] \<Rightarrow> (ncclSuccess, [], st)
      | (res, wcs) # rest \<Rightarrow> (res, take 4 wcs, st\<lparr> ts_cqs := (ts_cqs st)(i := rest) \<rparr>))"

text \<open>One device of a pass; the number is how many completions it yielded.\<close>

definition test_dev :: "ib_params \<Rightarrow> (nat \<Rightarrow> int) \<Rightarrow> nat \<Rightarrow> nat \<Rightarrow> test_state \<Rightarrow> ncclResult \<times> nat \<times> test_state" where
  "test_dev pm devFatal r i st =
     (if rq_events (cb_reqs (ts_base st) ! r) ! i = 0 then (ncclSuccess, 0, st)
      else let (res, wcs, st) = poll_cq i st in
           if ncclCheckFails res then (res, 0, st)
           else if wcs = [] then (ncclSuccess, 0, st)
           else let (res, st) = handle_wcs pm i wcs st in
                if ncclCheckFails res then (res, length wcs, st)
                else (ncclIbStatsCheckFatalCount pm (devFatal i), length wcs, st))"

definition test_pass :: "ib_params \<Rightarrow> (nat \<Rightarrow> int) \<Rightarrow> nat \<Rightarrow> test_state \<Rightarrow> ncclResult \<times> nat \<times> test_state" where
  "test_pass pm devFatal r st =
     (let (res, n, st) = test_dev pm devFatal r 0 st in
      if ncclCheckFails res then (res, n, st)
      else let (res, n', st) = test_dev pm devFatal r 1 st in (res, n + n', st))"

definition cq_work :: "test_state \<Rightarrow> nat" where
  "cq_work st = length (ts_cqs st 0) + length (ts_cqs st 1)"

text \<open>The sizes handed back, when the caller wants them.\<close>

definition done_sizes :: "test_state \<Rightarrow> ncclIbRequest \<Rightarrow> int list" where
  "done_sizes st req =
     (case rq_type req of
        NCCL_NET_IB_REQ_RECV \<Rightarrow> map (\<lambda>k. ts_sizesFifo st ! row (recv_sizes req) k) [0..<nat (rq_nreqs req)]
      | NCCL_NET_IB_REQ_SEND \<Rightarrow> [send_size req]
      | _ \<Rightarrow> [])"

lemma complete_sends_sel [simp]: "cb_fatal (snd (complete_sends i wid js b)) = cb_fatal b"
  by (induction i wid js b rule: complete_sends.induct) (simp_all add: Let_def)

lemma handle_wc_cqs: "handle_wc pm i wc st = (res, st') \<Longrightarrow> ts_cqs st' = ts_cqs st"
  by (auto simp: handle_wc_def Let_def split: if_splits prod.splits)

lemma handle_wcs_cqs: "handle_wcs pm i wcs st = (res, st') \<Longrightarrow> ts_cqs st' = ts_cqs st"
  by (induction pm i wcs st arbitrary: res st' rule: handle_wcs.induct)
    (auto split: prod.splits if_splits dest: handle_wc_cqs)

lemma test_dev_work:
  assumes "test_dev pm devFatal r i st = (res, n, st')" "i < 2"
  shows "cq_work st' \<le> cq_work st" "0 < n \<Longrightarrow> cq_work st' < cq_work st"
proof -
  have "cq_work st' \<le> cq_work st \<and> (0 < n \<longrightarrow> cq_work st' < cq_work st)"
  proof (cases "rq_events (cb_reqs (ts_base st) ! r) ! i = 0 \<or> ts_cqs st i = []")
    case True
    then show ?thesis using assms by (auto simp: test_dev_def poll_cq_def Let_def split: if_splits)
  next
    case False
    then obtain a wcs rest where c: "ts_cqs st i = (a, wcs) # rest" by (cases "ts_cqs st i") auto
    have "ts_cqs st' = (ts_cqs st)(i := rest)"
      using assms False c
      by (auto simp: test_dev_def poll_cq_def Let_def split: if_splits prod.splits dest!: handle_wcs_cqs)
    then show ?thesis using c assms(2) by (auto simp: cq_work_def less_2_cases_iff)
  qed
  then show "cq_work st' \<le> cq_work st" "0 < n \<Longrightarrow> cq_work st' < cq_work st" by simp_all
qed

lemma test_pass_work:
  assumes "test_pass pm devFatal r st = (res, n, st')" "0 < n"
  shows "cq_work st' < cq_work st"
proof -
  obtain r1 n1 s1 where d0: "test_dev pm devFatal r 0 st = (r1, n1, s1)" by (cases "test_dev pm devFatal r 0 st") auto
  show ?thesis
  proof (cases "ncclCheckFails r1")
    case True
    then show ?thesis using assms d0 test_dev_work [OF d0] by (simp add: test_pass_def)
  next
    case False
    obtain r2 n2 s2 where d1: "test_dev pm devFatal r 1 s1 = (r2, n2, s2)" by (cases "test_dev pm devFatal r 1 s1") auto
    have "n = n1 + n2" "st' = s2" using assms(1) d0 d1 False by (simp_all add: test_pass_def)
    then show ?thesis using test_dev_work [OF d0] test_dev_work [OF d1] assms(2) by (cases "0 < n1") auto
  qed
qed

text \<open>
  The loop: the result, whether the request is done, the sizes, and the state. It ends because
  every pass that goes on has taken completions from a queue.
\<close>

function ncclIbTest ::
    "ib_params \<Rightarrow> (nat \<Rightarrow> int) \<Rightarrow> nat \<Rightarrow> test_state \<Rightarrow> ncclResult \<times> bool \<times> int list \<times> test_state" where
  "ncclIbTest pm devFatal r st =
     (let req = cb_reqs (ts_base st) ! r;
          res = ncclIbStatsCheckFatalCount pm (cb_fatal (ts_base st))
      in if ncclCheckFails res then (res, False, [], st)
         else if rq_events req ! 0 = 0 \<and> rq_events req ! 1 = 0
         then (ncclSuccess, True, done_sizes st req, st\<lparr> ts_base := ncclIbFreeRequest r (ts_base st) \<rparr>)
         else case test_pass pm devFatal r st of
                (res, n, st') \<Rightarrow>
                  if ncclCheckFails res then (res, False, [], st')
                  else if n = 0 then (ncclSuccess, False, [], st')
                  else ncclIbTest pm devFatal r st')"
  by pat_completeness auto
termination
proof (relation "measure (\<lambda>(pm, devFatal, r, st). cq_work st)", goal_cases)
  case (2 pm devFatal r st req cf res y n st')
  then have "test_pass pm devFatal r st = (res, n, st')" "0 < n" by auto
  then show ?case by (simp add: test_pass_work)
qed simp

declare ncclIbTest.simps [simp del]

end
