(* ===== verification/Completion.thy ===== *)
theory Completion
  imports IbTest
begin

text \<open>
  The completion side of a transfer. A locale states what it takes for a request to be done: an
  invariant over the completions each device still owes that every one of them keeps. In
  it \<^verbatim>\<open>ncclIbTest\<close> is shown to take them all and to report the request done. It is
  interpreted on the requests of a sent slot and on a posted receive.
\<close>

section \<open>Draining the queues\<close>

definition batches_ok :: "(ncclResult \<times> ibv_wc list) list \<Rightarrow> bool" where
  "batches_ok bs \<longleftrightarrow> (\<forall>(res, wcs) \<in> set bs. \<not> ncclCheckFails res \<and> wcs \<noteq> [] \<and> length wcs \<le> 4)"

text \<open>The completions a device still has to deliver, in order.\<close>

definition owed :: "nat \<Rightarrow> test_state \<Rightarrow> ibv_wc list" where
  "owed d st = concat (map snd (ts_cqs st d))"

locale completion_inv =
  fixes pm :: ib_params
    and r :: nat
    and inv :: "test_state \<Rightarrow> ibv_wc list \<Rightarrow> ibv_wc list \<Rightarrow> bool"
  assumes events: "inv st q0 q1 \<Longrightarrow> rq_events (cb_reqs (ts_base st) ! r) = [int (length q0), int (length q1)]"
    and no_fatal: "inv st q0 q1 \<Longrightarrow> \<not> ncclCheckFails (ncclIbStatsCheckFatalCount pm (cb_fatal (ts_base st)))"
    and step0: "inv st (wc # q0) q1 \<Longrightarrow> \<exists>st'. handle_wc pm 0 wc st = (ncclSuccess, st') \<and> inv st' q0 q1"
    and step1: "inv st q0 (wc # q1) \<Longrightarrow> \<exists>st'. handle_wc pm 1 wc st = (ncclSuccess, st') \<and> inv st' q0 q1"
    and frame: "inv (st\<lparr> ts_cqs := c \<rparr>) q0 q1 = inv st q0 q1"
begin

lemma handle_wcs0:
  "inv st (wcs @ q0) q1 \<Longrightarrow> \<exists>st'. handle_wcs pm 0 wcs st = (ncclSuccess, st') \<and> inv st' q0 q1"
proof (induction wcs arbitrary: st)
  case Nil
  then show ?case by simp
next
  case (Cons wc wcs)
  from Cons.prems step0 [of st wc "wcs @ q0" q1]
  obtain st1 where "handle_wc pm 0 wc st = (ncclSuccess, st1)" "inv st1 (wcs @ q0) q1" by auto
  with Cons.IH [of st1] Cons.prems show ?case by simp
qed

lemma handle_wcs1:
  "inv st q0 (wcs @ q1) \<Longrightarrow> \<exists>st'. handle_wcs pm 1 wcs st = (ncclSuccess, st') \<and> inv st' q0 q1"
proof (induction wcs arbitrary: st)
  case Nil
  then show ?case by simp
next
  case (Cons wc wcs)
  from Cons.prems step1 [of st q0 wc "wcs @ q1"]
  obtain st1 where "handle_wc pm 1 wc st = (ncclSuccess, st1)" "inv st1 q0 (wcs @ q1)" by auto
  with Cons.IH [of st1] Cons.prems show ?case by simp
qed

definition waiting :: "test_state \<Rightarrow> bool" where
  "waiting st \<longleftrightarrow> inv st (owed 0 st) (owed 1 st) \<and> batches_ok (ts_cqs st 0) \<and> batches_ok (ts_cqs st 1)"

lemma dev0:
  assumes "waiting st" "\<not> ncclCheckFails (ncclIbStatsCheckFatalCount pm (devFatal 0))"
  shows "\<exists>n res st'. test_dev pm devFatal r 0 st = (res, n, st') \<and> \<not> ncclCheckFails res \<and> waiting st' \<and>
    (0 < n \<longleftrightarrow> owed 0 st \<noteq> []) \<and> owed 1 st' = owed 1 st"
proof (cases "ts_cqs st 0")
  case Nil
  then show ?thesis
    using assms events [of st "owed 0 st" "owed 1 st"] by (auto simp: test_dev_def waiting_def owed_def)
next
  case (Cons b bs)
  obtain res wcs where b: "b = (res, wcs)" by (cases b)
  let ?st = "st\<lparr> ts_cqs := (ts_cqs st)(0 := bs) \<rparr>"
  have w: "\<not> ncclCheckFails res" "wcs \<noteq> []" "length wcs \<le> 4" "batches_ok bs" "batches_ok (ts_cqs st 1)"
    using assms(1) Cons b by (auto simp: waiting_def batches_ok_def)
  have o: "owed 0 st = wcs @ owed 0 ?st" "owed 1 ?st = owed 1 st"
    using Cons b by (simp_all add: owed_def)
  have "inv ?st (wcs @ owed 0 ?st) (owed 1 st)" using assms(1) o frame by (simp add: waiting_def)
  from handle_wcs0 [OF this] obtain st' where
    h: "handle_wcs pm 0 wcs ?st = (ncclSuccess, st')" "inv st' (owed 0 ?st) (owed 1 st)" by blast
  have q: "ts_cqs st' = (ts_cqs st)(0 := bs)" using handle_wcs_cqs [OF h(1)] by simp
  have "owed 0 st \<noteq> []" using o(1) w(2) by simp
  then have ev: "rq_events (cb_reqs (ts_base st) ! r) ! 0 \<noteq> 0"
    using events [of st "owed 0 st" "owed 1 st"] assms(1) by (simp add: waiting_def)
  have "test_dev pm devFatal r 0 st = (ncclIbStatsCheckFatalCount pm (devFatal 0), length wcs, st')"
    using Cons b w(1-3) h(1) ev by (simp add: test_dev_def poll_cq_def)
  moreover have "waiting st'" using h(2) q w(4,5) by (simp add: waiting_def owed_def)
  moreover have "owed 1 st' = owed 1 st" using q by (simp add: owed_def)
  ultimately show ?thesis using assms(2) w(2) o(1) by auto
qed

lemma dev1:
  assumes "waiting st" "\<not> ncclCheckFails (ncclIbStatsCheckFatalCount pm (devFatal 1))"
  shows "\<exists>n res st'. test_dev pm devFatal r 1 st = (res, n, st') \<and> \<not> ncclCheckFails res \<and> waiting st' \<and>
    (0 < n \<longleftrightarrow> owed 1 st \<noteq> [])"
proof (cases "ts_cqs st 1")
  case Nil
  then show ?thesis
    using assms events [of st "owed 0 st" "owed 1 st"] by (auto simp: test_dev_def waiting_def owed_def)
next
  case (Cons b bs)
  obtain res wcs where b: "b = (res, wcs)" by (cases b)
  let ?st = "st\<lparr> ts_cqs := (ts_cqs st)(1 := bs) \<rparr>"
  have w: "\<not> ncclCheckFails res" "wcs \<noteq> []" "length wcs \<le> 4" "batches_ok bs" "batches_ok (ts_cqs st 0)"
    using assms(1) Cons b by (auto simp: waiting_def batches_ok_def)
  have o: "owed 1 st = wcs @ owed 1 ?st" "owed 0 ?st = owed 0 st"
    using Cons b by (simp_all add: owed_def)
  have "inv ?st (owed 0 st) (wcs @ owed 1 ?st)" using assms(1) o frame by (simp add: waiting_def)
  from handle_wcs1 [OF this] obtain st' where
    h: "handle_wcs pm 1 wcs ?st = (ncclSuccess, st')" "inv st' (owed 0 st) (owed 1 ?st)" by blast
  have q: "ts_cqs st' = (ts_cqs st)(1 := bs)" using handle_wcs_cqs [OF h(1)] by simp
  have "owed 1 st \<noteq> []" using o(1) w(2) by simp
  then have ev: "rq_events (cb_reqs (ts_base st) ! r) ! 1 \<noteq> 0"
    using events [of st "owed 0 st" "owed 1 st"] assms(1) by (simp add: waiting_def)
  have "test_dev pm devFatal r 1 st = (ncclIbStatsCheckFatalCount pm (devFatal 1), length wcs, st')"
    using Cons b w(1-3) h(1) ev by (simp add: test_dev_def poll_cq_def)
  moreover have "waiting st'" using h(2) q w(4,5) by (simp add: waiting_def owed_def)
  ultimately show ?thesis using assms(2) w(2) o(1) by auto
qed

text \<open>All the completions owed are taken, and the request is reported done.\<close>

lemma drains:
  assumes "waiting st" "\<forall>d < 2. \<not> ncclCheckFails (ncclIbStatsCheckFatalCount pm (devFatal d))"
  shows "\<exists>st1. inv st1 [] [] \<and> ncclIbTest pm devFatal r st = (ncclSuccess, True,
    done_sizes st1 (cb_reqs (ts_base st1) ! r), st1\<lparr> ts_base := ncclIbFreeRequest r (ts_base st1) \<rparr>)"
  using assms(1)
proof (induction "cq_work st" arbitrary: st rule: less_induct)
  case less
  note ev = events [of st "owed 0 st" "owed 1 st"] and nf = no_fatal [of st "owed 0 st" "owed 1 st"]
  have i: "inv st (owed 0 st) (owed 1 st)" using less.prems by (simp add: waiting_def)
  show ?case
  proof (cases "owed 0 st = [] \<and> owed 1 st = []")
    case True
    then show ?thesis using i ev nf by (intro exI [of _ st]) (simp add: ncclIbTest.simps Let_def)
  next
    case False
    obtain n0 r0 s0 where d0: "test_dev pm devFatal r 0 st = (r0, n0, s0)" "\<not> ncclCheckFails r0" "waiting s0"
        "0 < n0 \<longleftrightarrow> owed 0 st \<noteq> []" "owed 1 s0 = owed 1 st"
      using dev0 [OF less.prems, of devFatal] assms(2) by auto
    obtain n1 r1 s1 where d1: "test_dev pm devFatal r 1 s0 = (r1, n1, s1)" "\<not> ncclCheckFails r1" "waiting s1"
        "0 < n1 \<longleftrightarrow> owed 1 s0 \<noteq> []"
      using dev1 [OF d0(3), of devFatal] assms(2) by auto
    have pass: "test_pass pm devFatal r st = (r1, n0 + n1, s1)"
      using d0(1,2) d1(1) by (simp add: test_pass_def)
    have n: "0 < n0 + n1" using False d0(4,5) d1(4) by auto
    have "cq_work s1 < cq_work st" using test_pass_work [OF pass n] .
    from less.hyps [OF this d1(3)] obtain st1 where s: "inv st1 [] []"
      "ncclIbTest pm devFatal r s1 = (ncclSuccess, True, done_sizes st1 (cb_reqs (ts_base st1) ! r),
         st1\<lparr> ts_base := ncclIbFreeRequest r (ts_base st1) \<rparr>)" by blast
    have "ncclIbTest pm devFatal r st = ncclIbTest pm devFatal r s1"
      using pass n d1(2) i ev nf False by (subst ncclIbTest.simps) (auto simp: Let_def)
    then show ?thesis using s by auto
  qed
qed

end

section \<open>The requests of a sent slot\<close>

text \<open>Relative to the table \<open>b0\<close>, only events of the slot's requests change.\<close>

definition only_events :: "nat list \<Rightarrow> ncclIbNetCommBase \<Rightarrow> ncclIbNetCommBase \<Rightarrow> bool" where
  "only_events is b0 b \<longleftrightarrow> (\<forall>i < MAX_REQUESTS.
     cb_reqs b ! i = (cb_reqs b0 ! i)\<lparr> rq_events := rq_events (cb_reqs b ! i) \<rparr> \<and>
     (i \<notin> set is \<longrightarrow> cb_reqs b ! i = cb_reqs b0 ! i))"

lemma complete_sends_ok:
  assumes "distinct (map (decode_wr_id wid) js)" "length (cb_reqs b) = MAX_REQUESTS"
    "\<forall>j \<in> set js. rq_events (cb_reqs b ! decode_wr_id wid j) ! i > 0"
  shows "complete_sends i wid js b = (ncclSuccess, fold (\<lambda>s. upd_req s (dec_event i)) (map (decode_wr_id wid) js) b)"
  using assms
proof (induction i wid js b rule: complete_sends.induct)
  case (1 i wid b)
  then show ?case by simp
next
  case (2 i wid j js b)
  let ?s = "decode_wr_id wid j"
  have s: "?s < 256" by (simp add: decode_wr_id_div)
  have small: "decode_wr_id wid k < length (cb_reqs b)" for k using 2 by (simp add: decode_wr_id_div)
  have "rq_events (cb_reqs (upd_req ?s (dec_event i) b) ! decode_wr_id wid k) ! i > 0" if "k \<in> set js" for k
    using 2 that small by (auto simp: nth_upd_req)
  with 2 show ?case by (auto simp: Let_def)
qed

definition names_sends :: "nat list \<Rightarrow> ibv_wc \<Rightarrow> bool" where
  "names_sends is wc \<longleftrightarrow> wc_ok wc \<and> wc_wr_id wc = encode_wr_id is"

definition send_wait :: "ib_params \<Rightarrow> ncclIbNetCommBase \<Rightarrow> nat list \<Rightarrow> nat \<Rightarrow> test_state \<Rightarrow> ibv_wc list \<Rightarrow> ibv_wc list \<Rightarrow> bool" where
  "send_wait pm b0 is r st q0 q1 \<longleftrightarrow>
     length (cb_reqs (ts_base st)) = MAX_REQUESTS \<and> distinct is \<and> length is \<le> 8 \<and> r \<in> set is \<and>
     only_events is b0 (ts_base st) \<and>
     (\<forall>i \<in> set is. i < 256 \<and> rq_type (cb_reqs (ts_base st) ! i) = NCCL_NET_IB_REQ_SEND \<and>
        rq_nreqs (cb_reqs (ts_base st) ! i) = int (length is) \<and>
        rq_events (cb_reqs (ts_base st) ! i) = [int (length q0), int (length q1)]) \<and>
     (\<forall>wc \<in> set (q0 @ q1). names_sends is wc) \<and>
     \<not> ncclCheckFails (ncclIbStatsCheckFatalCount pm (cb_fatal (ts_base st)))"

text \<open>One completion of a slot takes one event from each of its requests.\<close>

lemma handle_wc_send:
  assumes w: "send_wait pm b0 is r st q0 q1" and g: "names_sends is wc" and d: "d < 2" "[q0, q1] ! d \<noteq> []"
  shows "handle_wc pm d wc st = (ncclSuccess, st\<lparr>
    ts_base := fold (\<lambda>s. upd_req s (dec_event d)) is (ts_base st),
    ts_world := bw_add (UNET_BW_CPL_BYTES_BY_RANK pm (rq_peer_rank (cb_reqs (ts_base st) ! hd is)))
      (word_of_int (send_size (cb_reqs (ts_base st) ! hd is))) (ib_inc UNET_IB_CPL_COUNT (ts_world st)) \<rparr>)"
proof -
  have small: "\<forall>i \<in> set is. i < 256" and len: "length is \<le> 8" and ne: "is \<noteq> []"
    using w by (auto simp: send_wait_def)
  have dec: "map (decode_wr_id (wc_wr_id wc)) [0..<length is] = is"
    using g by (intro nth_equalityI) (simp_all add: names_sends_def decode_encode [OF small len])
  have hd: "decode_wr_id (wc_wr_id wc) 0 = hd is"
    using g ne decode_encode [OF small len, of 0] by (simp add: names_sends_def hd_conv_nth)
  have first: "rq_type (cb_reqs (ts_base st) ! hd is) = NCCL_NET_IB_REQ_SEND"
    "rq_nreqs (cb_reqs (ts_base st) ! hd is) = int (length is)"
    using w ne by (simp_all add: send_wait_def)
  have ev: "\<forall>j \<in> set [0..<length is]. rq_events (cb_reqs (ts_base st) ! decode_wr_id (wc_wr_id wc) j) ! d > 0"
  proof
    fix j assume "j \<in> set [0..<length is]"
    then have "decode_wr_id (wc_wr_id wc) j \<in> set is" using dec by (metis image_eqI set_map)
    then show "rq_events (cb_reqs (ts_base st) ! decode_wr_id (wc_wr_id wc) j) ! d > 0"
      using w d by (auto simp: send_wait_def less_2_cases_iff)
  qed
  have "complete_sends d (wc_wr_id wc) [0..<length is] (ts_base st) =
      (ncclSuccess, fold (\<lambda>s. upd_req s (dec_event d)) is (ts_base st))"
    using complete_sends_ok [OF _ _ ev] w dec by (simp add: send_wait_def)
  then show ?thesis
    using g hd first by (simp add: handle_wc_def wc_req_def names_sends_def Let_def)
qed

lemma fold_dec_event_cb_fatal: "cb_fatal (fold (\<lambda>s. upd_req s f) is b) = cb_fatal b"
  by (induction "is" arbitrary: b) simp_all

lemma only_events_dec:
  assumes "only_events is b0 b" "distinct is" "length (cb_reqs b) = MAX_REQUESTS"
  shows "only_events is b0 (fold (\<lambda>s. upd_req s (dec_event d)) is b)"
  unfolding only_events_def
proof (intro allI impI)
  fix i assume i: "i < MAX_REQUESTS"
  have n: "cb_reqs (fold (\<lambda>s. upd_req s (dec_event d)) is b) ! i =
      (if i \<in> set is then dec_event d (cb_reqs b ! i) else cb_reqs b ! i)"
    using nth_fold_upd_req [OF assms(2)] i assms(3) by simp
  have "cb_reqs b ! i = (cb_reqs b0 ! i)\<lparr> rq_events := rq_events (cb_reqs b ! i) \<rparr>"
    "i \<notin> set is \<longrightarrow> cb_reqs b ! i = cb_reqs b0 ! i"
    using assms(1) i by (auto simp: only_events_def)
  then show "cb_reqs (fold (\<lambda>s. upd_req s (dec_event d)) is b) ! i =
      (cb_reqs b0 ! i)\<lparr> rq_events := rq_events (cb_reqs (fold (\<lambda>s. upd_req s (dec_event d)) is b) ! i) \<rparr> \<and>
      (i \<notin> set is \<longrightarrow> cb_reqs (fold (\<lambda>s. upd_req s (dec_event d)) is b) ! i = cb_reqs b0 ! i)"
    unfolding n dec_event_def by (cases "cb_reqs b ! i"; cases "cb_reqs b0 ! i") auto
qed

lemma int_length_tl: "q \<noteq> [] \<Longrightarrow> int (length q - Suc 0) = int (length q) - 1"
  by (cases q) auto

lemma send_wait_step:
  assumes w: "send_wait pm b0 is r st q0 q1" and d: "d < 2" "[q0, q1] ! d \<noteq> []"
  shows "send_wait pm b0 is r (st\<lparr> ts_base := fold (\<lambda>s. upd_req s (dec_event d)) is (ts_base st), ts_world := u \<rparr>)
    (if d = 0 then tl q0 else q0) (if d = 0 then q1 else tl q1)"
  using w d only_events_dec [of "is" b0 "ts_base st" d] unfolding send_wait_def
  by (auto simp: nth_fold_upd_req fold_upd_req_other fold_dec_event_cb_fatal dec_event_def less_2_cases_iff
      int_length_tl dest: list.set_sel(2))

interpretation sends: completion_inv pm r "send_wait pm b0 is r"
proof unfold_locales
  fix st q0 q1
  assume w: "send_wait pm b0 is r st q0 q1"
  show "rq_events (cb_reqs (ts_base st) ! r) = [int (length q0), int (length q1)]"
    "\<not> ncclCheckFails (ncclIbStatsCheckFatalCount pm (cb_fatal (ts_base st)))"
    using w by (simp_all add: send_wait_def)
next
  fix st wc q0 q1
  assume w: "send_wait pm b0 is r st (wc # q0) q1"
  then have "names_sends is wc" by (simp add: send_wait_def)
  then show "\<exists>st'. handle_wc pm 0 wc st = (ncclSuccess, st') \<and> send_wait pm b0 is r st' q0 q1"
    using handle_wc_send [OF w, of wc 0] send_wait_step [OF w, of 0] by simp
next
  fix st q0 wc q1
  assume w: "send_wait pm b0 is r st q0 (wc # q1)"
  then have "names_sends is wc" by (simp add: send_wait_def)
  then show "\<exists>st'. handle_wc pm 1 wc st = (ncclSuccess, st') \<and> send_wait pm b0 is r st' q0 q1"
    using handle_wc_send [OF w, of wc 1] send_wait_step [OF w, of 1] by simp
next
  fix st c q0 q1
  show "send_wait pm b0 is r (st\<lparr> ts_cqs := c \<rparr>) q0 q1 = send_wait pm b0 is r st q0 q1"
    by (simp add: send_wait_def)
qed

text \<open>
  C8: the requests of a sent slot are done after exactly the completions they count: when the queues
  hold, in any batches of up to four, as many completions of the slot per device as its requests
  have events, \<^verbatim>\<open>ncclIbTest\<close> on any of them returns success and done, with the size sent, frees
  its request, and leaves the other requests of the slot with no event to wait for.
\<close>
theorem test_completes_sends:
  assumes "send_wait pm (ts_base st) is r st (owed 0 st) (owed 1 st)"
    "batches_ok (ts_cqs st 0)" "batches_ok (ts_cqs st 1)"
    "\<forall>d < 2. \<not> ncclCheckFails (ncclIbStatsCheckFatalCount pm (devFatal d))"
  shows "\<exists>st'. ncclIbTest pm devFatal r st = (ncclSuccess, True, [send_size (cb_reqs (ts_base st) ! r)], st') \<and>
    rq_type (cb_reqs (ts_base st') ! r) = NCCL_NET_IB_REQ_UNUSED \<and>
    (\<forall>i < MAX_REQUESTS. i \<noteq> r \<longrightarrow> cb_reqs (ts_base st') ! i =
       (if i \<in> set is then (cb_reqs (ts_base st) ! i)\<lparr> rq_events := [0, 0] \<rparr> else cb_reqs (ts_base st) ! i))"
proof -
  let ?b = "ts_base st"
  from assms(1-3) have "sends.waiting pm ?b is r st" by (simp add: sends.waiting_def)
  from sends.drains [OF this assms(4)] obtain st1 where
    w: "send_wait pm ?b is r st1 [] []" and run: "ncclIbTest pm devFatal r st = (ncclSuccess, True,
      done_sizes st1 (cb_reqs (ts_base st1) ! r), st1\<lparr> ts_base := ncclIbFreeRequest r (ts_base st1) \<rparr>)" by blast
  have r: "r < MAX_REQUESTS" "length (cb_reqs (ts_base st1)) = MAX_REQUESTS"
    "rq_type (cb_reqs (ts_base st1) ! r) = NCCL_NET_IB_REQ_SEND"
    using w by (auto simp: send_wait_def)
  have eq: "cb_reqs (ts_base st1) ! i = (cb_reqs ?b ! i)\<lparr> rq_events := rq_events (cb_reqs (ts_base st1) ! i) \<rparr>"
      "i \<notin> set is \<longrightarrow> cb_reqs (ts_base st1) ! i = cb_reqs ?b ! i"
      "i \<in> set is \<longrightarrow> rq_events (cb_reqs (ts_base st1) ! i) = [0, 0]" if "i < MAX_REQUESTS" for i
    using w that by (auto simp: send_wait_def only_events_def)
  have "send_size (cb_reqs (ts_base st1) ! r) = send_size (cb_reqs ?b ! r)"
    using eq(1) [OF r(1)] by (metis ncclIbRequest.select_convs(7) ncclIbRequest.update_convs(4) ncclIbRequest.surjective)
  moreover have "cb_reqs (ts_base st1) ! i =
      (if i \<in> set is then (cb_reqs ?b ! i)\<lparr> rq_events := [0, 0] \<rparr> else cb_reqs ?b ! i)" if "i < MAX_REQUESTS" for i
    using eq [OF that] by auto
  ultimately show ?thesis
    using run r by (auto simp: done_sizes_def ncclIbFreeRequest_def nth_upd_req)
qed

definition example_wc :: "u64 \<Rightarrow> ibv_wc" where
  "example_wc wid = \<lparr> wc_ok = True, wc_wr_id = wid, wc_opcode = IBV_WC_SEND_SIDE, wc_imm = 0 \<rparr>"

definition example_test_state :: test_state where
  "example_test_state = \<lparr> ts_base = (sc_base example_send_comm)\<lparr> cb_reqs := (cb_reqs (sc_base example_send_comm))
       [3 := (get_req example_send_comm 3)\<lparr> rq_events := [2, 0] \<rparr>] \<rparr>,
     ts_sizesFifo = [], ts_world = example_world,
     ts_cqs = (\<lambda>_. [])(0 := [(ncclSuccess, [example_wc (encode_wr_id [3])]), (ncclSuccess, [example_wc (encode_wr_id [3])])]) \<rparr>"

lemma example_test_req3:
  "cb_reqs (ts_base example_test_state) ! 3 = (get_req example_send_comm 3)\<lparr> rq_events := [2, 0] \<rparr>"
  "length (cb_reqs (ts_base example_test_state)) = MAX_REQUESTS"
  by (simp_all add: example_test_state_def example_send_sel)

theorem test_completes_sends_witness:
  "\<exists>st'. ncclIbTest example_params (\<lambda>_. 0) 3 example_test_state = (ncclSuccess, True, [1000], st')"
proof -
  have o: "owed 0 example_test_state = [example_wc (encode_wr_id [3]), example_wc (encode_wr_id [3])]"
    "owed 1 example_test_state = []" "ts_cqs example_test_state 1 = []"
    "ts_cqs example_test_state 0 = [(ncclSuccess, [example_wc (encode_wr_id [3])]), (ncclSuccess, [example_wc (encode_wr_id [3])])]"
    by (simp_all add: owed_def example_test_state_def)
  have "cb_fatal (ts_base example_test_state) = 0"
    by (simp add: example_test_state_def example_send_comm_def example_base_def)
  then have w: "send_wait example_params (ts_base example_test_state) [3] 3 example_test_state
      (owed 0 example_test_state) (owed 1 example_test_state)"
    unfolding o send_wait_def example_test_req3
    by (simp add: example_test_req3 example_send_req3 only_events_def names_sends_def example_wc_def ncclIbStatsCheckFatalCount_def)
  from test_completes_sends [OF w, of "\<lambda>_. 0"] o show ?thesis
    by (auto simp: batches_ok_def ncclIbStatsCheckFatalCount_def example_test_req3 example_send_req3)
qed

section \<open>The bandwidth counter of the peers\<close>

text \<open>
  The counter of completed bytes of a peer grows with every chain of a send by the whole
  size of the first request of the slot: a send spread over \<open>n\<close> queue pairs is counted \<open>n\<close> times,
  and the other requests of a multi-send are not counted.
\<close>
theorem bw_counts_every_chain:
  assumes "send_wait pm b0 is r st (wcs @ q0) q1" "handle_wcs pm 0 wcs st = (res, st')"
    "wd_bw_stat (ts_world st) = Some s"
    "cell s (UNET_BW_CPL_BYTES_BY_RANK pm (rq_peer_rank (cb_reqs b0 ! hd is))) < length (wd_bw_mem (ts_world st))"
  shows "Stat_get s (UNET_BW_CPL_BYTES_BY_RANK pm (rq_peer_rank (cb_reqs b0 ! hd is))) (wd_bw_mem (ts_world st')) =
    Stat_get s (UNET_BW_CPL_BYTES_BY_RANK pm (rq_peer_rank (cb_reqs b0 ! hd is))) (wd_bw_mem (ts_world st)) +
    of_nat (length wcs) * word_of_int (send_size (cb_reqs b0 ! hd is))"
  using assms
proof (induction wcs arbitrary: st)
  case Nil
  then show ?case by simp
next
  case (Cons wc wcs)
  let ?i = "UNET_BW_CPL_BYTES_BY_RANK pm (rq_peer_rank (cb_reqs b0 ! hd is))"
  let ?sz = "word_of_int (send_size (cb_reqs b0 ! hd is)) :: u64"
  have g: "names_sends is wc" using Cons.prems(1) by (simp add: send_wait_def)
  have "hd is \<in> set is" "\<forall>i \<in> set is. i < 256" "only_events is b0 (ts_base st)"
    using Cons.prems(1) by (auto simp: send_wait_def intro: hd_in_set)
  then have "cb_reqs (ts_base st) ! hd is = (cb_reqs b0 ! hd is)\<lparr> rq_events := rq_events (cb_reqs (ts_base st) ! hd is) \<rparr>"
    by (auto simp: only_events_def)
  then have hd: "rq_peer_rank (cb_reqs (ts_base st) ! hd is) = rq_peer_rank (cb_reqs b0 ! hd is)"
      "send_size (cb_reqs (ts_base st) ! hd is) = send_size (cb_reqs b0 ! hd is)"
    by (cases "cb_reqs (ts_base st) ! hd is"; cases "cb_reqs b0 ! hd is"; simp)+
  let ?st = "st\<lparr> ts_base := fold (\<lambda>s. upd_req s (dec_event 0)) is (ts_base st),
    ts_world := bw_add ?i ?sz (ib_inc UNET_IB_CPL_COUNT (ts_world st)) \<rparr>"
  have h: "handle_wc pm 0 wc st = (ncclSuccess, ?st)"
    using handle_wc_send [OF Cons.prems(1) g, of 0] hd by simp
  have w: "send_wait pm b0 is r ?st (wcs @ q0) q1" using send_wait_step [OF Cons.prems(1), of 0] by simp
  have m: "wd_bw_stat (ts_world ?st) = Some s" "wd_bw_mem (ts_world ?st) = Stat_add s ?i ?sz (wd_bw_mem (ts_world st))"
    using Cons.prems(3) by (simp_all add: bw_add_def ib_inc_def ib_add_def split: option.splits)
  have "Stat_get s ?i (wd_bw_mem (ts_world st')) = Stat_get s ?i (wd_bw_mem (ts_world ?st)) + of_nat (length wcs) * ?sz"
    by (rule Cons.IH [OF w _ m(1)]) (use Cons.prems h m in simp_all)
  then show ?case
    using m(2) Cons.prems(4) by (simp add: Stat_get_def Stat_add_def nth_counter_add algebra_simps)
qed

definition example_bw_state :: test_state where
  "example_bw_state = example_test_state\<lparr> ts_world := example_world\<lparr>
     wd_bw_stat := Some (Stat_new 0 0 0 (replicate 15 ''c'')), wd_bw_mem := replicate 15 0 \<rparr> \<rparr>"

theorem bw_counts_every_chain_witness:
  "Stat_get (Stat_new 0 0 0 (replicate 15 ''c'')) 6 (wd_bw_mem (ts_world (snd (handle_wcs example_params 0
     [example_wc (encode_wr_id [3]), example_wc (encode_wr_id [3])] example_bw_state)))) = 2000"
proof -
  let ?wcs = "[example_wc (encode_wr_id [3]), example_wc (encode_wr_id [3])]"
  let ?b = "ts_base example_test_state"
  have base: "ts_base example_bw_state = ?b" by (simp add: example_bw_state_def)
  have "cb_fatal ?b = 0" by (simp add: example_test_state_def example_send_comm_def example_base_def)
  then have w: "send_wait example_params ?b [3] 3 example_bw_state (?wcs @ []) []"
    unfolding send_wait_def base
    by (simp add: example_test_req3 example_send_req3 only_events_def names_sends_def example_wc_def
        ncclIbStatsCheckFatalCount_def)
  have i: "UNET_BW_CPL_BYTES_BY_RANK example_params (rq_peer_rank (cb_reqs ?b ! hd [3])) = 6"
    by (simp add: UNET_BW_CPL_BYTES_BY_RANK_def example_params_def example_test_req3 example_send_req3 idle_request_def)
  have m: "wd_bw_stat (ts_world example_bw_state) = Some (Stat_new 0 0 0 (replicate 15 ''c''))"
    "cell (Stat_new 0 0 0 (replicate 15 ''c'')) 6 < length (wd_bw_mem (ts_world example_bw_state))"
    "Stat_get (Stat_new 0 0 0 (replicate 15 ''c'')) 6 (wd_bw_mem (ts_world example_bw_state)) = 0"
    by (simp_all add: example_bw_state_def cell_def Stat_get_def)
  have sz: "send_size (cb_reqs ?b ! hd [3]) = 1000" by (simp add: example_test_req3 example_send_req3)
  show ?thesis
    using bw_counts_every_chain [OF w _ m(1), of "fst (handle_wcs example_params 0 ?wcs example_bw_state)"
        "snd (handle_wcs example_params 0 ?wcs example_bw_state)"] i m sz by simp
qed

section \<open>A posted receive\<close>

text \<open>
  The completions of a receive: the immediate data of the sender's chains, all with the same
  size \<open>s\<close>, and the completion of the signalled clear-to-send entry.
\<close>

definition names_recv :: "nat \<Rightarrow> int \<Rightarrow> ibv_wc \<Rightarrow> bool" where
  "names_recv r s wc \<longleftrightarrow> wc_ok wc \<and> wc_wr_id wc = word_of_nat r \<and>
     (wc_opcode wc = IBV_WC_RECV_RDMA_WITH_IMM \<longrightarrow> sint (wc_imm wc) = s)"

definition brings_size :: "ibv_wc list \<Rightarrow> bool" where
  "brings_size wcs \<longleftrightarrow> (\<exists>wc \<in> set wcs. wc_opcode wc = IBV_WC_RECV_RDMA_WITH_IMM)"

definition recv_wait :: "ib_params \<Rightarrow> ncclIbNetCommBase \<Rightarrow> int list \<Rightarrow> int \<Rightarrow> nat \<Rightarrow> test_state \<Rightarrow> ibv_wc list \<Rightarrow> ibv_wc list \<Rightarrow> bool" where
  "recv_wait pm b0 sizes0 s r st q0 q1 \<longleftrightarrow>
     length (cb_reqs (ts_base st)) = MAX_REQUESTS \<and> r < MAX_REQUESTS \<and> only_events [r] b0 (ts_base st) \<and>
     rq_type (cb_reqs b0 ! r) = NCCL_NET_IB_REQ_RECV \<and>
     rq_events (cb_reqs (ts_base st) ! r) = [int (length q0), int (length q1)] \<and>
     (\<forall>wc \<in> set (q0 @ q1). names_recv r s wc) \<and>
     length (ts_sizesFifo st) = length sizes0 \<and> row (recv_sizes (cb_reqs b0 ! r)) 0 < length sizes0 \<and>
     (if rq_nreqs (cb_reqs b0 ! r) = 1
      then brings_size (q0 @ q1) \<or> ts_sizesFifo st ! row (recv_sizes (cb_reqs b0 ! r)) 0 = s
      else ts_sizesFifo st = sizes0) \<and>
     \<not> ncclCheckFails (ncclIbStatsCheckFatalCount pm (cb_fatal (ts_base st)))"

lemma only_events_sel:
  assumes "only_events is b0 b" "i < MAX_REQUESTS"
  shows "rq_type (cb_reqs b ! i) = rq_type (cb_reqs b0 ! i)" "rq_nreqs (cb_reqs b ! i) = rq_nreqs (cb_reqs b0 ! i)"
    "recv_sizes (cb_reqs b ! i) = recv_sizes (cb_reqs b0 ! i)" "send_size (cb_reqs b ! i) = send_size (cb_reqs b0 ! i)"
proof -
  have "cb_reqs b ! i = (cb_reqs b0 ! i)\<lparr> rq_events := rq_events (cb_reqs b ! i) \<rparr>"
    using assms by (auto simp: only_events_def)
  then show "rq_type (cb_reqs b ! i) = rq_type (cb_reqs b0 ! i)" "rq_nreqs (cb_reqs b ! i) = rq_nreqs (cb_reqs b0 ! i)"
    "recv_sizes (cb_reqs b ! i) = recv_sizes (cb_reqs b0 ! i)" "send_size (cb_reqs b ! i) = send_size (cb_reqs b0 ! i)"
    by (cases "cb_reqs b ! i"; cases "cb_reqs b0 ! i"; simp)+
qed

lemma decode_single: "r < 256 \<Longrightarrow> decode_wr_id (word_of_nat r) 0 = r"
  by (simp add: decode_wr_id_div unsigned_of_nat take_bit_nat_eq_self)

lemma recv_wait_step:
  assumes w: "recv_wait pm b0 sizes0 s r st q0 q1" and d: "d < 2" "[q0, q1] ! d = wc # q"
  shows "\<exists>st'. handle_wc pm d wc st = (ncclSuccess, st') \<and>
    recv_wait pm b0 sizes0 s r st' (if d = 0 then q else q0) (if d = 0 then q1 else q)"
proof -
  let ?rq = "cb_reqs (ts_base st) ! r"
  have r: "r < MAX_REQUESTS" "only_events [r] b0 (ts_base st)" "length (cb_reqs (ts_base st)) = MAX_REQUESTS"
    using w by (simp_all add: recv_wait_def)
  note sel = only_events_sel [OF r(2,1)]
  have mem: "wc \<in> set (q0 @ q1)" using d by (auto simp: less_2_cases_iff)
  then have g: "names_recv r s wc" using w by (simp add: recv_wait_def)
  then have k: "decode_wr_id (wc_wr_id wc) 0 = r" using r(1) by (simp add: names_recv_def decode_single)
  have ty: "rq_type ?rq = NCCL_NET_IB_REQ_RECV" using w sel by (simp add: recv_wait_def)
  let ?one = "wc_opcode wc = IBV_WC_RECV_RDMA_WITH_IMM \<and> rq_nreqs ?rq = 1"
  let ?st = "st\<lparr> ts_world := ib_inc UNET_IB_CPL_COUNT (ts_world st),
      ts_sizesFifo := (if ?one then (ts_sizesFifo st)[row (recv_sizes ?rq) 0 := sint (wc_imm wc)] else ts_sizesFifo st),
      ts_base := upd_req r (dec_event d) (ts_base st) \<rparr>"
  have h: "handle_wc pm d wc st = (ncclSuccess, ?st)"
    using g k ty by (auto simp: handle_wc_def wc_req_def names_recv_def Let_def)
  have oe: "only_events [r] b0 (upd_req r (dec_event d) (ts_base st))"
    using only_events_dec [of "[r]" b0 "ts_base st" d] r by simp
  have ev: "rq_events (cb_reqs (upd_req r (dec_event d) (ts_base st)) ! r) =
      [int (length (if d = 0 then q else q0)), int (length (if d = 0 then q1 else q))]"
    using w d r by (auto simp: recv_wait_def nth_upd_req dec_event_def less_2_cases_iff)
  have sub: "set ((if d = 0 then q else q0) @ (if d = 0 then q1 else q)) \<subseteq> set (q0 @ q1)"
    "brings_size (q0 @ q1) \<Longrightarrow> wc_opcode wc = IBV_WC_RECV_RDMA_WITH_IMM \<or>
       brings_size ((if d = 0 then q else q0) @ (if d = 0 then q1 else q))"
    using d by (auto simp: less_2_cases_iff brings_size_def)
  have sizes: "if rq_nreqs (cb_reqs b0 ! r) = 1
      then brings_size ((if d = 0 then q else q0) @ (if d = 0 then q1 else q)) \<or>
        ts_sizesFifo ?st ! row (recv_sizes (cb_reqs b0 ! r)) 0 = s
      else ts_sizesFifo ?st = sizes0"
    using w g sub(2) sel by (auto simp: recv_wait_def names_recv_def split: if_splits)
  have "recv_wait pm b0 sizes0 s r ?st (if d = 0 then q else q0) (if d = 0 then q1 else q)"
    unfolding recv_wait_def using w oe ev sub(1) sizes by (auto simp: recv_wait_def)
  with h show ?thesis by blast
qed

interpretation recvs: completion_inv pm r "recv_wait pm b0 sizes0 s r"
proof unfold_locales
  fix st q0 q1
  assume w: "recv_wait pm b0 sizes0 s r st q0 q1"
  show "rq_events (cb_reqs (ts_base st) ! r) = [int (length q0), int (length q1)]"
    "\<not> ncclCheckFails (ncclIbStatsCheckFatalCount pm (cb_fatal (ts_base st)))"
    using w by (simp_all add: recv_wait_def)
next
  fix st wc q0 q1
  assume w: "recv_wait pm b0 sizes0 s r st (wc # q0) q1"
  show "\<exists>st'. handle_wc pm 0 wc st = (ncclSuccess, st') \<and> recv_wait pm b0 sizes0 s r st' q0 q1"
    using recv_wait_step [OF w, of 0 wc q0] by simp
next
  fix st q0 wc q1
  assume w: "recv_wait pm b0 sizes0 s r st q0 (wc # q1)"
  show "\<exists>st'. handle_wc pm 1 wc st = (ncclSuccess, st') \<and> recv_wait pm b0 sizes0 s r st' q0 q1"
    using recv_wait_step [OF w, of 1 wc q1] by simp
next
  fix st c q0 q1
  show "recv_wait pm b0 sizes0 s r (st\<lparr> ts_cqs := c \<rparr>) q0 q1 = recv_wait pm b0 sizes0 s r st q0 q1"
    by (simp add: recv_wait_def)
qed

text \<open>
  C9: a receive is done after the completions it counts, in whatever batches they come:
  \<^verbatim>\<open>ncclIbTest\<close> returns success and done and frees the request; for a single receive the size reported is the
  immediate data of the sender, for several the sizes the sender wrote into the receiver's
  array; no other request changes.
\<close>
theorem test_completes_recv:
  assumes "recv_wait pm (ts_base st) (ts_sizesFifo st) s r st (owed 0 st) (owed 1 st)"
    "batches_ok (ts_cqs st 0)" "batches_ok (ts_cqs st 1)"
    "\<forall>d < 2. \<not> ncclCheckFails (ncclIbStatsCheckFatalCount pm (devFatal d))"
  shows "\<exists>st'. ncclIbTest pm devFatal r st = (ncclSuccess, True,
      (if rq_nreqs (cb_reqs (ts_base st) ! r) = 1 then [s]
       else map (\<lambda>k. ts_sizesFifo st ! row (recv_sizes (cb_reqs (ts_base st) ! r)) k)
              [0..<nat (rq_nreqs (cb_reqs (ts_base st) ! r))]), st') \<and>
    rq_type (cb_reqs (ts_base st') ! r) = NCCL_NET_IB_REQ_UNUSED \<and>
    (\<forall>i < MAX_REQUESTS. i \<noteq> r \<longrightarrow> cb_reqs (ts_base st') ! i = cb_reqs (ts_base st) ! i)"
proof -
  let ?b = "ts_base st" and ?sz = "ts_sizesFifo st"
  from assms(1-3) have "recvs.waiting pm ?b ?sz s r st" by (simp add: recvs.waiting_def)
  from recvs.drains [OF this assms(4)] obtain st1 where
    w: "recv_wait pm ?b ?sz s r st1 [] []" and run: "ncclIbTest pm devFatal r st = (ncclSuccess, True,
      done_sizes st1 (cb_reqs (ts_base st1) ! r), st1\<lparr> ts_base := ncclIbFreeRequest r (ts_base st1) \<rparr>)" by blast
  have r: "r < MAX_REQUESTS" "only_events [r] ?b (ts_base st1)" "length (cb_reqs (ts_base st1)) = MAX_REQUESTS"
    using w by (simp_all add: recv_wait_def)
  note sel = only_events_sel [OF r(2,1)]
  have "done_sizes st1 (cb_reqs (ts_base st1) ! r) = (if rq_nreqs (cb_reqs ?b ! r) = 1 then [s]
      else map (\<lambda>k. ?sz ! row (recv_sizes (cb_reqs ?b ! r)) k) [0..<nat (rq_nreqs (cb_reqs ?b ! r))])"
    using w sel by (auto simp: done_sizes_def recv_wait_def brings_size_def)
  moreover have "cb_reqs (ncclIbFreeRequest r (ts_base st1)) ! i = cb_reqs ?b ! i" if "i < MAX_REQUESTS" "i \<noteq> r" for i
    using r that by (simp add: ncclIbFreeRequest_def nth_upd_req only_events_def)
  moreover have "rq_type (cb_reqs (ncclIbFreeRequest r (ts_base st1)) ! r) = NCCL_NET_IB_REQ_UNUSED"
    using r by (simp add: ncclIbFreeRequest_def nth_upd_req)
  ultimately show ?thesis using run by simp
qed

definition example_recv_state :: test_state where
  "example_recv_state = \<lparr> ts_base = example_base\<lparr> cb_reqs := (replicate MAX_REQUESTS idle_request)
       [3 := idle_request\<lparr> rq_type := NCCL_NET_IB_REQ_RECV, rq_nreqs := 1, rq_events := [1, 0] \<rparr>] \<rparr>,
     ts_sizesFifo = replicate 2048 0, ts_world = example_world,
     ts_cqs = (\<lambda>_. [])(0 := [(ncclSuccess, [\<lparr> wc_ok = True, wc_wr_id = 3,
        wc_opcode = IBV_WC_RECV_RDMA_WITH_IMM, wc_imm = 77 \<rparr>])]) \<rparr>"

theorem test_completes_recv_witness:
  "\<exists>st'. ncclIbTest example_params (\<lambda>_. 0) 3 example_recv_state = (ncclSuccess, True, [77], st')"
proof -
  let ?wc = "\<lparr> wc_ok = True, wc_wr_id = 3, wc_opcode = IBV_WC_RECV_RDMA_WITH_IMM, wc_imm = 77 \<rparr>"
  have c: "ts_cqs example_recv_state 0 = [(ncclSuccess, [?wc])]" "ts_cqs example_recv_state 1 = []"
    by (simp_all add: example_recv_state_def)
  have o: "owed 0 example_recv_state = [?wc]" "owed 1 example_recv_state = []"
    by (simp_all only: owed_def c) simp_all
  have b: "cb_reqs (ts_base example_recv_state) ! 3 =
      idle_request\<lparr> rq_type := NCCL_NET_IB_REQ_RECV, rq_nreqs := 1, rq_events := [1, 0] \<rparr>"
    "length (cb_reqs (ts_base example_recv_state)) = MAX_REQUESTS" "length (ts_sizesFifo example_recv_state) = 2048"
    "cb_fatal (ts_base example_recv_state) = 0"
    by (simp_all add: example_recv_state_def example_base_def)
  have w: "recv_wait example_params (ts_base example_recv_state) (ts_sizesFifo example_recv_state) 77 3 example_recv_state
      (owed 0 example_recv_state) (owed 1 example_recv_state)"
    unfolding o recv_wait_def using b
    by (simp add: only_events_def names_recv_def brings_size_def row_def idle_request_def
        ncclIbStatsCheckFatalCount_def)
  from test_completes_recv [OF w, of "\<lambda>_. 0"] c b show ?thesis
    by (auto simp: batches_ok_def ncclIbStatsCheckFatalCount_def)
qed

end
