(* ===== verification/IbRecv.thy ===== *)
theory IbRecv
  imports Isend
begin

text \<open>
  The receiving side of a transfer: \<^verbatim>\<open>ncclIbIrecv\<close>, \<^verbatim>\<open>ncclIbPostFifo\<close> and \<^verbatim>\<open>ncclIbIflush\<close> of
  \<^verbatim>\<open>src/unet/unet_ib.cc\<close>. A receive posts one receive request per queue pair of the round and
  then tells the sender where to write, through an RDMA write into the sender's fifo.
\<close>

section \<open>ncclIbPostFifo\<close>

definition cts_entry ::
    "ncclIbRecvComm \<Rightarrow> nat \<Rightarrow> u64 \<Rightarrow> int \<Rightarrow> int \<Rightarrow> ncclIbMrKeys \<Rightarrow> ncclIbSendFifo \<Rightarrow> ncclIbSendFifo" where
  "cts_entry comm n data sz tag mh e =
     e\<lparr> sf_addr := data,
        sf_rkeys := fold (\<lambda>j ks. ks[j := mk_rkeys mh ! j]) [0..<cb_ndevs (rc_base comm)] (sf_rkeys e),
        sf_nreqs := word_of_nat n, sf_size := sz, sf_tag := word_of_int tag,
        sf_idx := rc_fifoTail comm + 1 \<rparr>"

definition tail_slot :: "ncclIbRecvComm \<Rightarrow> nat" where
  "tail_slot comm = unat (rc_fifoTail comm mod 256)"

definition cts_wr :: "ncclIbRecvComm \<Rightarrow> nat \<Rightarrow> nat \<Rightarrow> ncclIbQp \<Rightarrow> ibv_send_wr" where
  "cts_wr comm n req ctsQp =
     (let slot = tail_slot comm;
          wr = zero_wr\<lparr> wr_remote_addr := rc_fifo_addr comm + word_of_nat (row slot 0 * sizeof_SendFifo),
                       wr_rkey := cb_fifoRkeys (rc_base comm) ! qp_remDevIdx ctsQp,
                       wr_sg := Some \<lparr> sge_addr = rc_fifo_local comm + word_of_nat (row slot 0 * sizeof_SendFifo),
                                      sge_length = word_of_nat (n * sizeof_SendFifo),
                                      sge_lkey = rc_fifo_lkeys comm ! qp_devIndex ctsQp \<rparr>,
                       wr_opcode := IBV_WR_RDMA_WRITE, wr_inline := rc_fifo_inline comm \<rparr>
      in if slot = qp_devIndex ctsQp then wr\<lparr> wr_signaled := True, wr_id := word_of_nat req \<rparr> else wr)"

definition ncclIbPostFifo ::
    "verbs \<Rightarrow> nat \<Rightarrow> u64 list \<Rightarrow> int list \<Rightarrow> int list \<Rightarrow> ncclIbMrKeys list \<Rightarrow> nat \<Rightarrow> ncclIbRecvComm \<Rightarrow> world
       \<Rightarrow> ncclResult \<times> ncclIbRecvComm \<times> world" where
  "ncclIbPostFifo v n data sizes tags mhs req comm w =
     (let slot = tail_slot comm;
          comm = comm\<lparr> rc_base := upd_req req (\<lambda>r. r\<lparr> recv_sizes := slot \<rparr>) (rc_base comm),
                       rc_sizesFifo := fold (\<lambda>i zs. zs[row slot i := 0]) [0..<n] (rc_sizesFifo comm) \<rparr>;
          ctsQp = cb_qps (rc_base comm) ! cb_devIndex (rc_base comm);
          comm = comm\<lparr> rc_base := (rc_base comm)\<lparr> cb_devIndex :=
                          (cb_devIndex (rc_base comm) + 1) mod cb_ndevs (rc_base comm) \<rparr> \<rparr>;
          comm = comm\<lparr> rc_fifo := fold (\<lambda>i es. es[row slot i :=
                          cts_entry comm n (data ! i) (sizes ! i) (tags ! i) (mhs ! i) (es ! row slot i)])
                          [0..<n] (rc_fifo comm) \<rparr>;
          wr = cts_wr comm n req ctsQp;
          comm = (if slot = qp_devIndex ctsQp
                  then comm\<lparr> rc_base := upd_req req (ncclIbAddEvent (qp_devIndex ctsQp)) (rc_base comm) \<rparr>
                  else comm);
          (res, w) = nic_post v (PostSend (qp_handle ctsQp) [wr]) w
      in if ncclCheckFails res then (res, comm, w)
         else (ncclSuccess, comm\<lparr> rc_fifoTail := rc_fifoTail comm + 1 \<rparr>, ib_inc UNET_IB_FIFO_POST_COUNT w))"

section \<open>ncclIbIrecv\<close>

text \<open>One event and one receive request per queue pair of the round.\<close>

fun post_recvs :: "verbs \<Rightarrow> nat \<Rightarrow> nat \<Rightarrow> ncclIbRecvComm \<Rightarrow> world \<Rightarrow> ncclResult \<times> ncclIbRecvComm \<times> world" where
  "post_recvs v req 0 comm w = (ncclSuccess, comm, w)"
| "post_recvs v req (Suc k) comm w =
     (let b = rc_base comm;
          qp = cb_qps b ! cb_qpIndex b;
          comm = comm\<lparr> rc_base := upd_req req (ncclIbAddEvent (qp_devIndex qp)) b \<rparr>;
          (res, w) = nic_post v (PostRecv (qp_handle qp) (word_of_nat req)) w
      in if ncclCheckFails res then (res, comm, w)
         else post_recvs v req k (comm\<lparr> rc_base := next_qp (rc_base comm) \<rparr>) w)"

text \<open>The request is what the call leaves in \<^verbatim>\<open>*request\<close>, only set when it succeeds.\<close>

definition ncclIbIrecv ::
    "ib_params \<Rightarrow> verbs \<Rightarrow> nat \<Rightarrow> u64 list \<Rightarrow> int list \<Rightarrow> int list \<Rightarrow> ncclIbMrKeys list \<Rightarrow> ncclIbRecvComm \<Rightarrow> world
       \<Rightarrow> ncclResult \<times> nat option \<times> ncclIbRecvComm \<times> world" where
  "ncclIbIrecv pm v n data sizes tags mhs comm w =
     (if cb_ready (rc_base comm) = 0 then (ncclInternalError, None, comm, w)
      else if n > NCCL_NET_IB_MAX_RECVS then (ncclInternalError, None, comm, w)
      else let res = ncclIbStatsCheckFatalCount pm (cb_fatal (rc_base comm)) in
        if ncclCheckFails res then (res, None, comm, w)
        else case ncclIbGetRequest (rc_base comm) of
          (res, b, None) \<Rightarrow> (res, None, comm\<lparr> rc_base := b \<rparr>, w)
        | (res, b, Some req) \<Rightarrow>
            let b = upd_req req (\<lambda>r. r\<lparr> rq_type := NCCL_NET_IB_REQ_RECV, rq_sock := True, rq_nreqs := int n,
                      rq_devBases := fold (\<lambda>i ds. ds[i := Some i]) [0..<cb_ndevs b] (rq_devBases r) \<rparr>) b;
                (res, comm, w) = post_recvs v req (conn_nqps pm b) (comm\<lparr> rc_base := b \<rparr>) w
            in if ncclCheckFails res then (res, None, comm, w)
               else let (res, comm, w) = ncclIbPostFifo v n data sizes tags mhs req comm w
                    in if ncclCheckFails res then (res, None, comm, w)
                       else (ncclSuccess, Some req, comm, w))"

section \<open>ncclIbIflush\<close>

text \<open>The index of the last receive with a size, as the loop over the sizes leaves it.\<close>

fun last_nonzero :: "int list \<Rightarrow> nat \<Rightarrow> int \<Rightarrow> int" where
  "last_nonzero [] i lst = lst"
| "last_nonzero (s # ss) i lst = last_nonzero ss (Suc i) (if s \<noteq> 0 then int i else lst)"

fun flush_devs :: "verbs \<Rightarrow> nat \<Rightarrow> u64 \<Rightarrow> ncclIbMrKeys \<Rightarrow> nat list \<Rightarrow> ncclIbRecvComm \<Rightarrow> world
       \<Rightarrow> ncclResult \<times> ncclIbRecvComm \<times> world" where
  "flush_devs v req addr mh [] comm w = (ncclSuccess, comm, w)"
| "flush_devs v req addr mh (i # is) comm w =
     (let wr = zero_wr\<lparr> wr_id := word_of_nat req, wr_remote_addr := addr, wr_rkey := mk_rkeys mh ! i,
                       wr_sg := Some (gf_sge (rc_flush comm ! i)), wr_opcode := IBV_WR_RDMA_READ, wr_signaled := True \<rparr>;
          (res, w) = nic_post v (PostSend (gf_qp (rc_flush comm ! i)) [wr]) w
      in if ncclCheckFails res then (res, comm, w)
         else flush_devs v req addr mh is
                (comm\<lparr> rc_base := upd_req req (ncclIbAddEvent i) (rc_base comm) \<rparr>) w)"

text \<open>The request is \<open>None\<close> when the call leaves \<^verbatim>\<open>*request\<close> unset.\<close>

definition ncclIbIflush ::
    "verbs \<Rightarrow> nat \<Rightarrow> u64 list \<Rightarrow> int list \<Rightarrow> ncclIbMrKeys list \<Rightarrow> ncclIbRecvComm \<Rightarrow> world
       \<Rightarrow> ncclResult \<times> nat option \<times> ncclIbRecvComm \<times> world" where
  "ncclIbIflush v n data sizes mhs comm w =
     (let lst = last_nonzero (take n sizes) 0 (-1) in
      if \<not> rc_flushEnabled comm \<or> lst = -1 then (ncclSuccess, None, comm, w)
      else case ncclIbGetRequest (rc_base comm) of
        (res, b, None) \<Rightarrow> (res, None, comm\<lparr> rc_base := b \<rparr>, w)
      | (res, b, Some req) \<Rightarrow>
          let b = upd_req req (\<lambda>r. r\<lparr> rq_type := NCCL_NET_IB_REQ_FLUSH, rq_sock := True \<rparr>) b;
              (res, comm, w) = flush_devs v req (data ! nat lst) (mhs ! nat lst) [0..<cb_ndevs b] (comm\<lparr> rc_base := b \<rparr>) w
          in if ncclCheckFails res then (res, None, comm, w) else (ncclSuccess, Some req, comm, w))"

section \<open>What a receive posts\<close>

definition recv_inv :: "ncclIbRecvComm \<Rightarrow> bool" where
  "recv_inv comm \<longleftrightarrow>
     length (cb_reqs (rc_base comm)) = MAX_REQUESTS \<and> length (rc_fifo comm) = 2048 \<and>
     length (rc_sizesFifo comm) = 2048 \<and> cb_qpIndex (rc_base comm) < cb_nqps (rc_base comm) \<and>
     0 < cb_ndevs (rc_base comm) \<and> cb_ndevs (rc_base comm) \<le> NCCL_IB_MAX_DEVS_PER_NIC \<and>
     cb_devIndex (rc_base comm) = tail_slot comm mod cb_ndevs (rc_base comm) \<and>
     (\<forall>d < cb_ndevs (rc_base comm). qp_devIndex (cb_qps (rc_base comm) ! d) = d)"

lemma tail_slot_nat: "tail_slot comm = unat (rc_fifoTail comm) mod 256"
  by (simp add: tail_slot_def unat_mod)

lemma tail_slot_less: "tail_slot comm < 256"
  by (simp add: tail_slot_nat)

lemma ncclIbAddEvent_sel [simp]:
  "rq_type (ncclIbAddEvent d r) = rq_type r" "rq_nreqs (ncclIbAddEvent d r) = rq_nreqs r"
  "recv_sizes (ncclIbAddEvent d r) = recv_sizes r" "length (rq_events (ncclIbAddEvent d r)) = length (rq_events r)"
  by (simp_all add: ncclIbAddEvent_def)

lemma upd_req_upd_req: "i < length (cb_reqs b) \<Longrightarrow> upd_req i f (upd_req i g b) = upd_req i (f \<circ> g) b"
  by (simp add: upd_req_def)

text \<open>The events of \<open>m\<close> queue pairs counted from the current one.\<close>

fun count_events :: "ncclIbNetCommBase \<Rightarrow> nat \<Rightarrow> ncclIbRequest \<Rightarrow> ncclIbRequest" where
  "count_events b 0 r = r"
| "count_events b (Suc m) r = count_events (next_qp b) m (ncclIbAddEvent (qp_devIndex (qp_at b 0)) r)"

lemma qp_at_0: "cb_qpIndex b < cb_nqps b \<Longrightarrow> qp_at b 0 = cb_qps b ! cb_qpIndex b"
  by (simp add: qp_at_def)

lemma qp_at_next: "qp_at (next_qp b) k = qp_at b (Suc k)"
  by (simp add: qp_at_def next_qp_def mod_add_left_eq)

lemma next_qp_upd_req: "next_qp (upd_req i f b) = upd_req i f (next_qp b)"
  by (simp add: next_qp_def upd_req_def)

lemma count_events_sel [simp]:
  "rq_type (count_events b m r) = rq_type r" "rq_nreqs (count_events b m r) = rq_nreqs r"
  "recv_sizes (count_events b m r) = recv_sizes r"
  "length (rq_events (count_events b m r)) = length (rq_events r)"
  by (induction b m r rule: count_events.induct) simp_all

lemma count_events_nth:
  "d < length (rq_events r) \<Longrightarrow> rq_events (count_events b m r) ! d = rq_events r ! d + int (dev_count b m d)"
proof (induction b m r rule: count_events.induct)
  case (1 b r)
  then show ?case by (simp add: dev_count_def)
next
  case (2 b m r)
  have "dev_count (next_qp b) m d = length (filter (\<lambda>k. qp_devIndex (qp_at b (Suc k)) = d) [0..<m])"
    by (simp add: dev_count_def qp_at_next)
  then show ?case using 2 dev_count_Suc [of b m d] by (simp add: ncclIbAddEvent_def list_update_nth_cases)
qed

lemma count_events_cong:
  "cb_qps b' = cb_qps b \<Longrightarrow> cb_nqps b' = cb_nqps b \<Longrightarrow> cb_qpIndex b' = cb_qpIndex b \<Longrightarrow> count_events b' m r = count_events b m r"
proof (induction b m r arbitrary: b' rule: count_events.induct)
  case (1 b r)
  then show ?case by simp
next
  case (2 b m r)
  have "qp_at b' 0 = qp_at b 0" using "2.prems" by (simp add: qp_at_def)
  moreover have "count_events (next_qp b') m r' = count_events (next_qp b) m r'"
    if "r' = ncclIbAddEvent (qp_devIndex (qp_at b 0)) r" for r'
    unfolding that by (rule "2.IH") (use "2.prems" in \<open>simp_all add: next_qp_def\<close>)
  ultimately show ?case by simp
qed

lemma funpow_next_qp: "(next_qp ^^ m) b = (if m = 0 then b else b\<lparr> cb_qpIndex := (cb_qpIndex b + m) mod cb_nqps b \<rparr>)"
  by (induction m) (auto simp: next_qp_def mod_Suc_eq)

lemma post_recvs_closed:
  assumes "post_recvs v req m comm w = (res, comm', w')" "\<not> ncclCheckFails res"
    "req < length (cb_reqs (rc_base comm))" "cb_qpIndex (rc_base comm) < cb_nqps (rc_base comm)"
  shows "res = ncclSuccess \<and> wd_posts w' = wd_posts w @
      map (\<lambda>k. PostRecv (qp_handle (qp_at (rc_base comm) k)) (word_of_nat req)) [0..<m] \<and>
    comm' = comm\<lparr> rc_base := upd_req req (count_events (rc_base comm) m) ((next_qp ^^ m) (rc_base comm)) \<rparr>"
  using assms
proof (induction m arbitrary: comm w)
  case 0
  then show ?case by (simp add: upd_req_def)
next
  case (Suc m)
  let ?b = "rc_base comm"
  let ?qp = "cb_qps ?b ! cb_qpIndex ?b"
  let ?c = "comm\<lparr> rc_base := next_qp (upd_req req (ncclIbAddEvent (qp_devIndex ?qp)) ?b) \<rparr>"
  obtain res1 w1 where p: "nic_post v (PostRecv (qp_handle ?qp) (word_of_nat req)) w = (res1, w1)" by fastforce
  have nf: "\<not> ncclCheckFails res1" using Suc.prems p by (auto simp: Let_def split: if_splits)
  have rec: "post_recvs v req m ?c w1 = (res, comm', w')" using Suc.prems(1) p nf by (simp add: Let_def)
  have w1: "wd_posts w1 = wd_posts w @ [PostRecv (qp_handle (qp_at ?b 0)) (word_of_nat req)]"
    using p nf Suc.prems(4) by (auto simp: nic_post_def Let_def qp_at_0)
  have len: "req < length (cb_reqs (rc_base ?c))" "cb_qpIndex (rc_base ?c) < cb_nqps (rc_base ?c)"
    using Suc.prems by (simp_all add: next_qp_def)
  note ih = Suc.IH [OF rec Suc.prems(2) len]
  have base: "rc_base ?c = upd_req req (ncclIbAddEvent (qp_devIndex (qp_at ?b 0))) (next_qp ?b)"
    using Suc.prems(4) by (simp add: next_qp_upd_req qp_at_0)
  have it: "(next_qp ^^ m) (upd_req req f b) = upd_req req f ((next_qp ^^ m) b)" for f b
    by (induction m) (simp_all add: next_qp_upd_req)
  have "upd_req req (count_events (rc_base ?c) m) ((next_qp ^^ m) (rc_base ?c)) =
      upd_req req (count_events ?b (Suc m)) ((next_qp ^^ Suc m) ?b)"
  proof -
    have "count_events (rc_base ?c) m = count_events (next_qp ?b) m"
      unfolding base by (rule ext, rule count_events_cong) (simp_all add: next_qp_def)
    moreover have "req < length (cb_reqs ((next_qp ^^ m) (next_qp ?b)))"
      using Suc.prems(3) by (simp add: funpow_next_qp next_qp_def)
    moreover have "count_events ?b (Suc m) =
        count_events (next_qp ?b) m \<circ> ncclIbAddEvent (qp_devIndex (qp_at ?b 0))"
      by (rule ext) simp
    ultimately show ?thesis
      unfolding base it by (simp add: upd_req_upd_req funpow_swap1 del: count_events.simps)
  qed
  moreover have "qp_at (rc_base ?c) k = qp_at ?b (Suc k)" for k
    unfolding base using qp_at_next [of ?b] by (simp add: qp_at_def)
  moreover have "[0..<Suc m] = 0 # map Suc [0..<m]" by (simp add: upt_conv_Cons map_Suc_upt del: upt_Suc)
  ultimately show ?case using ih w1 by (simp add: o_def del: upt_Suc count_events.simps)
qed

text \<open>The queue pair and the entries of the offer.\<close>

definition cts_qp :: "ncclIbRecvComm \<Rightarrow> ncclIbQp" where
  "cts_qp comm = cb_qps (rc_base comm) ! cb_devIndex (rc_base comm)"

definition offered :: "ncclIbRecvComm \<Rightarrow> nat \<Rightarrow> u64 list \<Rightarrow> int list \<Rightarrow> int list \<Rightarrow> ncclIbMrKeys list \<Rightarrow> ncclIbSendFifo list" where
  "offered comm n data sizes tags mhs =
     fold (\<lambda>i es. es[row (tail_slot comm) i :=
            cts_entry comm n (data ! i) (sizes ! i) (tags ! i) (mhs ! i) (es ! row (tail_slot comm) i)])
       [0..<n] (rc_fifo comm)"

definition cts_event :: "ncclIbRecvComm \<Rightarrow> ncclIbRequest \<Rightarrow> ncclIbRequest" where
  "cts_event comm r = (if tail_slot comm = qp_devIndex (cts_qp comm) then ncclIbAddEvent (qp_devIndex (cts_qp comm)) r else r)"

lemma cts_frame [simp]:
  "cts_wr (comm\<lparr> rc_sizesFifo := z \<rparr>) = cts_wr comm" "cts_wr (comm\<lparr> rc_fifo := e \<rparr>) = cts_wr comm"
  "cts_entry (comm\<lparr> rc_sizesFifo := z \<rparr>) = cts_entry comm"
  "tail_slot (comm\<lparr> rc_sizesFifo := z \<rparr>) = tail_slot comm" "tail_slot (comm\<lparr> rc_fifo := e \<rparr>) = tail_slot comm"
  "tail_slot (comm\<lparr> rc_base := b \<rparr>) = tail_slot comm"
  by (simp_all add: cts_wr_def cts_entry_def tail_slot_def fun_eq_iff)

lemma cts_frame_base:
  "cb_fifoRkeys b = cb_fifoRkeys (rc_base comm) \<Longrightarrow> cts_wr (comm\<lparr> rc_base := b \<rparr>) = cts_wr comm"
  "cb_ndevs b = cb_ndevs (rc_base comm) \<Longrightarrow> cts_entry (comm\<lparr> rc_base := b \<rparr>) = cts_entry comm"
  by (simp_all add: cts_wr_def cts_entry_def tail_slot_def fun_eq_iff)

lemma PostFifo_closed:
  assumes "ncclIbPostFifo v n data sizes tags mhs req comm w = (res, comm', w')" "\<not> ncclCheckFails res"
    "req < length (cb_reqs (rc_base comm))"
  shows "res = ncclSuccess \<and>
    wd_posts w' = wd_posts w @ [PostSend (qp_handle (cts_qp comm)) [cts_wr comm n req (cts_qp comm)]] \<and>
    comm' = comm\<lparr>
      rc_base := upd_req req (cts_event comm \<circ> (\<lambda>r. r\<lparr> recv_sizes := tail_slot comm \<rparr>)) ((rc_base comm)
        \<lparr> cb_devIndex := (cb_devIndex (rc_base comm) + 1) mod cb_ndevs (rc_base comm) \<rparr>),
      rc_sizesFifo := fold (\<lambda>i zs. zs[row (tail_slot comm) i := 0]) [0..<n] (rc_sizesFifo comm),
      rc_fifo := offered comm n data sizes tags mhs, rc_fifoTail := rc_fifoTail comm + 1 \<rparr>"
proof -
  have move: "(upd_req req f b)\<lparr> cb_devIndex := d \<rparr> = upd_req req f (b\<lparr> cb_devIndex := d \<rparr>)" for f b d
    by (simp add: upd_req_def)
  define R where "R = v (wd_posts w) (PostSend (qp_handle (cts_qp comm)) [cts_wr comm n req (cts_qp comm)])"
  have run: "(res, comm', w') =
      (if ncclCheckFails R then (R, snd (res, comm', w')) else (ncclSuccess, comm\<lparr>
      rc_base := upd_req req (cts_event comm \<circ> (\<lambda>r. r\<lparr> recv_sizes := tail_slot comm \<rparr>)) ((rc_base comm)
        \<lparr> cb_devIndex := (cb_devIndex (rc_base comm) + 1) mod cb_ndevs (rc_base comm) \<rparr>),
      rc_sizesFifo := fold (\<lambda>i zs. zs[row (tail_slot comm) i := 0]) [0..<n] (rc_sizesFifo comm),
      rc_fifo := offered comm n data sizes tags mhs, rc_fifoTail := rc_fifoTail comm + 1 \<rparr>,
      ib_inc UNET_IB_FIFO_POST_COUNT (w\<lparr> wd_posts := wd_posts w @
        [PostSend (qp_handle (cts_qp comm)) [cts_wr comm n req (cts_qp comm)]] \<rparr>)))"
    using assms(1,3)
    by (auto simp: ncclIbPostFifo_def Let_def nic_post_def cts_frame_base move R_def cts_qp_def offered_def
        cts_event_def [abs_def] upd_req_upd_req comp_def split: if_splits)
  then show ?thesis using assms(2) by (auto split: if_splits)
qed

text \<open>The request of a receive before its events are counted.\<close>

definition fresh_recv :: "nat \<Rightarrow> nat \<Rightarrow> ncclIbRequest \<Rightarrow> ncclIbRequest" where
  "fresh_recv n ndevs r = r\<lparr> rq_events := [0, 0], rq_type := NCCL_NET_IB_REQ_RECV, rq_sock := True, rq_nreqs := int n,
     rq_devBases := fold (\<lambda>i ds. ds[i := Some i]) [0..<ndevs] [None, None] \<rparr>"

lemma upd_req_index_move:
  "(upd_req i f b)\<lparr> cb_qpIndex := q \<rparr> = upd_req i f (b\<lparr> cb_qpIndex := q \<rparr>)"
  "(upd_req i f b)\<lparr> cb_devIndex := d \<rparr> = upd_req i f (b\<lparr> cb_devIndex := d \<rparr>)"
  by (simp_all add: upd_req_def)

lemma irecv_closed:
  assumes inv: "recv_inv comm"
    and run: "ncclIbIrecv pm v n data sizes tags mhs comm w = (ncclSuccess, rq, comm', w')"
  obtains req where "rq = Some req" "req \<in> unused (rc_base comm)" "n \<le> NCCL_NET_IB_MAX_RECVS"
    "wd_posts w' = wd_posts w @ map (\<lambda>k. PostRecv (qp_handle (qp_at (rc_base comm) k)) (word_of_nat req))
         [0..<conn_nqps pm (rc_base comm)] @
       [PostSend (qp_handle (cts_qp comm)) [cts_wr comm n req (cts_qp comm)]]"
    "rc_base comm' = upd_req req (\<lambda>r. cts_event comm ((count_events (rc_base comm) (conn_nqps pm (rc_base comm))
         (fresh_recv n (cb_ndevs (rc_base comm)) r))\<lparr> recv_sizes := tail_slot comm \<rparr>))
       ((rc_base comm)\<lparr> cb_qpIndex := (cb_qpIndex (rc_base comm) + conn_nqps pm (rc_base comm)) mod cb_nqps (rc_base comm),
          cb_devIndex := (cb_devIndex (rc_base comm) + 1) mod cb_ndevs (rc_base comm) \<rparr>)"
    "rc_fifo comm' = offered comm n data sizes tags mhs"
    "rc_sizesFifo comm' = fold (\<lambda>i zs. zs[row (tail_slot comm) i := 0]) [0..<n] (rc_sizesFifo comm)"
    "rc_fifoTail comm' = rc_fifoTail comm + 1"
proof -
  let ?b = "rc_base comm" and ?m = "conn_nqps pm (rc_base comm)"
  have go: "cb_ready ?b \<noteq> 0" "n \<le> NCCL_NET_IB_MAX_RECVS" "\<not> ncclCheckFails (ncclIbStatsCheckFatalCount pm (cb_fatal ?b))"
    using run by (auto simp: ncclIbIrecv_def Let_def split: if_splits)
  show thesis
  proof (cases rule: ncclIbGetRequest_cases [of ?b])
    case full
    then show thesis using run go by (auto simp: ncclIbIrecv_def Let_def)
  next
    case (ok req)
    let ?b2 = "upd_req req (fresh_recv n (cb_ndevs ?b)) ?b"
    have req: "req < length (cb_reqs ?b)" using ok(1) by (simp add: unused_def)
    have b2: "upd_req req (\<lambda>r. r\<lparr> rq_type := NCCL_NET_IB_REQ_RECV, rq_sock := True, rq_nreqs := int n,
          rq_devBases := fold (\<lambda>i ds. ds[i := Some i]) [0..<cb_ndevs ?b] (rq_devBases r) \<rparr>)
        (upd_req req (\<lambda>r. r\<lparr> rq_sock := False, rq_devBases := [None, None], rq_events := [0, 0] \<rparr>) ?b) = ?b2"
      using req by (simp add: upd_req_upd_req fresh_recv_def [abs_def] comp_def)
    have m: "conn_nqps pm ?b2 = ?m" by (simp add: conn_nqps_def)
    have m0: "0 < ?m" using inv by (auto simp: conn_nqps_def recv_inv_def)
    obtain res1 c1 w1 where p1: "post_recvs v req ?m (comm\<lparr> rc_base := ?b2 \<rparr>) w = (res1, c1, w1)"
      by (cases "post_recvs v req ?m (comm\<lparr> rc_base := ?b2 \<rparr>) w") auto
    have nf1: "\<not> ncclCheckFails res1"
      using run go ok(3) p1 unfolding ncclIbIrecv_def Let_def by (auto simp: b2 m split: if_splits)
    obtain res2 c2 w2 where p2: "ncclIbPostFifo v n data sizes tags mhs req c1 w1 = (res2, c2, w2)"
      by (cases "ncclIbPostFifo v n data sizes tags mhs req c1 w1") auto
    have nf2: "\<not> ncclCheckFails res2" "rq = Some req" "comm' = c2" "w' = w2"
      using run go ok(3) p1 nf1 p2 unfolding ncclIbIrecv_def Let_def by (auto simp: b2 m split: if_splits)
    have q: "cb_qpIndex ?b2 < cb_nqps ?b2" using inv by (simp add: recv_inv_def)
    have f1: "wd_posts w1 = wd_posts w @ map (\<lambda>k. PostRecv (qp_handle (qp_at ?b2 k)) (word_of_nat req)) [0..<?m]"
      "c1 = comm\<lparr> rc_base := upd_req req (count_events ?b2 ?m) ((next_qp ^^ ?m) ?b2) \<rparr>"
      using post_recvs_closed [OF p1 nf1] req q by simp_all
    have ev: "count_events ?b2 ?m = count_events ?b ?m" "qp_at ?b2 = qp_at ?b"
      by (rule ext, rule count_events_cong, simp_all) (rule qp_at_cong, simp_all)
    have base1: "rc_base c1 = upd_req req (count_events ?b ?m \<circ> fresh_recv n (cb_ndevs ?b))
        (?b\<lparr> cb_qpIndex := (cb_qpIndex ?b + ?m) mod cb_nqps ?b \<rparr>)"
      using m0 req unfolding f1 ev by (simp add: funpow_next_qp upd_req_index_move upd_req_upd_req)
    obtain B where c1: "c1 = comm\<lparr> rc_base := B \<rparr>" "cb_qps B = cb_qps ?b" "cb_devIndex B = cb_devIndex ?b"
        "cb_ndevs B = cb_ndevs ?b" "cb_fifoRkeys B = cb_fifoRkeys ?b"
    proof (rule that)
      show "c1 = comm\<lparr> rc_base := rc_base c1 \<rparr>" unfolding f1(2) by simp
    qed (simp_all add: base1)
    have qp: "cts_qp c1 = cts_qp comm" "tail_slot c1 = tail_slot comm" using c1 by (simp_all add: cts_qp_def)
    have ce: "cts_event c1 = cts_event comm" by (rule ext) (simp add: cts_event_def qp)
    have cts: "cts_qp c1 = cts_qp comm" "tail_slot c1 = tail_slot comm" "cts_event c1 = cts_event comm"
      "cts_wr c1 = cts_wr comm" "offered c1 n data sizes tags mhs = offered comm n data sizes tags mhs"
      "rc_sizesFifo c1 = rc_sizesFifo comm" "rc_fifoTail c1 = rc_fifoTail comm"
      using qp ce c1 by (simp_all add: offered_def cts_frame_base)
    have len1: "req < length (cb_reqs (rc_base c1))" using base1 req by simp
    have f2: "wd_posts w2 = wd_posts w1 @ [PostSend (qp_handle (cts_qp comm)) [cts_wr comm n req (cts_qp comm)]]"
      "c2 = c1\<lparr> rc_base := upd_req req (cts_event comm \<circ> (\<lambda>r. r\<lparr> recv_sizes := tail_slot comm \<rparr>)) ((rc_base c1)
          \<lparr> cb_devIndex := (cb_devIndex (rc_base c1) + 1) mod cb_ndevs (rc_base c1) \<rparr>),
        rc_sizesFifo := fold (\<lambda>i zs. zs[row (tail_slot comm) i := 0]) [0..<n] (rc_sizesFifo comm),
        rc_fifo := offered comm n data sizes tags mhs, rc_fifoTail := rc_fifoTail comm + 1 \<rparr>"
      using PostFifo_closed [OF p2 nf2(1) len1] unfolding cts by simp_all
    have "rc_base c2 = upd_req req (\<lambda>r. cts_event comm ((count_events ?b ?m (fresh_recv n (cb_ndevs ?b) r))
          \<lparr> recv_sizes := tail_slot comm \<rparr>))
        (?b\<lparr> cb_qpIndex := (cb_qpIndex ?b + ?m) mod cb_nqps ?b, cb_devIndex := (cb_devIndex ?b + 1) mod cb_ndevs ?b \<rparr>)"
      unfolding f2(2) base1 using req by (simp add: upd_req_index_move upd_req_upd_req comp_def)
    then show thesis
      using that [of req] nf2 ok(1) go(2) f1(1) f2 ev(2) by simp
  qed
qed

lemma cts_wr_sel:
  "wr_signaled (cts_wr comm n req qp) \<longleftrightarrow> tail_slot comm = qp_devIndex qp"
  "wr_id (cts_wr comm n req qp) = (if tail_slot comm = qp_devIndex qp then word_of_nat req else 0)"
  "wr_opcode (cts_wr comm n req qp) = IBV_WR_RDMA_WRITE"
  by (auto simp: cts_wr_def zero_wr_def Let_def)

text \<open>The request of a successful receive: what has been posted under its index, and the events it waits for.\<close>

lemma irecv_request:
  assumes "recv_inv comm" "ncclIbIrecv pm v n data sizes tags mhs comm w = (ncclSuccess, rq, comm', w')"
  obtains req wr where "rq = Some req" "req \<in> unused (rc_base comm)"
    "new_posts w w' = map (\<lambda>k. PostRecv (qp_handle (qp_at (rc_base comm) k)) (word_of_nat req))
        [0..<conn_nqps pm (rc_base comm)] @ [PostSend (qp_handle (cts_qp comm)) [wr]]"
    "wr_signaled wr \<longleftrightarrow> tail_slot comm = qp_devIndex (cts_qp comm)"
    "wr_id wr = (if wr_signaled wr then word_of_nat req else 0)"
    "rq_type (cb_reqs (rc_base comm') ! req) = NCCL_NET_IB_REQ_RECV" "rq_nreqs (cb_reqs (rc_base comm') ! req) = int n"
    "recv_sizes (cb_reqs (rc_base comm') ! req) = tail_slot comm"
    "rq_events (cb_reqs (rc_base comm') ! req) = map (\<lambda>d. int (dev_count (rc_base comm) (conn_nqps pm (rc_base comm)) d) +
       (if wr_signaled wr \<and> qp_devIndex (cts_qp comm) = d then 1 else 0)) [0, 1]"
    "\<forall>i < MAX_REQUESTS. i \<noteq> req \<longrightarrow> cb_reqs (rc_base comm') ! i = cb_reqs (rc_base comm) ! i"
    "cb_fatal (rc_base comm') = cb_fatal (rc_base comm)"
proof -
  let ?b = "rc_base comm" and ?m = "conn_nqps pm (rc_base comm)"
  obtain req where rq: "rq = Some req" and req: "req \<in> unused ?b"
    and posts: "wd_posts w' = wd_posts w @ map (\<lambda>k. PostRecv (qp_handle (qp_at ?b k)) (word_of_nat req)) [0..<?m] @
       [PostSend (qp_handle (cts_qp comm)) [cts_wr comm n req (cts_qp comm)]]"
    and base: "rc_base comm' = upd_req req (\<lambda>r. cts_event comm ((count_events ?b ?m (fresh_recv n (cb_ndevs ?b) r))\<lparr> recv_sizes := tail_slot comm \<rparr>))
       (?b\<lparr> cb_qpIndex := (cb_qpIndex ?b + ?m) mod cb_nqps ?b, cb_devIndex := (cb_devIndex ?b + 1) mod cb_ndevs ?b \<rparr>)"
    by (rule irecv_closed [OF assms])
  let ?wr = "cts_wr comm n req (cts_qp comm)"
  have len: "req < length (cb_reqs ?b)" "length (cb_reqs ?b) = MAX_REQUESTS"
    using req assms(1) by (simp_all add: unused_def recv_inv_def)
  let ?r = "(count_events ?b ?m (fresh_recv n (cb_ndevs ?b) (cb_reqs ?b ! req)))\<lparr> recv_sizes := tail_slot comm \<rparr>"
  have r: "cb_reqs (rc_base comm') ! req = cts_event comm ?r" using len by (simp add: base nth_upd_req)
  have e: "length (rq_events ?r) = 2" "d < 2 \<Longrightarrow> rq_events ?r ! d = int (dev_count ?b ?m d)" for d
    by (auto simp: fresh_recv_def count_events_nth less_2_cases_iff)
  have "rq_events (cts_event comm ?r) = map (\<lambda>d. int (dev_count ?b ?m d) +
      (if wr_signaled ?wr \<and> qp_devIndex (cts_qp comm) = d then 1 else 0)) [0, 1]"
    unfolding list.map by (rule list2_eqI) (use e in \<open>simp_all add: cts_event_def cts_wr_sel ncclIbAddEvent_def list_update_nth_cases\<close>)
  moreover have "rq_type (cts_event comm ?r) = NCCL_NET_IB_REQ_RECV" "rq_nreqs (cts_event comm ?r) = int n"
    "recv_sizes (cts_event comm ?r) = tail_slot comm"
    by (simp_all add: cts_event_def fresh_recv_def)
  ultimately show thesis
    using rq req posts r len by (intro that [of req ?wr]) (simp_all add: new_posts_append cts_wr_sel base nth_upd_req)
qed

text \<open>
  C10: a receive that succeeds has posted one receive request on each queue pair of the round, each with the index of its
  request, and then one offer; the offer is signalled exactly when the number of its slot is the index of the device it is posted on, and then
  it carries the same index, and 0 otherwise. That request was free, the others are untouched, and for each device its events are the
  receive requests posted there, and one more on the device of a signalled offer.
\<close>
theorem irecv_event_accounting:
  assumes "recv_inv comm"
    "ncclIbIrecv pm v n data sizes tags mhs comm w = (ncclSuccess, rq, comm', w')" "d < 2"
  shows "\<exists>req wr. rq = Some req \<and> req \<in> unused (rc_base comm) \<and>
    new_posts w w' = map (\<lambda>k. PostRecv (qp_handle (qp_at (rc_base comm) k)) (word_of_nat req))
        [0..<conn_nqps pm (rc_base comm)] @ [PostSend (qp_handle (cts_qp comm)) [wr]] \<and>
    (wr_signaled wr \<longleftrightarrow> tail_slot comm = qp_devIndex (cts_qp comm)) \<and>
    wr_id wr = (if tail_slot comm = qp_devIndex (cts_qp comm) then word_of_nat req else 0) \<and>
    rq_type (cb_reqs (rc_base comm') ! req) = NCCL_NET_IB_REQ_RECV \<and>
    rq_nreqs (cb_reqs (rc_base comm') ! req) = int n \<and>
    rq_events (cb_reqs (rc_base comm') ! req) ! d =
      int (dev_count (rc_base comm) (conn_nqps pm (rc_base comm)) d) +
      (if tail_slot comm = qp_devIndex (cts_qp comm) \<and> qp_devIndex (cts_qp comm) = d then 1 else 0) \<and>
    (\<forall>i < MAX_REQUESTS. i \<noteq> req \<longrightarrow> cb_reqs (rc_base comm') ! i = cb_reqs (rc_base comm) ! i)"
  by (rule irecv_request [OF assms(1,2)]) (use assms(3) in \<open>auto simp: less_2_cases_iff\<close>)

lemma nth_fold_modify:
  assumes "distinct (map p is)" "\<forall>i \<in> set is. p i < length es"
  shows "i \<in> set is \<Longrightarrow> fold (\<lambda>i es. es[p i := f i (es ! p i)]) is es ! p i = f i (es ! p i)"
    "j < length es \<Longrightarrow> j \<notin> p ` set is \<Longrightarrow> fold (\<lambda>i es. es[p i := f i (es ! p i)]) is es ! j = es ! j"
proof -
  have "(\<forall>i \<in> set is. fold (\<lambda>i es. es[p i := f i (es ! p i)]) is es ! p i = f i (es ! p i)) \<and>
    (\<forall>j < length es. j \<notin> p ` set is \<longrightarrow> fold (\<lambda>i es. es[p i := f i (es ! p i)]) is es ! j = es ! j)"
    using assms
  proof (induction "is" arbitrary: es)
    case Nil
    then show ?case by simp
  next
    case (Cons i "is")
    have d: "distinct (map p is)" "p i \<notin> p ` set is" using Cons.prems(1) by auto
    have ne: "p i \<noteq> p k" if "k \<in> set is" for k using d(2) that by (metis image_eqI)
    have "\<forall>k \<in> set is. p k < length (es[p i := f i (es ! p i)])" using Cons.prems(2) by simp
    note ih = Cons.IH [OF d(1) this]
    show ?case using ih ne d(2) Cons.prems(2) by (simp add: list_update_nth_cases)
  qed
  then show "i \<in> set is \<Longrightarrow> fold (\<lambda>i es. es[p i := f i (es ! p i)]) is es ! p i = f i (es ! p i)"
    "j < length es \<Longrightarrow> j \<notin> p ` set is \<Longrightarrow> fold (\<lambda>i es. es[p i := f i (es ! p i)]) is es ! j = es ! j" by blast+
qed

lemma offered_nth:
  assumes "length (rc_fifo comm) = 2048" "n \<le> 8"
  shows "i < n \<Longrightarrow> offered comm n data sizes tags mhs ! row (tail_slot comm) i =
      cts_entry comm n (data ! i) (sizes ! i) (tags ! i) (mhs ! i) (rc_fifo comm ! row (tail_slot comm) i)"
    "s < 256 \<Longrightarrow> k < 8 \<Longrightarrow> s \<noteq> tail_slot comm \<or> n \<le> k \<Longrightarrow>
      offered comm n data sizes tags mhs ! row s k = rc_fifo comm ! row s k"
proof -
  let ?p = "row (tail_slot comm)"
  have d: "distinct (map ?p [0..<n])"
    using assms(2) by (simp add: distinct_map inj_on_def row_inj)
  have b: "\<forall>i \<in> set [0..<n]. ?p i < length (rc_fifo comm)"
    using assms row_less [OF tail_slot_less] by simp
  show "i < n \<Longrightarrow> offered comm n data sizes tags mhs ! ?p i =
      cts_entry comm n (data ! i) (sizes ! i) (tags ! i) (mhs ! i) (rc_fifo comm ! ?p i)"
    unfolding offered_def by (subst nth_fold_modify(1) [OF d b]) simp_all
  show "offered comm n data sizes tags mhs ! row s k = rc_fifo comm ! row s k"
    if "s < 256" "k < 8" "s \<noteq> tail_slot comm \<or> n \<le> k"
    unfolding offered_def
  proof (rule nth_fold_modify(2) [OF d b])
    show "row s k < length (rc_fifo comm)" using row_less [OF that(1,2)] assms(1) by simp
    show "row s k \<notin> ?p ` set [0..<n]" using that assms(2) by (auto simp: row_inj)
  qed
qed

text \<open>
  The offer of a successful receive: the entries of the tail's slot carry, for each buffer, its
  address, size, tag and the number of buffers, all stamped with the number of the receive (the tail
  plus one), the other slots are kept, the sizes of the slot read zero, and the tail moves one on.
\<close>
theorem irecv_offer:
  assumes "recv_inv comm"
    "ncclIbIrecv pm v n data sizes tags mhs comm w = (ncclSuccess, rq, comm', w')"
  shows "n \<le> 8 \<and> rc_fifoTail comm' = rc_fifoTail comm + 1 \<and>
    (\<forall>i < n. let e = rc_fifo comm' ! row (tail_slot comm) i in
       sf_addr e = data ! i \<and> sf_size e = sizes ! i \<and> sf_tag e = word_of_int (tags ! i) \<and>
       sf_nreqs e = word_of_nat n \<and> sf_idx e = rc_fifoTail comm + 1 \<and>
       rc_sizesFifo comm' ! row (tail_slot comm) i = 0) \<and>
    (\<forall>s < 256. \<forall>k < 8. s \<noteq> tail_slot comm \<longrightarrow> rc_fifo comm' ! row s k = rc_fifo comm ! row s k)"
proof -
  obtain req where n: "n \<le> NCCL_NET_IB_MAX_RECVS"
    and f: "rc_fifo comm' = offered comm n data sizes tags mhs"
    and z: "rc_sizesFifo comm' = fold (\<lambda>i zs. zs[row (tail_slot comm) i := 0]) [0..<n] (rc_sizesFifo comm)"
    and t: "rc_fifoTail comm' = rc_fifoTail comm + 1"
    by (rule irecv_closed [OF assms])
  have len: "length (rc_fifo comm) = 2048" "length (rc_sizesFifo comm) = 2048"
    using assms(1) by (simp_all add: recv_inv_def)
  have "rc_sizesFifo comm' ! row (tail_slot comm) i = 0" if "i < n" for i
    using that n len row_less [OF tail_slot_less, of i comm] by (simp add: z nth_fold_update)
  then show ?thesis
    using n t f offered_nth [OF len(1) n] by (simp add: cts_entry_def Let_def)
qed

lemma next_tail_slot: "unat ((t :: u64) + 1) mod 256 = (unat t mod 256 + 1) mod 256"
proof -
  have "unat (t + 1) = (unat t + 1) mod 2 ^ 64" by (simp add: unat_word_ariths)
  moreover have "(256 :: nat) dvd 2 ^ 64" by simp
  ultimately show ?thesis by (simp add: mod_mod_cancel mod_Suc_eq)
qed

lemma irecv_keeps_inv:
  assumes "recv_inv comm" "ncclIbIrecv pm v n data sizes tags mhs comm w = (ncclSuccess, rq, comm', w')"
  shows "recv_inv comm' \<and> tail_slot comm' = (tail_slot comm + 1) mod 256"
proof -
  obtain req where base: "rc_base comm' = upd_req req (\<lambda>r. cts_event comm ((count_events (rc_base comm) (conn_nqps pm (rc_base comm))
         (fresh_recv n (cb_ndevs (rc_base comm)) r))\<lparr> recv_sizes := tail_slot comm \<rparr>))
       ((rc_base comm)\<lparr> cb_qpIndex := (cb_qpIndex (rc_base comm) + conn_nqps pm (rc_base comm)) mod cb_nqps (rc_base comm),
          cb_devIndex := (cb_devIndex (rc_base comm) + 1) mod cb_ndevs (rc_base comm) \<rparr>)"
    and f: "rc_fifo comm' = offered comm n data sizes tags mhs"
    and z: "rc_sizesFifo comm' = fold (\<lambda>i zs. zs[row (tail_slot comm) i := 0]) [0..<n] (rc_sizesFifo comm)"
    and t: "rc_fifoTail comm' = rc_fifoTail comm + 1"
    by (rule irecv_closed [OF assms])
  let ?nd = "cb_ndevs (rc_base comm)"
  have nd: "?nd = 1 \<or> ?nd = 2" "cb_devIndex (rc_base comm) = tail_slot comm mod ?nd"
    using assms(1) by (auto simp: recv_inv_def)
  have slot: "tail_slot comm' = (tail_slot comm + 1) mod 256"
    using next_tail_slot [of "rc_fifoTail comm"] by (simp add: tail_slot_nat t)
  have "(cb_devIndex (rc_base comm) + 1) mod ?nd = tail_slot comm' mod ?nd"
    using nd(1,2) slot by (auto simp: mod_Suc_eq mod_mod_cancel)
  moreover have "length (offered comm n data sizes tags mhs) = length (rc_fifo comm)"
    unfolding offered_def by (rule fold_invariant [where Q = "\<lambda>_. True" and P = "\<lambda>es. length es = length (rc_fifo comm)"]) simp_all
  ultimately have "recv_inv comm'"
    using assms(1) by (simp add: recv_inv_def base f z)
  with slot show ?thesis by simp
qed

text \<open>
  The offers go round the devices, and an offer is signalled exactly in the slots whose number is
  below the number of devices: in every round of 256 receives each device's queue pair posts
  exactly one signalled offer, which is what drains its send queue.
\<close>
theorem cts_signalled_once_per_round:
  assumes "recv_inv comm"
    "ncclIbIrecv pm v n data sizes tags mhs comm w = (ncclSuccess, rq, comm', w')"
  shows "recv_inv comm' \<and> tail_slot comm' = (tail_slot comm + 1) mod 256 \<and>
    qp_devIndex (cts_qp comm) = tail_slot comm mod cb_ndevs (rc_base comm) \<and>
    (\<exists>wr. op_wrs (last (new_posts w w')) = [wr] \<and> op_qp (last (new_posts w w')) = qp_handle (cts_qp comm) \<and>
       (wr_signaled wr \<longleftrightarrow> tail_slot comm < cb_ndevs (rc_base comm)))"
proof -
  obtain req where posts: "wd_posts w' = wd_posts w @ map (\<lambda>k. PostRecv (qp_handle (qp_at (rc_base comm) k)) (word_of_nat req))
         [0..<conn_nqps pm (rc_base comm)] @
       [PostSend (qp_handle (cts_qp comm)) [cts_wr comm n req (cts_qp comm)]]"
    by (rule irecv_closed [OF assms])
  let ?nd = "cb_ndevs (rc_base comm)"
  have nd: "?nd = 1 \<or> ?nd = 2" "cb_devIndex (rc_base comm) = tail_slot comm mod ?nd"
    "\<forall>d < ?nd. qp_devIndex (cb_qps (rc_base comm) ! d) = d"
    using assms(1) by (auto simp: recv_inv_def)
  have dev: "qp_devIndex (cts_qp comm) = tail_slot comm mod ?nd"
    using nd by (auto simp: cts_qp_def)
  moreover have "tail_slot comm = tail_slot comm mod ?nd \<longleftrightarrow> tail_slot comm < ?nd"
    using nd(1) by (metis mod_less mod_less_divisor less_numeral_extra(1) zero_less_numeral)
  moreover have "last (new_posts w w') = PostSend (qp_handle (cts_qp comm)) [cts_wr comm n req (cts_qp comm)]"
    using posts by (simp add: new_posts_append)
  ultimately show ?thesis using irecv_keeps_inv [OF assms] by (simp add: cts_wr_sel(1))
qed

section \<open>A concrete receive\<close>

lemma post_recvs_total:
  assumes "\<forall>h p. v h p = ncclSuccess"
  shows "fst (post_recvs v req m comm w) = ncclSuccess"
  using assms by (induction m arbitrary: comm w) (simp_all add: nic_post_def Let_def)

lemma PostFifo_total:
  assumes "\<forall>h p. v h p = ncclSuccess"
  shows "fst (ncclIbPostFifo v n data sizes tags mhs req comm w) = ncclSuccess"
  using assms by (simp add: ncclIbPostFifo_def nic_post_def Let_def)

text \<open>A ready communicator with a free request accepts a receive of up to eight buffers.\<close>

lemma irecv_total:
  assumes "cb_ready (rc_base comm) \<noteq> 0" "n \<le> 8" "cb_fatal (rc_base comm) = 0" "unused (rc_base comm) \<noteq> {}"
    "\<forall>h p. v h p = ncclSuccess"
  obtains rq comm' w' where "ncclIbIrecv pm v n data sizes tags mhs comm w = (ncclSuccess, rq, comm', w')"
proof (cases rule: ncclIbGetRequest_cases [of "rc_base comm"])
  case full
  then show thesis using assms(4) by simp
next
  case (ok req)
  let ?b = "upd_req req (\<lambda>r. r\<lparr> rq_sock := False, rq_devBases := [None, None], rq_events := [0, 0] \<rparr>) (rc_base comm)"
  let ?b2 = "upd_req req (\<lambda>r. r\<lparr> rq_type := NCCL_NET_IB_REQ_RECV, rq_sock := True, rq_nreqs := int n,
      rq_devBases := fold (\<lambda>i ds. ds[i := Some i]) [0..<cb_ndevs ?b] (rq_devBases r) \<rparr>) ?b"
  obtain c1 w1 where p1: "post_recvs v req (conn_nqps pm ?b2) (comm\<lparr> rc_base := ?b2 \<rparr>) w = (ncclSuccess, c1, w1)"
    using post_recvs_total [OF assms(5), of req "conn_nqps pm ?b2" "comm\<lparr> rc_base := ?b2 \<rparr>" w]
    by (cases "post_recvs v req (conn_nqps pm ?b2) (comm\<lparr> rc_base := ?b2 \<rparr>) w") auto
  obtain c2 w2 where p2: "ncclIbPostFifo v n data sizes tags mhs req c1 w1 = (ncclSuccess, c2, w2)"
    using PostFifo_total [OF assms(5), of n data sizes tags mhs req c1 w1]
    by (cases "ncclIbPostFifo v n data sizes tags mhs req c1 w1") auto
  have "ncclIbIrecv pm v n data sizes tags mhs comm w = (ncclSuccess, Some req, c2, w2)"
    unfolding ncclIbIrecv_def Let_def ok(3) using assms(1-3) p1 p2
    by (simp add: ncclIbStatsCheckFatalCount_def)
  then show thesis by (rule that)
qed

definition example_recv_comm :: ncclIbRecvComm where
  "example_recv_comm = \<lparr> rc_base = example_base\<lparr> cb_isSend := False, cb_nqps := 2,
       cb_qps := [\<lparr> qp_handle = 7, qp_devIndex = 0, qp_remDevIdx = 0 \<rparr>, \<lparr> qp_handle = 8, qp_devIndex = 0, qp_remDevIdx = 0 \<rparr>] \<rparr>,
     rc_fifo_lkeys = [1, 2],
     rc_flush = [\<lparr> gf_sge = \<lparr> sge_addr = 16, sge_length = 1, sge_lkey = 3 \<rparr>, gf_qp = 9 \<rparr>],
     rc_fifo = replicate 2048 zero_fifo, rc_fifo_local = 65536, rc_fifoTail = 0, rc_fifo_addr = 131072,
     rc_fifo_inline = True, rc_sizesFifo = replicate 2048 0, rc_flushEnabled = True, rc_peer_rank = 0 \<rparr>"

lemma example_recv_sel:
  "cb_reqs (rc_base example_recv_comm) = replicate MAX_REQUESTS idle_request"
  "cb_nqps (rc_base example_recv_comm) = 2" "cb_ndevs (rc_base example_recv_comm) = 1"
  "cb_qpIndex (rc_base example_recv_comm) = 0" "cb_devIndex (rc_base example_recv_comm) = 0"
  "cb_ready (rc_base example_recv_comm) = 1" "cb_fatal (rc_base example_recv_comm) = 0"
  "cb_qps (rc_base example_recv_comm) = [\<lparr> qp_handle = 7, qp_devIndex = 0, qp_remDevIdx = 0 \<rparr>, \<lparr> qp_handle = 8, qp_devIndex = 0, qp_remDevIdx = 0 \<rparr>]"
  "rc_fifoTail example_recv_comm = 0" "tail_slot example_recv_comm = 0"
  by (simp_all add: example_recv_comm_def example_base_def tail_slot_def)

lemma example_recv_inv: "recv_inv example_recv_comm"
  unfolding recv_inv_def example_recv_sel by (simp add: example_recv_comm_def)

lemma example_recv_unused: "unused (rc_base example_recv_comm) \<noteq> {}"
proof -
  have "0 \<in> unused (rc_base example_recv_comm)" by (simp add: unused_def example_recv_sel idle_request_def)
  then show ?thesis by blast
qed

lemma example_recv_run:
  obtains rq comm' w' where "ncclIbIrecv example_params (\<lambda>_ _. ncclSuccess) 1 [8192] [1000] [9]
    [\<lparr> mk_lkeys = [1, 2], mk_rkeys = [5, 6] \<rparr>] example_recv_comm example_world = (ncclSuccess, rq, comm', w')"
proof -
  have "cb_ready (rc_base example_recv_comm) \<noteq> 0" "(1 :: nat) \<le> 8" "cb_fatal (rc_base example_recv_comm) = 0"
    by (simp_all add: example_recv_sel)
  note t = irecv_total [OF this example_recv_unused, of "\<lambda>_ _. ncclSuccess"]
  show thesis by (rule t, simp) (rule that)
qed

theorem irecv_event_accounting_witness:
  "\<exists>rq comm' w'. ncclIbIrecv example_params (\<lambda>_ _. ncclSuccess) 1 [8192] [1000] [9]
      [\<lparr> mk_lkeys = [1, 2], mk_rkeys = [5, 6] \<rparr>] example_recv_comm example_world = (ncclSuccess, rq, comm', w') \<and>
    (\<exists>req wr. rq = Some req \<and> op_wrs (last (new_posts example_world w')) = [wr] \<and> wr_signaled wr \<and> wr_id wr = word_of_nat req \<and>
       rq_events (cb_reqs (rc_base comm') ! req) ! 1 = 0)"
proof -
  obtain rq comm' w' where r: "ncclIbIrecv example_params (\<lambda>_ _. ncclSuccess) 1 [8192] [1000] [9]
    [\<lparr> mk_lkeys = [1, 2], mk_rkeys = [5, 6] \<rparr>] example_recv_comm example_world = (ncclSuccess, rq, comm', w')"
    by (rule example_recv_run)
  have d: "dev_count (rc_base example_recv_comm) m 1 = 0" for m
  proof -
    have "k mod 2 = 0 \<or> k mod 2 = 1" for k :: nat by presburger
    then have "qp_devIndex (qp_at (rc_base example_recv_comm) k) = 0" for k
      unfolding qp_at_def example_recv_sel by (metis add_0 ncclIbQp.select_convs(2) nth_Cons_0 nth_Cons_Suc One_nat_def)
    then show ?thesis by (simp add: dev_count_def)
  qed
  have c: "qp_devIndex (cts_qp example_recv_comm) = 0" by (simp add: cts_qp_def example_recv_sel)
  have "tail_slot example_recv_comm = 0" by (simp add: tail_slot_def example_recv_sel)
  with irecv_event_accounting [OF example_recv_inv r, of 1] r d c show ?thesis by auto
qed

theorem irecv_offer_witness:
  "\<exists>rq comm' w'. ncclIbIrecv example_params (\<lambda>_ _. ncclSuccess) 1 [8192] [1000] [9]
      [\<lparr> mk_lkeys = [1, 2], mk_rkeys = [5, 6] \<rparr>] example_recv_comm example_world = (ncclSuccess, rq, comm', w') \<and>
    sf_addr (rc_fifo comm' ! 0) = 8192 \<and> sf_idx (rc_fifo comm' ! 0) = 1 \<and> rc_fifoTail comm' = 1"
proof -
  obtain rq comm' w' where r: "ncclIbIrecv example_params (\<lambda>_ _. ncclSuccess) 1 [8192] [1000] [9]
    [\<lparr> mk_lkeys = [1, 2], mk_rkeys = [5, 6] \<rparr>] example_recv_comm example_world = (ncclSuccess, rq, comm', w')"
    by (rule example_recv_run)
  from irecv_offer [OF example_recv_inv r] r show ?thesis by (simp add: example_recv_sel row_def Let_def)
qed

theorem cts_signalled_once_per_round_witness:
  "\<exists>rq comm' w'. ncclIbIrecv example_params (\<lambda>_ _. ncclSuccess) 1 [8192] [1000] [9]
      [\<lparr> mk_lkeys = [1, 2], mk_rkeys = [5, 6] \<rparr>] example_recv_comm example_world = (ncclSuccess, rq, comm', w') \<and>
    tail_slot comm' = 1 \<and> (\<exists>wr. op_wrs (last (new_posts example_world w')) = [wr] \<and> wr_signaled wr)"
proof -
  obtain rq comm' w' where r: "ncclIbIrecv example_params (\<lambda>_ _. ncclSuccess) 1 [8192] [1000] [9]
    [\<lparr> mk_lkeys = [1, 2], mk_rkeys = [5, 6] \<rparr>] example_recv_comm example_world = (ncclSuccess, rq, comm', w')"
    by (rule example_recv_run)
  from cts_signalled_once_per_round [OF example_recv_inv r] r show ?thesis by (auto simp: example_recv_sel)
qed

section \<open>The flush\<close>

lemma last_nonzero_spec:
  "(\<forall>s \<in> set ss. s = 0) \<and> last_nonzero ss i l = l \<or>
   (\<exists>k < length ss. last_nonzero ss i l = int (i + k) \<and> ss ! k \<noteq> 0 \<and> (\<forall>j < length ss. k < j \<longrightarrow> ss ! j = 0))"
proof (induction ss arbitrary: i l)
  case Nil
  then show ?case by simp
next
  case (Cons s ss)
  from Cons.IH [of "Suc i" "if s \<noteq> 0 then int i else l"] show ?case
  proof (elim disjE exE conjE)
    assume z: "\<forall>s \<in> set ss. s = 0" "last_nonzero ss (Suc i) (if s \<noteq> 0 then int i else l) = (if s \<noteq> 0 then int i else l)"
    show ?thesis
    proof (cases "s = 0")
      case True
      then show ?thesis using z by simp
    next
      case False
      have "(s # ss) ! j = 0" if "0 < j" "j < length (s # ss)" for j using that z(1) by (cases j) auto
      then show ?thesis using z False by (intro disjI2 exI [of _ 0]) auto
    qed
  next
    fix k assume k: "k < length ss" "last_nonzero ss (Suc i) (if s \<noteq> 0 then int i else l) = int (Suc i + k)"
      "ss ! k \<noteq> 0" "\<forall>j < length ss. k < j \<longrightarrow> ss ! j = 0"
    have "(s # ss) ! j = 0" if "Suc k < j" "j < length (s # ss)" for j using that k(4) by (cases j) auto
    then show ?thesis using k(1-3) by (intro disjI2 exI [of _ "Suc k"]) auto
  qed
qed

lemma flush_devs_closed:
  assumes "flush_devs v req addr mh is comm w = (res, comm', w')" "\<not> ncclCheckFails res"
    "distinct is" "req < length (cb_reqs (rc_base comm))"
  shows "wd_posts w' = wd_posts w @ map (\<lambda>i. PostSend (gf_qp (rc_flush comm ! i))
       [zero_wr\<lparr> wr_id := word_of_nat req, wr_remote_addr := addr, wr_rkey := mk_rkeys mh ! i,
          wr_sg := Some (gf_sge (rc_flush comm ! i)), wr_opcode := IBV_WR_RDMA_READ, wr_signaled := True \<rparr>]) is \<and>
    (\<forall>d < length (rq_events (cb_reqs (rc_base comm) ! req)).
       rq_events (cb_reqs (rc_base comm') ! req) ! d = rq_events (cb_reqs (rc_base comm) ! req) ! d + (if d \<in> set is then 1 else 0)) \<and>
    rq_type (cb_reqs (rc_base comm') ! req) = rq_type (cb_reqs (rc_base comm) ! req)"
  using assms
proof (induction v req addr mh "is" comm w rule: flush_devs.induct)
  case (1 v req addr mh comm w)
  then show ?case by simp
next
  case (2 v req addr mh i "is" comm w)
  let ?wr = "zero_wr\<lparr> wr_id := word_of_nat req, wr_remote_addr := addr, wr_rkey := mk_rkeys mh ! i,
                       wr_sg := Some (gf_sge (rc_flush comm ! i)), wr_opcode := IBV_WR_RDMA_READ, wr_signaled := True \<rparr>"
  let ?c = "comm\<lparr> rc_base := upd_req req (ncclIbAddEvent i) (rc_base comm) \<rparr>"
  obtain r1 w1 where p: "nic_post v (PostSend (gf_qp (rc_flush comm ! i)) [?wr]) w = (r1, w1)" by fastforce
  have nf: "\<not> ncclCheckFails r1" using "2.prems" p by (auto simp: Let_def split: if_splits)
  have rec: "flush_devs v req addr mh is ?c w1 = (res, comm', w')" using "2.prems"(1) p nf by (simp add: Let_def)
  have w1: "wd_posts w1 = wd_posts w @ [PostSend (gf_qp (rc_flush comm ! i)) [?wr]]"
    using p nf by (auto simp: nic_post_def Let_def)
  have "distinct is" "req < length (cb_reqs (rc_base ?c))" using "2.prems" by simp_all
  note ih = "2.IH" [OF refl p [symmetric] refl nf rec "2.prems"(2) this]
  show ?case
    using ih w1 "2.prems"(3,4) by (auto simp: nth_upd_req ncclIbAddEvent_def list_update_nth_cases)
qed

lemma flush_devs_result: "flush_devs v req addr mh is comm w = (r, c, w') \<Longrightarrow> r = ncclSuccess \<or> ncclCheckFails r"
  by (induction v req addr mh "is" comm w rule: flush_devs.induct) (auto simp: Let_def split: prod.splits if_splits)

lemma iflush_run:
  assumes "rc_flushEnabled comm" "last_nonzero (take n sizes) 0 (-1) = int k"
    "ncclIbIflush v n data sizes mhs comm w = (ncclSuccess, rq, comm', w')"
  obtains req where "rq = Some req" "req \<in> unused (rc_base comm)"
    "flush_devs v req (data ! k) (mhs ! k) [0..<cb_ndevs (rc_base comm)]
       (comm\<lparr> rc_base := upd_req req (\<lambda>r. r\<lparr> rq_devBases := [None, None], rq_events := [0, 0],
                rq_type := NCCL_NET_IB_REQ_FLUSH, rq_sock := True \<rparr>) (rc_base comm) \<rparr>) w = (ncclSuccess, comm', w')"
proof (cases rule: ncclIbGetRequest_cases [of "rc_base comm"])
  case full
  then show thesis using assms by (simp add: ncclIbIflush_def Let_def)
next
  case (ok req)
  let ?c = "comm\<lparr> rc_base := upd_req req (\<lambda>r. r\<lparr> rq_devBases := [None, None], rq_events := [0, 0],
                rq_type := NCCL_NET_IB_REQ_FLUSH, rq_sock := True \<rparr>) (rc_base comm) \<rparr>"
  have req: "req < length (cb_reqs (rc_base comm))" using ok(1) by (simp add: unused_def)
  have eq: "upd_req req (\<lambda>r. r\<lparr> rq_type := NCCL_NET_IB_REQ_FLUSH, rq_sock := True \<rparr>)
      (upd_req req (\<lambda>r. r\<lparr> rq_sock := False, rq_devBases := [None, None], rq_events := [0, 0] \<rparr>) (rc_base comm)) =
      upd_req req (\<lambda>r. r\<lparr> rq_devBases := [None, None], rq_events := [0, 0],
        rq_type := NCCL_NET_IB_REQ_FLUSH, rq_sock := True \<rparr>) (rc_base comm)"
    using req by (simp add: upd_req_def)
  obtain r c w2 where f: "flush_devs v req (data ! k) (mhs ! k) [0..<cb_ndevs (rc_base comm)] ?c w = (r, c, w2)"
    by (cases "flush_devs v req (data ! k) (mhs ! k) [0..<cb_ndevs (rc_base comm)] ?c w") auto
  have "ncclIbIflush v n data sizes mhs comm w = (if ncclCheckFails r then (r, None, c, w2) else (ncclSuccess, Some req, c, w2))"
    unfolding ncclIbIflush_def Let_def ok(3) using assms(1,2) f eq by simp
  moreover have "r = ncclSuccess \<or> ncclCheckFails r"
    using flush_devs_result [OF f] .
  ultimately show thesis using that [of req] ok(1) f assms(3) by (auto split: if_splits)
qed

text \<open>
  A flush without anything received does nothing. Otherwise it takes a free request and posts, on the
  flush queue pair of every device, one signalled read of the last buffer that received something, with
  the request's index; the request counts one event per device.
\<close>
theorem iflush_last_nonzero:
  assumes "n \<le> length sizes" "rc_flushEnabled comm" "length (cb_reqs (rc_base comm)) = MAX_REQUESTS"
    "ncclIbIflush v n data sizes mhs comm w = (ncclSuccess, rq, comm', w')"
  shows "(rq = None \<and> comm' = comm \<and> w' = w \<and> (\<forall>i < n. sizes ! i = 0)) \<or>
    (\<exists>k req. k < n \<and> sizes ! k \<noteq> 0 \<and> (\<forall>j < n. k < j \<longrightarrow> sizes ! j = 0) \<and> rq = Some req \<and> req \<in> unused (rc_base comm) \<and>
       new_posts w w' = map (\<lambda>i. PostSend (gf_qp (rc_flush comm ! i))
         [zero_wr\<lparr> wr_id := word_of_nat req, wr_remote_addr := data ! k, wr_rkey := mk_rkeys (mhs ! k) ! i,
            wr_sg := Some (gf_sge (rc_flush comm ! i)), wr_opcode := IBV_WR_RDMA_READ, wr_signaled := True \<rparr>])
         [0..<cb_ndevs (rc_base comm)] \<and>
       rq_type (cb_reqs (rc_base comm') ! req) = NCCL_NET_IB_REQ_FLUSH \<and>
       (\<forall>d < 2. rq_events (cb_reqs (rc_base comm') ! req) ! d = (if d < cb_ndevs (rc_base comm) then 1 else 0)))"
  using last_nonzero_spec [of "take n sizes" 0 "-1"]
proof (elim disjE exE conjE)
  assume z: "\<forall>s \<in> set (take n sizes). s = 0" "last_nonzero (take n sizes) 0 (-1) = -1"
  have "sizes ! i = 0" if "i < n" for i
  proof -
    have "take n sizes ! i \<in> set (take n sizes)" using that assms(1) by (intro nth_mem) simp
    then show ?thesis using z(1) that by simp
  qed
  then show ?thesis using assms(4) z(2) by (auto simp: ncclIbIflush_def Let_def)
next
  fix k
  assume k: "k < length (take n sizes)" "last_nonzero (take n sizes) 0 (-1) = int (0 + k)" "take n sizes ! k \<noteq> 0"
    "\<forall>j < length (take n sizes). k < j \<longrightarrow> take n sizes ! j = 0"
  obtain req where rq: "rq = Some req" "req \<in> unused (rc_base comm)"
    and f: "flush_devs v req (data ! k) (mhs ! k) [0..<cb_ndevs (rc_base comm)]
       (comm\<lparr> rc_base := upd_req req (\<lambda>r. r\<lparr> rq_devBases := [None, None], rq_events := [0, 0],
                rq_type := NCCL_NET_IB_REQ_FLUSH, rq_sock := True \<rparr>) (rc_base comm) \<rparr>) w = (ncclSuccess, comm', w')"
    by (rule iflush_run [OF assms(2) _ assms(4), of k]) (use k(2) in simp_all)
  have req: "req < length (cb_reqs (rc_base comm))" using rq(2) by (simp add: unused_def)
  have "k < n" "sizes ! k \<noteq> 0" "\<forall>j < n. k < j \<longrightarrow> sizes ! j = 0" using k assms(1) by auto
  then show ?thesis
    using flush_devs_closed [OF f] rq req by (intro disjI2 exI [of _ k] exI [of _ req])
      (auto simp: new_posts_append nth_upd_req less_2_cases_iff)
qed

theorem iflush_last_nonzero_witness:
  "\<exists>rq comm' w'. ncclIbIflush (\<lambda>_ _. ncclSuccess) 2 [8192, 16384] [10, 0]
      [\<lparr> mk_lkeys = [1, 2], mk_rkeys = [5, 6] \<rparr>, \<lparr> mk_lkeys = [1, 2], mk_rkeys = [7, 8] \<rparr>]
      example_recv_comm example_world = (ncclSuccess, rq, comm', w') \<and>
    length (new_posts example_world w') = 1"
proof -
  let ?f = "ncclIbIflush (\<lambda>_ _. ncclSuccess) 2 [8192, 16384] [10, 0]
      [\<lparr> mk_lkeys = [1, 2], mk_rkeys = [5, 6] \<rparr>, \<lparr> mk_lkeys = [1, 2], mk_rkeys = [7, 8] \<rparr>] example_recv_comm example_world"
  have "fst ?f = ncclSuccess"
  proof (cases rule: ncclIbGetRequest_cases [of "rc_base example_recv_comm"])
    case full
    then show ?thesis using example_recv_unused by simp
  next
    case (ok i)
    show ?thesis unfolding ncclIbIflush_def Let_def ok(3)
      by (simp add: example_recv_comm_def example_base_def nic_post_def Let_def)
  qed
  then obtain rq comm' w' where r: "?f = (ncclSuccess, rq, comm', w')" by (cases ?f) auto
  have e: "rc_flushEnabled example_recv_comm" "length (cb_reqs (rc_base example_recv_comm)) = MAX_REQUESTS"
    by (simp add: example_recv_comm_def, simp add: example_recv_sel)
  have nz: "\<not> (\<forall>i < (2 :: nat). [10, 0 :: int] ! i = 0)" by (auto intro: exI [of _ 0])
  from iflush_last_nonzero [OF _ e r] nz r show ?thesis by (auto simp: example_recv_sel)
qed

end
