(* ===== verification/CtsRing.thy ===== *)
theory CtsRing
  imports IbRecv Machine "HOL-Library.Multiset"
begin

text \<open>
  The two ends of a connection together: the receiver's offers travel as RDMA writes into the
  sender's array of 256 slots, in any order and at any time, and the sender takes them up one slot
  after the other. The abstract channel is a queue of offers. The ring is first treated on its
  own, then with \<^verbatim>\<open>ncclIbIrecv\<close> and \<^verbatim>\<open>ncclIbIsend\<close> as its two ends.
\<close>

section \<open>The ring\<close>

text \<open>
  The sender's array, the writes on their way, the number of slots the sender has used up, and
  all offers posted so far; offer \<open>j\<close> is the list of the entries it writes, for the slot \<open>j mod 256\<close>.
\<close>

record ring =
  rg_fifo :: "ncclIbSendFifo list"
  rg_net :: "delivery list"
  rg_head :: nat
  rg_hist :: "ncclIbSendFifo list list"

definition rg_tail :: "ring \<Rightarrow> nat" where
  "rg_tail r = length (rg_hist r)"

definition live_offer :: "ring \<Rightarrow> nat \<Rightarrow> bool" where
  "live_offer r j \<longleftrightarrow> rg_head r \<le> j \<and> j < rg_tail r"

definition offer_write :: "ring \<Rightarrow> nat \<Rightarrow> nat \<Rightarrow> delivery" where
  "offer_write r j k = (row (j mod 256) k, rg_hist r ! j ! k)"

definition offer_ok :: "nat \<Rightarrow> ncclIbSendFifo list \<Rightarrow> bool" where
  "offer_ok j o' \<longleftrightarrow> 0 < length o' \<and> length o' \<le> 8 \<and>
     (\<forall>e \<in> set o'. sf_idx e = word_of_nat (j + 1) \<and> sf_nreqs e = word_of_nat (length o'))"

definition ring_inv :: "ring \<Rightarrow> bool" where
  "ring_inv r \<longleftrightarrow>
     length (rg_fifo r) = 2048 \<and> rg_head r \<le> rg_tail r \<and> rg_tail r \<le> rg_head r + 256 \<and> rg_tail r < 2 ^ 64 \<and>
     (\<forall>j < rg_tail r. offer_ok j (rg_hist r ! j)) \<and>
     distinct (rg_net r) \<and>
     (\<forall>d \<in> set (rg_net r). \<exists>j k. live_offer r j \<and> k < length (rg_hist r ! j) \<and> d = offer_write r j k) \<and>
     (\<forall>j k. live_offer r j \<longrightarrow> k < length (rg_hist r ! j) \<longrightarrow> offer_write r j k \<notin> set (rg_net r) \<longrightarrow>
        rg_fifo r ! row (j mod 256) k = rg_hist r ! j ! k) \<and>
     (\<forall>p < 2048. unat (sf_idx (rg_fifo r ! p)) \<le> rg_tail r) \<and>
     (\<forall>s < 256. \<forall>k < 8. \<forall>j. live_offer r j \<longrightarrow> sf_idx (rg_fifo r ! row s k) = word_of_nat (j + 1) \<longrightarrow>
        s = j mod 256 \<and> k < length (rg_hist r ! j) \<and> offer_write r j k \<notin> set (rg_net r))"

text \<open>The three things that happen to it.\<close>

definition ring_post :: "ncclIbSendFifo list \<Rightarrow> ring \<Rightarrow> ring" where
  "ring_post o' r = r\<lparr> rg_net := rg_net r @ map (\<lambda>k. (row (rg_tail r mod 256) k, o' ! k)) [0..<length o'],
                      rg_hist := rg_hist r @ [o'] \<rparr>"

definition ring_arrive :: "delivery list \<Rightarrow> delivery \<Rightarrow> delivery list \<Rightarrow> ring \<Rightarrow> ring" where
  "ring_arrive xs d ys r = r\<lparr> rg_net := xs @ ys, rg_fifo := (rg_fifo r)[fst d := snd d] \<rparr>"

definition ring_take :: "ring \<Rightarrow> ring" where
  "ring_take r = r\<lparr> rg_head := rg_head r + 1, rg_fifo := (rg_fifo r)[row (rg_head r mod 256) 0 := zero_fifo] \<rparr>"

text \<open>The abstract channel: the offers not used up.\<close>

definition offers :: "ring \<Rightarrow> ncclIbSendFifo list list" where
  "offers r = drop (rg_head r) (rg_hist r)"

lemma same_mod_close: "i mod n = j mod n \<Longrightarrow> i \<le> j \<Longrightarrow> j < i + n \<Longrightarrow> i = (j :: nat)"
proof -
  assume m: "i mod n = j mod n" and le: "i \<le> j" and c: "j < i + n"
  have "n dvd j - i" using m le by (metis mod_eq_dvd_iff_nat)
  then have "j - i = 0" using c le by (metis dvd_imp_le diff_is_0_eq' leD less_diff_conv2 add.commute neq0_conv)
  with le show ?thesis by simp
qed

lemma live_same_slot:
  assumes "ring_inv r" "live_offer r i" "live_offer r j" "i mod 256 = j mod 256"
  shows "i = j"
proof -
  have "i < j + 256" "j < i + 256" using assms(1-3) by (auto simp: ring_inv_def live_offer_def)
  with assms(4) show ?thesis using same_mod_close [of i 256 j] same_mod_close [of j 256 i] by linarith
qed

lemma unat_idx: "i < 2 ^ 64 \<Longrightarrow> unat (word_of_nat i :: u64) = i"
  by (simp add: unat_of_nat)

lemma idx_inj: "i < 2 ^ 64 \<Longrightarrow> j < 2 ^ 64 \<Longrightarrow> (word_of_nat i :: u64) = word_of_nat j \<Longrightarrow> i = j"
  by (metis unat_idx)

text \<open>The parts of the invariant.\<close>

lemma ring_invD:
  assumes "ring_inv r"
  shows "length (rg_fifo r) = 2048" "rg_head r \<le> rg_tail r" "rg_tail r \<le> rg_head r + 256" "rg_tail r < 2 ^ 64"
    "j < rg_tail r \<Longrightarrow> offer_ok j (rg_hist r ! j)" "distinct (rg_net r)"
    "d \<in> set (rg_net r) \<Longrightarrow> \<exists>j k. live_offer r j \<and> k < length (rg_hist r ! j) \<and> d = offer_write r j k"
    "live_offer r j \<Longrightarrow> k < length (rg_hist r ! j) \<Longrightarrow> offer_write r j k \<notin> set (rg_net r) \<Longrightarrow>
       rg_fifo r ! row (j mod 256) k = rg_hist r ! j ! k"
    "p < 2048 \<Longrightarrow> unat (sf_idx (rg_fifo r ! p)) \<le> rg_tail r"
    "s < 256 \<Longrightarrow> k < 8 \<Longrightarrow> live_offer r j \<Longrightarrow> sf_idx (rg_fifo r ! row s k) = word_of_nat (j + 1) \<Longrightarrow>
       s = j mod 256 \<and> k < length (rg_hist r ! j) \<and> offer_write r j k \<notin> set (rg_net r)"
  using assms unfolding ring_inv_def by blast+

lemma offer_bound: "ring_inv r \<Longrightarrow> live_offer r j \<Longrightarrow> k < length (rg_hist r ! j) \<Longrightarrow> k < 8"
  using ring_invD(5) [of r j] by (auto simp: live_offer_def offer_ok_def)

lemma offer_row: "ring_inv r \<Longrightarrow> live_offer r j \<Longrightarrow> k < length (rg_hist r ! j) \<Longrightarrow> row (j mod 256) k < 2048"
  using offer_bound [of r j k] by (simp add: row_less)

lemma offer_idx:
  "ring_inv r \<Longrightarrow> live_offer r j \<Longrightarrow> k < length (rg_hist r ! j) \<Longrightarrow> sf_idx (rg_hist r ! j ! k) = word_of_nat (j + 1)"
  using ring_invD(5) [of r j] by (auto simp: live_offer_def offer_ok_def)

lemma offer_write_inj:
  assumes "ring_inv r" "live_offer r i" "live_offer r j" "k < length (rg_hist r ! i)" "l < length (rg_hist r ! j)"
    "fst (offer_write r i k) = fst (offer_write r j l)"
  shows "i = j \<and> k = l"
proof -
  have "i mod 256 = j mod 256 \<and> k = l"
    using assms(6) offer_bound [OF assms(1,2,4)] offer_bound [OF assms(1,3,5)] by (simp add: offer_write_def row_inj)
  then show ?thesis using live_same_slot [OF assms(1-3)] by simp
qed

section \<open>The invariant of the ring\<close>

lemma ring_arrive_inv:
  assumes inv: "ring_inv r" and net: "rg_net r = xs @ d # ys"
  shows "ring_inv (ring_arrive xs d ys r)" "offers (ring_arrive xs d ys r) = offers r"
proof -
  let ?r = "ring_arrive xs d ys r"
  note I = ring_invD [OF inv]
  have sel: "rg_hist ?r = rg_hist r" "rg_tail ?r = rg_tail r" "rg_head ?r = rg_head r" "live_offer ?r = live_offer r"
    "offer_write ?r = offer_write r" "rg_net ?r = xs @ ys" "rg_fifo ?r = (rg_fifo r)[fst d := snd d]"
    by (simp_all add: ring_arrive_def rg_tail_def live_offer_def offer_write_def fun_eq_iff)
  have set: "set (xs @ ys) = set (rg_net r) - {d}" "distinct (xs @ ys)" using I(6) net by auto
  obtain j k where d: "live_offer r j" "k < length (rg_hist r ! j)" "d = offer_write r j k"
    using I(7) [of d] net by auto
  have p: "fst d = row (j mod 256) k" "snd d = rg_hist r ! j ! k" "fst d < 2048"
    using d offer_row [OF inv d(1,2)] by (simp_all add: offer_write_def)
  have idx: "sf_idx (snd d) = word_of_nat (j + 1)" using offer_idx [OF inv d(1,2)] p(2) by simp
  have jt: "j + 1 \<le> rg_tail r" using d(1) by (simp add: live_offer_def)
  show "ring_inv ?r" unfolding ring_inv_def sel
  proof (intro conjI allI impI ballI)
    fix j' k' assume l: "live_offer r j'" "k' < length (rg_hist r ! j')" "offer_write r j' k' \<notin> set (xs @ ys)"
    show "(rg_fifo r)[fst d := snd d] ! row (j' mod 256) k' = rg_hist r ! j' ! k'"
    proof (cases "offer_write r j' k' = d")
      case True
      then have "row (j' mod 256) k' = fst d" "rg_hist r ! j' ! k' = snd d" by (auto simp: offer_write_def)
      then show ?thesis using p(3) I(1) by simp
    next
      case False
      then have "offer_write r j' k' \<notin> set (rg_net r)" using l(3) set(1) by blast
      moreover have "fst d \<noteq> row (j' mod 256) k'"
        using offer_write_inj [OF inv d(1) l(1) d(2) l(2)] False d(3) by (auto simp: offer_write_def)
      ultimately show ?thesis using I(8) [OF l(1,2)] by simp
    qed
  next
    fix q :: nat assume "q < 2048"
    then show "unat (sf_idx ((rg_fifo r)[fst d := snd d] ! q)) \<le> rg_tail r"
      using I(1,4,9) idx jt unat_idx [of "j + 1"] by (cases "q = fst d") simp_all
  next
    fix s k' j' assume a: "s < (256 :: nat)" "k' < (8 :: nat)" "live_offer r j'"
      "sf_idx ((rg_fifo r)[fst d := snd d] ! row s k') = word_of_nat (j' + 1)"
    have "s = j' mod 256 \<and> k' < length (rg_hist r ! j') \<and> offer_write r j' k' \<notin> set (xs @ ys)"
    proof (cases "row s k' = fst d")
      case True
      have "(word_of_nat (j + 1) :: u64) = word_of_nat (j' + 1)" using a(4) True p(3) I(1) idx by simp
      then have "j = j'" using idx_inj [of "j + 1" "j' + 1"] jt a(3) I(4) by (auto simp: live_offer_def)
      moreover have "s = j mod 256 \<and> k' = k"
        using True p(1) a(2) offer_bound [OF inv d(1,2)] by (simp add: row_inj)
      ultimately show ?thesis using d(2,3) set(1) by auto
    next
      case False
      then show ?thesis using I(10) [OF a(1-3)] a(4) set(1) by auto
    qed
    then show "s = j' mod 256" "k' < length (rg_hist r ! j')" "offer_write r j' k' \<notin> set (xs @ ys)" by simp_all
  next
    fix e assume "e \<in> set (xs @ ys)"
    then show "\<exists>j k. live_offer r j \<and> k < length (rg_hist r ! j) \<and> e = offer_write r j k" using I(7) set(1) by blast
  qed (use I(1-6) set(2) in simp_all)
  show "offers ?r = offers r" by (simp add: offers_def sel)
qed

lemma ring_post_inv:
  assumes inv: "ring_inv r" and room: "rg_tail r < rg_head r + 256" "rg_tail r + 1 < 2 ^ 64" and ok: "offer_ok (rg_tail r) o'"
  shows "ring_inv (ring_post o' r)" "offers (ring_post o' r) = offers r @ [o']"
proof -
  let ?r = "ring_post o' r" let ?t = "rg_tail r"
  note I = ring_invD [OF inv]
  let ?new = "map (\<lambda>k. (row (?t mod 256) k, o' ! k)) [0..<length o']"
  have tail: "rg_tail ?r = ?t + 1" by (simp add: ring_post_def rg_tail_def)
  have hist: "j < ?t \<Longrightarrow> rg_hist ?r ! j = rg_hist r ! j" "rg_hist ?r ! ?t = o'" for j
    by (simp_all add: ring_post_def rg_tail_def nth_append)
  have live: "live_offer ?r j \<longleftrightarrow> live_offer r j \<or> j = ?t" for j
    using I(2) by (auto simp: live_offer_def tail) (simp_all add: ring_post_def)
  have old: "live_offer r j \<Longrightarrow> offer_write ?r j k = offer_write r j k" for j k
    using hist(1) by (simp add: offer_write_def live_offer_def)
  have new: "offer_write ?r ?t k = (row (?t mod 256) k, o' ! k)" for k
    by (simp add: offer_write_def hist(2))
  have sel: "rg_fifo ?r = rg_fifo r" "rg_net ?r = rg_net r @ ?new" "rg_head ?r = rg_head r" by (simp_all add: ring_post_def)
  have len: "0 < length o'" "length o' \<le> 8" using ok by (simp_all add: offer_ok_def)
  have slot: "j mod 256 \<noteq> ?t mod 256" if "live_offer r j" for j
    using that same_mod_close [of j 256 ?t] room(1) by (auto simp: live_offer_def)
  have apart: "offer_write r j k \<notin> set ?new" if "live_offer r j" "k < length (rg_hist r ! j)" for j k
    using slot [OF that(1)] offer_bound [OF inv that] len(2) by (auto simp: offer_write_def row_inj)
  have newd: "distinct ?new" using len(2) by (auto simp: distinct_map inj_on_def row_inj)
  show "ring_inv ?r" unfolding ring_inv_def sel tail
  proof (intro conjI allI impI ballI)
    fix j assume "j < ?t + 1"
    then show "offer_ok j (rg_hist ?r ! j)" using I(5) ok hist by (cases "j = ?t") auto
  next
    have "set (rg_net r) \<inter> set ?new = {}" using I(7) apart by fastforce
    then show "distinct (rg_net r @ ?new)" using I(6) newd by simp
  next
    fix d assume "d \<in> set (rg_net r @ ?new)"
    then consider "d \<in> set (rg_net r)" | "d \<in> set ?new" by auto
    then show "\<exists>j k. live_offer ?r j \<and> k < length (rg_hist ?r ! j) \<and> d = offer_write ?r j k"
    proof cases
      case 1
      then obtain j k where "live_offer r j" "k < length (rg_hist r ! j)" "d = offer_write r j k" using I(7) by blast
      then show ?thesis using live old hist(1) by (intro exI [of _ j] exI [of _ k]) (simp add: live_offer_def)
    next
      case 2
      then obtain k where "k < length o'" "d = offer_write ?r ?t k" using new by auto
      then show ?thesis using live hist(2) by (intro exI [of _ ?t] exI [of _ k]) simp
    qed
  next
    fix j k assume a: "live_offer ?r j" "k < length (rg_hist ?r ! j)" "offer_write ?r j k \<notin> set (rg_net r @ ?new)"
    then have "j \<noteq> ?t" using new hist(2) by auto
    then have l: "live_offer r j" "j < ?t" using a(1) live by (auto simp: live_offer_def)
    then show "rg_fifo r ! row (j mod 256) k = rg_hist ?r ! j ! k"
      using a(2,3) I(8) [OF l(1)] hist(1) [OF l(2)] old [OF l(1)] by simp
  next
    fix p :: nat assume "p < 2048"
    then show "unat (sf_idx (rg_fifo r ! p)) \<le> ?t + 1" using I(9) [of p] by simp
  next
    fix s k j assume a: "s < (256 :: nat)" "k < (8 :: nat)" "live_offer ?r j" "sf_idx (rg_fifo r ! row s k) = word_of_nat (j + 1)"
    have "unat (word_of_nat (j + 1) :: u64) \<le> ?t" using I(9) [OF row_less [OF a(1,2)]] a(4) by simp
    moreover have "j + 1 < 2 ^ 64" using a(3) room(2) by (auto simp: live_offer_def tail)
    ultimately have "j < ?t" using unat_idx [of "j + 1"] by simp
    then have l: "live_offer r j" using a(3) live by auto
    have "s = j mod 256 \<and> k < length (rg_hist r ! j) \<and> offer_write r j k \<notin> set (rg_net r)" using I(10) [OF a(1,2) l a(4)] .
    then have "s = j mod 256 \<and> k < length (rg_hist ?r ! j) \<and> offer_write ?r j k \<notin> set (rg_net r @ ?new)"
      using apart [OF l] hist(1) [OF \<open>j < ?t\<close>] old [OF l] by simp
    then show "s = j mod 256" "k < length (rg_hist ?r ! j)" "offer_write ?r j k \<notin> set (rg_net r @ ?new)" by simp_all
  qed (use I(1-4) room in simp_all)
  show "offers ?r = offers r @ [o']" using I(2) by (simp add: offers_def ring_post_def rg_tail_def)
qed

text \<open>The sender may take a slot when all the entries of its offer have arrived.\<close>

definition arrived :: "ring \<Rightarrow> bool" where
  "arrived r \<longleftrightarrow> live_offer r (rg_head r) \<and> (\<forall>k < length (rg_hist r ! rg_head r). offer_write r (rg_head r) k \<notin> set (rg_net r))"

lemma ring_take_inv:
  assumes inv: "ring_inv r" and arr: "arrived r"
  shows "ring_inv (ring_take r)" "offers r = rg_hist r ! rg_head r # offers (ring_take r)"
proof -
  let ?r = "ring_take r" let ?h = "rg_head r"
  note I = ring_invD [OF inv]
  have h: "?h < rg_tail r" using arr by (simp add: arrived_def live_offer_def)
  have sel: "rg_hist ?r = rg_hist r" "rg_tail ?r = rg_tail r" "rg_head ?r = ?h + 1" "offer_write ?r = offer_write r"
    "rg_net ?r = rg_net r" "rg_fifo ?r = (rg_fifo r)[row (?h mod 256) 0 := zero_fifo]"
    by (simp_all add: ring_take_def rg_tail_def offer_write_def fun_eq_iff)
  have live: "live_offer ?r j \<longleftrightarrow> live_offer r j \<and> j \<noteq> ?h" for j by (auto simp: live_offer_def sel)
  have pos: "row (?h mod 256) 0 < 2048" by (simp add: row_less)
  have zero: "sf_idx zero_fifo = 0" by (simp add: zero_fifo_def)
  show "ring_inv ?r" unfolding ring_inv_def sel
  proof (intro conjI allI impI ballI)
    fix d assume d: "d \<in> set (rg_net r)"
    then obtain j k where "live_offer r j" "k < length (rg_hist r ! j)" "d = offer_write r j k" using I(7) by blast
    then show "\<exists>j k. live_offer ?r j \<and> k < length (rg_hist r ! j) \<and> d = offer_write r j k"
      using arr d by (auto simp: live arrived_def)
  next
    fix j k assume a: "live_offer ?r j" "k < length (rg_hist r ! j)" "offer_write r j k \<notin> set (rg_net r)"
    then have l: "live_offer r j" "j \<noteq> ?h" by (simp_all add: live)
    have "j mod 256 \<noteq> ?h mod 256" using live_same_slot [OF inv l(1), of ?h] l(2) h by (auto simp: live_offer_def)
    then have "row (?h mod 256) 0 \<noteq> row (j mod 256) k" using offer_bound [OF inv l(1) a(2)] by (simp add: row_inj)
    then show "(rg_fifo r)[row (?h mod 256) 0 := zero_fifo] ! row (j mod 256) k = rg_hist r ! j ! k"
      using I(8) [OF l(1) a(2,3)] by simp
  next
    fix p :: nat assume "p < 2048"
    then show "unat (sf_idx ((rg_fifo r)[row (?h mod 256) 0 := zero_fifo] ! p)) \<le> rg_tail r"
      using I(1,9) zero by (cases "p = row (?h mod 256) 0") simp_all
  next
    fix s k j assume a: "s < (256 :: nat)" "k < (8 :: nat)" "live_offer ?r j"
      "sf_idx ((rg_fifo r)[row (?h mod 256) 0 := zero_fifo] ! row s k) = word_of_nat (j + 1)"
    have "row s k \<noteq> row (?h mod 256) 0"
    proof
      assume "row s k = row (?h mod 256) 0"
      then have "(word_of_nat (j + 1) :: u64) = word_of_nat 0" using a(4) pos I(1) zero by simp
      then show False using idx_inj [of "j + 1" 0] a(3) I(4) by (auto simp: live_offer_def sel)
    qed
    then have "s = j mod 256 \<and> k < length (rg_hist r ! j) \<and> offer_write r j k \<notin> set (rg_net r)"
      using I(10) [OF a(1,2), of j] a(3,4) by (simp add: live)
    then show "s = j mod 256" "k < length (rg_hist r ! j)" "offer_write r j k \<notin> set (rg_net r)" by simp_all
  qed (use I(1-6) h in simp_all)
  show "offers r = rg_hist r ! ?h # offers ?r"
    using h by (simp add: offers_def sel rg_tail_def Cons_nth_drop_Suc)
qed

section \<open>The sender waiting on the ring\<close>

text \<open>The order in which the writes on their way are listed does not matter.\<close>

lemma ring_inv_perm:
  assumes "ring_inv r" "mset ns = mset (rg_net r)"
  shows "ring_inv (r\<lparr> rg_net := ns \<rparr>)" "offers (r\<lparr> rg_net := ns \<rparr>) = offers r"
proof -
  have s: "set ns = set (rg_net r)" "distinct ns = distinct (rg_net r)"
    using assms(2) by (metis set_mset_mset, metis mset_eq_imp_distinct_iff)
  have sel: "rg_tail (r\<lparr> rg_net := ns \<rparr>) = rg_tail r" "live_offer (r\<lparr> rg_net := ns \<rparr>) = live_offer r"
    "offer_write (r\<lparr> rg_net := ns \<rparr>) = offer_write r"
    by (simp_all add: rg_tail_def live_offer_def offer_write_def fun_eq_iff)
  show "ring_inv (r\<lparr> rg_net := ns \<rparr>)" using assms(1) unfolding ring_inv_def sel by (simp add: s)
  show "offers (r\<lparr> rg_net := ns \<rparr>) = offers r" by (simp add: offers_def)
qed

abbreviation ring_at :: "ring \<Rightarrow> delivery list \<Rightarrow> ncclIbSendFifo list \<Rightarrow> ring" where
  "ring_at r ns fifo \<equiv> r\<lparr> rg_net := ns, rg_fifo := fifo \<rparr>"

lemma ring_at_simps:
  "rg_tail (ring_at r ns f) = rg_tail r" "live_offer (ring_at r ns f) = live_offer r"
  "offer_write (ring_at r ns f) = offer_write r" "offers (ring_at r ns f) = offers r"
  by (simp_all add: rg_tail_def live_offer_def offer_write_def offers_def fun_eq_iff)

lemma spin_ring:
  assumes "spin idx p ds fifo = Some (ds', fifo')" "ring_inv (ring_at r (ds @ rest) fifo)"
  shows "ring_inv (ring_at r (ds' @ rest) fifo') \<and> sf_idx (fifo' ! p) = idx \<and> suffix ds' ds"
  using assms
proof (induction idx p ds fifo rule: spin.induct)
  case (1 idx p ds fifo)
  show ?case
  proof (cases "sf_idx (fifo ! p) = idx")
    case True
    then show ?thesis using "1.prems" by (simp add: spin.simps [of idx p ds])
  next
    case False
    then obtain q e ds1 where d: "ds = (q, e) # ds1" "spin idx p ds1 (fifo[q := e]) = Some (ds', fifo')"
      using "1.prems" by (auto simp: spin.simps [of idx p ds] split: list.splits if_splits)
    have "ring_inv (ring_arrive [] (q, e) (ds1 @ rest) (ring_at r (ds @ rest) fifo))"
      by (rule ring_arrive_inv(1) [OF "1.prems"(2)]) (simp add: d(1))
    then have "ring_inv (ring_at r (ds1 @ rest) (fifo[q := e]))" by (simp add: ring_arrive_def)
    from "1.IH" [OF False d(1) refl d(2) this] show ?thesis using d(1) by (auto intro: suffix_ConsI)
  qed
qed

text \<open>An entry of the head's slot stamped with the head's number has landed for good.\<close>

lemma spin_all_ring:
  assumes "spin_all idx ps ds fifo = Some (ds', fifo')" "ring_inv (ring_at r (ds @ rest) fifo)"
    "live_offer r (rg_head r)" "idx = word_of_nat (rg_head r + 1)"
  shows "ring_inv (ring_at r (ds' @ rest) fifo') \<and> suffix ds' ds \<and>
    (\<forall>k < 8. row (rg_head r mod 256) k \<in> set ps \<longrightarrow>
       k < length (rg_hist r ! rg_head r) \<and> offer_write r (rg_head r) k \<notin> set (ds' @ rest))"
  using assms(1,2,4)
proof (induction idx ps ds fifo rule: spin_all.induct)
  case (1 idx ds fifo)
  then show ?case by simp
next
  case (2 idx p ps ds fifo)
  then obtain ds1 f1 where s: "spin idx p ds fifo = Some (ds1, f1)" "spin_all idx ps ds1 f1 = Some (ds', fifo')"
    by (auto split: option.splits)
  note a = spin_ring [OF s(1) "2.prems"(2)]
  note b = "2.IH" [OF s(1) refl s(2) conjunct1 [OF a] "2.prems"(3)]
  have "k < length (rg_hist r ! rg_head r) \<and> offer_write r (rg_head r) k \<notin> set (ds1 @ rest)"
    if "k < 8" "row (rg_head r mod 256) k = p" for k
  proof -
    have l: "live_offer (ring_at r (ds1 @ rest) f1) (rg_head r)" using assms(3) by (simp add: ring_at_simps)
    have i: "sf_idx (rg_fifo (ring_at r (ds1 @ rest) f1) ! row (rg_head r mod 256) k) = word_of_nat (rg_head r + 1)"
      using a that(2) "2.prems"(3) by simp
    from ring_invD(10) [OF conjunct1 [OF a] _ that(1) l i] show ?thesis by (simp add: ring_at_simps)
  qed
  moreover have "set ds' \<subseteq> set ds1" using b by (auto simp: suffix_def)
  ultimately show ?case using a b by (auto intro: suffix_order.trans)
qed

text \<open>What a call of \<^verbatim>\<open>ncclIbIsend\<close> does to the array and its head, whatever it returns.\<close>

lemma multi_send_frame:
  "multi_send_loop v slot is nqps m ch tot comm w = (res, tot', comm', w') \<Longrightarrow>
   sc_fifo comm' = sc_fifo comm \<and> sc_fifoHead comm' = sc_fifoHead comm"
proof (induction m arbitrary: ch tot comm w)
  case 0
  then show ?case by simp
next
  case (Suc m)
  show ?case using Suc.prems
    by (auto simp: Let_def advance_reqs_def split: prod.splits if_splits dest!: Suc.IH)
qed

lemma isend_matched_frame:
  assumes "isend_matched pm v slot n r data sz mh comm w = (res, req, comm', w')"
  shows "sc_fifo comm' = sc_fifo comm \<and> sc_fifoHead comm' = sc_fifoHead comm \<or>
    sc_fifo comm' = (sc_fifo comm)[row slot 0 := zero_fifo] \<and> sc_fifoHead comm' = sc_fifoHead comm + 1"
proof -
  have ms: "sc_fifo c' = sc_fifo c \<and> sc_fifoHead c' = sc_fifoHead c"
    if "ncclIbMultiSend pm v slot c w = (res', c', w'')" for c res' c' w''
    using that by (auto simp: ncclIbMultiSend_def Let_def store_sizes_def split: if_splits prod.splits dest!: multi_send_frame)
  show ?thesis
  proof (cases rule: ncclIbGetRequest_cases [of "sc_base comm"])
    case full
    then show ?thesis using assms by (auto simp: isend_matched_def Let_def split: if_splits)
  next
    case (ok i)
    show ?thesis using assms unfolding isend_matched_def Let_def ok(3)
      by (auto simp: clear_slot_def split: if_splits prod.splits dest!: ms)
  qed
qed

lemma isend_frame:
  assumes "ncclIbIsend pm v data sz tag mh ds comm w = Some (res, req, ds', comm', w')"
  obtains (early) "ds' = ds" "sc_fifo comm' = sc_fifo comm" "sc_fifoHead comm' = sc_fifoHead comm"
  | (spun) fifo where "sf_idx (sc_fifo comm ! row (cur_slot comm) 0) = sc_fifoHead comm + 1"
      "spin_all (sc_fifoHead comm + 1) (map (row (cur_slot comm)) [1..<nat (slot_nreqs comm (cur_slot comm))]) ds
         (sc_fifo comm) = Some (ds', fifo)"
      "sc_fifo comm' = fifo \<and> sc_fifoHead comm' = sc_fifoHead comm \<or>
       sc_fifo comm' = fifo[row (cur_slot comm) 0 := zero_fifo] \<and> sc_fifoHead comm' = sc_fifoHead comm + 1"
  using assms
  by (auto simp: ncclIbIsend_def Let_def split: if_splits option.splits prod.splits dest!: isend_matched_frame)

section \<open>The two ends\<close>

text \<open>
  Both communicators, the entries on their way, and the offers made so far. In the code
  the last is not a datum: it is what the properties speak about.
\<close>

record cts =
  ct_send :: ncclIbSendComm
  ct_recv :: ncclIbRecvComm
  ct_net :: "delivery list"
  ct_hist :: "ncclIbSendFifo list list"

definition cts_ring :: "cts \<Rightarrow> ring" where
  "cts_ring c = \<lparr> rg_fifo = sc_fifo (ct_send c), rg_net = ct_net c, rg_head = unat (sc_fifoHead (ct_send c)),
                  rg_hist = ct_hist c \<rparr>"

text \<open>The entries of the first \<open>n\<close> elements of a slot, with their places.\<close>

definition slot_writes :: "ncclIbRecvComm \<Rightarrow> nat \<Rightarrow> nat \<Rightarrow> delivery list" where
  "slot_writes comm slot n = map (\<lambda>k. (row slot k, rc_fifo comm ! row slot k)) [0..<n]"

datatype cts_event = Offered "ncclIbSendFifo list" | Taken "ncclIbSendFifo list" | Internal

text \<open>
  The steps: a receive that succeeds puts the slot it filled on its way, provided fewer than 256 offers are open
  (a receive holds one of the 256 requests until the sender has used its offer) and the counters do not wrap;
  an entry lands; the sender calls \<^verbatim>\<open>ncclIbIsend\<close>, during which any entries may land; anything
  else either side does, which leaves the array and the counters alone. The event of a send that moved the
  head is what the sender had in its slot.
\<close>

inductive cts_step :: "ib_params \<Rightarrow> cts \<Rightarrow> cts_event \<Rightarrow> cts \<Rightarrow> bool" for pm where
  post: "ncclIbIrecv pm v n data sizes tags mhs (ct_recv c) w = (ncclSuccess, rq, comm', w') \<Longrightarrow> 0 < n \<Longrightarrow>
    length (ct_hist c) < unat (sc_fifoHead (ct_send c)) + 256 \<Longrightarrow> length (ct_hist c) + 2 < 2 ^ 64 \<Longrightarrow>
    ws = slot_writes comm' (tail_slot (ct_recv c)) n \<Longrightarrow>
    cts_step pm c (Offered (map snd ws))
      (c\<lparr> ct_recv := comm', ct_net := ct_net c @ ws, ct_hist := ct_hist c @ [map snd ws] \<rparr>)"
| land: "ct_net c = xs @ (p, e) # ys \<Longrightarrow>
    cts_step pm c Internal
      (c\<lparr> ct_net := xs @ ys, ct_send := (ct_send c)\<lparr> sc_fifo := (sc_fifo (ct_send c))[p := e] \<rparr> \<rparr>)"
| send: "mset (ct_net c) = mset (ds @ rest) \<Longrightarrow>
    ncclIbIsend pm v data sz tag mh ds (ct_send c) w = Some (res, req, ds', comm', w') \<Longrightarrow>
    slot = cur_slot (ct_send c) \<Longrightarrow> n = nat (slot_nreqs (ct_send c) slot) \<Longrightarrow>
    ev = (if sc_fifoHead comm' = sc_fifoHead (ct_send c) then Internal
          else Taken (sc_fifo (ct_send c) ! row slot 0 # map (\<lambda>k. sc_fifo comm' ! row slot k) [1..<n])) \<Longrightarrow>
    cts_step pm c ev (c\<lparr> ct_send := comm', ct_net := ds' @ rest \<rparr>)"
| other: "sc_fifo s = sc_fifo (ct_send c) \<Longrightarrow> sc_fifoHead s = sc_fifoHead (ct_send c) \<Longrightarrow>
    recv_inv r \<Longrightarrow> rc_fifoTail r = rc_fifoTail (ct_recv c) \<Longrightarrow>
    cts_step pm c Internal (c\<lparr> ct_send := s, ct_recv := r \<rparr>)"

text \<open>The channel they implement: a queue of offers.\<close>

inductive queue_step :: "ncclIbSendFifo list list \<Rightarrow> cts_event \<Rightarrow> ncclIbSendFifo list list \<Rightarrow> bool" where
  enqueue: "queue_step q (Offered f) (q @ [f])"
| dequeue: "queue_step (f # q) (Taken f) q"
| silent: "queue_step q Internal q"

definition cts_inv :: "cts \<Rightarrow> bool" where
  "cts_inv c \<longleftrightarrow> ring_inv (cts_ring c) \<and> recv_inv (ct_recv c) \<and> unat (rc_fifoTail (ct_recv c)) = length (ct_hist c) \<and>
     length (ct_hist c) + 1 < 2 ^ 64"

definition cts_queue :: "cts \<Rightarrow> ncclIbSendFifo list list" where
  "cts_queue c = offers (cts_ring c)"

lemma unat_Suc: "unat (x :: u64) + 1 < 2 ^ 64 \<Longrightarrow> unat (x + 1) = unat x + 1"
  by (simp add: unat_word_ariths)

lemma cts_post:
  assumes inv: "cts_inv c" and run: "ncclIbIrecv pm v n data sizes tags mhs (ct_recv c) w = (ncclSuccess, rq, comm', w')"
    and n: "0 < n" and room: "length (ct_hist c) < unat (sc_fifoHead (ct_send c)) + 256" "length (ct_hist c) + 2 < 2 ^ 64"
    and ws: "ws = slot_writes comm' (tail_slot (ct_recv c)) n"
  defines "c' \<equiv> c\<lparr> ct_recv := comm', ct_net := ct_net c @ ws, ct_hist := ct_hist c @ [map snd ws] \<rparr>"
  shows "cts_inv c' \<and> cts_queue c' = cts_queue c @ [map snd ws]"
proof -
  let ?r = "cts_ring c" and ?o = "map snd ws"
  have R: "recv_inv (ct_recv c)" "ring_inv ?r" "unat (rc_fifoTail (ct_recv c)) = length (ct_hist c)"
    using inv by (simp_all add: cts_inv_def)
  obtain req where n8: "n \<le> NCCL_NET_IB_MAX_RECVS" and f: "rc_fifo comm' = offered (ct_recv c) n data sizes tags mhs"
    and t: "rc_fifoTail comm' = rc_fifoTail (ct_recv c) + 1"
    by (rule irecv_closed [OF R(1) run])
  have len: "length (rc_fifo (ct_recv c)) = 2048" using R(1) by (simp add: recv_inv_def)
  have slot: "tail_slot (ct_recv c) = rg_tail ?r mod 256" by (simp add: tail_slot_nat R(3) rg_tail_def cts_ring_def)
  have lo: "length ?o = n" by (simp add: ws slot_writes_def)
  have "sf_idx e = word_of_nat (rg_tail ?r + 1) \<and> sf_nreqs e = word_of_nat (length ?o)" if e: "e \<in> set ?o" for e
  proof -
    obtain k where k: "k < n" "e = rc_fifo comm' ! row (tail_slot (ct_recv c)) k"
      using e by (auto simp: ws slot_writes_def)
    have "rc_fifoTail (ct_recv c) + 1 = word_of_nat (rg_tail ?r + 1)"
      by (simp add: rg_tail_def cts_ring_def flip: R(3))
    then show ?thesis using k offered_nth(1) [OF len n8 k(1)] lo by (simp add: f cts_entry_def Let_def)
  qed
  then have ok: "offer_ok (rg_tail ?r) ?o" using n n8 lo by (simp add: offer_ok_def)
  have room': "rg_tail ?r < rg_head ?r + 256" "rg_tail ?r + 1 < 2 ^ 64"
    using room by (simp_all add: rg_tail_def cts_ring_def)
  have "ws = map (\<lambda>k. (row (rg_tail ?r mod 256) k, ?o ! k)) [0..<length ?o]"
    by (rule nth_equalityI) (simp_all add: ws slot_writes_def slot)
  then have ring: "cts_ring c' = ring_post ?o ?r" by (simp add: cts_ring_def ring_post_def c'_def rg_tail_def)
  have "unat (rc_fifoTail comm') = length (ct_hist c) + 1"
    using unat_Suc [of "rc_fifoTail (ct_recv c)"] R(3) room(2) by (simp add: t)
  then show ?thesis
    using ring_post_inv [OF R(2) room' ok] irecv_keeps_inv [OF R(1) run] ring room(2)
    by (simp add: cts_inv_def cts_queue_def) (simp add: c'_def)
qed

lemma cts_land:
  assumes inv: "cts_inv c" and net: "ct_net c = xs @ (p, e) # ys"
  defines "c' \<equiv> c\<lparr> ct_net := xs @ ys, ct_send := (ct_send c)\<lparr> sc_fifo := (sc_fifo (ct_send c))[p := e] \<rparr> \<rparr>"
  shows "cts_inv c' \<and> cts_queue c' = cts_queue c"
proof -
  have "cts_ring c' = ring_arrive xs (p, e) ys (cts_ring c)" by (simp add: cts_ring_def ring_arrive_def c'_def)
  moreover have "ring_inv (cts_ring c)" "rg_net (cts_ring c) = xs @ (p, e) # ys"
    using inv net by (simp_all add: cts_inv_def cts_ring_def)
  ultimately show ?thesis using ring_arrive_inv [of "cts_ring c" xs "(p, e)" ys] inv
    by (simp add: cts_inv_def cts_queue_def) (simp add: c'_def)
qed

text \<open>The head's slot, once its first entry has the head's number.\<close>

lemma head_offer:
  assumes inv: "ring_inv r" and idx: "sf_idx (rg_fifo r ! row (rg_head r mod 256) 0) = word_of_nat (rg_head r + 1)"
    and h: "rg_head r + 1 < 2 ^ 64"
  shows "live_offer r (rg_head r)" "0 < length (rg_hist r ! rg_head r)" "offer_write r (rg_head r) 0 \<notin> set (rg_net r)"
    "nat (sint (sf_nreqs (rg_fifo r ! row (rg_head r mod 256) 0))) = length (rg_hist r ! rg_head r)"
    "length (rg_hist r ! rg_head r) \<le> 8"
proof -
  note I = ring_invD [OF inv]
  have "unat (sf_idx (rg_fifo r ! row (rg_head r mod 256) 0)) = rg_head r + 1" using idx unat_idx [OF h] by simp
  moreover have "row (rg_head r mod 256) 0 < 2048" by (simp add: row_less)
  ultimately have "rg_head r + 1 \<le> rg_tail r" using I(9) by metis
  then show l: "live_offer r (rg_head r)" by (simp add: live_offer_def)
  have z: "0 < length (rg_hist r ! rg_head r) \<and> offer_write r (rg_head r) 0 \<notin> set (rg_net r)"
    using I(10) [OF _ _ l idx] by simp
  then show "0 < length (rg_hist r ! rg_head r)" "offer_write r (rg_head r) 0 \<notin> set (rg_net r)" by simp_all
  have ok: "offer_ok (rg_head r) (rg_hist r ! rg_head r)" using I(5) l by (simp add: live_offer_def)
  then show l8: "length (rg_hist r ! rg_head r) \<le> 8" by (simp add: offer_ok_def)
  have "rg_fifo r ! row (rg_head r mod 256) 0 = rg_hist r ! rg_head r ! 0" using I(8) [OF l] z by blast
  moreover have "rg_hist r ! rg_head r ! 0 \<in> set (rg_hist r ! rg_head r)" using z by simp
  ultimately have "sf_nreqs (rg_fifo r ! row (rg_head r mod 256) 0) = word_of_nat (length (rg_hist r ! rg_head r))"
    using ok by (simp add: offer_ok_def)
  moreover have "m \<le> 8 \<Longrightarrow> nat (sint (word_of_nat m :: u32)) = m" for m
    by (simp add: signed_of_nat signed_take_bit_int_eq_self)
  ultimately show "nat (sint (sf_nreqs (rg_fifo r ! row (rg_head r mod 256) 0))) = length (rg_hist r ! rg_head r)"
    using l8 by metis
qed

lemma cts_send:
  assumes inv: "cts_inv c" and net: "mset (ct_net c) = mset (ds @ rest)"
    and run: "ncclIbIsend pm v data sz tag mh ds (ct_send c) w = Some (res, req, ds', comm', w')"
    and slot: "slot = cur_slot (ct_send c)" and n: "n = nat (slot_nreqs (ct_send c) slot)"
  defines "c' \<equiv> c\<lparr> ct_send := comm', ct_net := ds' @ rest \<rparr>"
  shows "cts_inv c' \<and> (if sc_fifoHead comm' = sc_fifoHead (ct_send c) then cts_queue c' = cts_queue c
     else cts_queue c = (sc_fifo (ct_send c) ! row slot 0 # map (\<lambda>k. sc_fifo comm' ! row slot k) [1..<n]) # cts_queue c')"
proof -
  let ?s = "ct_send c" and ?r = "cts_ring c"
  have keep: "recv_inv (ct_recv c)" "unat (rc_fifoTail (ct_recv c)) = length (ct_hist c)" "length (ct_hist c) + 1 < 2 ^ 64"
    using inv by (simp_all add: cts_inv_def)
  have r0: "ring_inv (ring_at ?r (ds @ rest) (sc_fifo ?s))" "cts_queue c = offers ?r"
    using ring_inv_perm [of ?r "ds @ rest"] inv net by (simp_all add: cts_inv_def cts_queue_def) (simp_all add: cts_ring_def)
  have c': "cts_inv c' \<longleftrightarrow> ring_inv (cts_ring c')" "cts_queue c' = offers (cts_ring c')"
    using keep by (simp_all add: cts_inv_def cts_queue_def) (simp add: c'_def)
  show ?thesis using run
  proof (cases rule: isend_frame)
    case early
    then have "cts_ring c' = ring_at ?r (ds @ rest) (sc_fifo ?s)" by (simp add: cts_ring_def c'_def)
    then show ?thesis using r0 c' early by (simp add: ring_at_simps)
  next
    case (spun fifo)
    let ?r1 = "ring_at ?r (ds' @ rest) fifo" and ?h = "rg_head ?r"
    have sl: "slot = ?h mod 256" and hd: "sc_fifoHead ?s = word_of_nat ?h" "sc_fifoHead ?s + 1 = word_of_nat (?h + 1)"
      by (simp_all add: slot cts_ring_def cur_slot_nat)
    have h: "?h + 1 < 2 ^ 64" using ring_invD(2) [OF r0(1)] keep(3) by (simp add: rg_tail_def cts_ring_def)
    have "sf_idx (rg_fifo (ring_at ?r (ds @ rest) (sc_fifo ?s)) ! row (?h mod 256) 0) = word_of_nat (?h + 1)"
      using spun(1) sl slot hd(2) by simp
    note ho = head_offer [OF r0(1), simplified, OF this [simplified] h [simplified]]
    note H = ho [unfolded ring_at_simps, simplified]
    have nl: "n = length (rg_hist ?r ! ?h)" using H(4) sl by (simp add: n slot_nreqs_def)
    have ps: "map (row (cur_slot ?s)) [1..<nat (slot_nreqs ?s (cur_slot ?s))] = map (row (?h mod 256)) [1..<n]"
      by (simp add: n slot [symmetric] sl)
    note sp = spin_all_ring [OF spun(2) [unfolded ps] r0(1) H(1) hd(2)]
    have r1: "ring_inv ?r1" and sub: "set (ds' @ rest) \<subseteq> set (ds @ rest)" using sp by (auto simp: suffix_def)
    have arr: "offer_write ?r ?h k \<notin> set (ds' @ rest)" if "k < n" for k
    proof (cases "k = 0")
      case True
      then show ?thesis using H(3) sub by auto
    next
      case False
      then have "k < 8" "row (?h mod 256) k \<in> set (map (row (?h mod 256)) [1..<n])" using that nl H(5) by auto
      then show ?thesis using sp by blast
    qed
    have entry: "fifo ! row slot k = rg_hist ?r ! ?h ! k" if "k < n" for k
      using ring_invD(8) [OF r1, of ?h k] arr [OF that] H(1) nl that sl by (simp add: ring_at_simps)
    have entry0: "sc_fifo ?s ! row slot 0 = rg_hist ?r ! ?h ! 0"
      using ring_invD(8) [OF r0(1), of ?h 0] H(1,2,3) sl by (simp add: ring_at_simps)
    show ?thesis using spun(3)
    proof
      assume "sc_fifo comm' = fifo \<and> sc_fifoHead comm' = sc_fifoHead ?s"
      moreover from this have "cts_ring c' = ?r1" by (simp add: cts_ring_def c'_def)
      ultimately show ?thesis using r0(2) r1 c' by (simp add: ring_at_simps)
    next
      assume e: "sc_fifo comm' = fifo[row (cur_slot ?s) 0 := zero_fifo] \<and> sc_fifoHead comm' = sc_fifoHead ?s + 1"
      have "unat (sc_fifoHead comm') = ?h + 1" using e hd(2) unat_idx [OF h] by metis
      then have ring: "cts_ring c' = ring_take ?r1" using e sl slot by (simp add: cts_ring_def c'_def ring_take_def)
      have "arrived ?r1" using H(1) arr nl by (simp add: arrived_def ring_at_simps)
      note t = ring_take_inv [OF r1 this]
      have "sc_fifo ?s ! row slot 0 # map (\<lambda>k. sc_fifo comm' ! row slot k) [1..<n] = rg_hist ?r ! ?h" (is "?l = _")
      proof (rule nth_equalityI)
        show "length ?l = length (rg_hist ?r ! ?h)" using H(2) nl by simp
        fix k assume "k < length ?l"
        then have k: "k < n" using H(2) nl by simp
        then show "?l ! k = rg_hist ?r ! ?h ! k"
          using entry0 entry [OF k] e slot H(5) nl by (cases k) (simp_all add: row_inj)
      qed
      then show ?thesis using t r0(2) c' ring e by (simp add: ring_at_simps)
    qed
  qed
qed

lemma cts_other:
  assumes "cts_inv c" "sc_fifo s = sc_fifo (ct_send c)" "sc_fifoHead s = sc_fifoHead (ct_send c)"
    "recv_inv r" "rc_fifoTail r = rc_fifoTail (ct_recv c)"
  shows "cts_inv (c\<lparr> ct_send := s, ct_recv := r \<rparr>) \<and> cts_queue (c\<lparr> ct_send := s, ct_recv := r \<rparr>) = cts_queue c"
proof -
  have "cts_ring (c\<lparr> ct_send := s, ct_recv := r \<rparr>) = cts_ring c" using assms(2,3) by (simp add: cts_ring_def)
  then show ?thesis using assms by (simp add: cts_inv_def cts_queue_def)
qed

text \<open>Each step is a step of the queue.\<close>

lemma cts_step_queue:
  assumes "cts_step pm c ev c'" "cts_inv c"
  shows "cts_inv c' \<and> queue_step (cts_queue c) ev (cts_queue c')"
  using assms
proof (cases rule: cts_step.cases)
  case (post v n data sizes tags mhs w rq comm' w' ws)
  then show ?thesis using cts_post [OF assms(2) post(3-7)] by (simp add: queue_step.enqueue)
next
  case (land xs p e ys)
  then show ?thesis using cts_land [OF assms(2) land(3)] by (simp add: queue_step.silent)
next
  case (send ds rest v data sz tag mh w res req ds' comm' w' slot n)
  from cts_send [OF assms(2) send(2-5)] show ?thesis
    unfolding send(1,6) by (auto simp: queue_step.silent intro: queue_step.dequeue split: if_splits)
next
  case (other s r)
  then show ?thesis using cts_other [OF assms(2) other(3-6)] by (simp add: queue_step.silent)
qed

section \<open>Runs\<close>

abbreviation cts_run :: "ib_params \<Rightarrow> cts \<Rightarrow> cts_event list \<Rightarrow> cts \<Rightarrow> bool" where
  "cts_run pm \<equiv> run (cts_step pm)"

text \<open>A new connection: both counters at zero, the array cleared, nothing under way.\<close>

definition cts_start :: "cts \<Rightarrow> bool" where
  "cts_start c \<longleftrightarrow> sc_fifo (ct_send c) = replicate 2048 zero_fifo \<and> sc_fifoHead (ct_send c) = 0 \<and>
     recv_inv (ct_recv c) \<and> rc_fifoTail (ct_recv c) = 0 \<and> ct_net c = [] \<and> ct_hist c = []"

fun offered_in :: "cts_event list \<Rightarrow> ncclIbSendFifo list list" where
  "offered_in [] = []"
| "offered_in (Offered f # evs) = f # offered_in evs"
| "offered_in (Taken f # evs) = offered_in evs"
| "offered_in (Internal # evs) = offered_in evs"

fun taken_in :: "cts_event list \<Rightarrow> ncclIbSendFifo list list" where
  "taken_in [] = []"
| "taken_in (Taken f # evs) = f # taken_in evs"
| "taken_in (Offered f # evs) = taken_in evs"
| "taken_in (Internal # evs) = taken_in evs"

lemma offered_append [simp]: "offered_in (es @ fs) = offered_in es @ offered_in fs"
  by (induction es rule: offered_in.induct) simp_all

lemma taken_append [simp]: "taken_in (es @ fs) = taken_in es @ taken_in fs"
  by (induction es rule: taken_in.induct) simp_all

inductive_cases queue_stepE: "queue_step q ev q'"

lemma queue_step_lists: "queue_step q ev q' \<Longrightarrow> q @ offered_in [ev] = taken_in [ev] @ q'"
  by (erule queue_stepE) simp_all

lemma cts_start_inv: "cts_start c \<Longrightarrow> cts_inv c \<and> cts_queue c = []"
  by (simp add: cts_start_def cts_inv_def cts_queue_def ring_inv_def cts_ring_def rg_tail_def live_offer_def
      offers_def zero_fifo_def)

text \<open>The channel is a queue machine: the offers made go in, those taken up come out.\<close>

lemma offered_concat: "concat (map (\<lambda>ev. offered_in [ev]) evs) = offered_in evs"
  by (induction evs rule: offered_in.induct) simp_all

lemma taken_concat: "concat (map (\<lambda>ev. taken_in [ev]) evs) = taken_in evs"
  by (induction evs rule: taken_in.induct) simp_all

interpretation channel: queue_machine "cts_step pm" cts_inv cts_queue "\<lambda>ev. offered_in [ev]" "\<lambda>ev. taken_in [ev]" for pm
  by unfold_locales (auto dest: cts_step_queue intro: queue_step_lists)

lemma cts_run_queue:
  assumes "cts_run pm c evs c'" "cts_start c"
  shows "cts_inv c' \<and> offered_in evs = taken_in evs @ cts_queue c'"
  using channel.run_keeps [OF assms(1)] channel.run_moves [OF assms(1)] cts_start_inv [OF assms(2)]
  by (simp add: offered_concat taken_concat)

lemma cts_queue_length: "cts_inv c \<Longrightarrow> length (cts_queue c) \<le> 256"
  using ring_invD(3) [of "cts_ring c"] by (simp add: cts_inv_def cts_queue_def offers_def rg_tail_def)

text \<open>What the first entry of the head's slot says.\<close>

lemma head_entry:
  assumes inv: "cts_inv c" and idx: "sf_idx (sc_fifo (ct_send c) ! row (cur_slot (ct_send c)) 0) = sc_fifoHead (ct_send c) + 1"
  shows "\<exists>f fs. cts_queue c = f # fs \<and> sc_fifo (ct_send c) ! row (cur_slot (ct_send c)) 0 = f ! 0 \<and>
    nat (slot_nreqs (ct_send c) (cur_slot (ct_send c))) = length f"
proof -
  let ?r = "cts_ring c"
  have R: "ring_inv ?r" using inv by (simp add: cts_inv_def)
  have hd: "sc_fifoHead (ct_send c) + 1 = word_of_nat (rg_head ?r + 1)" "cur_slot (ct_send c) = rg_head ?r mod 256"
    "sc_fifo (ct_send c) = rg_fifo ?r"
    by (simp_all add: cts_ring_def cur_slot_nat)
  have h: "rg_head ?r + 1 < 2 ^ 64" using ring_invD(2) [OF R] inv by (simp add: cts_inv_def rg_tail_def cts_ring_def)
  note ho = head_offer [OF R idx [unfolded hd] h]
  have "cts_queue c = rg_hist ?r ! rg_head ?r # drop (Suc (rg_head ?r)) (rg_hist ?r)"
    using ho(1) by (simp add: cts_queue_def offers_def live_offer_def rg_tail_def Cons_nth_drop_Suc)
  then show ?thesis using ho(4) ring_invD(8) [OF R ho(1,2,3)] by (simp add: hd slot_nreqs_def)
qed

lemma landed_entry:
  assumes inv: "cts_inv c" and net: "ct_net c = []" and q: "cts_queue c \<noteq> []"
  shows "sf_idx (sc_fifo (ct_send c) ! row (cur_slot (ct_send c)) 0) = sc_fifoHead (ct_send c) + 1"
proof -
  let ?r = "cts_ring c"
  have R: "ring_inv ?r" using inv by (simp add: cts_inv_def)
  have l: "live_offer ?r (rg_head ?r)" using q by (simp add: cts_queue_def offers_def live_offer_def rg_tail_def)
  then have ok: "offer_ok (rg_head ?r) (rg_hist ?r ! rg_head ?r)" using ring_invD(5) [OF R] by (simp add: live_offer_def)
  have "rg_fifo ?r ! row (rg_head ?r mod 256) 0 = rg_hist ?r ! rg_head ?r ! 0"
    using ring_invD(8) [OF R l] ok net by (simp add: offer_ok_def cts_ring_def)
  then show ?thesis using offer_idx [OF R l, of 0] ok by (simp add: cts_ring_def cur_slot_nat offer_ok_def)
qed

section \<open>The properties of the channel\<close>

text \<open>
  C7: the clear-to-send channel refines a queue of offers: every step of the two ends keeps the
  invariant, and is a step of the queue: a successful \<^verbatim>\<open>ncclIbIrecv\<close> appends the entries it wrote, an
  \<^verbatim>\<open>ncclIbIsend\<close> that moves the head removes the front, which is what the sender read in its slot, and
  everything else leaves the queue as it is, whatever the order in which the entries land.
\<close>
theorem cts_refines_queue:
  assumes "cts_inv c" "cts_step pm c ev c'"
  shows "cts_inv c' \<and> queue_step (cts_queue c) ev (cts_queue c')"
  by (rule cts_step_queue [OF assms(2,1)])

text \<open>
  C6: on a new connection the sender takes up the offers in the order in which the receiver
  made them, each once and with the contents the receiver wrote: at any time the offers made are the offers taken
  followed by the open ones, of which there are at most 256.
\<close>
theorem cts_fifo_order:
  assumes "cts_start c" "cts_run pm c evs c'"
  shows "offered_in evs = taken_in evs @ cts_queue c' \<and> length (cts_queue c') \<le> 256"
  using cts_run_queue [OF assms(2,1)] cts_queue_length by simp

text \<open>
  \<^verbatim>\<open>ncclIbIsend\<close> never takes an old entry for a new offer, and never misses one that has
  arrived: when the number in the first entry of its slot is the awaited one there is an open offer and the entry and the count are
  those of the oldest; and when nothing is on its way and an offer is open, the awaited number is there.
\<close>
theorem cts_no_stale_offer:
  assumes "cts_start c" "cts_run pm c evs c'"
  shows "if sf_idx (sc_fifo (ct_send c') ! row (cur_slot (ct_send c')) 0) = sc_fifoHead (ct_send c') + 1
    then \<exists>f fs. cts_queue c' = f # fs \<and> sc_fifo (ct_send c') ! row (cur_slot (ct_send c')) 0 = f ! 0 \<and>
        nat (slot_nreqs (ct_send c') (cur_slot (ct_send c'))) = length f
    else ct_net c' \<noteq> [] \<or> cts_queue c' = []"
  using cts_run_queue [OF assms(2,1)] head_entry [of c'] landed_entry [of c'] by auto

section \<open>A concrete run\<close>

definition example_cts :: cts where
  "example_cts = \<lparr> ct_send = example_offer_comm\<lparr> sc_fifo := replicate 2048 zero_fifo \<rparr>, ct_recv = example_recv_comm,
     ct_net = [], ct_hist = [] \<rparr>"

definition example_entry :: ncclIbSendFifo where
  "example_entry = \<lparr> sf_addr = 8192, sf_size = 1000, sf_rkeys = [5, 0], sf_nreqs = 1, sf_tag = 9, sf_idx = 1 \<rparr>"

definition example_landed :: "ncclIbRecvComm \<Rightarrow> cts" where
  "example_landed r = \<lparr> ct_send = example_offer_comm\<lparr> sc_fifo := (replicate 2048 zero_fifo)[0 := example_entry] \<rparr>,
     ct_recv = r, ct_net = [], ct_hist = [[example_entry]] \<rparr>"

lemma example_cts_start: "cts_start example_cts"
  by (simp add: cts_start_def example_cts_def example_offer_sel example_recv_inv example_recv_sel)

lemma example_landed_send:
  "send_inv example_params (ct_send (example_landed r))" "offer_ready (ct_send (example_landed r)) 9"
  "cur_slot (ct_send (example_landed r)) = 0" "slot_nreqs (ct_send (example_landed r)) 0 = 1"
  "sc_fifoHead (ct_send (example_landed r)) = 0" "sc_fifo (ct_send (example_landed r)) ! row 0 0 = example_entry"
proof -
  let ?c = "ct_send (example_landed r)"
  have base: "sc_base ?c = sc_base example_offer_comm" "sc_fifoReqs ?c = sc_fifoReqs example_offer_comm"
    by (simp_all add: example_landed_def)
  have none: "sc_fifoReqs ?c ! row s k = None" if "s < 256" "k < 8" for s k
    using row_less [OF that] by (simp add: base) (simp add: example_offer_comm_def)
  show head: "sc_fifoHead ?c = 0" and slot: "cur_slot ?c = 0"
    by (simp_all add: example_landed_def example_offer_sel cur_slot_def)
  show f: "sc_fifo ?c ! row 0 0 = example_entry" by (simp add: example_landed_def row_def)
  show n: "slot_nreqs ?c 0 = 1" by (simp add: slot_nreqs_def f) (simp add: example_entry_def)
  have "length (sc_fifo ?c) = 2048" by (simp add: example_landed_def)
  then show "send_inv example_params ?c"
    using example_offer_inv none none [OF cur_slot_less] unfolding send_inv_def base by simp
  show "offer_ready ?c 9"
    unfolding offer_ready_def Let_def slot n head f using none [of 0 0] example_offer_unused
    by (simp add: base bad_recv_info_def lessThan_empty_iff)
      (simp add: example_entry_def example_offer_comm_def example_send_comm_def example_base_def)
qed

lemma example_cts_run:
  obtains r c' where "cts_run example_params example_cts [Offered [example_entry], Internal] (example_landed r)"
    "cts_step example_params (example_landed r) (Taken [example_entry]) c'"
proof -
  obtain rq r w' where run: "ncclIbIrecv example_params (\<lambda>_ _. ncclSuccess) 1 [8192] [1000] [9]
    [\<lparr> mk_lkeys = [1, 2], mk_rkeys = [5, 6] \<rparr>] example_recv_comm example_world = (ncclSuccess, rq, r, w')"
    by (rule example_recv_run)
  obtain req where f: "rc_fifo r = offered example_recv_comm 1 [8192] [1000] [9] [\<lparr> mk_lkeys = [1, 2], mk_rkeys = [5, 6] \<rparr>]"
    by (rule irecv_closed [OF example_recv_inv run])
  have len: "length (rc_fifo example_recv_comm) = 2048" using example_recv_inv by (simp add: recv_inv_def)
  have e: "rc_fifo r ! row 0 0 = example_entry"
    using offered_nth(1) [OF len, of 1 0 "[8192]" "[1000]" "[9]" "[\<lparr> mk_lkeys = [1, 2], mk_rkeys = [5, 6] \<rparr>]"]
    by (simp add: f example_recv_sel cts_entry_def)
      (simp add: example_recv_comm_def example_entry_def zero_fifo_def row_def)
  have ws: "slot_writes r (tail_slot example_recv_comm) 1 = [(0, example_entry)]"
    using e by (simp add: slot_writes_def example_recv_sel row_def)
  let ?c1 = "example_cts\<lparr> ct_recv := r, ct_net := ct_net example_cts @ [(0, example_entry)],
      ct_hist := ct_hist example_cts @ [map snd [(0 :: nat, example_entry)]] \<rparr>"
  have "cts_step example_params example_cts (Offered (map snd [(0 :: nat, example_entry)])) ?c1"
    by (rule cts_step.post [where n = 1 and w = example_world])
      (use run ws in \<open>simp_all add: example_cts_def example_offer_sel\<close>)
  moreover have "cts_step example_params ?c1 Internal (example_landed r)"
    using cts_step.land [of ?c1 "[]" 0 example_entry "[]" example_params] by (simp add: example_cts_def example_landed_def)
  ultimately have "cts_run example_params example_cts ([Offered [example_entry], Internal]) (example_landed r)"
    by (simp add: run_two)
  note two = this [simplified]
  note S = example_landed_send [of r]
  obtain i comm' w2 where send: "ncclIbIsend example_params (\<lambda>_ _. ncclSuccess) 4096 1000 9 \<lparr> mk_lkeys = [1, 2], mk_rkeys = [3, 4] \<rparr> []
       (ct_send (example_landed r)) example_world = Some (ncclSuccess, Some i, [], comm', w2)" "sc_fifoHead comm' = 1"
    by (rule isend_single [OF S(1,2), of 1000 "\<lambda>_ _. ncclSuccess" 4096 "\<lparr> mk_lkeys = [1, 2], mk_rkeys = [3, 4] \<rparr>" example_world "[]"])
      (simp_all add: S)
  have "cts_step example_params (example_landed r) (Taken [example_entry])
      ((example_landed r)\<lparr> ct_send := comm', ct_net := [] @ [] \<rparr>)"
    by (rule cts_step.send [OF _ send(1) refl refl]) (use send(2) S in \<open>simp_all add: example_landed_def\<close>)
  with two show thesis by (rule that)
qed

theorem cts_refines_queue_witness:
  "\<exists>r c'. cts_step example_params (example_landed r) (Taken [example_entry]) c' \<and>
     queue_step (cts_queue (example_landed r)) (Taken [example_entry]) (cts_queue c')"
proof -
  obtain r c' where run: "cts_run example_params example_cts [Offered [example_entry], Internal] (example_landed r)"
    "cts_step example_params (example_landed r) (Taken [example_entry]) c'"
    by (rule example_cts_run)
  have "cts_inv (example_landed r)" using cts_run_queue [OF run(1) example_cts_start] by simp
  from cts_refines_queue [OF this run(2)] run(2) show ?thesis by blast
qed

theorem cts_fifo_order_witness:
  "\<exists>c'. cts_run example_params example_cts [Offered [example_entry], Internal, Taken [example_entry]] c' \<and> cts_queue c' = []"
proof -
  obtain r c' where run: "cts_run example_params example_cts [Offered [example_entry], Internal] (example_landed r)"
    "cts_step example_params (example_landed r) (Taken [example_entry]) c'"
    by (rule example_cts_run)
  have "cts_run example_params example_cts [Offered [example_entry], Internal, Taken [example_entry]] c'"
    using run.more [OF run] by simp
  from cts_fifo_order [OF example_cts_start this] this show ?thesis by auto
qed

theorem cts_no_stale_offer_witness:
  "\<exists>r. sf_idx (sc_fifo (ct_send (example_landed r)) ! row 0 0) = 1 \<and>
     (\<exists>f fs. cts_queue (example_landed r) = f # fs \<and> f ! 0 = example_entry \<and> length f = 1)"
proof -
  obtain r c' where run: "cts_run example_params example_cts [Offered [example_entry], Internal] (example_landed r)"
    "cts_step example_params (example_landed r) (Taken [example_entry]) c'"
    by (rule example_cts_run)
  have "sf_idx example_entry = 1" by (simp add: example_entry_def)
  with cts_no_stale_offer [OF example_cts_start run(1)] example_landed_send [of r] show ?thesis by force
qed

end
