(* ===== verification/Refcount.thy ===== *)
theory Refcount
  imports Prelude "HOL-Library.Multiset"
begin

text \<open>
  The interface of a table of shared, reference counted resources: a client acquires a resource
  by a key, gets a handle, and gives the handle back once for each time it got it. The memory
  registration cache of an InfiniBand device is one. The laws say how the two
  operations move the counts; what follows for every run of clients is proved once, here.
\<close>

locale refcounted =
  fixes inv :: "'s \<Rightarrow> bool"
    and refs :: "'s \<Rightarrow> 'h \<Rightarrow> nat"
    and acq :: "'k \<Rightarrow> 's \<Rightarrow> 'h option \<times> 's"
    and rel :: "'h \<Rightarrow> 's \<Rightarrow> bool \<times> 's"
  assumes acq_Some: "inv s \<Longrightarrow> acq k s = (Some h, s') \<Longrightarrow> inv s' \<and> refs s' = (refs s)(h := refs s h + 1)"
    and acq_None: "inv s \<Longrightarrow> acq k s = (None, s') \<Longrightarrow> inv s' \<and> refs s' = refs s"
    and rel_held: "inv s \<Longrightarrow> 0 < refs s h \<Longrightarrow>
      fst (rel h s) \<and> inv (snd (rel h s)) \<and> refs (snd (rel h s)) = (refs s)(h := refs s h - 1)"
begin

text \<open>
  A run of the clients: acquisitions, and releases of handles somebody holds. The multiset is what
  the clients hold; the flag is whether every release found its resource.
\<close>

fun run :: "('k + 'h) list \<Rightarrow> 'h multiset \<Rightarrow> 's \<Rightarrow> bool \<times> 'h multiset \<times> 's" where
  "run [] held s = (True, held, s)"
| "run (Inl k # cs) held s =
     (case acq k s of (None, s') \<Rightarrow> run cs held s' | (Some h, s') \<Rightarrow> run cs (add_mset h held) s')"
| "run (Inr h # cs) held s =
     (if h \<in># held
      then let (ok, s') = rel h s; (oks, r) = run cs (held - {#h#}) s' in (ok \<and> oks, r)
      else run cs held s)"

lemma run_counts:
  assumes "inv s" "\<forall>h. refs s h = count held h" "run cs held s = (ok, held', s')"
  shows "ok \<and> inv s' \<and> (\<forall>h. refs s' h = count held' h)"
  using assms
proof (induction cs arbitrary: held s ok)
  case Nil
  then show ?case by simp
next
  case (Cons c cs)
  show ?case
  proof (cases c)
    case (Inl k)
    obtain r s1 where a: "acq k s = (r, s1)" by (cases "acq k s") auto
    show ?thesis
    proof (cases r)
      case None
      then show ?thesis using Cons.IH [of s1 held ok] Cons.prems a acq_None [OF Cons.prems(1)] Inl by simp
    next
      case (Some h)
      then show ?thesis using Cons.IH [of s1 "add_mset h held" ok] Cons.prems a acq_Some [OF Cons.prems(1)] Inl by simp
    qed
  next
    case (Inr h)
    show ?thesis
    proof (cases "h \<in># held")
      case False
      then show ?thesis using Cons.IH [of s held ok] Cons.prems Inr by simp
    next
      case True
      then have pos: "0 < refs s h" using Cons.prems(2) by simp
      obtain s1 where r: "rel h s = (True, s1)" using rel_held [OF Cons.prems(1) pos] by (cases "rel h s") auto
      have i1: "inv s1" "refs s1 = (refs s)(h := refs s h - 1)" using rel_held [OF Cons.prems(1) pos] r by auto
      have c1: "\<forall>h'. refs s1 h' = count (held - {#h#}) h'" using i1(2) Cons.prems(2) by simp
      have "run cs (held - {#h#}) s1 = (ok, held', s')" using Cons.prems(3) Inr True r by (auto split: prod.splits)
      then show ?thesis using Cons.IH [OF i1(1) c1] by simp
    qed
  qed
qed

text \<open>While somebody holds a handle the resource has references; when nobody does it has none.\<close>

lemma run_refs:
  assumes "inv s" "\<forall>h. refs s h = 0" "run cs {#} s = (ok, held, s')"
  shows "ok" "inv s'" "refs s' h = count held h"
  using run_counts [OF assms(1) _ assms(3)] assms(2) by simp_all

end

end
