(* ===== verification/IbMrCache.thy ===== *)
theory IbMrCache
  imports IbRequests Refcount
begin

text \<open>
  The registration of user memory: \<^verbatim>\<open>ncclIbRegMrDmaBufInternal\<close>, \<^verbatim>\<open>ncclIbRegMrDmaBuf\<close>,
  \<^verbatim>\<open>ncclIbRegMr\<close>, \<^verbatim>\<open>ncclIbDeregMrInternal\<close> and \<^verbatim>\<open>ncclIbDeregMr\<close> of \<^verbatim>\<open>src/unet/unet_ib.cc\<close>. Each
  device keeps the regions it registered in an array ordered by address, with a
  reference count each. The page size is that of the system, the lock of the device is held
  during each operation, and memory regions are numbers the verbs library gives out.
\<close>

section \<open>Definitions\<close>

record ncclIbMr =
  mr_addr :: u64
  mr_pages :: u64
  mr_refs :: int
  mr_mr :: nat

text \<open>
  The population is the length of the list. \<open>mc_block\<close> is the number of elements of the block
  behind \<open>slots\<close>, which the code means to be \<open>capacity\<close>.
\<close>

record ncclIbMrCache =
  mc_slots :: "ncclIbMr list"
  mc_capacity :: nat
  mc_block :: nat

text \<open>A device: its cache, and the regions registered with the card at the moment.\<close>

record mr_dev =
  md_cache :: ncclIbMrCache
  md_live :: "nat list"

datatype reg_call =
    RegDmabuf (rg_offset: u64) (rg_length: u64) (rg_iova: u64) (rg_fd: int) (rg_relaxed: bool)
  | RegIova2 (rg_addr: u64) (rg_length: u64) (rg_iova: u64)
  | RegMr (rg_addr: u64) (rg_length: u64)

text \<open>
  The library the code calls: registration and deregistration, given the regions registered, and
  whether a block of so many elements can be allocated. \<open>mv_relaxed\<close> is
  \<^verbatim>\<open>ncclIbRelaxedOrderingEnabled\<close>.
\<close>

record mr_verbs =
  mv_reg :: "nat list \<Rightarrow> reg_call \<Rightarrow> ncclResult \<times> nat"
  mv_dereg :: "nat list \<Rightarrow> nat \<Rightarrow> ncclResult"
  mv_alloc :: "nat \<Rightarrow> bool"
  mv_relaxed :: bool
  mv_pageSize :: u64

definition ib_dec :: "int \<Rightarrow> world \<Rightarrow> world" where
  "ib_dec i w =
     (case wd_ib_stat w of None \<Rightarrow> w | Some st \<Rightarrow> w\<lparr> wd_ib_mem := Stat_dec st i (wd_ib_mem w) \<rparr>)"

definition page_addr :: "u64 \<Rightarrow> u64 \<Rightarrow> u64" where
  "page_addr ps data = data AND (- ps)"

definition page_count :: "u64 \<Rightarrow> u64 \<Rightarrow> u64 \<Rightarrow> u64" where
  "page_count ps data sz = (data + sz - page_addr ps data + ps - 1) div ps"

text \<open>The search: the slot to insert at, or the slot that holds the region already.\<close>

datatype mr_place = MrInsert nat | MrHit nat

fun mr_scan :: "u64 \<Rightarrow> u64 \<Rightarrow> u64 \<Rightarrow> nat \<Rightarrow> ncclIbMr list \<Rightarrow> mr_place" where
  "mr_scan ps addr pages slot [] = MrInsert slot"
| "mr_scan ps addr pages slot (s # ss) =
     (if addr < mr_addr s then MrInsert slot
      else if mr_addr s \<le> addr \<and> (addr - mr_addr s) div ps + pages \<le> mr_pages s then MrHit slot
      else mr_scan ps addr pages (Suc slot) ss)"

text \<open>Growing the array: the capacity is raised before the allocation is tried.\<close>

definition mr_grow :: "(nat \<Rightarrow> bool) \<Rightarrow> ncclIbMrCache \<Rightarrow> ncclResult \<times> ncclIbMrCache" where
  "mr_grow alloc c =
     (if length (mc_slots c) = mc_capacity c
      then let cap = (if mc_capacity c < 32 then 32 else 2 * mc_capacity c);
               c = c\<lparr> mc_capacity := cap \<rparr>
           in if alloc cap then (ncclSuccess, c\<lparr> mc_block := cap \<rparr>) else (ncclSystemError, c)
      else (ncclSuccess, c))"

definition reg_call :: "mr_verbs \<Rightarrow> u64 \<Rightarrow> u64 \<Rightarrow> u64 \<Rightarrow> int \<Rightarrow> reg_call" where
  "reg_call v addr pages offset fd =
     (if fd \<noteq> -1 then RegDmabuf offset (pages * mv_pageSize v) addr fd (mv_relaxed v)
      else if mv_relaxed v then RegIova2 addr (pages * mv_pageSize v) addr
      else RegMr addr (pages * mv_pageSize v))"

definition insert_at :: "nat \<Rightarrow> 'a \<Rightarrow> 'a list \<Rightarrow> 'a list" where
  "insert_at i x xs = take i xs @ x # drop i xs"

text \<open>\<open>None\<close>: the code writes outside the block of the cache.\<close>

definition ncclIbRegMrDmaBufInternal ::
    "mr_verbs \<Rightarrow> u64 \<Rightarrow> u64 \<Rightarrow> u64 \<Rightarrow> int \<Rightarrow> mr_dev \<Rightarrow> world \<Rightarrow> (ncclResult \<times> nat option \<times> mr_dev \<times> world) option" where
  "ncclIbRegMrDmaBufInternal v data sz offset fd d w =
     (let addr = page_addr (mv_pageSize v) data;
          pages = page_count (mv_pageSize v) data sz;
          c = md_cache d
      in case mr_scan (mv_pageSize v) addr pages 0 (mc_slots c) of
           MrHit slot \<Rightarrow>
             let s = mc_slots c ! slot in
             Some (ncclSuccess, Some (mr_mr s),
                   d\<lparr> md_cache := c\<lparr> mc_slots := (mc_slots c)[slot := s\<lparr> mr_refs := mr_refs s + 1 \<rparr>] \<rparr> \<rparr>, w)
         | MrInsert slot \<Rightarrow>
             let (res, c) = mr_grow (mv_alloc v) c; d = d\<lparr> md_cache := c \<rparr>
             in if ncclCheckFails res then Some (res, None, d, w)
                else let (res, mr) = mv_reg v (md_live d) (reg_call v addr pages offset fd)
                     in if ncclCheckFails res then Some (res, None, d, w)
                        else let w = ib_inc UNET_IB_MR_COUNT w in
                          if length (mc_slots c) < mc_block c
                          then Some (ncclSuccess, Some mr,
                                 d\<lparr> md_cache := c\<lparr> mc_slots := insert_at slot
                                        \<lparr> mr_addr = addr, mr_pages = pages, mr_refs = 1, mr_mr = mr \<rparr> (mc_slots c) \<rparr>,
                                   md_live := mr # md_live d \<rparr>, w)
                          else None)"

text \<open>The freed slot takes the last one's content.\<close>

definition move_last :: "nat \<Rightarrow> 'a list \<Rightarrow> 'a list" where
  "move_last i xs = butlast (xs[i := xs ! (length xs - 1)])"

definition ncclIbDeregMrInternal :: "mr_verbs \<Rightarrow> nat \<Rightarrow> mr_dev \<Rightarrow> world \<Rightarrow> ncclResult \<times> mr_dev \<times> world" where
  "ncclIbDeregMrInternal v mhandle d w =
     (let c = md_cache d in
      case find_index (\<lambda>s. mhandle = mr_mr s) (mc_slots c) of
        None \<Rightarrow> (ncclInternalError, d, w)
      | Some i \<Rightarrow>
          let s = (mc_slots c ! i)\<lparr> mr_refs := mr_refs (mc_slots c ! i) - 1 \<rparr>;
              c = c\<lparr> mc_slots := (mc_slots c)[i := s] \<rparr>
          in if mr_refs s = 0
             then let c = c\<lparr> mc_slots := move_last i (mc_slots c) \<rparr>;
                      c = (if mc_slots c = [] then c\<lparr> mc_capacity := 0, mc_block := 0 \<rparr> else c);
                      d = d\<lparr> md_cache := c \<rparr>;
                      res = mv_dereg v (md_live d) mhandle
                  in if ncclCheckFails res then (res, d, w)
                     else (ncclSuccess, d\<lparr> md_live := remove1 mhandle (md_live d) \<rparr>, ib_dec UNET_IB_MR_COUNT w)
             else (ncclSuccess, d\<lparr> md_cache := c \<rparr>, w))"

text \<open>
  The registration on every device of a communicator; \<open>ids\<close> are the numbers of its devices in
  \<^verbatim>\<open>ncclIbDevs\<close>. The handle is the list of the regions.
\<close>

fun reg_devs :: "mr_verbs \<Rightarrow> u64 \<Rightarrow> u64 \<Rightarrow> u64 \<Rightarrow> int \<Rightarrow> nat list \<Rightarrow> mr_dev list \<Rightarrow> world
    \<Rightarrow> (ncclResult \<times> nat list \<times> mr_dev list \<times> world) option" where
  "reg_devs v data sz offset fd [] ds w = Some (ncclSuccess, [], ds, w)"
| "reg_devs v data sz offset fd (i # is) ds w =
     (case ncclIbRegMrDmaBufInternal v data sz offset fd (ds ! i) w of
        None \<Rightarrow> None
      | Some (res, mr, d, w) \<Rightarrow>
          if ncclCheckFails res then Some (res, [], ds[i := d], w)
          else map_option (\<lambda>(res, mrs, ds, w). (res, the mr # mrs, ds, w))
                 (reg_devs v data sz offset fd is (ds[i := d]) w))"

definition ncclIbRegMrDmaBuf :: "mr_verbs \<Rightarrow> u64 \<Rightarrow> u64 \<Rightarrow> u64 \<Rightarrow> int \<Rightarrow> nat list \<Rightarrow> mr_dev list \<Rightarrow> world
    \<Rightarrow> (ncclResult \<times> nat list option \<times> mr_dev list \<times> world) option" where
  "ncclIbRegMrDmaBuf v data sz offset fd ids ds w =
     (case reg_devs v data sz offset fd ids ds w of
        None \<Rightarrow> None
      | Some (res, mrs, ds, w) \<Rightarrow> Some (res, if ncclCheckFails res then None else Some mrs, ds, w))"

definition ncclIbRegMr :: "mr_verbs \<Rightarrow> u64 \<Rightarrow> u64 \<Rightarrow> nat list \<Rightarrow> mr_dev list \<Rightarrow> world
    \<Rightarrow> (ncclResult \<times> nat list option \<times> mr_dev list \<times> world) option" where
  "ncclIbRegMr v data sz ids ds w = ncclIbRegMrDmaBuf v data sz 0 (-1) ids ds w"

fun dereg_devs :: "mr_verbs \<Rightarrow> (nat \<times> nat) list \<Rightarrow> mr_dev list \<Rightarrow> world \<Rightarrow> ncclResult \<times> mr_dev list \<times> world" where
  "dereg_devs v [] ds w = (ncclSuccess, ds, w)"
| "dereg_devs v ((i, mr) # ps) ds w =
     (let (res, d, w) = ncclIbDeregMrInternal v mr (ds ! i) w in
      if ncclCheckFails res then (res, ds[i := d], w) else dereg_devs v ps (ds[i := d]) w)"

definition ncclIbDeregMr :: "mr_verbs \<Rightarrow> nat list \<Rightarrow> nat list \<Rightarrow> mr_dev list \<Rightarrow> world \<Rightarrow> ncclResult \<times> mr_dev list \<times> world" where
  "ncclIbDeregMr v mrs ids ds w = dereg_devs v (zip ids mrs) ds w"

section \<open>The references\<close>

text \<open>The references of a region: the counts of the slots that hold it.\<close>

definition mr_refs_of :: "ncclIbMr list \<Rightarrow> nat \<Rightarrow> nat" where
  "mr_refs_of ss h = (\<Sum>s \<in># mset ss. if mr_mr s = h then nat (mr_refs s) else 0)"

text \<open>
  What the theorems take of the library and the system: a new region is none of the live ones, which the library promises; a live
  region can be given back, which it promises of a region with no memory window bound, and the program makes no windows; and there is memory
  for the cache to grow. What holds of a cache between two operations is \<open>mr_inv\<close>.
\<close>

definition good_verbs :: "mr_verbs \<Rightarrow> bool" where
  "good_verbs v \<longleftrightarrow>
     (\<forall>l c. ncclCheckFails (fst (mv_reg v l c)) \<or> snd (mv_reg v l c) \<notin> set l) \<and>
     (\<forall>l h. h \<notin> set l \<or> \<not> ncclCheckFails (mv_dereg v l h)) \<and>
     (\<forall>n. mv_alloc v n)"

definition mr_inv :: "mr_dev \<Rightarrow> bool" where
  "mr_inv d \<longleftrightarrow>
     distinct (map mr_mr (mc_slots (md_cache d))) \<and> distinct (md_live d) \<and>
     set (md_live d) = mr_mr ` set (mc_slots (md_cache d)) \<and>
     (\<forall>s \<in> set (mc_slots (md_cache d)). 0 < mr_refs s) \<and>
     length (mc_slots (md_cache d)) \<le> mc_capacity (md_cache d) \<and>
     mc_block (md_cache d) = mc_capacity (md_cache d)"

lemma mset_insert_at: "mset (insert_at i x xs) = add_mset x (mset xs)"
proof -
  have "mset (take i xs) + mset (drop i xs) = mset xs" by (metis append_take_drop_id mset_append)
  then show ?thesis by (simp add: insert_at_def)
qed

lemma mset_move_last:
  assumes "i < length xs"
  shows "mset (move_last i xs) = mset xs - {#xs ! i#}"
proof -
  let ?ys = "xs[i := last xs]"
  have ne: "xs \<noteq> []" using assms by auto
  have m: "mset ?ys = add_mset (last xs) (mset xs - {#xs ! i#})" using assms by (simp add: mset_update)
  have "last ?ys = last xs" using assms ne by (simp add: last_list_update)
  moreover have "?ys \<noteq> []" using ne by simp
  ultimately have "mset ?ys = add_mset (last xs) (mset (butlast ?ys))"
    using append_butlast_last_id [of ?ys] by (metis add.commute mset.simps(1) mset.simps(2) mset_append add_mset_add_single)
  with m show ?thesis using ne by (simp add: move_last_def last_conv_nth)
qed

lemma mset_map_eq_distinct: "mset xs = mset ys \<Longrightarrow> distinct (map f xs) \<longleftrightarrow> distinct (map f ys)"
  by (metis mset_eq_imp_distinct_iff mset_map)

lemma mset_nth_Cons: "i < length xs \<Longrightarrow> mset xs = mset (xs ! i # (take i xs @ drop (Suc i) xs))"
  by (metis id_take_nth_drop mset_append mset.simps(2) union_mset_add_mset_right)

lemma move_last_Cons: "i < length xs \<Longrightarrow> mset xs = mset (xs ! i # move_last i xs)"
  by (simp add: mset_move_last)

lemma mr_refs_of_mset:
  "mset ss' = add_mset s (mset ss) \<Longrightarrow> mr_refs_of ss' h = (if mr_mr s = h then nat (mr_refs s) else 0) + mr_refs_of ss h"
  by (simp add: mr_refs_of_def)

lemma mr_refs_of_absent: "h \<notin> mr_mr ` set ss \<Longrightarrow> mr_refs_of ss h = 0"
  by (auto simp: mr_refs_of_def)

lemma mr_refs_of_slot:
  assumes "distinct (map mr_mr ss)" "i < length ss"
  shows "mr_refs_of ss (mr_mr (ss ! i)) = nat (mr_refs (ss ! i))"
proof -
  note split = mset_nth_Cons [OF assms(2)]
  have "distinct (map mr_mr (ss ! i # (take i ss @ drop (Suc i) ss)))"
    using mset_map_eq_distinct [OF split] assms(1) by blast
  then have "mr_mr (ss ! i) \<notin> mr_mr ` set (take i ss @ drop (Suc i) ss)" by auto
  then show ?thesis using mr_refs_of_mset [of ss "ss ! i" "take i ss @ drop (Suc i) ss"] split
    by (simp add: mr_refs_of_absent)
qed

lemma mr_refs_of_other:
  assumes "i < length ss" "mr_mr (ss ! i) \<noteq> h" "mr_mr s = mr_mr (ss ! i)"
  shows "mr_refs_of (ss[i := s]) h = mr_refs_of ss h"
proof -
  have "mset (ss[i := s]) = add_mset s (mset (take i ss @ drop (Suc i) ss))"
    using assms(1) by (simp add: upd_conv_take_nth_drop)
  moreover have "mset ss = add_mset (ss ! i) (mset (take i ss @ drop (Suc i) ss))"
    using mset_nth_Cons [OF assms(1)] by simp
  ultimately show ?thesis
    using mr_refs_of_mset [of "ss[i := s]" s "take i ss @ drop (Suc i) ss" h]
      mr_refs_of_mset [of ss "ss ! i" "take i ss @ drop (Suc i) ss" h] assms(2,3) by simp
qed

lemma map_mr_update: "i < length ss \<Longrightarrow> mr_mr s = mr_mr (ss ! i) \<Longrightarrow> map mr_mr (ss[i := s]) = map mr_mr ss"
  by (rule nth_equalityI) (auto simp: nth_list_update)

lemma mr_refs_of_update:
  assumes "distinct (map mr_mr ss)" "i < length ss" "mr_mr s = mr_mr (ss ! i)"
  shows "mr_refs_of (ss[i := s]) = (mr_refs_of ss)(mr_mr s := nat (mr_refs s))"
proof
  fix h
  show "mr_refs_of (ss[i := s]) h = ((mr_refs_of ss)(mr_mr s := nat (mr_refs s))) h"
  proof (cases "h = mr_mr s")
    case True
    have "distinct (map mr_mr (ss[i := s]))" using assms by (simp add: map_mr_update)
    then show ?thesis using True mr_refs_of_slot [of "ss[i := s]" i] assms(2) by simp
  next
    case False
    then show ?thesis using mr_refs_of_other [of i ss h s] assms(2,3) by simp
  qed
qed

section \<open>The operations on the counts\<close>

lemma mr_scan_insert: "mr_scan ps addr pages k ss = MrInsert j \<Longrightarrow> k \<le> j \<and> j \<le> k + length ss"
  by (induction ps addr pages k ss rule: mr_scan.induct) (auto split: if_splits)

lemma mr_scan_hit:
  "mr_scan ps addr pages k ss = MrHit j \<Longrightarrow> k \<le> j \<and> j < k + length ss \<and>
     mr_addr (ss ! (j - k)) \<le> addr \<and> (addr - mr_addr (ss ! (j - k))) div ps + pages \<le> mr_pages (ss ! (j - k))"
proof (induction ps addr pages k ss rule: mr_scan.induct)
  case (2 ps addr pages k s ss)
  show ?case
  proof (cases "addr < mr_addr s \<or> mr_addr s \<le> addr \<and> (addr - mr_addr s) div ps + pages \<le> mr_pages s")
    case True
    then show ?thesis using 2(2) by (auto split: if_splits)
  next
    case False
    then have "mr_scan ps addr pages (Suc k) ss = MrHit j" using 2(2) by auto
    with 2(1) False have h: "Suc k \<le> j" "j < Suc k + length ss"
      "mr_addr (ss ! (j - Suc k)) \<le> addr \<and> (addr - mr_addr (ss ! (j - Suc k))) div ps + pages \<le> mr_pages (ss ! (j - Suc k))"
      by auto
    then have "j - k = Suc (j - Suc k)" by simp
    then have "(s # ss) ! (j - k) = ss ! (j - Suc k)" by simp
    with h show ?thesis by simp
  qed
qed simp

lemma mr_grow_room:
  assumes "\<forall>n. alloc n" "length (mc_slots c) \<le> mc_capacity c" "mc_block c = mc_capacity c" "mr_grow alloc c = (res, c')"
  shows "res = ncclSuccess \<and> mc_slots c' = mc_slots c \<and> length (mc_slots c) < mc_capacity c' \<and> mc_block c' = mc_capacity c'"
  using assms by (auto simp: mr_grow_def Let_def split: if_splits)

text \<open>A registration gives one more reference to the region it returns, and none when it fails.\<close>

lemma reg_refs:
  assumes v: "good_verbs v" and i: "mr_inv d"
  obtains (fail) res d' where "ncclIbRegMrDmaBufInternal v data sz offset fd d w = Some (res, None, d', w)"
      "ncclCheckFails res" "mr_inv d'" "mc_slots (md_cache d') = mc_slots (md_cache d)"
  | (hit) k where "k < length (mc_slots (md_cache d))"
      "mr_scan (mv_pageSize v) (page_addr (mv_pageSize v) data) (page_count (mv_pageSize v) data sz) 0
         (mc_slots (md_cache d)) = MrHit k"
      "ncclIbRegMrDmaBufInternal v data sz offset fd d w = Some (ncclSuccess, Some (mr_mr (mc_slots (md_cache d) ! k)),
         d\<lparr> md_cache := (md_cache d)\<lparr> mc_slots := (mc_slots (md_cache d))[k := (mc_slots (md_cache d) ! k)
            \<lparr> mr_refs := mr_refs (mc_slots (md_cache d) ! k) + 1 \<rparr>] \<rparr> \<rparr>, w)"
  | (new) k d' mr where "k \<le> length (mc_slots (md_cache d))"
      "mc_slots (md_cache d') = insert_at k \<lparr> mr_addr = page_addr (mv_pageSize v) data,
         mr_pages = page_count (mv_pageSize v) data sz, mr_refs = 1, mr_mr = mr \<rparr> (mc_slots (md_cache d))"
      "md_live d' = mr # md_live d" "mr \<notin> set (md_live d)" "mr_inv d'"
      "ncclIbRegMrDmaBufInternal v data sz offset fd d w = Some (ncclSuccess, Some mr, d', ib_inc UNET_IB_MR_COUNT w)"
proof -
  let ?ps = "mv_pageSize v" let ?c = "md_cache d" let ?ss = "mc_slots (md_cache d)"
  let ?a = "page_addr ?ps data" let ?n = "page_count ?ps data sz"
  show thesis
  proof (cases "mr_scan ?ps ?a ?n 0 ?ss")
    case (MrHit k)
    then show thesis using hit [of k] mr_scan_hit [OF MrHit] by (simp add: ncclIbRegMrDmaBufInternal_def Let_def)
  next
    case (MrInsert k)
    obtain res c' where g: "mr_grow (mv_alloc v) ?c = (res, c')" by (cases "mr_grow (mv_alloc v) ?c") auto
    have room: "res = ncclSuccess" "mc_slots c' = ?ss" "length ?ss < mc_capacity c'" "mc_block c' = mc_capacity c'"
      using mr_grow_room [OF _ _ _ g] v i by (auto simp: good_verbs_def mr_inv_def)
    obtain res' mr where r: "mv_reg v (md_live d) (reg_call v ?a ?n offset fd) = (res', mr)"
      by (cases "mv_reg v (md_live d) (reg_call v ?a ?n offset fd)") auto
    show thesis
    proof (cases "ncclCheckFails res'")
      case True
      show thesis
        by (rule fail [of res' "d\<lparr> md_cache := c' \<rparr>"])
          (use True r g room i MrInsert in \<open>auto simp: ncclIbRegMrDmaBufInternal_def Let_def mr_inv_def\<close>)
    next
      case False
      let ?s = "\<lparr> mr_addr = ?a, mr_pages = ?n, mr_refs = 1, mr_mr = mr \<rparr>"
      let ?d = "d\<lparr> md_cache := c'\<lparr> mc_slots := insert_at k ?s ?ss \<rparr>, md_live := mr # md_live d \<rparr>"
      have fresh: "mr \<notin> set (md_live d)" using v r False unfolding good_verbs_def by (metis fst_conv snd_conv)
      have m: "mset (insert_at k ?s ?ss) = mset (?s # ?ss)" by (simp add: mset_insert_at)
      have "distinct (map mr_mr (insert_at k ?s ?ss))"
        using mset_map_eq_distinct [OF m, of mr_mr] fresh i by (simp add: mr_inv_def)
      moreover have "set (insert_at k ?s ?ss) = insert ?s (set ?ss)" using mset_eq_setD [OF m] by simp
      moreover have "length (insert_at k ?s ?ss) = Suc (length ?ss)" using mset_eq_length [OF m] by simp
      ultimately have "mr_inv ?d" using i fresh room by (auto simp: mr_inv_def)
      then show thesis
        by (intro new [of k ?d mr])
          (use MrInsert mr_scan_insert [OF MrInsert] g room r False fresh in
            \<open>auto simp: ncclIbRegMrDmaBufInternal_def Let_def\<close>)
    qed
  qed
qed

lemma reg_hit_inv:
  assumes "mr_inv d" "k < length (mc_slots (md_cache d))"
  defines "s \<equiv> (mc_slots (md_cache d) ! k)\<lparr> mr_refs := mr_refs (mc_slots (md_cache d) ! k) + 1 \<rparr>"
  shows "mr_inv (d\<lparr> md_cache := (md_cache d)\<lparr> mc_slots := (mc_slots (md_cache d))[k := s] \<rparr> \<rparr>)"
proof -
  have m: "map mr_mr ((mc_slots (md_cache d))[k := s]) = map mr_mr (mc_slots (md_cache d))"
    using assms(2) by (intro map_mr_update) (simp_all add: s_def)
  then have "mr_mr ` set ((mc_slots (md_cache d))[k := s]) = mr_mr ` set (mc_slots (md_cache d))"
    by (metis set_map)
  moreover have "0 < mr_refs (mc_slots (md_cache d) ! k)" using assms(1,2) nth_mem unfolding mr_inv_def by blast
  then have "0 < mr_refs s" by (simp add: s_def)
  then have "\<forall>t \<in> set ((mc_slots (md_cache d))[k := s]). 0 < mr_refs t"
    using assms(1) set_update_subset_insert unfolding mr_inv_def by fastforce
  ultimately show ?thesis using assms(1) m by (simp add: mr_inv_def)
qed

text \<open>A deregistration takes one reference away; the last one deregisters the region.\<close>

lemma dereg_refs:
  assumes v: "good_verbs v" and i: "mr_inv d" and h: "0 < mr_refs_of (mc_slots (md_cache d)) h"
  obtains d' w' where "ncclIbDeregMrInternal v h d w = (ncclSuccess, d', w')" "mr_inv d'"
    "mr_refs_of (mc_slots (md_cache d')) = (mr_refs_of (mc_slots (md_cache d)))(h := mr_refs_of (mc_slots (md_cache d)) h - 1)"
proof -
  let ?c = "md_cache d" let ?ss = "mc_slots (md_cache d)"
  have "h \<in> mr_mr ` set ?ss" using h mr_refs_of_absent by fastforce
  then obtain k where k: "find_index (\<lambda>s. h = mr_mr s) ?ss = Some k"
    using find_index_None [of "\<lambda>s. h = mr_mr s" ?ss] by fastforce
  have kl: "k < length ?ss" "mr_mr (?ss ! k) = h" using find_index_Some [OF k] by auto
  have dist: "distinct (map mr_mr ?ss)" using i by (simp add: mr_inv_def)
  have cnt: "mr_refs_of ?ss h = nat (mr_refs (?ss ! k))" using mr_refs_of_slot [OF dist kl(1)] kl(2) by simp
  have pos: "0 < mr_refs (?ss ! k)" using i kl by (simp add: mr_inv_def)
  let ?s = "(?ss ! k)\<lparr> mr_refs := mr_refs (?ss ! k) - 1 \<rparr>" let ?us = "?ss[k := ?s]"
  have mu: "map mr_mr ?us = map mr_mr ?ss" using kl(1) by (intro map_mr_update) simp_all
  have ru: "mr_refs_of ?us = (mr_refs_of ?ss)(h := mr_refs_of ?ss h - 1)"
    using mr_refs_of_update [OF dist kl(1), of ?s] kl(2) cnt pos by (simp add: nat_diff_distrib)
  show thesis
  proof (cases "mr_refs ?s = 0")
    case False
    let ?d = "d\<lparr> md_cache := ?c\<lparr> mc_slots := ?us \<rparr> \<rparr>"
    have "0 < mr_refs ?s" using False pos by simp
    then have "\<forall>t \<in> set ?us. 0 < mr_refs t"
      using i set_update_subset_insert unfolding mr_inv_def by fastforce
    moreover have "mr_mr ` set ?us = mr_mr ` set ?ss" using mu by (metis set_map)
    ultimately have "mr_inv ?d" using i mu by (simp add: mr_inv_def)
    moreover have "ncclIbDeregMrInternal v h d w = (ncclSuccess, ?d, w)"
      using k False by (simp add: ncclIbDeregMrInternal_def Let_def)
    ultimately show thesis using that [of ?d w] ru by simp
  next
    case True
    let ?rs = "move_last k ?us"
    let ?d = "d\<lparr> md_cache := (if ?rs = [] then ?c\<lparr> mc_slots := ?rs, mc_capacity := 0, mc_block := 0 \<rparr>
                               else ?c\<lparr> mc_slots := ?rs \<rparr>), md_live := remove1 h (md_live d) \<rparr>"
    have m: "mset ?us = mset (?s # ?rs)" using move_last_Cons [of k ?us] kl(1) by simp
    have hl: "h \<in> set (md_live d)" using i kl by (auto simp: mr_inv_def)
    then have ok: "\<not> ncclCheckFails (mv_dereg v (md_live d) h)" using v by (auto simp: good_verbs_def)
    have dr: "distinct (map mr_mr (?s # ?rs))" using mset_map_eq_distinct [OF m, of mr_mr] mu dist by simp
    have su: "set ?us = insert ?s (set ?rs)" using mset_eq_setD [OF m] by simp
    have sm: "insert h (mr_mr ` set ?rs) = mr_mr ` set ?ss"
      using arg_cong [OF mu, of set] su kl(2) by (simp add: image_insert)
    moreover have "h \<notin> mr_mr ` set ?rs" using dr kl(2) by simp
    ultimately have im: "mr_mr ` set ?rs = mr_mr ` set ?ss - {h}" by blast
    have len: "length ?us = Suc (length ?rs)" using mset_eq_length [OF m] by simp
    have "\<forall>t \<in> set ?rs. 0 < mr_refs t"
    proof
      fix t assume t: "t \<in> set ?rs"
      then have "t \<in> insert ?s (set ?ss)" using su set_update_subset_insert [of ?ss k ?s] by blast
      moreover have "mr_mr t \<noteq> h" using im t by blast
      ultimately have "t \<in> set ?ss" using kl(2) by auto
      then show "0 < mr_refs t" using i by (simp add: mr_inv_def)
    qed
    moreover have "set (remove1 h (md_live d)) = mr_mr ` set ?rs" "distinct (remove1 h (md_live d))"
      using im i by (auto simp: mr_inv_def)
    ultimately have "mr_inv ?d" using dr len i by (auto simp: mr_inv_def)
    moreover have "mc_slots (md_cache ?d) = ?rs" by simp
    moreover have "ncclIbDeregMrInternal v h d w = (ncclSuccess, ?d, ib_dec UNET_IB_MR_COUNT w)"
      using k True ok by (simp add: ncclIbDeregMrInternal_def Let_def)
    moreover have "mr_refs_of ?rs = mr_refs_of ?us"
      using mr_refs_of_mset [of ?us ?s ?rs] m True by (intro ext) simp
    ultimately show thesis using that [of ?d "ib_dec UNET_IB_MR_COUNT w"] ru by presburger
  qed
qed

section \<open>The cache as a table of counted references\<close>

text \<open>The client's view: what it gets for a buffer, and giving it back.\<close>

type_synonym mr_state = "mr_verbs \<times> mr_dev \<times> world"

definition mr_acquire :: "u64 \<times> u64 \<times> u64 \<times> int \<Rightarrow> mr_state \<Rightarrow> nat option \<times> mr_state" where
  "mr_acquire k s =
     (case (k, s) of ((data, sz, offset, fd), (v, d, w)) \<Rightarrow>
        (case ncclIbRegMrDmaBufInternal v data sz offset fd d w of
           None \<Rightarrow> (None, s) | Some (res, mr, d, w) \<Rightarrow> (mr, v, d, w)))"

definition mr_release :: "nat \<Rightarrow> mr_state \<Rightarrow> bool \<times> mr_state" where
  "mr_release h s =
     (case s of (v, d, w) \<Rightarrow>
        let (res, d, w) = ncclIbDeregMrInternal v h d w in (\<not> ncclCheckFails res, v, d, w))"

interpretation mr_pool: refcounted
  "\<lambda>(v, d, w). good_verbs v \<and> mr_inv d" "\<lambda>(v, d, w). mr_refs_of (mc_slots (md_cache d))" mr_acquire mr_release
proof (unfold_locales, goal_cases)
  case (1 s k h s')
  obtain v d w data sz offset fd where s: "s = (v, d, w)" "k = (data, sz, offset, fd)" by (cases s, cases k) auto
  have g: "good_verbs v" "mr_inv d" using 1(1) s by simp_all
  note dist = g(2) [unfolded mr_inv_def, THEN conjunct1]
  show ?case
  proof (cases rule: reg_refs [OF g, of data sz offset fd w, case_names fail hit new])
    case fail
    then show ?thesis using 1(2) s by (simp add: mr_acquire_def)
  next
    case (hit i)
    have "0 < mr_refs (mc_slots (md_cache d) ! i)" using g(2) hit(1) by (simp add: mr_inv_def)
    then have "nat (mr_refs (mc_slots (md_cache d) ! i) + 1) = Suc (nat (mr_refs (mc_slots (md_cache d) ! i)))" by simp
    with hit show ?thesis using 1(2) s g(1) reg_hit_inv [OF g(2) hit(1)]
        mr_refs_of_update [OF dist hit(1), of "(mc_slots (md_cache d) ! i)\<lparr> mr_refs := mr_refs (mc_slots (md_cache d) ! i) + 1 \<rparr>"]
        mr_refs_of_slot [OF dist hit(1)]
      by (auto simp: mr_acquire_def)
  next
    case (new i d' mr)
    have "mr_refs_of (mc_slots (md_cache d)) mr = 0"
      using new(4) g(2) by (intro mr_refs_of_absent) (simp add: mr_inv_def)
    then show ?thesis using new 1(2) s g(1)
      by (auto simp: mr_acquire_def fun_eq_iff mr_refs_of_mset [OF trans [OF _ mset_insert_at]])
  qed
next
  case (2 s k s')
  obtain v d w data sz offset fd where s: "s = (v, d, w)" "k = (data, sz, offset, fd)" by (cases s, cases k) auto
  have g: "good_verbs v" "mr_inv d" using 2(1) s by simp_all
  show ?case
    by (cases rule: reg_refs [OF g, where data = data and sz = sz and offset = offset and fd = fd and w = w]) (use 2(2) s g in \<open>auto simp: mr_acquire_def\<close>)
next
  case (3 s h)
  obtain v d w where s: "s = (v, d, w)" by (cases s) auto
  with 3 have g: "good_verbs v" "mr_inv d" "0 < mr_refs_of (mc_slots (md_cache d)) h" by simp_all
  show ?case
    by (cases rule: dereg_refs [OF g, where w = w]) (simp add: s g(1) mr_release_def)
qed

section \<open>What a registration covers\<close>

text \<open>Every slot is page aligned and ends inside the address space.\<close>

definition mr_wf :: "u64 \<Rightarrow> ncclIbMr list \<Rightarrow> bool" where
  "mr_wf ps ss \<longleftrightarrow>
     (\<forall>s \<in> set ss. unat ps dvd unat (mr_addr s) \<and> unat (mr_addr s) + unat (mr_pages s) * unat ps \<le> 2 ^ 64)"

lemma unat_page_addr:
  assumes "ps = 2 ^ k" "k < 64"
  shows "unat (page_addr ps data) = unat data div unat ps * unat ps" "unat ps = 2 ^ k"
proof -
  have "unat (2 ^ k :: u64) = 2 ^ k" using unsigned_of_nat [of "2 ^ k", where 'a = nat and 'b = 64] assms(2)
    by (simp add: take_bit_nat_eq_self)
  then show ps: "unat ps = 2 ^ k" using assms(1) by simp
  have "page_addr ps data = data AND NOT (mask k)" using assms(1) by (simp add: page_addr_def minus_exp_eq_not_mask)
  also have "\<dots> = push_bit k (drop_bit k data)" by (rule bit_eqI) (auto simp: bit_simps)
  finally have e: "page_addr ps data + take_bit k data = data" by (simp add: bits_ident)
  have "unat (take_bit k data) = unat data mod 2 ^ k" using unsigned_take_bit_eq [of k data, where 'a = nat] by (simp add: take_bit_eq_mod)
  moreover have "take_bit k data \<le> data" by (simp add: word_le_nat_alt calculation)
  moreover have "page_addr ps data = data - take_bit k data" using e by (metis add_diff_cancel_right')
  ultimately have "unat (page_addr ps data) = unat data - unat data mod 2 ^ k" by (simp add: unat_sub)
  also have "\<dots> = unat data div 2 ^ k * 2 ^ k" by (simp add: minus_mod_eq_div_mult)
  finally show "unat (page_addr ps data) = unat data div unat ps * unat ps" using ps by simp
qed

lemma div_ceil_lower: "0 < p \<Longrightarrow> n \<le> (n + p - 1) div p * (p :: nat)"
proof -
  assume p: "0 < p"
  have "n + p - 1 = (n + p - 1) div p * p + (n + p - 1) mod p" by simp
  moreover have "(n + p - 1) mod p < p" using p by simp
  ultimately show ?thesis using p by linarith
qed

lemma unat_page_count:
  assumes "ps = 2 ^ k" "k < 64" "unat data + unat sz + unat ps \<le> 2 ^ 64"
  shows "unat (page_count ps data sz) = (unat data mod unat ps + unat sz + unat ps - 1) div unat ps"
    "unat data + unat sz \<le> unat (page_addr ps data) + unat (page_count ps data sz) * unat ps"
    "unat (page_addr ps data) + unat (page_count ps data sz) * unat ps \<le> 2 ^ 64"
proof -
  let ?P = "unat ps" let ?D = "unat data" let ?S = "unat sz" let ?A = "unat (page_addr ps data)"
  note A = unat_page_addr [OF assms(1,2)]
  have P: "0 < ?P" using A(2) by simp
  have DA: "?D = ?A + ?D mod ?P" unfolding A(1) [of data] by simp
  have eq: "data + sz - page_addr ps data + ps - 1 = word_of_nat (?D mod ?P + ?S + ?P - 1)"
  proof -
    have "word_of_nat ?D = (word_of_nat ?A + word_of_nat (?D mod ?P) :: u64)" using DA by (metis of_nat_add)
    then show ?thesis using P by (simp add: of_nat_diff algebra_simps)
  qed
  have "?D mod ?P + ?S + ?P - 1 < 2 ^ 64" using assms(3) P DA by linarith
  then have u: "unat (data + sz - page_addr ps data + ps - 1) = ?D mod ?P + ?S + ?P - 1"
    unfolding eq by (simp add: unat_of_nat)
  then show c: "unat (page_count ps data sz) = (?D mod ?P + ?S + ?P - 1) div ?P"
    by (simp add: page_count_def unat_div_distrib)
  let ?N = "?D mod ?P + ?S"
  have q: "?N \<le> (?N + ?P - 1) div ?P * ?P" "(?N + ?P - 1) div ?P * ?P \<le> ?N + ?P - 1"
    using div_ceil_lower [OF P, of ?N] by simp_all
  show "?D + ?S \<le> ?A + unat (page_count ps data sz) * ?P" using q(1) DA unfolding c by linarith
  show "?A + unat (page_count ps data sz) * ?P \<le> 2 ^ 64" using q(2) DA assms(3) P unfolding c by linarith
qed

definition mr_covers :: "u64 \<Rightarrow> ncclIbMr list \<Rightarrow> nat \<Rightarrow> u64 \<Rightarrow> u64 \<Rightarrow> bool" where
  "mr_covers ps ss mr data sz \<longleftrightarrow>
     (\<exists>s \<in> set ss. mr_mr s = mr \<and> unat (mr_addr s) \<le> unat data \<and>
        unat data + unat sz \<le> unat (mr_addr s) + unat (mr_pages s) * unat ps)"

text \<open>A hit is wide enough.\<close>

lemma hit_covers:
  assumes ps: "ps = 2 ^ k" "0 < k" "k < 64" and fit: "unat data + unat sz + unat ps \<le> 2 ^ 64"
    and wf: "unat ps dvd unat (mr_addr s)" "unat (mr_addr s) + unat (mr_pages s) * unat ps \<le> 2 ^ 64"
    and hit: "mr_addr s \<le> page_addr ps data"
      "(page_addr ps data - mr_addr s) div ps + page_count ps data sz \<le> mr_pages s"
  shows "unat (mr_addr s) \<le> unat data" "unat data + unat sz \<le> unat (mr_addr s) + unat (mr_pages s) * unat ps"
proof -
  let ?P = "unat ps" let ?A = "unat (page_addr ps data)" let ?B = "unat (mr_addr s)" let ?N = "unat (page_count ps data sz)"
  note A = unat_page_addr [OF ps(1,3)] and C = unat_page_count [OF ps(1,3) fit]
  have le: "?B \<le> ?A" using hit(1) by (simp add: word_le_nat_alt)
  have "?A \<le> unat data" unfolding A(1) [of data] by simp
  with le show "?B \<le> unat data" by simp
  have "(2 :: nat) ^ 1 \<le> 2 ^ k" using ps(2) by (intro power_increasing) simp_all
  then have P2: "2 \<le> ?P" using A(2) by simp
  have d: "unat ((page_addr ps data - mr_addr s) div ps) = (?A - ?B) div ?P"
    using le by (simp add: unat_div_distrib unat_sub word_le_nat_alt)
  have dm: "(?A - ?B) div ?P * ?P = ?A - ?B"
    using wf(1) by (intro dvd_div_mult_self dvd_diff_nat) (simp_all add: A(1) [of data])
  have "((?A - ?B) div ?P + ?N) * ?P \<le> 2 ^ 64" using C(3) dm by (simp add: add_mult_distrib)
  then have "((?A - ?B) div ?P + ?N) * 2 \<le> 2 ^ 64" using P2 by (meson le_trans mult_le_mono2)
  then have "unat ((page_addr ps data - mr_addr s) div ps) + ?N < 2 ^ 64" using d by simp
  then have "unat ((page_addr ps data - mr_addr s) div ps + page_count ps data sz) = (?A - ?B) div ?P + ?N"
    using d by (simp add: unat_word_ariths)
  then have "(?A - ?B) div ?P + ?N \<le> unat (mr_pages s)" using hit(2) by (simp add: word_le_nat_alt)
  then have "((?A - ?B) div ?P + ?N) * ?P \<le> unat (mr_pages s) * ?P" by (rule mult_le_mono1)
  then have "?A + ?N * ?P \<le> ?B + unat (mr_pages s) * ?P" using dm le by (simp add: add_mult_distrib)
  then show "unat data + unat sz \<le> ?B + unat (mr_pages s) * ?P" using C(2) by linarith
qed

lemma new_slot_wf:
  assumes "ps = 2 ^ k" "k < 64" "unat data + unat sz + unat ps \<le> 2 ^ 64"
  shows "unat ps dvd unat (page_addr ps data)"
    "unat (page_addr ps data) + unat (page_count ps data sz) * unat ps \<le> 2 ^ 64"
    "unat (page_addr ps data) \<le> unat data"
    "unat data + unat sz \<le> unat (page_addr ps data) + unat (page_count ps data sz) * unat ps"
  using unat_page_addr(1) [OF assms(1,2), of data] unat_page_count [OF assms] by simp_all

lemma reg_keeps_wf:
  assumes g: "good_verbs v" "mr_inv d" and wf: "mr_wf (mv_pageSize v) (mc_slots (md_cache d))"
    and ps: "mv_pageSize v = 2 ^ k" "0 < k" "k < 64" and fit: "unat data + unat sz + unat (mv_pageSize v) \<le> 2 ^ 64"
    and run: "ncclIbRegMrDmaBufInternal v data sz offset fd d w = Some (res, Some mr, d', w')"
  shows "mr_inv d' \<and> mr_wf (mv_pageSize v) (mc_slots (md_cache d')) \<and>
    mr_covers (mv_pageSize v) (mc_slots (md_cache d')) mr data sz \<and> mr \<in> set (md_live d')"
proof (cases rule: reg_refs [OF g, of data sz offset fd w, case_names fail hit new])
  case fail
  then show ?thesis using run by simp
next
  case (hit i)
  let ?s = "mc_slots (md_cache d) ! i"
  note h = mr_scan_hit [OF hit(2), simplified]
  have s: "unat (mv_pageSize v) dvd unat (mr_addr ?s)"
    "unat (mr_addr ?s) + unat (mr_pages ?s) * unat (mv_pageSize v) \<le> 2 ^ 64"
    using wf hit(1) by (simp_all add: mr_wf_def)
  have c: "unat (mr_addr ?s) \<le> unat data" "unat data + unat sz \<le> unat (mr_addr ?s) + unat (mr_pages ?s) * unat (mv_pageSize v)"
    using hit_covers [OF ps fit s] h by simp_all
  let ?t = "?s\<lparr> mr_refs := mr_refs ?s + 1 \<rparr>"
  have e: "mr = mr_mr ?s" "mc_slots (md_cache d') = (mc_slots (md_cache d))[i := ?t]" "md_live d' = md_live d"
    using run hit(3) by auto
  have "mr_inv d'" using run hit(3) reg_hit_inv [OF g(2) hit(1)] by auto
  moreover have "?t \<in> set ((mc_slots (md_cache d))[i := ?t])" using hit(1) by (simp add: set_update_memI)
  then have "mr_covers (mv_pageSize v) (mc_slots (md_cache d')) mr data sz"
    unfolding mr_covers_def e(1,2) by (rule bexI [rotated]) (use c in simp)
  moreover have "mr_wf (mv_pageSize v) (mc_slots (md_cache d'))" unfolding mr_wf_def e(2)
  proof
    fix x assume "x \<in> set ((mc_slots (md_cache d))[i := ?t])"
    then have "x = ?t \<or> x \<in> set (mc_slots (md_cache d))" using set_update_subset_insert by fastforce
    then show "unat (mv_pageSize v) dvd unat (mr_addr x) \<and>
      unat (mr_addr x) + unat (mr_pages x) * unat (mv_pageSize v) \<le> 2 ^ 64"
      using wf s by (auto simp: mr_wf_def)
  qed
  moreover have "mr \<in> set (md_live d')" unfolding e using g(2) hit(1) by (simp add: mr_inv_def)
  ultimately show ?thesis by simp
next
  case (new i d1 mr1)
  have e: "d' = d1" "mr = mr1" using run new(6) by simp_all
  have set: "set (mc_slots (md_cache d1)) = insert \<lparr> mr_addr = page_addr (mv_pageSize v) data,
      mr_pages = page_count (mv_pageSize v) data sz, mr_refs = 1, mr_mr = mr1 \<rparr> (set (mc_slots (md_cache d)))"
    unfolding new(2) by (metis mset.simps(2) mset_eq_setD mset_insert_at list.simps(15))
  show ?thesis using new_slot_wf [OF ps(1,3) fit] wf new(3,5) unfolding mr_wf_def mr_covers_def set e by simp
qed

lemma dereg_keeps_wf:
  assumes "mr_wf ps (mc_slots (md_cache d))" "ncclIbDeregMrInternal v h d w = (res, d', w')"
  shows "mr_wf ps (mc_slots (md_cache d'))"
proof (cases "find_index (\<lambda>s. h = mr_mr s) (mc_slots (md_cache d))")
  case None
  then show ?thesis using assms by (simp add: ncclIbDeregMrInternal_def Let_def)
next
  case (Some i)
  let ?ss = "mc_slots (md_cache d)"
  let ?us = "?ss[i := (?ss ! i)\<lparr> mr_refs := mr_refs (?ss ! i) - 1 \<rparr>]"
  have i: "i < length ?ss" using find_index_Some [OF Some] by simp
  have "set ?us \<subseteq> insert ((?ss ! i)\<lparr> mr_refs := mr_refs (?ss ! i) - 1 \<rparr>) (set ?ss)" by (rule set_update_subset_insert)
  then have u: "mr_wf ps ?us" using assms(1) i unfolding mr_wf_def by fastforce
  have "set (move_last i ?us) \<subseteq> set ?us" using mset_eq_setD [OF move_last_Cons [of i ?us]] i by auto
  then have "mr_wf ps (move_last i ?us)" using u unfolding mr_wf_def by blast
  moreover have "mc_slots (md_cache d') \<in> {?us, move_last i ?us}"
    using assms(2) Some by (auto simp: ncclIbDeregMrInternal_def Let_def split: if_splits)
  ultimately show ?thesis using u by auto
qed

section \<open>Two failures\<close>

text \<open>
  When the array is full and cannot be grown, the registration fails with the capacity already
  raised; the next region that is not in the cache is then written behind the block.
\<close>

lemma growth_failure_overflow:
  assumes "mr_scan (mv_pageSize v) (page_addr (mv_pageSize v) data) (page_count (mv_pageSize v) data sz) 0
      (mc_slots (md_cache d)) = MrInsert k"
    "length (mc_slots (md_cache d)) = mc_capacity (md_cache d)" "mc_block (md_cache d) = mc_capacity (md_cache d)"
    "\<forall>n. \<not> mv_alloc v n" "\<forall>l c. mv_reg v l c = (ncclSuccess, f l)"
  shows "\<exists>d'. ncclIbRegMrDmaBufInternal v data sz offset fd d w = Some (ncclSystemError, None, d', w) \<and>
    ncclIbRegMrDmaBufInternal v data sz offset fd d' w = None"
  using assms by (auto simp: ncclIbRegMrDmaBufInternal_def mr_grow_def Let_def)

text \<open>
  When the second device of a communicator refuses the buffer, the region of the first one stays
  registered and referenced, and no handle is returned to release it with.
\<close>

lemma registration_leak:
  assumes "ncclIbRegMrDmaBufInternal v data sz offset fd (ds ! i) w = Some (ncclSuccess, Some mr, d1, w1)"
    "ncclIbRegMrDmaBufInternal v data sz offset fd (ds ! j) w1 = Some (res, None, d2, w2)"
    "ncclCheckFails res" "i \<noteq> j" "i < length ds" "j < length ds"
  shows "ncclIbRegMrDmaBuf v data sz offset fd [i, j] ds w = Some (res, None, ds[i := d1, j := d2], w2)"
  using assms by (simp add: ncclIbRegMrDmaBuf_def)

section \<open>Properties\<close>

text \<open>A card that accepts everything, with pages of 4096 bytes.\<close>

definition easy_verbs :: mr_verbs where
  "easy_verbs = \<lparr> mv_reg = (\<lambda>l c. (ncclSuccess, sum_list l + 1)), mv_dereg = (\<lambda>l h. ncclSuccess),
     mv_alloc = (\<lambda>n. True), mv_relaxed = False, mv_pageSize = 4096 \<rparr>"

definition fresh_dev :: mr_dev where
  "fresh_dev = \<lparr> md_cache = \<lparr> mc_slots = [], mc_capacity = 0, mc_block = 0 \<rparr>, md_live = [] \<rparr>"

definition no_world :: world where
  "no_world = \<lparr> wd_posts = [], wd_ib_stat = None, wd_bw_stat = None, wd_ib_mem = [], wd_bw_mem = [] \<rparr>"

lemma good_easy_verbs: "good_verbs easy_verbs"
  using member_le_sum_list by (fastforce simp: good_verbs_def easy_verbs_def)

lemma mr_inv_fresh: "mr_inv fresh_dev" "mr_refs_of (mc_slots (md_cache fresh_dev)) h = 0"
  by (simp_all add: mr_inv_def fresh_dev_def mr_refs_of_def)

text \<open>
  C18: whatever the users of a device register and deregister, in any order: every deregistration
  of a region somebody holds finds it, the count of a region is the number of times it is
  held, the regions registered with the card are exactly those held by somebody, and when
  nobody holds any the cache is empty.
\<close>
theorem mr_cache_refcounts:
  assumes "good_verbs v" "mr_pool.run cs {#} (v, fresh_dev, w) = (ok, held, v', d, w')"
  shows "ok \<and> mr_refs_of (mc_slots (md_cache d)) h = count held h \<and> set (md_live d) = set_mset held \<and>
    length (md_live d) = length (mc_slots (md_cache d)) \<and>
    (if held = {#} then mc_slots (md_cache d) = [] else True)"
proof -
  have r: "ok" "mr_inv d" "\<And>h. mr_refs_of (mc_slots (md_cache d)) h = count held h"
    using mr_pool.run_refs [of "(v, fresh_dev, w)" cs ok held "(v', d, w')"] assms mr_inv_fresh by simp_all
  note dist = r(2) [unfolded mr_inv_def, THEN conjunct1]
  have live: "h \<in> set (md_live d) \<longleftrightarrow> h \<in># held" for h
  proof
    assume "h \<in> set (md_live d)"
    then have "h \<in> set (map mr_mr (mc_slots (md_cache d)))" using r(2) by (simp add: mr_inv_def)
    then obtain i where i: "i < length (mc_slots (md_cache d))" "mr_mr (mc_slots (md_cache d) ! i) = h"
      by (auto simp: in_set_conv_nth)
    then have "0 < mr_refs (mc_slots (md_cache d) ! i)" using r(2) by (simp add: mr_inv_def)
    then show "h \<in># held" using mr_refs_of_slot [OF dist i(1)] i(2) r(3) [of h]
      by (simp flip: count_greater_zero_iff)
  next
    assume "h \<in># held"
    then have "0 < mr_refs_of (mc_slots (md_cache d)) h" using r(3) by simp
    then have "h \<in> mr_mr ` set (mc_slots (md_cache d))" using mr_refs_of_absent by fastforce
    then show "h \<in> set (md_live d)" using r(2) by (simp add: mr_inv_def)
  qed
  then have "set (md_live d) = set_mset held" by auto
  moreover have "length (md_live d) = length (mc_slots (md_cache d))"
    using r(2) distinct_card [of "md_live d"] distinct_card [OF dist] by (simp add: mr_inv_def)
  ultimately show ?thesis using r(1,3) by auto
qed

theorem mr_cache_refcounts_witness:
  "case mr_pool.run [Inl (4196, 100, 0, -1), Inl (4096, 4096, 0, -1), Inr 1, Inl (9000, 10, 0, -1), Inr 1]
     {#} (easy_verbs, fresh_dev, no_world) of
     (ok, held, v, d, w) \<Rightarrow> ok \<and> set (md_live d) = set_mset held"
proof -
  obtain ok held v d w where r: "mr_pool.run [Inl (4196, 100, 0, -1), Inl (4096, 4096, 0, -1), Inr 1,
      Inl (9000, 10, 0, -1), Inr 1] {#} (easy_verbs, fresh_dev, no_world) = (ok, held, v, d, w)"
    by (cases "mr_pool.run [Inl (4196, 100, 0, -1), Inl (4096, 4096, 0, -1), Inr 1,
      Inl (9000, 10, 0, -1), Inr 1] {#} (easy_verbs, fresh_dev, no_world)") auto
  show ?thesis using mr_cache_refcounts [OF good_easy_verbs r] r by simp
qed

text \<open>
  C19: the region a successful registration returns covers every byte of the buffer and is
  registered with the card, whether it was in the cache or not, and the slots stay page aligned
  and inside the address space.
\<close>
theorem registration_covers:
  assumes "good_verbs v" "mr_inv d" "mr_wf (mv_pageSize v) (mc_slots (md_cache d))"
    "mv_pageSize v = 2 ^ k" "0 < k" "k < 64" "unat data + unat sz + unat (mv_pageSize v) \<le> 2 ^ 64"
    "ncclIbRegMrDmaBufInternal v data sz offset fd d w = Some (res, Some mr, d', w')"
  shows "mr_inv d' \<and> mr_wf (mv_pageSize v) (mc_slots (md_cache d')) \<and>
    mr_covers (mv_pageSize v) (mc_slots (md_cache d')) mr data sz \<and> mr \<in> set (md_live d')"
  using assms by (rule reg_keeps_wf)

theorem registration_covers_witness:
  "\<exists>mr d' w'. ncclIbRegMrDmaBufInternal easy_verbs 4196 100 0 (-1) fresh_dev no_world = Some (ncclSuccess, Some mr, d', w') \<and>
     mr_covers 4096 (mc_slots (md_cache d')) mr 4196 100"
proof -
  have w: "mr_wf (mv_pageSize easy_verbs) (mc_slots (md_cache fresh_dev))" by (simp add: mr_wf_def fresh_dev_def)
  obtain mr d' w' where r: "ncclIbRegMrDmaBufInternal easy_verbs 4196 100 0 (-1) fresh_dev no_world =
      Some (ncclSuccess, Some mr, d', w')"
    by (simp add: ncclIbRegMrDmaBufInternal_def fresh_dev_def easy_verbs_def mr_grow_def)
  have p: "mv_pageSize easy_verbs = 2 ^ 12" by (simp add: easy_verbs_def)
  have "unat (4196 :: u64) + unat (100 :: u64) + unat (mv_pageSize easy_verbs) \<le> 2 ^ 64" by (simp add: easy_verbs_def)
  from registration_covers [OF good_easy_verbs mr_inv_fresh(1) w p _ _ this r]
  show ?thesis using r by (simp add: easy_verbs_def)
qed

text \<open>
  The slots are kept in the order of their addresses, which the search relies on, but a
  deregistration puts the last slot in the freed place: with three or more regions, once the first
  is deregistered the second is no longer found, and registering its buffer again, which before
  gave the same region, registers it a second time.
\<close>
theorem deregistration_loses_order:
  assumes g: "good_verbs v" "mr_inv d" and ss: "mc_slots (md_cache d) = a # b # ss" "ss \<noteq> []" "mr_refs a = 1"
    and ord: "mr_addr a < mr_addr b" "mr_addr b < mr_addr (last ss)"
    and key: "page_addr (mv_pageSize v) data = mr_addr b" "page_count (mv_pageSize v) data sz = mr_pages b"
      "mr_pages a < (mr_addr b - mr_addr a) div mv_pageSize v + mr_pages b"
    and de: "ncclIbDeregMrInternal v (mr_mr a) d w = (res, d', w1)"
    and again: "ncclIbRegMrDmaBufInternal v data sz offset fd d' w1 = Some (ncclSuccess, Some mr, d2, w2)"
  shows "(\<exists>d1. ncclIbRegMrDmaBufInternal v data sz offset fd d w = Some (ncclSuccess, Some (mr_mr b), d1, w)) \<and>
    b \<in> set (mc_slots (md_cache d')) \<and> mr \<noteq> mr_mr b"
proof -
  have ml: "move_last 0 (a' # b # ss) = last ss # b # butlast ss" for a'
    using ss(2) by (simp add: move_last_def last_conv_nth)
  have s': "mc_slots (md_cache d') = last ss # b # butlast ss" "md_live d' = remove1 (mr_mr a) (md_live d)"
  proof -
    have "mr_mr a \<in> set (md_live d)" using g(2) ss(1) by (simp add: mr_inv_def)
    then have "\<not> ncclCheckFails (mv_dereg v (md_live d) (mr_mr a))" using g(1) by (auto simp: good_verbs_def)
    with de show "mc_slots (md_cache d') = last ss # b # butlast ss" "md_live d' = remove1 (mr_mr a) (md_live d)"
      by (auto simp: ncclIbDeregMrInternal_def Let_def ss(1,3) ml split: if_splits)
  qed
  have "mr_inv d'"
  proof -
    have d: "distinct (map mr_mr (mc_slots (md_cache d)))" using g(2) by (simp add: mr_inv_def)
    have "0 < mr_refs_of (mc_slots (md_cache d)) (mr_mr a)"
      using mr_refs_of_slot [OF d, of 0] ss by simp
    from dereg_refs [OF g this, of w] de show ?thesis by (metis prod.inject)
  qed
  have miss: "mr_scan (mv_pageSize v) (mr_addr b) (mr_pages b) 0 (last ss # b # butlast ss) = MrInsert 0"
    using ord(2) by simp
  have hit: "mr_scan (mv_pageSize v) (mr_addr b) (mr_pages b) 0 (a # b # ss) = MrHit 1"
    using ord(1) key(3) by (simp add: not_le not_less less_imp_le)
  have "mr \<noteq> mr_mr b"
  proof (cases rule: reg_refs [OF g(1) \<open>mr_inv d'\<close>, of data sz offset fd w1, case_names fail hit new])
    case fail
    then show ?thesis using again by simp
  next
    case (hit k)
    then show ?thesis using miss by (simp add: s' key)
  next
    case (new k d1 m)
    have "mr_mr b \<in> set (md_live d')" using \<open>mr_inv d'\<close> by (simp add: mr_inv_def s'(1))
    then show ?thesis using new again by auto
  qed
  moreover have "\<exists>d1. ncclIbRegMrDmaBufInternal v data sz offset fd d w = Some (ncclSuccess, Some (mr_mr b), d1, w)"
    using hit by (simp add: ncclIbRegMrDmaBufInternal_def key ss(1))
  ultimately show ?thesis using s'(1) by simp
qed

definition three_regions :: mr_dev where
  "three_regions = \<lparr> md_cache = \<lparr> mc_slots =
       [\<lparr> mr_addr = 4096, mr_pages = 1, mr_refs = 1, mr_mr = 1 \<rparr>, \<lparr> mr_addr = 8192, mr_pages = 1, mr_refs = 1, mr_mr = 2 \<rparr>,
        \<lparr> mr_addr = 12288, mr_pages = 1, mr_refs = 1, mr_mr = 3 \<rparr>], mc_capacity = 32, mc_block = 32 \<rparr>,
     md_live = [1, 2, 3] \<rparr>"

theorem deregistration_loses_order_witness:
  "snd (snd (the (map_option (\<lambda>(res, mr, d, w). (res, the mr, mr))
     (ncclIbRegMrDmaBufInternal easy_verbs 8192 4096 0 (-1)
       (fst (snd (ncclIbDeregMrInternal easy_verbs 1 three_regions no_world))) no_world)))) \<noteq> Some 2"
proof -
  obtain res d' w1 where de: "ncclIbDeregMrInternal easy_verbs 1 three_regions no_world = (res, d', w1)"
    by (cases "ncclIbDeregMrInternal easy_verbs 1 three_regions no_world") auto
  have w1: "w1 = no_world" "mc_slots (md_cache d') = drop 2 (mc_slots (md_cache three_regions)) @ [mc_slots (md_cache three_regions) ! 1]"
    "mc_capacity (md_cache d') = 32" "mc_block (md_cache d') = 32" "md_live d' = [2, 3]"
    using de by (auto simp: ncclIbDeregMrInternal_def three_regions_def easy_verbs_def Let_def move_last_def no_world_def ib_dec_def)
  obtain mr d2 w2 where ag: "ncclIbRegMrDmaBufInternal easy_verbs 8192 4096 0 (-1) d' w1 = Some (ncclSuccess, Some mr, d2, w2)"
    by (simp add: ncclIbRegMrDmaBufInternal_def w1 three_regions_def easy_verbs_def mr_grow_def page_addr_def)
  have inv: "mr_inv three_regions" by (auto simp: mr_inv_def three_regions_def)
  have "mr \<noteq> 2"
    using deregistration_loses_order [OF good_easy_verbs inv, of "mc_slots (md_cache three_regions) ! 0"
        "mc_slots (md_cache three_regions) ! 1" "drop 2 (mc_slots (md_cache three_regions))" 8192 4096, OF _ _ _ _ _ _ _ _ _ ag] de
    by (simp add: three_regions_def easy_verbs_def page_addr_def page_count_def)
  then show ?thesis using ag w1(1) de by simp
qed

end
