(* ===== verification/SocketAddr.thy ===== *)
theory SocketAddr
  imports IfList
begin

text \<open>
  Socket addresses and the choice of network interfaces (\<^verbatim>\<open>src/unet/socket.cc\<close>): the
  environment's family, the search among the interfaces of the host, the match of a subnet, the
  address of a text such as \<^verbatim>\<open>"[fe80::1%eth0]:4000"\<close>, and the order in which the
  kinds of interfaces are tried. The interfaces are the list \<^verbatim>\<open>getifaddrs\<close> returns; name
  resolution is a parameter. A write outside a buffer is the result \<open>None\<close>.
\<close>

section \<open>Addresses\<close>

datatype sa_family = AF_INET | AF_INET6 | AF_OTHER

record ncclSocketAddress =
  sa_family :: sa_family
  sa_port :: u16
  sa_addr :: "u8 list"
  sa_scope_id :: u32

definition socketToPort :: "ncclSocketAddress \<Rightarrow> u16" where
  "socketToPort addr = sa_port addr"

definition envSocketFamily :: "(string \<Rightarrow> string option) \<Rightarrow> sa_family option" where
  "envSocketFamily getenv =
     (case getenv ''NCCL_SOCKET_FAMILY'' of
        None \<Rightarrow> None
      | Some env \<Rightarrow> if env = ''AF_INET'' then Some AF_INET
                    else if env = ''AF_INET6'' then Some AF_INET6 else None)"

section \<open>Interfaces\<close>

record ifaddrs =
  ifa_name :: string
  ifa_addr :: "ncclSocketAddress option"
  ifa_netmask :: "u8 list"

definition in6_loopback :: "u8 list" where
  "in6_loopback = replicate 15 0 @ [1]"

definition strip_mark :: "char \<Rightarrow> string \<Rightarrow> bool \<times> string" where
  "strip_mark m s = (case s of c # cs \<Rightarrow> if c = m then (True, cs) else (False, s) | [] \<Rightarrow> (False, s))"

text \<open>The tests of the loop, up to the one for an interface that is stored already.\<close>

definition if_eligible :: "sa_family option \<Rightarrow> netIf list \<Rightarrow> bool \<Rightarrow> bool \<Rightarrow> ifaddrs \<Rightarrow> bool" where
  "if_eligible sock_family userIfs searchExact searchNot i =
     (case ifa_addr i of
        None \<Rightarrow> False
      | Some a \<Rightarrow>
          if sa_family a \<noteq> AF_INET \<and> sa_family a \<noteq> AF_INET6 then False
          else if sock_family \<noteq> None \<and> Some (sa_family a) \<noteq> sock_family then False
          else if sa_family a = AF_INET6 \<and> sa_addr a = in6_loopback then False
          else matchIfList (ifa_name i) (-1) userIfs searchExact \<noteq> searchNot)"

fun find_loop :: "(ifaddrs \<Rightarrow> bool) \<Rightarrow> nat \<Rightarrow> ifaddrs list \<Rightarrow> (string \<times> ncclSocketAddress) list
    \<Rightarrow> (string \<times> ncclSocketAddress) list" where
  "find_loop ok maxIfs [] found = found"
| "find_loop ok maxIfs (i # is) found =
     (if length found < maxIfs
      then if \<not> ok i then find_loop ok maxIfs is found
           else if ifa_name i \<in> fst ` set found then find_loop ok maxIfs is found
           else find_loop ok maxIfs is (found @ [(ifa_name i, the (ifa_addr i))])
      else found)"

definition MAX_IFS :: nat where
  "MAX_IFS = 16"

definition findInterfaces ::
    "ifaddrs list \<Rightarrow> string \<Rightarrow> sa_family option \<Rightarrow> nat \<Rightarrow> (string \<times> ncclSocketAddress) list option" where
  "findInterfaces interfaces prefixList sock_family maxIfs =
     (let (searchNot, prefixList) = strip_mark CHR ''^'' prefixList;
          (searchExact, prefixList) = strip_mark CHR ''='' prefixList
      in case parseStringList (Some prefixList) MAX_IFS of
           None \<Rightarrow> None
         | Some userIfs \<Rightarrow> Some (find_loop (if_eligible sock_family userIfs searchExact searchNot) maxIfs interfaces []))"

section \<open>Subnets\<close>

text \<open>The bytes of an address under a mask, compared up to the first difference.\<close>

fun masked_eq :: "u8 list \<Rightarrow> u8 list \<Rightarrow> u8 list \<Rightarrow> bool" where
  "masked_eq (a # as) (m # ms) (b # bs) = (if (a AND m) XOR (b AND m) \<noteq> 0 then False else masked_eq as ms bs)"
| "masked_eq _ _ _ = True"

definition matchSubnet :: "ifaddrs \<Rightarrow> ncclSocketAddress \<Rightarrow> bool" where
  "matchSubnet local_if remote =
     (case ifa_addr local_if of
        None \<Rightarrow> False
      | Some l \<Rightarrow>
          if sa_family l \<noteq> sa_family remote then False
          else case sa_family l of
              AF_INET \<Rightarrow> masked_eq (sa_addr l) (ifa_netmask local_if) (sa_addr remote)
            | AF_INET6 \<Rightarrow> masked_eq (sa_addr l) (ifa_netmask local_if) (sa_addr remote) \<and>
                          sa_scope_id l = sa_scope_id remote
            | AF_OTHER \<Rightarrow> False)"

fun ncclFindInterfaceMatchSubnet :: "ifaddrs list \<Rightarrow> ncclSocketAddress \<Rightarrow> (string \<times> ncclSocketAddress) list" where
  "ncclFindInterfaceMatchSubnet [] remote = []"
| "ncclFindInterfaceMatchSubnet (i # is) remote =
     (case ifa_addr i of
        None \<Rightarrow> ncclFindInterfaceMatchSubnet is remote
      | Some a \<Rightarrow>
          if sa_family a \<noteq> AF_INET \<and> sa_family a \<noteq> AF_INET6 then ncclFindInterfaceMatchSubnet is remote
          else if \<not> matchSubnet i remote then ncclFindInterfaceMatchSubnet is remote
          else [(ifa_name i, a)])"

section \<open>Addresses from text\<close>

text \<open>The resolver of the C library: \<^verbatim>\<open>getaddrinfo\<close> (its first answer), \<^verbatim>\<open>inet_pton\<close> and \<^verbatim>\<open>if_nametoindex\<close>.\<close>

record resolver =
  rv_getaddrinfo :: "string \<Rightarrow> ncclSocketAddress option"
  rv_inet_pton6 :: "string \<Rightarrow> u8 list option"
  rv_if_nametoindex :: "string \<Rightarrow> u32"

definition NI_MAXHOST :: nat where "NI_MAXHOST = 1025"
definition NI_MAXSERV :: nat where "NI_MAXSERV = 32"
definition IFNAMSIZ :: nat where "IFNAMSIZ = 16"

text \<open>The scan for the closing bracket: where it stops, and the last per cent sign before it.\<close>

fun scan_bracket :: "string \<Rightarrow> nat \<Rightarrow> nat option \<Rightarrow> nat \<times> nat option" where
  "scan_bracket [] i j = (i, j)"
| "scan_bracket (c # cs) i j =
     (let j = (if c = CHR ''%'' then Some i else j)
      in if c = CHR '']'' then (i, j) else scan_bracket cs (i + 1) j)"

definition addr_of_host :: "resolver \<Rightarrow> string \<Rightarrow> ncclSocketAddress \<Rightarrow> (ncclResult \<times> ncclSocketAddress) option" where
  "addr_of_host rv s ua =
     (case parseStringList (Some s) 1 of
        None \<Rightarrow> None
      | Some nis \<Rightarrow>
          if length nis \<noteq> 1 then Some (ncclInvalidArgument, ua)
          else let ni = nis ! 0 in
            case rv_getaddrinfo rv (if_prefix ni) of
              None \<Rightarrow> Some (ncclInvalidArgument, ua)
            | Some p \<Rightarrow>
                (case sa_family p of
                   AF_INET \<Rightarrow> Some (ncclSuccess, p\<lparr> sa_port := word_of_int (if_port ni) \<rparr>)
                 | AF_INET6 \<Rightarrow> Some (ncclSuccess, p\<lparr> sa_port := word_of_int (if_port ni), sa_scope_id := 0 \<rparr>)
                 | AF_OTHER \<Rightarrow> Some (ncclInvalidArgument, ua)))"

definition addr_of_bracket :: "resolver \<Rightarrow> string \<Rightarrow> ncclSocketAddress \<Rightarrow> (ncclResult \<times> ncclSocketAddress) option" where
  "addr_of_bracket rv s ua =
     (case scan_bracket (tl s) 1 None of
        (i, j) \<Rightarrow>
          if i = length s then Some (ncclInvalidArgument, ua)
          else let n = (case j of None \<Rightarrow> i - 1 | Some j \<Rightarrow> j - 1);
                   ip_str = take n (tl s);
                   port = atoi (drop (i + 2) s);
                   if_name = (case j of None \<Rightarrow> [] | Some j \<Rightarrow> take (i - j - 1) (drop (j + 1) s))
               in if NI_MAXHOST \<le> n \<or> NI_MAXSERV < length s - i - 1 \<or> IFNAMSIZ \<le> length if_name then None
                  else Some (ncclSuccess,
                    ua\<lparr> sa_family := AF_INET6,
                        sa_addr := (case rv_inet_pton6 rv ip_str of None \<Rightarrow> sa_addr ua | Some a \<Rightarrow> a),
                        sa_port := word_of_int port,
                        sa_scope_id := (case j of None \<Rightarrow> 0 | Some _ \<Rightarrow> rv_if_nametoindex rv if_name) \<rparr>))"

definition ncclSocketGetAddrFromString ::
    "resolver \<Rightarrow> string option \<Rightarrow> ncclSocketAddress \<Rightarrow> (ncclResult \<times> ncclSocketAddress) option" where
  "ncclSocketGetAddrFromString rv ip_port_pair ua =
     (case ip_port_pair of
        None \<Rightarrow> Some (ncclInvalidArgument, ua)
      | Some s \<Rightarrow>
          if \<not> length s > 1 then Some (ncclInvalidArgument, ua)
          else if s ! 0 \<noteq> CHR ''['' then addr_of_host rv s ua else addr_of_bracket rv s ua)"

section \<open>The order of the search\<close>

fun first_found :: "(unit \<Rightarrow> 'a list option) list \<Rightarrow> 'a list option" where
  "first_found [] = Some []"
| "first_found (f # fs) = (case f () of None \<Rightarrow> None | Some r \<Rightarrow> if r = [] then first_found fs else Some r)"

definition comm_id_interfaces ::
    "resolver \<Rightarrow> (string \<Rightarrow> string option) \<Rightarrow> ifaddrs list \<Rightarrow> ncclSocketAddress \<Rightarrow> (string \<times> ncclSocketAddress) list option" where
  "comm_id_interfaces rv getenv interfaces junk =
     (case getenv ''NCCL_COMM_ID'' of
        None \<Rightarrow> Some []
      | Some commId \<Rightarrow>
          if length commId > 1
          then (case ncclSocketGetAddrFromString rv (Some commId) junk of
                  None \<Rightarrow> None
                | Some (res, idAddr) \<Rightarrow> Some (ncclFindInterfaceMatchSubnet interfaces idAddr))
          else Some [])"

text \<open>\<open>junk\<close> is the content of the local \<open>idAddr\<close> before it is filled.\<close>

definition ncclFindInterfaces ::
    "resolver \<Rightarrow> (string \<Rightarrow> string option) \<Rightarrow> ifaddrs list \<Rightarrow> ncclSocketAddress \<Rightarrow> nat
       \<Rightarrow> (string \<times> ncclSocketAddress) list option" where
  "ncclFindInterfaces rv getenv interfaces junk maxIfs =
     (let fam = envSocketFamily getenv;
          find = (\<lambda>s. findInterfaces interfaces s fam maxIfs)
      in case getenv ''NCCL_SOCKET_IFNAME'' of
           Some env \<Rightarrow>
             if length env > 1 then find env
             else first_found [\<lambda>_. find ''eth'', \<lambda>_. comm_id_interfaces rv getenv interfaces junk,
                    \<lambda>_. find ''^docker,lo'', \<lambda>_. find ''docker'', \<lambda>_. find ''lo'']
         | None \<Rightarrow> first_found [\<lambda>_. find ''eth'', \<lambda>_. comm_id_interfaces rv getenv interfaces junk,
                    \<lambda>_. find ''^docker,lo'', \<lambda>_. find ''docker'', \<lambda>_. find ''lo''])"

section \<open>Properties\<close>

text \<open>The first of each name.\<close>

function first_by_name :: "ifaddrs list \<Rightarrow> ifaddrs list" where
  "first_by_name [] = []"
| "first_by_name (i # is) = i # first_by_name (filter (\<lambda>j. ifa_name j \<noteq> ifa_name i) is)"
  by pat_completeness auto
termination by (relation "measure length") (auto simp: le_imp_less_Suc)

definition if_entry :: "ifaddrs \<Rightarrow> string \<times> ncclSocketAddress" where
  "if_entry i = (ifa_name i, the (ifa_addr i))"

lemma find_loop_spec:
  "find_loop ok m is found =
   found @ take (m - length found) (map if_entry (first_by_name (filter (\<lambda>i. ok i \<and> ifa_name i \<notin> fst ` set found) is)))"
proof (induction "is" arbitrary: found)
  case Nil
  then show ?case by simp
next
  case (Cons i "is")
  show ?case
  proof (cases "length found < m \<and> ok i \<and> ifa_name i \<notin> fst ` set found")
    case True
    have "filter (\<lambda>j. ifa_name j \<noteq> ifa_name i) (filter (\<lambda>i. ok i \<and> ifa_name i \<notin> fst ` set found) is) =
      filter (\<lambda>j. ok j \<and> ifa_name j \<notin> fst ` set (found @ [if_entry i])) is"
      by (auto simp: if_entry_def intro: filter_cong)
    moreover have "m - length found = Suc (m - length (found @ [if_entry i]))" using True by (simp add: Suc_diff_Suc)
    ultimately show ?thesis using True Cons.IH [of "found @ [if_entry i]"] by (simp add: if_entry_def)
  next
    case False
    then show ?thesis using Cons.IH [of found] by auto
  qed
qed

text \<open>
  The interfaces chosen for a user's list are, in the order of the host, the first of each
  name among those that are eligible, cut at the number asked for: a leading caret turns the
  list around and a leading equals sign asks for exact names.
\<close>
theorem findInterfaces_selects:
  assumes "strip_mark CHR ''^'' s = (neg, s1)" "strip_mark CHR ''='' s1 = (exact, s2)"
    "parseStringList (Some s2) MAX_IFS = Some userIfs"
  shows "findInterfaces interfaces s fam maxIfs =
    Some (take maxIfs (map if_entry (first_by_name (filter (if_eligible fam userIfs exact neg) interfaces))))"
  using assms by (simp add: findInterfaces_def find_loop_spec)

definition if4 :: "string \<Rightarrow> u8 \<Rightarrow> ifaddrs" where
  "if4 n k = \<lparr> ifa_name = n, ifa_addr = Some \<lparr> sa_family = AF_INET, sa_port = 0, sa_addr = [10, 0, 0, k], sa_scope_id = 0 \<rparr>,
     ifa_netmask = [255, 255, 255, 0] \<rparr>"

theorem findInterfaces_selects_witness:
  "map_option (map fst) (findInterfaces [if4 ''lo'' 1, if4 ''eth0'' 2, if4 ''eth0'' 3, if4 ''docker0'' 4, if4 ''eth1'' 5]
     ''^docker,lo'' None 16) = Some [''eth0'', ''eth1'']"
proof -
  have p: "parseStringList (Some ''docker,lo'') MAX_IFS =
      Some [\<lparr> if_prefix = ''docker'', if_port = -1 \<rparr>, \<lparr> if_prefix = ''lo'', if_port = -1 \<rparr>]"
    by (simp add: parseStringList_def MAX_IFS_def parse_loop.simps emit_if_def IF_PREFIX_SIZE_def)
  have "strip_mark CHR ''^'' ''^docker,lo'' = (True, ''docker,lo'')" "strip_mark CHR ''='' ''docker,lo'' = (False, ''docker,lo'')"
    by (simp_all add: strip_mark_def)
  from findInterfaces_selects [OF this p] show ?thesis
    by (simp add: if_eligible_def if4_def matchIfList_def matchIf_def matchPort_def strncmp_eq_def if_entry_def in6_loopback_def)
qed

lemma scan_bracket_plain:
  "CHR '']'' \<notin> set s \<Longrightarrow> CHR ''%'' \<notin> set s \<Longrightarrow>
   scan_bracket (s @ CHR '']'' # r) i j = (i + length s, j)"
  by (induction s arbitrary: i) auto

lemma scan_bracket_scope:
  "CHR '']'' \<notin> set s \<Longrightarrow> CHR ''%'' \<notin> set s \<Longrightarrow> CHR '']'' \<notin> set t \<Longrightarrow> CHR ''%'' \<notin> set t \<Longrightarrow>
   scan_bracket (s @ CHR ''%'' # t @ CHR '']'' # r) i j = (i + length s + 1 + length t, Some (i + length s))"
  by (induction s arbitrary: i j) (auto simp: scan_bracket_plain)

text \<open>The text of an address: the host, the interface of a link address, and the port.\<close>

definition show_addr :: "string \<Rightarrow> string option \<Rightarrow> nat \<Rightarrow> string" where
  "show_addr ip ifn port =
     ''['' @ ip @ (case ifn of None \<Rightarrow> [] | Some n \<Rightarrow> CHR ''%'' # n) @ '']:'' @ to_string_nat port"

text \<open>
  The text of an IPv6 address, with or without the interface of a link address, is read
  back: the host goes to the resolver, the interface to its index (0 without one), and the port
  is the number given.
\<close>
theorem bracket_address_roundtrip:
  assumes "CHR '']'' \<notin> set ip" "CHR ''%'' \<notin> set ip" "length ip < NI_MAXHOST" "rv_inet_pton6 rv ip = Some a"
    "case ifn of None \<Rightarrow> True | Some n \<Rightarrow> CHR '']'' \<notin> set n \<and> CHR ''%'' \<notin> set n \<and> length n < IFNAMSIZ"
    "port < 2 ^ 16"
  shows "ncclSocketGetAddrFromString rv (Some (show_addr ip ifn port)) ua =
    Some (ncclSuccess, ua\<lparr> sa_family := AF_INET6, sa_addr := a, sa_port := word_of_nat port,
      sa_scope_id := (case ifn of None \<Rightarrow> 0 | Some n \<Rightarrow> rv_if_nametoindex rv n) \<rparr>)"
proof -
  have len: "length (to_string_nat port) \<le> 5" using length_to_string_nat [of port 5] assms(6) by simp
  have at: "atoi (to_string_nat port) = int port" using atoi_to_string_nat [of port "[]"] assms(6) by simp
  show ?thesis
  proof (cases ifn)
    case None
    then show ?thesis using assms len at
      by (simp add: ncclSocketGetAddrFromString_def show_addr_def addr_of_bracket_def scan_bracket_plain NI_MAXSERV_def IFNAMSIZ_def)
  next
    case (Some n)
    have "drop (3 + length n) (c # n @ x # y # r) = r" for c x y :: char and r by (simp add: numeral_3_eq_3)
    with Some show ?thesis using assms len at
      by (simp add: ncclSocketGetAddrFromString_def show_addr_def addr_of_bracket_def scan_bracket_scope NI_MAXSERV_def IFNAMSIZ_def)
  qed
qed

definition example_resolver :: resolver where
  "example_resolver = \<lparr> rv_getaddrinfo = (\<lambda>_. None),
     rv_inet_pton6 = (\<lambda>s. if s = ''fe80::1'' then Some ([254, 128] @ replicate 13 0 @ [1]) else None),
     rv_if_nametoindex = (\<lambda>n. if n = ''eth0'' then 2 else 0) \<rparr>"

theorem bracket_address_roundtrip_witness:
  "map_option (\<lambda>(res, a). (res, sa_port a, sa_scope_id a))
     (ncclSocketGetAddrFromString example_resolver (Some (show_addr ''fe80::1'' (Some ''eth0'') 4000))
       \<lparr> sa_family = AF_OTHER, sa_port = 0, sa_addr = [], sa_scope_id = 0 \<rparr>) = Some (ncclSuccess, 4000, 2)"
  using bracket_address_roundtrip [of "''fe80::1''" example_resolver _ "Some ''eth0''" 4000]
  by (simp add: example_resolver_def NI_MAXHOST_def IFNAMSIZ_def)

text \<open>A text longer than the buffers it is copied to.\<close>

lemma long_host_overflow:
  assumes "CHR '']'' \<notin> set ip" "CHR ''%'' \<notin> set ip" "NI_MAXHOST \<le> length ip"
  shows "ncclSocketGetAddrFromString rv (Some (show_addr ip None port)) ua = None"
  using assms by (simp add: ncclSocketGetAddrFromString_def show_addr_def addr_of_bracket_def scan_bracket_plain)

lemma long_scope_overflow:
  assumes "CHR '']'' \<notin> set ip" "CHR ''%'' \<notin> set ip" "CHR '']'' \<notin> set n" "CHR ''%'' \<notin> set n" "IFNAMSIZ \<le> length n"
  shows "ncclSocketGetAddrFromString rv (Some (show_addr ip (Some n) port)) ua = None"
  using assms by (simp add: ncclSocketGetAddrFromString_def show_addr_def addr_of_bracket_def scan_bracket_scope)

text \<open>The comparison of a subnet reads every byte under the mask.\<close>

lemma xor_zero_iff: "(x :: 'a::len word) XOR y = 0 \<longleftrightarrow> x = y"
  by (auto simp: bit_eq_iff bit_xor_iff)

lemma masked_eq_iff:
  "length a = length b \<Longrightarrow> length m = length a \<Longrightarrow>
   masked_eq a m b \<longleftrightarrow> (\<forall>k < length a. a ! k AND m ! k = b ! k AND m ! k)"
  by (induction a m b rule: masked_eq.induct) (auto simp: xor_zero_iff less_Suc_eq_0_disj)

end
