(* ===== verification/IbGid.thy ===== *)
theory IbGid
  imports SocketAddr
begin

text \<open>
  The choice of the GID of a RoCE port (\<^verbatim>\<open>src/unet/unet_ib.cc\<close>, \<^verbatim>\<open>envIbAddrFamily\<close> to
  \<^verbatim>\<open>ncclIbGetGidIndex\<close>). An address is the list of its 32-bit words, each read in network
  byte order; \<^verbatim>\<open>htonl\<close> of a constant is then the constant, and the bitwise comparisons of the
  code do not depend on the order. \<^verbatim>\<open>inet_pton\<close>, the queries of the verbs library and the files of
  \<^verbatim>\<open>sysfs\<close> are parameters.
\<close>

section \<open>The environment\<close>

definition envIbAddrFamily :: "(string \<Rightarrow> string option) \<Rightarrow> sa_family" where
  "envIbAddrFamily env =
     (case env ''NCCL_IB_ADDR_FAMILY'' of
        None \<Rightarrow> AF_INET
      | Some s \<Rightarrow> if s = [] then AF_INET
                  else if s = ''AF_INET'' then AF_INET
                  else if s = ''AF_INET6'' then AF_INET6 else AF_INET)"

text \<open>The prefix and its length; \<open>pton\<close> gives one word for \<open>AF_INET\<close> and four for \<open>AF_INET6\<close>.\<close>

definition envIbAddrRange ::
    "(sa_family \<Rightarrow> string \<Rightarrow> u32 list option) \<Rightarrow> (string \<Rightarrow> string option) \<Rightarrow> sa_family \<Rightarrow> u32 list option \<times> int" where
  "envIbAddrRange pton env af =
     (case env ''NCCL_IB_ADDR_RANGE'' of
        None \<Rightarrow> (None, 0)
      | Some s \<Rightarrow>
          if s = [] then (None, 0)
          else let str = take 127 s in
            if CHR ''/'' \<notin> set str then (None, 0)
            else let addr = takeWhile (\<lambda>c. c \<noteq> CHR ''/'') str;
                     mstr = tl (dropWhile (\<lambda>c. c \<noteq> CHR ''/'') str)
                 in case pton af addr of
                      None \<Rightarrow> (None, 0)
                    | Some ws \<Rightarrow>
                        let mask = c_int_of_long (strtol10 mstr) in
                        if af = AF_INET \<and> mask > 32 then (None, 0)
                        else if af = AF_INET6 \<and> mask > 128 then (None, 0)
                        else (Some ws, mask))"

section \<open>What the code asks of a GID\<close>

definition getGidAddrFamily :: "u32 list \<Rightarrow> sa_family" where
  "getGidAddrFamily a =
     (let isIpV4Mapped = ((a ! 0 OR a ! 1) OR (a ! 2 XOR 0x0000ffff)) = 0;
          isIpV4MappedMulticast = (a ! 0 = 0xff0e0000 \<and> (a ! 1 OR (a ! 2 XOR 0x0000ffff)) = 0)
      in if isIpV4Mapped \<or> isIpV4MappedMulticast then AF_INET else AF_INET6)"

definition NETMASK :: "int \<Rightarrow> u32" where
  "NETMASK bits = 0xffffffff XOR (push_bit (nat (32 - bits)) 1 - 1)"

text \<open>The loop returns what is left of the prefix length.\<close>

function match_prefix :: "sa_family \<Rightarrow> u32 list \<Rightarrow> int \<Rightarrow> nat \<Rightarrow> u32 list \<Rightarrow> int" where
  "match_prefix af base prefixlen i addr =
     (if prefixlen > 0 \<and> i < 4
      then if af = AF_INET
           then let mask = NETMASK prefixlen in
                if (base ! 0 AND mask) XOR (addr ! 3 AND mask) \<noteq> 0 then prefixlen else 0
           else if prefixlen \<ge> 32
           then if base ! i XOR addr ! i \<noteq> 0 then prefixlen
                else match_prefix af base (prefixlen - 32) (i + 1) addr
           else let mask = NETMASK prefixlen in
                if (base ! i AND mask) XOR (addr ! i AND mask) \<noteq> 0 then prefixlen else 0
      else prefixlen)"
  by pat_completeness auto
termination by (relation "measure (\<lambda>(_, _, _, i, _). 4 - i)") auto

declare match_prefix.simps [simp del]

definition matchGidAddrPrefix :: "sa_family \<Rightarrow> u32 list option \<Rightarrow> int \<Rightarrow> u32 list \<Rightarrow> bool" where
  "matchGidAddrPrefix af prefix prefixlen gid =
     (match_prefix af (case prefix of None \<Rightarrow> [] | Some ws \<Rightarrow> ws) prefixlen 0 gid = 0)"

definition configuredGid :: "u32 list \<Rightarrow> bool" where
  "configuredGid a =
     (let trailer = a ! 1 OR a ! 2 OR a ! 3
      in \<not> ((a ! 0 OR trailer) = 0 \<or> (a ! 0 = 0xfe800000 \<and> trailer = 0)))"

definition linkLocalGid :: "u32 list \<Rightarrow> bool" where
  "linkLocalGid a \<longleftrightarrow> a ! 0 = 0xfe800000 \<and> a ! 1 = 0"

definition validGid :: "u32 list \<Rightarrow> bool" where
  "validGid gid \<longleftrightarrow> configuredGid gid \<and> \<not> linkLocalGid gid"

text \<open>
  The type file of a GID: it does not open, it does not read, or it has contents. A text that is none of the
  three leaves the version as it was.
\<close>

datatype sysfs_read = OpenFails | ReadFails | Contents string

definition ncclIbRoceGetVersionNum :: "sysfs_read \<Rightarrow> int \<Rightarrow> ncclResult \<times> int" where
  "ncclIbRoceGetVersionNum rd version =
     (case rd of
        OpenFails \<Rightarrow> (ncclSystemError, version)
      | ReadFails \<Rightarrow> (ncclSystemError, version)
      | Contents s \<Rightarrow>
          let str = takeWhile (\<lambda>c. c \<noteq> CHR 0x00) (take 15 s) in
          if str \<noteq> []
          then if strncmp_eq str ''IB/RoCE v1'' (length ''IB/RoCE v1'') \<or> strncmp_eq str ''RoCE v1'' (length ''RoCE v1'')
               then (ncclSuccess, 1)
               else if strncmp_eq str ''RoCE v2'' (length ''RoCE v2'') then (ncclSuccess, 2)
               else (ncclSuccess, version)
          else (ncclSuccess, version))"

section \<open>The choice\<close>

text \<open>
  A port: what a query of each index of its GID table gives, and the type file of each index. The two
  version variables of \<^verbatim>\<open>ncclIbUpdateGidIndex\<close> are not initialised: \<open>pt_junk\<close> is what they hold.
\<close>

record port_gids =
  pt_query :: "int \<Rightarrow> ncclResult \<times> u32 list"
  pt_type :: "int \<Rightarrow> sysfs_read"
  pt_junk :: "int \<times> int"

definition ncclIbUpdateGidIndex ::
    "port_gids \<Rightarrow> sa_family \<Rightarrow> u32 list option \<Rightarrow> int \<Rightarrow> int \<Rightarrow> int \<Rightarrow> int \<Rightarrow> ncclResult \<times> int" where
  "ncclIbUpdateGidIndex pt af prefix prefixlen roceVer gidIndexCandidate gidIndex =
     (let (res, gid) = pt_query pt gidIndex in
      if ncclCheckFails res then (res, gidIndex)
      else let (res, gidCandidate) = pt_query pt gidIndexCandidate in
      if ncclCheckFails res then (res, gidIndex)
      else let gidFam = getGidAddrFamily gid;
               gidCandidateFam = getGidAddrFamily gidCandidate;
               gidCandidateMatchSubnet = matchGidAddrPrefix af prefix prefixlen gidCandidate
      in if gidCandidateFam \<noteq> gidFam \<and> gidCandidateFam = af \<and> gidCandidateMatchSubnet
         then (ncclSuccess, gidIndexCandidate)
         else if gidCandidateFam \<noteq> af \<or> \<not> validGid gidCandidate \<or> \<not> gidCandidateMatchSubnet
         then (ncclSuccess, gidIndex)
         else let (res, gidRoceVerNum) = ncclIbRoceGetVersionNum (pt_type pt gidIndex) (fst (pt_junk pt)) in
              if ncclCheckFails res then (res, gidIndex)
              else let (res, gidRoceVerNumCandidate) =
                     ncclIbRoceGetVersionNum (pt_type pt gidIndexCandidate) (snd (pt_junk pt)) in
              if ncclCheckFails res then (res, gidIndex)
              else if (gidRoceVerNum \<noteq> gidRoceVerNumCandidate \<or> \<not> validGid gid) \<and> gidRoceVerNumCandidate = roceVer
              then (ncclSuccess, gidIndexCandidate)
              else (ncclSuccess, gidIndex))"

fun gid_loop :: "(int \<Rightarrow> int \<Rightarrow> ncclResult \<times> int) \<Rightarrow> int list \<Rightarrow> int \<Rightarrow> ncclResult \<times> int" where
  "gid_loop update [] gidIndex = (ncclSuccess, gidIndex)"
| "gid_loop update (next # cs) gidIndex =
     (let (res, gidIndex) = update next gidIndex in
      if ncclCheckFails res then (res, gidIndex) else gid_loop update cs gidIndex)"

text \<open>\<open>paramGidIndex\<close> and \<open>roceVer\<close> are the parameters \<^verbatim>\<open>IB_GID_INDEX\<close> and \<^verbatim>\<open>IB_ROCE_VERSION_NUM\<close>.\<close>

definition ncclIbGetGidIndex ::
    "(sa_family \<Rightarrow> string \<Rightarrow> u32 list option) \<Rightarrow> (string \<Rightarrow> string option) \<Rightarrow> int \<Rightarrow> int \<Rightarrow> port_gids \<Rightarrow> nat \<Rightarrow> ncclResult \<times> int" where
  "ncclIbGetGidIndex pton env paramGidIndex roceVer pt gidTblLen =
     (if paramGidIndex \<ge> 0 then (ncclSuccess, paramGidIndex)
      else let af = envIbAddrFamily env;
               (prefix, prefixlen) = envIbAddrRange pton env af
           in gid_loop (ncclIbUpdateGidIndex pt af prefix prefixlen roceVer) (map int [1..<gidTblLen]) 0)"

section \<open>The prefix test\<close>

text \<open>Bit \<open>k\<close> of an address, the first one being the highest bit of the first word.\<close>

definition addr_bit :: "u32 list \<Rightarrow> nat \<Rightarrow> bool" where
  "addr_bit a k = bit (a ! (k div 32)) (31 - k mod 32)"

lemma bit_NETMASK:
  assumes "0 < b" "b \<le> 32"
  shows "bit (NETMASK b) n \<longleftrightarrow> nat (32 - b) \<le> n \<and> n < 32"
proof -
  have f: "(0xffffffff :: u32) = mask 32" by (simp add: mask_eq_exp_minus_1)
  have m: "push_bit k 1 - 1 = (mask k :: u32)" for k by (simp add: mask_eq_exp_minus_1 push_bit_eq_mult)
  show ?thesis unfolding NETMASK_def f m using assms by (auto simp: bit_simps)
qed

lemma netmask_test:
  assumes "0 < b" "b \<le> 32"
  shows "(x AND NETMASK b) XOR (y AND NETMASK b) = 0 \<longleftrightarrow> (\<forall>j < nat b. bit x (31 - j) = bit y (31 - j))"
proof -
  have "(x AND NETMASK b) XOR (y AND NETMASK b) = 0 \<longleftrightarrow> (\<forall>n. nat (32 - b) \<le> n \<and> n < 32 \<longrightarrow> bit x n = bit y n)"
    unfolding xor_zero_iff bit_eq_iff by (auto simp: bit_simps bit_NETMASK [OF assms])
  also have "\<dots> \<longleftrightarrow> (\<forall>j < nat b. bit x (31 - j) = bit y (31 - j))" (is "?A \<longleftrightarrow> ?B")
  proof
    assume a: ?A
    show ?B
    proof (intro allI impI)
      fix j assume j: "j < nat b"
      have "nat (32 - b) \<le> 31 - j \<and> 31 - j < 32" using j assms by linarith
      then show "bit x (31 - j) = bit y (31 - j)" using a by blast
    qed
  next
    assume a: ?B
    show ?A
    proof (intro allI impI)
      fix n assume n: "nat (32 - b) \<le> n \<and> n < 32"
      have "31 - n < nat b" "31 - (31 - n) = n" using n assms by linarith+
      then show "bit x n = bit y n" using a by metis
    qed
  qed
  finally show ?thesis .
qed

lemma word_bits:
  "(x XOR y :: u32) = 0 \<longleftrightarrow> (\<forall>j < 32. bit x (31 - j) = bit y (31 - j))"
proof -
  have "(x AND NETMASK 32) XOR (y AND NETMASK 32) = x XOR y"
    by (rule bit_eqI) (auto simp: bit_simps bit_NETMASK)
  with netmask_test [of 32 x y] show ?thesis by simp
qed

lemma block_bits:
  assumes "n \<le> 32"
  shows "(\<forall>k. 32 * i \<le> k \<and> k < 32 * i + n \<longrightarrow> addr_bit p k = addr_bit a k) \<longleftrightarrow>
   (\<forall>j < n. bit (p ! i) (31 - j) = bit (a ! i) (31 - j))" (is "?A \<longleftrightarrow> ?B")
proof -
  have e: "addr_bit q (32 * i + j) = bit (q ! i) (31 - j)" if "j < 32" for q j using that by (simp add: addr_bit_def)
  show ?thesis
  proof
    assume a: ?A
    show ?B
    proof (intro allI impI)
      fix j assume j: "j < n"
      then have "addr_bit p (32 * i + j) = addr_bit a (32 * i + j)" using a by simp
      then show "bit (p ! i) (31 - j) = bit (a ! i) (31 - j)" using e [of j] j assms by simp
    qed
  next
    assume a: ?B
    show ?A
    proof (intro allI impI)
      fix k assume k: "32 * i \<le> k \<and> k < 32 * i + n"
      then obtain j where "k = 32 * i + j" "j < n" by (metis add_less_cancel_left le_Suc_ex)
      then show "addr_bit p k = addr_bit a k" using a e [of j] assms by simp
    qed
  qed
qed

lemma match_prefix_AF_INET6:
  "af \<noteq> AF_INET \<Longrightarrow> 0 \<le> len \<Longrightarrow> len + 32 * int i \<le> 128 \<Longrightarrow>
   match_prefix af p len i a = 0 \<longleftrightarrow> (\<forall>k. 32 * i \<le> k \<and> k < 32 * i + nat len \<longrightarrow> addr_bit p k = addr_bit a k)"
proof (induction af p len i a rule: match_prefix.induct)
  case (1 af p len i a)
  consider "len = 0" | "0 < len" "len < 32" | "32 \<le> len" using "1.prems"(2) by linarith
  then show ?case
  proof cases
    case 1
    then show ?thesis by (auto simp: match_prefix.simps)
  next
    case 2
    then have i: "i < 4" using "1.prems"(3) by linarith
    have "match_prefix af p len i a = 0 \<longleftrightarrow> (p ! i AND NETMASK len) XOR (a ! i AND NETMASK len) = 0"
      using 2 i "1.prems"(1) by (subst match_prefix.simps) (simp add: Let_def)
    also have "\<dots> \<longleftrightarrow> (\<forall>j < nat len. bit (p ! i) (31 - j) = bit (a ! i) (31 - j))"
      using 2 by (intro netmask_test) simp_all
    finally show ?thesis using block_bits [of "nat len" i p a] 2 by simp
  next
    case 3
    then have i: "i < 4" using "1.prems"(3) by linarith
    have "match_prefix af p len i a = 0 \<longleftrightarrow> p ! i XOR a ! i = 0 \<and> match_prefix af p (len - 32) (i + 1) a = 0"
      using 3 i "1.prems"(1) by (subst match_prefix.simps) simp
    also have "\<dots> \<longleftrightarrow> (\<forall>k. 32 * i \<le> k \<and> k < 32 * i + 32 \<longrightarrow> addr_bit p k = addr_bit a k) \<and>
        (\<forall>k. 32 * i + 32 \<le> k \<and> k < 32 * i + nat len \<longrightarrow> addr_bit p k = addr_bit a k)"
    proof -
      have "nat len = nat (len - 32) + 32" using 3 by (simp add: nat_diff_distrib')
      then have E: "32 * i + nat len = 32 * (i + 1) + nat (len - 32)" by simp
      have "match_prefix af p (len - 32) (i + 1) a = 0 \<longleftrightarrow>
          (\<forall>k. 32 * (i + 1) \<le> k \<and> k < 32 * (i + 1) + nat (len - 32) \<longrightarrow> addr_bit p k = addr_bit a k)"
        if "p ! i XOR a ! i = 0"
        using "1.IH" 3 i "1.prems" that by simp
      then have "p ! i XOR a ! i = 0 \<and> match_prefix af p (len - 32) (i + 1) a = 0 \<longleftrightarrow> p ! i XOR a ! i = 0 \<and>
          (\<forall>k. 32 * (i + 1) \<le> k \<and> k < 32 * i + nat len \<longrightarrow> addr_bit p k = addr_bit a k)"
        unfolding E by (intro conj_cong refl) simp_all
      then show ?thesis unfolding word_bits block_bits [of 32 i p a, OF order_refl] by (simp add: add.commute)
    qed
    also have "\<dots> \<longleftrightarrow> (\<forall>k. 32 * i \<le> k \<and> k < 32 * i + nat len \<longrightarrow> addr_bit p k = addr_bit a k)"
    proof -
      have "32 * i + 32 \<le> 32 * i + nat len" using 3 by linarith
      then show ?thesis by (meson le_trans linorder_not_le order_less_le_trans le_add1)
    qed
    finally show ?thesis .
  qed
qed

lemma match_prefix_AF_INET:
  assumes "0 \<le> len" "len \<le> 32"
  shows "match_prefix AF_INET p len 0 a = 0 \<longleftrightarrow> (\<forall>k < nat len. addr_bit p k = addr_bit a (96 + k))"
proof (cases "len = 0")
  case True
  then show ?thesis by (simp add: match_prefix.simps)
next
  case False
  then have "match_prefix AF_INET p len 0 a = 0 \<longleftrightarrow> (p ! 0 AND NETMASK len) XOR (a ! 3 AND NETMASK len) = 0"
    using assms by (subst match_prefix.simps) (simp add: Let_def)
  also have "\<dots> \<longleftrightarrow> (\<forall>j < nat len. bit (p ! 0) (31 - j) = bit (a ! 3) (31 - j))"
    using assms False by (intro netmask_test) simp_all
  also have "\<dots> \<longleftrightarrow> (\<forall>k < nat len. addr_bit p k = addr_bit a (96 + k))"
  proof -
    have "k < nat len \<Longrightarrow> addr_bit q k = bit (q ! 0) (31 - k) \<and> addr_bit q (96 + k) = bit (q ! 3) (31 - k)" for q k
    proof -
      assume "k < nat len"
      then have "k < 32" using assms(2) by simp
      then show ?thesis using block_div [of k 32 3] block_mod [of k 32 3] by (simp add: addr_bit_def)
    qed
    then show ?thesis by simp
  qed
  finally show ?thesis .
qed

text \<open>
  The subnet test of a GID is right for every prefix length the code lets through: an IPv6 prefix
  matches exactly when its first \<open>len\<close> bits are those of the address, an IPv4 prefix when they are the first bits of the
  address's last word, the loop over whole words and the masked last word together.
\<close>
theorem matchGidAddrPrefix_correct:
  assumes "0 \<le> len" "len \<le> (if af = AF_INET then 32 else 128)"
  shows "matchGidAddrPrefix af (Some p) len gid \<longleftrightarrow>
    (\<forall>k \<in> {..<nat len}. addr_bit p k = addr_bit gid (if af = AF_INET then 96 + k else k))"
proof (cases "af = AF_INET")
  case True
  then show ?thesis using assms by (auto simp: matchGidAddrPrefix_def match_prefix_AF_INET)
next
  case False
  then show ?thesis using assms match_prefix_AF_INET6 [of af len 0 p gid] by (auto simp: matchGidAddrPrefix_def)
qed

theorem matchGidAddrPrefix_correct_witness:
  "matchGidAddrPrefix AF_INET6 (Some [0x20010db8, 0x00ff0000, 0, 0]) 40 [0x20010db8, 0x00ff1234, 0, 7] \<and>
   addr_bit [0x20010db8, 0x00ff0000, 0, 0] 39 = addr_bit [0x20010db8, 0x00ff1234, 0, 7] 39"
proof -
  have "matchGidAddrPrefix AF_INET6 (Some [0x20010db8, 0x00ff0000, 0, 0]) 40 [0x20010db8, 0x00ff1234, 0, 7]"
    by (simp add: matchGidAddrPrefix_def match_prefix.simps NETMASK_def)
  moreover from this have "addr_bit [0x20010db8, 0x00ff0000, 0, 0] 39 = addr_bit [0x20010db8, 0x00ff1234, 0, 7] 39"
    by (subst (asm) matchGidAddrPrefix_correct) auto
  ultimately show ?thesis by (rule conjI)
qed

section \<open>Which index is chosen\<close>

text \<open>
  A port whose queries succeed and whose type files name a version: \<open>gid i\<close> and \<open>ver i\<close>. The family of
  index \<open>i\<close> is right, or it is a candidate, or it is all that is asked for. The index the search
  starts from is not held against the subnet.
\<close>

definition port_known :: "port_gids \<Rightarrow> nat \<Rightarrow> (int \<Rightarrow> u32 list) \<Rightarrow> (int \<Rightarrow> int) \<Rightarrow> bool" where
  "port_known pt n gid ver \<longleftrightarrow>
     (\<forall>i \<in> {0..<int n}. pt_query pt i = (ncclSuccess, gid i) \<and>
        (\<forall>junk. ncclIbRoceGetVersionNum (pt_type pt i) junk = (ncclSuccess, ver i)))"

definition family_ok :: "sa_family \<Rightarrow> (int \<Rightarrow> u32 list) \<Rightarrow> int \<Rightarrow> bool" where
  "family_ok af gid i \<longleftrightarrow> getGidAddrFamily (gid i) = af"

definition subnet_ok :: "sa_family \<Rightarrow> u32 list option \<Rightarrow> int \<Rightarrow> (int \<Rightarrow> u32 list) \<Rightarrow> int \<Rightarrow> bool" where
  "subnet_ok af prefix len gid i \<longleftrightarrow> i = 0 \<or> matchGidAddrPrefix af prefix len (gid i)"

definition gid_good ::
    "sa_family \<Rightarrow> u32 list option \<Rightarrow> int \<Rightarrow> int \<Rightarrow> (int \<Rightarrow> u32 list) \<Rightarrow> (int \<Rightarrow> int) \<Rightarrow> int \<Rightarrow> bool" where
  "gid_good af prefix len roceVer gid ver i \<longleftrightarrow>
     family_ok af gid i \<and> subnet_ok af prefix len gid i \<and> validGid (gid i) \<and> ver i = roceVer"

text \<open>The first good index; without one, the first of the right family and subnet; without one, 0.\<close>

definition first_index :: "(int \<Rightarrow> bool) \<Rightarrow> nat \<Rightarrow> int option" where
  "first_index P n = map_option int (find_index (\<lambda>i. P (int i)) [0..<n])"

definition best_gid ::
    "sa_family \<Rightarrow> u32 list option \<Rightarrow> int \<Rightarrow> int \<Rightarrow> (int \<Rightarrow> u32 list) \<Rightarrow> (int \<Rightarrow> int) \<Rightarrow> nat \<Rightarrow> int" where
  "best_gid af prefix len roceVer gid ver n =
     (case first_index (gid_good af prefix len roceVer gid ver) n of
        Some i \<Rightarrow> i
      | None \<Rightarrow> (case first_index (\<lambda>i. family_ok af gid i \<and> subnet_ok af prefix len gid i) n of
                   Some i \<Rightarrow> i
                 | None \<Rightarrow> 0))"

lemma find_index_snoc:
  "find_index P (xs @ [x]) = (case find_index P xs of Some i \<Rightarrow> Some i | None \<Rightarrow> if P x then Some (length xs) else None)"
  by (induction xs) (auto split: option.splits)

lemma first_index_Suc:
  "first_index P (Suc n) = (case first_index P n of Some i \<Rightarrow> Some i | None \<Rightarrow> if P (int n) then Some (int n) else None)"
  by (simp add: first_index_def find_index_snoc split: option.splits)

lemma first_index_Some: "first_index P n = Some i \<Longrightarrow> 0 \<le> i \<and> i < int n \<and> P i"
  by (auto simp: first_index_def dest!: find_index_Some)

lemma first_index_None: "first_index P n = None \<longleftrightarrow> (\<forall>i \<in> {0..<int n}. \<not> P i)"
proof -
  have "{0..<int n} = int ` {0..<n}" using image_int_atLeastLessThan [of 0 n] by simp
  then show ?thesis by (simp add: first_index_def find_index_None)
qed

text \<open>One candidate.\<close>

lemma update_known:
  assumes "port_known pt n gid ver" "0 \<le> g" "g < int n" "0 < c" "c < int n"
  shows "ncclIbUpdateGidIndex pt af prefix len roceVer c g =
    (ncclSuccess,
     if getGidAddrFamily (gid c) \<noteq> getGidAddrFamily (gid g) \<and> family_ok af gid c \<and> subnet_ok af prefix len gid c then c
     else if family_ok af gid c \<and> validGid (gid c) \<and> subnet_ok af prefix len gid c \<and>
             (ver g \<noteq> ver c \<or> \<not> validGid (gid g)) \<and> ver c = roceVer then c
     else g)"
proof -
  have q: "pt_query pt g = (ncclSuccess, gid g)" "pt_query pt c = (ncclSuccess, gid c)"
    and v: "\<And>junk. ncclIbRoceGetVersionNum (pt_type pt g) junk = (ncclSuccess, ver g)"
      "\<And>junk. ncclIbRoceGetVersionNum (pt_type pt c) junk = (ncclSuccess, ver c)"
    using assms by (simp_all add: port_known_def)
  show ?thesis using assms(4) by (auto simp: ncclIbUpdateGidIndex_def q v family_ok_def subnet_ok_def)
qed

lemma update_best:
  assumes pt: "port_known pt n gid ver" and m: "0 < m" "m < n"
  shows "ncclIbUpdateGidIndex pt af prefix len roceVer (int m) (best_gid af prefix len roceVer gid ver m) =
    (ncclSuccess, best_gid af prefix len roceVer gid ver (Suc m))"
proof -
  let ?G = "gid_good af prefix len roceVer gid ver" and ?F = "\<lambda>i. family_ok af gid i \<and> subnet_ok af prefix len gid i"
  let ?g = "best_gid af prefix len roceVer gid ver m" and ?c = "int m"
  note upd = update_known [OF pt _ _ _, of _ ?c af prefix len roceVer]
  show ?thesis
  proof (cases "first_index ?G m")
    case (Some g)
    then have g: "?g = g" "best_gid af prefix len roceVer gid ver (Suc m) = g" "0 \<le> g" "g < int m" "?G g"
      using first_index_Some [OF Some] by (simp_all add: best_gid_def first_index_Suc)
    then show ?thesis using upd [of g] m by (auto simp: gid_good_def family_ok_def)
  next
    case None
    note noG = None
    show ?thesis
    proof (cases "first_index ?F m")
      case (Some g)
      then have g: "?g = g" "0 \<le> g" "g < int m" "?F g" "best_gid af prefix len roceVer gid ver (Suc m) = (if ?G ?c then ?c else g)"
        using first_index_Some [OF Some] noG by (simp_all add: best_gid_def first_index_Suc)
      moreover have "\<not> ?G g" using noG g(2,3) by (simp add: first_index_None)
      ultimately show ?thesis using upd [of g] m by (auto simp: gid_good_def family_ok_def)
    next
      case None
      have g: "?g = 0" "best_gid af prefix len roceVer gid ver (Suc m) = (if ?G ?c \<or> ?F ?c then ?c else 0)"
        using None noG by (simp_all add: best_gid_def first_index_Suc)
      moreover have "\<not> family_ok af gid 0" using None m by (auto simp: first_index_None subnet_ok_def)
      ultimately show ?thesis using upd [of 0] m by (auto simp: gid_good_def family_ok_def)
    qed
  qed
qed

lemma gid_loop_best:
  assumes pt: "port_known pt n gid ver" and m: "0 < m" "m \<le> n"
  shows "gid_loop (ncclIbUpdateGidIndex pt af prefix len roceVer) (map int [m..<n])
      (best_gid af prefix len roceVer gid ver m) = (ncclSuccess, best_gid af prefix len roceVer gid ver n)"
  using m
proof (induction "n - m" arbitrary: m)
  case 0
  then show ?case by simp
next
  case (Suc k)
  then have "m < n" by simp
  then show ?case using Suc.hyps(1) [of "Suc m"] Suc.hyps(2) Suc.prems update_best [OF pt Suc.prems(1), of af prefix len roceVer]
    by (simp add: upt_conv_Cons)
qed

lemma best_gid_1: "best_gid af prefix len roceVer gid ver 1 = 0"
  using first_index_Suc [of _ 0] by (simp add: best_gid_def first_index_def split: option.splits)

text \<open>
  C22: the GID index of a port whose queries succeed: the parameter if it is not negative; otherwise the first
  index that has the family asked for, is in the subnet, is valid and has the RoCE version asked for;
  without one the first of the family and subnet; without one 0. Index 0 is never held against the subnet,
  so with a subnet set it can win over an index inside it.
\<close>
theorem ncclIbGetGidIndex_best:
  assumes "port_known pt n gid ver" "0 < n"
  shows "ncclIbGetGidIndex pton env param roceVer pt n =
    (ncclSuccess,
     if param \<ge> 0 then param
     else (let af = envIbAddrFamily env; (prefix, len) = envIbAddrRange pton env af
           in best_gid af prefix len roceVer gid ver n))"
  using gid_loop_best [OF assms(1), of 1] assms(2) best_gid_1
  by (simp add: ncclIbGetGidIndex_def Let_def split: prod.splits)

text \<open>
  A port with four entries: the link-local address with both versions, then an IPv4 address with both
  versions. The subnet is that of the IPv4 address.
\<close>

definition example_gid :: "int \<Rightarrow> u32 list" where
  "example_gid i = (if i < 2 then [0xfe800000, 0, 0, 1] else [0, 0, 0xffff, 0x0a000001])"

definition example_port :: port_gids where
  "example_port = \<lparr> pt_query = (\<lambda>i. (ncclSuccess, example_gid i)),
     pt_type = (\<lambda>i. Contents (if i = 0 \<or> i = 2 then ''IB/RoCE v1'' else ''RoCE v2'')), pt_junk = (0, 0) \<rparr>"

definition example_ver :: "int \<Rightarrow> int" where
  "example_ver i = (if i = 0 \<or> i = 2 then 1 else 2)"

definition example_pton :: "sa_family \<Rightarrow> string \<Rightarrow> u32 list option" where
  "example_pton af s = (if af = AF_INET \<and> s = ''10.0.0.0'' then Some [0x0a000000] else None)"

definition example_gid_env :: "string \<Rightarrow> string option" where
  "example_gid_env n = (if n = ''NCCL_IB_ADDR_RANGE'' then Some ''10.0.0.0/8'' else None)"

lemma example_port_known: "port_known example_port n example_gid example_ver"
  by (simp add: port_known_def example_port_def example_ver_def ncclIbRoceGetVersionNum_def strncmp_eq_def)

lemma example_range: "envIbAddrFamily example_gid_env = AF_INET" "envIbAddrRange example_pton example_gid_env AF_INET = (Some [0x0a000000], 8)"
proof -
  have "strtol10 ''8'' = 8"
    by (simp add: strtol10_def is_space_def digit_of_def clamp_long_def)
  moreover have "c_int_of_long 8 = 8" by (simp add: c_int_of_long_def)
  ultimately show "envIbAddrRange example_pton example_gid_env AF_INET = (Some [0x0a000000], 8)"
    by (simp add: envIbAddrRange_def example_gid_env_def example_pton_def)
  show "envIbAddrFamily example_gid_env = AF_INET" by (simp add: envIbAddrFamily_def example_gid_env_def)
qed

lemma example_best: "best_gid AF_INET (Some [0x0a000000]) 8 2 example_gid example_ver 4 = 3"
proof -
  have f: "getGidAddrFamily (example_gid i) = (if i < 2 then AF_INET6 else AF_INET)" for i
    by (simp add: getGidAddrFamily_def example_gid_def)
  have s: "matchGidAddrPrefix AF_INET (Some [0x0a000000]) 8 (example_gid 3)"
    by (simp add: matchGidAddrPrefix_def match_prefix.simps NETMASK_def example_gid_def)
  have v: "validGid (example_gid 3)" by (simp add: validGid_def configuredGid_def linkLocalGid_def example_gid_def)
  have "[0..<4] = [0, 1, 2, 3 :: nat]" by (simp add: upt_conv_Cons)
  then have "first_index (gid_good AF_INET (Some [0x0a000000]) 8 2 example_gid example_ver) 4 = Some 3"
    by (simp add: first_index_def gid_good_def family_ok_def subnet_ok_def f s v example_ver_def)
  then show ?thesis by (simp add: best_gid_def)
qed

theorem ncclIbGetGidIndex_best_witness:
  "ncclIbGetGidIndex example_pton example_gid_env (-1) 2 example_port 4 = (ncclSuccess, 3)"
  using ncclIbGetGidIndex_best [OF example_port_known, of 4 example_pton example_gid_env "-1" 2]
  by (simp add: example_range example_best Let_def)

text \<open>
  Index 0 with an address outside the subnet but otherwise right keeps an index inside the subnet from being chosen.
\<close>

lemma index0_beats_subnet:
  assumes "gid_good af prefix len roceVer gid ver 0" "0 < n"
  shows "best_gid af prefix len roceVer gid ver n = 0"
proof -
  have "[0..<n] = 0 # [1..<n]" using assms(2) by (simp add: upt_conv_Cons)
  then show ?thesis using assms(1) by (simp add: best_gid_def first_index_def)
qed

text \<open>A type file with another text leaves the version unset.\<close>

lemma unknown_version_unset: "ncclIbRoceGetVersionNum (Contents ''RoCE v3'') junk = (ncclSuccess, junk)"
  by (simp add: ncclIbRoceGetVersionNum_def strncmp_eq_def)

end
