(* ===== verification/IbDevs.thy ===== *)
theory IbDevs
  imports SocketAddr
begin

text \<open>
  The discovery of the InfiniBand devices: \<^verbatim>\<open>ncclIbInit\<close> of \<^verbatim>\<open>src/unet/unet_ib.cc\<close> with the
  speed tables, the PCI path and the merging of ports, and the functions that report on the
  devices found. The tables \<^verbatim>\<open>ncclIbDevs\<close> and \<^verbatim>\<open>ncclIbMergedDevs\<close> are arrays of 32 elements; a computation that
  writes outside them or goes through a null path has no result (\<open>None\<close>). What the verbs library and the system say of
  the host is a parameter.
\<close>

section \<open>Speeds\<close>

definition ibvWidths :: "int list" where
  "ibvWidths = [1, 4, 8, 12, 2]"

definition ibvSpeeds :: "int list" where
  "ibvSpeeds = [2500, 5000, 10000, 10000, 14000, 25000, 50000, 100000]"

fun first_bit_from :: "int \<Rightarrow> nat \<Rightarrow> nat \<Rightarrow> nat" where
  "first_bit_from val i 0 = i"
| "first_bit_from val i (Suc k) = (if bit val i then i else first_bit_from val (Suc i) k)"

definition firstBitSet :: "int \<Rightarrow> nat \<Rightarrow> nat" where
  "firstBitSet val mx = first_bit_from val 0 mx"

definition ncclIbWidth :: "int \<Rightarrow> int" where
  "ncclIbWidth width = ibvWidths ! firstBitSet width (length ibvWidths - 1)"

definition ncclIbSpeed :: "int \<Rightarrow> int" where
  "ncclIbSpeed speed = ibvSpeeds ! firstBitSet speed (length ibvSpeeds - 1)"

section \<open>The host\<close>

datatype link_layer = IBV_LINK_LAYER_INFINIBAND | IBV_LINK_LAYER_ETHERNET | LINK_OTHER

record ibv_port_attr =
  pa_active :: bool          \<comment> \<open>\<open>state == IBV_PORT_ACTIVE\<close>\<close>
  pa_phys_state :: int
  pa_link_layer :: link_layer
  pa_active_speed :: int
  pa_active_width :: int
  pa_active_mtu :: int
  pa_lid :: u32
  pa_grh_required :: bool    \<comment> \<open>\<open>flags & IBV_QPF_GRH_REQUIRED\<close>\<close>
  pa_gid_tbl_len :: nat

record ibv_device_attr =
  da_phys_port_cnt :: nat
  da_sys_image_guid :: u64
  da_max_qp :: int

text \<open>A card: its name, whether it opens and closes, and what its queries say (\<open>None\<close>: they fail).\<close>

record ibv_device =
  hc_name :: string
  hc_opens :: bool
  hc_attr :: "ibv_device_attr option"
  hc_port :: "int \<Rightarrow> ibv_port_attr option"
  hc_closes :: bool

text \<open>The host: its cards, the real path of a card's \<^verbatim>\<open>sysfs\<close> entry, and whether a thread can be started for device \<open>n\<close>.\<close>

record ib_host =
  ho_devices :: "ibv_device list"
  ho_realpath :: "string \<Rightarrow> string option"
  ho_thread :: "nat \<Rightarrow> bool"

record ib_config =
  cf_disable :: bool           \<comment> \<open>\<open>siclParamUnetDisable()\<close>\<close>
  cf_merge_vfs :: bool
  cf_merge_nics :: bool
  cf_adaptive_routing :: int
  cf_relaxed_ordering :: int   \<comment> \<open>\<open>ncclParamIbPciRelaxedOrdering()\<close>\<close>
  cf_ro_flag :: bool           \<comment> \<open>\<open>IBV_ACCESS_RELAXED_ORDERING != 0\<close>\<close>

section \<open>The tables\<close>

definition MAX_IB_DEVS :: nat where
  "MAX_IB_DEVS = 32"

definition MAXNAMESIZE :: nat where
  "MAXNAMESIZE = 64"

record ncclIbDev =
  dv_device :: nat
  dv_guid :: u64
  dv_portAttr :: "ibv_port_attr option"
  dv_portNum :: int
  dv_link :: link_layer
  dv_speed :: int
  dv_devName :: string
  dv_pciPath :: "string option"
  dv_realPort :: int
  dv_maxQp :: int
  dv_ar :: int
  dv_fatal :: int              \<comment> \<open>\<open>stats.fatalErrorCount\<close>\<close>
  dv_pdRefs :: int

record ncclIbMergedDev =
  gd_ndevs :: nat
  gd_devs :: "nat list"
  gd_speed :: int
  gd_devName :: string
  gd_dmaBufSupported :: int

definition zero_dev :: ncclIbDev where
  "zero_dev = \<lparr> dv_device = 0, dv_guid = 0, dv_portAttr = None, dv_portNum = 0, dv_link = LINK_OTHER, dv_speed = 0,
     dv_devName = [], dv_pciPath = None, dv_realPort = 0, dv_maxQp = 0, dv_ar = 0, dv_fatal = 0, dv_pdRefs = 0 \<rparr>"

definition zero_merged :: ncclIbMergedDev where
  "zero_merged = \<lparr> gd_ndevs = 0, gd_devs = [0, 0], gd_speed = 0, gd_devName = [], gd_dmaBufSupported = 0 \<rparr>"

record ib_tables =
  tb_devs :: "ncclIbDev list"
  tb_n :: nat
  tb_merged :: "ncclIbMergedDev list"
  tb_nm :: nat

section \<open>One port\<close>

text \<open>How many of the devices listed have this path; a null path is a fault of \<^verbatim>\<open>strcmp\<close>.\<close>

fun count_path :: "string \<Rightarrow> ncclIbDev list \<Rightarrow> int option" where
  "count_path p [] = Some 0"
| "count_path p (d # ds) =
     (case dv_pciPath d of
        None \<Rightarrow> None
      | Some q \<Rightarrow> map_option (\<lambda>k. if p = q then k + 1 else k) (count_path p ds))"

text \<open>The path, and the real port: left as it was when there is no path.\<close>

definition ncclIbGetPciPath ::
    "bool \<Rightarrow> (string \<Rightarrow> string option) \<Rightarrow> ncclIbDev list \<Rightarrow> string \<Rightarrow> int \<Rightarrow> (string option \<times> int) option" where
  "ncclIbGetPciPath mergeVfs realpath devs devName realPort =
     (case realpath devName of
        None \<Rightarrow> Some (None, realPort)
      | Some p \<Rightarrow>
          let l = length p in
          if l < (if mergeVfs then 4 else 1) then None
          else let p = p[l - 1 := CHR ''0''];
                   p = (if mergeVfs then p[l - 4 := CHR ''0'', l - 3 := CHR ''0''] else p)
               in case count_path p devs of None \<Rightarrow> None | Some k \<Rightarrow> Some (Some p, k))"

definition same_card :: "ncclIbDev \<Rightarrow> ncclIbDev \<Rightarrow> bool option" where
  "same_card a b =
     (case (dv_pciPath a, dv_pciPath b) of
        (Some p, Some q) \<Rightarrow> Some (p = q \<and> dv_guid a = dv_guid b \<and> dv_link a = dv_link b)
      | _ \<Rightarrow> None)"

fun find_matching :: "ib_tables \<Rightarrow> nat \<Rightarrow> nat list \<Rightarrow> nat option" where
  "find_matching t dev [] = Some (tb_nm t)"
| "find_matching t dev (i # is) =
     (if gd_ndevs (tb_merged t ! i) < 2
      then case same_card (tb_devs t ! dev) (tb_devs t ! (gd_devs (tb_merged t ! i) ! 0)) of
             None \<Rightarrow> None
           | Some True \<Rightarrow> Some i
           | Some False \<Rightarrow> find_matching t dev is
      else find_matching t dev is)"

definition ncclIbFindMatchingDev :: "ib_tables \<Rightarrow> nat \<Rightarrow> nat option" where
  "ncclIbFindMatchingDev t dev = find_matching t dev [0..<tb_nm t]"

definition port_speed :: "ibv_port_attr \<Rightarrow> int" where
  "port_speed pa = ncclIbSpeed (pa_active_speed pa) * ncclIbWidth (pa_active_width pa)"

definition port_usable :: "ibv_port_attr \<Rightarrow> bool" where
  "port_usable pa =
     (if \<not> pa_active pa then False
      else if pa_phys_state pa \<noteq> 5 then False
      else if pa_link_layer pa \<noteq> IBV_LINK_LAYER_INFINIBAND \<and> pa_link_layer pa \<noteq> IBV_LINK_LAYER_ETHERNET then False
      else \<not> port_speed pa < 100000)"

text \<open>The merged device the new device goes into: a new one, or one that has room.\<close>

definition merge_dev :: "bool \<Rightarrow> ib_tables \<Rightarrow> ib_tables option" where
  "merge_dev mergeNics t =
     (let n = tb_n t; dev = tb_devs t ! n in
      case (if mergeNics then ncclIbFindMatchingDev t n else Some (tb_nm t)) of
        None \<Rightarrow> None
      | Some m \<Rightarrow>
          if MAX_IB_DEVS \<le> m then None
          else let g = tb_merged t ! m;
                   t = (if m = tb_nm t
                        then t\<lparr> tb_nm := tb_nm t + 1,
                               tb_merged := (tb_merged t)[m := g\<lparr> gd_ndevs := 1, gd_devs := (gd_devs g)[0 := n],
                                                  gd_devName := take MAXNAMESIZE (dv_devName dev) \<rparr>] \<rparr>
                        else t\<lparr> tb_merged := (tb_merged t)[m := g\<lparr> gd_ndevs := gd_ndevs g + 1,
                                                  gd_devs := (gd_devs g)[gd_ndevs g := n],
                                                  gd_devName := gd_devName g @ take MAXNAMESIZE (''+'' @ dv_devName dev) \<rparr>] \<rparr>);
                   g = tb_merged t ! m
               in Some (t\<lparr> tb_merged := (tb_merged t)[m := g\<lparr> gd_speed := gd_speed g + dv_speed dev \<rparr>],
                           tb_n := n + 1 \<rparr>))"

definition add_port ::
    "ib_config \<Rightarrow> ib_host \<Rightarrow> bool \<Rightarrow> nat \<Rightarrow> ibv_device \<Rightarrow> ibv_device_attr \<Rightarrow> int \<Rightarrow> ibv_port_attr \<Rightarrow> ib_tables
       \<Rightarrow> (ncclResult \<times> ib_tables) option" where
  "add_port cf ho mergeNics d h attr port pa t =
     (let n = tb_n t in
      if MAX_IB_DEVS \<le> n then None
      else let name = take MAXNAMESIZE (hc_name h) in
        case ncclIbGetPciPath (cf_merge_vfs cf) (ho_realpath ho) (take n (tb_devs t)) name (dv_realPort (tb_devs t ! n)) of
          None \<Rightarrow> None
        | Some (path, realPort) \<Rightarrow>
            let ar = (if pa_link_layer pa = IBV_LINK_LAYER_INFINIBAND then 1 else 0);
                ar = (if cf_adaptive_routing cf \<noteq> -2 then cf_adaptive_routing cf else ar);
                dev = \<lparr> dv_device = d, dv_guid = da_sys_image_guid attr, dv_portAttr = Some pa, dv_portNum = port,
                        dv_link = pa_link_layer pa, dv_speed = port_speed pa, dv_devName = name, dv_pciPath = path,
                        dv_realPort = realPort, dv_maxQp = da_max_qp attr, dv_ar = ar, dv_fatal = 0, dv_pdRefs = 0 \<rparr>;
                t = t\<lparr> tb_devs := (tb_devs t)[n := dev] \<rparr>
            in if \<not> ho_thread ho n then Some (ncclSystemError, t)
               else map_option (Pair ncclSuccess) (merge_dev mergeNics t))"

section \<open>The loops\<close>

text \<open>The user's choice of cards: whether port \<open>p\<close> of the card with this name is to be used.\<close>

definition hca_chosen :: "netIf list \<Rightarrow> bool \<Rightarrow> bool \<Rightarrow> string \<Rightarrow> int \<Rightarrow> bool" where
  "hca_chosen userIfs searchExact searchNot name port \<longleftrightarrow> matchIfList name port userIfs searchExact \<noteq> searchNot"

fun port_loop ::
    "ib_config \<Rightarrow> ib_host \<Rightarrow> bool \<Rightarrow> (string \<Rightarrow> int \<Rightarrow> bool) \<Rightarrow> nat \<Rightarrow> ibv_device \<Rightarrow> ibv_device_attr \<Rightarrow> int list
       \<Rightarrow> nat \<Rightarrow> ib_tables \<Rightarrow> (ncclResult \<times> nat \<times> ib_tables) option" where
  "port_loop cf ho mergeNics chosen d h attr [] nPorts t = Some (ncclSuccess, nPorts, t)"
| "port_loop cf ho mergeNics chosen d h attr (p # ps) nPorts t =
     (if \<not> chosen (hc_name h) p then port_loop cf ho mergeNics chosen d h attr ps nPorts t
      else case hc_port h p of
             None \<Rightarrow> port_loop cf ho mergeNics chosen d h attr ps nPorts t
           | Some pa \<Rightarrow>
               if \<not> port_usable pa then port_loop cf ho mergeNics chosen d h attr ps nPorts t
               else case add_port cf ho mergeNics d h attr p pa t of
                      None \<Rightarrow> None
                    | Some (res, t) \<Rightarrow>
                        if res \<noteq> ncclSuccess then Some (res, nPorts, t)
                        else port_loop cf ho mergeNics chosen d h attr ps (nPorts + 1) t)"

fun dev_loop ::
    "ib_config \<Rightarrow> ib_host \<Rightarrow> bool \<Rightarrow> (string \<Rightarrow> int \<Rightarrow> bool) \<Rightarrow> (nat \<times> ibv_device) list \<Rightarrow> ib_tables
       \<Rightarrow> (ncclResult \<times> ib_tables) option" where
  "dev_loop cf ho mergeNics chosen [] t = Some (ncclSuccess, t)"
| "dev_loop cf ho mergeNics chosen ((d, h) # hs) t =
     (if \<not> tb_n t < MAX_IB_DEVS then Some (ncclSuccess, t)
      else if \<not> hc_opens h then dev_loop cf ho mergeNics chosen hs t
      else case hc_attr h of
             None \<Rightarrow> if \<not> hc_closes h then Some (ncclInternalError, t) else dev_loop cf ho mergeNics chosen hs t
           | Some attr \<Rightarrow>
               case port_loop cf ho mergeNics chosen d h attr [1..int (da_phys_port_cnt attr)] 0 t of
                 None \<Rightarrow> None
               | Some (res, nPorts, t) \<Rightarrow>
                   if res \<noteq> ncclSuccess then Some (res, t)
                   else if nPorts = 0 \<and> \<not> hc_closes h then Some (ncclInternalError, t)
                   else dev_loop cf ho mergeNics chosen hs t)"

text \<open>
  \<^verbatim>\<open>build_ib_list\<close>: once with the merging asked for; if the cards then differ in their number of ports, again
  from cleared tables without it.
\<close>

definition mixed_ports :: "ib_tables \<Rightarrow> bool" where
  "mixed_ports t \<longleftrightarrow> (\<exists>d \<in> set [0..<tb_nm t]. gd_ndevs (tb_merged t ! d) \<noteq> gd_ndevs (tb_merged t ! 0))"

definition build_ib_list ::
    "ib_config \<Rightarrow> ib_host \<Rightarrow> (string \<Rightarrow> int \<Rightarrow> bool) \<Rightarrow> ib_tables \<Rightarrow> (ncclResult \<times> ib_tables) option" where
  "build_ib_list cf ho chosen t =
     (let hs = zip [0..<length (ho_devices ho)] (ho_devices ho) in
      case dev_loop cf ho (cf_merge_nics cf) chosen hs t of
        None \<Rightarrow> None
      | Some (res, t) \<Rightarrow>
          if res \<noteq> ncclSuccess then Some (res, t)
          else if cf_merge_nics cf \<and> mixed_ports t
          then dev_loop cf ho False chosen hs
                 (t\<lparr> tb_n := 0, tb_nm := 0, tb_merged := replicate MAX_IB_DEVS zero_merged \<rparr>)
          else Some (ncclSuccess, t))"

section \<open>ncclIbInit\<close>

text \<open>The cards and ports of \<^verbatim>\<open>NCCL_IB_HCA\<close>; the parser can write outside its buffers (\<open>None\<close>).\<close>

definition hca_filter :: "(string \<Rightarrow> string option) \<Rightarrow> (string \<Rightarrow> int \<Rightarrow> bool) option" where
  "hca_filter getenv =
     (let userIbEnv = getenv ''NCCL_IB_HCA'';
          (searchNot, env) = strip_mark CHR ''^'' (case userIbEnv of None \<Rightarrow> [] | Some s \<Rightarrow> s);
          (searchExact, env) = strip_mark CHR ''='' env
      in map_option (\<lambda>userIfs. hca_chosen userIfs searchExact searchNot)
           (parseStringList (map_option (\<lambda>_. env) userIbEnv) MAX_IB_DEVS))"

text \<open>\<open>is_started\<close> is \<^verbatim>\<open>ncclNIbDevs != -1\<close>; the counters are zero then until devices are added.\<close>

record ib_state =
  is_started :: bool
  is_tables :: ib_tables
  is_relaxed :: bool
  is_rank :: int

definition ncclIbRelaxedOrderingCapable :: "ib_config \<Rightarrow> bool" where
  "ncclIbRelaxedOrderingCapable cf =
     (let roMode = cf_relaxed_ordering cf in
      if roMode = 1 \<or> roMode = 2 then (if \<not> cf_ro_flag cf then False else True) else False)"

definition rank_from_env :: "(string \<Rightarrow> string option) \<Rightarrow> int \<Rightarrow> int" where
  "rank_from_env getenv rank =
     (if rank < 0
      then case getenv ''RANK'' of
             Some (c # cs) \<Rightarrow> atoi (c # cs)
           | _ \<Rightarrow> (case getenv ''OMPI_COMM_WORLD_RANK'' of Some (c # cs) \<Rightarrow> atoi (c # cs) | _ \<Rightarrow> rank)
      else rank)"

text \<open>
  \<open>ifs\<close> is what the search for an IP interface found (\<open>None\<close>: it wrote outside a buffer). The
  log lines are not modelled.
\<close>

definition ncclIbInit ::
    "ib_config \<Rightarrow> ib_host \<Rightarrow> (string \<Rightarrow> string option) \<Rightarrow> (string \<times> ncclSocketAddress) list option \<Rightarrow> ib_state
       \<Rightarrow> (ncclResult \<times> ib_state) option" where
  "ncclIbInit cf ho getenv ifs st =
     (if cf_disable cf then Some (ncclInternalError, st)
      else if is_started st then Some (ncclSuccess, st)
      else case ifs of
        None \<Rightarrow> None
      | Some found \<Rightarrow>
          let st = st\<lparr> is_started := True \<rparr> in
          if length found \<noteq> 1 then Some (ncclInternalError, st)
          else case hca_filter getenv of
                 None \<Rightarrow> None
               | Some chosen \<Rightarrow>
                   case build_ib_list cf ho chosen (is_tables st) of
                     None \<Rightarrow> None
                   | Some (res, t) \<Rightarrow>
                       let st = st\<lparr> is_tables := t \<rparr> in
                       if res \<noteq> ncclSuccess then Some (res, st)
                       else Some (ncclSuccess,
                              st\<lparr> is_relaxed := (if tb_n t = 0 then is_relaxed st else ncclIbRelaxedOrderingCapable cf),
                                  is_rank := rank_from_env getenv (is_rank st) \<rparr>))"

definition ncclIbDevices :: "ib_state \<Rightarrow> ncclResult \<times> int" where
  "ncclIbDevices st = (ncclSuccess, if is_started st then int (tb_nm (is_tables st)) else -1)"

text \<open>Before the first call: nothing started, the tables zero.\<close>

definition ib_fresh :: ib_state where
  "ib_fresh = \<lparr> is_started = False,
     is_tables = \<lparr> tb_devs = replicate MAX_IB_DEVS zero_dev, tb_n = 0, tb_merged = replicate MAX_IB_DEVS zero_merged, tb_nm = 0 \<rparr>,
     is_relaxed = False, is_rank = -1 \<rparr>"

section \<open>The invariant of the tables\<close>

definition group :: "ib_tables \<Rightarrow> nat \<Rightarrow> nat list" where
  "group t i = take (gd_ndevs (tb_merged t ! i)) (gd_devs (tb_merged t ! i))"

definition alike :: "ncclIbDev \<Rightarrow> ncclIbDev \<Rightarrow> bool" where
  "alike a b \<longleftrightarrow> dv_pciPath a = dv_pciPath b \<and> dv_guid a = dv_guid b \<and> dv_link a = dv_link b"

text \<open>Each merged device has one or two members, on the same card, and the sum of their speeds.\<close>

definition merged_ok :: "ib_tables \<Rightarrow> nat \<Rightarrow> bool" where
  "merged_ok t i \<longleftrightarrow> (gd_ndevs (tb_merged t ! i) = 1 \<or> gd_ndevs (tb_merged t ! i) = 2) \<and>
     length (gd_devs (tb_merged t ! i)) = 2 \<and> distinct (group t i) \<and>
     gd_speed (tb_merged t ! i) = sum_list (map (\<lambda>d. dv_speed (tb_devs t ! d)) (group t i)) \<and>
     (\<forall>d \<in> set (group t i). d < tb_n t \<and> alike (tb_devs t ! d) (tb_devs t ! (group t i ! 0)))"

definition tables_inv :: "bool \<Rightarrow> ib_tables \<Rightarrow> bool" where
  "tables_inv mergeNics t \<longleftrightarrow>
     length (tb_devs t) = MAX_IB_DEVS \<and> length (tb_merged t) = MAX_IB_DEVS \<and> tb_n t \<le> MAX_IB_DEVS \<and> tb_nm t \<le> tb_n t \<and>
     (\<forall>d < tb_n t. 100000 \<le> dv_speed (tb_devs t ! d)) \<and>
     (\<forall>i < tb_nm t. merged_ok t i) \<and>
     (\<forall>d < tb_n t. \<exists>i < tb_nm t. d \<in> set (group t i)) \<and>
     (\<forall>i < tb_nm t. \<forall>j < tb_nm t. \<forall>d. d \<in> set (group t i) \<longrightarrow> d \<in> set (group t j) \<longrightarrow> i = j) \<and>
     (\<forall>i < MAX_IB_DEVS. tb_nm t \<le> i \<longrightarrow> gd_speed (tb_merged t ! i) = 0 \<and> length (gd_devs (tb_merged t ! i)) = 2) \<and>
     (\<not> mergeNics \<longrightarrow> (\<forall>i < tb_nm t. gd_ndevs (tb_merged t ! i) = 1))"

lemma tables_invD:
  assumes "tables_inv mergeNics t"
  shows "length (tb_devs t) = MAX_IB_DEVS" "length (tb_merged t) = MAX_IB_DEVS" "tb_n t \<le> MAX_IB_DEVS" "tb_nm t \<le> tb_n t"
    "d < tb_n t \<Longrightarrow> 100000 \<le> dv_speed (tb_devs t ! d)"
    "i < tb_nm t \<Longrightarrow> merged_ok t i"
    "d < tb_n t \<Longrightarrow> \<exists>i < tb_nm t. d \<in> set (group t i)"
    "i < tb_nm t \<Longrightarrow> j < tb_nm t \<Longrightarrow> d \<in> set (group t i) \<Longrightarrow> d \<in> set (group t j) \<Longrightarrow> i = j"
    "i < MAX_IB_DEVS \<Longrightarrow> tb_nm t \<le> i \<Longrightarrow> gd_speed (tb_merged t ! i) = 0 \<and> length (gd_devs (tb_merged t ! i)) = 2"
    "\<not> mergeNics \<Longrightarrow> i < tb_nm t \<Longrightarrow> gd_ndevs (tb_merged t ! i) = 1"
  using assms unfolding tables_inv_def by blast+

lemma find_matching_Some:
  "find_matching t dev is = Some m \<Longrightarrow> m = tb_nm t \<or>
     (m \<in> set is \<and> gd_ndevs (tb_merged t ! m) < 2 \<and>
      same_card (tb_devs t ! dev) (tb_devs t ! (gd_devs (tb_merged t ! m) ! 0)) = Some True)"
  by (induction "is") (auto split: if_splits option.splits bool.splits)

lemma same_card_alike: "same_card a b = Some True \<Longrightarrow> alike a b"
  by (auto simp: same_card_def alike_def split: option.splits)

text \<open>What \<open>merge_dev\<close> does: a new merged device, or a second member.\<close>

lemma merge_dev_cases:
  assumes run: "merge_dev mergeNics t = Some t'" and len: "length (tb_merged t) = MAX_IB_DEVS"
  obtains (new) g where "tb_nm t < MAX_IB_DEVS" "tb_devs t' = tb_devs t" "tb_n t' = tb_n t + 1" "tb_nm t' = tb_nm t + 1"
      "tb_merged t' = (tb_merged t)[tb_nm t := g]" "gd_ndevs g = 1"
      "gd_devs g = (gd_devs (tb_merged t ! tb_nm t))[0 := tb_n t]"
      "gd_speed g = gd_speed (tb_merged t ! tb_nm t) + dv_speed (tb_devs t ! tb_n t)"
  | (second) m g where "mergeNics" "m < tb_nm t" "m < MAX_IB_DEVS" "gd_ndevs (tb_merged t ! m) < 2"
      "alike (tb_devs t ! tb_n t) (tb_devs t ! (gd_devs (tb_merged t ! m) ! 0))"
      "tb_devs t' = tb_devs t" "tb_n t' = tb_n t + 1" "tb_nm t' = tb_nm t"
      "tb_merged t' = (tb_merged t)[m := g]" "gd_ndevs g = gd_ndevs (tb_merged t ! m) + 1"
      "gd_devs g = (gd_devs (tb_merged t ! m))[gd_ndevs (tb_merged t ! m) := tb_n t]"
      "gd_speed g = gd_speed (tb_merged t ! m) + dv_speed (tb_devs t ! tb_n t)"
proof -
  obtain m where m: "(if mergeNics then ncclIbFindMatchingDev t (tb_n t) else Some (tb_nm t)) = Some m" "m < MAX_IB_DEVS"
    using run by (auto simp: merge_dev_def Let_def split: option.splits if_splits)
  let ?g = "tb_merged t ! m" and ?d = "tb_devs t ! tb_n t"
  note run' = run [unfolded merge_dev_def Let_def m(1) option.case]
  show thesis
  proof (cases "m = tb_nm t")
    case True
    let ?g' = "?g\<lparr> gd_ndevs := 1, gd_devs := (gd_devs ?g)[0 := tb_n t], gd_devName := take MAXNAMESIZE (dv_devName ?d),
        gd_speed := gd_speed ?g + dv_speed ?d \<rparr>"
    have "t' = t\<lparr> tb_nm := tb_nm t + 1, tb_merged := (tb_merged t)[m := ?g'], tb_n := tb_n t + 1 \<rparr>"
      using run' m(2) True len by simp
    then show thesis using new [of ?g'] m(2) True by simp
  next
    case False
    have f: "mergeNics" "m < tb_nm t" "gd_ndevs ?g < 2" "alike ?d (tb_devs t ! (gd_devs ?g ! 0))"
      using m False find_matching_Some [of t "tb_n t" "[0..<tb_nm t]" m]
      by (auto simp: ncclIbFindMatchingDev_def same_card_alike split: if_splits)
    let ?g' = "?g\<lparr> gd_ndevs := gd_ndevs ?g + 1, gd_devs := (gd_devs ?g)[gd_ndevs ?g := tb_n t],
        gd_devName := gd_devName ?g @ take MAXNAMESIZE (''+'' @ dv_devName ?d), gd_speed := gd_speed ?g + dv_speed ?d \<rparr>"
    have "t' = t\<lparr> tb_merged := (tb_merged t)[m := ?g'], tb_n := tb_n t + 1 \<rparr>"
      using run' m(2) False len by simp
    then show thesis using second [of m ?g'] m(2) f by simp
  qed
qed

lemma take_update_snoc: "k < length xs \<Longrightarrow> take (Suc k) (xs[k := x]) = take k xs @ [x]"
  by (simp add: take_Suc_conv_app_nth)

text \<open>One more device in a group keeps the invariant.\<close>

lemma merge_dev_inv:
  assumes inv: "tables_inv mergeNics t" and n: "tb_n t < MAX_IB_DEVS" and sp: "100000 \<le> dv_speed (tb_devs t ! tb_n t)"
    and run: "merge_dev mergeNics t = Some t'"
  shows "tables_inv mergeNics t' \<and> tb_n t' = tb_n t + 1 \<and> tb_devs t' = tb_devs t"
proof -
  note I = tables_invD [OF inv]
  let ?n = "tb_n t"
  have fresh: "?n \<notin> set (group t i)" if "i < tb_nm t" for i using I(6) [OF that] by (auto simp: merged_ok_def)
  obtain m g where m: "m \<le> tb_nm t" "m < MAX_IB_DEVS" and t': "tb_devs t' = tb_devs t" "tb_n t' = ?n + 1"
      "tb_nm t' = max (tb_nm t) (m + 1)" "tb_merged t' = (tb_merged t)[m := g]"
    and g: "gd_ndevs g = 1 \<or> gd_ndevs g = 2" "length (gd_devs g) = 2" "\<not> mergeNics \<longrightarrow> gd_ndevs g = 1"
      "take (gd_ndevs g) (gd_devs g) = (if m < tb_nm t then group t m else []) @ [?n]"
      "gd_speed g = (if m < tb_nm t then gd_speed (tb_merged t ! m) else 0) + dv_speed (tb_devs t ! ?n)"
      "m < tb_nm t \<longrightarrow> alike (tb_devs t ! ?n) (tb_devs t ! (group t m ! 0))"
  proof (cases rule: merge_dev_cases [OF run I(2), case_names new second])
    case (new g)
    have z: "gd_speed (tb_merged t ! tb_nm t) = 0" "length (gd_devs (tb_merged t ! tb_nm t)) = 2"
      using I(9) [of "tb_nm t"] new(1) by simp_all
    show thesis
    proof (rule that [of "tb_nm t" g])
      show "take (gd_ndevs g) (gd_devs g) = (if tb_nm t < tb_nm t then group t (tb_nm t) else []) @ [?n]"
        using new(6,7) z(2) take_update_snoc [of 0 "gd_devs (tb_merged t ! tb_nm t)"] by simp
    qed (use new z in simp_all)
  next
    case (second m g)
    have ok: "merged_ok t m" using I(6) second(2) by blast
    then have one: "gd_ndevs (tb_merged t ! m) = 1" "length (gd_devs (tb_merged t ! m)) = 2"
      using second(4) by (auto simp: merged_ok_def)
    have grp: "group t m = [gd_devs (tb_merged t ! m) ! 0]"
      using one by (cases "gd_devs (tb_merged t ! m)") (simp_all add: group_def)
    show thesis
    proof (rule that [of m g])
      show "take (gd_ndevs g) (gd_devs g) = (if m < tb_nm t then group t m else []) @ [?n]"
        using second(10,11) one second(2) take_update_snoc [of 1 "gd_devs (tb_merged t ! m)"] by (simp add: group_def)
    qed (use second one grp in simp_all)
  qed
  have len: "m < length (tb_merged t)" using m(2) I(2) by simp
  have grp: "group t' i = (if i = m then (if m < tb_nm t then group t m else []) @ [?n] else group t i)" for i
    using g(4) len by (simp add: group_def t'(4) nth_list_update)
  have mem: "d \<in> set (group t' i) \<longleftrightarrow> i = m \<and> d = ?n \<or> i < tb_nm t \<and> d \<in> set (group t i)" if "i < tb_nm t'" for d i
    using that m(1) by (auto simp: grp t'(3) max_def split: if_splits)
  have mg: "tb_merged t' ! i = (if i = m then g else tb_merged t ! i)" for i using len by (simp add: t'(4) nth_list_update)
  have ok: "merged_ok t' i" if i: "i < tb_nm t'" for i
  proof (cases "i = m")
    case False
    then have "i < tb_nm t" using i m(1) by (auto simp: t'(3) max_def split: if_splits)
    from I(6) [OF this] False show ?thesis by (auto simp: merged_ok_def grp mg t'(1,2))
  next
    case True
    show ?thesis
    proof (cases "m < tb_nm t")
      case False
      then show ?thesis using True g by (simp add: merged_ok_def grp mg t'(1,2) alike_def)
    next
      case mt: True
      have o: "merged_ok t m" using I(6) [OF mt] .
      have "group t m \<noteq> []" using o by (auto simp: merged_ok_def group_def)
      then have hd: "(group t m @ [?n]) ! 0 = group t m ! 0" by (simp add: nth_append)
      show ?thesis using True mt g o fresh [OF mt] hd unfolding merged_ok_def
        by (auto simp: grp mg t'(1,2))
    qed
  qed
  have cover: "\<exists>i < tb_nm t'. d \<in> set (group t' i)" if "d < tb_n t'" for d
  proof (cases "d = ?n")
    case True
    have "m < tb_nm t'" by (simp add: t'(3))
    with mem [OF this] True show ?thesis by blast
  next
    case False
    then obtain i where i: "i < tb_nm t" "d \<in> set (group t i)" using I(7) [of d] \<open>d < tb_n t'\<close> t'(2) by auto
    then have "i < tb_nm t'" by (simp add: t'(3))
    with mem [OF this] i show ?thesis by blast
  qed
  have uniq: "i = j" if "i < tb_nm t'" "j < tb_nm t'" "d \<in> set (group t' i)" "d \<in> set (group t' j)" for i j d
    using that(3,4) mem [OF that(1)] mem [OF that(2)] fresh I(8) by metis
  have rest: "gd_speed (tb_merged t' ! i) = 0 \<and> length (gd_devs (tb_merged t' ! i)) = 2" if "i < MAX_IB_DEVS" "tb_nm t' \<le> i" for i
    using that I(9) [of i] by (simp add: mg t'(3))
  have single: "gd_ndevs (tb_merged t' ! i) = 1" if "\<not> mergeNics" "i < tb_nm t'" for i
    using that I(10) [of i] g(3) m(1) by (auto simp: mg t'(3) max_def split: if_splits)
  have speeds: "100000 \<le> dv_speed (tb_devs t' ! d)" if "d < tb_n t'" for d
    using that I(5) sp by (auto simp: t'(1,2) less_Suc_eq)
  have "tb_nm t' \<le> tb_n t'" using m(1) I(4) by (simp add: t'(2,3))
  then have "tables_inv mergeNics t'" unfolding tables_inv_def using I(1,2) n ok cover uniq rest single speeds
    by (simp add: t'(1,2,4))
  then show ?thesis using t' by simp
qed

section \<open>The invariant through the loops\<close>

lemma tables_inv_write:
  assumes "tables_inv mergeNics t"
  shows "tables_inv mergeNics (t\<lparr> tb_devs := (tb_devs t)[tb_n t := dev] \<rparr>)"
proof -
  let ?t = "t\<lparr> tb_devs := (tb_devs t)[tb_n t := dev] \<rparr>"
  note I = tables_invD [OF assms]
  have g: "group ?t = group t" by (simp add: group_def fun_eq_iff)
  have keep: "d < tb_n t \<Longrightarrow> tb_devs ?t ! d = tb_devs t ! d" for d by simp
  have "merged_ok ?t i" if "i < tb_nm t" for i
  proof -
    note o = I(6) [OF that, unfolded merged_ok_def]
    have b: "\<forall>d \<in> set (group t i). d < tb_n t" using o by blast
    have ne: "group t i \<noteq> []" using o by (auto simp: group_def)
    then have z: "group t i ! 0 < tb_n t" using b by (metis length_greater_0_conv nth_mem)
    have 1: "map (\<lambda>d. dv_speed (tb_devs ?t ! d)) (group t i) = map (\<lambda>d. dv_speed (tb_devs t ! d)) (group t i)"
      using b keep by (intro map_cong) auto
    have 2: "\<forall>d \<in> set (group t i). d < tb_n ?t \<and> alike (tb_devs ?t ! d) (tb_devs ?t ! (group t i ! 0))"
      using o b z keep by auto
    have 3: "tb_merged ?t = tb_merged t" by simp
    show ?thesis unfolding merged_ok_def g 1 3 using o 2 by blast
  qed
  moreover have "\<forall>d < tb_n t. 100000 \<le> dv_speed (tb_devs ?t ! d)" using I(5) keep by simp
  ultimately show ?thesis unfolding tables_inv_def g using I by simp
qed

lemma add_port_inv:
  assumes inv: "tables_inv mergeNics t" and ok: "port_usable pa"
    and run: "add_port cf ho mergeNics d h attr port pa t = Some (res, t')"
  shows "tables_inv mergeNics t' \<and> (if res = ncclSuccess then tb_n t' = tb_n t + 1 else \<not> ho_thread ho (tb_n t))"
proof -
  let ?n = "tb_n t"
  have n: "?n < MAX_IB_DEVS" using run by (auto simp: add_port_def Let_def split: if_splits)
  obtain path rp where path: "ncclIbGetPciPath (cf_merge_vfs cf) (ho_realpath ho) (take ?n (tb_devs t))
      (take MAXNAMESIZE (hc_name h)) (dv_realPort (tb_devs t ! ?n)) = Some (path, rp)"
    using run n by (auto simp: add_port_def Let_def split: option.splits)
  obtain dev where dev: "dv_speed dev = port_speed pa" and r: "(if \<not> ho_thread ho ?n
      then Some (ncclSystemError, t\<lparr> tb_devs := (tb_devs t)[?n := dev] \<rparr>)
      else map_option (Pair ncclSuccess) (merge_dev mergeNics (t\<lparr> tb_devs := (tb_devs t)[?n := dev] \<rparr>))) = Some (res, t')"
    using run n path unfolding add_port_def Let_def
    by (simp only: not_le [symmetric] if_False option.case prod.case) (metis ncclIbDev.select_convs(6))
  let ?t = "t\<lparr> tb_devs := (tb_devs t)[?n := dev] \<rparr>"
  have inv': "tables_inv mergeNics ?t" by (rule tables_inv_write [OF inv])
  have sp: "100000 \<le> dv_speed (tb_devs ?t ! tb_n ?t)"
    using ok dev n tables_invD(1) [OF inv] by (simp add: port_usable_def split: if_splits)
  show ?thesis using r inv' merge_dev_inv [OF inv' _ sp, of t'] n by (auto split: if_splits)
qed

lemma port_loop_inv:
  "port_loop cf ho mergeNics chosen d h attr ps nPorts t = Some (res, k, t') \<Longrightarrow> tables_inv mergeNics t \<Longrightarrow> tables_inv mergeNics t'"
proof (induction ps arbitrary: nPorts t)
  case Nil
  then show ?case by simp
next
  case (Cons p ps)
  show ?case
  proof (cases "chosen (hc_name h) p \<and> (\<exists>pa. hc_port h p = Some pa \<and> port_usable pa)")
    case False
    then show ?thesis using Cons by (auto split: if_splits option.splits)
  next
    case True
    then obtain pa where pa: "chosen (hc_name h) p" "hc_port h p = Some pa" "port_usable pa" by blast
    then obtain r t1 where a: "add_port cf ho mergeNics d h attr p pa t = Some (r, t1)"
      using Cons.prems(1) by (auto split: option.splits)
    have "tables_inv mergeNics t1" using add_port_inv [OF Cons.prems(2) pa(3) a] by simp
    then show ?thesis using Cons.IH [of _ t1] Cons.prems(1) pa a by (auto split: if_splits)
  qed
qed

lemma dev_loop_inv:
  "dev_loop cf ho mergeNics chosen hs t = Some (res, t') \<Longrightarrow> tables_inv mergeNics t \<Longrightarrow> tables_inv mergeNics t'"
proof (induction cf ho mergeNics chosen hs t rule: dev_loop.induct)
  case (1 cf ho mergeNics chosen t)
  then show ?case by simp
next
  case (2 cf ho mergeNics chosen d h hs t)
  show ?case
  proof (cases "tb_n t < MAX_IB_DEVS \<and> hc_opens h")
    case False
    then show ?thesis using 2 by (auto split: if_splits)
  next
    case go: True
    show ?thesis
    proof (cases "hc_attr h")
      case None
      then show ?thesis using 2 go by (auto split: if_splits)
    next
      case (Some attr)
      then obtain r k t1 where p: "port_loop cf ho mergeNics chosen d h attr [1..int (da_phys_port_cnt attr)] 0 t = Some (r, k, t1)"
        using "2.prems"(1) go by (auto split: option.splits)
      then have "tables_inv mergeNics t1" using port_loop_inv "2.prems"(2) by blast
      then show ?thesis using "2.IH"(3) [of attr "(r, k, t1)" r "(k, t1)" k t1] "2.prems"(1) go Some p by (auto split: if_splits)
    qed
  qed
qed

lemma tables_inv_cleared:
  "length (tb_devs t) = MAX_IB_DEVS \<Longrightarrow> tb_n t = 0 \<Longrightarrow> tb_nm t = 0 \<Longrightarrow> tb_merged t = replicate MAX_IB_DEVS zero_merged \<Longrightarrow>
   tables_inv mergeNics t"
  by (simp add: tables_inv_def zero_merged_def)

text \<open>All merged devices have as many members as the first.\<close>

definition uniform :: "ib_tables \<Rightarrow> bool" where
  "uniform t \<longleftrightarrow> (\<forall>i < tb_nm t. length (group t i) = length (group t 0))"

lemma group_length: "merged_ok t i \<Longrightarrow> length (group t i) = gd_ndevs (tb_merged t ! i)"
  by (auto simp: merged_ok_def group_def)

lemma build_inv:
  assumes "build_ib_list cf ho chosen t = Some (res, t')" "\<And>m. tables_inv m t"
  shows "\<exists>m. tables_inv m t' \<and> (res = ncclSuccess \<longrightarrow> uniform t')"
proof -
  let ?hs = "zip [0..<length (ho_devices ho)] (ho_devices ho)"
  have uni: "uniform s" if "tables_inv m s" "\<forall>i < tb_nm s. gd_ndevs (tb_merged s ! i) = gd_ndevs (tb_merged s ! 0)" for m s
    unfolding uniform_def
  proof (intro allI impI)
    fix i assume i: "i < tb_nm s"
    then have "merged_ok s i" "merged_ok s 0" using tables_invD(6) [OF that(1)] by auto
    then show "length (group s i) = length (group s 0)" using that(2) i group_length by metis
  qed
  obtain r1 t1 where d: "dev_loop cf ho (cf_merge_nics cf) chosen ?hs t = Some (r1, t1)"
    using assms(1) by (auto simp: build_ib_list_def Let_def split: option.splits)
  have inv1: "tables_inv (cf_merge_nics cf) t1" by (rule dev_loop_inv [OF d assms(2)])
  show ?thesis
  proof (cases "r1 = ncclSuccess \<and> cf_merge_nics cf \<and> mixed_ports t1")
    case True
    let ?c = "t1\<lparr> tb_n := 0, tb_nm := 0, tb_merged := replicate MAX_IB_DEVS zero_merged \<rparr>"
    have d2: "dev_loop cf ho False chosen ?hs ?c = Some (res, t')"
      using assms(1) d True by (simp add: build_ib_list_def Let_def)
    have "tables_inv False ?c" by (rule tables_inv_cleared) (use tables_invD(1) [OF inv1] in simp_all)
    then have i: "tables_inv False t'" by (rule dev_loop_inv [OF d2])
    then have "\<forall>i < tb_nm t'. gd_ndevs (tb_merged t' ! i) = gd_ndevs (tb_merged t' ! 0)"
      using tables_invD(10) [OF i] by (metis gr_zeroI not_less_zero)
    then show ?thesis using i uni by blast
  next
    case False
    then have r: "res = r1" "t' = t1"
      using assms(1) d by (auto simp: build_ib_list_def Let_def split: if_splits)
    show ?thesis
    proof (cases "cf_merge_nics cf")
      case True
      have "\<forall>i < tb_nm t1. gd_ndevs (tb_merged t1 ! i) = gd_ndevs (tb_merged t1 ! 0)" if "\<not> mixed_ports t1"
        using that unfolding mixed_ports_def by (metis atLeast0LessThan lessThan_iff set_upt)
      then have "res = ncclSuccess \<longrightarrow> uniform t'" using False True r uni [OF inv1] by blast
      then show ?thesis using inv1 r by blast
    next
      case no: False
      have "\<forall>i < tb_nm t1. gd_ndevs (tb_merged t1 ! i) = gd_ndevs (tb_merged t1 ! 0)"
        using tables_invD(10) [OF inv1 no] by (metis gr_zeroI not_less_zero)
      then show ?thesis using inv1 r uni by blast
    qed
  qed
qed

lemma init_new:
  assumes "\<not> cf_disable cf" "\<not> is_started st" "ifs = Some found" "length found = 1" "hca_filter getenv = Some chosen"
  shows "ncclIbInit cf ho getenv ifs st =
    (case build_ib_list cf ho chosen (is_tables st) of
       None \<Rightarrow> None
     | Some (res, t) \<Rightarrow>
         let st = st\<lparr> is_started := True, is_tables := t \<rparr> in
         if res \<noteq> ncclSuccess then Some (res, st)
         else Some (ncclSuccess,
                st\<lparr> is_relaxed := (if tb_n t = 0 then is_relaxed st else ncclIbRelaxedOrderingCapable cf),
                    is_rank := rank_from_env getenv (is_rank st) \<rparr>))"
  unfolding ncclIbInit_def assms(3,5) option.case Let_def
  using assms(1,2,4) by (simp cong: option.case_cong)

lemma init_cases:
  assumes "ncclIbInit cf ho getenv ifs st = Some (res, st')"
  obtains (kept) "is_tables st' = is_tables st" "res = ncclSuccess \<Longrightarrow> is_started st"
  | (built) chosen t where "build_ib_list cf ho chosen (is_tables st) = Some (res, t)" "is_tables st' = t" "is_started st'"
proof (cases "cf_disable cf \<or> is_started st")
  case True
  then show thesis using kept assms unfolding ncclIbInit_def by (cases "cf_disable cf") simp_all
next
  case go: False
  then obtain found where f: "ifs = Some found" using assms unfolding ncclIbInit_def by (cases ifs) simp_all
  show thesis
  proof (cases "length found = 1")
    case False
    then have "st' = st\<lparr> is_started := True \<rparr> \<and> res = ncclInternalError"
      using assms go unfolding ncclIbInit_def f Let_def by simp
    then show thesis using kept by simp
  next
    case one: True
    then obtain chosen where c: "hca_filter getenv = Some chosen"
      using assms go unfolding ncclIbInit_def f Let_def by (cases "hca_filter getenv") simp_all
    have run: "(case build_ib_list cf ho chosen (is_tables st) of
       None \<Rightarrow> None
     | Some (res, t) \<Rightarrow>
         let st = st\<lparr> is_started := True, is_tables := t \<rparr> in
         if res \<noteq> ncclSuccess then Some (res, st)
         else Some (ncclSuccess,
                st\<lparr> is_relaxed := (if tb_n t = 0 then is_relaxed st else ncclIbRelaxedOrderingCapable cf),
                    is_rank := rank_from_env getenv (is_rank st) \<rparr>)) = Some (res, st')"
      using assms init_new [OF _ _ f one c] go by simp
    then obtain r t where b: "build_ib_list cf ho chosen (is_tables st) = Some (r, t)"
      by (cases "build_ib_list cf ho chosen (is_tables st)") auto
    show thesis
    proof (cases "r = ncclSuccess")
      case True
      then show thesis using built [of chosen t] run b by (auto simp: Let_def)
    next
      case False
      then show thesis using built [of chosen t] run b by (auto simp: Let_def)
    qed
  qed
qed

lemma init_tables:
  assumes "ncclIbInit cf ho getenv ifs ib_fresh = Some (res, st)"
  shows "\<exists>m. tables_inv m (is_tables st) \<and> (res = ncclSuccess \<longrightarrow> uniform (is_tables st))"
proof -
  have fresh: "tables_inv m (is_tables ib_fresh)" for m by (rule tables_inv_cleared) (simp_all add: ib_fresh_def)
  show ?thesis using assms
  proof (cases rule: init_cases)
    case kept
    then show ?thesis using fresh by (simp add: uniform_def ib_fresh_def)
  next
    case (built chosen t)
    then show ?thesis using build_inv [OF built(1) fresh] by simp
  qed
qed

section \<open>Properties\<close>

text \<open>
  C20: a successful discovery: every device found has a speed of at least 100 Gb/s and belongs to exactly one
  merged device; a merged device has one member or two, all have equally many, its members are on the same
  card (the same path, GUID and link layer), and its speed is the sum of theirs.
\<close>
theorem ncclIbInit_merges:
  assumes "ncclIbInit cf ho getenv ifs ib_fresh = Some (ncclSuccess, st)"
  defines "t \<equiv> is_tables st"
  shows "(\<forall>d \<in> {..<tb_n t}. 100000 \<le> dv_speed (tb_devs t ! d) \<and> (\<exists>!i. i < tb_nm t \<and> d \<in> set (group t i))) \<and>
    (\<forall>i \<in> {..<tb_nm t}. length (group t i) \<in> {1, 2} \<and> length (group t i) = length (group t 0) \<and> distinct (group t i) \<and>
       gd_speed (tb_merged t ! i) = sum_list (map (\<lambda>d. dv_speed (tb_devs t ! d)) (group t i)) \<and>
       (\<forall>d \<in> set (group t i). d < tb_n t \<and> alike (tb_devs t ! d) (tb_devs t ! (group t i ! 0))))"
proof -
  obtain m where inv: "tables_inv m t" and uni: "uniform t" using init_tables [OF assms(1)] t_def by auto
  note I = tables_invD [OF inv]
  have "\<exists>!i. i < tb_nm t \<and> d \<in> set (group t i)" if "d < tb_n t" for d using I(7) [OF that] I(8) by blast
  moreover have "length (group t i) \<in> {1, 2} \<and> length (group t i) = length (group t 0) \<and> distinct (group t i) \<and>
       gd_speed (tb_merged t ! i) = sum_list (map (\<lambda>d. dv_speed (tb_devs t ! d)) (group t i)) \<and>
       (\<forall>d \<in> set (group t i). d < tb_n t \<and> alike (tb_devs t ! d) (tb_devs t ! (group t i ! 0)))" if "i < tb_nm t" for i
  proof -
    have "length (group t i) = length (group t 0)" using uni that unfolding uniform_def by blast
    moreover have "length (group t i) \<in> {1, 2}" using I(6) [OF that] group_length [OF I(6) [OF that]] by (simp add: merged_ok_def)
    ultimately show ?thesis using I(6) [OF that] unfolding merged_ok_def by blast
  qed
  ultimately show ?thesis using I(5) by blast
qed

text \<open>The ports of a card that the search takes.\<close>

definition usable_ports :: "(string \<Rightarrow> int \<Rightarrow> bool) \<Rightarrow> ibv_device \<Rightarrow> int list \<Rightarrow> int list" where
  "usable_ports chosen h ps =
     filter (\<lambda>p. chosen (hc_name h) p \<and> (case hc_port h p of None \<Rightarrow> False | Some pa \<Rightarrow> port_usable pa)) ps"

lemma add_port_next:
  assumes "add_port cf ho mergeNics d h attr port pa t = Some (res, t')" "ho_thread ho (tb_n t)"
  shows "res = ncclSuccess \<and> tb_n t' = tb_n t + 1 \<and> tb_n t < MAX_IB_DEVS"
proof -
  have n: "\<And>s s'. merge_dev mergeNics s = Some s' \<Longrightarrow> tb_n s' = tb_n s + 1"
    by (auto simp: merge_dev_def Let_def split: option.splits if_splits)
  show ?thesis using assms by (auto simp: add_port_def Let_def split: option.splits if_splits dest!: n)
qed

lemma port_loop_overflow:
  "\<forall>n. ho_thread ho n \<Longrightarrow> tb_n t \<le> MAX_IB_DEVS \<Longrightarrow> MAX_IB_DEVS < tb_n t + length (usable_ports chosen h ps) \<Longrightarrow>
   port_loop cf ho mergeNics chosen d h attr ps nPorts t = None"
proof (induction ps arbitrary: nPorts t)
  case Nil
  then show ?case by (simp add: usable_ports_def)
next
  case (Cons p ps)
  show ?case
  proof (cases "chosen (hc_name h) p \<and> (case hc_port h p of None \<Rightarrow> False | Some pa \<Rightarrow> port_usable pa)")
    case False
    then have "usable_ports chosen h (p # ps) = usable_ports chosen h ps" by (simp add: usable_ports_def)
    then show ?thesis using False Cons.IH [OF Cons.prems(1,2)] Cons.prems(3) by (auto split: option.splits)
  next
    case True
    then obtain pa where pa: "hc_port h p = Some pa" "port_usable pa" "chosen (hc_name h) p" by (auto split: option.splits)
    have len: "length (usable_ports chosen h (p # ps)) = Suc (length (usable_ports chosen h ps))"
      using True by (simp add: usable_ports_def)
    show ?thesis
    proof (cases "add_port cf ho mergeNics d h attr p pa t")
      case None
      then show ?thesis using pa by simp
    next
      case (Some r)
      then obtain t1 where "r = (ncclSuccess, t1)" "tb_n t1 = tb_n t + 1" "tb_n t < MAX_IB_DEVS"
        using add_port_next [of cf ho mergeNics d h attr p pa t] Cons.prems(1) by (cases r) auto
      then show ?thesis using pa Some Cons.IH [OF Cons.prems(1), of t1] Cons.prems(3) len by simp
    qed
  qed
qed

text \<open>
  C21: the bound of the device table is tested once per card and not once per port: when the next card
  has more usable ports than there are entries left, the discovery writes behind the table of 32 devices.
\<close>
theorem device_table_overflow:
  assumes "tb_n t < MAX_IB_DEVS" "hc_opens h" "hc_attr h = Some attr" "\<forall>n. ho_thread ho n"
    "MAX_IB_DEVS < tb_n t + length (usable_ports chosen h [1..int (da_phys_port_cnt attr)])"
  shows "dev_loop cf ho mergeNics chosen ((d, h) # hs) t = None"
  using port_loop_overflow [OF assms(4) _ assms(5), of cf mergeNics d attr 0] assms(1-3) by simp

text \<open>
  A first call that fails is forgotten: the counters are no longer -1, so the next call does nothing and reports
  success, with the devices, possibly none, that the failed one had found.
\<close>
theorem failed_init_forgotten:
  assumes "ncclIbInit cf ho getenv ifs st = Some (res, st')" "\<not> cf_disable cf" "\<not> cf_disable cf'"
  shows "ncclIbInit cf' ho' getenv' ifs' st' = Some (ncclSuccess, st') \<and>
    ncclIbDevices st' = (ncclSuccess, int (tb_nm (is_tables st')))"
proof -
  have "is_started st'" using assms(1)
  proof (cases rule: init_cases)
    case kept
    show ?thesis
    proof (cases "is_started st")
      case True
      then show ?thesis using assms(1,2) by (simp add: ncclIbInit_def)
    next
      case False
      then have "res \<noteq> ncclSuccess" using kept by blast
      then show ?thesis using assms(1,2) False unfolding ncclIbInit_def Let_def
        by (auto split: option.splits if_splits)
    qed
  next
    case built
    then show ?thesis by simp
  qed
  then show ?thesis using assms(3) by (simp add: ncclIbInit_def ncclIbDevices_def)
qed

section \<open>A host with one card of two ports\<close>

definition example_port_attr :: ibv_port_attr where
  "example_port_attr = \<lparr> pa_active = True, pa_phys_state = 5, pa_link_layer = IBV_LINK_LAYER_INFINIBAND,
     pa_active_speed = 32, pa_active_width = 2, pa_active_mtu = 5, pa_lid = 1, pa_grh_required = False, pa_gid_tbl_len = 4 \<rparr>"

definition example_card :: ibv_device where
  "example_card = \<lparr> hc_name = ''mlx5_0'', hc_opens = True,
     hc_attr = Some \<lparr> da_phys_port_cnt = 2, da_sys_image_guid = 7, da_max_qp = 1024 \<rparr>,
     hc_port = (\<lambda>p. Some example_port_attr), hc_closes = True \<rparr>"

definition example_host :: ib_host where
  "example_host = \<lparr> ho_devices = [example_card], ho_realpath = (\<lambda>_. Some ''/sys/0000:17:00.1''), ho_thread = (\<lambda>_. True) \<rparr>"

definition example_config :: ib_config where
  "example_config = \<lparr> cf_disable = False, cf_merge_vfs = True, cf_merge_nics = True, cf_adaptive_routing = -2,
     cf_relaxed_ordering = 2, cf_ro_flag = True \<rparr>"

definition example_ifs :: "(string \<times> ncclSocketAddress) list option" where
  "example_ifs = Some [(''eth0'', \<lparr> sa_family = AF_INET, sa_port = 0, sa_addr = [10, 0, 0, 1], sa_scope_id = 0 \<rparr>)]"

definition example_init :: "(ncclResult \<times> ib_state) option" where
  "example_init = ncclIbInit example_config example_host (\<lambda>_. None) example_ifs ib_fresh"

lemma example_init_runs:
  "case example_init of
     None \<Rightarrow> False
   | Some (res, st) \<Rightarrow> res = ncclSuccess \<and> tb_n (is_tables st) = 2 \<and> tb_nm (is_tables st) = 1 \<and>
       gd_speed (tb_merged (is_tables st) ! 0) = 200000 \<and> dv_realPort (tb_devs (is_tables st) ! 1) = 1"
  by code_simp

theorem ncclIbInit_merges_witness:
  "\<exists>st. example_init = Some (ncclSuccess, st) \<and> tb_nm (is_tables st) = 1 \<and> group (is_tables st) 0 \<in> {[0, 1], [1, 0]}"
proof -
  obtain st where st: "example_init = Some (ncclSuccess, st)" "tb_n (is_tables st) = 2" "tb_nm (is_tables st) = 1"
    using example_init_runs by (auto split: option.splits)
  note t = ncclIbInit_merges [OF st(1) [unfolded example_init_def], unfolded st(2,3)]
  have g: "0 \<in> set (group (is_tables st) 0)" "1 \<in> set (group (is_tables st) 0)" "length (group (is_tables st) 0) \<in> {1, 2}"
    using t by (auto simp: numeral_2_eq_2 lessThan_Suc)
  then have "group (is_tables st) 0 \<in> {[0, 1], [1, 0]}"
    by (cases "group (is_tables st) 0"; cases "tl (group (is_tables st) 0)"; cases "tl (tl (group (is_tables st) 0))") auto
  with st show ?thesis by blast
qed

theorem device_table_overflow_witness:
  "dev_loop example_config example_host True (\<lambda>_ _. True) [(0, example_card)] ((is_tables ib_fresh)\<lparr> tb_n := 31 \<rparr>) = None"
proof -
  have "port_usable example_port_attr" by code_simp
  then have "length (usable_ports (\<lambda>_ _. True) example_card [1..2]) = 2"
    by (simp add: usable_ports_def example_card_def upto_rec1)
  then show ?thesis
    by (intro device_table_overflow [of _ _ "\<lparr> da_phys_port_cnt = 2, da_sys_image_guid = 7, da_max_qp = 1024 \<rparr>"])
      (simp_all add: example_card_def example_host_def MAX_IB_DEVS_def)
qed

theorem failed_init_forgotten_witness:
  "\<exists>st. ncclIbInit example_config example_host (\<lambda>_. None) (Some []) ib_fresh = Some (ncclInternalError, st) \<and>
     ncclIbInit example_config example_host (\<lambda>_. None) example_ifs st = Some (ncclSuccess, st) \<and>
     ncclIbDevices st = (ncclSuccess, 0)"
proof -
  have f: "ncclIbInit example_config example_host (\<lambda>_. None) (Some []) ib_fresh = Some (ncclInternalError, ib_fresh\<lparr> is_started := True \<rparr>)"
    by (simp add: ncclIbInit_def example_config_def ib_fresh_def)
  have e: "\<not> cf_disable example_config" by (simp add: example_config_def)
  from failed_init_forgotten [OF f e e, of example_host "\<lambda>_. None" example_ifs] f show ?thesis
    by (auto simp: ib_fresh_def)
qed

end
