(* ===== verification/SocketIO.thy ===== *)
theory SocketIO
  imports SocketAddr
begin

text \<open>
  The blocking and non-blocking transfers over a connected socket (\<^verbatim>\<open>src/unet/socket.cc\<close>):
  \<^verbatim>\<open>socketProgressOpt\<close>, \<^verbatim>\<open>socketProgress\<close>, \<^verbatim>\<open>socketWait\<close> and the calls over them.
  The operating system is the list of what the next system calls return; a call records itself
  and its answer in a log. A computation is undefined (\<open>None\<close>) when the list ends or does not fit
  the call: the answers of a run that is still waiting are used up.
\<close>

section \<open>System calls\<close>

datatype syscall =
    CRecv int nat bool        \<comment> \<open>descriptor, room, blocking\<close>
  | CSend int "u8 list" bool  \<comment> \<open>descriptor, bytes offered, blocking\<close>
  | CAbort                    \<comment> \<open>a load of \<open>*abortFlag\<close>\<close>
  | CSetsockopt int string
  | CAccept int
  | CConnect int
  | CPoll int
  | CGetSoError int
  | CSocket
  | CFcntlGet int
  | CFcntlSet int
  | CBind int
  | CGetsockname int
  | CListen int
  | CClose int
  | CShutdown int

datatype sysret =
    Fail errno                \<comment> \<open>-1 and \<open>errno\<close>\<close>
  | Ok
  | Bytes "u8 list"           \<comment> \<open>what \<open>recv\<close> stored\<close>
  | Sent nat                  \<comment> \<open>how many bytes \<open>send\<close> took\<close>
  | Flag bool
  | Fd nat                    \<comment> \<open>a new descriptor\<close>
  | Peer nat ncclSocketAddress \<comment> \<open>an accepted connection and where it is from\<close>
  | Name ncclSocketAddress
  | Polled nat bool           \<comment> \<open>the value of \<open>poll\<close> and whether \<open>POLLOUT\<close> is set\<close>
  | SoError "errno option"    \<comment> \<open>the pending error of the socket\<close>

record net =
  nt_in :: "sysret list"
  nt_log :: "(syscall \<times> sysret) list"

definition sys :: "syscall \<Rightarrow> net \<Rightarrow> (sysret \<times> net) option" where
  "sys c n =
     (case nt_in n of [] \<Rightarrow> None
      | r # rs \<Rightarrow> Some (r, n\<lparr> nt_in := rs, nt_log := nt_log n @ [(c, r)] \<rparr>))"

text \<open>A call whose value is not looked at: \<^verbatim>\<open>close\<close> and \<^verbatim>\<open>shutdown\<close>.\<close>

definition sys_void :: "syscall \<Rightarrow> net \<Rightarrow> net" where
  "sys_void c n = n\<lparr> nt_log := nt_log n @ [(c, Ok)] \<rparr>"

definition retried :: "errno \<Rightarrow> bool" where
  "retried e \<longleftrightarrow> e = EINTR \<or> e = EWOULDBLOCK \<or> e = EAGAIN"

text \<open>
  \<open>SYSCHECK\<close> repeats a call while it is interrupted or would block; any other failure makes the
  caller return \<open>ncclSystemError\<close>.
\<close>

function syscheck :: "syscall \<Rightarrow> net \<Rightarrow> (sysret \<times> net) option" where
  "syscheck c n =
     (case sys c n of None \<Rightarrow> None
      | Some (r, n') \<Rightarrow> (case r of Fail e \<Rightarrow> if retried e then syscheck c n' else Some (r, n') | _ \<Rightarrow> Some (r, n')))"
  by pat_completeness auto
termination by (relation "measure (\<lambda>(c, n). length (nt_in n))") (auto simp: sys_def split: list.splits)

declare syscheck.simps [simp del]

section \<open>Transfers\<close>

datatype sock_op = NCCL_SOCKET_SEND | NCCL_SOCKET_RECV

text \<open>The part of \<^verbatim>\<open>struct ncclSocket\<close> the transfers use: the descriptor, and whether there is an abort flag.\<close>

record io_sock =
  io_fd :: int
  io_abort :: bool

definition store_bytes :: "u8 list \<Rightarrow> nat \<Rightarrow> u8 list \<Rightarrow> u8 list" where
  "store_bytes bs off buf = take off buf @ bs @ drop (off + length bs) buf"

text \<open>What one system call of the loop did: an error, the end of the stream, or bytes moved.\<close>

datatype moved = MFail | MClosed | MMoved nat "u8 list"

definition transfer :: "sock_op \<Rightarrow> io_sock \<Rightarrow> bool \<Rightarrow> u8 list \<Rightarrow> nat \<Rightarrow> net \<Rightarrow> (moved \<times> net) option" where
  "transfer op sk block buf off n =
     (case sys (case op of NCCL_SOCKET_RECV \<Rightarrow> CRecv (io_fd sk) (length buf - off) block
                         | NCCL_SOCKET_SEND \<Rightarrow> CSend (io_fd sk) (drop off buf) block) n of
        None \<Rightarrow> None
      | Some (r, n) \<Rightarrow>
          (case (op, r) of
             (NCCL_SOCKET_RECV, Bytes bs) \<Rightarrow>
               if length buf - off < length bs then None
               else Some (if bs = [] then MClosed else MMoved (length bs) (store_bytes bs off buf), n)
           | (NCCL_SOCKET_SEND, Sent k) \<Rightarrow> if length buf - off < k then None else Some (MMoved k buf, n)
           | (_, Fail e) \<Rightarrow> Some (if retried e then MMoved 0 buf else MFail, n)
           | _ \<Rightarrow> None))"

definition load_abort :: "io_sock \<Rightarrow> net \<Rightarrow> (bool \<times> net) option" where
  "load_abort sk n =
     (if io_abort sk
      then (case sys CAbort n of Some (Flag b, n') \<Rightarrow> Some (b, n') | _ \<Rightarrow> None)
      else Some (False, n))"

lemma sys_shrinks: "sys c n = Some (r, n') \<Longrightarrow> length (nt_in n') < length (nt_in n)"
  by (auto simp: sys_def split: list.splits)

lemma transfer_shrinks: "transfer op sk block buf off n = Some (m, n') \<Longrightarrow> length (nt_in n') < length (nt_in n)"
  by (auto simp: transfer_def split: option.splits sock_op.splits sysret.splits if_splits dest: sys_shrinks)

lemma load_abort_shrinks: "load_abort sk n = Some (b, n') \<Longrightarrow> length (nt_in n') \<le> length (nt_in n)"
  by (auto simp: load_abort_def split: option.splits sysret.splits if_splits dest: sys_shrinks)

text \<open>The result, whether the peer has closed, the buffer and the offset.\<close>

function socketProgressOpt ::
    "sock_op \<Rightarrow> io_sock \<Rightarrow> bool \<Rightarrow> u8 list \<Rightarrow> nat \<Rightarrow> net \<Rightarrow> (ncclResult \<times> bool \<times> u8 list \<times> nat \<times> net) option" where
  "socketProgressOpt op sk block buf off n =
     (case transfer op sk block buf off n of
        None \<Rightarrow> None
      | Some (MFail, n1) \<Rightarrow> Some (ncclRemoteError, False, buf, off, n1)
      | Some (MClosed, n1) \<Rightarrow> Some (ncclSuccess, True, buf, off, n1)
      | Some (MMoved k buf', n1) \<Rightarrow>
          (case load_abort sk n1 of
             None \<Rightarrow> None
           | Some (aborted, n2) \<Rightarrow>
               if aborted then Some (ncclInternalError, False, buf', off + k, n2)
               else if 0 < k \<and> off + k < length buf' then socketProgressOpt op sk block buf' (off + k) n2
               else Some (ncclSuccess, False, buf', off + k, n2)))"
  by pat_completeness auto
termination
proof (relation "measure (\<lambda>(op, sk, block, buf, off, n). length (nt_in n))", goal_cases)
  case (2 op sk block buf off n a m n1 k buf' b aborted n2)
  then have "transfer op sk block buf off n = Some (MMoved k buf', n1)" "load_abort sk n1 = Some (aborted, n2)" by simp_all
  then show ?case using transfer_shrinks load_abort_shrinks by fastforce
qed simp

declare socketProgressOpt.simps [simp del]

definition socketProgress ::
    "sock_op \<Rightarrow> io_sock \<Rightarrow> u8 list \<Rightarrow> nat \<Rightarrow> net \<Rightarrow> (ncclResult \<times> u8 list \<times> nat \<times> net) option" where
  "socketProgress op sk buf off n =
     (case socketProgressOpt op sk False buf off n of
        None \<Rightarrow> None
      | Some (res, closed, buf, off, n) \<Rightarrow>
          Some (if ncclCheckFails res then res else if closed then ncclRemoteError else ncclSuccess, buf, off, n))"

lemma socketProgressOpt_shrinks:
  "socketProgressOpt op sk block buf off n = Some (res, c, buf', off', n') \<Longrightarrow> length (nt_in n') < length (nt_in n)"
proof (induction op sk block buf off n rule: socketProgressOpt.induct)
  case (1 op sk block buf off n)
  obtain m n1 where t: "transfer op sk block buf off n = Some (m, n1)"
    using 1(2) by (subst (asm) socketProgressOpt.simps) (auto split: option.splits)
  note t' = transfer_shrinks [OF t]
  show ?case
  proof (cases m)
    case (MMoved k b)
    then obtain ab n2 where a: "load_abort sk n1 = Some (ab, n2)"
      using 1(2) t by (subst (asm) socketProgressOpt.simps) (auto split: option.splits)
    note a' = load_abort_shrinks [OF a]
    show ?thesis
    proof (cases "ab \<or> \<not> (0 < k \<and> off + k < length b)")
      case True
      then show ?thesis using 1(2) t a t' a' MMoved by (subst (asm) socketProgressOpt.simps) (auto split: if_splits)
    next
      case False
      then have "socketProgressOpt op sk block b (off + k) n2 = Some (res, c, buf', off', n')"
        using 1(2) t a MMoved by (subst (asm) socketProgressOpt.simps) auto
      with 1(1) [OF t _ MMoved a] False t' a' show ?thesis by fastforce
    qed
  qed (use 1(2) t t' in \<open>subst (asm) socketProgressOpt.simps, auto\<close>)+
qed

lemma socketProgress_shrinks:
  "socketProgress op sk buf off n = Some (res, buf', off', n') \<Longrightarrow> length (nt_in n') < length (nt_in n)"
  by (auto simp: socketProgress_def split: option.splits dest: socketProgressOpt_shrinks)

function socketWait ::
    "sock_op \<Rightarrow> io_sock \<Rightarrow> u8 list \<Rightarrow> nat \<Rightarrow> net \<Rightarrow> (ncclResult \<times> u8 list \<times> nat \<times> net) option" where
  "socketWait op sk buf off n =
     (if off < length buf
      then (case socketProgress op sk buf off n of
              None \<Rightarrow> None
            | Some (res, buf', off', n') \<Rightarrow>
                if ncclCheckFails res then Some (res, buf', off', n') else socketWait op sk buf' off' n')
      else Some (ncclSuccess, buf, off, n))"
  by pat_completeness auto
termination
  by (relation "measure (\<lambda>(op, sk, buf, off, n). length (nt_in n))") (auto dest!: socketProgress_shrinks)

declare socketWait.simps [simp del]

text \<open>\<open>tryRecv_rest\<close>: the loops of \<^verbatim>\<open>ncclSocketTryRecv\<close>, which leave when the peer has closed.\<close>

function tryRecv_rest :: "io_sock \<Rightarrow> u8 list \<Rightarrow> nat \<Rightarrow> net \<Rightarrow> (ncclResult \<times> bool \<times> u8 list \<times> net) option" where
  "tryRecv_rest sk buf off n =
     (if off < length buf
      then (case socketProgressOpt NCCL_SOCKET_RECV sk False buf off n of
              None \<Rightarrow> None
            | Some (res, closed, buf', off', n') \<Rightarrow>
                if ncclCheckFails res then Some (res, closed, buf', n')
                else if closed then Some (ncclSuccess, True, buf', n')
                else tryRecv_rest sk buf' off' n')
      else Some (ncclSuccess, False, buf, n))"
  by pat_completeness auto
termination
  by (relation "measure (\<lambda>(sk, buf, off, n). length (nt_in n))") (auto dest!: socketProgressOpt_shrinks)

declare tryRecv_rest.simps [simp del]

definition try_recv :: "io_sock \<Rightarrow> u8 list \<Rightarrow> bool \<Rightarrow> net \<Rightarrow> (ncclResult \<times> bool \<times> u8 list \<times> net) option" where
  "try_recv sk buf blocking n =
     (if blocking then tryRecv_rest sk buf 0 n
      else (case socketProgressOpt NCCL_SOCKET_RECV sk False buf 0 n of
              None \<Rightarrow> None
            | Some (res, closed, buf', off', n') \<Rightarrow>
                if ncclCheckFails res then Some (res, closed, buf', n')
                else if closed then Some (ncclSuccess, True, buf', n')
                else if 0 < off' then tryRecv_rest sk buf' off' n'
                else Some (ncclInProgress, False, buf', n')))"

section \<open>What a transfer moved\<close>

text \<open>The bytes the calls of a log took from the socket, or gave to it.\<close>

fun call_bytes :: "sock_op \<Rightarrow> syscall \<times> sysret \<Rightarrow> u8 list" where
  "call_bytes NCCL_SOCKET_RECV (CRecv fd k b, Bytes bs) = bs"
| "call_bytes NCCL_SOCKET_SEND (CSend fd bs b, Sent k) = take k bs"
| "call_bytes op cr = []"

definition log_bytes :: "sock_op \<Rightarrow> (syscall \<times> sysret) list \<Rightarrow> u8 list" where
  "log_bytes op L = concat (map (call_bytes op) L)"

lemma log_bytes_simps [simp]:
  "log_bytes op [] = []" "log_bytes op (c # L) = call_bytes op c @ log_bytes op L"
  "log_bytes op (K @ L) = log_bytes op K @ log_bytes op L"
  by (simp_all add: log_bytes_def)

text \<open>
  \<open>moves op buf off n buf' off' n'\<close>: between the two states the log grew by calls that moved the
  bytes from \<open>off\<close> to \<open>off'\<close> of the buffer, received into it or sent out of it.
\<close>

definition moves :: "sock_op \<Rightarrow> u8 list \<Rightarrow> nat \<Rightarrow> net \<Rightarrow> u8 list \<Rightarrow> nat \<Rightarrow> net \<Rightarrow> bool" where
  "moves op buf off n buf' off' n' \<longleftrightarrow>
     (\<exists>L. nt_log n' = nt_log n @ L \<and> off' = off + length (log_bytes op L) \<and> off' \<le> length buf \<and>
        length buf' = length buf \<and>
        (case op of NCCL_SOCKET_RECV \<Rightarrow> buf' = store_bytes (log_bytes op L) off buf
                  | NCCL_SOCKET_SEND \<Rightarrow> buf' = buf \<and> log_bytes op L = take (off' - off) (drop off buf)))"

lemma store_nil [simp]: "off \<le> length buf \<Longrightarrow> store_bytes [] off buf = buf"
  by (simp add: store_bytes_def)

lemma store_store:
  "off + length bs + length cs \<le> length buf \<Longrightarrow>
   store_bytes cs (off + length bs) (store_bytes bs off buf) = store_bytes (bs @ cs) off buf"
  by (simp add: store_bytes_def min_absorb2 ac_simps)

lemma length_store [simp]: "off + length bs \<le> length buf \<Longrightarrow> length (store_bytes bs off buf) = length buf"
  by (simp add: store_bytes_def)

lemma moves_refl: "off \<le> length buf \<Longrightarrow> moves op buf off n buf off n"
  unfolding moves_def by (rule exI [of _ "[]"]) (simp split: sock_op.split)

lemma moves_trans:
  assumes "moves op b1 o1 n1 b2 o2 n2" "moves op b2 o2 n2 b3 o3 n3"
  shows "moves op b1 o1 n1 b3 o3 n3"
proof -
  from assms(1) obtain K where K: "nt_log n2 = nt_log n1 @ K" "o2 = o1 + length (log_bytes op K)" "o2 \<le> length b1"
    "length b2 = length b1" "case op of NCCL_SOCKET_RECV \<Rightarrow> b2 = store_bytes (log_bytes op K) o1 b1
       | NCCL_SOCKET_SEND \<Rightarrow> b2 = b1 \<and> log_bytes op K = take (o2 - o1) (drop o1 b1)" by (auto simp: moves_def)
  from assms(2) obtain L where L: "nt_log n3 = nt_log n2 @ L" "o3 = o2 + length (log_bytes op L)" "o3 \<le> length b2"
    "length b3 = length b2" "case op of NCCL_SOCKET_RECV \<Rightarrow> b3 = store_bytes (log_bytes op L) o2 b2
       | NCCL_SOCKET_SEND \<Rightarrow> b3 = b2 \<and> log_bytes op L = take (o3 - o2) (drop o2 b2)" by (auto simp: moves_def)
  have "case op of NCCL_SOCKET_RECV \<Rightarrow> b3 = store_bytes (log_bytes op (K @ L)) o1 b1
       | NCCL_SOCKET_SEND \<Rightarrow> b3 = b1 \<and> log_bytes op (K @ L) = take (o3 - o1) (drop o1 b1)"
  proof (cases op)
    case NCCL_SOCKET_RECV
    then show ?thesis using K(2,4,5) L(2,3,5) by (simp add: store_store)
  next
    case NCCL_SOCKET_SEND
    have "take (o3 - o1) (drop o1 b1) = take (o2 - o1) (drop o1 b1) @ take (o3 - o2) (drop o2 b1)"
      using K(2) L(2) take_add [of "o2 - o1" "o3 - o2" "drop o1 b1"] by (simp add: ac_simps)
    then show ?thesis using NCCL_SOCKET_SEND K(5) L(5) by simp
  qed
  then show ?thesis unfolding moves_def using K L by (intro exI [of _ "K @ L"]) simp
qed

lemma sys_log: "sys c n = Some (r, n') \<Longrightarrow> nt_log n' = nt_log n @ [(c, r)]"
  by (auto simp: sys_def split: list.splits)

lemma transfer_moves:
  assumes "transfer op sk block buf off n = Some (m, n1)" "off \<le> length buf"
  shows "(case m of MMoved k buf' \<Rightarrow> moves op buf off n buf' (off + k) n1 | _ \<Rightarrow> moves op buf off n buf off n1)"
proof (cases op)
  case NCCL_SOCKET_RECV
  with assms obtain r where s: "sys (CRecv (io_fd sk) (length buf - off) block) n = Some (r, n1)"
    by (auto simp: transfer_def split: option.splits sysret.splits if_splits)
  note l = sys_log [OF s]
  show ?thesis
  proof (cases r)
    case (Bytes bs)
    then have len: "off + length bs \<le> length buf" "m = (if bs = [] then MClosed else MMoved (length bs) (store_bytes bs off buf))"
      using assms NCCL_SOCKET_RECV s by (auto simp: transfer_def split: if_splits)
    have "moves op buf off n (store_bytes bs off buf) (off + length bs) n1"
      unfolding moves_def using l Bytes len(1) NCCL_SOCKET_RECV
      by (intro exI [of _ "[(CRecv (io_fd sk) (length buf - off) block, r)]"]) simp
    then show ?thesis using len(2) assms(2) by auto
  next
    case (Fail e)
    have "moves op buf off n buf off n1" unfolding moves_def using l Fail assms(2) NCCL_SOCKET_RECV
      by (intro exI [of _ "[(CRecv (io_fd sk) (length buf - off) block, r)]"]) simp
    then show ?thesis using assms NCCL_SOCKET_RECV s Fail by (auto simp: transfer_def split: if_splits)
  qed (use assms NCCL_SOCKET_RECV s in \<open>auto simp: transfer_def\<close>)
next
  case NCCL_SOCKET_SEND
  with assms obtain r where s: "sys (CSend (io_fd sk) (drop off buf) block) n = Some (r, n1)"
    by (auto simp: transfer_def split: option.splits sysret.splits if_splits)
  note l = sys_log [OF s]
  show ?thesis
  proof (cases r)
    case (Sent k)
    then have len: "off + k \<le> length buf" "m = MMoved k buf"
      using assms NCCL_SOCKET_SEND s by (auto simp: transfer_def split: if_splits)
    have "moves op buf off n buf (off + k) n1"
      unfolding moves_def using l Sent len(1) NCCL_SOCKET_SEND
      by (intro exI [of _ "[(CSend (io_fd sk) (drop off buf) block, r)]"]) simp
    then show ?thesis using len(2) by simp
  next
    case (Fail e)
    have "moves op buf off n buf off n1" unfolding moves_def using l Fail assms(2) NCCL_SOCKET_SEND
      by (intro exI [of _ "[(CSend (io_fd sk) (drop off buf) block, r)]"]) simp
    then show ?thesis using assms NCCL_SOCKET_SEND s Fail by (auto simp: transfer_def split: if_splits)
  qed (use assms NCCL_SOCKET_SEND s in \<open>auto simp: transfer_def\<close>)
qed

lemma load_abort_moves:
  assumes "load_abort sk n = Some (b, n')" "off \<le> length buf"
  shows "moves op buf off n buf off n'"
proof (cases "io_abort sk")
  case True
  with assms obtain r where s: "sys CAbort n = Some (r, n')"
    by (auto simp: load_abort_def split: option.splits sysret.splits)
  have "call_bytes op (CAbort, r) = []" by (cases op) simp_all
  then show ?thesis unfolding moves_def using sys_log [OF s] assms(2)
    by (intro exI [of _ "[(CAbort, r)]"]) (simp split: sock_op.split)
next
  case False
  then show ?thesis using assms by (simp add: load_abort_def moves_refl)
qed

lemma socketProgressOpt_moves:
  "socketProgressOpt op sk block buf off n = Some (res, c, buf', off', n') \<Longrightarrow> off \<le> length buf \<Longrightarrow>
   moves op buf off n buf' off' n'"
proof (induction op sk block buf off n rule: socketProgressOpt.induct)
  case (1 op sk block buf off n)
  obtain m n1 where t: "transfer op sk block buf off n = Some (m, n1)"
    using 1(2) by (subst (asm) socketProgressOpt.simps) (auto split: option.splits)
  note t' = transfer_moves [OF t 1(3)]
  show ?case
  proof (cases m)
    case (MMoved k b)
    then obtain ab n2 where a: "load_abort sk n1 = Some (ab, n2)"
      using 1(2) t by (subst (asm) socketProgressOpt.simps) (auto split: option.splits)
    have len: "off + k \<le> length b" using t' MMoved by (auto simp: moves_def)
    have m2: "moves op buf off n b (off + k) n2"
      using t' MMoved load_abort_moves [OF a len] by (auto intro: moves_trans)
    show ?thesis
    proof (cases "ab \<or> \<not> (0 < k \<and> off + k < length b)")
      case True
      then show ?thesis using 1(2) t a m2 MMoved by (subst (asm) socketProgressOpt.simps) (auto split: if_splits)
    next
      case False
      then have "socketProgressOpt op sk block b (off + k) n2 = Some (res, c, buf', off', n')"
        using 1(2) t a MMoved by (subst (asm) socketProgressOpt.simps) auto
      with 1(1) [OF t _ MMoved a] False len show ?thesis by (auto intro: moves_trans [OF m2])
    qed
  qed (use 1(2) t t' in \<open>subst (asm) socketProgressOpt.simps, auto\<close>)+
qed

lemma socketProgress_moves:
  "socketProgress op sk buf off n = Some (res, buf', off', n') \<Longrightarrow> off \<le> length buf \<Longrightarrow> moves op buf off n buf' off' n'"
  by (auto simp: socketProgress_def split: option.splits dest: socketProgressOpt_moves)

lemma socketWait_moves:
  "socketWait op sk buf off n = Some (res, buf', off', n') \<Longrightarrow> off \<le> length buf \<Longrightarrow>
   moves op buf off n buf' off' n' \<and> (res = ncclSuccess \<longrightarrow> off' = length buf')"
proof (induction op sk buf off n rule: socketWait.induct)
  case (1 op sk buf off n)
  show ?case
  proof (cases "off < length buf")
    case True
    then obtain r b o1 n1 where p: "socketProgress op sk buf off n = Some (r, b, o1, n1)"
      using 1(2) by (subst (asm) socketWait.simps) (auto split: option.splits)
    have m: "moves op buf off n b o1 n1" using socketProgress_moves [OF p 1(3)] .
    show ?thesis
    proof (cases "ncclCheckFails r")
      case True
      then show ?thesis using 1(2) p m \<open>off < length buf\<close> by (subst (asm) socketWait.simps) auto
    next
      case False
      have "socketWait op sk b o1 n1 = Some (res, buf', off', n')"
        using 1(2) p False True by (subst (asm) socketWait.simps) auto
      moreover have "o1 \<le> length b" using m by (auto simp: moves_def)
      ultimately show ?thesis using 1(1) [OF True p] False by (auto intro: moves_trans [OF m])
    qed
  next
    case False
    then show ?thesis using 1(2,3) by (subst (asm) socketWait.simps) (auto simp: moves_refl)
  qed
qed

lemma socketWait_closed:
  assumes "socketWait op sk buf off n = Some (ncclSuccess, buf', off', n')" "off \<le> length buf"
  shows "\<exists>L. nt_log n' = nt_log n @ L \<and> off' = length buf \<and>
    (case op of NCCL_SOCKET_SEND \<Rightarrow> buf' = buf \<and> log_bytes op L = drop off buf
              | NCCL_SOCKET_RECV \<Rightarrow> buf' = take off buf @ log_bytes op L \<and> length buf' = length buf)"
proof -
  have m: "moves op buf off n buf' off' n'" by (rule conjunct1 [OF socketWait_moves [OF assms]])
  moreover have "off' = length buf'" using conjunct2 [OF socketWait_moves [OF assms]] by simp
  ultimately obtain L where L: "nt_log n' = nt_log n @ L" "off' = off + length (log_bytes op L)" "off' = length buf" "length buf' = length buf"
    "case op of NCCL_SOCKET_RECV \<Rightarrow> buf' = store_bytes (log_bytes op L) off buf
       | NCCL_SOCKET_SEND \<Rightarrow> buf' = buf \<and> log_bytes op L = take (off' - off) (drop off buf)"
    by (auto simp: moves_def)
  show ?thesis
    by (rule exI [of _ L], cases op) (use L in \<open>simp_all add: store_bytes_def\<close>)
qed

text \<open>
  C27: a wait that succeeds has moved exactly the rest of the buffer, however the system cut it in
  pieces: what the calls gave to the socket is the data from the offset on, or what they took
  from it fills the buffer from there, and not a byte more.
\<close>
theorem socketWait_exact:
  assumes "socketWait op sk buf off n = Some (ncclSuccess, buf', off', n')" "off \<le> length buf"
  shows "\<exists>L. nt_log n' = nt_log n @ L \<and> off' = length buf \<and>
    (case op of NCCL_SOCKET_SEND \<Rightarrow> buf' = buf \<and> log_bytes op L = drop off buf
              | NCCL_SOCKET_RECV \<Rightarrow> buf' = take off buf @ log_bytes op L \<and> length buf' = length buf)"
  using assms by (rule socketWait_closed)

theorem socketWait_exact_witness:
  "\<exists>buf' off' n'. socketWait NCCL_SOCKET_SEND \<lparr> io_fd = 5, io_abort = False \<rparr> [1, 2, 3, 4, 5] 0
     \<lparr> nt_in = [Sent 2, Fail EAGAIN, Fail EINTR, Sent 3], nt_log = [] \<rparr> = Some (ncclSuccess, buf', off', n') \<and>
     log_bytes NCCL_SOCKET_SEND (nt_log n') = [1, 2, 3, 4, 5]"
proof -
  obtain b o1 n' where r: "socketWait NCCL_SOCKET_SEND \<lparr> io_fd = 5, io_abort = False \<rparr> [1, 2, 3, 4, 5] 0
     \<lparr> nt_in = [Sent 2, Fail EAGAIN, Fail EINTR, Sent 3], nt_log = [] \<rparr> = Some (ncclSuccess, b, o1, n')"
    by (simp add: socketWait.simps socketProgress_def socketProgressOpt.simps transfer_def sys_def load_abort_def retried_def)
  from socketWait_exact [OF this] show ?thesis using r by auto
qed

end
