(* ===== verification/Socket.thy ===== *)
theory Socket
  imports SocketIO
begin

text \<open>
  The life of a socket (\<^verbatim>\<open>src/unet/socket.cc\<close>): creation, listening, connecting, accepting,
  the exchange of the magic number and the type that makes both ends ready, and closing. The state
  machine of the code, \<^verbatim>\<open>enum ncclSocketState\<close>, is driven by \<^verbatim>\<open>socketProgressState\<close>. Each operation
  takes the socket and the system-call answers and returns the result code, the socket and the
  log; a null socket, where the entry point tests for one, is \<open>None\<close> in the argument.
\<close>

section \<open>State\<close>

datatype ncclSocketState =
    ncclSocketStateNone | ncclSocketStateInitialized | ncclSocketStateAccepting | ncclSocketStateAccepted
  | ncclSocketStateConnecting | ncclSocketStateConnectPolling | ncclSocketStateConnected
  | ncclSocketStateReady | ncclSocketStateClosed | ncclSocketStateError

datatype ncclSocketType =
    ncclSocketTypeUnknown | ncclSocketTypeBootstrap | ncclSocketTypeProxy | ncclSocketTypeNetSocket | ncclSocketTypeNetIb

fun type_code :: "ncclSocketType \<Rightarrow> u32" where
  "type_code ncclSocketTypeUnknown = 0"
| "type_code ncclSocketTypeBootstrap = 1"
| "type_code ncclSocketTypeProxy = 2"
| "type_code ncclSocketTypeNetSocket = 3"
| "type_code ncclSocketTypeNetIb = 4"

record ncclSocket =
  sk_fd :: int
  sk_acceptFd :: int
  sk_timedOutRetries :: nat
  sk_refusedRetries :: nat
  sk_addr :: ncclSocketAddress
  sk_abortFlag :: bool        \<comment> \<open>the pointer is not null\<close>
  sk_asyncFlag :: bool
  sk_state :: ncclSocketState
  sk_salen :: nat
  sk_magic :: u64
  sk_type :: ncclSocketType

definition RETRY_REFUSED_TIMES :: nat where "RETRY_REFUSED_TIMES = 20000"
definition RETRY_TIMEDOUT_TIMES :: nat where "RETRY_TIMEDOUT_TIMES = 3"

definition io :: "ncclSocket \<Rightarrow> io_sock" where
  "io sk = \<lparr> io_fd = sk_fd sk, io_abort = sk_abortFlag sk \<rparr>"

text \<open>The bytes of an integer in memory, the lowest first.\<close>

definition le_bytes :: "nat \<Rightarrow> 'a::len word \<Rightarrow> u8 list" where
  "le_bytes n w = map (\<lambda>i. ucast (drop_bit (8 * i) w)) [0..<n]"

definition magic_bytes :: "ncclSocket \<Rightarrow> u8 list" where
  "magic_bytes sk = le_bytes 8 (sk_magic sk)"

definition type_bytes :: "ncclSocket \<Rightarrow> u8 list" where
  "type_bytes sk = le_bytes 4 (type_code (sk_type sk))"

type_synonym sock_res = "(ncclResult \<times> ncclSocket \<times> net) option"

text \<open>\<open>NCCLCHECK(f); g\<close>, and a guard on the state.\<close>

definition and_then :: "sock_res \<Rightarrow> (ncclSocket \<Rightarrow> net \<Rightarrow> sock_res) \<Rightarrow> sock_res" where
  "and_then r g =
     (case r of None \<Rightarrow> None
      | Some (res, sk, n) \<Rightarrow> if ncclCheckFails res then Some (res, sk, n) else g sk n)"

definition in_state :: "ncclSocketState \<Rightarrow> (ncclSocket \<Rightarrow> net \<Rightarrow> sock_res) \<Rightarrow> ncclSocket \<Rightarrow> net \<Rightarrow> sock_res" where
  "in_state s f sk n = (if sk_state sk = s then f sk n else Some (ncclSuccess, sk, n))"

text \<open>A call under \<open>SYSCHECK\<close>, whose answer must be one without a value.\<close>

definition syscheck_ok :: "syscall \<Rightarrow> ncclSocket \<Rightarrow> net \<Rightarrow> sock_res" where
  "syscheck_ok c sk n =
     (case syscheck c n of
        Some (Ok, n') \<Rightarrow> Some (ncclSuccess, sk, n')
      | Some (Fail e, n') \<Rightarrow> Some (ncclSystemError, sk, n')
      | _ \<Rightarrow> None)"

section \<open>Accepting\<close>

definition socketTryAccept :: "ncclSocket \<Rightarrow> net \<Rightarrow> sock_res" where
  "socketTryAccept sk n =
     (case sys (CAccept (sk_acceptFd sk)) n of
        Some (Peer fd addr, n') \<Rightarrow> Some (ncclSuccess, sk\<lparr> sk_fd := int fd, sk_addr := addr, sk_state := ncclSocketStateAccepted \<rparr>, n')
      | Some (Fail e, n') \<Rightarrow>
          Some (if e \<noteq> EAGAIN \<and> e \<noteq> EWOULDBLOCK then ncclSystemError else ncclSuccess, sk\<lparr> sk_fd := -1 \<rparr>, n')
      | _ \<Rightarrow> None)"

text \<open>The part of \<^verbatim>\<open>socketFinalizeAccept\<close> after the magic number is complete.\<close>

definition check_magic :: "u8 list \<Rightarrow> ncclSocket \<Rightarrow> net \<Rightarrow> sock_res" where
  "check_magic magic sk n =
     (if magic \<noteq> magic_bytes sk
      then Some (ncclSuccess, sk\<lparr> sk_fd := -1, sk_state := ncclSocketStateAccepting \<rparr>, sys_void (CClose (sk_fd sk)) n)
      else case socketWait NCCL_SOCKET_RECV (io sk) (replicate 4 0) 0 n of
             None \<Rightarrow> None
           | Some (res, typ, _, n) \<Rightarrow>
               if ncclCheckFails res then Some (res, sk, n)
               else if typ \<noteq> type_bytes sk
               then Some (ncclInternalError, sk\<lparr> sk_state := ncclSocketStateError, sk_fd := -1 \<rparr>, sys_void (CClose (sk_fd sk)) n)
               else Some (ncclSuccess, sk\<lparr> sk_state := ncclSocketStateReady \<rparr>, n))"

definition socketFinalizeAccept :: "ncclSocket \<Rightarrow> net \<Rightarrow> sock_res" where
  "socketFinalizeAccept sk n =
     and_then (syscheck_ok (CSetsockopt (sk_fd sk) ''TCP_NODELAY'') sk n) (\<lambda>sk n.
       case socketProgress NCCL_SOCKET_RECV (io sk) (replicate 8 0) 0 n of
         None \<Rightarrow> None
       | Some (res, magic, received, n) \<Rightarrow>
           if ncclCheckFails res then Some (res, sk, n)
           else if received = 0 then Some (ncclSuccess, sk, n)
           else case socketWait NCCL_SOCKET_RECV (io sk) magic received n of
                  None \<Rightarrow> None
                | Some (res, magic, _, n) \<Rightarrow>
                    if ncclCheckFails res then Some (res, sk, n) else check_magic magic sk n)"

section \<open>Connecting\<close>

text \<open>One more refused or timed out attempt; \<open>next\<close> is the state to try again in.\<close>

definition count_refused :: "ncclSocketState \<Rightarrow> ncclSocket \<Rightarrow> net \<Rightarrow> sock_res" where
  "count_refused next sk n =
     (let sk = sk\<lparr> sk_refusedRetries := sk_refusedRetries sk + 1 \<rparr>
      in if sk_refusedRetries sk = RETRY_REFUSED_TIMES
         then Some (ncclRemoteError, sk\<lparr> sk_state := ncclSocketStateError \<rparr>, n)
         else Some (ncclSuccess, sk\<lparr> sk_state := next \<rparr>, n))"

definition count_timed_out :: "ncclSocketState \<Rightarrow> ncclSocket \<Rightarrow> net \<Rightarrow> sock_res" where
  "count_timed_out next sk n =
     (let sk = sk\<lparr> sk_timedOutRetries := sk_timedOutRetries sk + 1 \<rparr>
      in if sk_timedOutRetries sk = RETRY_TIMEDOUT_TIMES
         then Some (ncclRemoteError, sk\<lparr> sk_state := ncclSocketStateError \<rparr>, n)
         else Some (ncclSuccess, sk\<lparr> sk_state := next \<rparr>, n))"

definition socketStartConnect :: "ncclSocket \<Rightarrow> net \<Rightarrow> sock_res" where
  "socketStartConnect sk n =
     (case sys (CConnect (sk_fd sk)) n of
        Some (Ok, n) \<Rightarrow> Some (ncclSuccess, sk\<lparr> sk_state := ncclSocketStateConnected \<rparr>, n)
      | Some (Fail e, n) \<Rightarrow>
          (if e = EINPROGRESS then Some (ncclSuccess, sk\<lparr> sk_state := ncclSocketStateConnectPolling \<rparr>, n)
           else if e = ECONNREFUSED then count_refused (sk_state sk) sk n
           else if e = ETIMEDOUT then count_timed_out (sk_state sk) sk n
           else Some (ncclSystemError, sk\<lparr> sk_state := ncclSocketStateError \<rparr>, n))
      | _ \<Rightarrow> None)"

definition socketPollConnect :: "ncclSocket \<Rightarrow> net \<Rightarrow> sock_res" where
  "socketPollConnect sk n =
     (case sys (CPoll (sk_fd sk)) n of
        Some (Fail e, n) \<Rightarrow> Some (if e = EINTR then ncclSuccess else ncclRemoteError, sk, n)
      | Some (Polled ret pollout, n) \<Rightarrow>
          if ret = 0 then Some (ncclSuccess, sk, n)
          else if ret \<noteq> 1 \<or> \<not> pollout then Some (ncclSystemError, sk, n)
          else (case syscheck (CGetSoError (sk_fd sk)) n of
                  Some (Fail e, n) \<Rightarrow> Some (ncclSystemError, sk, n)
                | Some (SoError None, n) \<Rightarrow> Some (ncclSuccess, sk\<lparr> sk_state := ncclSocketStateConnected \<rparr>, n)
                | Some (SoError (Some e), n) \<Rightarrow>
                    if e = ECONNREFUSED then count_refused ncclSocketStateConnecting sk n
                    else if e = ETIMEDOUT then count_timed_out ncclSocketStateConnecting sk n
                    else if e \<noteq> EINPROGRESS then Some (ncclSystemError, sk\<lparr> sk_state := ncclSocketStateError \<rparr>, n)
                    else Some (ncclSuccess, sk, n)
                | _ \<Rightarrow> None)
      | _ \<Rightarrow> None)"

definition socketFinalizeConnect :: "ncclSocket \<Rightarrow> net \<Rightarrow> sock_res" where
  "socketFinalizeConnect sk n =
     (case socketProgress NCCL_SOCKET_SEND (io sk) (magic_bytes sk) 0 n of
        None \<Rightarrow> None
      | Some (res, _, sent, n) \<Rightarrow>
          if ncclCheckFails res then Some (res, sk, n)
          else if sent = 0 then Some (ncclSuccess, sk, n)
          else case socketWait NCCL_SOCKET_SEND (io sk) (magic_bytes sk) sent n of
                 None \<Rightarrow> None
               | Some (res, _, _, n) \<Rightarrow>
                   if ncclCheckFails res then Some (res, sk, n)
                   else case socketWait NCCL_SOCKET_SEND (io sk) (type_bytes sk) 0 n of
                          None \<Rightarrow> None
                        | Some (res, _, _, n) \<Rightarrow>
                            if ncclCheckFails res then Some (res, sk, n)
                            else Some (ncclSuccess, sk\<lparr> sk_state := ncclSocketStateReady \<rparr>, n))"

section \<open>Progress\<close>

definition socketProgressState :: "ncclSocket \<Rightarrow> net \<Rightarrow> sock_res" where
  "socketProgressState sk n =
     and_then (and_then (and_then (and_then
       (in_state ncclSocketStateAccepting socketTryAccept sk n)
       (in_state ncclSocketStateAccepted socketFinalizeAccept))
       (in_state ncclSocketStateConnecting socketStartConnect))
       (in_state ncclSocketStateConnectPolling socketPollConnect))
       (in_state ncclSocketStateConnected socketFinalizeConnect)"

text \<open>Each handler uses up an answer; so does a step in a state that has a handler.\<close>

definition uses_up :: "(ncclSocket \<Rightarrow> net \<Rightarrow> sock_res) \<Rightarrow> bool" where
  "uses_up f \<longleftrightarrow> (\<forall>sk n res sk' n'. f sk n = Some (res, sk', n') \<longrightarrow> length (nt_in n') < length (nt_in n))"

lemma uses_upD: "uses_up f \<Longrightarrow> f sk n = Some (res, sk', n') \<Longrightarrow> length (nt_in n') < length (nt_in n)"
  unfolding uses_up_def by blast

lemma sys_void_in [simp]: "nt_in (sys_void c n) = nt_in n"
  by (simp add: sys_void_def)

lemma syscheck_shrinks: "syscheck c n = Some (r, n') \<Longrightarrow> length (nt_in n') < length (nt_in n)"
proof (induction c n rule: syscheck.induct)
  case (1 c n)
  obtain r1 n1 where s: "sys c n = Some (r1, n1)"
    using 1(2) by (subst (asm) syscheck.simps) (auto split: option.splits)
  note s' = sys_shrinks [OF s]
  show ?case
  proof (cases "\<exists>e. r1 = Fail e \<and> retried e")
    case True
    then obtain e where e: "r1 = Fail e" "retried e" by blast
    then have "syscheck c n1 = Some (r, n')" using 1(2) s by (subst (asm) syscheck.simps) simp
    with 1(1) [OF s _ e] s' show ?thesis by fastforce
  next
    case False
    then show ?thesis using 1(2) s s' by (subst (asm) syscheck.simps) (auto split: sysret.splits if_splits)
  qed
qed

lemma socketWait_le: "socketWait op sk buf off n = Some (res, buf', off', n') \<Longrightarrow> length (nt_in n') \<le> length (nt_in n)"
proof (induction op sk buf off n rule: socketWait.induct)
  case (1 op sk buf off n)
  show ?case
  proof (cases "off < length buf")
    case True
    then obtain r b o1 n1 where p: "socketProgress op sk buf off n = Some (r, b, o1, n1)"
      using 1(2) by (subst (asm) socketWait.simps) (auto split: option.splits)
    note m = socketProgress_shrinks [OF p]
    show ?thesis
    proof (cases "ncclCheckFails r")
      case True
      then show ?thesis using 1(2) p m \<open>off < length buf\<close> by (subst (asm) socketWait.simps) auto
    next
      case False
      have "socketWait op sk b o1 n1 = Some (res, buf', off', n')"
        using 1(2) p False True by (subst (asm) socketWait.simps) auto
      then show ?thesis using 1(1) [OF True p] False m by fastforce
    qed
  next
    case False
    then show ?thesis using 1(2) by (subst (asm) socketWait.simps) auto
  qed
qed

lemma uses_up_accept: "uses_up socketTryAccept"
  by (auto simp: uses_up_def socketTryAccept_def split: option.splits sysret.splits dest!: sys_shrinks)

lemma uses_up_start: "uses_up socketStartConnect"
  by (auto simp: uses_up_def socketStartConnect_def count_refused_def count_timed_out_def Let_def
      split: option.splits sysret.splits if_splits dest!: sys_shrinks)

lemma uses_up_poll: "uses_up socketPollConnect"
  by (auto simp: uses_up_def socketPollConnect_def count_refused_def count_timed_out_def Let_def
      split: option.splits sysret.splits if_splits dest!: sys_shrinks syscheck_shrinks)

lemma uses_up_connect: "uses_up socketFinalizeConnect"
  by (fastforce simp: uses_up_def socketFinalizeConnect_def
      split: option.splits if_splits dest: socketProgress_shrinks socketWait_le)

lemma check_magic_le: "check_magic m sk n = Some (res, sk', n') \<Longrightarrow> length (nt_in n') \<le> length (nt_in n)"
  by (auto simp: check_magic_def split: option.splits if_splits dest!: socketWait_le)

lemma uses_up_magic: "uses_up socketFinalizeAccept"
proof (unfold uses_up_def, intro allI impI)
  fix sk n res sk' n'
  assume run: "socketFinalizeAccept sk n = Some (res, sk', n')"
  then obtain r1 n1 where s: "syscheck (CSetsockopt (sk_fd sk) ''TCP_NODELAY'') n = Some (r1, n1)"
    by (auto simp: socketFinalizeAccept_def and_then_def syscheck_ok_def split: option.splits)
  show "length (nt_in n') < length (nt_in n)" using run s syscheck_shrinks [OF s]
    by (fastforce simp: socketFinalizeAccept_def and_then_def syscheck_ok_def
        split: option.splits sysret.splits if_splits dest: socketProgress_shrinks socketWait_le check_magic_le)
qed

lemmas uses_up_all = uses_up_accept uses_up_magic uses_up_start uses_up_poll uses_up_connect

definition pending_states :: "ncclSocketState set" where
  "pending_states = {ncclSocketStateAccepting, ncclSocketStateAccepted, ncclSocketStateConnecting,
     ncclSocketStateConnectPolling, ncclSocketStateConnected}"

text \<open>A run of some of the handlers either used up an answer or none of them applied.\<close>

definition tried :: "ncclSocketState set \<Rightarrow> ncclSocket \<Rightarrow> net \<Rightarrow> sock_res \<Rightarrow> bool" where
  "tried S sk n r \<longleftrightarrow>
     (\<forall>res sk' n'. r = Some (res, sk', n') \<longrightarrow> length (nt_in n') < length (nt_in n) \<or>
        (res = ncclSuccess \<and> sk' = sk \<and> n' = n \<and> sk_state sk \<notin> S))"

lemma tried_first: "uses_up f \<Longrightarrow> tried {s} sk n (in_state s f sk n)"
  by (auto simp: tried_def in_state_def dest: uses_upD)

lemma tried_next:
  assumes "tried S sk n r" "uses_up f"
  shows "tried (insert s S) sk n (and_then r (in_state s f))"
proof (cases r)
  case None
  then show ?thesis by (simp add: tried_def and_then_def)
next
  case (Some q)
  obtain res1 sk1 n1 where q: "r = Some (res1, sk1, n1)" using Some by (cases q) auto
  show ?thesis using assms q
    by (fastforce simp: tried_def and_then_def in_state_def split: if_splits dest: uses_upD)
qed

lemma progress_tried: "tried pending_states sk n (socketProgressState sk n)"
proof -
  have p: "pending_states = {ncclSocketStateConnected, ncclSocketStateConnectPolling, ncclSocketStateConnecting,
      ncclSocketStateAccepted, ncclSocketStateAccepting}" by (auto simp: pending_states_def)
  show ?thesis unfolding socketProgressState_def p by (intro tried_next tried_first uses_up_all)
qed

lemma progress_shrinks:
  assumes "socketProgressState sk n = Some (res, sk', n')" "sk_state sk \<in> pending_states"
  shows "length (nt_in n') < length (nt_in n)"
  using progress_tried [of sk n] assms by (simp add: tried_def)

section \<open>Entry points\<close>

text \<open>The test for a null socket.\<close>

definition non_null ::
    "(ncclSocket \<Rightarrow> net \<Rightarrow> sock_res) \<Rightarrow> ncclSocket option \<Rightarrow> net \<Rightarrow> (ncclResult \<times> ncclSocket option \<times> net) option" where
  "non_null f s n =
     (case s of None \<Rightarrow> Some (ncclInvalidArgument, None, n)
      | Some sk \<Rightarrow> map_option (\<lambda>(res, sk, n). (res, Some sk, n)) (f sk n))"

text \<open>The value of \<^verbatim>\<open>*running\<close> is \<open>None\<close> where the call leaves it unset.\<close>

definition ncclSocketReady ::
    "ncclSocket option \<Rightarrow> net \<Rightarrow> (ncclResult \<times> bool option \<times> ncclSocket option \<times> net) option" where
  "ncclSocketReady s n =
     (case s of
        None \<Rightarrow> Some (ncclSuccess, Some False, None, n)
      | Some sk \<Rightarrow>
          if sk_state sk = ncclSocketStateError \<or> sk_state sk = ncclSocketStateClosed
          then Some (ncclRemoteError, None, Some sk, n)
          else if sk_state sk = ncclSocketStateReady then Some (ncclSuccess, Some True, Some sk, n)
          else (case socketProgressState sk n of
                  None \<Rightarrow> None
                | Some (res, sk, n) \<Rightarrow>
                    if ncclCheckFails res then Some (res, Some False, Some sk, n)
                    else Some (ncclSuccess, Some (sk_state sk = ncclSocketStateReady), Some sk, n)))"

text \<open>
  The loops of \<^verbatim>\<open>ncclSocketConnect\<close> and \<^verbatim>\<open>ncclSocketAccept\<close> (\<open>acc\<close>): progress until the
  socket is asynchronous, aborted, or out of the states of the loop.
\<close>

definition loop_states :: "bool \<Rightarrow> ncclSocketState set" where
  "loop_states acc =
     (if acc then {ncclSocketStateAccepting, ncclSocketStateAccepted}
      else {ncclSocketStateConnecting, ncclSocketStateConnectPolling, ncclSocketStateConnected})"

function progress_loop :: "bool \<Rightarrow> ncclSocket \<Rightarrow> net \<Rightarrow> sock_res" where
  "progress_loop acc sk n =
     (case socketProgressState sk n of
        None \<Rightarrow> None
      | Some (res, sk1, n1) \<Rightarrow>
          if ncclCheckFails res then Some (res, sk1, n1)
          else if sk_asyncFlag sk1 then Some (ncclSuccess, sk1, n1)
          else case load_abort (io sk1) n1 of
                 None \<Rightarrow> None
               | Some (aborted, n2) \<Rightarrow>
                   if \<not> aborted \<and> sk_state sk1 \<in> loop_states acc then progress_loop acc sk1 n2
                   else Some (ncclSuccess, sk1, n2))"
  by pat_completeness auto
termination
proof (relation "measure (\<lambda>(acc, sk, n). length (nt_in n))", goal_cases)
  case (2 acc sk n a res p sk1 n1 b aborted n2)
  then have p: "socketProgressState sk n = Some (res, sk1, n1)" and l: "load_abort (io sk1) n1 = Some (aborted, n2)"
    and s: "sk_state sk1 \<in> loop_states acc" by simp_all
  have "sk_state sk1 \<in> pending_states" using s by (auto simp: loop_states_def pending_states_def split: if_splits)
  then have "length (nt_in n1) < length (nt_in n)" using progress_tried [of sk n] p by (auto simp: tried_def)
  then show ?case using load_abort_shrinks [OF l] by simp
qed simp

declare progress_loop.simps [simp del]

text \<open>The load of the flag after the loop, which makes the call fail, and the choice of the code by the state.\<close>

definition loop_result :: "(ncclSocketState \<Rightarrow> ncclResult) \<Rightarrow> ncclSocket \<Rightarrow> net \<Rightarrow> sock_res" where
  "loop_result code sk n =
     (case load_abort (io sk) n of
        None \<Rightarrow> None
      | Some (aborted, n) \<Rightarrow> Some (if aborted then ncclInternalError else code (sk_state sk), sk, n))"

definition connect_code :: "ncclSocketState \<Rightarrow> ncclResult" where
  "connect_code s =
     (if s \<in> loop_states False \<union> {ncclSocketStateReady} then ncclSuccess
      else if s = ncclSocketStateError then ncclSystemError else ncclInternalError)"

definition accept_code :: "ncclSocketState \<Rightarrow> ncclResult" where
  "accept_code s =
     (if s \<in> loop_states True \<union> {ncclSocketStateReady} then ncclSuccess
      else if s = ncclSocketStateError then ncclSystemError else ncclInternalError)"

definition connect_sock :: "ncclSocket \<Rightarrow> net \<Rightarrow> sock_res" where
  "connect_sock sk n =
     (if sk_fd sk = -1 then Some (ncclInvalidArgument, sk, n)
      else if sk_state sk \<noteq> ncclSocketStateInitialized
      then Some (if sk_state sk = ncclSocketStateError then ncclRemoteError else ncclInternalError, sk, n)
      else and_then (syscheck_ok (CSetsockopt (sk_fd sk) ''TCP_NODELAY'') sk n) (\<lambda>sk n.
             and_then (progress_loop False (sk\<lparr> sk_state := ncclSocketStateConnecting \<rparr>) n) (loop_result connect_code)))"

definition ncclSocketConnect :: "ncclSocket option \<Rightarrow> net \<Rightarrow> (ncclResult \<times> ncclSocket option \<times> net) option" where
  "ncclSocketConnect = non_null connect_sock"

definition ncclSocketAccept ::
    "ncclSocket option \<Rightarrow> ncclSocket option \<Rightarrow> net \<Rightarrow> (ncclResult \<times> ncclSocket option \<times> net) option" where
  "ncclSocketAccept s listenSock n =
     (case (s, listenSock) of
        (Some sk, Some lsk) \<Rightarrow>
          if sk_state lsk \<noteq> ncclSocketStateReady
          then Some (if sk_state lsk = ncclSocketStateError then ncclSystemError else ncclInternalError, s, n)
          else let sk = (if sk_acceptFd sk = -1
                         then lsk\<lparr> sk_acceptFd := sk_fd lsk, sk_state := ncclSocketStateAccepting \<rparr> else sk)
               in map_option (\<lambda>(res, sk, n). (res, Some sk, n)) (and_then (progress_loop True sk n) (loop_result accept_code))
      | _ \<Rightarrow> Some (ncclInvalidArgument, s, n))"

text \<open>Creation: with an address the socket gets a descriptor, which is made non-blocking when needed.\<close>

definition set_nonblocking :: "ncclSocket \<Rightarrow> net \<Rightarrow> sock_res" where
  "set_nonblocking sk n =
     (if (sk_asyncFlag sk \<or> sk_abortFlag sk) \<and> 0 \<le> sk_fd sk
      then and_then (syscheck_ok (CFcntlGet (sk_fd sk)) sk n) (\<lambda>sk n. syscheck_ok (CFcntlSet (sk_fd sk)) sk n)
      else Some (ncclSuccess, sk, n))"

text \<open>The label \<open>fail\<close>.\<close>

definition init_fail :: "ncclSocket \<Rightarrow> net \<Rightarrow> ncclSocket \<times> net" where
  "init_fail sk n =
     (if sk_fd sk \<noteq> -1 then (sk\<lparr> sk_fd := -1 \<rparr>, sys_void (CClose (sk_fd sk)) n) else (sk, n))"

definition init_sock ::
    "ncclSocketAddress option \<Rightarrow> u64 \<Rightarrow> ncclSocketType \<Rightarrow> bool \<Rightarrow> bool \<Rightarrow> ncclSocket \<Rightarrow> net \<Rightarrow> sock_res" where
  "init_sock addr magic typ abort async sk n =
     (let sk = sk\<lparr> sk_timedOutRetries := 0, sk_refusedRetries := 0, sk_abortFlag := abort, sk_asyncFlag := async,
                   sk_state := ncclSocketStateInitialized, sk_magic := magic, sk_type := typ,
                   sk_fd := -1, sk_acceptFd := -1 \<rparr>;
          finish = (\<lambda>sk n. case set_nonblocking sk n of
              None \<Rightarrow> None
            | Some (res, sk, n) \<Rightarrow> if ncclCheckFails res then (let (sk, n) = init_fail sk n in Some (res, sk, n))
                                  else Some (ncclSuccess, sk, n))
      in case addr of
           None \<Rightarrow> finish (sk\<lparr> sk_addr := \<lparr> sa_family = AF_OTHER, sa_port = 0, sa_addr = [], sa_scope_id = 0 \<rparr> \<rparr>) n
         | Some a \<Rightarrow>
             let sk = sk\<lparr> sk_addr := a \<rparr>
             in if sa_family a \<noteq> AF_INET \<and> sa_family a \<noteq> AF_INET6
                then (let (sk, n) = init_fail sk n in Some (ncclInternalError, sk, n))
                else let sk = sk\<lparr> sk_salen := (if sa_family a = AF_INET then 16 else 28) \<rparr>
                     in case sys CSocket n of
                          Some (Fd fd, n) \<Rightarrow> finish (sk\<lparr> sk_fd := int fd \<rparr>) n
                        | Some (Fail e, n) \<Rightarrow> (let (sk, n) = init_fail sk n in Some (ncclSystemError, sk, n))
                        | _ \<Rightarrow> None)"

text \<open>A null socket is a success here.\<close>

definition ncclSocketInit ::
    "ncclSocketAddress option \<Rightarrow> u64 \<Rightarrow> ncclSocketType \<Rightarrow> bool \<Rightarrow> bool \<Rightarrow> ncclSocket option \<Rightarrow> net
       \<Rightarrow> (ncclResult \<times> ncclSocket option \<times> net) option" where
  "ncclSocketInit addr magic typ abort async s n =
     (case s of None \<Rightarrow> Some (ncclSuccess, None, n)
      | Some sk \<Rightarrow> map_option (\<lambda>(res, sk, n). (res, Some sk, n)) (init_sock addr magic typ abort async sk n))"

definition listen_sock :: "ncclSocket \<Rightarrow> net \<Rightarrow> sock_res" where
  "listen_sock sk n =
     (if sk_fd sk = -1 then Some (ncclInvalidArgument, sk, n)
      else and_then (if socketToPort (sk_addr sk) \<noteq> 0 then syscheck_ok (CSetsockopt (sk_fd sk) ''SO_REUSEPORT'') sk n
                     else Some (ncclSuccess, sk, n)) (\<lambda>sk n.
           and_then (syscheck_ok (CBind (sk_fd sk)) sk n) (\<lambda>sk n.
             case syscheck (CGetsockname (sk_fd sk)) n of
               Some (Fail e, n) \<Rightarrow> Some (ncclSystemError, sk, n)
             | Some (Name a, n) \<Rightarrow>
                 and_then (syscheck_ok (CListen (sk_fd sk)) (sk\<lparr> sk_addr := a \<rparr>) n) (\<lambda>sk n.
                   Some (ncclSuccess, sk\<lparr> sk_state := ncclSocketStateReady \<rparr>, n))
             | _ \<Rightarrow> None)))"

definition ncclSocketListen :: "ncclSocket option \<Rightarrow> net \<Rightarrow> (ncclResult \<times> ncclSocket option \<times> net) option" where
  "ncclSocketListen = non_null listen_sock"

definition ncclSocketGetAddr :: "ncclSocket option \<Rightarrow> ncclResult \<times> ncclSocketAddress option" where
  "ncclSocketGetAddr s =
     (case s of None \<Rightarrow> (ncclInvalidArgument, None)
      | Some sk \<Rightarrow> if sk_state sk \<noteq> ncclSocketStateReady then (ncclInternalError, None)
                   else (ncclSuccess, Some (sk_addr sk)))"

definition ncclSocketPollConnect :: "ncclSocket option \<Rightarrow> net \<Rightarrow> (ncclResult \<times> ncclSocket option \<times> net) option" where
  "ncclSocketPollConnect = non_null socketPollConnect"

text \<open>The transfers on a ready socket; the buffer is part of the result.\<close>

definition ncclSocketSend :: "u8 list \<Rightarrow> ncclSocket option \<Rightarrow> net \<Rightarrow> (ncclResult \<times> net) option" where
  "ncclSocketSend buf s n =
     (case s of None \<Rightarrow> Some (ncclInvalidArgument, n)
      | Some sk \<Rightarrow> if sk_state sk \<noteq> ncclSocketStateReady then Some (ncclInternalError, n)
                   else map_option (\<lambda>(res, _, _, n). (res, n)) (socketWait NCCL_SOCKET_SEND (io sk) buf 0 n))"

definition ncclSocketRecv :: "u8 list \<Rightarrow> ncclSocket option \<Rightarrow> net \<Rightarrow> (ncclResult \<times> u8 list \<times> net) option" where
  "ncclSocketRecv buf s n =
     (case s of None \<Rightarrow> Some (ncclInvalidArgument, buf, n)
      | Some sk \<Rightarrow> if sk_state sk \<noteq> ncclSocketStateReady then Some (ncclInternalError, buf, n)
                   else map_option (\<lambda>(res, buf, _, n). (res, buf, n)) (socketWait NCCL_SOCKET_RECV (io sk) buf 0 n))"

definition ncclSocketProgress ::
    "sock_op \<Rightarrow> u8 list \<Rightarrow> nat \<Rightarrow> ncclSocket option \<Rightarrow> net \<Rightarrow> (ncclResult \<times> u8 list \<times> nat \<times> net) option" where
  "ncclSocketProgress op buf off s n =
     (case s of None \<Rightarrow> Some (ncclInvalidArgument, buf, off, n) | Some sk \<Rightarrow> socketProgress op (io sk) buf off n)"

definition ncclSocketWait ::
    "sock_op \<Rightarrow> u8 list \<Rightarrow> nat \<Rightarrow> ncclSocket option \<Rightarrow> net \<Rightarrow> (ncclResult \<times> u8 list \<times> nat \<times> net) option" where
  "ncclSocketWait op buf off s n =
     (case s of None \<Rightarrow> Some (ncclInvalidArgument, buf, off, n) | Some sk \<Rightarrow> socketWait op (io sk) buf off n)"

definition ncclSocketClose :: "ncclSocket option \<Rightarrow> net \<Rightarrow> ncclResult \<times> ncclSocket option \<times> net" where
  "ncclSocketClose s n =
     (case s of None \<Rightarrow> (ncclSuccess, None, n)
      | Some sk \<Rightarrow>
          (ncclSuccess, Some (sk\<lparr> sk_state := ncclSocketStateClosed, sk_fd := -1 \<rparr>),
           if 0 \<le> sk_fd sk then sys_void (CClose (sk_fd sk)) (sys_void (CShutdown (sk_fd sk)) n) else n))"

definition ncclSocketGetFd :: "ncclSocket option \<Rightarrow> ncclResult \<times> int option" where
  "ncclSocketGetFd s = (case s of None \<Rightarrow> (ncclInvalidArgument, None) | Some sk \<Rightarrow> (ncclSuccess, Some (sk_fd sk)))"

definition ncclSocketSetFd :: "int \<Rightarrow> ncclSocket option \<Rightarrow> ncclResult \<times> ncclSocket option" where
  "ncclSocketSetFd fd s =
     (case s of None \<Rightarrow> (ncclInvalidArgument, None) | Some sk \<Rightarrow> (ncclSuccess, Some (sk\<lparr> sk_fd := fd \<rparr>)))"

definition ncclSocketTryRecv ::
    "u8 list \<Rightarrow> bool \<Rightarrow> ncclSocket option \<Rightarrow> net \<Rightarrow> (ncclResult \<times> bool \<times> u8 list \<times> net) option" where
  "ncclSocketTryRecv buf blocking s n =
     (case s of None \<Rightarrow> Some (ncclInvalidArgument, False, buf, n) | Some sk \<Rightarrow> try_recv (io sk) buf blocking n)"

end
