(* ===== verification/Handshake.thy ===== *)
theory Handshake
  imports Socket
begin

text \<open>
  What makes a socket ready: the exchange of the magic number and the type between the connecting
  and the accepting end, the bounded retries of a refused connection, and the invariant of every
  socket a program can have.
\<close>

section \<open>The bytes of an integer\<close>

lemma length_le_bytes [simp]: "length (le_bytes n w) = n"
  by (simp add: le_bytes_def)

lemma le_bytes_inj:
  assumes "le_bytes n (v :: 'a::len word) = le_bytes n w" "LENGTH('a) \<le> 8 * n"
  shows "v = w"
proof (rule bit_word_eqI)
  fix k assume k: "k < LENGTH('a)"
  let ?i = "k div 8" let ?j = "k mod 8"
  have "?i < n" using k assms(2) by (simp add: div_less_iff_less_mult mult.commute)
  then have "(ucast (drop_bit (8 * ?i) v) :: u8) = ucast (drop_bit (8 * ?i) w)"
    using arg_cong [OF assms(1), of "\<lambda>bs. bs ! ?i"] by (simp add: le_bytes_def)
  then have "bit (ucast (drop_bit (8 * ?i) v) :: u8) ?j = bit (ucast (drop_bit (8 * ?i) w) :: u8) ?j" by simp
  then show "bit v k = bit w k" using k by (simp add: bit_ucast_iff bit_drop_bit_eq)
qed

lemma type_code_inj: "type_code s = type_code t \<Longrightarrow> s = t"
  by (cases s; cases t) simp_all

lemma length_magic_bytes [simp]: "length (magic_bytes sk) = 8" "length (type_bytes sk) = 4"
  by (simp_all add: magic_bytes_def type_bytes_def)

lemma magic_bytes_nonempty [simp]: "magic_bytes sk \<noteq> []" "type_bytes sk \<noteq> []"
  using length_magic_bytes [of sk] by (metis list.size(3) zero_neq_numeral)+

lemma magic_type_inj:
  "magic_bytes s @ type_bytes s = magic_bytes t @ type_bytes t \<Longrightarrow> sk_magic s = sk_magic t \<and> sk_type s = sk_type t"
  by (auto simp: magic_bytes_def type_bytes_def dest!: le_bytes_inj type_code_inj)

section \<open>The log of the handlers\<close>

text \<open>\<open>grows n n' op B\<close>: the log grew, by calls that moved the bytes \<open>B\<close>.\<close>

definition grows :: "sock_op \<Rightarrow> net \<Rightarrow> u8 list \<Rightarrow> net \<Rightarrow> bool" where
  "grows op n B n' \<longleftrightarrow> (\<exists>L. nt_log n' = nt_log n @ L \<and> log_bytes op L = B)"

lemma grows_trans: "grows op n1 B n2 \<Longrightarrow> grows op n2 C n3 \<Longrightarrow> grows op n1 (B @ C) n3"
  by (auto simp: grows_def)

lemma grows_sys: "sys c n = Some (r, n') \<Longrightarrow> grows op n (call_bytes op (c, r)) n'"
  by (auto simp: grows_def dest!: sys_log)

lemma grows_void: "grows op n (call_bytes op (c, Ok)) (sys_void c n)"
  by (auto simp: grows_def sys_void_def)

lemma grows_syscheck:
  "syscheck c n = Some (r, n') \<Longrightarrow> \<forall>r. call_bytes op (c, r) = [] \<Longrightarrow> grows op n [] n'"
proof (induction c n rule: syscheck.induct)
  case (1 c n)
  obtain r1 n1 where s: "sys c n = Some (r1, n1)"
    using 1(2) by (subst (asm) syscheck.simps) (auto split: option.splits)
  have g: "grows op n [] n1" using grows_sys [OF s, of op] 1(3) by simp
  show ?case
  proof (cases "\<exists>e. r1 = Fail e \<and> retried e")
    case True
    then obtain e where e: "r1 = Fail e" "retried e" by blast
    then have "syscheck c n1 = Some (r, n')" using 1(2) s by (subst (asm) syscheck.simps) simp
    with 1(1) [OF s _ e] 1(3) have "grows op n1 [] n'" by simp
    with grows_trans [OF g] show ?thesis by fastforce
  next
    case False
    then show ?thesis using 1(2) s g by (subst (asm) syscheck.simps) (auto split: sysret.splits if_splits)
  qed
qed

lemma moves_grows:
  "moves op buf off n buf' off' n' \<Longrightarrow> \<exists>B. grows op n B n' \<and> off' = off + length B \<and> length buf' = length buf \<and>
     (case op of NCCL_SOCKET_RECV \<Rightarrow> buf' = store_bytes B off buf | NCCL_SOCKET_SEND \<Rightarrow> buf' = buf \<and> B = take (off' - off) (drop off buf))"
  unfolding moves_def grows_def by blast

lemma socketWait_res: "socketWait op sk buf off n = Some (res, r) \<Longrightarrow> res = ncclSuccess \<or> ncclCheckFails res"
proof (induction op sk buf off n rule: socketWait.induct)
  case (1 op sk buf off n)
  then show ?case by (subst (asm) socketWait.simps) (auto split: option.splits if_splits)
qed

text \<open>A wait on a fresh buffer: either it fails, or it has read exactly the bytes of the buffer.\<close>

lemma recv_cases:
  assumes "socketWait NCCL_SOCKET_RECV sk buf off n = Some (res, buf', off', n')" "off \<le> length buf"
  shows "ncclCheckFails res \<and> (\<exists>B. grows NCCL_SOCKET_RECV n B n') \<or>
    res = ncclSuccess \<and> (\<exists>B. grows NCCL_SOCKET_RECV n B n' \<and> buf' = take off buf @ B \<and> length buf' = length buf)"
proof -
  have m: "moves NCCL_SOCKET_RECV buf off n buf' off' n'" by (rule conjunct1 [OF socketWait_moves [OF assms]])
  then obtain B where B: "grows NCCL_SOCKET_RECV n B n'" using moves_grows by blast
  from socketWait_res [OF assms(1)] show ?thesis
  proof
    assume r: "res = ncclSuccess"
    from socketWait_closed [OF assms(1)[unfolded r] assms(2)] show ?thesis using r by (auto simp: grows_def)
  next
    assume "ncclCheckFails res" then show ?thesis using B by blast
  qed
qed

lemma progress_cases:
  assumes "socketProgress op sk buf 0 n = Some (res, buf', off', n')"
  shows "(ncclCheckFails res \<or> res = ncclSuccess) \<and> (\<exists>B. grows op n B n' \<and> off' = length B \<and> off' \<le> length buf \<and>
    length buf' = length buf \<and> (case op of NCCL_SOCKET_RECV \<Rightarrow> buf' = B @ drop (length B) buf
      | NCCL_SOCKET_SEND \<Rightarrow> buf' = buf \<and> B = take off' buf))"
proof -
  have m: "moves op buf 0 n buf' off' n'" by (rule socketProgress_moves [OF assms]) simp
  have "ncclCheckFails res \<or> res = ncclSuccess"
    using assms by (auto simp: socketProgress_def split: option.splits if_splits)
  moreover have "off' \<le> length buf" using m unfolding moves_def by blast
  ultimately show ?thesis using moves_grows [OF m] by (cases op) (auto simp: store_bytes_def)
qed

section \<open>Accepting\<close>

text \<open>
  The outcomes of one run of the accepting handler, by the bytes it read: a failed transfer, nothing
  yet, a wrong magic number, a wrong type, or a ready socket.
\<close>

definition accept_outcome :: "ncclSocket \<Rightarrow> net \<Rightarrow> ncclResult \<Rightarrow> ncclSocket \<Rightarrow> net \<Rightarrow> bool" where
  "accept_outcome sk n res sk' n' \<longleftrightarrow>
     (\<exists>B. grows NCCL_SOCKET_RECV n B n' \<and>
        (if ncclCheckFails res \<and> sk_state sk' \<noteq> ncclSocketStateError then sk' = sk
         else if B = [] then res = ncclSuccess \<and> sk' = sk
         else if length B = 8 then
           res = ncclSuccess \<and> B \<noteq> magic_bytes sk \<and> sk' = sk\<lparr> sk_fd := -1, sk_state := ncclSocketStateAccepting \<rparr> \<and>
           last (nt_log n') = (CClose (sk_fd sk), Ok)
         else if B = magic_bytes sk @ type_bytes sk then res = ncclSuccess \<and> sk' = sk\<lparr> sk_state := ncclSocketStateReady \<rparr>
         else length B = 12 \<and> take 8 B = magic_bytes sk \<and> res = ncclInternalError \<and>
           sk' = sk\<lparr> sk_state := ncclSocketStateError, sk_fd := -1 \<rparr> \<and> last (nt_log n') = (CClose (sk_fd sk), Ok)))"

lemma check_magic_outcome:
  assumes "check_magic M sk n = Some (res, sk', n')" "grows NCCL_SOCKET_RECV n0 M n" "length M = 8"
    "sk_state sk \<noteq> ncclSocketStateError"
  shows "accept_outcome sk n0 res sk' n'"
proof (cases "M = magic_bytes sk")
  case False
  have "grows NCCL_SOCKET_RECV n0 M (sys_void (CClose (sk_fd sk)) n)"
    using grows_trans [OF assms(2) grows_void [where c = "CClose (sk_fd sk)"]] by simp
  then show ?thesis using assms False unfolding accept_outcome_def
    by (intro exI [of _ M]) (auto simp: check_magic_def sys_void_def)
next
  case True
  then obtain r t o1 n1 where w: "socketWait NCCL_SOCKET_RECV (io sk) (replicate 4 0) 0 n = Some (r, t, o1, n1)"
    using assms(1) by (auto simp: check_magic_def split: option.splits)
  from recv_cases [OF w le0] show ?thesis
  proof (elim disjE conjE exE)
    fix B assume f: "ncclCheckFails r" and g: "grows NCCL_SOCKET_RECV n B n1"
    then have "res = r" "sk' = sk" "n' = n1" using assms(1) True w by (auto simp: check_magic_def)
    with f grows_trans [OF assms(2) g] show ?thesis using assms(4) unfolding accept_outcome_def by auto
  next
    fix B assume r: "r = ncclSuccess" and g: "grows NCCL_SOCKET_RECV n B n1" and t: "t = take 0 (replicate 4 0) @ B"
      and len: "length t = length (replicate 4 (0 :: u8))"
    have g2: "grows NCCL_SOCKET_RECV n0 (M @ B) n1" using grows_trans [OF assms(2) g] .
    have ne: "M @ B \<noteq> []" "length (M @ B) = 12" "take 8 (M @ B) = M" using t len assms(3) by auto
    show ?thesis
    proof (cases "B = type_bytes sk")
      case True
      then have "res = ncclSuccess" "sk' = sk\<lparr> sk_state := ncclSocketStateReady \<rparr>" "n' = n1"
        using assms(1) \<open>M = magic_bytes sk\<close> w r t by (auto simp: check_magic_def)
      then show ?thesis using g2 ne True \<open>M = magic_bytes sk\<close> unfolding accept_outcome_def
        by (intro exI [of _ "M @ B"]) simp
    next
      case False
      then have "res = ncclInternalError" "sk' = sk\<lparr> sk_state := ncclSocketStateError, sk_fd := -1 \<rparr>"
        "n' = sys_void (CClose (sk_fd sk)) n1"
        using assms(1) \<open>M = magic_bytes sk\<close> w r t by (auto simp: check_magic_def)
      moreover have "grows NCCL_SOCKET_RECV n0 (M @ B) (sys_void (CClose (sk_fd sk)) n1)"
        using grows_trans [OF g2 grows_void [where c = "CClose (sk_fd sk)"]] by simp
      ultimately show ?thesis using ne False \<open>M = magic_bytes sk\<close> unfolding accept_outcome_def
        by (intro exI [of _ "M @ B"]) (simp add: sys_void_def)
    qed
  qed
qed

lemma accept_outcomes:
  assumes run: "socketFinalizeAccept sk n = Some (res, sk', n')" and st: "sk_state sk \<noteq> ncclSocketStateError"
  shows "accept_outcome sk n res sk' n'"
proof -
  obtain r1 n1 where s: "syscheck (CSetsockopt (sk_fd sk) ''TCP_NODELAY'') n = Some (r1, n1)"
    using run by (auto simp: socketFinalizeAccept_def and_then_def syscheck_ok_def split: option.splits)
  have g1: "grows NCCL_SOCKET_RECV n [] n1" using grows_syscheck [OF s, of NCCL_SOCKET_RECV] by simp
  show ?thesis
  proof (cases r1)
    case (Fail e)
    then have "res = ncclSystemError" "sk' = sk" "n' = n1"
      using run s by (auto simp: socketFinalizeAccept_def and_then_def syscheck_ok_def)
    then show ?thesis using g1 st unfolding accept_outcome_def by auto
  next
    case Ok
    then obtain r2 M k n2 where p: "socketProgress NCCL_SOCKET_RECV (io sk) (replicate 8 0) 0 n1 = Some (r2, M, k, n2)"
      using run s by (auto simp: socketFinalizeAccept_def and_then_def syscheck_ok_def split: option.splits)
    from progress_cases [OF p] obtain B where B: "ncclCheckFails r2 \<or> r2 = ncclSuccess" "grows NCCL_SOCKET_RECV n1 B n2"
      "k = length B" "k \<le> 8" "length M = 8" "M = B @ drop k (replicate 8 0)" by auto
    have g2: "grows NCCL_SOCKET_RECV n B n2" using grows_trans [OF g1 B(2)] by simp
    show ?thesis
    proof (cases "ncclCheckFails r2 \<or> k = 0")
      case True
      then have "res = r2" "sk' = sk" "n' = n2"
        using run s Ok p B(1) by (auto simp: socketFinalizeAccept_def and_then_def syscheck_ok_def)
      then show ?thesis using g2 st True B(1,3) unfolding accept_outcome_def by (intro exI [of _ B]) auto
    next
      case False
      then obtain r3 M' k' n3 where w: "socketWait NCCL_SOCKET_RECV (io sk) M k n2 = Some (r3, M', k', n3)"
        using run s Ok p by (auto simp: socketFinalizeAccept_def and_then_def syscheck_ok_def split: option.splits)
      have "k \<le> length M" using B(4,5) by simp
      from recv_cases [OF w this] show ?thesis
      proof (elim disjE conjE exE)
        fix C assume f: "ncclCheckFails r3" and g: "grows NCCL_SOCKET_RECV n2 C n3"
        then have "res = r3" "sk' = sk" "n' = n3"
          using run s Ok p w False by (auto simp: socketFinalizeAccept_def and_then_def syscheck_ok_def)
        then show ?thesis using f grows_trans [OF g2 g] st unfolding accept_outcome_def by auto
      next
        fix C assume r: "r3 = ncclSuccess" and g: "grows NCCL_SOCKET_RECV n2 C n3" and m: "M' = take k M @ C" "length M' = length M"
        have "take k M = B" using B by simp
        then have "grows NCCL_SOCKET_RECV n M' n3" using grows_trans [OF g2 g] m by simp
        moreover have "check_magic M' sk n3 = Some (res, sk', n')"
          using run s Ok p w False r by (auto simp: socketFinalizeAccept_def and_then_def syscheck_ok_def)
        ultimately show ?thesis using check_magic_outcome m(2) B(5) st by simp
      qed
    qed
  qed (use run s in \<open>auto simp: socketFinalizeAccept_def and_then_def syscheck_ok_def\<close>)
qed

lemma accept_ready:
  assumes "accept_outcome sk n res sk' n'" "sk_state sk = ncclSocketStateAccepted" "sk_state sk' = ncclSocketStateReady"
  shows "grows NCCL_SOCKET_RECV n (magic_bytes sk @ type_bytes sk) n' \<and> res = ncclSuccess \<and>
    sk' = sk\<lparr> sk_state := ncclSocketStateReady \<rparr>"
proof -
  obtain B where g: "grows NCCL_SOCKET_RECV n B n'" and c:
    "if ncclCheckFails res \<and> sk_state sk' \<noteq> ncclSocketStateError then sk' = sk
     else if B = [] then res = ncclSuccess \<and> sk' = sk
     else if length B = 8 then
       res = ncclSuccess \<and> B \<noteq> magic_bytes sk \<and> sk' = sk\<lparr> sk_fd := -1, sk_state := ncclSocketStateAccepting \<rparr> \<and>
       last (nt_log n') = (CClose (sk_fd sk), Ok)
     else if B = magic_bytes sk @ type_bytes sk then res = ncclSuccess \<and> sk' = sk\<lparr> sk_state := ncclSocketStateReady \<rparr>
     else length B = 12 \<and> take 8 B = magic_bytes sk \<and> res = ncclInternalError \<and>
       sk' = sk\<lparr> sk_state := ncclSocketStateError, sk_fd := -1 \<rparr> \<and> last (nt_log n') = (CClose (sk_fd sk), Ok)"
    using assms(1) unfolding accept_outcome_def by blast
  have ne: "sk' \<noteq> sk" "sk' \<noteq> sk\<lparr> sk_fd := -1, sk_state := ncclSocketStateAccepting \<rparr>"
    "sk' \<noteq> sk\<lparr> sk_state := ncclSocketStateError, sk_fd := -1 \<rparr>" using assms(2,3) by auto
  have n1: "\<not> (ncclCheckFails res \<and> sk_state sk' \<noteq> ncclSocketStateError)" using c ne(1) if_P by metis
  note c1 = c [unfolded if_not_P [OF n1]]
  have n2: "B \<noteq> []" using c1 ne(1) if_P by metis
  note c2 = c1 [unfolded if_not_P [OF n2]]
  have n3: "length B \<noteq> 8" using c2 ne(2) if_P by metis
  note c3 = c2 [unfolded if_not_P [OF n3]]
  have n4: "B = magic_bytes sk @ type_bytes sk" using c3 ne(3) if_not_P by metis
  show ?thesis using c3 g n4 by simp
qed

section \<open>Connecting\<close>

lemma send_cases:
  assumes "socketWait NCCL_SOCKET_SEND sk buf off n = Some (ncclSuccess, buf', off', n')" "off \<le> length buf"
  shows "grows NCCL_SOCKET_SEND n (drop off buf) n'"
  using socketWait_closed [OF assms] by (auto simp: grows_def)

lemma connect_ready:
  assumes run: "socketFinalizeConnect sk n = Some (res, sk', n')" and st: "sk_state sk \<noteq> ncclSocketStateReady"
    and ready: "sk_state sk' = ncclSocketStateReady"
  shows "res = ncclSuccess" "sk' = sk\<lparr> sk_state := ncclSocketStateReady \<rparr>"
    "grows NCCL_SOCKET_SEND n (magic_bytes sk @ type_bytes sk) n'"
proof -
  obtain r1 b1 k n1 where p: "socketProgress NCCL_SOCKET_SEND (io sk) (magic_bytes sk) 0 n = Some (r1, b1, k, n1)"
    using run by (auto simp: socketFinalizeConnect_def split: option.splits)
  from progress_cases [OF p] have P: "ncclCheckFails r1 \<or> r1 = ncclSuccess" "k \<le> 8" "grows NCCL_SOCKET_SEND n (take k (magic_bytes sk)) n1"
    by auto
  have ok1: "r1 = ncclSuccess" "k \<noteq> 0" using run p st ready P(1) by (auto simp: socketFinalizeConnect_def split: if_splits)
  then obtain r2 b2 k2 n2 where w: "socketWait NCCL_SOCKET_SEND (io sk) (magic_bytes sk) k n1 = Some (r2, b2, k2, n2)"
    using run p by (auto simp: socketFinalizeConnect_def split: option.splits)
  have ok2: "r2 = ncclSuccess" using run p w ok1 st ready socketWait_res [OF w]
    by (auto simp: socketFinalizeConnect_def split: if_splits)
  then obtain r3 b3 k3 n3 where v: "socketWait NCCL_SOCKET_SEND (io sk) (type_bytes sk) 0 n2 = Some (r3, b3, k3, n3)"
    using run p w ok1 by (auto simp: socketFinalizeConnect_def split: option.splits)
  have ok3: "r3 = ncclSuccess" using run p w v ok1 ok2 st ready socketWait_res [OF v]
    by (auto simp: socketFinalizeConnect_def split: if_splits)
  show "res = ncclSuccess" "sk' = sk\<lparr> sk_state := ncclSocketStateReady \<rparr>"
    using run p w v ok1 ok2 ok3 by (auto simp: socketFinalizeConnect_def)
  have "n' = n3" using run p w v ok1 ok2 ok3 by (auto simp: socketFinalizeConnect_def)
  moreover have "grows NCCL_SOCKET_SEND n1 (drop k (magic_bytes sk)) n2" using send_cases [OF w[unfolded ok2]] P(2) by simp
  moreover have "grows NCCL_SOCKET_SEND n2 (type_bytes sk) n3" using send_cases [OF v[unfolded ok3]] by simp
  ultimately show "grows NCCL_SOCKET_SEND n (magic_bytes sk @ type_bytes sk) n'"
    using grows_trans [OF grows_trans [OF P(3)]] by (metis append_take_drop_id)
qed

section \<open>Properties of the exchange\<close>

text \<open>
  The accepting end decides by the bytes it reads: nothing yet keeps waiting; eight bytes
  that are not its magic number close the connection and go back to accepting; the magic number with
  the wrong type closes it and is an error; exactly its magic number and type make it ready; and a
  failed transfer leaves the socket as it was.
\<close>
theorem accept_decides:
  assumes "socketFinalizeAccept sk n = Some (res, sk', n')" "sk_state sk = ncclSocketStateAccepted"
  shows "accept_outcome sk n res sk' n'"
  using assms by (intro accept_outcomes) simp_all

text \<open>
  C23: when both ends of a connection have become ready, and the network gave one the bytes
  the other sent, they agree on the magic number and on the type: no socket is ever ready with a
  peer of another kind.
\<close>
theorem handshake_agreement:
  assumes "socketFinalizeConnect c nc = Some (rc, c', nc')" "sk_state c = ncclSocketStateConnected"
    "sk_state c' = ncclSocketStateReady"
    "socketFinalizeAccept a na = Some (ra, a', na')" "sk_state a = ncclSocketStateAccepted"
    "sk_state a' = ncclSocketStateReady"
    "nt_log nc = []" "nt_log na = []" "log_bytes NCCL_SOCKET_RECV (nt_log na') = log_bytes NCCL_SOCKET_SEND (nt_log nc')"
  shows "rc = ncclSuccess \<and> ra = ncclSuccess \<and> sk_magic a' = sk_magic c' \<and> sk_type a' = sk_type c' \<and>
    length (log_bytes NCCL_SOCKET_RECV (nt_log na')) = 12"
proof -
  have st: "sk_state c \<noteq> ncclSocketStateReady" "sk_state a \<noteq> ncclSocketStateError" using assms(2,5) by simp_all
  note C = connect_ready [OF assms(1) st(1) assms(3)]
  have A: "grows NCCL_SOCKET_RECV na (magic_bytes a @ type_bytes a) na'" "ra = ncclSuccess"
    "a' = a\<lparr> sk_state := ncclSocketStateReady \<rparr>"
    using accept_ready [OF accept_outcomes [OF assms(4) st(2)] assms(5,6)] by blast+
  have b: "log_bytes NCCL_SOCKET_RECV (nt_log na') = magic_bytes a @ type_bytes a" using A(1) assms(8) by (auto simp: grows_def)
  moreover have "log_bytes NCCL_SOCKET_SEND (nt_log nc') = magic_bytes c @ type_bytes c" using C(3) assms(7) by (auto simp: grows_def)
  ultimately have "sk_magic a = sk_magic c \<and> sk_type a = sk_type c" using assms(9) by (intro magic_type_inj) simp
  then show ?thesis using C(1,2) A(2,3) b by simp
qed

definition example_sock :: "ncclSocketState \<Rightarrow> u64 \<Rightarrow> ncclSocket" where
  "example_sock st magic = \<lparr> sk_fd = 7, sk_acceptFd = 5, sk_timedOutRetries = 0, sk_refusedRetries = 0,
     sk_addr = \<lparr> sa_family = AF_INET, sa_port = 0, sa_addr = [127, 0, 0, 1], sa_scope_id = 0 \<rparr>, sk_abortFlag = False,
     sk_asyncFlag = False, sk_state = st, sk_salen = 16, sk_magic = magic, sk_type = ncclSocketTypeNetIb \<rparr>"

lemma example_sock_sel [simp]:
  "sk_fd (example_sock st m) = 7" "sk_state (example_sock st m) = st" "sk_magic (example_sock st m) = m"
  "sk_asyncFlag (example_sock st m) = False" "sk_refusedRetries (example_sock st m) = 0"
  "io (example_sock st m) = \<lparr> io_fd = 7, io_abort = False \<rparr>"
  by (simp_all add: example_sock_def io_def)

lemmas socket_eval =
  socketFinalizeAccept_def socketFinalizeConnect_def and_then_def syscheck_ok_def syscheck.simps socketProgress_def
  socketProgressOpt.simps socketWait.simps transfer_def sys_def load_abort_def retried_def check_magic_def store_bytes_def

text \<open>The magic number comes in two pieces, and the type after an interruption.\<close>

definition example_answers :: "ncclSocket \<Rightarrow> net" where
  "example_answers a = \<lparr> nt_in = [Ok, Bytes (take 3 (magic_bytes a)), Bytes (drop 3 (magic_bytes a)), Fail EINTR,
     Bytes (type_bytes a)], nt_log = [] \<rparr>"

lemma example_accept:
  "\<exists>n'. socketFinalizeAccept (example_sock ncclSocketStateAccepted 77) (example_answers (example_sock ncclSocketStateAccepted 77)) =
     Some (ncclSuccess, (example_sock ncclSocketStateAccepted 77)\<lparr> sk_state := ncclSocketStateReady \<rparr>, n')"
  by (simp add: socket_eval example_answers_def)

theorem accept_decides_witness:
  "\<exists>res sk' n'. socketFinalizeAccept (example_sock ncclSocketStateAccepted 77)
       (example_answers (example_sock ncclSocketStateAccepted 77)) = Some (res, sk', n') \<and>
     accept_outcome (example_sock ncclSocketStateAccepted 77) (example_answers (example_sock ncclSocketStateAccepted 77)) res sk' n'"
proof -
  obtain n' where r: "socketFinalizeAccept (example_sock ncclSocketStateAccepted 77) (example_answers (example_sock ncclSocketStateAccepted 77)) =
     Some (ncclSuccess, (example_sock ncclSocketStateAccepted 77)\<lparr> sk_state := ncclSocketStateReady \<rparr>, n')"
    using example_accept by blast
  from accept_decides [OF r] show ?thesis using r by auto
qed

theorem handshake_agreement_witness:
  "\<exists>c' nc' a' na'.
     socketFinalizeConnect (example_sock ncclSocketStateConnected 77) \<lparr> nt_in = [Sent 5, Sent 3, Fail EAGAIN, Sent 4], nt_log = [] \<rparr> =
       Some (ncclSuccess, c', nc') \<and>
     socketFinalizeAccept (example_sock ncclSocketStateAccepted 77) (example_answers (example_sock ncclSocketStateAccepted 77)) =
       Some (ncclSuccess, a', na') \<and> sk_magic a' = sk_magic c' \<and> sk_type a' = sk_type c'"
proof -
  let ?c = "example_sock ncclSocketStateConnected 77" let ?a = "example_sock ncclSocketStateAccepted 77"
  let ?nc = "\<lparr> nt_in = [Sent 5, Sent 3, Fail EAGAIN, Sent 4], nt_log = [] \<rparr>"
  obtain nc' where c: "socketFinalizeConnect ?c ?nc = Some (ncclSuccess, ?c\<lparr> sk_state := ncclSocketStateReady \<rparr>, nc')"
    "log_bytes NCCL_SOCKET_SEND (nt_log nc') = magic_bytes ?c @ type_bytes ?c"
    by (simp add: socket_eval)
  obtain na' where a: "socketFinalizeAccept ?a (example_answers ?a) = Some (ncclSuccess, ?a\<lparr> sk_state := ncclSocketStateReady \<rparr>, na')"
    "log_bytes NCCL_SOCKET_RECV (nt_log na') = magic_bytes ?a @ type_bytes ?a"
    by (simp add: socket_eval example_answers_def)
  have "magic_bytes ?c = magic_bytes ?a" "type_bytes ?c = type_bytes ?a"
    by (simp_all add: magic_bytes_def type_bytes_def example_sock_def)
  then have e: "log_bytes NCCL_SOCKET_RECV (nt_log na') = log_bytes NCCL_SOCKET_SEND (nt_log nc')" using a(2) c(2) by simp
  have "sk_magic (?a\<lparr> sk_state := ncclSocketStateReady \<rparr>) = sk_magic (?c\<lparr> sk_state := ncclSocketStateReady \<rparr>) \<and>
      sk_type (?a\<lparr> sk_state := ncclSocketStateReady \<rparr>) = sk_type (?c\<lparr> sk_state := ncclSocketStateReady \<rparr>)"
    using handshake_agreement [OF c(1) _ _ a(1) _ _ _ _ e] by (simp add: example_answers_def)
  then show ?thesis using a(1) c(1) by blast
qed

section \<open>Bounded retries\<close>

text \<open>A peer that refuses every attempt.\<close>

definition refusals :: "nat \<Rightarrow> (syscall \<times> sysret) list \<Rightarrow> net" where
  "refusals k L = \<lparr> nt_in = replicate k (Fail ECONNREFUSED), nt_log = L \<rparr>"

lemma progress_connecting:
  assumes "sk_state sk = ncclSocketStateConnecting"
  shows "socketProgressState sk n = and_then (and_then (socketStartConnect sk n)
    (in_state ncclSocketStateConnectPolling socketPollConnect)) (in_state ncclSocketStateConnected socketFinalizeConnect)"
  using assms by (simp add: socketProgressState_def in_state_def and_then_def)

lemma refused_step:
  assumes "sk_state sk = ncclSocketStateConnecting"
  shows "socketProgressState sk (refusals (Suc k) L) =
    (if sk_refusedRetries sk + 1 = RETRY_REFUSED_TIMES
     then Some (ncclRemoteError, sk\<lparr> sk_refusedRetries := RETRY_REFUSED_TIMES, sk_state := ncclSocketStateError \<rparr>,
            refusals k (L @ [(CConnect (sk_fd sk), Fail ECONNREFUSED)]))
     else Some (ncclSuccess, sk\<lparr> sk_refusedRetries := sk_refusedRetries sk + 1 \<rparr>,
            refusals k (L @ [(CConnect (sk_fd sk), Fail ECONNREFUSED)])))"
  using assms unfolding progress_connecting [OF assms]
  by (auto simp: socketStartConnect_def refusals_def sys_def count_refused_def and_then_def in_state_def Let_def)

lemma refused_loop:
  assumes "sk_state sk = ncclSocketStateConnecting" "\<not> sk_asyncFlag sk" "\<not> sk_abortFlag sk"
    "sk_refusedRetries sk + Suc j = RETRY_REFUSED_TIMES"
  shows "progress_loop False sk (refusals (Suc j + k) L) =
    Some (ncclRemoteError, sk\<lparr> sk_refusedRetries := RETRY_REFUSED_TIMES, sk_state := ncclSocketStateError \<rparr>,
      refusals k (L @ replicate (Suc j) (CConnect (sk_fd sk), Fail ECONNREFUSED)))"
  using assms
proof (induction j arbitrary: sk L)
  case 0
  then show ?case by (subst progress_loop.simps) (simp add: refused_step)
next
  case (Suc j)
  let ?sk = "sk\<lparr> sk_refusedRetries := sk_refusedRetries sk + 1 \<rparr>"
  have step: "socketProgressState sk (refusals (Suc (Suc j) + k) L) =
      Some (ncclSuccess, ?sk, refusals (Suc j + k) (L @ [(CConnect (sk_fd sk), Fail ECONNREFUSED)]))"
    using refused_step [OF Suc.prems(1), of "Suc j + k" L] Suc.prems(4) by simp
  have "progress_loop False sk (refusals (Suc (Suc j) + k) L) =
      progress_loop False ?sk (refusals (Suc j + k) (L @ [(CConnect (sk_fd sk), Fail ECONNREFUSED)]))"
    using Suc.prems(1-3) by (subst progress_loop.simps) (simp add: step [simplified] load_abort_def io_def loop_states_def)
  also have "\<dots> = Some (ncclRemoteError, sk\<lparr> sk_refusedRetries := RETRY_REFUSED_TIMES, sk_state := ncclSocketStateError \<rparr>,
      refusals k (L @ replicate (Suc (Suc j)) (CConnect (sk_fd sk), Fail ECONNREFUSED)))"
    using Suc.IH [of ?sk "L @ [(CConnect (sk_fd sk), Fail ECONNREFUSED)]"] Suc.prems by simp
  finally show ?case .
qed

text \<open>
  C26: connecting to a peer that refuses every attempt ends: a blocking \<^verbatim>\<open>ncclSocketConnect\<close> makes
  exactly 20000 attempts on its descriptor and returns a remote error with the socket in the
  error state.
\<close>
theorem connect_refused_terminates:
  assumes "sk_fd sk \<noteq> -1" "sk_state sk = ncclSocketStateInitialized" "\<not> sk_asyncFlag sk" "\<not> sk_abortFlag sk"
    "sk_refusedRetries sk = 0"
  shows "ncclSocketConnect (Some sk) \<lparr> nt_in = Ok # replicate (20000 + k) (Fail ECONNREFUSED), nt_log = [] \<rparr> =
    Some (ncclRemoteError, Some (sk\<lparr> sk_refusedRetries := 20000, sk_state := ncclSocketStateError \<rparr>),
      \<lparr> nt_in = replicate k (Fail ECONNREFUSED),
        nt_log = (CSetsockopt (sk_fd sk) ''TCP_NODELAY'', Ok) # replicate 20000 (CConnect (sk_fd sk), Fail ECONNREFUSED) \<rparr>)"
proof -
  let ?sk = "sk\<lparr> sk_state := ncclSocketStateConnecting \<rparr>"
  have "progress_loop False ?sk (refusals (Suc 19999 + k) [(CSetsockopt (sk_fd sk) ''TCP_NODELAY'', Ok)]) =
    Some (ncclRemoteError, ?sk\<lparr> sk_refusedRetries := RETRY_REFUSED_TIMES, sk_state := ncclSocketStateError \<rparr>,
      refusals k ([(CSetsockopt (sk_fd sk) ''TCP_NODELAY'', Ok)] @ replicate (Suc 19999) (CConnect (sk_fd ?sk), Fail ECONNREFUSED)))"
    using assms by (intro refused_loop) (simp_all add: RETRY_REFUSED_TIMES_def)
  then show ?thesis using assms
    by (simp add: ncclSocketConnect_def non_null_def connect_sock_def and_then_def syscheck_ok_def syscheck.simps
        sys_def refusals_def RETRY_REFUSED_TIMES_def del: replicate_Suc replicate.simps)
qed

theorem connect_refused_terminates_witness:
  "\<exists>s n. ncclSocketConnect (Some (example_sock ncclSocketStateInitialized 1))
     \<lparr> nt_in = Ok # replicate (20000 + 3) (Fail ECONNREFUSED), nt_log = [] \<rparr> = Some (ncclRemoteError, Some s, n) \<and>
     sk_state s = ncclSocketStateError \<and> length (nt_in n) = 3"
proof -
  have "\<not> sk_abortFlag (example_sock ncclSocketStateInitialized 1)" by (simp add: example_sock_def)
  from connect_refused_terminates [OF _ _ _ this, of 3] show ?thesis by simp
qed

section \<open>The invariant of a socket\<close>

text \<open>The sockets a program can have: created, and then taken through any of the operations.\<close>

inductive sock_reach :: "ncclSocket \<Rightarrow> bool" where
  init: "init_sock addr magic typ ab sy sk0 n = Some (res, sk, n') \<Longrightarrow> sock_reach sk"
| listen: "sock_reach sk \<Longrightarrow> listen_sock sk n = Some (res, sk', n') \<Longrightarrow> sock_reach sk'"
| connect: "sock_reach sk \<Longrightarrow> connect_sock sk n = Some (res, sk', n') \<Longrightarrow> sock_reach sk'"
| accept: "sock_reach sk \<Longrightarrow> sock_reach lsk \<Longrightarrow>
    ncclSocketAccept (Some sk) (Some lsk) n = Some (res, Some sk', n') \<Longrightarrow> sock_reach sk'"
| ready: "sock_reach sk \<Longrightarrow> ncclSocketReady (Some sk) n = Some (res, running, Some sk', n') \<Longrightarrow> sock_reach sk'"
| poll: "sock_reach sk \<Longrightarrow> sk_state sk = ncclSocketStateConnectPolling \<Longrightarrow>
    socketPollConnect sk n = Some (res, sk', n') \<Longrightarrow> sock_reach sk'"
| close: "sock_reach sk \<Longrightarrow> ncclSocketClose (Some sk) n = (res, Some sk', n') \<Longrightarrow> sock_reach sk'"

text \<open>A socket that can still try has attempts left, and one that is connected has a descriptor.\<close>

definition sock_inv :: "ncclSocket \<Rightarrow> bool" where
  "sock_inv sk \<longleftrightarrow>
     sk_refusedRetries sk \<le> RETRY_REFUSED_TIMES \<and> sk_timedOutRetries sk \<le> RETRY_TIMEDOUT_TIMES \<and>
     (if sk_state sk \<in> {ncclSocketStateInitialized, ncclSocketStateConnecting, ncclSocketStateConnectPolling, ncclSocketStateConnected}
      then sk_refusedRetries sk < RETRY_REFUSED_TIMES \<and> sk_timedOutRetries sk < RETRY_TIMEDOUT_TIMES else True) \<and>
     (if sk_state sk \<in> {ncclSocketStateAccepted, ncclSocketStateConnecting, ncclSocketStateConnectPolling,
                         ncclSocketStateConnected, ncclSocketStateReady}
      then sk_fd sk \<noteq> -1 else True)"

definition keeps :: "(ncclSocket \<Rightarrow> net \<Rightarrow> sock_res) \<Rightarrow> ncclSocketState \<Rightarrow> bool" where
  "keeps f s \<longleftrightarrow> (\<forall>sk n res sk' n'. sock_inv sk \<longrightarrow> sk_state sk = s \<longrightarrow> f sk n = Some (res, sk', n') \<longrightarrow> sock_inv sk')"

lemma keepsD: "keeps f s \<Longrightarrow> sock_inv sk \<Longrightarrow> sk_state sk = s \<Longrightarrow> f sk n = Some (res, sk', n') \<Longrightarrow> sock_inv sk'"
  unfolding keeps_def by blast

lemma keeps_accept: "keeps socketTryAccept ncclSocketStateAccepting"
  by (auto simp: keeps_def socketTryAccept_def sock_inv_def split: option.splits sysret.splits if_splits)

lemma keeps_start: "keeps socketStartConnect ncclSocketStateConnecting"
  by (auto simp: keeps_def socketStartConnect_def count_refused_def count_timed_out_def sock_inv_def Let_def
      RETRY_REFUSED_TIMES_def RETRY_TIMEDOUT_TIMES_def split: option.splits sysret.splits if_splits)

lemma keeps_poll: "keeps socketPollConnect ncclSocketStateConnectPolling"
  by (auto simp: keeps_def socketPollConnect_def count_refused_def count_timed_out_def sock_inv_def Let_def
      RETRY_REFUSED_TIMES_def RETRY_TIMEDOUT_TIMES_def split: option.splits sysret.splits if_splits)

lemma keeps_connect: "keeps socketFinalizeConnect ncclSocketStateConnected"
  by (auto simp: keeps_def socketFinalizeConnect_def sock_inv_def split: option.splits if_splits)

lemma syscheck_ok_sock: "syscheck_ok c sk n = Some (res, sk', n') \<Longrightarrow> sk' = sk"
  by (auto simp: syscheck_ok_def split: option.splits sysret.splits)

lemma keeps_finalize: "keeps socketFinalizeAccept ncclSocketStateAccepted"
proof (unfold keeps_def, intro allI impI)
  fix sk n res sk' n'
  assume i: "sock_inv sk" and s: "sk_state sk = ncclSocketStateAccepted" and r: "socketFinalizeAccept sk n = Some (res, sk', n')"
  have "sk' \<in> {sk, sk\<lparr> sk_fd := -1, sk_state := ncclSocketStateAccepting \<rparr>, sk\<lparr> sk_state := ncclSocketStateError, sk_fd := -1 \<rparr>,
      sk\<lparr> sk_state := ncclSocketStateReady \<rparr>}"
    using r by (auto simp: socketFinalizeAccept_def and_then_def check_magic_def dest!: syscheck_ok_sock split: option.splits if_splits)
  then show "sock_inv sk'" using i s by (auto simp: sock_inv_def)
qed

lemmas keeps_all = keeps_accept keeps_finalize keeps_start keeps_poll keeps_connect

definition inv_res :: "sock_res \<Rightarrow> bool" where
  "inv_res r \<longleftrightarrow> (\<forall>res sk n. r = Some (res, sk, n) \<longrightarrow> sock_inv sk)"

lemma inv_in_state: "keeps f s \<Longrightarrow> sock_inv sk \<Longrightarrow> inv_res (in_state s f sk n)"
  by (auto simp: inv_res_def in_state_def dest: keepsD split: if_splits)

lemma inv_and_then: "inv_res r \<Longrightarrow> (\<And>sk n. sock_inv sk \<Longrightarrow> inv_res (g sk n)) \<Longrightarrow> inv_res (and_then r g)"
  unfolding inv_res_def and_then_def by (fastforce split: option.splits if_splits)

lemma inv_progress: "sock_inv sk \<Longrightarrow> inv_res (socketProgressState sk n)"
  unfolding socketProgressState_def by (intro inv_and_then inv_in_state keeps_all)

lemma inv_loop: "sock_inv sk \<Longrightarrow> inv_res (progress_loop acc sk n)"
proof (induction acc sk n rule: progress_loop.induct)
  case (1 acc sk n)
  show ?case
  proof (cases "socketProgressState sk n")
    case None
    then show ?thesis by (subst progress_loop.simps) (simp add: inv_res_def)
  next
    case (Some q)
    then obtain res sk1 n1 where p: "socketProgressState sk n = Some (res, sk1, n1)" by (cases q) auto
    then have i: "sock_inv sk1" using inv_progress [OF 1(2), of n] by (simp add: inv_res_def)
    show ?thesis
    proof (cases "ncclCheckFails res \<or> sk_asyncFlag sk1")
      case True
      then show ?thesis using p i by (subst progress_loop.simps) (auto simp: inv_res_def)
    next
      case F: False
      show ?thesis
      proof (cases "load_abort (io sk1) n1")
        case None
        then show ?thesis using p F by (subst progress_loop.simps) (simp add: inv_res_def)
      next
        case (Some a)
        obtain ab n2 where a: "load_abort (io sk1) n1 = Some (ab, n2)" using Some by (cases a) auto
        show ?thesis
        proof (cases "\<not> ab \<and> sk_state sk1 \<in> loop_states acc")
          case True
          then show ?thesis using 1(1) [OF p refl refl _ _ a refl True i] p F a by (subst progress_loop.simps) simp
        next
          case False
          then show ?thesis using p F a i by (subst progress_loop.simps) (auto simp: inv_res_def)
        qed
      qed
    qed
  qed
qed

lemma inv_loop_result: "sock_inv sk \<Longrightarrow> inv_res (loop_result code sk n)"
  by (auto simp: inv_res_def loop_result_def split: option.splits)

lemma inv_resD: "inv_res r \<Longrightarrow> r = Some (res, sk, n) \<Longrightarrow> sock_inv sk"
  unfolding inv_res_def by blast

lemma inv_init: "init_sock addr magic typ ab sy sk0 n = Some (res, sk, n') \<Longrightarrow> sock_inv sk"
proof -
  assume r: "init_sock addr magic typ ab sy sk0 n = Some (res, sk, n')"
  have "sk_state sk = ncclSocketStateInitialized \<and> sk_refusedRetries sk = 0 \<and> sk_timedOutRetries sk = 0"
    using r by (auto simp: init_sock_def set_nonblocking_def and_then_def init_fail_def Let_def dest!: syscheck_ok_sock
        split: option.splits sysret.splits if_splits)
  then show ?thesis by (simp add: sock_inv_def RETRY_REFUSED_TIMES_def RETRY_TIMEDOUT_TIMES_def)
qed

lemma inv_listen:
  assumes "sock_inv sk" "listen_sock sk n = Some (res, sk', n')"
  shows "sock_inv sk'"
proof -
  have "sk_fd sk' = sk_fd sk \<and> sk_refusedRetries sk' = sk_refusedRetries sk \<and> sk_timedOutRetries sk' = sk_timedOutRetries sk \<and>
      (sk_state sk' = sk_state sk \<or> sk_state sk' = ncclSocketStateReady \<and> sk_fd sk \<noteq> -1)"
    using assms(2) by (auto simp: listen_sock_def and_then_def dest!: syscheck_ok_sock split: option.splits sysret.splits if_splits)
  then show ?thesis using assms(1) by (auto simp: sock_inv_def)
qed

lemma inv_connect:
  assumes "sock_inv sk" "connect_sock sk n = Some (res, sk', n')"
  shows "sock_inv sk'"
proof (cases "sk_fd sk = -1 \<or> sk_state sk \<noteq> ncclSocketStateInitialized")
  case True
  then show ?thesis using assms by (auto simp: connect_sock_def split: if_splits)
next
  case False
  have "inv_res (and_then (syscheck_ok (CSetsockopt (sk_fd sk) ''TCP_NODELAY'') sk n) (\<lambda>sk n.
      and_then (progress_loop False (sk\<lparr> sk_state := ncclSocketStateConnecting \<rparr>) n) (loop_result connect_code)))"
  proof -
    have "inv_res (and_then (progress_loop False (sk\<lparr> sk_state := ncclSocketStateConnecting \<rparr>) n1) (loop_result connect_code))" for n1
      by (intro inv_and_then inv_loop inv_loop_result) (use assms(1) False in \<open>simp_all add: sock_inv_def\<close>)
    then show ?thesis using assms(1) by (auto simp: inv_res_def and_then_def [of "syscheck_ok _ _ _"]
        dest!: syscheck_ok_sock split: option.splits if_splits)
  qed
  then show ?thesis using assms(2) False by (auto simp: connect_sock_def inv_res_def)
qed

lemma inv_accept:
  assumes "sock_inv sk" "sock_inv lsk" "ncclSocketAccept (Some sk) (Some lsk) n = Some (res, Some sk', n')"
  shows "sock_inv sk'"
proof (cases "sk_state lsk = ncclSocketStateReady")
  case False
  then show ?thesis using assms by (auto simp: ncclSocketAccept_def)
next
  case True
  let ?sk = "if sk_acceptFd sk = -1 then lsk\<lparr> sk_acceptFd := sk_fd lsk, sk_state := ncclSocketStateAccepting \<rparr> else sk"
  have "sock_inv ?sk" using assms(1,2) by (simp add: sock_inv_def)
  then have "inv_res (and_then (progress_loop True ?sk n) (loop_result accept_code))"
    by (intro inv_and_then inv_loop inv_loop_result)
  moreover have "and_then (progress_loop True ?sk n) (loop_result accept_code) = Some (res, sk', n')"
    using assms(3) True by (auto simp: ncclSocketAccept_def Let_def)
  ultimately show ?thesis by (rule inv_resD)
qed

text \<open>
  C24: in every state a socket can reach, the attempts refused and timed out are at most 20000
  and 3, fewer while it can still try, and a socket that is connecting, connected or ready has a
  descriptor.
\<close>
theorem socket_invariant:
  assumes "sock_reach sk"
  shows "sock_inv sk"
  using assms
proof (induction rule: sock_reach.induct)
  case (ready sk n res running sk' n')
  then show ?case using inv_progress [of sk n]
    by (auto simp: ncclSocketReady_def inv_res_def split: if_splits option.splits)
next
  case (poll sk n res sk' n')
  then show ?case using keepsD [OF keeps_poll] by blast
next
  case (close sk n res sk' n')
  then show ?case by (auto simp: ncclSocketClose_def sock_inv_def)
qed (blast intro: inv_init inv_listen inv_connect inv_accept)+

theorem socket_invariant_witness:
  "\<exists>sk n'. init_sock (Some \<lparr> sa_family = AF_INET, sa_port = 80, sa_addr = [10, 0, 0, 1], sa_scope_id = 0 \<rparr>) 5 ncclSocketTypeNetIb
     False True (example_sock ncclSocketStateNone 0) \<lparr> nt_in = [Fd 9, Ok, Ok], nt_log = [] \<rparr> = Some (ncclSuccess, sk, n') \<and>
     sk_fd sk = 9 \<and> sock_inv sk"
proof -
  obtain sk n' where r: "init_sock (Some \<lparr> sa_family = AF_INET, sa_port = 80, sa_addr = [10, 0, 0, 1], sa_scope_id = 0 \<rparr>) 5
      ncclSocketTypeNetIb False True (example_sock ncclSocketStateNone 0) \<lparr> nt_in = [Fd 9, Ok, Ok], nt_log = [] \<rparr> =
      Some (ncclSuccess, sk, n')" "sk_fd sk = 9"
    by (simp add: init_sock_def set_nonblocking_def and_then_def syscheck_ok_def syscheck.simps sys_def Let_def)
  then show ?thesis using socket_invariant [OF sock_reach.init [OF r(1)]] by auto
qed

end
