(* ===== verification/IbSetup.thy ===== *)
theory IbSetup
  imports IbMrCache IbGid IbDevs
begin

text \<open>
  What a communicator takes from the card: protection domains, completion queues, queue pairs and their
  states, and memory regions (\<^verbatim>\<open>src/unet/unet_ib.cc\<close>, \<^verbatim>\<open>ncclIbInitCommDevBase\<close> to \<^verbatim>\<open>ncclIbRtsQp\<close>).
  The verbs library is a parameter: what a call returns, given the calls made before. Objects of the library are
  numbers. The lock of a device is held while its protection domain is counted.
\<close>

section \<open>Calls of the verbs library\<close>

record ibv_ece =
  ece_vendor :: u32
  ece_options :: u32
  ece_comp_mask :: u32

text \<open>The attributes the three modifications of a queue pair set.\<close>

record rtr_attr =
  ra_path_mtu :: int
  ra_dest_qp_num :: u32
  ra_is_global :: bool
  ra_dlid :: u32
  ra_dgid :: "u32 list"       \<comment> \<open>prefix and interface, when global\<close>
  ra_sgid_index :: int
  ra_hop_limit :: int
  ra_traffic_class :: int
  ra_sl :: int
  ra_port_num :: int

datatype qp_change =
    ToInit int int "string list"       \<comment> \<open>\<open>pkey_index\<close>, \<open>port_num\<close>, access flags\<close>
  | ToRtr rtr_attr
  | ToRts int int int                  \<comment> \<open>\<open>timeout\<close>, \<open>retry_cnt\<close>, \<open>rnr_retry\<close>\<close>

text \<open>The memory a setup registers.\<close>

datatype setup_buffer = SendFifoBuf | RemSizesBuf | RemFifoBuf | SizesFifoBuf | FlushBuf

datatype vcall =
    AllocPd nat | DeallocPd nat "nat option"   \<comment> \<open>with the device the domain is of\<close>
  | CreateCq nat int | DestroyCq nat
  | CreateQp "nat option" nat nat nat nat   \<comment> \<open>domain, queue, send and receive requests, inline bytes\<close>
  | DestroyQp nat
  | ModifyQp nat qp_change
  | QueryEce nat | SetEce nat ibv_ece
  | RegSetup "nat option" setup_buffer | DeregSetup nat
  | ProbeDmabuf nat                     \<comment> \<open>the call with no file that tells whether the kernel knows it\<close>

text \<open>
  The library: the result of a call and the object it gives (for the \<open>ece\<close> calls, the flag \<^verbatim>\<open>supported\<close>),
  the enhancements a query stores, and the numbers and keys of its objects.
\<close>

record setup_verbs =
  sv_call :: "vcall list \<Rightarrow> vcall \<Rightarrow> ncclResult \<times> nat"
  sv_ece :: "vcall list \<Rightarrow> nat \<Rightarrow> ibv_ece"
  sv_qpn :: "nat \<Rightarrow> u32"
  sv_rkey :: "nat \<Rightarrow> u32"
  sv_lkey :: "nat \<Rightarrow> u32"
  sv_addr :: "setup_buffer \<Rightarrow> u64"      \<comment> \<open>where the memory of the communicator lies\<close>
  sv_errno :: "vcall list \<Rightarrow> nat \<Rightarrow> errno"  \<comment> \<open>after the probe\<close>
  sv_exists :: "string \<Rightarrow> bool"          \<comment> \<open>\<open>access(path, F_OK) != -1\<close>\<close>

text \<open>The calls made, the counters, and for each device the count and the protection domain (\<open>None\<close>: null).\<close>

record ib_env =
  ie_calls :: "vcall list"
  ie_world :: world
  ie_pdRefs :: "nat \<Rightarrow> int"
  ie_pd :: "nat \<Rightarrow> nat option"
  ie_gdr :: "bool option"      \<comment> \<open>\<open>ncclIbGdrModuleLoaded\<close>, once looked for\<close>
  ie_dmaBuf :: "nat \<Rightarrow> int"     \<comment> \<open>\<open>dmaBufSupported\<close> of the merged devices: 0 until looked for\<close>

type_synonym 'a act = "ib_env \<Rightarrow> (ncclResult + 'a) \<times> ib_env"

text \<open>\<open>NCCLCHECKGOTO(m, ret, fail); f\<close>: a failure ends the setup with its code.\<close>

definition andThen :: "'a act \<Rightarrow> ('a \<Rightarrow> 'b act) \<Rightarrow> 'b act" where
  "andThen m f e = (case m e of (Inl r, e) \<Rightarrow> (Inl r, e) | (Inr a, e) \<Rightarrow> f a e)"

definition ret :: "'a \<Rightarrow> 'a act" where
  "ret a e = (Inr a, e)"

definition verb :: "setup_verbs \<Rightarrow> vcall \<Rightarrow> nat act" where
  "verb v c e =
     (let (res, h) = sv_call v (ie_calls e) c; e = e\<lparr> ie_calls := ie_calls e @ [c] \<rparr>
      in if ncclCheckFails res then (Inl res, e) else (Inr h, e))"

definition count_up :: "int \<Rightarrow> ib_env \<Rightarrow> ib_env" where
  "count_up i e = e\<lparr> ie_world := ib_inc i (ie_world e) \<rparr>"

definition count_down :: "int \<Rightarrow> ib_env \<Rightarrow> ib_env" where
  "count_down i e = e\<lparr> ie_world := ib_dec i (ie_world e) \<rparr>"

section \<open>Parameters\<close>

record setup_params =
  sp_qpsPerConn :: int
  sp_useInline :: bool
  sp_pkey :: int
  sp_fifoTc :: int
  sp_tc :: int
  sp_sl :: int
  sp_timeout :: int
  sp_retryCnt :: int
  sp_eceEnable :: bool
  sp_isGlobal :: bool
  sp_gdrFlushDisable :: bool
  sp_gidIndex :: int
  sp_roceVersion :: int
  sp_rank :: int               \<comment> \<open>\<open>rank_\<close>\<close>
  sp_getenv :: "string \<Rightarrow> string option"
  sp_pton :: "sa_family \<Rightarrow> string \<Rightarrow> u32 list option"
  sp_gids :: "nat \<Rightarrow> port_gids"  \<comment> \<open>of each device\<close>

section \<open>Protection domain and completion queue\<close>

record ncclIbNetCommDevBase =
  db_ibDevN :: nat
  db_pd :: "nat option"
  db_cq :: nat
  db_link :: link_layer        \<comment> \<open>\<open>gidInfo\<close>\<close>
  db_gid :: "u32 list"
  db_gidIndex :: int

definition zero_base :: ncclIbNetCommDevBase where
  "zero_base = \<lparr> db_ibDevN = 0, db_pd = None, db_cq = 0, db_link = LINK_OTHER, db_gid = [0, 0, 0, 0], db_gidIndex = 0 \<rparr>"

text \<open>The count goes up before the domain is asked for; a refused one leaves the device with a null domain.\<close>

definition take_pd :: "setup_verbs \<Rightarrow> nat \<Rightarrow> (nat option) act" where
  "take_pd v ibDevN e =
     (let old = ie_pdRefs e ibDevN; e = e\<lparr> ie_pdRefs := (ie_pdRefs e)(ibDevN := old + 1) \<rparr> in
      if old = 0
      then (case verb v (AllocPd ibDevN) e of
              (Inl res, e) \<Rightarrow> (Inl res, e\<lparr> ie_pd := (ie_pd e)(ibDevN := None) \<rparr>)
            | (Inr pd, e) \<Rightarrow> (Inr (Some pd), e\<lparr> ie_pd := (ie_pd e)(ibDevN := Some pd) \<rparr>))
      else (Inr (ie_pd e ibDevN), e))"

definition ncclIbInitCommDevBase :: "setup_params \<Rightarrow> setup_verbs \<Rightarrow> nat \<Rightarrow> ncclIbNetCommDevBase \<Rightarrow> ncclIbNetCommDevBase act" where
  "ncclIbInitCommDevBase sp v ibDevN base =
     andThen (take_pd v ibDevN) (\<lambda>pd.
     andThen (verb v (CreateCq ibDevN (2 * int MAX_REQUESTS * sp_qpsPerConn sp))) (\<lambda>cq e.
     (Inr (base\<lparr> db_ibDevN := ibDevN, db_pd := pd, db_cq := cq \<rparr>), count_up UNET_IB_CQ_COUNT e)))"

definition drop_pd :: "setup_verbs \<Rightarrow> nat \<Rightarrow> unit act" where
  "drop_pd v ibDevN e =
     (let e = e\<lparr> ie_pdRefs := (ie_pdRefs e)(ibDevN := ie_pdRefs e ibDevN - 1) \<rparr> in
      if ie_pdRefs e ibDevN = 0
      then (case verb v (DeallocPd ibDevN (ie_pd e ibDevN)) e of (Inl res, e) \<Rightarrow> (Inl res, e) | (Inr _, e) \<Rightarrow> (Inr (), e))
      else (Inr (), e))"

definition ncclIbDestroyBase :: "setup_verbs \<Rightarrow> ncclIbNetCommDevBase \<Rightarrow> unit act" where
  "ncclIbDestroyBase v base =
     andThen (verb v (DestroyCq (db_cq base))) (\<lambda>_ e. drop_pd v (db_ibDevN base) (count_down UNET_IB_CQ_COUNT e))"

section \<open>Queue pairs\<close>

definition ncclIbCreateQp :: "setup_params \<Rightarrow> setup_verbs \<Rightarrow> int \<Rightarrow> ncclIbNetCommDevBase \<Rightarrow> string list \<Rightarrow> nat act" where
  "ncclIbCreateQp sp v ib_port base access_flags =
     andThen (verb v (CreateQp (db_pd base) (db_cq base) (2 * MAX_REQUESTS) MAX_REQUESTS (if sp_useInline sp then sizeof_SendFifo else 0))) (\<lambda>qp e.
     andThen (verb v (ModifyQp qp (ToInit (sp_pkey sp) ib_port access_flags))) (\<lambda>_. ret qp) (count_up UNET_IB_QP_COUNT e))"

text \<open>Of the other side: what it says of a device in the metadata.\<close>

record ncclIbDevInfo =
  di_lid :: u32
  di_ib_port :: int
  di_mtu :: int
  di_link_layer :: link_layer
  di_is_global :: bool
  di_gid :: "u32 list"         \<comment> \<open>\<open>spn\<close> and \<open>iid\<close>\<close>
  di_fifoRkey :: u32

definition rtr_attr_of :: "setup_params \<Rightarrow> int \<Rightarrow> u32 \<Rightarrow> ncclIbDevInfo \<Rightarrow> bool \<Rightarrow> rtr_attr" where
  "rtr_attr_of sp sGidIndex dest_qp_num info override_tc =
     (let glob = (di_link_layer info = IBV_LINK_LAYER_ETHERNET \<or> di_is_global info) in
      \<lparr> ra_path_mtu = di_mtu info, ra_dest_qp_num = dest_qp_num, ra_is_global = glob, ra_dlid = di_lid info,
        ra_dgid = (if glob then di_gid info else [0, 0, 0, 0]),
        ra_sgid_index = (if glob then sGidIndex mod 256 else 0), ra_hop_limit = (if glob then 255 else 0),
        ra_traffic_class = (if \<not> glob then 0 else if sp_fifoTc sp \<noteq> 0 \<and> override_tc then sp_fifoTc sp else sp_tc sp),
        ra_sl = sp_sl sp, ra_port_num = di_ib_port info \<rparr>)"

definition ncclIbRtrQp :: "setup_params \<Rightarrow> setup_verbs \<Rightarrow> nat \<Rightarrow> int \<Rightarrow> u32 \<Rightarrow> ncclIbDevInfo \<Rightarrow> bool \<Rightarrow> unit act" where
  "ncclIbRtrQp sp v qp sGidIndex dest_qp_num info override_tc =
     andThen (verb v (ModifyQp qp (ToRtr (rtr_attr_of sp sGidIndex dest_qp_num info override_tc)))) (\<lambda>_. ret ())"

definition ncclIbRtsQp :: "setup_params \<Rightarrow> setup_verbs \<Rightarrow> nat \<Rightarrow> unit act" where
  "ncclIbRtsQp sp v qp = andThen (verb v (ModifyQp qp (ToRts (sp_timeout sp) (sp_retryCnt sp) 7))) (\<lambda>_. ret ())"

text \<open>The GID of a device: its index, and the address.\<close>

definition device_gid :: "setup_params \<Rightarrow> ncclIbDev \<Rightarrow> nat \<Rightarrow> ncclIbNetCommDevBase \<Rightarrow> ncclIbNetCommDevBase act" where
  "device_gid sp dev ibDevN base e =
     (let (res, idx) = ncclIbGetGidIndex (sp_pton sp) (sp_getenv sp) (sp_gidIndex sp) (sp_roceVersion sp) (sp_gids sp ibDevN)
             (case dv_portAttr dev of None \<Rightarrow> 0 | Some pa \<Rightarrow> pa_gid_tbl_len pa) in
      if ncclCheckFails res then (Inl res, e)
      else let (res, gid) = pt_query (sp_gids sp ibDevN) idx in
      if ncclCheckFails res then (Inl res, e)
      else (Inr (base\<lparr> db_gidIndex := idx, db_gid := gid \<rparr>), e))"

section \<open>Direct access to GPU memory\<close>

definition ibGdrSupportInitOnce :: "setup_verbs \<Rightarrow> bool" where
  "ibGdrSupportInitOnce v \<longleftrightarrow>
     sv_exists v ''/sys/kernel/mm/memory_peers/nv_mem/version'' \<or>
     sv_exists v ''/sys/kernel/mm/memory_peers/nv_mem_nc/version'' \<or>
     sv_exists v ''/sys/module/nvidia_peermem/version''"

definition ncclIbGdrSupport :: "setup_verbs \<Rightarrow> ib_env \<Rightarrow> ncclResult \<times> ib_env" where
  "ncclIbGdrSupport v e =
     (let loaded = (case ie_gdr e of None \<Rightarrow> ibGdrSupportInitOnce v | Some b \<Rightarrow> b); e = e\<lparr> ie_gdr := Some loaded \<rparr>
      in (if \<not> loaded then ncclSystemError else ncclSuccess, e))"

text \<open>Each real device of the merged one in turn; the first that does not support it ends the search.\<close>

fun probe_devs :: "setup_verbs \<Rightarrow> nat list \<Rightarrow> ib_env \<Rightarrow> int \<times> ib_env" where
  "probe_devs v [] e = (1, e)"
| "probe_devs v (n # ns) e =
     (case verb v (AllocPd n) e of
        (Inl res, e) \<Rightarrow> (-1, e)
      | (Inr pd, e) \<Rightarrow>
          let err = sv_errno v (ie_calls e) pd; e = e\<lparr> ie_calls := ie_calls e @ [ProbeDmabuf pd] \<rparr>
          in case verb v (DeallocPd n (Some pd)) e of
               (Inl res, e) \<Rightarrow> (-1, e)
             | (Inr _, e) \<Rightarrow> if err = EOPNOTSUPP \<or> err = EPROTONOSUPPORT then (-1, e) else probe_devs v ns e)"

definition ncclIbDmaBufSupport :: "setup_verbs \<Rightarrow> ib_tables \<Rightarrow> nat \<Rightarrow> ib_env \<Rightarrow> ncclResult \<times> ib_env" where
  "ncclIbDmaBufSupport v t dev e =
     (let e = (if ie_dmaBuf e dev = 0
               then (case probe_devs v (group t dev) e of (s, e) \<Rightarrow> e\<lparr> ie_dmaBuf := (ie_dmaBuf e)(dev := s) \<rparr>)
               else e)
      in (if ie_dmaBuf e dev = 1 then ncclSuccess else ncclSystemError, e))"

section \<open>The properties of a device\<close>

datatype ptr_support = NCCL_PTR_HOST | NCCL_PTR_CUDA | NCCL_PTR_DMABUF

record ncclNetProperties =
  np_name :: string
  np_pciPath :: "string option"
  np_guid :: u64
  np_ptrSupport :: "ptr_support list"
  np_regIsGlobal :: bool
  np_speed :: int
  np_port :: int
  np_latency :: int
  np_maxComms :: int
  np_maxRecvs :: nat
  np_netDeviceVersion :: int

definition ncclIbGetProperties :: "setup_verbs \<Rightarrow> ib_tables \<Rightarrow> nat \<Rightarrow> ib_env \<Rightarrow> ncclResult \<times> ncclNetProperties \<times> ib_env" where
  "ncclIbGetProperties v t dev e =
     (let m = tb_merged t ! dev; d = tb_devs t ! (gd_devs m ! 0);
          (gdr, e) = ncclIbGdrSupport v e; (dma, e) = ncclIbDmaBufSupport v t dev e
      in (ncclSuccess,
          \<lparr> np_name = gd_devName m, np_pciPath = dv_pciPath d, np_guid = dv_guid d,
            np_ptrSupport = NCCL_PTR_HOST # (if gdr = ncclSuccess then [NCCL_PTR_CUDA] else [])
                              @ (if dma = ncclSuccess then [NCCL_PTR_DMABUF] else []),
            np_regIsGlobal = True, np_speed = gd_speed m, np_port = dv_portNum d + dv_realPort d, np_latency = 0,
            np_maxComms = dv_maxQp d, np_maxRecvs = NCCL_NET_IB_MAX_RECVS, np_netDeviceVersion = 120 \<rparr>, e))"

section \<open>Loops\<close>

fun forEach :: "('a \<Rightarrow> 'b act) \<Rightarrow> 'a list \<Rightarrow> ('b list) act" where
  "forEach f [] = ret []"
| "forEach f (x # xs) = andThen (f x) (\<lambda>y. andThen (forEach f xs) (\<lambda>ys. ret (y # ys)))"

section \<open>Rules for successful setups\<close>

lemma andThen_Inr:
  "andThen m f e = (Inr b, e') \<longleftrightarrow> (\<exists>a e1. m e = (Inr a, e1) \<and> f a e1 = (Inr b, e'))"
  by (auto simp: andThen_def split: prod.splits sum.splits)

lemma ret_Inr [simp]: "ret a e = (Inr b, e') \<longleftrightarrow> b = a \<and> e' = e"
  by (auto simp: ret_def)

lemma verb_Inr:
  "verb v c e = (Inr h, e') \<Longrightarrow> e' = e\<lparr> ie_calls := ie_calls e @ [c] \<rparr> \<and> h = snd (sv_call v (ie_calls e) c)"
  by (auto simp: verb_def Let_def split: prod.splits if_splits)

lemma forEach_length: "forEach f xs e = (Inr ys, e') \<Longrightarrow> length ys = length xs"
  by (induction xs arbitrary: ys e) (auto simp: andThen_Inr)

lemma forEach_nth:
  "forEach f xs e = (Inr ys, e') \<Longrightarrow> i < length xs \<Longrightarrow> \<exists>e1 e2. f (xs ! i) e1 = (Inr (ys ! i), e2)"
proof (induction xs arbitrary: ys e i)
  case Nil
  then show ?case by simp
next
  case (Cons x xs)
  then obtain y zs e1 where y: "f x e = (Inr y, e1)" "forEach f xs e1 = (Inr zs, e')" "ys = y # zs"
    by (auto simp: andThen_Inr)
  show ?case
  proof (cases i)
    case 0
    then show ?thesis using y by auto
  next
    case (Suc k)
    then show ?thesis using Cons.IH [OF y(2), of k] Cons.prems(2) y(3) by simp
  qed
qed

lemma take_pd_cases:
  "take_pd v n e =
    (if ie_pdRefs e n = 0
     then (case sv_call v (ie_calls e) (AllocPd n) of (res, pd) \<Rightarrow>
             if ncclCheckFails res
             then (Inl res, e\<lparr> ie_pdRefs := (ie_pdRefs e)(n := 1), ie_calls := ie_calls e @ [AllocPd n], ie_pd := (ie_pd e)(n := None) \<rparr>)
             else (Inr (Some pd), e\<lparr> ie_pdRefs := (ie_pdRefs e)(n := 1), ie_calls := ie_calls e @ [AllocPd n], ie_pd := (ie_pd e)(n := Some pd) \<rparr>))
     else (Inr (ie_pd e n), e\<lparr> ie_pdRefs := (ie_pdRefs e)(n := ie_pdRefs e n + 1) \<rparr>))"
  by (simp add: take_pd_def verb_def Let_def split: prod.splits)

section \<open>What a setup takes from the card\<close>

text \<open>The calls of an action stay in the log.\<close>

definition grows :: "'a act \<Rightarrow> bool" where
  "grows m \<longleftrightarrow> (\<forall>e r e'. m e = (r, e') \<longrightarrow> set (ie_calls e) \<subseteq> set (ie_calls e'))"

lemma growsD: "grows m \<Longrightarrow> m e = (r, e') \<Longrightarrow> c \<in> set (ie_calls e) \<Longrightarrow> c \<in> set (ie_calls e')"
  by (auto simp: grows_def)

lemma grows_ret [intro, simp]: "grows (ret a)"
  by (simp add: grows_def ret_def)

lemma grows_verb [intro, simp]: "grows (verb v c)"
  by (auto simp: grows_def verb_def Let_def split: prod.splits if_splits)

lemma grows_andThen [intro]:
  assumes "grows m" "\<And>a. grows (f a)"
  shows "grows (andThen m f)"
  unfolding grows_def
proof (intro allI impI)
  fix e r e'
  assume run: "andThen m f e = (r, e')"
  obtain x e1 where m: "m e = (x, e1)" by (cases "m e")
  have "set (ie_calls e) \<subseteq> set (ie_calls e1)" using assms(1) m by (simp add: grows_def)
  moreover have "set (ie_calls e1) \<subseteq> set (ie_calls e')"
  proof (cases x)
    case (Inl a)
    then show ?thesis using run m by (simp add: andThen_def)
  next
    case (Inr a)
    then show ?thesis using run m assms(2) [of a] by (simp add: andThen_def grows_def)
  qed
  ultimately show "set (ie_calls e) \<subseteq> set (ie_calls e')" by blast
qed

lemma grows_if [intro]: "grows m \<Longrightarrow> grows m' \<Longrightarrow> grows (if b then m else m')"
  by simp

lemma grows_forEach [intro]: "(\<And>x. grows (f x)) \<Longrightarrow> grows (forEach f xs)"
  by (induction xs) auto

text \<open>What holds of every element's result and of the calls after it holds at the end.\<close>

lemma forEach_all:
  assumes grow: "\<And>x. grows (f x)"
    and each: "\<And>x y e e'. x \<in> set xs \<Longrightarrow> f x e = (Inr y, e') \<Longrightarrow> P x y \<and> g x \<in> set (ie_calls e')"
  shows "forEach f xs e = (Inr ys, e') \<Longrightarrow> i < length xs \<Longrightarrow> P (xs ! i) (ys ! i) \<and> g (xs ! i) \<in> set (ie_calls e')"
  using each
proof (induction xs arbitrary: ys e i)
  case Nil
  then show ?case by simp
next
  case (Cons x xs)
  then obtain y zs e1 where y: "f x e = (Inr y, e1)" "forEach f xs e1 = (Inr zs, e')" "ys = y # zs"
    by (auto simp: andThen_Inr)
  have "P x y \<and> g x \<in> set (ie_calls e')"
    using Cons.prems(3) [OF _ y(1)] growsD [OF grows_forEach [OF grow] y(2)] by simp
  then show ?case using Cons.IH [OF y(2)] Cons.prems(2,3) y(3) by (cases i) auto
qed

text \<open>Each kind of object a communicator holds, and how many of it are held.\<close>

datatype resource = QPs | CQs | MRs | PdRef nat

fun cost :: "resource \<Rightarrow> vcall \<Rightarrow> int" where
  "cost QPs (CreateQp pd cq s r i) = 1"
| "cost QPs (DestroyQp h) = -1"
| "cost CQs (CreateCq n k) = 1"
| "cost CQs (DestroyCq h) = -1"
| "cost MRs (RegSetup pd b) = 1"
| "cost MRs (DeregSetup h) = -1"
| "cost _ _ = 0"

definition taken :: "resource \<Rightarrow> ib_env \<Rightarrow> int" where
  "taken r e = (case r of PdRef n \<Rightarrow> ie_pdRefs e n | _ \<Rightarrow> sum_list (map (cost r) (ie_calls e)))"

text \<open>A successful run of the action takes \<open>k\<close> of the resource.\<close>

definition takes :: "resource \<Rightarrow> 'a act \<Rightarrow> int \<Rightarrow> bool" where
  "takes r m k \<longleftrightarrow> (\<forall>e x e'. m e = (Inr x, e') \<longrightarrow> taken r e' = taken r e + k)"

lemma takesD: "takes r m k \<Longrightarrow> m e = (Inr x, e') \<Longrightarrow> taken r e' = taken r e + k"
  by (auto simp: takes_def)

lemma taken_frame [simp]:
  "taken r (count_up i e) = taken r e" "taken r (count_down i e) = taken r e"
  "taken r (e\<lparr> ie_gdr := g \<rparr>) = taken r e" "taken r (e\<lparr> ie_dmaBuf := d \<rparr>) = taken r e" "taken r (e\<lparr> ie_pd := p \<rparr>) = taken r e"
  by (simp_all add: taken_def count_up_def count_down_def split: resource.splits)

lemma taken_call [simp]: "taken r (e\<lparr> ie_calls := ie_calls e @ [c] \<rparr>) = taken r e + cost r c"
  by (cases r) (simp_all add: taken_def)

lemma takes_ret: "takes r (ret a) 0"
  by (simp add: takes_def)

lemma takes_verb: "takes r (verb v c) (cost r c)"
  by (auto simp: takes_def dest!: verb_Inr)

lemma takes_andThen:
  assumes "takes r m k" "\<And>a. takes r (f a) l" "n = k + l"
  shows "takes r (andThen m f) n"
  using assms by (auto simp: takes_def andThen_Inr)

lemma takes_forEach: "(\<And>x. x \<in> set xs \<Longrightarrow> takes r (f x) (k x)) \<Longrightarrow> takes r (forEach f xs) (sum_list (map k xs))"
  by (induction xs) (auto intro!: takes_ret takes_andThen)

lemma takes_forEach_const: "(\<And>x. takes r (f x) k) \<Longrightarrow> takes r (forEach f xs) (int (length xs) * k)"
  using takes_forEach [of xs r f "\<lambda>_. k"] by (simp add: sum_list_triv)

definition one_of :: "resource \<Rightarrow> resource \<Rightarrow> int" where
  "one_of a r = (if r = a then 1 else 0)"

lemma takes_take_pd: "takes r (take_pd v n) (one_of (PdRef n) r)"
  by (auto simp: takes_def take_pd_def verb_def Let_def taken_def one_of_def split: prod.splits if_splits sum.splits resource.splits)

lemma takes_drop_pd: "takes r (drop_pd v n) (- one_of (PdRef n) r)"
  by (auto simp: takes_def drop_pd_def verb_def Let_def taken_def one_of_def split: prod.splits if_splits sum.splits resource.splits)

lemma cost_one:
  "cost r (CreateCq n k) = one_of CQs r" "cost r (DestroyCq h) = - one_of CQs r"
  "cost r (CreateQp pd cq s q i) = one_of QPs r" "cost r (DestroyQp h) = - one_of QPs r"
  "cost r (RegSetup pd b) = one_of MRs r" "cost r (DeregSetup h) = - one_of MRs r"
  "cost r (ModifyQp h ch) = 0" "cost r (QueryEce h) = 0" "cost r (SetEce h ec) = 0" "cost r (AllocPd n) = 0"
  "cost r (DeallocPd n pdo) = 0" "cost r (ProbeDmabuf n) = 0"
  by (cases r; simp add: one_of_def)+

lemma takes_count_up: "(\<And>a. takes r (f a) k) \<Longrightarrow> takes r (\<lambda>e. f a (count_up i e)) k"
  by (auto simp: takes_def)

lemma takes_count_down: "(\<And>a. takes r (f a) k) \<Longrightarrow> takes r (\<lambda>e. f a (count_down i e)) k"
  by (auto simp: takes_def)

lemma takes_InitCommDevBase: "takes r (ncclIbInitCommDevBase sp v n b) (one_of (PdRef n) r + one_of CQs r)"
  unfolding ncclIbInitCommDevBase_def
  by (rule takes_andThen [OF takes_take_pd takes_andThen [OF takes_verb, where l = 0]]) (simp_all add: takes_def cost_one)

lemma takes_DestroyBase: "takes r (ncclIbDestroyBase v b) (- one_of (PdRef (db_ibDevN b)) r - one_of CQs r)"
  unfolding ncclIbDestroyBase_def
  by (rule takes_andThen [OF takes_verb takes_count_down [OF takes_drop_pd]]) (simp_all add: cost_one)

lemma takes_CreateQp: "takes r (ncclIbCreateQp sp v port b acc) (one_of QPs r)"
  unfolding ncclIbCreateQp_def
  by (rule takes_andThen [OF takes_verb takes_count_up [OF takes_andThen [OF takes_verb takes_ret]]]) (simp_all add: cost_one)

lemma takes_RtrQp: "takes r (ncclIbRtrQp sp v qp g d i o') 0"
  unfolding ncclIbRtrQp_def by (rule takes_andThen [OF takes_verb takes_ret]) (simp add: cost_one)

lemma takes_RtsQp: "takes r (ncclIbRtsQp sp v qp) 0"
  unfolding ncclIbRtsQp_def by (rule takes_andThen [OF takes_verb takes_ret]) (simp add: cost_one)

lemma device_gid_Inr: "device_gid sp d n b e = (Inr b', e') \<Longrightarrow> e' = e \<and> db_ibDevN b' = db_ibDevN b"
  by (cases "ncclIbGetGidIndex (sp_pton sp) (sp_getenv sp) (sp_gidIndex sp) (sp_roceVersion sp) (sp_gids sp n)
             (case dv_portAttr d of None \<Rightarrow> 0 | Some pa \<Rightarrow> pa_gid_tbl_len pa)")
    (auto simp: device_gid_def Let_def split: prod.splits if_splits)

lemma InitCommDevBase_Inr: "ncclIbInitCommDevBase sp v n b e = (Inr b', e') \<Longrightarrow> db_ibDevN b' = n"
  by (auto simp: ncclIbInitCommDevBase_def andThen_Inr)

lemma takes_device_gid: "takes r (device_gid sp d n b) 0"
  by (auto simp: takes_def device_gid_def Let_def split: prod.splits if_splits)

lemma grows_setup [intro, simp]:
  "grows (ncclIbRtrQp sp v qp g d i o')" "grows (ncclIbRtsQp sp v qp)"
  by (auto simp: ncclIbRtrQp_def ncclIbRtsQp_def)

lemma grows_CreateQp [intro, simp]: "grows (ncclIbCreateQp sp v port b acc)"
proof -
  have "grows (\<lambda>e. andThen (verb v c) (\<lambda>_. ret h) (count_up i e))" for c i and h :: nat
  proof -
    have "grows (andThen (verb v c) (\<lambda>_. ret h))" by (intro grows_andThen) auto
    then show ?thesis by (fastforce simp: grows_def count_up_def)
  qed
  then show ?thesis unfolding ncclIbCreateQp_def by (intro grows_andThen) auto
qed

lemma grows_device_gid [intro, simp]: "grows (device_gid sp d n b)"
  by (auto simp: grows_def device_gid_def Let_def split: prod.splits if_splits)

section \<open>A card that answers\<close>

definition answers :: "'a act \<Rightarrow> bool" where
  "answers m \<longleftrightarrow> (\<forall>e. \<exists>x e'. m e = (Inr x, e'))"

definition working :: "setup_verbs \<Rightarrow> bool" where
  "working v \<longleftrightarrow> (\<forall>tr c. \<not> ncclCheckFails (fst (sv_call v tr c)))"

lemma answersE: "answers m \<Longrightarrow> (\<And>x e'. m e = (Inr x, e') \<Longrightarrow> P) \<Longrightarrow> P"
  unfolding answers_def by blast

lemma answers_ret [intro, simp]: "answers (ret a)"
  by (simp add: answers_def)

lemma answers_verb [intro]: "working v \<Longrightarrow> answers (verb v c)"
  by (auto simp: answers_def working_def verb_def Let_def split: prod.splits) (metis fst_conv)

lemma answers_andThen [intro]: "answers m \<Longrightarrow> (\<And>a. answers (f a)) \<Longrightarrow> answers (andThen m f)"
  unfolding answers_def by (metis andThen_Inr)

lemma answers_if [intro]: "answers m \<Longrightarrow> answers m' \<Longrightarrow> answers (if b then m else m')"
  by simp

lemma answers_forEach [intro]: "(\<And>x. answers (f x)) \<Longrightarrow> answers (forEach f xs)"
  by (induction xs) auto

lemma answers_take_pd [intro]: "working v \<Longrightarrow> answers (take_pd v n)"
  using answers_verb [of v "AllocPd n"] unfolding answers_def take_pd_cases working_def
  by (auto split: prod.splits) (metis fst_conv)+

lemma answers_setup [intro]:
  assumes "working v"
  shows "answers (ncclIbRtrQp sp v qp g d i o')" "answers (ncclIbRtsQp sp v qp)"
    "answers (ncclIbCreateQp sp v port b acc)" "answers (ncclIbInitCommDevBase sp v n b)"
proof -
  show "answers (ncclIbRtrQp sp v qp g d i o')" "answers (ncclIbRtsQp sp v qp)"
    using assms by (auto simp: ncclIbRtrQp_def ncclIbRtsQp_def)
  have "answers (\<lambda>e. andThen (verb v c) (\<lambda>_. ret h) (count_up i e))" for c i and h :: nat
  proof -
    have "answers (andThen (verb v c) (\<lambda>_. ret h))" using assms by auto
    then show ?thesis by (simp add: answers_def)
  qed
  then show "answers (ncclIbCreateQp sp v port b acc)" unfolding ncclIbCreateQp_def using assms by auto
  have "answers (\<lambda>e. (Inr x, count_up i e))" for x i by (simp add: answers_def)
  then show "answers (ncclIbInitCommDevBase sp v n b)" unfolding ncclIbInitCommDevBase_def using assms by (intro answers_andThen) auto
qed

text \<open>Every device has a GID: a parameter names it or the table of its port gives one.\<close>

definition gids_found :: "setup_params \<Rightarrow> ib_tables \<Rightarrow> bool" where
  "gids_found sp t \<longleftrightarrow> (\<forall>n b. answers (device_gid sp (tb_devs t ! n) n b))"

lemma gids_found_param: "0 \<le> sp_gidIndex sp \<Longrightarrow> (\<And>n i. \<not> ncclCheckFails (fst (pt_query (sp_gids sp n) i))) \<Longrightarrow> gids_found sp t"
  by (auto simp: gids_found_def answers_def device_gid_def ncclIbGetGidIndex_def Let_def split: prod.splits) (metis fst_conv)

section \<open>The protection domain of a device\<close>

text \<open>A library that answers every call, and the count as the count of a shared resource.\<close>

definition answering :: "setup_verbs \<Rightarrow> setup_verbs" where
  "answering v = v\<lparr> sv_call := (\<lambda>tr c. (ncclSuccess, snd (sv_call v tr c))) \<rparr>"

definition pd_acq :: "setup_verbs \<Rightarrow> nat \<Rightarrow> ib_env \<Rightarrow> nat option \<times> ib_env" where
  "pd_acq v n e = (case take_pd (answering v) n e of (Inr _, e) \<Rightarrow> (Some n, e) | (Inl _, e) \<Rightarrow> (None, e))"

definition pd_rel :: "setup_verbs \<Rightarrow> nat \<Rightarrow> ib_env \<Rightarrow> bool \<times> ib_env" where
  "pd_rel v n e = (case drop_pd (answering v) n e of (Inr _, e) \<Rightarrow> (True, e) | (Inl _, e) \<Rightarrow> (False, e))"

definition domains_of :: "vcall list \<Rightarrow> nat \<Rightarrow> int" where
  "domains_of cs n = int (length (filter (\<lambda>c. c = AllocPd n) cs)) - int (length (filter (\<lambda>c. \<exists>pd. c = DeallocPd n pd) cs))"

definition pd_inv :: "ib_env \<Rightarrow> bool" where
  "pd_inv e \<longleftrightarrow> (\<forall>n. 0 \<le> ie_pdRefs e n \<and> domains_of (ie_calls e) n = (if 0 < ie_pdRefs e n then 1 else 0) \<and>
     (0 < ie_pdRefs e n \<longrightarrow> ie_pd e n \<noteq> None))"

lemma domains_of_append: "domains_of (cs @ ds) n = domains_of cs n + domains_of ds n"
  by (simp add: domains_of_def)

lemma domains_of_one:
  "domains_of [AllocPd m] n = (if m = n then 1 else 0)" "domains_of [DeallocPd m pd] n = (if m = n then -1 else 0)"
  "domains_of [] n = 0"
  by (simp_all add: domains_of_def)

lemma pd_acq_eq:
  "pd_acq v n e = (Some n, snd (take_pd (answering v) n e))"
  by (simp add: pd_acq_def take_pd_cases answering_def)

lemma pd_rel_eq:
  "pd_rel v n e = (True, snd (drop_pd (answering v) n e))"
  by (simp add: pd_rel_def drop_pd_def answering_def verb_def Let_def)

interpretation pd_pool: refcounted pd_inv "\<lambda>e n. nat (ie_pdRefs e n)" "pd_acq v" "pd_rel v" for v
proof unfold_locales
  fix e n h e'
  assume inv: "pd_inv e" and a: "pd_acq v n e = (Some h, e')"
  have e': "e' = snd (take_pd (answering v) n e)" "h = n" using a by (auto simp: pd_acq_eq)
  have r: "ie_pdRefs e' = (ie_pdRefs e)(n := ie_pdRefs e n + 1)"
    by (auto simp: e' take_pd_cases answering_def)
  have "pd_inv e'" unfolding pd_inv_def
  proof (intro allI conjI impI)
    fix m
    note I = inv [unfolded pd_inv_def, rule_format, of m] and N = inv [unfolded pd_inv_def, rule_format, of n]
    show "0 \<le> ie_pdRefs e' m" using I by (auto simp: r)
    show "domains_of (ie_calls e') m = (if 0 < ie_pdRefs e' m then 1 else 0)"
    proof (cases "ie_pdRefs e n = 0")
      case True
      then show ?thesis using I N by (simp add: e' take_pd_cases answering_def domains_of_append domains_of_one)
    next
      case False
      then have "0 < ie_pdRefs e n" using N by linarith
      then show ?thesis using I N by (auto simp: e' take_pd_cases answering_def)
    qed
    assume "0 < ie_pdRefs e' m"
    then show "ie_pd e' m \<noteq> None" using I N by (auto simp: e' take_pd_cases answering_def split: if_splits)
  qed
  then have "pd_inv e' \<and> ie_pdRefs e' = (ie_pdRefs e)(n := ie_pdRefs e n + 1) \<and> h = n" using r e' by simp
  moreover have "0 \<le> ie_pdRefs e n" using inv by (simp add: pd_inv_def)
  ultimately show "pd_inv e' \<and> (\<lambda>n. nat (ie_pdRefs e' n)) = (\<lambda>n. nat (ie_pdRefs e n))(h := nat (ie_pdRefs e h) + 1)"
    by (auto simp: fun_eq_iff)
next
  fix e n e'
  assume "pd_acq v n e = (None, e')"
  then show "pd_inv e' \<and> (\<lambda>n. nat (ie_pdRefs e' n)) = (\<lambda>n. nat (ie_pdRefs e n))" by (simp add: pd_acq_eq)
next
  fix e n
  assume inv: "pd_inv e" and pos: "0 < nat (ie_pdRefs e n)"
  let ?e = "snd (pd_rel v n e)"
  have r: "ie_pdRefs ?e = (ie_pdRefs e)(n := ie_pdRefs e n - 1)"
    by (simp add: pd_rel_eq drop_pd_def answering_def verb_def Let_def)
  have "pd_inv ?e" unfolding pd_inv_def
  proof (intro allI conjI impI)
    fix m
    note I = inv [unfolded pd_inv_def, rule_format, of m]
    show "0 \<le> ie_pdRefs ?e m" using I pos by (auto simp: r)
    show "domains_of (ie_calls ?e) m = (if 0 < ie_pdRefs ?e m then 1 else 0)"
      using I pos by (auto simp: pd_rel_eq drop_pd_def answering_def verb_def Let_def domains_of_append domains_of_one)
    assume "0 < ie_pdRefs ?e m"
    then show "ie_pd ?e m \<noteq> None" using I by (auto simp: pd_rel_eq drop_pd_def answering_def verb_def Let_def split: if_splits)
  qed
  then show "fst (pd_rel v n e) \<and> pd_inv ?e \<and>
      (\<lambda>n. nat (ie_pdRefs ?e n)) = (\<lambda>n. nat (ie_pdRefs e n))(n := nat (ie_pdRefs e n) - 1)"
    using r by (auto simp: pd_rel_eq fun_eq_iff)
qed

text \<open>
  As long as the card answers, the communicators on a device share one protection domain: over any run of
  them the count of a device is the number that use it, a domain is allocated exactly while there is one, and it
  is not null then.
\<close>
theorem pd_shared:
  assumes "pd_inv e" "\<forall>n. ie_pdRefs e n = 0" "pd_pool.run v cs {#} e = (ok, held, e')"
  shows "ok \<and> ie_pdRefs e' n = int (count held n) \<and> domains_of (ie_calls e') n = (if n \<in># held then 1 else 0) \<and>
    (if n \<in># held then ie_pd e' n \<noteq> None else True)"
proof -
  have z: "\<forall>h. nat (ie_pdRefs e h) = 0" using assms(2) by simp
  note R = pd_pool.run_refs [OF assms(1) z assms(3)]
  have I: "0 \<le> ie_pdRefs e' n" "domains_of (ie_calls e') n = (if 0 < ie_pdRefs e' n then 1 else 0)"
    "0 < ie_pdRefs e' n \<longrightarrow> ie_pd e' n \<noteq> None"
    using R(2) by (simp_all add: pd_inv_def)
  have c: "ie_pdRefs e' n = int (count held n)" using R(3) [of n] I(1) by simp
  then have "0 < ie_pdRefs e' n \<longleftrightarrow> n \<in># held" by simp
  then show ?thesis using R(1) I c by simp
qed

text \<open>
  A protection domain the card refuses is counted all the same: the call fails and leaves the count at one, so
  the next communicator on the device asks for no domain and goes on with a null one.
\<close>
theorem failed_pd_counted:
  assumes "ie_pdRefs e n = 0" "sv_call v (ie_calls e) (AllocPd n) = (res, h)" "ncclCheckFails res"
    "\<forall>tr. sv_call v' tr (CreateCq n (2 * int MAX_REQUESTS * sp_qpsPerConn sp)) = (ncclSuccess, cq)"
  shows "\<exists>e' e''. ncclIbInitCommDevBase sp v n b e = (Inl res, e') \<and> ie_pdRefs e' n = 1 \<and>
    ncclIbInitCommDevBase sp v' n b' e' = (Inr (b'\<lparr> db_ibDevN := n, db_pd := None, db_cq := cq \<rparr>), e'') \<and>
    ie_pdRefs e'' n = 2"
  using assms by (simp add: ncclIbInitCommDevBase_def andThen_def take_pd_cases verb_def Let_def count_up_def)

definition example_setup_verbs :: setup_verbs where
  "example_setup_verbs = \<lparr> sv_call = (\<lambda>tr c. (ncclSuccess, length tr + 1)), sv_ece = (\<lambda>_ _. \<lparr> ece_vendor = 0, ece_options = 0, ece_comp_mask = 0 \<rparr>),
     sv_qpn = word_of_nat, sv_rkey = (\<lambda>h. word_of_nat (h + 100)), sv_lkey = (\<lambda>h. word_of_nat (h + 200)),
     sv_addr = (\<lambda>_. 65536), sv_errno = (\<lambda>_ _. EOTHER), sv_exists = (\<lambda>_. True) \<rparr>"

definition example_setup_params :: setup_params where
  "example_setup_params = \<lparr> sp_qpsPerConn = 2, sp_useInline = False, sp_pkey = 0, sp_fifoTc = 0, sp_tc = 0, sp_sl = 0,
     sp_timeout = 22, sp_retryCnt = 7, sp_eceEnable = True, sp_isGlobal = False, sp_gdrFlushDisable = False,
     sp_gidIndex = -1, sp_roceVersion = 2, sp_rank = 0, sp_getenv = (\<lambda>_. None), sp_pton = example_pton,
     sp_gids = (\<lambda>_. example_port) \<rparr>"

definition example_env :: ib_env where
  "example_env = \<lparr> ie_calls = [],
     ie_world = \<lparr> wd_posts = [], wd_ib_stat = None, wd_bw_stat = None, wd_ib_mem = [], wd_bw_mem = [] \<rparr>,
     ie_pdRefs = (\<lambda>_. 0), ie_pd = (\<lambda>_. None), ie_gdr = None, ie_dmaBuf = (\<lambda>_. 0) \<rparr>"

theorem failed_pd_counted_witness:
  "\<exists>e' e'' b. ncclIbInitCommDevBase example_setup_params
        (example_setup_verbs\<lparr> sv_call := (\<lambda>tr c. case c of AllocPd _ \<Rightarrow> (ncclSystemError, 0) | _ \<Rightarrow> (ncclSuccess, 1)) \<rparr>) 3 zero_base example_env
      = (Inl ncclSystemError, e') \<and>
     ncclIbInitCommDevBase example_setup_params (example_setup_verbs\<lparr> sv_call := (\<lambda>tr c. (ncclSuccess, 1)) \<rparr>) 3 zero_base e'
      = (Inr b, e'') \<and> db_pd b = None"
  using failed_pd_counted [of example_env 3
      "example_setup_verbs\<lparr> sv_call := (\<lambda>tr c. case c of AllocPd _ \<Rightarrow> (ncclSystemError, 0) | _ \<Rightarrow> (ncclSuccess, 1)) \<rparr>"
      ncclSystemError 0 "example_setup_verbs\<lparr> sv_call := (\<lambda>tr c. (ncclSuccess, 1)) \<rparr>" example_setup_params 1 zero_base zero_base]
  by (simp add: example_env_def) fastforce

lemma example_env_pd: "pd_inv example_env" "\<forall>n. ie_pdRefs example_env n = 0"
  by (simp_all add: pd_inv_def example_env_def domains_of_one)

theorem pd_shared_witness:
  "case pd_pool.run example_setup_verbs [Inl 3, Inl 3, Inl 4, Inr 3, Inr 4] {#} example_env of
     (ok, held, e') \<Rightarrow> held = {#3#} \<and> ok \<and> ie_pdRefs e' 3 = 1 \<and> ie_pd e' 3 \<noteq> None"
proof -
  obtain ok held e' where r: "pd_pool.run example_setup_verbs [Inl 3, Inl 3, Inl 4, Inr 3, Inr 4] {#} example_env = (ok, held, e')"
    by (cases "pd_pool.run example_setup_verbs [Inl 3, Inl 3, Inl 4, Inr 3, Inr 4] {#} example_env") auto
  have "held = {#3#}"
    using r by (simp add: pd_acq_eq pd_rel_eq add_mset_commute split: prod.splits)
  then show ?thesis using pd_shared [OF example_env_pd r, of 3] r by simp
qed

text \<open>One device, with an MTU of its port.\<close>

definition example_tables :: "int \<Rightarrow> ib_tables" where
  "example_tables mtu = \<lparr> tb_devs = [zero_dev\<lparr> dv_portAttr := Some (example_port_attr\<lparr> pa_active_mtu := mtu \<rparr>), dv_portNum := 1 \<rparr>],
     tb_n = 1, tb_merged = [\<lparr> gd_ndevs = 1, gd_devs = [0, 0], gd_speed = 0, gd_devName = ''mlx5_0'', gd_dmaBufSupported = 0 \<rparr>], tb_nm = 1 \<rparr>"

lemma example_tables_group: "group (example_tables mtu) 0 = [0]"
  by (simp add: example_tables_def group_def)

lemma example_working: "working example_setup_verbs"
  by (simp add: working_def example_setup_verbs_def ncclCheckFails_def)

lemma example_gids: "gids_found (example_setup_params\<lparr> sp_gidIndex := 0 \<rparr>) t"
  by (rule gids_found_param) (simp_all add: example_setup_params_def example_port_def ncclCheckFails_def)

end
