(* ===== verification/IbConnect.thy ===== *)
theory IbConnect
  imports IbSetup IbRecv Socket
begin

text \<open>
  The making of a connection (\<^verbatim>\<open>ncclIbListen\<close>, \<^verbatim>\<open>ncclIbConnect\<close>, \<^verbatim>\<open>ncclIbAccept\<close> of
  \<^verbatim>\<open>src/unet/unet_ib.cc\<close>) and its end (\<^verbatim>\<open>ncclIbCloseSend\<close>, \<^verbatim>\<open>ncclIbCloseRecv\<close>,
  \<^verbatim>\<open>ncclIbCloseListen\<close>). Both ends exchange metadata over a socket, step by step: a call returns when the socket has no
  more to give and the next call goes on where it stopped. The layout of the metadata in memory is a
  parameter. A computation that goes outside an array of the metadata or of the communicator has no result.
\<close>

section \<open>Metadata\<close>

record ncclIbQpInfo =
  qi_qpn :: u32
  qi_ece :: ibv_ece
  qi_ece_supported :: nat
  qi_devIndex :: nat

record ncclIbConnectionMetadata =
  cm_qpInfo :: "ncclIbQpInfo list"
  cm_devs :: "ncclIbDevInfo list"
  cm_devName :: string
  cm_fifoAddr :: u64
  cm_ndevs :: int
  cm_rank :: int

record meta_layout =
  ly_enc :: "ncclIbConnectionMetadata \<Rightarrow> u8 list"
  ly_dec :: "u8 list \<Rightarrow> ncclIbConnectionMetadata"
  ly_size :: nat               \<comment> \<open>\<open>sizeof(struct ncclIbConnectionMetadata)\<close>\<close>

definition zero_port :: ibv_port_attr where
  "zero_port = \<lparr> pa_active = False, pa_phys_state = 0, pa_link_layer = LINK_OTHER, pa_active_speed = 0, pa_active_width = 0,
     pa_active_mtu = 0, pa_lid = 0, pa_grh_required = False, pa_gid_tbl_len = 0 \<rparr>"

definition port_of :: "ncclIbDev \<Rightarrow> ibv_port_attr" where
  "port_of d = (case dv_portAttr d of Some pa \<Rightarrow> pa | None \<Rightarrow> zero_port)"

definition globally_routed :: "setup_params \<Rightarrow> ibv_port_attr \<Rightarrow> bool" where
  "globally_routed sp pa \<longleftrightarrow> sp_isGlobal sp \<or> pa_grh_required pa"

section \<open>The communicators while they are set up\<close>

record ncclIbSendCommDev =
  sd_base :: ncclIbNetCommDevBase
  sd_fifoMr :: "nat option"

record send_setup =
  ss_comm :: ncclIbSendComm
  ss_sock :: ncclSocket
  ss_devs :: "ncclIbSendCommDev list"
  ss_nRemDevs :: int
  ss_remDevs :: "ncclIbDevInfo list"
  ss_mrs :: "nat list"         \<comment> \<open>\<open>remSizesFifo.mrs\<close>\<close>

record ncclIbRecvCommDev =
  rd_base :: ncclIbNetCommDevBase
  rd_fifoRkey :: u32
  rd_fifoMr :: "nat option"
  rd_sizesMr :: "nat option"
  rd_hostMr :: "nat option"
  rd_flushQp :: "nat option"

record recv_setup =
  rt_comm :: ncclIbRecvComm
  rt_sock :: ncclSocket
  rt_devs :: "ncclIbRecvCommDev list"
  rt_nRemDevs :: int
  rt_remDevs :: "ncclIbDevInfo list"

text \<open>What \<^verbatim>\<open>ncclIbMalloc\<close> gives: all bytes zero.\<close>

definition zero_request :: ncclIbRequest where
  "zero_request = \<lparr> rq_type = NCCL_NET_IB_REQ_UNUSED, rq_peer_rank = 0, rq_sock = False, rq_events = [0, 0],
     rq_devBases = [None, None], rq_nreqs = 0, send_size = 0, send_data = 0, send_lkeys = [0, 0], send_offset = 0, recv_sizes = 0 \<rparr>"

definition zero_qp :: ncclIbQp where
  "zero_qp = \<lparr> qp_handle = 0, qp_devIndex = 0, qp_remDevIdx = 0 \<rparr>"

definition zero_comm_base :: ncclIbNetCommBase where
  "zero_comm_base = \<lparr> cb_ndevs = 0, cb_isSend = False, cb_reqs = replicate MAX_REQUESTS zero_request,
     cb_qps = replicate NCCL_IB_MAX_QPS zero_qp, cb_nqps = 0, cb_qpIndex = 0, cb_devIndex = 0, cb_ready = 0,
     cb_fifoRkeys = [0, 0], cb_fatal = 0 \<rparr>"

definition zero_send_comm :: ncclIbSendComm where
  "zero_send_comm = \<lparr> sc_base = zero_comm_base, sc_fifo = replicate 2048 zero_fifo, sc_fifoReqs = replicate 2048 None,
     sc_remSizes = \<lparr> rs_elems = replicate 2048 0, rs_local = 0, rs_addr = 0, rs_rkeys = [0, 0], rs_lkeys = [0, 0] \<rparr>,
     sc_fifoHead = 0, sc_ar = False, sc_peer_rank = 0 \<rparr>"

definition zero_sock :: ncclSocket where
  "zero_sock = \<lparr> sk_fd = 0, sk_acceptFd = 0, sk_timedOutRetries = 0, sk_refusedRetries = 0,
     sk_addr = \<lparr> sa_family = AF_OTHER, sa_port = 0, sa_addr = [], sa_scope_id = 0 \<rparr>, sk_abortFlag = False, sk_asyncFlag = False,
     sk_state = ncclSocketStateNone, sk_salen = 0, sk_magic = 0, sk_type = ncclSocketTypeUnknown \<rparr>"

definition zero_recv_comm :: ncclIbRecvComm where
  "zero_recv_comm = \<lparr> rc_base = zero_comm_base, rc_fifo_lkeys = [0, 0],
     rc_flush = replicate 2 \<lparr> gf_sge = \<lparr> sge_addr = 0, sge_length = 0, sge_lkey = 0 \<rparr>, gf_qp = 0 \<rparr>,
     rc_fifo = replicate 2048 zero_fifo, rc_fifo_local = 0, rc_fifoTail = 0, rc_fifo_addr = 0, rc_fifo_inline = False,
     rc_sizesFifo = replicate 2048 0, rc_flushEnabled = False, rc_peer_rank = 0 \<rparr>"

definition zero_send_setup :: send_setup where
  "zero_send_setup = \<lparr> ss_comm = zero_send_comm, ss_sock = zero_sock, ss_devs = [], ss_nRemDevs = 0, ss_remDevs = [], ss_mrs = [] \<rparr>"

definition zero_recv_setup :: recv_setup where
  "zero_recv_setup = \<lparr> rt_comm = zero_recv_comm, rt_sock = zero_sock, rt_devs = [], rt_nRemDevs = 0, rt_remDevs = [] \<rparr>"

section \<open>The sending end\<close>

text \<open>A query stores the enhancements when they are supported.\<close>

definition query_ece :: "setup_verbs \<Rightarrow> nat \<Rightarrow> ibv_ece \<Rightarrow> (nat \<times> ibv_ece) act" where
  "query_ece v qp old e =
     (case verb v (QueryEce qp) e of
        (Inl r, e') \<Rightarrow> (Inl r, e')
      | (Inr h, e') \<Rightarrow> (Inr (h, if h \<noteq> 0 then sv_ece v (ie_calls e) qp else old), e'))"

text \<open>One queue pair, on the device whose turn it is. \<open>junk\<close> is what the metadata held before.\<close>

definition connect_qp ::
    "setup_params \<Rightarrow> setup_verbs \<Rightarrow> ib_tables \<Rightarrow> ncclIbNetCommDevBase \<Rightarrow> nat \<Rightarrow> ncclIbQpInfo \<Rightarrow> (ncclIbQp \<times> ncclIbQpInfo) act" where
  "connect_qp sp v t base devIndex junk =
     andThen (ncclIbCreateQp sp v (dv_portNum (tb_devs t ! db_ibDevN base)) base [''REMOTE_WRITE'']) (\<lambda>h.
     let qp = \<lparr> qp_handle = h, qp_devIndex = devIndex, qp_remDevIdx = 0 \<rparr>;
         info = junk\<lparr> qi_qpn := sv_qpn v h, qi_devIndex := devIndex \<rparr>
     in if sp_eceEnable sp
        then andThen (query_ece v h (qi_ece junk)) (\<lambda>(sup, ece). ret (qp, info\<lparr> qi_ece := ece, qi_ece_supported := sup \<rparr>))
        else ret (qp, info\<lparr> qi_ece_supported := 0 \<rparr>))"

fun connect_qps ::
    "setup_params \<Rightarrow> setup_verbs \<Rightarrow> ib_tables \<Rightarrow> ncclIbNetCommDevBase list \<Rightarrow> nat \<Rightarrow> ncclIbQpInfo list
       \<Rightarrow> ((ncclIbQp \<times> ncclIbQpInfo) list) act" where
  "connect_qps sp v t bases devIndex [] = ret []"
| "connect_qps sp v t bases devIndex (junk # js) =
     andThen (connect_qp sp v t (bases ! devIndex) devIndex junk) (\<lambda>x.
     andThen (connect_qps sp v t bases ((devIndex + 1) mod length bases) js) (\<lambda>xs. ret (x # xs)))"

definition connect_dev ::
    "setup_params \<Rightarrow> setup_verbs \<Rightarrow> ib_tables \<Rightarrow> ncclIbNetCommDevBase \<times> ncclIbDevInfo \<Rightarrow> (ncclIbSendCommDev \<times> ncclIbDevInfo) act" where
  "connect_dev sp v t = (\<lambda>(base, junk).
     let n = db_ibDevN base; dev = tb_devs t ! n; pa = port_of dev; glob = globally_routed sp pa;
         routed = (pa_link_layer pa = IBV_LINK_LAYER_ETHERNET \<or> glob)
     in andThen (verb v (RegSetup (db_pd base) SendFifoBuf)) (\<lambda>mr.
        andThen (if routed then device_gid sp dev n (base\<lparr> db_link := pa_link_layer pa \<rparr>) else ret (base\<lparr> db_link := pa_link_layer pa \<rparr>)) (\<lambda>base.
        ret (\<lparr> sd_base = base, sd_fifoMr = Some mr \<rparr>,
             \<lparr> di_lid = pa_lid pa, di_ib_port = dv_portNum dev, di_mtu = pa_active_mtu pa, di_link_layer = pa_link_layer pa,
               di_is_global = glob, di_gid = (if routed then db_gid base else di_gid junk), di_fifoRkey = sv_rkey v mr \<rparr>))))"

text \<open>
  The part between the socket and the sending of the metadata. Adaptive routing is asked of the device with the number of
  the merged device, once per member.
\<close>

definition connect_setup ::
    "setup_params \<Rightarrow> setup_verbs \<Rightarrow> ib_tables \<Rightarrow> nat \<Rightarrow> ncclIbConnectionMetadata \<Rightarrow> send_setup \<Rightarrow> (send_setup \<times> ncclIbConnectionMetadata) act" where
  "connect_setup sp v t dev junk c =
     (let ns = group t dev; nqps = nat (sp_qpsPerConn sp) * length ns in
      andThen (forEach (\<lambda>n. ncclIbInitCommDevBase sp v n zero_base) ns) (\<lambda>bases.
      andThen (connect_qps sp v t bases 0 (take nqps (cm_qpInfo junk))) (\<lambda>qs.
      andThen (forEach (connect_dev sp v t) (zip bases (cm_devs junk))) (\<lambda>ds.
      let comm = ss_comm c; b = sc_base comm;
          b = b\<lparr> cb_ndevs := length ns, cb_nqps := nqps, cb_isSend := True, cb_qps := map fst qs @ drop nqps (cb_qps b) \<rparr>;
          ar = foldl (\<lambda>a _. a \<and> dv_ar (tb_devs t ! dev) \<noteq> 0) True ns
      in ret (c\<lparr> ss_comm := comm\<lparr> sc_base := b, sc_ar := ar \<rparr>, ss_devs := map fst ds \<rparr>,
              junk\<lparr> cm_rank := sp_rank sp, cm_ndevs := int (length ns),
                    cm_qpInfo := map snd qs @ drop nqps (cm_qpInfo junk),
                    cm_devs := map snd ds @ drop (length ns) (cm_devs junk),
                    cm_fifoAddr := sv_addr v SendFifoBuf, cm_devName := gd_devName (tb_merged t ! dev) \<rparr>)))))"

text \<open>The part after the peer's metadata has come.\<close>

definition finish_qp ::
    "setup_params \<Rightarrow> setup_verbs \<Rightarrow> send_setup \<Rightarrow> ncclIbConnectionMetadata \<Rightarrow> ncclIbQp \<times> ncclIbQpInfo \<Rightarrow> ncclIbQp act" where
  "finish_qp sp v c remMeta = (\<lambda>(qp, rem).
     andThen (if qi_ece_supported rem \<noteq> 0 then andThen (verb v (SetEce (qp_handle qp) (qi_ece rem))) (\<lambda>_. ret ()) else ret ()) (\<lambda>_.
     andThen (ncclIbRtrQp sp v (qp_handle qp) (db_gidIndex (sd_base (ss_devs c ! qp_devIndex qp))) (qi_qpn rem)
                (cm_devs remMeta ! qi_devIndex rem) False) (\<lambda>_.
     andThen (ncclIbRtsQp sp v (qp_handle qp)) (\<lambda>_. ret (qp\<lparr> qp_remDevIdx := qi_devIndex rem \<rparr>)))))"

definition connect_finish ::
    "setup_params \<Rightarrow> setup_verbs \<Rightarrow> send_setup \<Rightarrow> ncclIbConnectionMetadata \<Rightarrow> send_setup act" where
  "connect_finish sp v c remMeta =
     (let comm = ss_comm c; b = sc_base comm; k = nat (cm_ndevs remMeta); rs = sc_remSizes comm;
          rs = rs\<lparr> rs_rkeys := map di_fifoRkey (take k (cm_devs remMeta)) @ drop k (rs_rkeys rs),
                   rs_addr := (if k = 0 then rs_addr rs else cm_fifoAddr remMeta), rs_local := sv_addr v RemSizesBuf \<rparr>
      in andThen (forEach (\<lambda>d. verb v (RegSetup (db_pd (sd_base d)) RemSizesBuf)) (take (cb_ndevs b) (ss_devs c))) (\<lambda>mrs.
         andThen (forEach (finish_qp sp v c remMeta) (zip (take (cb_nqps b) (cb_qps b)) (cm_qpInfo remMeta))) (\<lambda>qps.
         ret (c\<lparr> ss_comm := comm\<lparr> sc_base := b\<lparr> cb_qps := qps @ drop (cb_nqps b) (cb_qps b), cb_ready := 1,
                        cb_fifoRkeys := map di_fifoRkey (take k (cm_devs remMeta)) @ drop k (cb_fifoRkeys b) \<rparr>,
                     sc_remSizes := rs\<lparr> rs_lkeys := map (sv_lkey v) mrs @ drop (cb_ndevs b) (rs_lkeys rs) \<rparr>,
                     sc_peer_rank := cm_rank remMeta \<rparr>,
                 ss_nRemDevs := cm_ndevs remMeta, ss_remDevs := take k (cm_devs remMeta) @ drop k (ss_remDevs c), ss_mrs := mrs \<rparr>))))"

text \<open>The indices the peer sent are inside its metadata.\<close>

definition meta_fits :: "nat \<Rightarrow> ncclIbConnectionMetadata \<Rightarrow> bool" where
  "meta_fits nqps m \<longleftrightarrow> cm_ndevs m \<le> 2 \<and> length (cm_devs m) = 2 \<and> length (cm_qpInfo m) = NCCL_IB_MAX_QPS \<and>
     (\<forall>qi \<in> set (take nqps (cm_qpInfo m)). qi_devIndex qi < 2)"

definition mixed_links :: "ncclIbConnectionMetadata \<Rightarrow> bool" where
  "mixed_links m \<longleftrightarrow> (\<exists>d \<in> set (drop 1 (take (nat (cm_ndevs m)) (cm_devs m))). di_link_layer d \<noteq> di_link_layer (cm_devs m ! 0))"

section \<open>The stages of ncclIbConnect\<close>

datatype ncclIbCommState =
    ncclIbCommStateStart | ncclIbCommStateConnect | ncclIbCommStateAccept | ncclIbCommStateSend | ncclIbCommStateRecv
  | ncclIbCommStateConnecting | ncclIbCommStateConnected | ncclIbCommStatePendingReady

record 'c ncclIbCommStage =
  sg_state :: ncclIbCommState
  sg_offset :: nat
  sg_buffer :: "u8 list"
  sg_comm :: "'c option"

record ncclIbHandle =
  ha_connectAddr :: ncclSocketAddress
  ha_magic :: u64
  ha_stage :: "send_setup ncclIbCommStage"

type_synonym conn_res = "(ncclResult \<times> send_setup option \<times> send_setup ncclIbCommStage \<times> ib_env \<times> net) option"

text \<open>The labels \<open>fail\<close> (the communicator is freed, its objects are not given back) and \<open>exit\<close>.\<close>

definition conn_fail :: "ncclResult \<Rightarrow> send_setup ncclIbCommStage \<Rightarrow> ib_env \<Rightarrow> net \<Rightarrow> conn_res" where
  "conn_fail res sg e n = Some (res, None, sg\<lparr> sg_state := ncclIbCommStateStart, sg_comm := None \<rparr>, e, n)"

definition conn_exit :: "send_setup \<Rightarrow> send_setup ncclIbCommStage \<Rightarrow> ib_env \<Rightarrow> net \<Rightarrow> conn_res" where
  "conn_exit c sg e n = Some (ncclSuccess, Some c, sg\<lparr> sg_state := ncclIbCommStateStart \<rparr>, e, n)"

definition conn_wait :: "send_setup ncclIbCommStage \<Rightarrow> ib_env \<Rightarrow> net \<Rightarrow> conn_res" where
  "conn_wait sg e n = Some (ncclSuccess, None, sg, e, n)"

text \<open>The four bytes of \<^verbatim>\<open>base.ready\<close>, which is one.\<close>

definition ready_bytes :: "u8 list" where
  "ready_bytes = le_bytes 4 (1 :: u32)"

definition connect_send_ready :: "send_setup \<Rightarrow> send_setup ncclIbCommStage \<Rightarrow> ib_env \<Rightarrow> net \<Rightarrow> conn_res" where
  "connect_send_ready c sg e n =
     (case ncclSocketProgress NCCL_SOCKET_SEND ready_bytes (sg_offset sg) (Some (ss_sock c)) n of
        None \<Rightarrow> None
      | Some (res, _, off, n) \<Rightarrow>
          let sg = sg\<lparr> sg_offset := off \<rparr> in
          if ncclCheckFails res then conn_fail res sg e n
          else if off \<noteq> sizeof_int then conn_wait sg e n
          else conn_exit c sg e n)"

text \<open>Ports of different link layers: an error that keeps the stage as it is.\<close>

definition connect_connect ::
    "setup_params \<Rightarrow> setup_verbs \<Rightarrow> meta_layout \<Rightarrow> send_setup \<Rightarrow> send_setup ncclIbCommStage \<Rightarrow> ib_env \<Rightarrow> net \<Rightarrow> conn_res" where
  "connect_connect sp v ly c sg e n =
     (case ncclSocketProgress NCCL_SOCKET_RECV (sg_buffer sg) (sg_offset sg) (Some (ss_sock c)) n of
        None \<Rightarrow> None
      | Some (res, buf, off, n) \<Rightarrow>
          let sg = sg\<lparr> sg_buffer := buf, sg_offset := off \<rparr> in
          if ncclCheckFails res then conn_fail res sg e n
          else if off \<noteq> ly_size ly then conn_wait sg e n
          else let remMeta = ly_dec ly buf in
            if \<not> meta_fits (cb_nqps (sc_base (ss_comm c))) remMeta then None
            else if mixed_links remMeta
            then let c = c\<lparr> ss_comm := (ss_comm c)\<lparr> sc_peer_rank := cm_rank remMeta \<rparr>, ss_nRemDevs := cm_ndevs remMeta \<rparr>
                 in Some (ncclInternalError, None, sg\<lparr> sg_comm := Some c \<rparr>, e, n)
            else case connect_finish sp v c remMeta e of
                   (Inl res, e) \<Rightarrow> conn_fail res sg e n
                 | (Inr c, e) \<Rightarrow>
                     connect_send_ready c (sg\<lparr> sg_state := ncclIbCommStateConnected, sg_offset := 0, sg_comm := Some c \<rparr>) e n)"

definition connect_send ::
    "setup_params \<Rightarrow> setup_verbs \<Rightarrow> meta_layout \<Rightarrow> send_setup \<Rightarrow> send_setup ncclIbCommStage \<Rightarrow> ib_env \<Rightarrow> net \<Rightarrow> conn_res" where
  "connect_send sp v ly c sg e n =
     (case ncclSocketProgress NCCL_SOCKET_SEND (sg_buffer sg) (sg_offset sg) (Some (ss_sock c)) n of
        None \<Rightarrow> None
      | Some (res, _, off, n) \<Rightarrow>
          let sg = sg\<lparr> sg_offset := off \<rparr> in
          if ncclCheckFails res then conn_fail res sg e n
          else if off \<noteq> ly_size ly then conn_wait sg e n
          else connect_connect sp v ly c
                 (sg\<lparr> sg_state := ncclIbCommStateConnecting, sg_offset := 0, sg_buffer := replicate (ly_size ly) 0 \<rparr>) e n)"

text \<open>More queue pairs than the array holds: \<open>None\<close>.\<close>

definition connect_check ::
    "setup_params \<Rightarrow> setup_verbs \<Rightarrow> meta_layout \<Rightarrow> ib_tables \<Rightarrow> nat \<Rightarrow> ncclIbConnectionMetadata \<Rightarrow> send_setup
       \<Rightarrow> send_setup ncclIbCommStage \<Rightarrow> ib_env \<Rightarrow> net \<Rightarrow> conn_res" where
  "connect_check sp v ly t dev junk c sg e n =
     (case ncclSocketReady (Some (ss_sock c)) n of
        None \<Rightarrow> None
      | Some (res, ready, sk, n) \<Rightarrow>
          let c = c\<lparr> ss_sock := (case sk of None \<Rightarrow> ss_sock c | Some s \<Rightarrow> s) \<rparr>; sg = sg\<lparr> sg_comm := Some c \<rparr> in
          if ncclCheckFails res then conn_fail res sg e n
          else if ready \<noteq> Some True then conn_wait sg e n
          else if NCCL_IB_MAX_QPS < nat (sp_qpsPerConn sp) * length (group t dev) then None
          else case connect_setup sp v t dev junk c e of
                 (Inl res, e) \<Rightarrow> conn_fail res sg e n
               | (Inr (c, meta), e) \<Rightarrow>
                   connect_send sp v ly c (sg\<lparr> sg_state := ncclIbCommStateSend, sg_offset := 0,
                     sg_buffer := ly_enc ly meta, sg_comm := Some c \<rparr>) e n)"

definition connect_start ::
    "setup_params \<Rightarrow> setup_verbs \<Rightarrow> meta_layout \<Rightarrow> ib_tables \<Rightarrow> nat \<Rightarrow> ncclIbConnectionMetadata \<Rightarrow> ncclIbHandle \<Rightarrow> ib_env \<Rightarrow> net \<Rightarrow> conn_res" where
  "connect_start sp v ly t dev junk ha e n =
     (let sg = (ha_stage ha)\<lparr> sg_buffer := [] \<rparr>; c = zero_send_setup in
      case ncclSocketInit (Some (ha_connectAddr ha)) (ha_magic ha) ncclSocketTypeNetIb False True (Some (ss_sock c)) n of
        None \<Rightarrow> None
      | Some (res, sk, n) \<Rightarrow>
          if ncclCheckFails res then conn_fail res sg e n
          else let sg = sg\<lparr> sg_state := ncclIbCommStateConnect \<rparr> in
            case ncclSocketConnect sk n of
              None \<Rightarrow> None
            | Some (res, sk, n) \<Rightarrow>
                let c = c\<lparr> ss_sock := (case sk of None \<Rightarrow> ss_sock c | Some s \<Rightarrow> s) \<rparr>; sg = sg\<lparr> sg_comm := Some c \<rparr> in
                if ncclCheckFails res then conn_fail res sg e n
                else connect_check sp v ly t dev junk c sg e n)"

text \<open>A stage that has lost its communicator is a null pointer: no result.\<close>

definition ncclIbConnect ::
    "setup_params \<Rightarrow> setup_verbs \<Rightarrow> meta_layout \<Rightarrow> ib_tables \<Rightarrow> nat \<Rightarrow> ncclIbConnectionMetadata \<Rightarrow> ncclIbHandle \<Rightarrow> ib_env \<Rightarrow> net
       \<Rightarrow> (ncclResult \<times> send_setup option \<times> ncclIbHandle \<times> ib_env \<times> net) option" where
  "ncclIbConnect sp v ly t dev junk ha e n =
     (let sg = ha_stage ha in
      map_option (\<lambda>(res, out, sg, e, n). (res, out, ha\<lparr> ha_stage := sg \<rparr>, e, n))
        (case (sg_state sg, sg_comm sg) of
           (ncclIbCommStateConnect, Some c) \<Rightarrow> connect_check sp v ly t dev junk c sg e n
         | (ncclIbCommStateSend, Some c) \<Rightarrow> connect_send sp v ly c sg e n
         | (ncclIbCommStateConnecting, Some c) \<Rightarrow> connect_connect sp v ly c sg e n
         | (ncclIbCommStateConnected, Some c) \<Rightarrow> connect_send_ready c sg e n
         | (ncclIbCommStateStart, _) \<Rightarrow> connect_start sp v ly t dev junk ha e n
         | (s, None) \<Rightarrow> if s \<in> {ncclIbCommStateConnect, ncclIbCommStateSend, ncclIbCommStateConnecting, ncclIbCommStateConnected}
                        then None else Some (ncclInternalError, None, sg, e, n)
         | (_, Some _) \<Rightarrow> Some (ncclInternalError, None, sg, e, n)))"

section \<open>What a connection guarantees\<close>

text \<open>
  A communicator with \<open>nd\<close> devices and \<open>nq\<close> queue pairs that are dealt out over the devices in turn, ready for transfers.
\<close>

definition fresh_send :: "ncclIbSendComm \<Rightarrow> bool" where
  "fresh_send comm \<longleftrightarrow> sc_fifo comm = replicate 2048 zero_fifo \<and> sc_fifoReqs comm = replicate 2048 None \<and> sc_fifoHead comm = 0 \<and>
     cb_reqs (sc_base comm) = replicate MAX_REQUESTS zero_request \<and> cb_qpIndex (sc_base comm) = 0"

definition conn_ok :: "nat \<Rightarrow> nat \<Rightarrow> send_setup \<Rightarrow> bool" where
  "conn_ok nd nq c \<longleftrightarrow> fresh_send (ss_comm c) \<and> 0 < nd \<and> 0 < nq \<and>
     cb_ndevs (sc_base (ss_comm c)) = nd \<and> cb_nqps (sc_base (ss_comm c)) = nq \<and> nq \<le> NCCL_IB_MAX_QPS \<and>
     length (cb_qps (sc_base (ss_comm c))) = NCCL_IB_MAX_QPS \<and> length (ss_devs c) = nd \<and>
     (\<forall>q < nq. qp_devIndex (cb_qps (sc_base (ss_comm c)) ! q) = q mod nd)"

definition stage_ok :: "nat \<Rightarrow> nat \<Rightarrow> send_setup ncclIbCommStage \<Rightarrow> bool" where
  "stage_ok nd nq sg \<longleftrightarrow>
     (case sg_state sg of
        ncclIbCommStateConnect \<Rightarrow> \<exists>c. sg_comm sg = Some c \<and> ss_comm c = zero_send_comm
      | ncclIbCommStateSend \<Rightarrow> \<exists>c. sg_comm sg = Some c \<and> conn_ok nd nq c
      | ncclIbCommStateConnecting \<Rightarrow> \<exists>c. sg_comm sg = Some c \<and> conn_ok nd nq c
      | ncclIbCommStateConnected \<Rightarrow> \<exists>c. sg_comm sg = Some c \<and> conn_ok nd nq c \<and> cb_ready (sc_base (ss_comm c)) = 1
      | _ \<Rightarrow> True)"

definition conn_good :: "nat \<Rightarrow> nat \<Rightarrow> conn_res \<Rightarrow> bool" where
  "conn_good nd nq r \<longleftrightarrow>
     (case r of None \<Rightarrow> True
      | Some (res, out, sg, e, n) \<Rightarrow> stage_ok nd nq sg \<and>
          (case out of None \<Rightarrow> True
           | Some c \<Rightarrow> res = ncclSuccess \<and> conn_ok nd nq c \<and> cb_ready (sc_base (ss_comm c)) = 1))"

lemma conn_good_fail: "conn_good nd nq (conn_fail res sg e n)"
  by (simp add: conn_good_def conn_fail_def stage_ok_def)

lemma conn_good_wait: "stage_ok nd nq sg \<Longrightarrow> conn_good nd nq (conn_wait sg e n)"
  by (simp add: conn_good_def conn_wait_def)

lemma conn_good_exit: "conn_ok nd nq c \<Longrightarrow> cb_ready (sc_base (ss_comm c)) = 1 \<Longrightarrow> conn_good nd nq (conn_exit c sg e n)"
  by (simp add: conn_good_def conn_exit_def stage_ok_def)

lemma connect_qps_length: "connect_qps sp v t bases d js e = (Inr xs, e') \<Longrightarrow> length xs = length js"
  by (induction sp v t bases d js arbitrary: xs e rule: connect_qps.induct) (auto simp: andThen_Inr)

lemma connect_qp_Inr:
  "connect_qp sp v t base d j e = (Inr x, e') \<Longrightarrow> qp_devIndex (fst x) = d \<and> qi_devIndex (snd x) = d \<and> qi_qpn (snd x) = sv_qpn v (qp_handle (fst x))"
  by (auto simp: connect_qp_def andThen_Inr Let_def split: if_splits prod.splits)

lemma connect_qps_nth:
  "connect_qps sp v t bases d js e = (Inr xs, e') \<Longrightarrow> d < length bases \<Longrightarrow> q < length js \<Longrightarrow>
   qp_devIndex (fst (xs ! q)) = (d + q) mod length bases \<and> qi_devIndex (snd (xs ! q)) = (d + q) mod length bases \<and>
   qi_qpn (snd (xs ! q)) = sv_qpn v (qp_handle (fst (xs ! q)))"
proof (induction sp v t bases d js arbitrary: xs e q rule: connect_qps.induct)
  case (1 sp v t bases d)
  then show ?case by simp
next
  case (2 sp v t bases d j js)
  then obtain x e1 ys where x: "connect_qp sp v t (bases ! d) d j e = (Inr x, e1)"
      "connect_qps sp v t bases ((d + 1) mod length bases) js e1 = (Inr ys, e')" "xs = x # ys"
    by (auto simp: andThen_Inr)
  show ?case
  proof (cases q)
    case 0
    then show ?thesis using connect_qp_Inr [OF x(1)] x(3) "2.prems"(2) by simp
  next
    case (Suc k)
    have "(d + 1) mod length bases < length bases" using "2.prems"(2) by (intro mod_less_divisor) linarith
    then show ?thesis using "2.IH" [OF x(2), of k] x(3) "2.prems"(3) Suc by (simp add: mod_add_left_eq)
  qed
qed

lemma fresh_send_inv:
  assumes "fresh_send comm" "0 < cb_nqps (sc_base comm)" "0 < cb_ndevs (sc_base comm)"
  shows "send_inv pm comm"
proof -
  have none: "sc_fifoReqs comm ! row s k = None" if "s < 256" "k < 8" for s k
    using row_less [OF that] assms(1) by (simp add: fresh_send_def)
  show ?thesis using none none [OF cur_slot_less] assms unfolding send_inv_def fresh_send_def by simp
qed

lemma conn_ok_inv: "conn_ok nd nq c \<Longrightarrow> send_inv pm (ss_comm c)"
  by (rule fresh_send_inv) (simp_all add: conn_ok_def)

lemma connect_setup_ok:
  assumes run: "connect_setup sp v t dev junk c e = (Inr (c', m), e')" and c: "ss_comm c = zero_send_comm"
    and nd: "length (group t dev) \<in> {1, 2}" and nq: "0 < sp_qpsPerConn sp"
      "nat (sp_qpsPerConn sp) * length (group t dev) \<le> NCCL_IB_MAX_QPS"
    and junk: "length (cm_qpInfo junk) = NCCL_IB_MAX_QPS" "length (cm_devs junk) = 2"
  defines "k \<equiv> length (group t dev)"
  shows "conn_ok k (nat (sp_qpsPerConn sp) * k) c' \<and> meta_fits (nat (sp_qpsPerConn sp) * k) m \<and> cm_ndevs m = int k \<and>
    (\<forall>q < nat (sp_qpsPerConn sp) * k. qi_qpn (cm_qpInfo m ! q) = sv_qpn v (qp_handle (cb_qps (sc_base (ss_comm c')) ! q)) \<and>
       qi_devIndex (cm_qpInfo m ! q) = q mod k)"
proof -
  let ?nq = "nat (sp_qpsPerConn sp) * k"
  obtain bases e1 qs e2 ds where b: "forEach (\<lambda>n. ncclIbInitCommDevBase sp v n zero_base) (group t dev) e = (Inr bases, e1)"
    and q: "connect_qps sp v t bases 0 (take ?nq (cm_qpInfo junk)) e1 = (Inr qs, e2)"
    and d: "forEach (connect_dev sp v t) (zip bases (cm_devs junk)) e2 = (Inr ds, e')"
    and c': "c' = c\<lparr> ss_comm := (ss_comm c)\<lparr> sc_base := (sc_base (ss_comm c))\<lparr> cb_ndevs := k, cb_nqps := ?nq, cb_isSend := True,
            cb_qps := map fst qs @ drop ?nq (cb_qps (sc_base (ss_comm c))) \<rparr>,
            sc_ar := foldl (\<lambda>a _. a \<and> dv_ar (tb_devs t ! dev) \<noteq> 0) True (group t dev) \<rparr>, ss_devs := map fst ds \<rparr>"
    and m: "m = junk\<lparr> cm_rank := sp_rank sp, cm_ndevs := int k, cm_qpInfo := map snd qs @ drop ?nq (cm_qpInfo junk),
            cm_devs := map snd ds @ drop k (cm_devs junk),
            cm_fifoAddr := sv_addr v SendFifoBuf, cm_devName := gd_devName (tb_merged t ! dev) \<rparr>"
    using run by (auto simp: connect_setup_def Let_def andThen_Inr k_def)
  have k: "0 < k" "k \<le> 2" using nd by (auto simp: k_def)
  have lb: "length bases = k" using forEach_length [OF b] by (simp add: k_def)
  have lq: "length qs = ?nq" using connect_qps_length [OF q] junk(1) nq(2) by (simp add: k_def)
  have ld: "length ds = k" using forEach_length [OF d] lb junk(2) k by simp
  have nth: "qp_devIndex (fst (qs ! i)) = i mod k \<and> qi_devIndex (snd (qs ! i)) = i mod k \<and>
      qi_qpn (snd (qs ! i)) = sv_qpn v (qp_handle (fst (qs ! i)))" if "i < ?nq" for i
    using connect_qps_nth [OF q, of i] that lb k(1) junk(1) nq(2) by (simp add: k_def)
  have zc: "ss_comm c' = zero_send_comm\<lparr> sc_base := zero_comm_base\<lparr> cb_ndevs := k, cb_nqps := ?nq, cb_isSend := True,
            cb_qps := map fst qs @ drop ?nq (cb_qps zero_comm_base) \<rparr>,
            sc_ar := foldl (\<lambda>a _. a \<and> dv_ar (tb_devs t ! dev) \<noteq> 0) True (group t dev) \<rparr>"
    using c by (simp add: c' zero_send_comm_def)
  have inv: "fresh_send (ss_comm c')" by (simp add: zc fresh_send_def zero_send_comm_def zero_comm_base_def)
  have 1: "conn_ok k ?nq c'"
    unfolding conn_ok_def using inv lq ld nth nq k by (simp add: zc) (simp add: c' zero_comm_base_def k_def nth_append)
  have "qi_devIndex qi < 2" if "qi \<in> set (take ?nq (cm_qpInfo m))" for qi
  proof -
    have "qi \<in> set (map snd qs)" using that lq by (simp add: m)
    then obtain i where "i < ?nq" "qi = snd (qs ! i)" using lq by (auto simp: in_set_conv_nth)
    then show ?thesis using nth [of i] k by (metis less_le_trans mod_less_divisor)
  qed
  then have 2: "meta_fits ?nq m" using k lq ld junk nq(2) by (auto simp: meta_fits_def m k_def)
  show ?thesis using 1 2 nth lq by (simp add: m zc nth_append)
qed

lemma finish_qp_Inr:
  assumes "finish_qp sp v c m (qp, rem) e = (Inr qp', e')"
  shows "qp' = qp\<lparr> qp_remDevIdx := qi_devIndex rem \<rparr>"
    "ModifyQp (qp_handle qp) (ToRtr (rtr_attr_of sp (db_gidIndex (sd_base (ss_devs c ! qp_devIndex qp))) (qi_qpn rem)
       (cm_devs m ! qi_devIndex rem) False)) \<in> set (ie_calls e')"
  using assms by (auto simp: finish_qp_def andThen_Inr ncclIbRtrQp_def ncclIbRtsQp_def dest!: verb_Inr split: if_splits)

lemma grows_finish_qp [intro, simp]: "grows (finish_qp sp v c m x)"
  unfolding finish_qp_def by (cases x) (auto intro!: grows_andThen)

lemma connect_finish_ok:
  assumes run: "connect_finish sp v c m e = (Inr c', e')" and ok: "conn_ok nd nq c" and m: "meta_fits nq m"
  shows "conn_ok nd nq c'" "cb_ready (sc_base (ss_comm c')) = 1"
    "q < nq \<Longrightarrow> cb_qps (sc_base (ss_comm c')) ! q =
       (cb_qps (sc_base (ss_comm c)) ! q)\<lparr> qp_remDevIdx := qi_devIndex (cm_qpInfo m ! q) \<rparr>"
    "q < nq \<Longrightarrow> ModifyQp (qp_handle (cb_qps (sc_base (ss_comm c)) ! q))
       (ToRtr (rtr_attr_of sp (db_gidIndex (sd_base (ss_devs c ! (q mod nd)))) (qi_qpn (cm_qpInfo m ! q))
          (cm_devs m ! qi_devIndex (cm_qpInfo m ! q)) False)) \<in> set (ie_calls e')"
proof -
  let ?b = "sc_base (ss_comm c)"
  let ?ps = "zip (take nq (cb_qps ?b)) (cm_qpInfo m)"
  have O: "cb_nqps ?b = nq" "nq \<le> NCCL_IB_MAX_QPS" "length (cb_qps ?b) = NCCL_IB_MAX_QPS" "cb_ndevs ?b = nd"
    "\<And>q. q < nq \<Longrightarrow> qp_devIndex (cb_qps ?b ! q) = q mod nd" "length (ss_devs c) = nd"
    "fresh_send (ss_comm c)" "0 < nd" "0 < nq"
    using ok by (simp_all add: conn_ok_def)
  obtain e1 qps rk rs p nr rds mrs where q: "forEach (finish_qp sp v c m) ?ps e1 = (Inr qps, e')"
    and c': "c' = c\<lparr> ss_comm := (ss_comm c)\<lparr> sc_base := ?b\<lparr> cb_qps := qps @ drop nq (cb_qps ?b), cb_ready := 1, cb_fifoRkeys := rk \<rparr>,
       sc_remSizes := rs, sc_peer_rank := p \<rparr>, ss_nRemDevs := nr, ss_remDevs := rds, ss_mrs := mrs \<rparr>"
    using run O(1) by (auto simp: connect_finish_def Let_def andThen_Inr)
  have len: "length ?ps = nq" "length qps = nq" using forEach_length [OF q] O(2,3) m by (simp_all add: meta_fits_def)
  have each: "qps ! i = (cb_qps ?b ! i)\<lparr> qp_remDevIdx := qi_devIndex (cm_qpInfo m ! i) \<rparr> \<and>
      ModifyQp (qp_handle (cb_qps ?b ! i)) (ToRtr (rtr_attr_of sp (db_gidIndex (sd_base (ss_devs c ! qp_devIndex (cb_qps ?b ! i))))
        (qi_qpn (cm_qpInfo m ! i)) (cm_devs m ! qi_devIndex (cm_qpInfo m ! i)) False)) \<in> set (ie_calls e')" if i: "i < nq" for i
  proof -
    let ?P = "\<lambda>x y. y = (fst x)\<lparr> qp_remDevIdx := qi_devIndex (snd x) \<rparr>"
    let ?g = "\<lambda>x. ModifyQp (qp_handle (fst x)) (ToRtr (rtr_attr_of sp (db_gidIndex (sd_base (ss_devs c ! qp_devIndex (fst x))))
        (qi_qpn (snd x)) (cm_devs m ! qi_devIndex (snd x)) False))"
    have "?P (?ps ! i) (qps ! i) \<and> ?g (?ps ! i) \<in> set (ie_calls e')"
    proof (rule forEach_all [where P = ?P and g = ?g, OF _ _ q])
      show "grows (finish_qp sp v c m x)" for x by simp
      show "?P x y \<and> ?g x \<in> set (ie_calls e')" if "finish_qp sp v c m x e = (Inr y, e')" for x y e e'
        using that finish_qp_Inr by (cases x) (metis fst_conv snd_conv)
      show "i < length ?ps" using i len by simp
    qed
    moreover have "?ps ! i = (cb_qps ?b ! i, cm_qpInfo m ! i)" using i len(1) by simp
    ultimately show ?thesis by simp
  qed
  show qn: "q < nq \<Longrightarrow> cb_qps (sc_base (ss_comm c')) ! q = (cb_qps ?b ! q)\<lparr> qp_remDevIdx := qi_devIndex (cm_qpInfo m ! q) \<rparr>" for q
    using each len by (simp add: c' nth_append)
  show "q < nq \<Longrightarrow> ModifyQp (qp_handle (cb_qps ?b ! q))
       (ToRtr (rtr_attr_of sp (db_gidIndex (sd_base (ss_devs c ! (q mod nd)))) (qi_qpn (cm_qpInfo m ! q))
          (cm_devs m ! qi_devIndex (cm_qpInfo m ! q)) False)) \<in> set (ie_calls e')"
    using each [of q] O(5) by simp
  show "cb_ready (sc_base (ss_comm c')) = 1" by (simp add: c')
  have "fresh_send (ss_comm c')" using O by (simp add: c' fresh_send_def)
  moreover have "\<forall>q < nq. qp_devIndex (cb_qps (sc_base (ss_comm c')) ! q) = q mod nd" using qn O(5) by simp
  ultimately show "conn_ok nd nq c'" using O len by (simp add: conn_ok_def c')
qed

lemma stage_ok_comm [simp]: "stage_ok nd nq (sg\<lparr> sg_offset := k \<rparr>) = stage_ok nd nq sg"
  by (cases sg) (simp add: stage_ok_def split: ncclIbCommState.splits)

text \<open>Stages while the setup goes on.\<close>

definition stage_has :: "ncclIbCommState \<Rightarrow> send_setup \<Rightarrow> send_setup ncclIbCommStage \<Rightarrow> bool" where
  "stage_has s c sg \<longleftrightarrow> sg_state sg = s \<and> sg_comm sg = Some c"

lemma connect_send_ready_good:
  assumes "conn_ok nd nq c" "cb_ready (sc_base (ss_comm c)) = 1" "stage_has ncclIbCommStateConnected c sg"
  shows "conn_good nd nq (connect_send_ready c sg e n)"
proof -
  have "stage_ok nd nq sg" using assms by (simp add: stage_has_def stage_ok_def)
  then show ?thesis using assms(1,2)
    by (auto simp: connect_send_ready_def Let_def conn_good_fail conn_good_wait conn_good_exit conn_good_def [of _ _ None]
        split: option.splits)
qed

lemma conn_ok_frame: "conn_ok nd nq (c\<lparr> ss_comm := (ss_comm c)\<lparr> sc_peer_rank := p \<rparr>, ss_nRemDevs := k \<rparr>) = conn_ok nd nq c"
  by (simp add: conn_ok_def fresh_send_def)

lemma connect_connect_good:
  assumes ok: "conn_ok nd nq c" and st: "stage_has ncclIbCommStateConnecting c sg"
  shows "conn_good nd nq (connect_connect sp v ly c sg e n)"
proof (cases "ncclSocketProgress NCCL_SOCKET_RECV (sg_buffer sg) (sg_offset sg) (Some (ss_sock c)) n")
  case None
  then show ?thesis by (simp add: connect_connect_def conn_good_def)
next
  case (Some x)
  obtain res buf off n' where x: "x = (res, buf, off, n')" by (cases x) auto
  let ?sg = "sg\<lparr> sg_buffer := buf, sg_offset := off \<rparr>" and ?m = "ly_dec ly buf"
  have nq: "cb_nqps (sc_base (ss_comm c)) = nq" using ok by (simp add: conn_ok_def)
  have wait: "stage_ok nd nq ?sg" using ok st by (simp add: stage_has_def stage_ok_def)
  show ?thesis
  proof (cases "\<not> ncclCheckFails res \<and> off = ly_size ly \<and> meta_fits nq ?m \<and> \<not> mixed_links ?m")
    case False
    have "stage_ok nd nq (?sg\<lparr> sg_comm := Some (c\<lparr> ss_comm := (ss_comm c)\<lparr> sc_peer_rank := p \<rparr>, ss_nRemDevs := k \<rparr>) \<rparr>)" for p k
      using ok st by (simp add: stage_has_def stage_ok_def conn_ok_frame)
    then show ?thesis using False
      by (auto simp: connect_connect_def Some x Let_def nq conn_good_fail conn_good_wait [OF wait] conn_good_def [of _ _ None]
          conn_good_def [of _ _ "Some _"])
  next
    case True
    show ?thesis
    proof (cases "connect_finish sp v c ?m e")
      case (Pair r e')
      show ?thesis
      proof (cases r)
        case (Inl res')
        then show ?thesis using True by (simp add: connect_connect_def Some x Let_def nq Pair conn_good_fail)
      next
        case (Inr c')
        note F = connect_finish_ok [OF Pair [unfolded Inr] ok]
        have "conn_good nd nq (connect_send_ready c' (?sg\<lparr> sg_state := ncclIbCommStateConnected, sg_offset := 0, sg_comm := Some c' \<rparr>) e' n')"
          by (rule connect_send_ready_good) (use F(1,2) True in \<open>simp_all add: stage_has_def\<close>)
        then show ?thesis using True by (simp add: connect_connect_def Some x Let_def nq Pair Inr)
      qed
    qed
  qed
qed

lemma connect_send_good:
  assumes ok: "conn_ok nd nq c" and st: "stage_has ncclIbCommStateSend c sg"
  shows "conn_good nd nq (connect_send sp v ly c sg e n)"
proof -
  have "stage_ok nd nq sg" using ok st by (simp add: stage_has_def stage_ok_def)
  moreover have "conn_good nd nq (connect_connect sp v ly c
      (sg\<lparr> sg_offset := off, sg_state := ncclIbCommStateConnecting, sg_offset := 0, sg_buffer := b \<rparr>) e n')" for off b n'
    by (rule connect_connect_good [OF ok]) (use st in \<open>simp add: stage_has_def\<close>)
  ultimately show ?thesis
    by (auto simp: connect_send_def Let_def conn_good_fail conn_good_wait conn_good_def [of _ _ None] split: option.splits)
qed

text \<open>What is asked of the machine: at most two devices are merged, and every device has a queue pair.\<close>

definition setup_fits :: "setup_params \<Rightarrow> ib_tables \<Rightarrow> nat \<Rightarrow> ncclIbConnectionMetadata \<Rightarrow> bool" where
  "setup_fits sp t dev junk \<longleftrightarrow> length (group t dev) \<in> {1, 2} \<and> 0 < sp_qpsPerConn sp \<and>
     length (cm_qpInfo junk) = NCCL_IB_MAX_QPS \<and> length (cm_devs junk) = 2"

abbreviation (input) nqps_of :: "setup_params \<Rightarrow> ib_tables \<Rightarrow> nat \<Rightarrow> nat" where
  "nqps_of sp t dev \<equiv> nat (sp_qpsPerConn sp) * length (group t dev)"

lemma connect_check_good:
  assumes fit: "setup_fits sp t dev junk" and c: "ss_comm c = zero_send_comm" and st: "sg_state sg = ncclIbCommStateConnect"
  shows "conn_good (length (group t dev)) (nqps_of sp t dev) (connect_check sp v ly t dev junk c sg e n)"
proof (cases "ncclSocketReady (Some (ss_sock c)) n")
  case None
  then show ?thesis by (simp add: connect_check_def conn_good_def)
next
  case (Some x)
  obtain res ready sk n' where x: "x = (res, ready, sk, n')" by (cases x) auto
  let ?c = "c\<lparr> ss_sock := (case sk of None \<Rightarrow> ss_sock c | Some s \<Rightarrow> s) \<rparr>"
  let ?go = "\<not> ncclCheckFails res \<and> ready = Some True \<and> nqps_of sp t dev \<le> NCCL_IB_MAX_QPS"
  have wait: "stage_ok nd nq (sg\<lparr> sg_comm := Some ?c \<rparr>)" for nd nq using c st by (simp add: stage_ok_def)
  show ?thesis
  proof (cases ?go)
    case False
    then show ?thesis
      by (auto simp: connect_check_def Some x Let_def conn_good_fail conn_good_wait [OF wait] conn_good_def [of _ _ None])
  next
    case True
    show ?thesis
    proof (cases "connect_setup sp v t dev junk ?c e")
      case (Pair r e')
      show ?thesis
      proof (cases r)
        case (Inl res')
        then show ?thesis using True by (simp add: connect_check_def Some x Let_def Pair conn_good_fail)
      next
        case (Inr y)
        obtain c' m where y: "y = (c', m)" by (cases y)
        have "conn_ok (length (group t dev)) (nqps_of sp t dev) c'"
          using connect_setup_ok [OF Pair [unfolded Inr y]] fit c True by (simp add: setup_fits_def)
        then have "conn_good (length (group t dev)) (nqps_of sp t dev) (connect_send sp v ly c'
            (sg\<lparr> sg_comm := Some ?c, sg_state := ncclIbCommStateSend, sg_offset := 0, sg_buffer := ly_enc ly m, sg_comm := Some c' \<rparr>) e' n')"
          by (rule connect_send_good) (simp add: stage_has_def)
        then show ?thesis using True by (simp add: connect_check_def Some x Let_def Pair Inr y)
      qed
    qed
  qed
qed

lemma connect_start_good:
  assumes fit: "setup_fits sp t dev junk"
  shows "conn_good (length (group t dev)) (nqps_of sp t dev) (connect_start sp v ly t dev junk ha e n)"
proof -
  have "conn_good (length (group t dev)) (nqps_of sp t dev)
      (connect_check sp v ly t dev junk (zero_send_setup\<lparr> ss_sock := s \<rparr>) (sg\<lparr> sg_state := ncclIbCommStateConnect, sg_comm := y \<rparr>) e n')"
    for s sg y n'
    by (rule connect_check_good [OF fit]) (simp_all add: zero_send_setup_def)
  then show ?thesis
    by (auto simp: connect_start_def Let_def conn_good_fail conn_good_def [of _ _ None] split: option.splits)
qed

section \<open>Working cards\<close>

lemma answers_query_ece: "working v \<Longrightarrow> answers (query_ece v h old)"
  using answers_verb [of v "QueryEce h"] unfolding answers_def query_ece_def by (auto split: prod.splits sum.splits) (metis Inr_not_Inl Pair_inject)+

lemma answers_connect_qp: "working v \<Longrightarrow> answers (connect_qp sp v t base d junk)"
  unfolding connect_qp_def by (auto simp: Let_def intro!: answers_andThen answers_query_ece)

lemma answers_connect_qps: "working v \<Longrightarrow> answers (connect_qps sp v t bases d js)"
  by (induction sp v t bases d js rule: connect_qps.induct) (auto intro: answers_connect_qp)

lemma answers_connect_dev: "working v \<Longrightarrow> gids_found sp t \<Longrightarrow> answers (connect_dev sp v t x)"
  unfolding connect_dev_def by (cases x) (auto simp: Let_def gids_found_def)

lemma answers_connect_setup: "working v \<Longrightarrow> gids_found sp t \<Longrightarrow> answers (connect_setup sp v t dev junk c)"
  unfolding connect_setup_def
  by (auto simp: Let_def intro!: answers_andThen answers_forEach answers_connect_qps answers_connect_dev)

lemma answers_finish_qp: "working v \<Longrightarrow> answers (finish_qp sp v c m x)"
  unfolding finish_qp_def by (cases x) auto

lemma answers_connect_finish: "working v \<Longrightarrow> answers (connect_finish sp v c m)"
  unfolding connect_finish_def by (auto simp: Let_def intro!: answers_andThen answers_forEach answers_finish_qp)

definition example_meta :: ncclIbConnectionMetadata where
  "example_meta = \<lparr> cm_qpInfo = replicate 128 \<lparr> qi_qpn = 0, qi_ece = \<lparr> ece_vendor = 0, ece_options = 0, ece_comp_mask = 0 \<rparr>,
       qi_ece_supported = 0, qi_devIndex = 0 \<rparr>,
     cm_devs = replicate 2 \<lparr> di_lid = 0, di_ib_port = 0, di_mtu = 0, di_link_layer = LINK_OTHER, di_is_global = False,
       di_gid = [0, 0, 0, 0], di_fifoRkey = 0 \<rparr>,
     cm_devName = [], cm_fifoAddr = 0, cm_ndevs = 0, cm_rank = 0 \<rparr>"

abbreviation (input) example_sp :: setup_params where
  "example_sp \<equiv> example_setup_params\<lparr> sp_gidIndex := 0 \<rparr>"

lemma example_nqps: "sp_qpsPerConn example_setup_params = 2"
  by (simp add: example_setup_params_def)

lemma example_fits: "setup_fits example_sp (example_tables m) 0 example_meta"
  by (simp add: setup_fits_def example_meta_def example_tables_group example_nqps)

lemma example_loop:
  obtains c m e where "connect_setup example_sp example_setup_verbs (example_tables 5) 0 example_meta zero_send_setup example_env = (Inr (c, m), e)"
    "conn_ok 1 2 c" "meta_fits 2 m"
proof -
  obtain c m e where r: "connect_setup example_sp example_setup_verbs (example_tables 5) 0 example_meta zero_send_setup example_env = (Inr (c, m), e)"
    using answersE [OF answers_connect_setup [OF example_working example_gids]] by (metis surj_pair)
  have "conn_ok (length (group (example_tables 5) 0)) (nqps_of example_sp (example_tables 5) 0) c \<and>
      meta_fits (nqps_of example_sp (example_tables 5) 0) m"
    using connect_setup_ok [OF r] example_fits [of 5] by (simp add: zero_send_setup_def setup_fits_def example_tables_group example_nqps)
  then show ?thesis using that [OF r] by (simp add: example_tables_group example_nqps)
qed

text \<open>
  C12: the states of a connection. Whatever the peer and the card do, a call of connect leaves the stage of the handle
  consistent with the communicator it keeps, and a communicator is handed out only with success: it has its queue pairs
  dealt out over the devices in turn, is ready, and satisfies the invariant that the sending operations keep.
\<close>
theorem ncclIbConnect_stages:
  assumes "setup_fits sp t dev junk" "stage_ok (length (group t dev)) (nqps_of sp t dev) (ha_stage ha)"
    "ncclIbConnect sp v ly t dev junk ha e n = Some (res, out, ha', e', n')"
  shows "stage_ok (length (group t dev)) (nqps_of sp t dev) (ha_stage ha') \<and>
    (case out of None \<Rightarrow> True
     | Some c \<Rightarrow> res = ncclSuccess \<and> conn_ok (length (group t dev)) (nqps_of sp t dev) c \<and> cb_ready (sc_base (ss_comm c)) = 1 \<and>
         (\<forall>pm. send_inv pm (ss_comm c)))"
proof -
  let ?nd = "length (group t dev)" and ?nq = "nqps_of sp t dev" and ?sg = "ha_stage ha"
  obtain r where r: "r = Some (res, out, ha_stage ha', e', n')" and run:
    "r = (case (sg_state ?sg, sg_comm ?sg) of
           (ncclIbCommStateConnect, Some c) \<Rightarrow> connect_check sp v ly t dev junk c ?sg e n
         | (ncclIbCommStateSend, Some c) \<Rightarrow> connect_send sp v ly c ?sg e n
         | (ncclIbCommStateConnecting, Some c) \<Rightarrow> connect_connect sp v ly c ?sg e n
         | (ncclIbCommStateConnected, Some c) \<Rightarrow> connect_send_ready c ?sg e n
         | (ncclIbCommStateStart, _) \<Rightarrow> connect_start sp v ly t dev junk ha e n
         | (s, None) \<Rightarrow> if s \<in> {ncclIbCommStateConnect, ncclIbCommStateSend, ncclIbCommStateConnecting, ncclIbCommStateConnected}
                        then None else Some (ncclInternalError, None, ?sg, e, n)
         | (_, Some _) \<Rightarrow> Some (ncclInternalError, None, ?sg, e, n))"
    using assms(3) by (auto simp: ncclIbConnect_def Let_def)
  have "conn_good ?nd ?nq r"
  proof (cases "sg_state ?sg")
    case ncclIbCommStateStart
    then show ?thesis using connect_start_good [OF assms(1)] by (cases "sg_comm ?sg") (simp_all add: run)
  next
    case ncclIbCommStateConnect
    then obtain c where "sg_comm ?sg = Some c" "ss_comm c = zero_send_comm" using assms(2) by (auto simp: stage_ok_def)
    then show ?thesis using connect_check_good [OF assms(1)] ncclIbCommStateConnect by (simp add: run)
  next
    case ncclIbCommStateSend
    then obtain c where "sg_comm ?sg = Some c" "conn_ok ?nd ?nq c" using assms(2) by (auto simp: stage_ok_def)
    then show ?thesis using connect_send_good ncclIbCommStateSend by (simp add: run stage_has_def)
  next
    case ncclIbCommStateConnecting
    then obtain c where "sg_comm ?sg = Some c" "conn_ok ?nd ?nq c" using assms(2) by (auto simp: stage_ok_def)
    then show ?thesis using connect_connect_good ncclIbCommStateConnecting by (simp add: run stage_has_def)
  next
    case ncclIbCommStateConnected
    then obtain c where "sg_comm ?sg = Some c" "conn_ok ?nd ?nq c" "cb_ready (sc_base (ss_comm c)) = 1"
      using assms(2) by (auto simp: stage_ok_def)
    then show ?thesis using connect_send_ready_good ncclIbCommStateConnected by (simp add: run stage_has_def)
  qed (use assms(2) in \<open>cases "sg_comm ?sg"; simp add: run conn_good_def\<close>)+
  then show ?thesis using conn_ok_inv by (auto simp: conn_good_def r split: option.splits)
qed

text \<open>The last step of a connection of the example: the four bytes of the flag are sent.\<close>

theorem ncclIbConnect_stages_witness:
  "\<forall>ly pm. \<exists>c ha ha' e n'. ncclIbConnect example_sp example_setup_verbs ly (example_tables 5) 0 example_meta ha e
      \<lparr> nt_in = [Sent 4], nt_log = [] \<rparr> = Some (ncclSuccess, Some c, ha', e, n') \<and>
    sg_state (ha_stage ha) = ncclIbCommStateConnected \<and> cb_nqps (sc_base (ss_comm c)) = 2 \<and> send_inv pm (ss_comm c)"
proof (intro allI, goal_cases)
  case (1 ly pm)
  obtain c0 m where c0: "conn_ok 1 2 c0" "meta_fits 2 m" using example_loop by metis
  obtain c1 e where c1: "connect_finish example_sp example_setup_verbs c0 m example_env = (Inr c1, e)"
    using answersE [OF answers_connect_finish [OF example_working]] by metis
  define c where "c = c1\<lparr> ss_sock := zero_sock \<rparr>"
  have ok: "conn_ok 1 2 c" "cb_ready (sc_base (ss_comm c)) = 1"
    using connect_finish_ok(1,2) [OF c1 c0] by (simp_all add: c_def conn_ok_def)
  have sk: "ss_sock c = zero_sock" by (simp add: c_def)
  define ha where "ha = \<lparr> ha_connectAddr = sk_addr zero_sock, ha_magic = 0, ha_stage =
      \<lparr> sg_state = ncclIbCommStateConnected, sg_offset = 0, sg_buffer = [], sg_comm = Some c \<rparr> \<rparr>"
  have so: "stage_ok (length (group (example_tables 5) 0)) (nqps_of example_sp (example_tables 5) 0) (ha_stage ha)"
    using ok by (simp add: ha_def stage_ok_def example_tables_group example_nqps)
  obtain ha' n' where run: "ncclIbConnect example_sp example_setup_verbs ly (example_tables 5) 0 example_meta ha e
      \<lparr> nt_in = [Sent 4], nt_log = [] \<rparr> = Some (ncclSuccess, Some c, ha', e, n')"
    by (simp add: ncclIbConnect_def ha_def connect_send_ready_def ncclSocketProgress_def socketProgress_def
        socketProgressOpt.simps transfer_def sys_def load_abort_def retried_def ready_bytes_def le_bytes_def conn_exit_def
        io_def sk zero_sock_def)
  have "cb_nqps (sc_base (ss_comm c)) = 2 \<and> send_inv pm (ss_comm c)"
    using ncclIbConnect_stages [OF example_fits so run] by (simp add: conn_ok_def example_tables_group example_nqps)
  then show ?case using run by (intro exI conjI) (auto simp: ha_def)
qed

end
