(* ===== verification/IbAccept.thy ===== *)
theory IbAccept
  imports IbConnect
begin

text \<open>
  The accepting end of a connection (\<^verbatim>\<open>ncclIbListen\<close>, \<^verbatim>\<open>ncclIbAccept\<close> of \<^verbatim>\<open>src/unet/unet_ib.cc\<close>), the end of a
  connection (\<^verbatim>\<open>ncclIbCloseSend\<close>, \<^verbatim>\<open>ncclIbCloseRecv\<close>, \<^verbatim>\<open>ncclIbCloseListen\<close>), and what the two ends guarantee
  together: their queue pairs are joined one to one, and each side writes where the other one reads.
\<close>

section \<open>Listening\<close>

record ncclIbListenComm =
  lc_dev :: nat
  lc_sock :: ncclSocket
  lc_stage :: "recv_setup ncclIbCommStage"

definition start_stage :: "'c ncclIbCommStage" where
  "start_stage = \<lparr> sg_state = ncclIbCommStateStart, sg_offset = 0, sg_buffer = [], sg_comm = None \<rparr>"

definition zero_addr :: ncclSocketAddress where
  "zero_addr = sk_addr zero_sock"

abbreviation (input) NCCL_SOCKET_MAGIC :: u64 where "NCCL_SOCKET_MAGIC \<equiv> 0x564ab9f2fc4b9d6c"

text \<open>The counters of the segment are looked up once a connection is listened for; \<open>stats\<close> is what the lookup gives.\<close>

definition listen_stats :: "Stat option \<times> Stat option \<Rightarrow> world \<Rightarrow> world" where
  "listen_stats = (\<lambda>(ib, bw) w. w\<lparr> wd_ib_stat := (if wd_ib_stat w = None then ib else wd_ib_stat w),
                                  wd_bw_stat := (if wd_bw_stat w = None then bw else wd_bw_stat w) \<rparr>)"

definition ncclIbListen ::
    "ncclSocketAddress \<Rightarrow> Stat option \<times> Stat option \<Rightarrow> nat \<Rightarrow> ib_env \<Rightarrow> net
       \<Rightarrow> (ncclResult \<times> ncclIbHandle \<times> ncclIbListenComm option \<times> ib_env \<times> net) option" where
  "ncclIbListen ifAddr stats dev e n =
     (let ha = \<lparr> ha_connectAddr = zero_addr, ha_magic = NCCL_SOCKET_MAGIC, ha_stage = start_stage \<rparr>;
          fail = (\<lambda>res sk n. case ncclSocketClose sk n of (_, _, n) \<Rightarrow> Some (res, ha, None, e, n)) in
      case ncclSocketInit (Some ifAddr) (ha_magic ha) ncclSocketTypeNetIb False True (Some zero_sock) n of
        None \<Rightarrow> None
      | Some (res, sk, n) \<Rightarrow>
          if ncclCheckFails res then fail res sk n
          else case ncclSocketListen sk n of
            None \<Rightarrow> None
          | Some (res, sk, n) \<Rightarrow>
              if ncclCheckFails res then fail res sk n
              else case (ncclSocketGetAddr sk, sk) of
                ((res, Some addr), Some s) \<Rightarrow>
                  if ncclCheckFails res then fail res sk n
                  else Some (ncclSuccess, ha\<lparr> ha_connectAddr := addr \<rparr>,
                         Some \<lparr> lc_dev = dev, lc_sock = s, lc_stage = start_stage \<rparr>,
                         e\<lparr> ie_world := listen_stats stats (ie_world e) \<rparr>, n)
              | ((res, _), _) \<Rightarrow> fail res sk n)"

section \<open>The setup of the receiving end\<close>

definition accept_base :: "setup_params \<Rightarrow> setup_verbs \<Rightarrow> ib_tables \<Rightarrow> nat \<Rightarrow> ncclIbNetCommDevBase act" where
  "accept_base sp v t ibDevN =
     andThen (ncclIbInitCommDevBase sp v ibDevN zero_base) (device_gid sp (tb_devs t ! ibDevN) ibDevN)"

text \<open>
  The enhancements of a queue pair: those of the other side are set, and what remains of them is asked for. When the
  other side has none, the flag sent back is what the metadata held before.
\<close>

definition accept_ece :: "setup_verbs \<Rightarrow> nat \<Rightarrow> ncclIbQpInfo \<Rightarrow> ncclIbQpInfo \<Rightarrow> ncclIbQpInfo act" where
  "accept_ece v h rem junk =
     (if qi_ece_supported rem = 0 then ret junk
      else andThen (verb v (SetEce h (qi_ece rem))) (\<lambda>sup.
           if sup = 0 then ret (junk\<lparr> qi_ece_supported := 0 \<rparr>)
           else andThen (query_ece v h (qi_ece junk)) (\<lambda>(sup, ece). ret (junk\<lparr> qi_ece := ece, qi_ece_supported := sup \<rparr>))))"

definition accept_qp ::
    "setup_params \<Rightarrow> setup_verbs \<Rightarrow> ib_tables \<Rightarrow> ncclIbNetCommDevBase \<Rightarrow> nat \<Rightarrow> bool \<Rightarrow> ncclIbDevInfo list
       \<Rightarrow> ncclIbQpInfo \<times> ncclIbQpInfo \<Rightarrow> (ncclIbQp \<times> ncclIbQpInfo) act" where
  "accept_qp sp v t base devIndex is_first remDevs = (\<lambda>(rem, junk).
     andThen (ncclIbCreateQp sp v (dv_portNum (tb_devs t ! db_ibDevN base)) base [''REMOTE_WRITE'']) (\<lambda>h.
     andThen (accept_ece v h rem junk) (\<lambda>info.
     andThen (ncclIbRtrQp sp v h (db_gidIndex base) (qi_qpn rem) (remDevs ! qi_devIndex rem) is_first) (\<lambda>_.
     andThen (ncclIbRtsQp sp v h) (\<lambda>_.
     ret (\<lparr> qp_handle = h, qp_devIndex = devIndex, qp_remDevIdx = qi_devIndex rem \<rparr>,
          info\<lparr> qi_qpn := sv_qpn v h, qi_devIndex := devIndex \<rparr>))))))"

fun accept_qps ::
    "setup_params \<Rightarrow> setup_verbs \<Rightarrow> ib_tables \<Rightarrow> ncclIbNetCommDevBase list \<Rightarrow> nat \<Rightarrow> bool \<Rightarrow> ncclIbDevInfo list
       \<Rightarrow> (ncclIbQpInfo \<times> ncclIbQpInfo) list \<Rightarrow> ((ncclIbQp \<times> ncclIbQpInfo) list) act" where
  "accept_qps sp v t bases devIndex is_first remDevs [] = ret []"
| "accept_qps sp v t bases devIndex is_first remDevs (x # xs) =
     andThen (accept_qp sp v t (bases ! devIndex) devIndex is_first remDevs x) (\<lambda>y.
     andThen (accept_qps sp v t bases ((devIndex + 1) mod length bases) False remDevs xs) (\<lambda>ys. ret (y # ys)))"

definition accept_flushEnabled :: "setup_params \<Rightarrow> setup_verbs \<Rightarrow> ib_tables \<Rightarrow> nat \<Rightarrow> bool act" where
  "accept_flushEnabled sp v t dev e =
     (case ncclIbGdrSupport v e of (gdr, e) \<Rightarrow>
        if gdr = ncclSuccess then (Inr (\<not> sp_gdrFlushDisable sp), e)
        else case ncclIbDmaBufSupport v t dev e of (dma, e) \<Rightarrow> (Inr (dma = ncclSuccess \<and> \<not> sp_gdrFlushDisable sp), e))"

text \<open>What the own port is like, for the metadata and for the queue pair that flushes.\<close>

definition own_info :: "setup_params \<Rightarrow> ncclIbDev \<Rightarrow> u32 list \<Rightarrow> ncclIbDevInfo" where
  "own_info sp d gid =
     (let pa = port_of d in
      \<lparr> di_lid = pa_lid pa, di_ib_port = dv_portNum d, di_mtu = pa_active_mtu pa, di_link_layer = pa_link_layer pa,
        di_is_global = globally_routed sp pa, di_gid = gid, di_fifoRkey = 0 \<rparr>)"

definition accept_flush ::
    "setup_params \<Rightarrow> setup_verbs \<Rightarrow> ncclIbDev \<Rightarrow> ncclIbNetCommDevBase \<Rightarrow> (nat \<times> nat) act" where
  "accept_flush sp v d base =
     andThen (verb v (RegSetup (db_pd base) FlushBuf)) (\<lambda>mr.
     andThen (ncclIbCreateQp sp v (dv_portNum d) base [''LOCAL_WRITE'', ''REMOTE_READ'']) (\<lambda>h.
     andThen (ncclIbRtrQp sp v h (db_gidIndex base) (sv_qpn v h) (own_info sp d (db_gid base)) False) (\<lambda>_.
     andThen (ncclIbRtsQp sp v h) (\<lambda>_. ret (mr, h)))))"

definition accept_dev ::
    "setup_params \<Rightarrow> setup_verbs \<Rightarrow> ib_tables \<Rightarrow> bool \<Rightarrow> ncclIbNetCommDevBase \<times> ncclIbDevInfo \<Rightarrow> (ncclIbRecvCommDev \<times> ncclIbDevInfo) act" where
  "accept_dev sp v t flush = (\<lambda>(base, rem).
     let d = tb_devs t ! db_ibDevN base in
     andThen (verb v (RegSetup (db_pd base) RemFifoBuf)) (\<lambda>mr.
     andThen (if flush then andThen (accept_flush sp v d base) (\<lambda>(hm, h). ret (Some hm, Some h)) else ret (None, None)) (\<lambda>(hm, h).
     andThen (verb v (RegSetup (db_pd base) SizesFifoBuf)) (\<lambda>sm.
     ret (\<lparr> rd_base = base\<lparr> db_link := pa_link_layer (port_of d) \<rparr>, rd_fifoRkey = di_fifoRkey rem, rd_fifoMr = Some mr,
            rd_sizesMr = Some sm, rd_hostMr = hm, rd_flushQp = h \<rparr>,
          (own_info sp d (db_gid base))\<lparr> di_mtu := min (di_mtu rem) (pa_active_mtu (port_of d)), di_fifoRkey := sv_rkey v sm \<rparr>)))))"

definition flush_of :: "setup_verbs \<Rightarrow> ncclIbRecvCommDev \<Rightarrow> ncclIbGpuFlush" where
  "flush_of v d =
     (case (rd_hostMr d, rd_flushQp d) of
        (Some mr, Some h) \<Rightarrow> \<lparr> gf_sge = \<lparr> sge_addr = sv_addr v FlushBuf, sge_length = 1, sge_lkey = sv_lkey v mr \<rparr>, gf_qp = h \<rparr>
      | _ \<Rightarrow> \<lparr> gf_sge = \<lparr> sge_addr = 0, sge_length = 0, sge_lkey = 0 \<rparr>, gf_qp = 0 \<rparr>)"

definition fifo_lkey :: "setup_verbs \<Rightarrow> ncclIbRecvCommDev \<Rightarrow> u32" where
  "fifo_lkey v d = (case rd_fifoMr d of Some mr \<Rightarrow> sv_lkey v mr | None \<Rightarrow> 0)"

definition accept_setup ::
    "setup_params \<Rightarrow> setup_verbs \<Rightarrow> ib_tables \<Rightarrow> nat \<Rightarrow> ncclIbConnectionMetadata \<Rightarrow> ncclIbConnectionMetadata \<Rightarrow> recv_setup
       \<Rightarrow> (recv_setup \<times> ncclIbConnectionMetadata) act" where
  "accept_setup sp v t dev junk remMeta c =
     (let ns = group t dev; nd = length ns; nqps = nat (sp_qpsPerConn sp) * nd; k = nat (cm_ndevs remMeta) in
      andThen (forEach (accept_base sp v t) ns) (\<lambda>bases.
      andThen (accept_qps sp v t bases 0 True (cm_devs remMeta) (take nqps (zip (cm_qpInfo remMeta) (cm_qpInfo junk)))) (\<lambda>qs.
      andThen (accept_flushEnabled sp v t dev) (\<lambda>flush.
      andThen (forEach (accept_dev sp v t flush) (zip bases (cm_devs remMeta))) (\<lambda>ds.
      let comm = rt_comm c; b = rc_base comm;
          b = b\<lparr> cb_ndevs := nd, cb_nqps := nqps, cb_isSend := False, cb_qps := map fst qs @ drop nqps (cb_qps b),
                cb_fifoRkeys := map di_fifoRkey (take k (cm_devs remMeta)) @ drop k (cb_fifoRkeys b) \<rparr>
      in ret (c\<lparr> rt_comm := comm\<lparr> rc_base := b, rc_fifo_lkeys := map (fifo_lkey v \<circ> fst) ds @ drop nd (rc_fifo_lkeys comm),
                      rc_flush := map (flush_of v \<circ> fst) ds @ drop nd (rc_flush comm), rc_fifo_local := sv_addr v RemFifoBuf,
                      rc_fifo_addr := (if nd = 0 then rc_fifo_addr comm else cm_fifoAddr remMeta),
                      rc_fifo_inline := (rc_fifo_inline comm \<or> (0 < nd \<and> sp_useInline sp)),
                      rc_flushEnabled := flush, rc_peer_rank := cm_rank remMeta \<rparr>,
                 rt_devs := map fst ds, rt_nRemDevs := cm_ndevs remMeta,
                 rt_remDevs := take k (cm_devs remMeta) @ drop k (rt_remDevs c) \<rparr>,
              junk\<lparr> cm_rank := sp_rank sp, cm_ndevs := int nd, cm_qpInfo := map snd qs @ drop nqps (cm_qpInfo junk),
                    cm_devs := map snd ds @ drop nd (cm_devs junk),
                    cm_fifoAddr := sv_addr v SizesFifoBuf, cm_devName := gd_devName (tb_merged t ! dev) \<rparr>))))))"

section \<open>The stages of ncclIbAccept\<close>

type_synonym accept_res = "(ncclResult \<times> recv_setup option \<times> recv_setup ncclIbCommStage \<times> ib_env \<times> net) option"

text \<open>Failure and success both leave a fresh stage; the objects of a failed communicator are not given back.\<close>

definition accept_exit :: "ncclResult \<Rightarrow> recv_setup option \<Rightarrow> ib_env \<Rightarrow> net \<Rightarrow> accept_res" where
  "accept_exit res out e n = Some (res, out, start_stage, e, n)"

definition accept_wait :: "recv_setup ncclIbCommStage \<Rightarrow> ib_env \<Rightarrow> net \<Rightarrow> accept_res" where
  "accept_wait sg e n = Some (ncclSuccess, None, sg, e, n)"

text \<open>The four bytes of an \<^verbatim>\<open>int\<close>, and back.\<close>

definition int_bytes :: "int \<Rightarrow> u8 list" where
  "int_bytes i = le_bytes 4 (word_of_int i :: u32)"

definition bytes_int :: "u8 list \<Rightarrow> int" where
  "bytes_int bs = sint (word_rcat (rev bs) :: u32)"

text \<open>The flag of the other side is read into \<^verbatim>\<open>base.ready\<close>, and not looked at.\<close>

definition accept_recv_ready :: "recv_setup \<Rightarrow> recv_setup ncclIbCommStage \<Rightarrow> ib_env \<Rightarrow> net \<Rightarrow> accept_res" where
  "accept_recv_ready c sg e n =
     (let comm = rt_comm c; b = rc_base comm in
      case ncclSocketProgress NCCL_SOCKET_RECV (int_bytes (cb_ready b)) (sg_offset sg) (Some (rt_sock c)) n of
        None \<Rightarrow> None
      | Some (res, buf, off, n) \<Rightarrow>
          let c = c\<lparr> rt_comm := comm\<lparr> rc_base := b\<lparr> cb_ready := bytes_int buf \<rparr> \<rparr> \<rparr>; sg = sg\<lparr> sg_offset := off, sg_comm := Some c \<rparr> in
          if ncclCheckFails res then accept_exit res None e n
          else if off \<noteq> sizeof_int then accept_wait sg e n
          else accept_exit ncclSuccess (Some c) e n)"

definition accept_send :: "meta_layout \<Rightarrow> recv_setup \<Rightarrow> recv_setup ncclIbCommStage \<Rightarrow> ib_env \<Rightarrow> net \<Rightarrow> accept_res" where
  "accept_send ly c sg e n =
     (case ncclSocketProgress NCCL_SOCKET_SEND (sg_buffer sg) (sg_offset sg) (Some (rt_sock c)) n of
        None \<Rightarrow> None
      | Some (res, _, off, n) \<Rightarrow>
          let sg = sg\<lparr> sg_offset := off \<rparr> in
          if ncclCheckFails res then accept_exit res None e n
          else if off < ly_size ly then accept_wait sg e n
          else accept_recv_ready c (sg\<lparr> sg_offset := 0, sg_state := ncclIbCommStatePendingReady \<rparr>) e n)"

definition accept_recv ::
    "setup_params \<Rightarrow> setup_verbs \<Rightarrow> meta_layout \<Rightarrow> ib_tables \<Rightarrow> nat \<Rightarrow> ncclIbConnectionMetadata \<Rightarrow> recv_setup
       \<Rightarrow> recv_setup ncclIbCommStage \<Rightarrow> ib_env \<Rightarrow> net \<Rightarrow> accept_res" where
  "accept_recv sp v ly t dev junk c sg e n =
     (case ncclSocketProgress NCCL_SOCKET_RECV (sg_buffer sg) (sg_offset sg) (Some (rt_sock c)) n of
        None \<Rightarrow> None
      | Some (res, buf, off, n) \<Rightarrow>
          let sg = sg\<lparr> sg_buffer := buf, sg_offset := off \<rparr>; nqps = nat (sp_qpsPerConn sp) * length (group t dev) in
          if ncclCheckFails res then accept_exit res None e n
          else if off \<noteq> ly_size ly then accept_wait sg e n
          else let remMeta = ly_dec ly buf in
            if NCCL_IB_MAX_QPS < nqps \<or> \<not> meta_fits nqps remMeta then None
            else case accept_setup sp v t dev junk remMeta c e of
                   (Inl res, e) \<Rightarrow> accept_exit res None e n
                 | (Inr (c, meta), e) \<Rightarrow>
                     accept_send ly c (sg\<lparr> sg_state := ncclIbCommStateSend, sg_offset := 0, sg_buffer := ly_enc ly meta,
                       sg_comm := Some c \<rparr>) e n)"

definition accept_check ::
    "setup_params \<Rightarrow> setup_verbs \<Rightarrow> meta_layout \<Rightarrow> ib_tables \<Rightarrow> nat \<Rightarrow> ncclIbConnectionMetadata \<Rightarrow> recv_setup
       \<Rightarrow> recv_setup ncclIbCommStage \<Rightarrow> ib_env \<Rightarrow> net \<Rightarrow> accept_res" where
  "accept_check sp v ly t dev junk c sg e n =
     (case ncclSocketReady (Some (rt_sock c)) n of
        None \<Rightarrow> None
      | Some (res, ready, sk, n) \<Rightarrow>
          let c = c\<lparr> rt_sock := (case sk of None \<Rightarrow> rt_sock c | Some s \<Rightarrow> s) \<rparr>; sg = sg\<lparr> sg_comm := Some c \<rparr> in
          if ncclCheckFails res then accept_exit res None e n
          else if ready \<noteq> Some True then accept_wait sg e n
          else accept_recv sp v ly t dev junk c
                 (sg\<lparr> sg_state := ncclIbCommStateRecv, sg_offset := 0, sg_buffer := replicate (ly_size ly) 0 \<rparr>) e n)"

definition accept_start ::
    "setup_params \<Rightarrow> setup_verbs \<Rightarrow> meta_layout \<Rightarrow> ib_tables \<Rightarrow> ncclIbConnectionMetadata \<Rightarrow> ncclIbListenComm \<Rightarrow> ib_env \<Rightarrow> net \<Rightarrow> accept_res" where
  "accept_start sp v ly t junk lc e n =
     (let sg = (lc_stage lc)\<lparr> sg_state := ncclIbCommStateAccept \<rparr>; c = zero_recv_setup in
      case ncclSocketInit None NCCL_SOCKET_MAGIC ncclSocketTypeUnknown False False (Some (rt_sock c)) n of
        None \<Rightarrow> None
      | Some (res, sk, n) \<Rightarrow>
          if ncclCheckFails res then accept_exit res None e n
          else case ncclSocketAccept sk (Some (lc_sock lc)) n of
            None \<Rightarrow> None
          | Some (res, sk, n) \<Rightarrow>
              let c = c\<lparr> rt_sock := (case sk of None \<Rightarrow> rt_sock c | Some s \<Rightarrow> s) \<rparr>; sg = sg\<lparr> sg_comm := Some c \<rparr> in
              if ncclCheckFails res then accept_exit res None e n
              else accept_check sp v ly t (lc_dev lc) junk c sg e n)"

definition ncclIbAccept ::
    "setup_params \<Rightarrow> setup_verbs \<Rightarrow> meta_layout \<Rightarrow> ib_tables \<Rightarrow> ncclIbConnectionMetadata \<Rightarrow> ncclIbListenComm \<Rightarrow> ib_env \<Rightarrow> net
       \<Rightarrow> (ncclResult \<times> recv_setup option \<times> ncclIbListenComm \<times> ib_env \<times> net) option" where
  "ncclIbAccept sp v ly t junk lc e n =
     (let sg = lc_stage lc; dev = lc_dev lc in
      map_option (\<lambda>(res, out, sg, e, n). (res, out, lc\<lparr> lc_stage := sg \<rparr>, e, n))
        (case (sg_state sg, sg_comm sg) of
           (ncclIbCommStateAccept, Some c) \<Rightarrow> accept_check sp v ly t dev junk c sg e n
         | (ncclIbCommStateRecv, Some c) \<Rightarrow> accept_recv sp v ly t dev junk c sg e n
         | (ncclIbCommStateSend, Some c) \<Rightarrow> accept_send ly c sg e n
         | (ncclIbCommStatePendingReady, Some c) \<Rightarrow> accept_recv_ready c sg e n
         | (ncclIbCommStateStart, _) \<Rightarrow> accept_start sp v ly t junk lc e n
         | (s, None) \<Rightarrow> if s \<in> {ncclIbCommStateAccept, ncclIbCommStateRecv, ncclIbCommStateSend, ncclIbCommStatePendingReady}
                        then None else Some (ncclInternalError, None, sg, e, n)
         | (_, Some _) \<Rightarrow> Some (ncclInternalError, None, sg, e, n)))"

section \<open>What the accepting end guarantees\<close>

lemma grows_query_ece [intro, simp]: "grows (query_ece v qp old)"
proof -
  have "query_ece v qp old e = (r, e') \<Longrightarrow> \<exists>r'. verb v (QueryEce qp) e = (r', e')" for e r e'
    by (auto simp: query_ece_def split: prod.splits sum.splits)
  then show ?thesis using grows_verb [of v "QueryEce qp"] unfolding grows_def by blast
qed

lemma grows_accept_ece [intro, simp]: "grows (accept_ece v h rem junk)"
  unfolding accept_ece_def by (auto intro!: grows_andThen)

lemma grows_accept_qp [intro, simp]: "grows (accept_qp sp v t b d isf rems x)"
  unfolding accept_qp_def by (cases x) (auto intro!: grows_andThen)

lemma grows_accept_qps [intro, simp]: "grows (accept_qps sp v t bases d isf rems xs)"
  by (induction sp v t bases d isf rems xs rule: accept_qps.induct) (auto intro!: grows_andThen)

lemma grows_accept_flush [intro, simp]: "grows (accept_flush sp v d base)"
  unfolding accept_flush_def by (auto intro!: grows_andThen)

lemma grows_accept_dev [intro, simp]: "grows (accept_dev sp v t flush x)"
  unfolding accept_dev_def by (cases x) (auto simp: Let_def intro!: grows_andThen)

lemma grows_probe_devs: "set (ie_calls e) \<subseteq> set (ie_calls (snd (probe_devs v ns e)))"
proof (induction v ns e rule: probe_devs.induct)
  case (2 v n ns e)
  show ?case using "2.IH"
    by (auto simp: verb_def Let_def split: prod.splits sum.splits if_splits) blast+
qed simp

lemma grows_accept_flushEnabled [intro, simp]: "grows (accept_flushEnabled sp v t dev)"
proof -
  have dma: "set (ie_calls e) \<subseteq> set (ie_calls e')" if "ncclIbDmaBufSupport v t dev e = (r, e')" for e r e'
    using grows_probe_devs [of e v "group t dev"] that
    by (cases "probe_devs v (group t dev) e") (auto simp: ncclIbDmaBufSupport_def Let_def split: if_splits)
  show ?thesis
    unfolding grows_def
  proof (intro allI impI)
    fix e r e'
    assume run: "accept_flushEnabled sp v t dev e = (r, e')"
    obtain g e1 where g: "ncclIbGdrSupport v e = (g, e1)" by (cases "ncclIbGdrSupport v e")
    then have e1: "ie_calls e1 = ie_calls e" by (auto simp: ncclIbGdrSupport_def Let_def)
    obtain d e2 where d: "ncclIbDmaBufSupport v t dev e1 = (d, e2)" by (cases "ncclIbDmaBufSupport v t dev e1")
    show "set (ie_calls e) \<subseteq> set (ie_calls e')"
      using run dma [OF d] e1 by (cases "g = ncclSuccess") (auto simp: accept_flushEnabled_def g d)
  qed
qed

abbreviation (input) rtr_of :: "setup_params \<Rightarrow> nat \<Rightarrow> ncclIbNetCommDevBase \<Rightarrow> ncclIbQpInfo \<Rightarrow> ncclIbDevInfo list \<Rightarrow> bool \<Rightarrow> vcall" where
  "rtr_of sp h base rem rems tc \<equiv> ModifyQp h (ToRtr (rtr_attr_of sp (db_gidIndex base) (qi_qpn rem) (rems ! qi_devIndex rem) tc))"

lemma accept_qp_Inr:
  assumes "accept_qp sp v t base d isf rems (rem, junk) e = (Inr (qp, info), e')"
  shows "qp_devIndex qp = d \<and> qp_remDevIdx qp = qi_devIndex rem \<and> qi_qpn info = sv_qpn v (qp_handle qp) \<and> qi_devIndex info = d \<and>
    rtr_of sp (qp_handle qp) base rem rems isf \<in> set (ie_calls e')"
  using assms by (auto simp: accept_qp_def andThen_Inr ncclIbRtrQp_def ncclIbRtsQp_def dest!: verb_Inr)

lemma accept_qps_length: "accept_qps sp v t bases d isf rems xs e = (Inr ys, e') \<Longrightarrow> length ys = length xs"
  by (induction sp v t bases d isf rems xs arbitrary: ys e rule: accept_qps.induct) (auto simp: andThen_Inr)

lemma accept_qps_nth:
  "accept_qps sp v t bases d isf rems xs e = (Inr ys, e') \<Longrightarrow> d < length bases \<Longrightarrow> q < length xs \<Longrightarrow>
   (case ys ! q of (qp, info) \<Rightarrow> qp_devIndex qp = (d + q) mod length bases \<and> qp_remDevIdx qp = qi_devIndex (fst (xs ! q)) \<and>
      qi_qpn info = sv_qpn v (qp_handle qp) \<and> qi_devIndex info = (d + q) mod length bases \<and>
      rtr_of sp (qp_handle qp) (bases ! ((d + q) mod length bases)) (fst (xs ! q)) rems (isf \<and> q = 0) \<in> set (ie_calls e'))"
proof (induction sp v t bases d isf rems xs arbitrary: ys e q rule: accept_qps.induct)
  case (1 sp v t bases d isf rems)
  then show ?case by simp
next
  case (2 sp v t bases d isf rems x xs)
  then obtain y e1 zs where x: "accept_qp sp v t (bases ! d) d isf rems x e = (Inr y, e1)"
      "accept_qps sp v t bases ((d + 1) mod length bases) False rems xs e1 = (Inr zs, e')" "ys = y # zs"
    by (auto simp: andThen_Inr)
  show ?case
  proof (cases q)
    case 0
    obtain rem junk where p: "x = (rem, junk)" by (cases x)
    obtain qp info where y: "y = (qp, info)" by (cases y)
    show ?thesis using accept_qp_Inr [OF x(1) [unfolded p y]] growsD [OF grows_accept_qps x(2)] x(3) 0 "2.prems"(2) p y by simp
  next
    case (Suc k)
    have "(d + 1) mod length bases < length bases" using "2.prems"(2) by (intro mod_less_divisor) linarith
    then show ?thesis using "2.IH" [OF x(2), of k] x(3) "2.prems"(3) Suc by (simp add: mod_add_left_eq split: prod.splits)
  qed
qed

lemma accept_dev_Inr:
  assumes "accept_dev sp v t flush (base, rem) e = (Inr (d, info), e')"
  shows "db_gidIndex (rd_base d) = db_gidIndex base \<and> db_ibDevN (rd_base d) = db_ibDevN base \<and> rd_fifoRkey d = di_fifoRkey rem \<and>
    di_mtu info = min (di_mtu rem) (pa_active_mtu (port_of (tb_devs t ! db_ibDevN base))) \<and>
    (\<exists>mr. rd_sizesMr d = Some mr \<and> di_fifoRkey info = sv_rkey v mr)"
  using assms by (auto simp: accept_dev_def Let_def andThen_Inr)

lemma accept_base_Inr:
  assumes "accept_base sp v t n e = (Inr b, e')"
  shows "db_ibDevN b = n"
  using assms by (auto simp: accept_base_def andThen_Inr dest!: InitCommDevBase_Inr device_gid_Inr)

text \<open>What a receiver is once its queue pairs run: the counterpart of \<open>conn_ok\<close>.\<close>

definition acc_ok :: "nat \<Rightarrow> nat \<Rightarrow> recv_setup \<Rightarrow> bool" where
  "acc_ok nd nq c \<longleftrightarrow> recv_inv (rt_comm c) \<and> nq \<le> NCCL_IB_MAX_QPS \<and> cb_ndevs (rc_base (rt_comm c)) = nd \<and>
     cb_nqps (rc_base (rt_comm c)) = nq \<and> length (cb_qps (rc_base (rt_comm c))) = NCCL_IB_MAX_QPS \<and> length (rt_devs c) = nd \<and>
     (\<forall>q < nq. qp_devIndex (cb_qps (rc_base (rt_comm c)) ! q) = q mod nd)"

lemma accept_setup_ok:
  assumes run: "accept_setup sp v t dev junk rem c e = (Inr (c', m), e')" and c: "rt_comm c = zero_recv_comm"
    and fit: "setup_fits sp t dev junk" "nqps_of sp t dev \<le> NCCL_IB_MAX_QPS" "meta_fits (nqps_of sp t dev) rem"
  defines "k \<equiv> length (group t dev)" and "nq \<equiv> nqps_of sp t dev"
  shows "acc_ok k nq c'" "meta_fits nq m" "cm_ndevs m = int k"
    "q < nq \<Longrightarrow> (case cb_qps (rc_base (rt_comm c')) ! q of qp \<Rightarrow> qp_remDevIdx qp = qi_devIndex (cm_qpInfo rem ! q) \<and>
       qi_qpn (cm_qpInfo m ! q) = sv_qpn v (qp_handle qp) \<and> qi_devIndex (cm_qpInfo m ! q) = q mod k \<and>
       rtr_of sp (qp_handle qp) (rd_base (rt_devs c' ! (q mod k))) (cm_qpInfo rem ! q) (cm_devs rem) (q = 0) \<in> set (ie_calls e'))"
    "i < k \<Longrightarrow> di_mtu (cm_devs m ! i) = min (di_mtu (cm_devs rem ! i)) (pa_active_mtu (port_of (tb_devs t ! (group t dev ! i))))"
    "rc_fifo_addr (rt_comm c') = cm_fifoAddr rem" "cm_fifoAddr m = sv_addr v SizesFifoBuf"
    "i < nat (cm_ndevs rem) \<Longrightarrow> cb_fifoRkeys (rc_base (rt_comm c')) ! i = di_fifoRkey (cm_devs rem ! i)"
    "i < k \<Longrightarrow> \<exists>mr. rd_sizesMr (rt_devs c' ! i) = Some mr \<and> di_fifoRkey (cm_devs m ! i) = sv_rkey v mr"
proof -
  let ?js = "take nq (zip (cm_qpInfo rem) (cm_qpInfo junk))" and ?b = "rc_base (rt_comm c)" and ?j = "nat (cm_ndevs rem)"
  obtain bases e1 qs e2 fl e3 ds where b: "forEach (accept_base sp v t) (group t dev) e = (Inr bases, e1)"
    and q: "accept_qps sp v t bases 0 True (cm_devs rem) ?js e1 = (Inr qs, e2)"
    and f: "accept_flushEnabled sp v t dev e2 = (Inr fl, e3)"
    and d: "forEach (accept_dev sp v t fl) (zip bases (cm_devs rem)) e3 = (Inr ds, e')"
    and c': "c' = c\<lparr> rt_comm := (rt_comm c)\<lparr> rc_base := ?b\<lparr> cb_ndevs := k, cb_nqps := nq, cb_isSend := False,
              cb_qps := map fst qs @ drop nq (cb_qps ?b), cb_fifoRkeys := map di_fifoRkey (take ?j (cm_devs rem)) @ drop ?j (cb_fifoRkeys ?b) \<rparr>,
            rc_fifo_lkeys := map (fifo_lkey v \<circ> fst) ds @ drop k (rc_fifo_lkeys (rt_comm c)),
            rc_flush := map (flush_of v \<circ> fst) ds @ drop k (rc_flush (rt_comm c)), rc_fifo_local := sv_addr v RemFifoBuf,
            rc_fifo_addr := (if k = 0 then rc_fifo_addr (rt_comm c) else cm_fifoAddr rem),
            rc_fifo_inline := (rc_fifo_inline (rt_comm c) \<or> (0 < k \<and> sp_useInline sp)),
            rc_flushEnabled := fl, rc_peer_rank := cm_rank rem \<rparr>,
          rt_devs := map fst ds, rt_nRemDevs := cm_ndevs rem, rt_remDevs := take ?j (cm_devs rem) @ drop ?j (rt_remDevs c) \<rparr>"
    and m: "m = junk\<lparr> cm_rank := sp_rank sp, cm_ndevs := int k, cm_qpInfo := map snd qs @ drop nq (cm_qpInfo junk),
            cm_devs := map snd ds @ drop k (cm_devs junk), cm_fifoAddr := sv_addr v SizesFifoBuf, cm_devName := gd_devName (tb_merged t ! dev) \<rparr>"
    using run by (auto simp: accept_setup_def Let_def andThen_Inr k_def nq_def)
  have k: "0 < k" "k \<le> 2" "length (cm_qpInfo junk) = NCCL_IB_MAX_QPS" "length (cm_devs junk) = 2" "k \<le> nq" "nq \<le> NCCL_IB_MAX_QPS"
    using fit(1,2) by (auto simp: k_def nq_def setup_fits_def)
  have r: "length (cm_qpInfo rem) = NCCL_IB_MAX_QPS" "length (cm_devs rem) = 2" "?j \<le> 2"
    using fit(3) by (auto simp: meta_fits_def)
  have lb: "length bases = k" using forEach_length [OF b] by (simp add: k_def)
  have lq: "length qs = nq" using accept_qps_length [OF q] r(1) k(3,6) by simp
  have ld: "length ds = k" using forEach_length [OF d] lb r(2) k(2) by simp
  have base: "db_ibDevN (bases ! i) = group t dev ! i" if "i < k" for i
    using forEach_nth [OF b, of i] that accept_base_Inr by (auto simp: k_def)
  have dev: "db_gidIndex (rd_base (fst (ds ! i))) = db_gidIndex (bases ! i) \<and>
      di_mtu (snd (ds ! i)) = min (di_mtu (cm_devs rem ! i)) (pa_active_mtu (port_of (tb_devs t ! (group t dev ! i)))) \<and>
      (\<exists>mr. rd_sizesMr (fst (ds ! i)) = Some mr \<and> di_fifoRkey (snd (ds ! i)) = sv_rkey v mr)" if i: "i < k" for i
  proof -
    have "i < length (zip bases (cm_devs rem))" using i lb r(2) k(2) by simp
    from forEach_nth [OF d this] obtain e4 e5 where "accept_dev sp v t fl (bases ! i, cm_devs rem ! i) e4 = (Inr (fst (ds ! i), snd (ds ! i)), e5)"
      using i lb r(2) k(2) by auto
    from accept_dev_Inr [OF this] show ?thesis using base [OF i] by simp
  qed
  have calls: "x \<in> set (ie_calls e')" if "x \<in> set (ie_calls e2)" for x
    by (rule growsD [OF grows_forEach [OF grows_accept_dev] d growsD [OF grows_accept_flushEnabled f that]])
  have qp: "qp_devIndex (fst (qs ! i)) = i mod k \<and> qp_remDevIdx (fst (qs ! i)) = qi_devIndex (cm_qpInfo rem ! i) \<and>
      qi_qpn (snd (qs ! i)) = sv_qpn v (qp_handle (fst (qs ! i))) \<and> qi_devIndex (snd (qs ! i)) = i mod k \<and>
      rtr_of sp (qp_handle (fst (qs ! i))) (bases ! (i mod k)) (cm_qpInfo rem ! i) (cm_devs rem) (i = 0) \<in> set (ie_calls e')" if i: "i < nq" for i
  proof -
    have "i < length ?js" using i r(1) k(3,6) by simp
    then show ?thesis using accept_qps_nth [OF q, of i] lb k(1,3,6) r(1) i by (simp add: calls split: prod.splits)
  qed
  have qk: "qps = map fst qs @ drop nq (cb_qps ?b) \<Longrightarrow> d < k \<Longrightarrow> qp_devIndex (qps ! d) = d" for qps d
    using qp [of d] k(5) lq by (simp add: nth_append)
  show "acc_ok k nq c'"
    unfolding acc_ok_def recv_inv_def using c k qp lq ld qk
    by (simp add: c' zero_recv_comm_def zero_comm_base_def nth_append tail_slot_def)
  have "qi_devIndex qi < 2" if "qi \<in> set (take nq (cm_qpInfo m))" for qi
  proof -
    have "qi \<in> set (map snd qs)" using that lq by (simp add: m)
    then obtain i where "i < nq" "qi = snd (qs ! i)" using lq by (auto simp: in_set_conv_nth)
    then show ?thesis using qp [of i] k(1,2) by (metis less_le_trans mod_less_divisor)
  qed
  then show "meta_fits nq m" using k lq ld by (auto simp: meta_fits_def m)
  show "cm_ndevs m = int k" "cm_fifoAddr m = sv_addr v SizesFifoBuf" by (simp_all add: m)
  show "rc_fifo_addr (rt_comm c') = cm_fifoAddr rem" using k(1) by (simp add: c')
  show "i < nat (cm_ndevs rem) \<Longrightarrow> cb_fifoRkeys (rc_base (rt_comm c')) ! i = di_fifoRkey (cm_devs rem ! i)"
    using r by (simp add: c' nth_append)
  show "i < k \<Longrightarrow> di_mtu (cm_devs m ! i) = min (di_mtu (cm_devs rem ! i)) (pa_active_mtu (port_of (tb_devs t ! (group t dev ! i))))"
    using dev [of i] ld by (simp add: m nth_append)
  show "i < k \<Longrightarrow> \<exists>mr. rd_sizesMr (rt_devs c' ! i) = Some mr \<and> di_fifoRkey (cm_devs m ! i) = sv_rkey v mr"
    using dev [of i] ld by (simp add: m c' nth_append)
  show "q < nq \<Longrightarrow> (case cb_qps (rc_base (rt_comm c')) ! q of qp \<Rightarrow> qp_remDevIdx qp = qi_devIndex (cm_qpInfo rem ! q) \<and>
       qi_qpn (cm_qpInfo m ! q) = sv_qpn v (qp_handle qp) \<and> qi_devIndex (cm_qpInfo m ! q) = q mod k \<and>
       rtr_of sp (qp_handle qp) (rd_base (rt_devs c' ! (q mod k))) (cm_qpInfo rem ! q) (cm_devs rem) (q = 0) \<in> set (ie_calls e'))"
    using qp [of q] dev [of "q mod k"] k(1) ld lq by (simp add: c' m nth_append)
qed

section \<open>The stages of an accepted connection\<close>

definition acc_stage_ok :: "nat \<Rightarrow> nat \<Rightarrow> recv_setup ncclIbCommStage \<Rightarrow> bool" where
  "acc_stage_ok nd nq sg \<longleftrightarrow>
     (case sg_state sg of
        ncclIbCommStateAccept \<Rightarrow> \<exists>c. sg_comm sg = Some c \<and> rt_comm c = zero_recv_comm
      | ncclIbCommStateRecv \<Rightarrow> \<exists>c. sg_comm sg = Some c \<and> rt_comm c = zero_recv_comm
      | ncclIbCommStateSend \<Rightarrow> \<exists>c. sg_comm sg = Some c \<and> acc_ok nd nq c
      | ncclIbCommStatePendingReady \<Rightarrow> \<exists>c. sg_comm sg = Some c \<and> acc_ok nd nq c
      | _ \<Rightarrow> True)"

definition acc_good :: "nat \<Rightarrow> nat \<Rightarrow> accept_res \<Rightarrow> bool" where
  "acc_good nd nq r \<longleftrightarrow>
     (case r of None \<Rightarrow> True
      | Some (res, out, sg, e, n) \<Rightarrow> acc_stage_ok nd nq sg \<and>
          (case out of None \<Rightarrow> True | Some c \<Rightarrow> res = ncclSuccess \<and> sg = start_stage \<and> acc_ok nd nq c))"

lemma acc_good_exit: "acc_good nd nq (accept_exit res None e n)" "acc_ok nd nq c \<Longrightarrow> acc_good nd nq (accept_exit ncclSuccess (Some c) e n)"
  by (simp_all add: acc_good_def accept_exit_def acc_stage_ok_def start_stage_def)

lemma acc_good_wait: "acc_stage_ok nd nq sg \<Longrightarrow> acc_good nd nq (accept_wait sg e n)"
  by (simp add: acc_good_def accept_wait_def)

lemma acc_good_none: "acc_good nd nq None"
  by (simp add: acc_good_def)

lemma acc_ok_ready: "acc_ok nd nq (c\<lparr> rt_comm := (rt_comm c)\<lparr> rc_base := (rc_base (rt_comm c))\<lparr> cb_ready := x \<rparr> \<rparr> \<rparr>) = acc_ok nd nq c"
  by (simp add: acc_ok_def recv_inv_def tail_slot_def)

lemma accept_recv_ready_good:
  assumes "acc_ok nd nq c" "sg_state sg = ncclIbCommStatePendingReady"
  shows "acc_good nd nq (accept_recv_ready c sg e n)"
proof -
  have "acc_stage_ok nd nq (sg\<lparr> sg_offset := off, sg_comm := Some (c\<lparr> rt_comm := (rt_comm c)\<lparr> rc_base := (rc_base (rt_comm c))\<lparr> cb_ready := x \<rparr> \<rparr> \<rparr>) \<rparr>)" for off x
    using assms by (simp add: acc_stage_ok_def acc_ok_ready)
  then show ?thesis using assms(1)
    by (auto simp: accept_recv_ready_def Let_def acc_good_exit acc_good_wait acc_good_none acc_ok_ready split: option.splits)
qed

lemma accept_send_good:
  assumes "acc_ok nd nq c" "sg_state sg = ncclIbCommStateSend" "sg_comm sg = Some c"
  shows "acc_good nd nq (accept_send ly c sg e n)"
proof -
  have "acc_stage_ok nd nq (sg\<lparr> sg_offset := off \<rparr>)" for off
    using assms by (simp add: acc_stage_ok_def)
  moreover have "acc_good nd nq (accept_recv_ready c (sg\<lparr> sg_offset := off, sg_offset := 0, sg_state := ncclIbCommStatePendingReady \<rparr>) e n')" for off n'
    by (rule accept_recv_ready_good [OF assms(1)]) simp
  ultimately show ?thesis
    by (auto simp: accept_send_def Let_def acc_good_exit acc_good_wait acc_good_none split: option.splits)
qed

lemma accept_recv_good:
  assumes fit: "setup_fits sp t dev junk" and c: "rt_comm c = zero_recv_comm" and st: "sg_state sg = ncclIbCommStateRecv" "sg_comm sg = Some c"
  shows "acc_good (length (group t dev)) (nqps_of sp t dev) (accept_recv sp v ly t dev junk c sg e n)"
proof (cases "ncclSocketProgress NCCL_SOCKET_RECV (sg_buffer sg) (sg_offset sg) (Some (rt_sock c)) n")
  case None
  then show ?thesis by (simp add: accept_recv_def acc_good_none)
next
  case (Some x)
  obtain res buf off n' where x: "x = (res, buf, off, n')" by (cases x) auto
  let ?sg = "sg\<lparr> sg_buffer := buf, sg_offset := off \<rparr>" and ?m = "ly_dec ly buf" and ?nq = "nqps_of sp t dev" and ?nd = "length (group t dev)"
  have wait: "acc_stage_ok nd nq ?sg" for nd nq using c st by (simp add: acc_stage_ok_def)
  show ?thesis
  proof (cases "\<not> ncclCheckFails res \<and> off = ly_size ly \<and> ?nq \<le> NCCL_IB_MAX_QPS \<and> meta_fits ?nq ?m")
    case False
    then show ?thesis by (auto simp: accept_recv_def Some x Let_def acc_good_exit acc_good_wait [OF wait] acc_good_none)
  next
    case True
    show ?thesis
    proof (cases "accept_setup sp v t dev junk ?m c e")
      case (Pair r e')
      show ?thesis
      proof (cases r)
        case (Inl res')
        then show ?thesis using True by (simp add: accept_recv_def Some x Let_def Pair acc_good_exit)
      next
        case (Inr y)
        obtain c' m where y: "y = (c', m)" by (cases y)
        have ok: "acc_ok ?nd ?nq c'"
          using accept_setup_ok(1) [OF Pair [unfolded Inr y] c fit] True by simp
        have "acc_good ?nd ?nq (accept_send ly c' (?sg\<lparr> sg_state := ncclIbCommStateSend, sg_offset := 0, sg_buffer := ly_enc ly m,
                       sg_comm := Some c' \<rparr>) e' n')"
          by (rule accept_send_good [OF ok]) simp_all
        then show ?thesis using True by (simp add: accept_recv_def Some x Let_def Pair Inr y)
      qed
    qed
  qed
qed

lemma accept_check_good:
  assumes fit: "setup_fits sp t dev junk" and c: "rt_comm c = zero_recv_comm" and st: "sg_state sg = ncclIbCommStateAccept"
  shows "acc_good (length (group t dev)) (nqps_of sp t dev) (accept_check sp v ly t dev junk c sg e n)"
proof -
  have "acc_stage_ok nd nq (sg\<lparr> sg_comm := Some (c\<lparr> rt_sock := s \<rparr>) \<rparr>)" for nd nq s using c st by (simp add: acc_stage_ok_def)
  moreover have "acc_good (length (group t dev)) (nqps_of sp t dev) (accept_recv sp v ly t dev junk (c\<lparr> rt_sock := s \<rparr>)
     (sg\<lparr> sg_comm := Some (c\<lparr> rt_sock := s \<rparr>), sg_state := ncclIbCommStateRecv, sg_offset := 0, sg_buffer := b \<rparr>) e n')" for s b n'
    by (rule accept_recv_good [OF fit]) (simp_all add: c)
  ultimately show ?thesis
    by (auto simp: accept_check_def Let_def acc_good_exit acc_good_wait acc_good_none split: option.splits)
qed

lemma accept_start_good:
  assumes fit: "setup_fits sp t (lc_dev lc) junk"
  shows "acc_good (length (group t (lc_dev lc))) (nqps_of sp t (lc_dev lc)) (accept_start sp v ly t junk lc e n)"
proof -
  have "acc_good (length (group t (lc_dev lc))) (nqps_of sp t (lc_dev lc)) (accept_check sp v ly t (lc_dev lc) junk
     (zero_recv_setup\<lparr> rt_sock := s \<rparr>) (sg\<lparr> sg_state := ncclIbCommStateAccept, sg_comm := y \<rparr>) e n')" for s sg y n'
    by (rule accept_check_good [OF fit]) (simp_all add: zero_recv_setup_def)
  then show ?thesis
    by (auto simp: accept_start_def Let_def acc_good_exit acc_good_none split: option.splits)
qed

lemma answers_accept_ece: "working v \<Longrightarrow> answers (accept_ece v h rem junk)"
  unfolding accept_ece_def by (auto intro!: answers_andThen answers_query_ece)

lemma answers_accept_qp: "working v \<Longrightarrow> answers (accept_qp sp v t b d isf rems x)"
  unfolding accept_qp_def by (cases x) (auto intro!: answers_andThen answers_accept_ece)

lemma answers_accept_qps: "working v \<Longrightarrow> answers (accept_qps sp v t bases d isf rems xs)"
  by (induction sp v t bases d isf rems xs rule: accept_qps.induct) (auto intro: answers_accept_qp)

lemma answers_flushEnabled: "answers (accept_flushEnabled sp v t dev)"
  by (auto simp: answers_def accept_flushEnabled_def split: prod.splits)

lemma answers_accept_dev: "working v \<Longrightarrow> answers (accept_dev sp v t flush x)"
  unfolding accept_dev_def accept_flush_def by (cases x) (auto simp: Let_def intro!: answers_andThen)

lemma answers_accept_setup: "working v \<Longrightarrow> gids_found sp t \<Longrightarrow> answers (accept_setup sp v t dev junk rem c)"
  unfolding accept_setup_def accept_base_def
  by (auto simp: Let_def gids_found_def
      intro!: answers_andThen answers_forEach answers_accept_qps answers_accept_dev answers_flushEnabled)

text \<open>
  C13: the states of an accepted connection. Whatever the peer and the card do, a call of accept leaves the listening end
  with a stage that fits its communicator, and a communicator is handed out only with success, with a fresh stage behind it:
  it has its queue pairs dealt out over the devices in turn and satisfies the invariant that the receiving operations keep.
\<close>
theorem ncclIbAccept_stages:
  assumes "setup_fits sp t (lc_dev lc) junk"
    "acc_stage_ok (length (group t (lc_dev lc))) (nqps_of sp t (lc_dev lc)) (lc_stage lc)"
    "ncclIbAccept sp v ly t junk lc e n = Some (res, out, lc', e', n')"
  shows "acc_stage_ok (length (group t (lc_dev lc))) (nqps_of sp t (lc_dev lc)) (lc_stage lc') \<and>
    (case out of None \<Rightarrow> True
     | Some c \<Rightarrow> res = ncclSuccess \<and> lc_stage lc' = start_stage \<and> acc_ok (length (group t (lc_dev lc))) (nqps_of sp t (lc_dev lc)) c \<and>
         recv_inv (rt_comm c))"
proof -
  let ?dev = "lc_dev lc" and ?sg = "lc_stage lc"
  let ?nd = "length (group t ?dev)" and ?nq = "nqps_of sp t ?dev"
  obtain r where r: "r = Some (res, out, lc_stage lc', e', n')" and run:
    "r = (case (sg_state ?sg, sg_comm ?sg) of
           (ncclIbCommStateAccept, Some c) \<Rightarrow> accept_check sp v ly t ?dev junk c ?sg e n
         | (ncclIbCommStateRecv, Some c) \<Rightarrow> accept_recv sp v ly t ?dev junk c ?sg e n
         | (ncclIbCommStateSend, Some c) \<Rightarrow> accept_send ly c ?sg e n
         | (ncclIbCommStatePendingReady, Some c) \<Rightarrow> accept_recv_ready c ?sg e n
         | (ncclIbCommStateStart, _) \<Rightarrow> accept_start sp v ly t junk lc e n
         | (s, None) \<Rightarrow> if s \<in> {ncclIbCommStateAccept, ncclIbCommStateRecv, ncclIbCommStateSend, ncclIbCommStatePendingReady}
                        then None else Some (ncclInternalError, None, ?sg, e, n)
         | (_, Some _) \<Rightarrow> Some (ncclInternalError, None, ?sg, e, n))"
    using assms(3) by (auto simp: ncclIbAccept_def Let_def)
  have "acc_good ?nd ?nq r"
  proof (cases "sg_state ?sg")
    case ncclIbCommStateStart
    then show ?thesis using accept_start_good [OF assms(1)] by (cases "sg_comm ?sg") (simp_all add: run)
  next
    case ncclIbCommStateAccept
    then obtain c where "sg_comm ?sg = Some c" "rt_comm c = zero_recv_comm" using assms(2) by (auto simp: acc_stage_ok_def)
    then show ?thesis using accept_check_good [OF assms(1)] ncclIbCommStateAccept by (simp add: run)
  next
    case ncclIbCommStateRecv
    then obtain c where "sg_comm ?sg = Some c" "rt_comm c = zero_recv_comm" using assms(2) by (auto simp: acc_stage_ok_def)
    then show ?thesis using accept_recv_good [OF assms(1)] ncclIbCommStateRecv by (simp add: run)
  next
    case ncclIbCommStateSend
    then obtain c where "sg_comm ?sg = Some c" "acc_ok ?nd ?nq c" using assms(2) by (auto simp: acc_stage_ok_def)
    then show ?thesis using accept_send_good ncclIbCommStateSend by (simp add: run)
  next
    case ncclIbCommStatePendingReady
    then obtain c where "sg_comm ?sg = Some c" "acc_ok ?nd ?nq c" using assms(2) by (auto simp: acc_stage_ok_def)
    then show ?thesis using accept_recv_ready_good ncclIbCommStatePendingReady by (simp add: run)
  qed (use assms(2) in \<open>cases "sg_comm ?sg"; simp add: run acc_good_def\<close>)+
  then show ?thesis by (auto simp: acc_good_def acc_ok_def r split: option.splits)
qed

text \<open>The last step of an accepted connection: the four bytes of the flag come.\<close>

theorem ncclIbAccept_stages_witness:
  "\<forall>ly. \<exists>c lc lc' e n'. ncclIbAccept example_sp example_setup_verbs ly (example_tables 5) example_meta lc e
      \<lparr> nt_in = [Bytes [1, 0, 0, 0]], nt_log = [] \<rparr> = Some (ncclSuccess, Some c, lc', e, n') \<and>
    sg_state (lc_stage lc) = ncclIbCommStatePendingReady \<and> lc_stage lc' = start_stage \<and> cb_ready (rc_base (rt_comm c)) = 1 \<and>
    recv_inv (rt_comm c)"
proof (intro allI, goal_cases)
  case (1 ly)
  obtain c0 m where m: "meta_fits 2 m" using example_loop by metis
  have z: "rt_comm zero_recv_setup = zero_recv_comm" by (simp add: zero_recv_setup_def)
  obtain c1 m2 e where c1: "accept_setup example_sp example_setup_verbs (example_tables 5) 0 example_meta m zero_recv_setup example_env = (Inr (c1, m2), e)"
    using answersE [OF answers_accept_setup [OF example_working example_gids]] by (metis surj_pair)
  define c where "c = c1\<lparr> rt_sock := zero_sock \<rparr>"
  have "acc_ok (length (group (example_tables 5) 0)) (nqps_of example_sp (example_tables 5) 0) c1"
    by (rule accept_setup_ok(1) [OF c1 z example_fits]) (use m in \<open>simp_all add: example_tables_group example_nqps\<close>)
  then have ok: "acc_ok 1 2 c" by (simp add: c_def acc_ok_def example_tables_group example_nqps)
  have sk: "rt_sock c = zero_sock" by (simp add: c_def)
  define lc where "lc = \<lparr> lc_dev = 0, lc_sock = zero_sock, lc_stage =
      \<lparr> sg_state = ncclIbCommStatePendingReady, sg_offset = 0, sg_buffer = [], sg_comm = Some c \<rparr> \<rparr>"
  have fit: "setup_fits example_sp (example_tables 5) (lc_dev lc) example_meta" by (simp add: lc_def example_fits)
  have so: "acc_stage_ok (length (group (example_tables 5) (lc_dev lc))) (nqps_of example_sp (example_tables 5) (lc_dev lc)) (lc_stage lc)"
    using ok by (simp add: lc_def acc_stage_ok_def example_tables_group example_nqps)
  have b: "bytes_int [1, 0, 0, 0] = 1" by code_simp
  define c' where "c' = c\<lparr> rt_comm := (rt_comm c)\<lparr> rc_base := (rc_base (rt_comm c))\<lparr> cb_ready := 1 \<rparr> \<rparr> \<rparr>"
  have "\<exists>lc' n'. ncclIbAccept example_sp example_setup_verbs ly (example_tables 5) example_meta lc e
      \<lparr> nt_in = [Bytes [1, 0, 0, 0]], nt_log = [] \<rparr> = Some (ncclSuccess, Some c', lc', e, n')"
    by (simp add: ncclIbAccept_def lc_def accept_recv_ready_def ncclSocketProgress_def socketProgress_def Let_def
        socketProgressOpt.simps transfer_def sys_def load_abort_def retried_def int_bytes_def le_bytes_def accept_exit_def
        store_bytes_def io_def sk zero_sock_def b c'_def)
  then obtain lc' n' where run: "ncclIbAccept example_sp example_setup_verbs ly (example_tables 5) example_meta lc e
      \<lparr> nt_in = [Bytes [1, 0, 0, 0]], nt_log = [] \<rparr> = Some (ncclSuccess, Some c', lc', e, n')" by blast
  have r: "cb_ready (rc_base (rt_comm c')) = 1" by (simp add: c'_def)
  from ncclIbAccept_stages [OF fit so run] show ?case using run r by (intro exI conjI) (auto simp: lc_def)
qed

end
