(* ===== verification/IbPair.thy ===== *)
theory IbPair
  imports IbAccept
begin

text \<open>
  The two ends of a connection together (\<^verbatim>\<open>src/unet/unet_ib.cc\<close>): the sender's metadata of \<^verbatim>\<open>ncclIbConnect\<close> given to
  \<^verbatim>\<open>ncclIbAccept\<close>, and the receiver's given back. Each end has its own library, tables and parameters.
\<close>

lemma connect_setup_memory:
  assumes run: "connect_setup sp v t dev junk c e = (Inr (c', m), e')" and fit: "setup_fits sp t dev junk"
  shows "cm_fifoAddr m = sv_addr v SendFifoBuf"
    "i < length (group t dev) \<Longrightarrow> (\<exists>mr. sd_fifoMr (ss_devs c' ! i) = Some mr \<and> di_fifoRkey (cm_devs m ! i) = sv_rkey v mr) \<and>
       di_mtu (cm_devs m ! i) = pa_active_mtu (port_of (tb_devs t ! (group t dev ! i)))"
proof -
  let ?k = "length (group t dev)"
  obtain bases e1 qs e2 ds qi where b: "forEach (\<lambda>n. ncclIbInitCommDevBase sp v n zero_base) (group t dev) e = (Inr bases, e1)"
    and d: "forEach (connect_dev sp v t) (zip bases (cm_devs junk)) e2 = (Inr ds, e')"
    and c': "ss_devs c' = map fst ds" and m: "cm_devs m = map snd ds @ drop ?k (cm_devs junk)" "cm_fifoAddr m = sv_addr v SendFifoBuf"
    using run by (auto simp: connect_setup_def Let_def andThen_Inr)
  show "cm_fifoAddr m = sv_addr v SendFifoBuf" by (rule m)
  have k: "?k \<le> 2" "length (cm_devs junk) = 2" using fit by (auto simp: setup_fits_def)
  have lb: "length bases = ?k" by (rule forEach_length [OF b])
  have ld: "length ds = ?k" using forEach_length [OF d] lb k by simp
  assume i: "i < ?k"
  have base: "db_ibDevN (bases ! i) = group t dev ! i" using forEach_nth [OF b i] InitCommDevBase_Inr by blast
  have "i < length (zip bases (cm_devs junk))" using i lb k by simp
  from forEach_nth [OF d this] obtain e4 e5 where "connect_dev sp v t (bases ! i, cm_devs junk ! i) e4 = (Inr (ds ! i), e5)"
    using i lb k by auto
  then have "\<exists>mr. sd_fifoMr (fst (ds ! i)) = Some mr \<and> di_fifoRkey (snd (ds ! i)) = sv_rkey v mr"
    "di_mtu (snd (ds ! i)) = pa_active_mtu (port_of (tb_devs t ! (group t dev ! i)))"
    using base by (auto simp: connect_dev_def Let_def andThen_Inr)
  then show "(\<exists>mr. sd_fifoMr (ss_devs c' ! i) = Some mr \<and> di_fifoRkey (cm_devs m ! i) = sv_rkey v mr) \<and>
       di_mtu (cm_devs m ! i) = pa_active_mtu (port_of (tb_devs t ! (group t dev ! i)))"
    using i ld by (simp add: c' m nth_append)
qed

lemma connect_finish_memory:
  assumes run: "connect_finish sp v c m e = (Inr c', e')" and m: "meta_fits nq m"
  shows "ss_devs c' = ss_devs c" "0 < cm_ndevs m \<Longrightarrow> rs_addr (sc_remSizes (ss_comm c')) = cm_fifoAddr m"
    "i < nat (cm_ndevs m) \<Longrightarrow> rs_rkeys (sc_remSizes (ss_comm c')) ! i = di_fifoRkey (cm_devs m ! i)"
proof -
  obtain rs mrs where c': "ss_devs c' = ss_devs c" "sc_remSizes (ss_comm c') =
      rs\<lparr> rs_rkeys := map di_fifoRkey (take (nat (cm_ndevs m)) (cm_devs m)) @ drop (nat (cm_ndevs m)) (rs_rkeys (sc_remSizes (ss_comm c))),
          rs_addr := (if nat (cm_ndevs m) = 0 then rs_addr (sc_remSizes (ss_comm c)) else cm_fifoAddr m),
          rs_local := sv_addr v RemSizesBuf, rs_lkeys := map (sv_lkey v) mrs @ drop (cb_ndevs (sc_base (ss_comm c))) (rs_lkeys (sc_remSizes (ss_comm c))) \<rparr>"
    using run by (auto simp: connect_finish_def Let_def andThen_Inr)
  then show "ss_devs c' = ss_devs c" "0 < cm_ndevs m \<Longrightarrow> rs_addr (sc_remSizes (ss_comm c')) = cm_fifoAddr m"
    "i < nat (cm_ndevs m) \<Longrightarrow> rs_rkeys (sc_remSizes (ss_comm c')) ! i = di_fifoRkey (cm_devs m ! i)"
    using m by (auto simp: meta_fits_def nth_append)
qed

text \<open>A queue pair was moved to the state in which it receives, towards the queue pair with the number \<open>qpn\<close>.\<close>

definition points_to :: "vcall list \<Rightarrow> nat \<Rightarrow> u32 \<Rightarrow> bool" where
  "points_to calls h qpn \<longleftrightarrow> (\<exists>c \<in> set calls. case c of ModifyQp h' (ToRtr a) \<Rightarrow> h' = h \<and> ra_dest_qp_num a = qpn | _ \<Rightarrow> False)"

definition points_to_mtu :: "vcall list \<Rightarrow> nat \<Rightarrow> int \<Rightarrow> bool" where
  "points_to_mtu calls h mtu \<longleftrightarrow> (\<exists>c \<in> set calls. case c of ModifyQp h' (ToRtr a) \<Rightarrow> h' = h \<and> ra_path_mtu a = mtu | _ \<Rightarrow> False)"

lemma points_toI: "ModifyQp h (ToRtr (rtr_attr_of sp g qpn d o')) \<in> set cs \<Longrightarrow> points_to cs h qpn"
  unfolding points_to_def by (rule bexI [rotated]) (auto simp: rtr_attr_of_def Let_def)

lemma points_to_mtuI: "ModifyQp h (ToRtr (rtr_attr_of sp g qpn d o')) \<in> set cs \<Longrightarrow> points_to_mtu cs h (di_mtu d)"
  unfolding points_to_mtu_def by (rule bexI [rotated]) (auto simp: rtr_attr_of_def Let_def)

text \<open>The three setups of one connection: the sender's, the receiver's with its metadata, and the sender's second part.\<close>

definition connected ::
    "setup_params \<Rightarrow> setup_verbs \<Rightarrow> ib_tables \<Rightarrow> nat \<Rightarrow> setup_params \<Rightarrow> setup_verbs \<Rightarrow> ib_tables \<Rightarrow> nat
       \<Rightarrow> send_setup \<Rightarrow> ib_env \<Rightarrow> recv_setup \<Rightarrow> ib_env \<Rightarrow> bool" where
  "connected sp v t dev sp' v' t' dev' c e r f \<longleftrightarrow>
     (\<exists>junk junk' c0 c1 m1 e0 e1 r0 f0 m2 e2.
        setup_fits sp t dev junk \<and> setup_fits sp' t' dev' junk' \<and>
        length (group t dev) = length (group t' dev') \<and> sp_qpsPerConn sp = sp_qpsPerConn sp' \<and> nqps_of sp t dev \<le> NCCL_IB_MAX_QPS \<and>
        ss_comm c0 = zero_send_comm \<and> rt_comm r0 = zero_recv_comm \<and>
        connect_setup sp v t dev junk c0 e0 = (Inr (c1, m1), e1) \<and>
        accept_setup sp' v' t' dev' junk' m1 r0 f0 = (Inr (r, m2), f) \<and>
        connect_finish sp v c1 m2 e2 = (Inr c, e))"

lemma connected_facts:
  assumes "connected sp v t dev sp' v' t' dev' c e r f"
  defines "nd \<equiv> length (group t dev)" and "nq \<equiv> nqps_of sp t dev"
  obtains c1 m1 e1 m2 e2 f0 where
    "conn_ok nd nq c" "acc_ok nd nq r"
    "\<And>q. q < nq \<Longrightarrow> points_to (ie_calls e) (qp_handle (cb_qps (sc_base (ss_comm c)) ! q)) (sv_qpn v' (qp_handle (cb_qps (rc_base (rt_comm r)) ! q)))"
    "\<And>q. q < nq \<Longrightarrow> points_to (ie_calls f) (qp_handle (cb_qps (rc_base (rt_comm r)) ! q)) (sv_qpn v (qp_handle (cb_qps (sc_base (ss_comm c)) ! q)))"
    "\<And>q. q < nq \<Longrightarrow> qp_remDevIdx (cb_qps (sc_base (ss_comm c)) ! q) = q mod nd \<and> qp_remDevIdx (cb_qps (rc_base (rt_comm r)) ! q) = q mod nd"
    "rc_fifo_addr (rt_comm r) = sv_addr v SendFifoBuf" "rs_addr (sc_remSizes (ss_comm c)) = sv_addr v' SizesFifoBuf"
    "\<And>i. i < nd \<Longrightarrow> (\<exists>mr. sd_fifoMr (ss_devs c ! i) = Some mr \<and> cb_fifoRkeys (rc_base (rt_comm r)) ! i = sv_rkey v mr)"
    "\<And>i. i < nd \<Longrightarrow> (\<exists>mr. rd_sizesMr (rt_devs r ! i) = Some mr \<and> rs_rkeys (sc_remSizes (ss_comm c)) ! i = sv_rkey v' mr)"
    "\<And>q. q < nq \<Longrightarrow> points_to_mtu (ie_calls e) (qp_handle (cb_qps (sc_base (ss_comm c)) ! q))
        (min (pa_active_mtu (port_of (tb_devs t ! (group t dev ! (q mod nd))))) (pa_active_mtu (port_of (tb_devs t' ! (group t' dev' ! (q mod nd))))))"
    "\<And>q. q < nq \<Longrightarrow> points_to_mtu (ie_calls f) (qp_handle (cb_qps (rc_base (rt_comm r)) ! q))
        (pa_active_mtu (port_of (tb_devs t ! (group t dev ! (q mod nd)))))"
proof -
  obtain junk junk' c0 c1 m1 e0 e1 r0 f0 m2 e2 where fit: "setup_fits sp t dev junk" "setup_fits sp' t' dev' junk'"
    and eq: "length (group t dev) = length (group t' dev')" "sp_qpsPerConn sp = sp_qpsPerConn sp'" and max: "nq \<le> NCCL_IB_MAX_QPS"
    and zero: "ss_comm c0 = zero_send_comm" "rt_comm r0 = zero_recv_comm"
    and s1: "connect_setup sp v t dev junk c0 e0 = (Inr (c1, m1), e1)"
    and s2: "accept_setup sp' v' t' dev' junk' m1 r0 f0 = (Inr (r, m2), f)"
    and s3: "connect_finish sp v c1 m2 e2 = (Inr c, e)"
    using assms(1) unfolding connected_def nq_def by blast
  have nd: "nd = length (group t' dev')" "nq = nqps_of sp' t' dev'" "0 < nd" using eq fit(1) by (auto simp: nd_def nq_def setup_fits_def)
  have S: "conn_ok nd nq c1" "meta_fits nq m1" "cm_ndevs m1 = int nd"
    "\<And>q. q < nq \<Longrightarrow> qi_qpn (cm_qpInfo m1 ! q) = sv_qpn v (qp_handle (cb_qps (sc_base (ss_comm c1)) ! q)) \<and> qi_devIndex (cm_qpInfo m1 ! q) = q mod nd"
    using connect_setup_ok [OF s1 zero(1)] fit(1) max by (simp_all add: setup_fits_def nd_def nq_def)
  have max': "nqps_of sp' t' dev' \<le> NCCL_IB_MAX_QPS" "meta_fits (nqps_of sp' t' dev') m1" using max S(2) nd(2) by simp_all
  note R = accept_setup_ok [OF s2 zero(2) fit(2) max', folded nd(1,2)]
  note F = connect_finish_ok [OF s3 S(1) R(2)]
  note M1 = connect_setup_memory [OF s1 fit(1), folded nd_def]
  note M2 = connect_finish_memory [OF s3 R(2)]
  have rq: "q < nq \<Longrightarrow> qp_remDevIdx (cb_qps (rc_base (rt_comm r)) ! q) = q mod nd \<and>
      qi_qpn (cm_qpInfo m2 ! q) = sv_qpn v' (qp_handle (cb_qps (rc_base (rt_comm r)) ! q)) \<and> qi_devIndex (cm_qpInfo m2 ! q) = q mod nd \<and>
      rtr_of sp' (qp_handle (cb_qps (rc_base (rt_comm r)) ! q)) (rd_base (rt_devs r ! (q mod nd))) (cm_qpInfo m1 ! q) (cm_devs m1) (q = 0) \<in> set (ie_calls f)" for q
    using R(4) [of q] S(4) [of q] by simp
  have modk: "q mod nd < nd" for q using nd(3) by simp
  show ?thesis
  proof (rule that)
    show "conn_ok nd nq c" "acc_ok nd nq r" by (rule F(1), rule R(1))
    fix q assume q: "q < nq"
    show "points_to (ie_calls e) (qp_handle (cb_qps (sc_base (ss_comm c)) ! q)) (sv_qpn v' (qp_handle (cb_qps (rc_base (rt_comm r)) ! q)))"
      using points_toI [OF F(4) [OF q]] F(3) [OF q] rq [OF q] by simp
    show "points_to (ie_calls f) (qp_handle (cb_qps (rc_base (rt_comm r)) ! q)) (sv_qpn v (qp_handle (cb_qps (sc_base (ss_comm c)) ! q)))"
      using points_toI [of "qp_handle (cb_qps (rc_base (rt_comm r)) ! q)"] rq [OF q] S(4) [OF q] F(3) [OF q] by fastforce
    show "qp_remDevIdx (cb_qps (sc_base (ss_comm c)) ! q) = q mod nd \<and> qp_remDevIdx (cb_qps (rc_base (rt_comm r)) ! q) = q mod nd"
      using F(3) [OF q] rq [OF q] by simp
    show "points_to_mtu (ie_calls e) (qp_handle (cb_qps (sc_base (ss_comm c)) ! q))
        (min (pa_active_mtu (port_of (tb_devs t ! (group t dev ! (q mod nd))))) (pa_active_mtu (port_of (tb_devs t' ! (group t' dev' ! (q mod nd))))))"
      using points_to_mtuI [OF F(4) [OF q]] F(3) [OF q] rq [OF q] R(5) [OF modk] M1(2) [OF modk] by simp
    show "points_to_mtu (ie_calls f) (qp_handle (cb_qps (rc_base (rt_comm r)) ! q))
        (pa_active_mtu (port_of (tb_devs t ! (group t dev ! (q mod nd)))))"
      using points_to_mtuI [of "qp_handle (cb_qps (rc_base (rt_comm r)) ! q)"] rq [OF q] S(4) [OF q] M1(2) [OF modk] by fastforce
  next
    show "rc_fifo_addr (rt_comm r) = sv_addr v SendFifoBuf" using R(6) M1(1) by simp
    show "rs_addr (sc_remSizes (ss_comm c)) = sv_addr v' SizesFifoBuf" using M2(2) R(3,7) nd(3) by simp
    fix i assume i: "i < nd"
    show "\<exists>mr. sd_fifoMr (ss_devs c ! i) = Some mr \<and> cb_fifoRkeys (rc_base (rt_comm r)) ! i = sv_rkey v mr"
      using M1(2) [OF i] M2(1) R(8) [of i] S(3) i by fastforce
    show "\<exists>mr. rd_sizesMr (rt_devs r ! i) = Some mr \<and> rs_rkeys (sc_remSizes (ss_comm c)) ! i = sv_rkey v' mr"
      using R(9) [OF i] M2(3) [of i] R(3) i by auto
  qed
qed

text \<open>
  C11: the queue pairs of a connection are joined one to one: when both ends have as many devices and queue pairs, queue
  pair \<open>q\<close> of the sender is moved to the state in which it can be used with the number of queue pair \<open>q\<close> of the
  receiver and the other way round, and each end knows the device the other one has it on.
\<close>
theorem queue_pairs_joined:
  assumes "connected sp v t dev sp' v' t' dev' c e r f" "q < nqps_of sp t dev"
  shows "points_to (ie_calls e) (qp_handle (cb_qps (sc_base (ss_comm c)) ! q)) (sv_qpn v' (qp_handle (cb_qps (rc_base (rt_comm r)) ! q))) \<and>
    points_to (ie_calls f) (qp_handle (cb_qps (rc_base (rt_comm r)) ! q)) (sv_qpn v (qp_handle (cb_qps (sc_base (ss_comm c)) ! q))) \<and>
    qp_remDevIdx (cb_qps (sc_base (ss_comm c)) ! q) = qp_devIndex (cb_qps (rc_base (rt_comm r)) ! q) \<and>
    qp_remDevIdx (cb_qps (rc_base (rt_comm r)) ! q) = qp_devIndex (cb_qps (sc_base (ss_comm c)) ! q)"
  by (rule connected_facts [OF assms(1)]) (use assms(2) in \<open>auto simp: conn_ok_def acc_ok_def\<close>)

text \<open>
  The memory of a connection: the receiver announces its buffers in the array of the sender that the sender polls, the
  sender reports the sizes in the array of the receiver, and each uses, device by device, the key of that memory's
  registration on the other side.
\<close>
theorem fifos_crossed:
  assumes "connected sp v t dev sp' v' t' dev' c e r f" "i < length (group t dev)"
  shows "rc_fifo_addr (rt_comm r) = sv_addr v SendFifoBuf \<and> rs_addr (sc_remSizes (ss_comm c)) = sv_addr v' SizesFifoBuf \<and>
    map_option (sv_rkey v) (sd_fifoMr (ss_devs c ! i)) = Some (cb_fifoRkeys (rc_base (rt_comm r)) ! i) \<and>
    map_option (sv_rkey v') (rd_sizesMr (rt_devs r ! i)) = Some (rs_rkeys (sc_remSizes (ss_comm c)) ! i)"
  by (rule connected_facts [OF assms(1)]) (use assms(2) in fastforce)

text \<open>
  The MTU of a connection: the sender's queue pairs get the smaller of the two ports' MTUs, but the receiver's get
  the sender's, as the receiver takes the minimum only after it has moved them.
\<close>
theorem path_mtu:
  assumes "connected sp v t dev sp' v' t' dev' c e r f" "q < nqps_of sp t dev"
  shows "points_to_mtu (ie_calls e) (qp_handle (cb_qps (sc_base (ss_comm c)) ! q))
      (min (pa_active_mtu (port_of (tb_devs t ! (group t dev ! (q mod length (group t dev))))))
           (pa_active_mtu (port_of (tb_devs t' ! (group t' dev' ! (q mod length (group t dev))))))) \<and>
    points_to_mtu (ie_calls f) (qp_handle (cb_qps (rc_base (rt_comm r)) ! q))
      (pa_active_mtu (port_of (tb_devs t ! (group t dev ! (q mod length (group t dev))))))"
  by (rule connected_facts [OF assms(1)]) (use assms(2) in fastforce)

section \<open>Working cards connect\<close>

lemma connectedI:
  assumes "setup_fits sp t dev junk" "setup_fits sp' t' dev' junk'"
    "length (group t dev) = length (group t' dev')" "sp_qpsPerConn sp = sp_qpsPerConn sp'" "nqps_of sp t dev \<le> NCCL_IB_MAX_QPS"
    "ss_comm c0 = zero_send_comm" "rt_comm r0 = zero_recv_comm"
    "connect_setup sp v t dev junk c0 e0 = (Inr (c1, m1), e1)" "accept_setup sp' v' t' dev' junk' m1 r0 f0 = (Inr (r, m2), f)"
    "connect_finish sp v c1 m2 e2 = (Inr c, e)"
  shows "connected sp v t dev sp' v' t' dev' c e r f"
  using assms unfolding connected_def by blast

lemma connected_answers:
  assumes "working v" "gids_found sp t" "setup_fits sp t dev junk" "working v'" "gids_found sp' t'" "setup_fits sp' t' dev' junk'"
    "length (group t dev) = length (group t' dev')" "sp_qpsPerConn sp = sp_qpsPerConn sp'" "nqps_of sp t dev \<le> NCCL_IB_MAX_QPS"
  shows "\<exists>c e r f. connected sp v t dev sp' v' t' dev' c e r f"
proof -
  have z: "ss_comm zero_send_setup = zero_send_comm" "rt_comm zero_recv_setup = zero_recv_comm"
    by (simp_all add: zero_send_setup_def zero_recv_setup_def)
  obtain c1 m1 e1 where 1: "connect_setup sp v t dev junk zero_send_setup example_env = (Inr (c1, m1), e1)"
    using answersE [OF answers_connect_setup [OF assms(1,2)]] by (metis surj_pair)
  obtain r m2 f where 2: "accept_setup sp' v' t' dev' junk' m1 zero_recv_setup example_env = (Inr (r, m2), f)"
    using answersE [OF answers_accept_setup [OF assms(4,5)]] by (metis surj_pair)
  obtain c e where 3: "connect_finish sp v c1 m2 e1 = (Inr c, e)"
    using answersE [OF answers_connect_finish [OF assms(1)]] by metis
  show ?thesis using connectedI [OF assms(3,6-9) z 1 2 3] by blast
qed

text \<open>
  Cards that answer every call connect: from devices whose GIDs are found, both ends, with as many devices and queue
  pairs, come to a connection, whatever the memory of the metadata held before.
\<close>
theorem working_cards_connect:
  assumes "working v" "gids_found sp t" "setup_fits sp t dev junk" "working v'" "gids_found sp' t'" "setup_fits sp' t' dev' junk'"
    "length (group t dev) = length (group t' dev')" "sp_qpsPerConn sp = sp_qpsPerConn sp'" "nqps_of sp t dev \<le> NCCL_IB_MAX_QPS"
  shows "\<exists>c e r f. connected sp v t dev sp' v' t' dev' c e r f"
  by (rule connected_answers [OF assms])

lemma example_connected:
  "\<exists>c e r f. connected example_sp example_setup_verbs (example_tables 5) 0 example_sp example_setup_verbs (example_tables 3) 0 c e r f"
  by (rule connected_answers [OF example_working example_gids example_fits example_working example_gids example_fits])
    (simp_all add: example_tables_group example_nqps)

theorem working_cards_connect_witness:
  "\<exists>c e r f. connected example_sp example_setup_verbs (example_tables 4) 0 example_sp example_setup_verbs (example_tables 3) 0 c e r f"
  by (rule working_cards_connect [OF example_working example_gids example_fits example_working example_gids example_fits])
    (simp_all add: example_tables_group example_nqps)

theorem queue_pairs_joined_witness:
  "\<exists>c e r f. connected example_sp example_setup_verbs (example_tables 5) 0 example_sp example_setup_verbs (example_tables 3) 0 c e r f \<and>
     points_to (ie_calls e) (qp_handle (cb_qps (sc_base (ss_comm c)) ! 1))
     (sv_qpn example_setup_verbs (qp_handle (cb_qps (rc_base (rt_comm r)) ! 1))) \<and>
     points_to (ie_calls f) (qp_handle (cb_qps (rc_base (rt_comm r)) ! 1))
     (sv_qpn example_setup_verbs (qp_handle (cb_qps (sc_base (ss_comm c)) ! 1)))"
proof -
  obtain c e r f where cn:
    "connected example_sp example_setup_verbs (example_tables 5) 0 example_sp example_setup_verbs (example_tables 3) 0 c e r f"
    using example_connected by blast
  have "1 < nqps_of example_sp (example_tables 5) 0" by (simp add: example_tables_group example_nqps)
  from queue_pairs_joined [OF cn this] show ?thesis using cn by blast
qed

theorem fifos_crossed_witness:
  "\<exists>c e r f. connected example_sp example_setup_verbs (example_tables 5) 0 example_sp example_setup_verbs (example_tables 3) 0 c e r f \<and>
     rc_fifo_addr (rt_comm r) = 65536 \<and> rs_addr (sc_remSizes (ss_comm c)) = 65536"
proof -
  obtain c e r f where cn:
    "connected example_sp example_setup_verbs (example_tables 5) 0 example_sp example_setup_verbs (example_tables 3) 0 c e r f"
    using example_connected by blast
  have "0 < length (group (example_tables 5) 0)" by (simp add: example_tables_group)
  from fifos_crossed [OF cn this] have "rc_fifo_addr (rt_comm r) = 65536 \<and> rs_addr (sc_remSizes (ss_comm c)) = 65536"
    by (simp add: example_setup_verbs_def)
  then show ?thesis using cn by blast
qed

theorem path_mtu_witness:
  "\<exists>c e r f. connected example_sp example_setup_verbs (example_tables 5) 0 example_sp example_setup_verbs (example_tables 3) 0 c e r f \<and>
     points_to_mtu (ie_calls e) (qp_handle (cb_qps (sc_base (ss_comm c)) ! 0)) 3 \<and>
     points_to_mtu (ie_calls f) (qp_handle (cb_qps (rc_base (rt_comm r)) ! 0)) 5"
proof -
  obtain c e r f where cn:
    "connected example_sp example_setup_verbs (example_tables 5) 0 example_sp example_setup_verbs (example_tables 3) 0 c e r f"
    using example_connected by blast
  have "0 < nqps_of example_sp (example_tables 5) 0" by (simp add: example_tables_group example_nqps)
  from path_mtu [OF cn this]
  have "points_to_mtu (ie_calls e) (qp_handle (cb_qps (sc_base (ss_comm c)) ! 0)) 3"
    "points_to_mtu (ie_calls f) (qp_handle (cb_qps (rc_base (rt_comm r)) ! 0)) 5"
    by (simp_all add: example_tables_group) (simp_all add: example_tables_def port_of_def)
  then show ?thesis using cn by blast
qed

end
