(* ===== verification/IbClose.thy ===== *)
theory IbClose
  imports IbAccept
begin

text \<open>
  The end of a connection: \<^verbatim>\<open>ncclIbCloseSend\<close>, \<^verbatim>\<open>ncclIbCloseRecv\<close> and \<^verbatim>\<open>ncclIbCloseListen\<close> of
  \<^verbatim>\<open>src/unet/unet_ib.cc\<close>, and that over the life of a communicator every object taken from the card is given back. A
  communicator that is not there is a null pointer; so is a queue pair of number zero.
\<close>

section \<open>Closing\<close>

definition destroy_qp :: "setup_verbs \<Rightarrow> nat \<Rightarrow> unit act" where
  "destroy_qp v h =
     (if h = 0 then ret ()
      else andThen (verb v (DestroyQp h)) (\<lambda>_ e. (Inr (), count_down UNET_IB_QP_COUNT e)))"

definition dereg_mr :: "setup_verbs \<Rightarrow> nat option \<Rightarrow> unit act" where
  "dereg_mr v mr = (case mr of None \<Rightarrow> ret () | Some m \<Rightarrow> andThen (verb v (DeregSetup m)) (\<lambda>_. ret ()))"

definition close_qps :: "setup_verbs \<Rightarrow> ncclIbNetCommBase \<Rightarrow> (unit list) act" where
  "close_qps v b = forEach (\<lambda>qp. destroy_qp v (qp_handle qp)) (take (cb_nqps b) (cb_qps b))"

definition close_send_dev :: "setup_verbs \<Rightarrow> ncclIbSendCommDev \<times> nat option \<Rightarrow> unit act" where
  "close_send_dev v = (\<lambda>(d, mr).
     andThen (dereg_mr v (sd_fifoMr d)) (\<lambda>_. andThen (dereg_mr v mr) (\<lambda>_. ncclIbDestroyBase v (sd_base d))))"

text \<open>\<^verbatim>\<open>remSizesFifo.mrs\<close>: null where the connection did not come so far.\<close>

definition sizes_mrs :: "send_setup \<Rightarrow> nat option list" where
  "sizes_mrs c = map Some (ss_mrs c) @ replicate (length (ss_devs c) - length (ss_mrs c)) None"

definition close_send :: "setup_verbs \<Rightarrow> send_setup \<Rightarrow> (unit list) act" where
  "close_send v c =
     (let b = sc_base (ss_comm c) in
      andThen (close_qps v b) (\<lambda>_. forEach (close_send_dev v) (take (cb_ndevs b) (zip (ss_devs c) (sizes_mrs c)))))"

definition close_result :: "ncclResult + 'a \<Rightarrow> ncclResult" where
  "close_result r = (case r of Inl res \<Rightarrow> res | Inr _ \<Rightarrow> ncclSuccess)"

definition ncclIbCloseSend :: "setup_verbs \<Rightarrow> send_setup option \<Rightarrow> ib_env \<Rightarrow> net \<Rightarrow> ncclResult \<times> ib_env \<times> net" where
  "ncclIbCloseSend v sendComm e n =
     (case sendComm of None \<Rightarrow> (ncclSuccess, e, n)
      | Some c \<Rightarrow>
          let (res, _, n) = ncclSocketClose (Some (ss_sock c)) n in
          if ncclCheckFails res then (res, e, n)
          else case close_send v c e of (r, e) \<Rightarrow> (close_result r, e, n))"

definition close_recv_dev :: "setup_verbs \<Rightarrow> bool \<Rightarrow> ncclIbRecvCommDev \<Rightarrow> unit act" where
  "close_recv_dev v flush d =
     andThen (if flush
              then andThen (destroy_qp v (case rd_flushQp d of None \<Rightarrow> 0 | Some h \<Rightarrow> h)) (\<lambda>_. dereg_mr v (rd_hostMr d))
              else ret ()) (\<lambda>_.
     andThen (dereg_mr v (rd_fifoMr d)) (\<lambda>_.
     andThen (dereg_mr v (rd_sizesMr d)) (\<lambda>_. ncclIbDestroyBase v (rd_base d))))"

definition close_recv :: "setup_verbs \<Rightarrow> recv_setup \<Rightarrow> (unit list) act" where
  "close_recv v c =
     (let b = rc_base (rt_comm c) in
      andThen (close_qps v b) (\<lambda>_. forEach (close_recv_dev v (rc_flushEnabled (rt_comm c))) (take (cb_ndevs b) (rt_devs c))))"

definition ncclIbCloseRecv :: "setup_verbs \<Rightarrow> recv_setup option \<Rightarrow> ib_env \<Rightarrow> net \<Rightarrow> ncclResult \<times> ib_env \<times> net" where
  "ncclIbCloseRecv v recvComm e n =
     (case recvComm of None \<Rightarrow> (ncclSuccess, e, n)
      | Some c \<Rightarrow>
          let (res, _, n) = ncclSocketClose (Some (rt_sock c)) n in
          if ncclCheckFails res then (res, e, n)
          else case close_recv v c e of (r, e) \<Rightarrow> (close_result r, e, n))"

definition ncclIbCloseListen :: "ncclIbListenComm option \<Rightarrow> net \<Rightarrow> ncclResult \<times> net" where
  "ncclIbCloseListen listenComm n =
     (case listenComm of None \<Rightarrow> (ncclSuccess, n)
      | Some lc \<Rightarrow> let (res, _, n) = ncclSocketClose (Some (lc_sock lc)) n in (if ncclCheckFails res then res else ncclSuccess, n))"

section \<open>What is taken and given back\<close>

text \<open>The library gives no null queue pair when it succeeds.\<close>

definition gives_qps :: "setup_verbs \<Rightarrow> bool" where
  "gives_qps v \<longleftrightarrow> (\<forall>tr pd cq s r i. \<not> ncclCheckFails (fst (sv_call v tr (CreateQp pd cq s r i))) \<longrightarrow> snd (sv_call v tr (CreateQp pd cq s r i)) \<noteq> 0)"

lemma verb_success: "verb v c e = (Inr h, e') \<Longrightarrow> \<not> ncclCheckFails (fst (sv_call v (ie_calls e) c)) \<and> h = snd (sv_call v (ie_calls e) c)"
  by (cases "sv_call v (ie_calls e) c") (auto simp: verb_def Let_def split: if_splits)

lemma CreateQp_not_null:
  assumes "gives_qps v" "ncclIbCreateQp sp v port b acc e = (Inr h, e')"
  shows "h \<noteq> 0"
proof -
  obtain e1 where "verb v (CreateQp (db_pd b) (db_cq b) (2 * MAX_REQUESTS) MAX_REQUESTS (if sp_useInline sp then sizeof_SendFifo else 0)) e = (Inr h, e1)"
    using assms(2) unfolding ncclIbCreateQp_def andThen_Inr by (auto simp del: mult_numeral_left)
  from verb_success [OF this] assms(1) show ?thesis unfolding gives_qps_def by metis
qed

lemma takes_if: "takes r m k \<Longrightarrow> takes r m' k' \<Longrightarrow> takes r (if b then m else m') (if b then k else k')"
  by simp

lemma takes_query_ece: "takes r (query_ece v h old) 0"
  using takes_verb [of r v "QueryEce h"] by (auto simp: takes_def query_ece_def cost_one split: prod.splits sum.splits)

lemma takes_connect_qp: "takes r (connect_qp sp v t base d junk) (one_of QPs r)"
  unfolding connect_qp_def Let_def
  by (rule takes_andThen [OF takes_CreateQp, where l = 0])
    (auto intro!: takes_andThen [OF takes_query_ece, where l = 0] takes_ret)

lemma takes_connect_qps: "takes r (connect_qps sp v t bases d js) (int (length js) * one_of QPs r)"
proof (induction sp v t bases d js rule: connect_qps.induct)
  case (2 sp v t bases d j js)
  show ?case unfolding connect_qps.simps
    by (rule takes_andThen [OF takes_connect_qp takes_andThen [OF "2.IH" takes_ret]]) (simp_all add: algebra_simps)
qed (simp add: takes_ret)

lemma takes_connect_dev: "takes r (connect_dev sp v t x) (one_of MRs r)"
proof (cases x)
  case (Pair base junk)
  show ?thesis unfolding connect_dev_def Pair prod.case Let_def
    by (rule takes_andThen [OF takes_verb, where l = 0])
      (auto simp: cost_one intro!: takes_andThen [OF _ takes_ret, where k = 0] takes_device_gid takes_ret)
qed

lemma takes_connect_setup:
  assumes "length (cm_qpInfo junk) = NCCL_IB_MAX_QPS" "nqps_of sp t dev \<le> NCCL_IB_MAX_QPS"
    "length (cm_devs junk) = 2" "length (group t dev) \<le> 2" "connect_setup sp v t dev junk c e = (Inr x, e')"
  shows "taken r e' = taken r e + (\<Sum>n\<leftarrow>group t dev. one_of (PdRef n) r + one_of CQs r + one_of MRs r) + int (nqps_of sp t dev) * one_of QPs r"
proof -
  obtain bases e1 qs e2 ds where b: "forEach (\<lambda>n. ncclIbInitCommDevBase sp v n zero_base) (group t dev) e = (Inr bases, e1)"
    and q: "connect_qps sp v t bases 0 (take (nqps_of sp t dev) (cm_qpInfo junk)) e1 = (Inr qs, e2)"
    and d: "forEach (connect_dev sp v t) (zip bases (cm_devs junk)) e2 = (Inr ds, e')"
    using assms(5) by (auto simp: connect_setup_def Let_def andThen_Inr)
  have "taken r e1 = taken r e + (\<Sum>n\<leftarrow>group t dev. one_of (PdRef n) r + one_of CQs r)"
    by (rule takesD [OF takes_forEach [OF takes_InitCommDevBase] b])
  moreover have "taken r e2 = taken r e1 + int (nqps_of sp t dev) * one_of QPs r"
    using takesD [OF takes_connect_qps q] assms(1,2) by simp
  moreover have "taken r e' = taken r e2 + int (length (group t dev)) * one_of MRs r"
    using takesD [OF takes_forEach_const [OF takes_connect_dev] d] forEach_length [OF b] assms(3,4) by (simp add: min_def)
  ultimately show ?thesis by (simp add: sum_list_addf sum_list_triv)
qed

lemma takes_finish_qp: "takes r (finish_qp sp v c m x) 0"
proof (cases x)
  case (Pair qp rem)
  have "takes r (if qi_ece_supported rem \<noteq> 0 then andThen (verb v (SetEce (qp_handle qp) (qi_ece rem))) (\<lambda>_. ret ()) else ret ()) 0"
    by (auto intro!: takes_andThen [OF takes_verb takes_ret] takes_ret simp: cost_one)
  then show ?thesis unfolding finish_qp_def Pair prod.case
    by (intro takes_andThen [where k = 0 and l = 0] takes_RtrQp takes_RtsQp takes_ret) simp_all
qed

lemma takes_connect_finish: "takes r (connect_finish sp v c m) (int (length (take (cb_ndevs (sc_base (ss_comm c))) (ss_devs c))) * one_of MRs r)"
proof -
  have 1: "takes r (verb v (RegSetup (db_pd (sd_base d)) RemSizesBuf)) (one_of MRs r)" for d
    using takes_verb [of r v "RegSetup (db_pd (sd_base d)) RemSizesBuf"] by (simp add: cost_one)
  show ?thesis unfolding connect_finish_def Let_def
    by (rule takes_andThen [OF takes_forEach_const [OF 1] takes_andThen [OF takes_forEach_const [OF takes_finish_qp] takes_ret]]) simp_all
qed

lemma takes_destroy_qp: "h \<noteq> 0 \<Longrightarrow> takes r (destroy_qp v h) (- one_of QPs r)"
  unfolding destroy_qp_def
  by (auto simp: takes_def cost_one intro!: takes_andThen [OF takes_verb, where l = 0])
    (auto simp: andThen_Inr cost_one dest!: verb_Inr)

lemma takes_dereg_mr: "takes r (dereg_mr v mr) (if mr = None then 0 else - one_of MRs r)"
  unfolding dereg_mr_def by (cases mr) (auto intro!: takes_ret takes_andThen [OF takes_verb takes_ret] simp: cost_one)

section \<open>The life of a sender\<close>

text \<open>What a complete sender holds: the devices, one region for its array and one for the sizes on each, and its queue pairs.\<close>

definition send_holds :: "nat list \<Rightarrow> send_setup \<Rightarrow> bool" where
  "send_holds ns c \<longleftrightarrow> map (db_ibDevN \<circ> sd_base) (ss_devs c) = ns \<and> (\<forall>d \<in> set (ss_devs c). sd_fifoMr d \<noteq> None) \<and>
     (\<forall>qp \<in> set (take (cb_nqps (sc_base (ss_comm c))) (cb_qps (sc_base (ss_comm c)))). qp_handle qp \<noteq> 0)"

lemma connect_qps_handles:
  "gives_qps v \<Longrightarrow> connect_qps sp v t bases d js e = (Inr xs, e') \<Longrightarrow> x \<in> set xs \<Longrightarrow> qp_handle (fst x) \<noteq> 0"
proof (induction sp v t bases d js arbitrary: xs e rule: connect_qps.induct)
  case (2 sp v t bases d j js)
  then obtain y e1 ys where y: "connect_qp sp v t (bases ! d) d j e = (Inr y, e1)"
      "connect_qps sp v t bases ((d + 1) mod length bases) js e1 = (Inr ys, e')" "xs = y # ys"
    by (auto simp: andThen_Inr)
  have "qp_handle (fst y) \<noteq> 0"
    using y(1) CreateQp_not_null [OF "2.prems"(1)] by (auto simp: connect_qp_def andThen_Inr Let_def split: if_splits prod.splits)
  then show ?case using "2.IH" [OF "2.prems"(1) y(2)] "2.prems"(3) y(3) by auto
qed simp

lemma connect_setup_holds:
  assumes run: "connect_setup sp v t dev junk c e = (Inr (c', m), e')" and fit: "setup_fits sp t dev junk"
    "nqps_of sp t dev \<le> NCCL_IB_MAX_QPS" and v: "gives_qps v"
  shows "send_holds (group t dev) c'"
proof -
  let ?k = "length (group t dev)"
  obtain bases e1 qs e2 ds rest where b: "forEach (\<lambda>n. ncclIbInitCommDevBase sp v n zero_base) (group t dev) e = (Inr bases, e1)"
    and q: "connect_qps sp v t bases 0 (take (nqps_of sp t dev) (cm_qpInfo junk)) e1 = (Inr qs, e2)"
    and d: "forEach (connect_dev sp v t) (zip bases (cm_devs junk)) e2 = (Inr ds, e')"
    and c': "ss_devs c' = map fst ds" "cb_qps (sc_base (ss_comm c')) = map fst qs @ rest" "cb_nqps (sc_base (ss_comm c')) = nqps_of sp t dev"
    using run by (auto simp: connect_setup_def Let_def andThen_Inr)
  have fit': "?k \<le> 2" "length (cm_devs junk) = 2" "length (cm_qpInfo junk) = NCCL_IB_MAX_QPS" using fit by (auto simp: setup_fits_def)
  have lb: "length bases = ?k" by (rule forEach_length [OF b])
  have ld: "length ds = ?k" using forEach_length [OF d] lb fit' by simp
  have lq: "length qs = nqps_of sp t dev" using connect_qps_length [OF q] fit' fit(2) by simp
  have dev: "db_ibDevN (sd_base (fst (ds ! i))) = group t dev ! i \<and> sd_fifoMr (fst (ds ! i)) \<noteq> None" if i: "i < ?k" for i
  proof -
    have base: "db_ibDevN (bases ! i) = group t dev ! i" using forEach_nth [OF b i] InitCommDevBase_Inr by blast
    have "i < length (zip bases (cm_devs junk))" using i lb fit' by simp
    from forEach_nth [OF d this] obtain e4 e5 where "connect_dev sp v t (bases ! i, cm_devs junk ! i) e4 = (Inr (ds ! i), e5)"
      using i lb fit' by auto
    then show ?thesis using base
      by (auto simp: connect_dev_def Let_def andThen_Inr split: if_splits dest!: device_gid_Inr)
  qed
  have "map (db_ibDevN \<circ> sd_base) (ss_devs c') = group t dev" using dev ld by (auto simp: c' list_eq_iff_nth_eq)
  moreover have "\<forall>d \<in> set (ss_devs c'). sd_fifoMr d \<noteq> None"
    using dev ld by (metis c'(1) in_set_conv_nth length_map nth_map)
  ultimately show ?thesis using connect_qps_handles [OF v q] lq by (auto simp: send_holds_def c')
qed

lemma connect_finish_holds:
  assumes "connect_finish sp v c m e = (Inr c', e')" "send_holds ns c" "conn_ok nd nq c" "meta_fits nq m"
  shows "send_holds ns c' \<and> length (ss_mrs c') = nd"
proof -
  obtain mrs e1 where m: "forEach (\<lambda>d. verb v (RegSetup (db_pd (sd_base d)) RemSizesBuf)) (take nd (ss_devs c)) e = (Inr mrs, e1)"
    and c': "ss_mrs c' = mrs" "ss_devs c' = ss_devs c"
    using assms(1,3) by (auto simp: connect_finish_def Let_def andThen_Inr conn_ok_def)
  note F = connect_finish_ok [OF assms(1,3,4)]
  have n: "cb_nqps (sc_base (ss_comm c')) = nq" "length (cb_qps (sc_base (ss_comm c'))) = 128" "nq \<le> 128"
      "cb_nqps (sc_base (ss_comm c)) = nq" "length (cb_qps (sc_base (ss_comm c))) = 128" "length (ss_devs c) = nd"
    using F(1) assms(3) by (simp_all add: conn_ok_def)
  have "qp_handle qp \<noteq> 0" if q: "qp \<in> set (take nq (cb_qps (sc_base (ss_comm c'))))" for qp
  proof -
    obtain i where i: "i < nq" "qp = cb_qps (sc_base (ss_comm c')) ! i" using q n by (auto simp: in_set_conv_nth)
    have "cb_qps (sc_base (ss_comm c)) ! i \<in> set (take nq (cb_qps (sc_base (ss_comm c))))" using i n by (auto simp: in_set_conv_nth)
    then show ?thesis using F(3) [OF i(1)] i assms(2) n by (simp add: send_holds_def)
  qed
  then show ?thesis using assms(2) forEach_length [OF m] n by (simp add: send_holds_def c')
qed

lemma takes_close_qps:
  assumes "\<forall>qp \<in> set (take (cb_nqps b) (cb_qps b)). qp_handle qp \<noteq> 0"
  shows "takes r (close_qps v b) (- int (length (take (cb_nqps b) (cb_qps b))) * one_of QPs r)"
proof -
  have "takes r (close_qps v b) (\<Sum>qp\<leftarrow>take (cb_nqps b) (cb_qps b). - one_of QPs r)"
    unfolding close_qps_def by (rule takes_forEach) (use assms in \<open>auto intro: takes_destroy_qp\<close>)
  then show ?thesis by (simp add: sum_list_triv)
qed

lemma takes_close_send_dev:
  "sd_fifoMr d \<noteq> None \<Longrightarrow> mr \<noteq> None \<Longrightarrow> takes r (close_send_dev v (d, mr)) (- (one_of (PdRef (db_ibDevN (sd_base d))) r + one_of CQs r + 2 * one_of MRs r))"
  unfolding close_send_dev_def prod.case
  by (rule takes_andThen [OF takes_dereg_mr takes_andThen [OF takes_dereg_mr takes_DestroyBase refl]]) auto

text \<open>The transfers of a connection change neither its devices and queue pairs nor its regions.\<close>

definition same_send_objects :: "send_setup \<Rightarrow> send_setup \<Rightarrow> bool" where
  "same_send_objects c c' \<longleftrightarrow> ss_devs c' = ss_devs c \<and> ss_mrs c' = ss_mrs c \<and>
     (case (sc_base (ss_comm c), sc_base (ss_comm c')) of
        (b, b') \<Rightarrow> cb_ndevs b' = cb_ndevs b \<and> cb_nqps b' = cb_nqps b \<and> cb_qps b' = cb_qps b)"

definition same_recv_objects :: "recv_setup \<Rightarrow> recv_setup \<Rightarrow> bool" where
  "same_recv_objects c c' \<longleftrightarrow> rt_devs c' = rt_devs c \<and> rc_flushEnabled (rt_comm c') = rc_flushEnabled (rt_comm c) \<and>
     (case (rc_base (rt_comm c), rc_base (rt_comm c')) of
        (b, b') \<Rightarrow> cb_ndevs b' = cb_ndevs b \<and> cb_nqps b' = cb_nqps b \<and> cb_qps b' = cb_qps b)"

lemma takes_close_send:
  assumes ok: "conn_ok nd nq c0" "same_send_objects c0 c" and h: "send_holds ns c0" "length (ss_mrs c0) = nd"
    and run: "close_send v c e = (Inr u, e')"
  shows "taken r e' = taken r e - int nq * one_of QPs r - (\<Sum>n\<leftarrow>ns. one_of (PdRef n) r + one_of CQs r + 2 * one_of MRs r)"
proof -
  let ?b = "sc_base (ss_comm c)"
  let ?xs = "zip (ss_devs c) (map Some (ss_mrs c))"
  have n: "cb_ndevs ?b = nd" "cb_nqps ?b = nq" "length (ss_devs c) = nd" "length (take nq (cb_qps ?b)) = nq"
    using ok by (simp_all add: conn_ok_def same_send_objects_def)
  have h: "send_holds ns c" "length (ss_mrs c) = nd" using h ok(2) by (simp_all add: send_holds_def same_send_objects_def)
  obtain us e1 where q: "close_qps v ?b e = (Inr us, e1)" and d: "forEach (close_send_dev v) ?xs e1 = (Inr u, e')"
    using run n h(2) by (auto simp: close_send_def Let_def andThen_Inr sizes_mrs_def)
  have 1: "taken r e1 = taken r e - int nq * one_of QPs r"
    using takesD [OF takes_close_qps q] h(1) n by (simp add: send_holds_def)
  have "takes r (forEach (close_send_dev v) ?xs) (\<Sum>x\<leftarrow>?xs. - (one_of (PdRef (db_ibDevN (sd_base (fst x)))) r + one_of CQs r + 2 * one_of MRs r))"
  proof (rule takes_forEach)
    fix x assume "x \<in> set ?xs"
    then have "fst x \<in> set (ss_devs c)" "snd x \<in> set (map Some (ss_mrs c))"
      by (metis prod.collapse set_zip_leftD, metis prod.collapse set_zip_rightD)
    then have "sd_fifoMr (fst x) \<noteq> None" "snd x \<noteq> None" using h(1) by (auto simp only: send_holds_def set_map image_iff option.distinct)
    then show "takes r (close_send_dev v x) (- (one_of (PdRef (db_ibDevN (sd_base (fst x)))) r + one_of CQs r + 2 * one_of MRs r))"
      using takes_close_send_dev [of "fst x" "snd x"] by simp
  qed
  from takesD [OF this d] have "taken r e' = taken r e1 - (\<Sum>n\<leftarrow>map (db_ibDevN \<circ> sd_base) (map fst ?xs). one_of (PdRef n) r + one_of CQs r + 2 * one_of MRs r)"
    by (simp add: comp_def uminus_sum_list_map)
  moreover have "map fst ?xs = ss_devs c" using n(3) h(2) by simp
  moreover have "map (db_ibDevN \<circ> sd_base) (ss_devs c) = ns" using h(1) by (simp add: send_holds_def)
  ultimately show ?thesis using 1 by simp
qed

text \<open>A code that ends an action is one of failure.\<close>

definition fails_with :: "'a act \<Rightarrow> bool" where
  "fails_with m \<longleftrightarrow> (\<forall>e res e'. m e = (Inl res, e') \<longrightarrow> ncclCheckFails res)"

lemma fails_ret [intro, simp]: "fails_with (ret a)"
  by (simp add: fails_with_def ret_def)

lemma fails_verb [intro, simp]: "fails_with (verb v c)"
  by (auto simp: fails_with_def verb_def Let_def split: prod.splits if_splits)

lemma fails_andThen [intro]: "fails_with m \<Longrightarrow> (\<And>a. fails_with (f a)) \<Longrightarrow> fails_with (andThen m f)"
  by (auto simp: fails_with_def andThen_def split: prod.splits sum.splits)

lemma fails_forEach [intro]: "(\<And>x. fails_with (f x)) \<Longrightarrow> fails_with (forEach f xs)"
  by (induction xs) auto

lemma fails_drop_pd: "fails_with (\<lambda>e. drop_pd v n (f e))"
proof -
  have "fails_with (drop_pd v n)"
    using fails_verb [of v] unfolding fails_with_def drop_pd_def by (auto simp: Let_def split: prod.splits sum.splits if_splits)
  then show ?thesis by (auto simp: fails_with_def)
qed

lemma fails_close_steps [intro, simp]:
  "fails_with (destroy_qp v h)" "fails_with (dereg_mr v mr)" "fails_with (ncclIbDestroyBase v b)"
proof -
  have "fails_with (\<lambda>e. (Inr x, f e))" for x f by (simp add: fails_with_def)
  then show "fails_with (destroy_qp v h)" unfolding destroy_qp_def by (auto intro!: fails_andThen)
  show "fails_with (dereg_mr v mr)" by (cases mr) (auto simp: dereg_mr_def)
  show "fails_with (ncclIbDestroyBase v b)" unfolding ncclIbDestroyBase_def by (intro fails_andThen fails_verb fails_drop_pd)
qed

lemma fails_close_send: "fails_with (close_send v c)"
  unfolding close_send_def close_qps_def close_send_dev_def
  by (auto simp: Let_def split: prod.splits intro!: fails_andThen fails_forEach)

lemma fails_close_recv: "fails_with (close_recv v c)"
  unfolding close_recv_def close_qps_def close_recv_dev_def
  by (auto simp: Let_def intro!: fails_andThen fails_forEach)

lemma CloseSend_success:
  assumes "ncclIbCloseSend v (Some c) e n = (ncclSuccess, e', n')"
  shows "\<exists>u. close_send v c e = (Inr u, e')"
proof -
  obtain x e1 where x: "close_send v c e = (x, e1)" by (cases "close_send v c e")
  show ?thesis
  proof (cases x)
    case (Inl res)
    then have "ncclCheckFails res" using fails_close_send [of v c] x unfolding fails_with_def by blast
    then show ?thesis using assms x Inl by (auto simp: ncclIbCloseSend_def close_result_def ncclSocketClose_def split: if_splits)
  next
    case (Inr u)
    then show ?thesis using assms x by (auto simp: ncclIbCloseSend_def close_result_def ncclSocketClose_def split: if_splits)
  qed
qed

text \<open>
  C14: a sender gives back what it takes. Over its whole life, the setup of a connection, its second part and its close,
  whatever is done in between, the queue pairs, completion queues and memory regions created and those destroyed
  are as many, and each device is left by as many users as it got.
\<close>
theorem send_life_balanced:
  assumes "setup_fits sp t dev junk" "nqps_of sp t dev \<le> NCCL_IB_MAX_QPS" "gives_qps v" "ss_comm c0 = zero_send_comm"
    "connect_setup sp v t dev junk c0 e0 = (Inr (c1, m1), e1)"
    "meta_fits (nqps_of sp t dev) m2" "connect_finish sp v c1 m2 e2 = (Inr c2, e3)"
    "same_send_objects c2 c3" "ncclIbCloseSend v (Some c3) e4 n = (ncclSuccess, e5, n')"
  shows "(taken r e1 - taken r e0) + (taken r e3 - taken r e2) + (taken r e5 - taken r e4) = 0"
proof -
  let ?nd = "length (group t dev)" and ?nq = "nqps_of sp t dev"
  have fit: "length (cm_qpInfo junk) = NCCL_IB_MAX_QPS" "length (cm_devs junk) = 2" "?nd \<in> {1, 2}" "?nd \<le> 2" "0 < sp_qpsPerConn sp"
    using assms(1) by (auto simp: setup_fits_def)
  have ok1: "conn_ok ?nd ?nq c1" using connect_setup_ok [OF assms(5,4) fit(3,5) assms(2) fit(1,2)] by simp
  have n1: "length (take (cb_ndevs (sc_base (ss_comm c1))) (ss_devs c1)) = ?nd" using ok1 by (simp add: conn_ok_def)
  note H2 = connect_finish_holds [OF assms(7) connect_setup_holds [OF assms(5,1,2,3)] ok1 assms(6)]
  note ok2 = connect_finish_ok(1) [OF assms(7) ok1 assms(6)]
  obtain u where cl: "close_send v c3 e4 = (Inr u, e5)" using CloseSend_success [OF assms(9)] by blast
  have "taken r e3 = taken r e2 + int ?nd * one_of MRs r" using takesD [OF takes_connect_finish assms(7)] n1 by simp
  then show ?thesis
    using takes_connect_setup [OF fit(1) assms(2) fit(2,4) assms(5)] takes_close_send [OF ok2 assms(8) conjunct1 [OF H2] conjunct2 [OF H2] cl]
    by (simp add: sum_list_addf sum_list_triv)
qed

section \<open>The life of a receiver\<close>

lemma takes_accept_ece: "takes r (accept_ece v h rem junk) 0"
proof -
  have "takes r (if sup = 0 then ret (junk\<lparr> qi_ece_supported := 0 \<rparr>)
     else andThen (query_ece v h (qi_ece junk)) (\<lambda>(sup, ece). ret (junk\<lparr> qi_ece := ece, qi_ece_supported := sup \<rparr>))) 0" for sup
    by (auto intro!: takes_andThen [OF takes_query_ece, where l = 0] takes_ret)
  then show ?thesis unfolding accept_ece_def
    by (auto intro!: takes_andThen [OF takes_verb, where l = 0] takes_ret simp: cost_one)
qed

lemma takes_accept_qp: "takes r (accept_qp sp v t base d isf rems x) (one_of QPs r)"
proof (cases x)
  case (Pair rem junk)
  show ?thesis unfolding accept_qp_def Pair prod.case
    by (rule takes_andThen [OF takes_CreateQp takes_andThen [OF takes_accept_ece takes_andThen [OF takes_RtrQp
          takes_andThen [OF takes_RtsQp takes_ret refl] refl] refl]]) simp
qed

lemma takes_accept_qps: "takes r (accept_qps sp v t bases d isf rems xs) (int (length xs) * one_of QPs r)"
proof (induction sp v t bases d isf rems xs rule: accept_qps.induct)
  case (2 sp v t bases d isf rems x xs)
  show ?case unfolding accept_qps.simps
    by (rule takes_andThen [OF takes_accept_qp takes_andThen [OF "2.IH" takes_ret refl]]) (simp add: algebra_simps)
qed (simp add: takes_ret)

lemma taken_calls: "taken r (e\<lparr> ie_calls := ie_calls e @ cs \<rparr>) = taken r e + sum_list (map (cost r) cs)"
proof -
  have "cost (PdRef n) c = 0" for n c by (cases c) simp_all
  then have "cost (PdRef n) = (\<lambda>_. 0)" for n by (simp add: fun_eq_iff)
  then show ?thesis by (cases r) (simp_all add: taken_def sum_list_0)
qed

lemma taken_probe_devs: "taken r (snd (probe_devs v ns e)) = taken r e"
proof (induction v ns e rule: probe_devs.induct)
  case (2 v n ns e)
  then show ?case
    by (auto simp: verb_def Let_def cost_one taken_calls split: prod.splits sum.splits if_splits)
qed simp

lemma takes_flushEnabled: "takes r (accept_flushEnabled sp v t dev) 0"
proof -
  have dma: "taken r e' = taken r e" if "ncclIbDmaBufSupport v t dev e = (x, e')" for e x e'
    using taken_probe_devs [of r v "group t dev" e] that
    by (cases "probe_devs v (group t dev) e") (auto simp: ncclIbDmaBufSupport_def Let_def split: if_splits)
  have gdr: "taken r e' = taken r e" if "ncclIbGdrSupport v e = (x, e')" for e x e'
    using that by (auto simp: ncclIbGdrSupport_def Let_def)
  show ?thesis using dma gdr by (auto simp: takes_def accept_flushEnabled_def split: prod.splits if_splits)
qed

lemma takes_accept_base: "takes r (accept_base sp v t n) (one_of (PdRef n) r + one_of CQs r)"
  unfolding accept_base_def by (rule takes_andThen [OF takes_InitCommDevBase takes_device_gid]) simp

lemma takes_accept_dev:
  "takes r (accept_dev sp v t flush x) (2 * one_of MRs r + (if flush then one_of MRs r + one_of QPs r else 0))"
proof (cases x)
  case (Pair base rem)
  have f: "takes r (accept_flush sp v d base) (one_of MRs r + one_of QPs r)" for d
    unfolding accept_flush_def
    by (rule takes_andThen [OF takes_verb takes_andThen [OF takes_CreateQp takes_andThen [OF takes_RtrQp
          takes_andThen [OF takes_RtsQp takes_ret refl] refl] refl]]) (simp add: cost_one)
  have g: "takes r (if flush then andThen (accept_flush sp v d base) (\<lambda>(hm, h). ret (Some hm, Some h)) else ret (None, None))
      (if flush then one_of MRs r + one_of QPs r else 0)" for d
    by (auto intro!: takes_andThen [OF f, where l = 0] takes_ret)
  show ?thesis unfolding accept_dev_def Pair prod.case Let_def
    by (rule takes_andThen [OF takes_verb takes_andThen [OF g, where l = "one_of MRs r"]])
      (auto intro!: takes_andThen [OF takes_verb takes_ret] simp: cost_one)
qed

definition recv_holds :: "nat list \<Rightarrow> bool \<Rightarrow> recv_setup \<Rightarrow> bool" where
  "recv_holds ns flush c \<longleftrightarrow> map (db_ibDevN \<circ> rd_base) (rt_devs c) = ns \<and> rc_flushEnabled (rt_comm c) = flush \<and>
     (\<forall>d \<in> set (rt_devs c). rd_fifoMr d \<noteq> None \<and> rd_sizesMr d \<noteq> None \<and>
        (flush \<longrightarrow> rd_hostMr d \<noteq> None \<and> rd_flushQp d \<noteq> None \<and> rd_flushQp d \<noteq> Some 0)) \<and>
     (\<forall>qp \<in> set (take (cb_nqps (rc_base (rt_comm c))) (cb_qps (rc_base (rt_comm c)))). qp_handle qp \<noteq> 0)"

lemma accept_qps_handles:
  "gives_qps v \<Longrightarrow> accept_qps sp v t bases d isf rems xs e = (Inr ys, e') \<Longrightarrow> y \<in> set ys \<Longrightarrow> qp_handle (fst y) \<noteq> 0"
proof (induction sp v t bases d isf rems xs arbitrary: ys e rule: accept_qps.induct)
  case (2 sp v t bases d isf rems x xs)
  then obtain z e1 zs where z: "accept_qp sp v t (bases ! d) d isf rems x e = (Inr z, e1)"
      "accept_qps sp v t bases ((d + 1) mod length bases) False rems xs e1 = (Inr zs, e')" "ys = z # zs"
    by (auto simp: andThen_Inr)
  have "qp_handle (fst z) \<noteq> 0"
    using z(1) CreateQp_not_null [OF "2.prems"(1)] by (cases x) (auto simp: accept_qp_def andThen_Inr)
  then show ?case using "2.IH" [OF "2.prems"(1) z(2)] "2.prems"(3) z(3) by auto
qed simp

lemma accept_dev_holds:
  assumes "gives_qps v" "accept_dev sp v t flush (base, rem) e = (Inr (d, info), e')"
  shows "rd_fifoMr d \<noteq> None \<and> rd_sizesMr d \<noteq> None \<and> (flush \<longrightarrow> rd_hostMr d \<noteq> None \<and> rd_flushQp d \<noteq> None \<and> rd_flushQp d \<noteq> Some 0)"
proof (cases flush)
  case True
  obtain hm h e1 e2 where f: "accept_flush sp v (tb_devs t ! db_ibDevN base) base e1 = (Inr (hm, h), e2)"
    and d: "rd_hostMr d = Some hm" "rd_flushQp d = Some h" "rd_fifoMr d \<noteq> None" "rd_sizesMr d \<noteq> None"
    using assms(2) True by (auto simp: accept_dev_def Let_def andThen_Inr)
  have "h \<noteq> 0" using f CreateQp_not_null [OF assms(1)] by (auto simp: accept_flush_def andThen_Inr)
  then show ?thesis using d by simp
qed (use assms(2) in \<open>auto simp: accept_dev_def Let_def andThen_Inr\<close>)

lemma accept_setup_life:
  assumes run: "accept_setup sp v t dev junk rem c e = (Inr (c', m), e')" and fit: "setup_fits sp t dev junk"
    "nqps_of sp t dev \<le> NCCL_IB_MAX_QPS" "meta_fits (nqps_of sp t dev) rem" and v: "gives_qps v"
  defines "fl \<equiv> rc_flushEnabled (rt_comm c')"
  shows "recv_holds (group t dev) fl c'"
    "taken r e' = taken r e + int (nqps_of sp t dev) * one_of QPs r +
       (\<Sum>n\<leftarrow>group t dev. one_of (PdRef n) r + one_of CQs r + 2 * one_of MRs r + (if fl then one_of MRs r + one_of QPs r else 0))"
proof -
  let ?k = "length (group t dev)" and ?nq = "nqps_of sp t dev"
  let ?js = "take ?nq (zip (cm_qpInfo rem) (cm_qpInfo junk))"
  obtain bases e1 qs e2 e3 ds rest where b: "forEach (accept_base sp v t) (group t dev) e = (Inr bases, e1)"
    and q: "accept_qps sp v t bases 0 True (cm_devs rem) ?js e1 = (Inr qs, e2)"
    and f: "accept_flushEnabled sp v t dev e2 = (Inr fl, e3)"
    and d: "forEach (accept_dev sp v t fl) (zip bases (cm_devs rem)) e3 = (Inr ds, e')"
    and c': "rt_devs c' = map fst ds" "cb_qps (rc_base (rt_comm c')) = map fst qs @ rest" "cb_nqps (rc_base (rt_comm c')) = ?nq"
    using run unfolding fl_def by (auto simp: accept_setup_def Let_def andThen_Inr)
  have n: "?k \<le> 2" "length (cm_qpInfo junk) = 128" "length (cm_qpInfo rem) = 128" "length (cm_devs rem) = 2"
    using fit by (auto simp: setup_fits_def meta_fits_def)
  have lb: "length bases = ?k" by (rule forEach_length [OF b])
  have lz: "length (zip bases (cm_devs rem)) = ?k" using lb n by simp
  have ld: "length ds = ?k" using forEach_length [OF d] lz by simp
  have lj: "length ?js = ?nq" using n fit(2) by simp
  have lq: "length qs = ?nq" using accept_qps_length [OF q] lj by simp
  have dev: "db_ibDevN (rd_base (fst (ds ! i))) = group t dev ! i \<and> rd_fifoMr (fst (ds ! i)) \<noteq> None \<and> rd_sizesMr (fst (ds ! i)) \<noteq> None \<and>
      (fl \<longrightarrow> rd_hostMr (fst (ds ! i)) \<noteq> None \<and> rd_flushQp (fst (ds ! i)) \<noteq> None \<and> rd_flushQp (fst (ds ! i)) \<noteq> Some 0)" if i: "i < ?k" for i
  proof -
    have base: "db_ibDevN (bases ! i) = group t dev ! i" using forEach_nth [OF b i] accept_base_Inr by blast
    have "i < length (zip bases (cm_devs rem))" using i lz by simp
    from forEach_nth [OF d this] obtain e4 e5 where
      a: "accept_dev sp v t fl (bases ! i, cm_devs rem ! i) e4 = (Inr (fst (ds ! i), snd (ds ! i)), e5)" using i lz by auto
    show ?thesis using accept_dev_Inr [OF a] accept_dev_holds [OF v a] base by simp
  qed
  have "map (db_ibDevN \<circ> rd_base) (rt_devs c') = group t dev" using dev ld by (auto simp: c' list_eq_iff_nth_eq)
  moreover have "\<forall>d \<in> set (rt_devs c'). rd_fifoMr d \<noteq> None \<and> rd_sizesMr d \<noteq> None \<and>
      (fl \<longrightarrow> rd_hostMr d \<noteq> None \<and> rd_flushQp d \<noteq> None \<and> rd_flushQp d \<noteq> Some 0)"
    using dev ld by (metis (no_types, lifting) c'(1) in_set_conv_nth length_map nth_map)
  ultimately show "recv_holds (group t dev) fl c'"
    using accept_qps_handles [OF v q] lq by (auto simp: recv_holds_def c' fl_def)
  have "taken r e1 = taken r e + (\<Sum>n\<leftarrow>group t dev. one_of (PdRef n) r + one_of CQs r)"
    by (rule takesD [OF takes_forEach [OF takes_accept_base] b])
  moreover have "taken r e2 = taken r e1 + int ?nq * one_of QPs r" using takesD [OF takes_accept_qps q] lj by simp
  moreover have "taken r e3 = taken r e2" using takesD [OF takes_flushEnabled f] by simp
  moreover have "taken r e' = taken r e3 + int ?k * (2 * one_of MRs r + (if fl then one_of MRs r + one_of QPs r else 0))"
    using takesD [OF takes_forEach_const [OF takes_accept_dev] d] lz by simp
  ultimately show "taken r e' = taken r e + int ?nq * one_of QPs r +
       (\<Sum>n\<leftarrow>group t dev. one_of (PdRef n) r + one_of CQs r + 2 * one_of MRs r + (if fl then one_of MRs r + one_of QPs r else 0))"
    by (simp add: sum_list_addf sum_list_triv algebra_simps)
qed

lemma takes_close_recv_dev:
  assumes "rd_fifoMr d \<noteq> None" "rd_sizesMr d \<noteq> None" "flush \<longrightarrow> rd_hostMr d \<noteq> None \<and> rd_flushQp d \<noteq> None \<and> rd_flushQp d \<noteq> Some 0"
  shows "takes r (close_recv_dev v flush d)
    (- (one_of (PdRef (db_ibDevN (rd_base d))) r + one_of CQs r + 2 * one_of MRs r + (if flush then one_of MRs r + one_of QPs r else 0)))"
proof -
  have "takes r (if flush then andThen (destroy_qp v (case rd_flushQp d of None \<Rightarrow> 0 | Some h \<Rightarrow> h)) (\<lambda>_. dereg_mr v (rd_hostMr d)) else ret ())
      (if flush then - one_of QPs r - one_of MRs r else 0)"
  proof (cases flush)
    case True
    then obtain h where h: "rd_flushQp d = Some h" "h \<noteq> 0" "rd_hostMr d \<noteq> None" using assms(3) by auto
    have "takes r (andThen (destroy_qp v h) (\<lambda>_. dereg_mr v (rd_hostMr d))) (- one_of QPs r - one_of MRs r)"
      by (rule takes_andThen [OF takes_destroy_qp takes_dereg_mr]) (use h in auto)
    then show ?thesis using True h(1) by simp
  qed (simp add: takes_ret)
  then show ?thesis unfolding close_recv_dev_def
    by (rule takes_andThen [OF _ takes_andThen [OF takes_dereg_mr takes_andThen [OF takes_dereg_mr takes_DestroyBase refl] refl]])
      (use assms in auto)
qed

lemma takes_close_recv:
  assumes ok: "acc_ok nd nq c0" "same_recv_objects c0 c" and h: "recv_holds ns fl c0" and run: "close_recv v c e = (Inr u, e')"
  shows "taken r e' = taken r e - int nq * one_of QPs r -
    (\<Sum>n\<leftarrow>ns. one_of (PdRef n) r + one_of CQs r + 2 * one_of MRs r + (if fl then one_of MRs r + one_of QPs r else 0))"
proof -
  let ?b = "rc_base (rt_comm c)"
  let ?k = "\<lambda>n. one_of (PdRef n) r + one_of CQs r + 2 * one_of MRs r + (if fl then one_of MRs r + one_of QPs r else 0)"
  have n: "cb_ndevs ?b = nd" "cb_nqps ?b = nq" "length (rt_devs c) = nd" "length (take nq (cb_qps ?b)) = nq"
    using ok by (simp_all add: acc_ok_def same_recv_objects_def)
  have h: "recv_holds ns fl c" using h ok(2) by (simp add: recv_holds_def same_recv_objects_def)
  obtain us e1 where q: "close_qps v ?b e = (Inr us, e1)" and d: "forEach (close_recv_dev v fl) (rt_devs c) e1 = (Inr u, e')"
    using run n h by (auto simp: close_recv_def Let_def andThen_Inr recv_holds_def)
  have 1: "taken r e1 = taken r e - int nq * one_of QPs r"
    using takesD [OF takes_close_qps q] h n by (simp add: recv_holds_def)
  have "takes r (forEach (close_recv_dev v fl) (rt_devs c)) (\<Sum>d\<leftarrow>rt_devs c. - ?k (db_ibDevN (rd_base d)))"
    by (rule takes_forEach, rule takes_close_recv_dev) (use h in \<open>auto simp only: recv_holds_def\<close>)
  from takesD [OF this d] have "taken r e' = taken r e1 - (\<Sum>n\<leftarrow>map (db_ibDevN \<circ> rd_base) (rt_devs c). ?k n)"
    by (simp add: comp_def uminus_sum_list_map)
  moreover have "map (db_ibDevN \<circ> rd_base) (rt_devs c) = ns" using h by (simp add: recv_holds_def)
  ultimately show ?thesis using 1 by simp
qed

lemma CloseRecv_success:
  assumes "ncclIbCloseRecv v (Some c) e n = (ncclSuccess, e', n')"
  shows "\<exists>u. close_recv v c e = (Inr u, e')"
proof -
  obtain x e1 where x: "close_recv v c e = (x, e1)" by (cases "close_recv v c e")
  show ?thesis
  proof (cases x)
    case (Inl res)
    then have "ncclCheckFails res" using fails_close_recv [of v c] x unfolding fails_with_def by blast
    then show ?thesis using assms x Inl by (auto simp: ncclIbCloseRecv_def close_result_def ncclSocketClose_def split: if_splits)
  next
    case (Inr u)
    then show ?thesis using assms x by (auto simp: ncclIbCloseRecv_def close_result_def ncclSocketClose_def split: if_splits)
  qed
qed

text \<open>
  C15: a receiver gives back what it takes, the queue pair and the memory with which it flushes writes to a GPU included:
  over the setup of the connection and its close every kind of object is destroyed as often as it was created,
  and each device is left by as many users as it got.
\<close>
theorem recv_life_balanced:
  assumes "setup_fits sp t dev junk" "nqps_of sp t dev \<le> NCCL_IB_MAX_QPS" "gives_qps v" "rt_comm c0 = zero_recv_comm"
    "meta_fits (nqps_of sp t dev) remMeta" "accept_setup sp v t dev junk remMeta c0 e0 = (Inr (c, m), e1)"
    "same_recv_objects c c'" "ncclIbCloseRecv v (Some c') e2 n = (ncclSuccess, e3, n')"
  shows "(taken r e1 - taken r e0) + (taken r e3 - taken r e2) = 0"
proof -
  note L = accept_setup_life [OF assms(6,1,2,5,3)]
  have ok: "acc_ok (length (group t dev)) (nqps_of sp t dev) c" by (rule accept_setup_ok(1) [OF assms(6,4,1,2,5)])
  obtain u where "close_recv v c' e2 = (Inr u, e3)" using CloseRecv_success [OF assms(8)] by blast
  from takes_close_recv [OF ok assms(7) L(1) this, of r] L(2) [of r] show ?thesis by linarith
qed

section \<open>A connection that fails\<close>

text \<open>An action that frees nothing, whether it succeeds or not.\<close>

definition keeps :: "resource \<Rightarrow> 'a act \<Rightarrow> bool" where
  "keeps r m \<longleftrightarrow> (\<forall>e x e'. m e = (x, e') \<longrightarrow> taken r e \<le> taken r e')"

lemma keeps_actD: "keeps r m \<Longrightarrow> m e = (x, e') \<Longrightarrow> taken r e \<le> taken r e'"
  by (auto simp: keeps_def)

lemma keeps_ret [intro, simp]: "keeps r (ret a)"
  by (simp add: keeps_def ret_def)

lemma keeps_verb: "0 \<le> cost r c \<Longrightarrow> keeps r (verb v c)"
  by (auto simp: keeps_def verb_def Let_def split: prod.splits if_splits)

lemma keeps_verbs [intro, simp]:
  "keeps r (verb v (CreateCq n k))" "keeps r (verb v (CreateQp pd cq s q i))" "keeps r (verb v (RegSetup pd b))"
  "keeps r (verb v (ModifyQp h ch))" "keeps r (verb v (QueryEce h))" "keeps r (verb v (SetEce h ec))" "keeps r (verb v (AllocPd n))"
  by (auto intro!: keeps_verb simp: cost_one one_of_def)

lemma keeps_andThen [intro]:
  assumes "keeps r m" "\<And>a. keeps r (f a)"
  shows "keeps r (andThen m f)"
  unfolding keeps_def
proof (intro allI impI)
  fix e x e'
  assume run: "andThen m f e = (x, e')"
  obtain y e1 where m: "m e = (y, e1)" by (cases "m e")
  have "taken r e \<le> taken r e1" by (rule keeps_actD [OF assms(1) m])
  moreover have "taken r e1 \<le> taken r e'"
    using run m assms(2) by (cases y) (auto simp: andThen_def keeps_def)
  ultimately show "taken r e \<le> taken r e'" by linarith
qed

lemma keeps_if [intro]: "keeps r m \<Longrightarrow> keeps r m' \<Longrightarrow> keeps r (if b then m else m')"
  by simp

lemma keeps_forEach [intro]: "(\<And>x. keeps r (f x)) \<Longrightarrow> keeps r (forEach f xs)"
  by (induction xs) auto

lemma keeps_count_up [intro]: "keeps r m \<Longrightarrow> keeps r (\<lambda>e. m (count_up i e))"
  by (auto simp: keeps_def) (metis taken_frame(1))

lemma keeps_steps [intro, simp]:
  "keeps r (take_pd v n)" "keeps r (ncclIbInitCommDevBase sp v n b)" "keeps r (ncclIbCreateQp sp v port b acc)"
  "keeps r (ncclIbRtrQp sp v qp g d i o')" "keeps r (ncclIbRtsQp sp v qp)" "keeps r (device_gid sp ib n b)"
  "keeps r (query_ece v h old)"
proof -
  show pd: "keeps r (take_pd v n)"
    by (auto simp: keeps_def take_pd_cases taken_def cost_one split: prod.splits if_splits resource.splits)
  have "keeps r (\<lambda>e. (Inr x, count_up i e))" for x :: 'x and i by (auto simp: keeps_def)
  then show "keeps r (ncclIbInitCommDevBase sp v n b)" unfolding ncclIbInitCommDevBase_def by (intro keeps_andThen pd keeps_verbs)
  show "keeps r (ncclIbCreateQp sp v port b acc)" unfolding ncclIbCreateQp_def by (intro keeps_andThen keeps_verbs keeps_count_up) auto
  show "keeps r (ncclIbRtrQp sp v qp g d i o')" "keeps r (ncclIbRtsQp sp v qp)" by (auto simp: ncclIbRtrQp_def ncclIbRtsQp_def)
  show "keeps r (device_gid sp ib n b)" by (auto simp: keeps_def device_gid_def Let_def split: prod.splits if_splits)
  have "\<exists>y. verb v (QueryEce h) e = (y, e')" if "query_ece v h old e = (x, e')" for e x e'
    using that by (auto simp: query_ece_def split: prod.splits sum.splits)
  then show "keeps r (query_ece v h old)" using keeps_verbs(5) [of r v h] unfolding keeps_def by blast
qed

lemma keeps_connect_qps: "keeps r (connect_qps sp v t bases d js)"
proof (induction sp v t bases d js rule: connect_qps.induct)
  case (2 sp v t bases d j js)
  have "keeps r (connect_qp sp v t (bases ! d) d j)"
    unfolding connect_qp_def Let_def by (auto intro!: keeps_andThen)
  then show ?case using 2 by (auto intro!: keeps_andThen)
qed simp

lemma keeps_connect_setup: "keeps r (connect_setup sp v t dev junk c)"
proof -
  have "keeps r (connect_dev sp v t x)" for x unfolding connect_dev_def by (cases x) (auto simp: Let_def intro!: keeps_andThen)
  then show ?thesis unfolding connect_setup_def Let_def by (auto intro!: keeps_andThen keeps_forEach keeps_connect_qps)
qed

lemma keeps_connect_finish: "keeps r (connect_finish sp v c m)"
proof -
  have "keeps r (finish_qp sp v c m x)" for x unfolding finish_qp_def by (cases x) (auto intro!: keeps_andThen)
  then show ?thesis unfolding connect_finish_def Let_def by (auto intro!: keeps_andThen keeps_forEach)
qed

definition conn_keeps :: "resource \<Rightarrow> ib_env \<Rightarrow> conn_res \<Rightarrow> bool" where
  "conn_keeps r e x \<longleftrightarrow>
     (case x of None \<Rightarrow> True
      | Some (res, out, sg, e', n) \<Rightarrow> taken r e \<le> taken r e' \<and> (ncclCheckFails res \<longrightarrow> out = None))"

lemma conn_keeps_ends:
  "taken r e \<le> taken r e' \<Longrightarrow> conn_keeps r e (conn_fail res sg e' n)" "conn_keeps r e (conn_exit c sg e n)"
  "conn_keeps r e (conn_wait sg e n)" "conn_keeps r e None"
  by (simp_all add: conn_keeps_def conn_fail_def conn_exit_def conn_wait_def)

lemma conn_keeps_trans: "taken r e \<le> taken r e1 \<Longrightarrow> conn_keeps r e1 x \<Longrightarrow> conn_keeps r e x"
  by (auto simp: conn_keeps_def split: option.splits)

lemma conn_keeps_ready: "conn_keeps r e (connect_send_ready c sg e n)"
  by (auto simp: connect_send_ready_def Let_def conn_keeps_ends split: option.splits)

lemma conn_keeps_connect: "conn_keeps r e (connect_connect sp v ly c sg e n)"
proof -
  have "conn_keeps r e (case connect_finish sp v c m e of (Inl res, e) \<Rightarrow> conn_fail res sg e n
      | (Inr c, e) \<Rightarrow> connect_send_ready c (g c) e n)" for m sg g n
    using keeps_actD [OF keeps_connect_finish, of sp v c m e _ _ r] conn_keeps_trans [OF _ conn_keeps_ready]
    by (auto simp: conn_keeps_ends split: prod.splits sum.splits)
  then show ?thesis
    by (auto simp: connect_connect_def Let_def conn_keeps_ends conn_keeps_def [of _ _ "Some _"] split: option.splits)
qed

lemma conn_keeps_send: "conn_keeps r e (connect_send sp v ly c sg e n)"
  by (auto simp: connect_send_def Let_def conn_keeps_ends conn_keeps_connect split: option.splits)

lemma conn_keeps_check: "conn_keeps r e (connect_check sp v ly t dev junk c sg e n)"
proof -
  have "conn_keeps r e (case connect_setup sp v t dev junk c e of (Inl res, e) \<Rightarrow> conn_fail res sg e n
      | (Inr (c, m), e) \<Rightarrow> connect_send sp v ly c (g c m) e n)" for c sg g n
    using keeps_actD [OF keeps_connect_setup, of sp v t dev junk c e _ _ r] conn_keeps_trans [OF _ conn_keeps_send]
    by (auto simp: conn_keeps_ends split: prod.splits sum.splits)
  then show ?thesis
    by (auto simp: connect_check_def Let_def conn_keeps_ends split: option.splits)
qed

lemma conn_keeps_start: "conn_keeps r e (connect_start sp v ly t dev junk ha e n)"
  by (auto simp: connect_start_def Let_def conn_keeps_ends conn_keeps_check split: option.splits)

text \<open>
  A connection that fails gives nothing back. A call of connect that ends with an error hands out no communicator, and
  whatever queue pairs, completion queues, memory regions and users of protection domains it had taken stay taken.
\<close>
theorem failed_connect_frees_nothing:
  assumes "ncclIbConnect sp v ly t dev junk ha e n = Some (res, out, ha', e', n')" "ncclCheckFails res"
  shows "out = None \<and> taken r e \<le> taken r e'"
proof -
  obtain x where x: "x = Some (res, out, ha_stage ha', e', n')" and run:
    "x = (case (sg_state (ha_stage ha), sg_comm (ha_stage ha)) of
           (ncclIbCommStateConnect, Some c) \<Rightarrow> connect_check sp v ly t dev junk c (ha_stage ha) e n
         | (ncclIbCommStateSend, Some c) \<Rightarrow> connect_send sp v ly c (ha_stage ha) e n
         | (ncclIbCommStateConnecting, Some c) \<Rightarrow> connect_connect sp v ly c (ha_stage ha) e n
         | (ncclIbCommStateConnected, Some c) \<Rightarrow> connect_send_ready c (ha_stage ha) e n
         | (ncclIbCommStateStart, _) \<Rightarrow> connect_start sp v ly t dev junk ha e n
         | (s, None) \<Rightarrow> if s \<in> {ncclIbCommStateConnect, ncclIbCommStateSend, ncclIbCommStateConnecting, ncclIbCommStateConnected}
                        then None else Some (ncclInternalError, None, ha_stage ha, e, n)
         | (_, Some _) \<Rightarrow> Some (ncclInternalError, None, ha_stage ha, e, n))"
    using assms(1) by (auto simp: ncclIbConnect_def Let_def)
  have "conn_keeps r e x"
    by (cases "sg_state (ha_stage ha)"; cases "sg_comm (ha_stage ha)")
      (simp_all add: run conn_keeps_check conn_keeps_send conn_keeps_connect conn_keeps_ready conn_keeps_start conn_keeps_def [of _ _ "Some _"]
        conn_keeps_ends)
  then show ?thesis using assms(2) by (simp add: conn_keeps_def x)
qed

section \<open>Examples\<close>

lemma answers_close_steps:
  assumes "working v"
  shows "answers (destroy_qp v h)" "answers (dereg_mr v mr)" "answers (ncclIbDestroyBase v b)"
proof -
  have "answers (\<lambda>e. (Inr (), count_down i e))" for i by (simp add: answers_def)
  then show "answers (destroy_qp v h)" unfolding destroy_qp_def using assms by (auto intro!: answers_andThen)
  show "answers (dereg_mr v mr)" using assms by (cases mr) (auto simp: dereg_mr_def)
  have "answers (drop_pd v n)" for n
    unfolding answers_def drop_pd_def
  proof
    fix e :: ib_env
    let ?e = "e\<lparr> ie_pdRefs := (ie_pdRefs e)(n := ie_pdRefs e n - 1) \<rparr>"
    obtain x e' where "verb v (DeallocPd n (ie_pd ?e n)) ?e = (Inr x, e')"
      using answersE [OF answers_verb [OF assms]] by metis
    then show "\<exists>x e'. (let e = ?e in if ie_pdRefs e n = 0
      then case verb v (DeallocPd n (ie_pd e n)) e of (Inl res, e) \<Rightarrow> (Inl res, e) | (Inr _, e) \<Rightarrow> (Inr (), e) else (Inr (), e)) = (Inr x, e')"
      by (auto simp: Let_def)
  qed
  then have "answers (\<lambda>e. drop_pd v n (count_down i e))" for n i by (simp add: answers_def)
  then show "answers (ncclIbDestroyBase v b)" unfolding ncclIbDestroyBase_def using assms by (auto intro!: answers_andThen)
qed

lemma working_CloseSend:
  assumes "working v"
  shows "\<exists>e' n'. ncclIbCloseSend v (Some c) e n = (ncclSuccess, e', n')"
proof -
  have "answers (close_send v c)"
    unfolding close_send_def close_qps_def close_send_dev_def Let_def
    by (auto simp: split_beta intro!: answers_andThen answers_forEach answers_close_steps assms)
  then obtain u e' where "close_send v c e = (Inr u, e')" by (rule answersE)
  then show ?thesis by (auto simp: ncclIbCloseSend_def close_result_def ncclSocketClose_def)
qed

lemma working_CloseRecv:
  assumes "working v"
  shows "\<exists>e' n'. ncclIbCloseRecv v (Some c) e n = (ncclSuccess, e', n')"
proof -
  have "answers (close_recv v c)"
    unfolding close_recv_def close_qps_def close_recv_dev_def Let_def
    by (auto intro!: answers_andThen answers_forEach answers_close_steps assms)
  then obtain u e' where "close_recv v c e = (Inr u, e')" by (rule answersE)
  then show ?thesis by (auto simp: ncclIbCloseRecv_def close_result_def ncclSocketClose_def)
qed

lemma example_gives_qps: "gives_qps example_setup_verbs"
  by (simp add: gives_qps_def example_setup_verbs_def)

lemma example_zero: "ss_comm zero_send_setup = zero_send_comm" "rt_comm zero_recv_setup = zero_recv_comm"
  by (simp_all add: zero_send_setup_def zero_recv_setup_def)

lemma example_nqps_of: "nqps_of example_sp (example_tables m) 0 = 2"
  by (simp add: example_tables_group example_nqps)

lemma one_of_same: "one_of a a = 1" "a \<noteq> b \<Longrightarrow> one_of a b = 0"
  by (simp_all add: one_of_def)

theorem send_life_balanced_witness:
  "\<exists>c1 m1 e1 c2 e2 e3 n'. connect_setup example_sp example_setup_verbs (example_tables 5) 0 example_meta zero_send_setup example_env = (Inr (c1, m1), e1) \<and>
     connect_finish example_sp example_setup_verbs c1 m1 e1 = (Inr c2, e2) \<and>
     ncclIbCloseSend example_setup_verbs (Some c2) e2 \<lparr> nt_in = [], nt_log = [] \<rparr> = (ncclSuccess, e3, n') \<and>
     taken QPs e1 = 2 \<and> taken QPs e3 = 0 \<and> taken MRs e3 = 0 \<and> taken (PdRef 0) e1 = 1 \<and> taken (PdRef 0) e3 = 0"
proof -
  obtain c1 m1 e1 where 1: "connect_setup example_sp example_setup_verbs (example_tables 5) 0 example_meta zero_send_setup example_env = (Inr (c1, m1), e1)"
    "meta_fits 2 m1" using example_loop by metis
  obtain c2 e2 where 2: "connect_finish example_sp example_setup_verbs c1 m1 e1 = (Inr c2, e2)"
    using answersE [OF answers_connect_finish [OF example_working]] by metis
  obtain e3 n' where 3: "ncclIbCloseSend example_setup_verbs (Some c2) e2 \<lparr> nt_in = [], nt_log = [] \<rparr> = (ncclSuccess, e3, n')"
    using working_CloseSend [OF example_working] by blast
  have n: "nqps_of example_sp (example_tables 5) 0 \<le> NCCL_IB_MAX_QPS" "meta_fits (nqps_of example_sp (example_tables 5) 0) m1"
    unfolding example_nqps_of using 1(2) by simp_all
  have s: "same_send_objects c2 c2" by (simp add: same_send_objects_def)
  have 0: "taken r example_env = 0" for r by (cases r) (simp_all add: taken_def example_env_def)
  have t: "taken r e3 = 0" for r
    using send_life_balanced [OF example_fits n(1) example_gives_qps example_zero(1) 1(1) n(2) 2 s 3, of r] 0 [of r] by simp
  have l: "length (cm_qpInfo example_meta) = 128" "length (cm_devs example_meta) = 2" "length (group (example_tables 5) 0) \<le> 2"
    by (simp_all add: example_meta_def example_tables_group)
  have "taken r e1 = one_of (PdRef 0) r + one_of CQs r + one_of MRs r + 2 * one_of QPs r" for r
    using takes_connect_setup [OF l(1) n(1) l(2,3) 1(1), of r] 0 [of r] by (simp add: example_tables_group example_nqps)
  then have "taken QPs e1 = 2" "taken (PdRef 0) e1 = 1" by (simp_all add: one_of_def)
  then show ?thesis using 1(1) 2 3 t by blast
qed

theorem recv_life_balanced_witness:
  "\<exists>m0 c m e1 e2 n'. accept_setup example_sp example_setup_verbs (example_tables 5) 0 example_meta m0 zero_recv_setup example_env = (Inr (c, m), e1) \<and>
     ncclIbCloseRecv example_setup_verbs (Some c) e1 \<lparr> nt_in = [], nt_log = [] \<rparr> = (ncclSuccess, e2, n') \<and>
     taken QPs e2 = 0 \<and> taken MRs e2 = 0 \<and> taken CQs e2 = 0 \<and> taken (PdRef 0) e2 = 0"
proof -
  obtain m0 where m0: "meta_fits 2 m0" using example_loop by metis
  obtain c m e1 where 1: "accept_setup example_sp example_setup_verbs (example_tables 5) 0 example_meta m0 zero_recv_setup example_env = (Inr (c, m), e1)"
    using answersE [OF answers_accept_setup [OF example_working example_gids]] by (metis surj_pair)
  obtain e2 n' where 2: "ncclIbCloseRecv example_setup_verbs (Some c) e1 \<lparr> nt_in = [], nt_log = [] \<rparr> = (ncclSuccess, e2, n')"
    using working_CloseRecv [OF example_working] by blast
  have n: "nqps_of example_sp (example_tables 5) 0 \<le> NCCL_IB_MAX_QPS" "meta_fits (nqps_of example_sp (example_tables 5) 0) m0"
    unfolding example_nqps_of using m0 by simp_all
  have s: "same_recv_objects c c" by (simp add: same_recv_objects_def)
  have 0: "taken r example_env = 0" for r by (cases r) (simp_all add: taken_def example_env_def)
  have t: "taken r e2 = 0" for r
    using recv_life_balanced [OF example_fits n(1) example_gives_qps example_zero(2) n(2) 1 s 2, of r] 0 [of r] by simp
  show ?thesis using 1 2 t by blast
qed

text \<open>A card that refuses queue pairs: the protection domain and the completion queue stay taken.\<close>

theorem failed_connect_frees_nothing_witness:
  "\<forall>ly. \<exists>ha ha' e' n'. ncclIbConnect example_sp (example_setup_verbs\<lparr> sv_call := (\<lambda>tr c. case c of CreateQp _ _ _ _ _ \<Rightarrow> (ncclSystemError, 0) | _ \<Rightarrow> (ncclSuccess, 1)) \<rparr>)
      ly (example_tables 5) 0 example_meta ha example_env \<lparr> nt_in = [], nt_log = [] \<rparr> = Some (ncclSystemError, None, ha', e', n') \<and>
    taken (PdRef 0) example_env = 0 \<and> taken (PdRef 0) e' = 1 \<and> taken CQs example_env \<le> taken CQs e'"
proof (intro allI, goal_cases)
  case (1 ly)
  let ?v = "example_setup_verbs\<lparr> sv_call := (\<lambda>tr c. case c of CreateQp _ _ _ _ _ \<Rightarrow> (ncclSystemError, 0) | _ \<Rightarrow> (ncclSuccess, 1)) \<rparr>"
  define ha where "ha = \<lparr> ha_connectAddr = sk_addr zero_sock, ha_magic = 0, ha_stage =
      \<lparr> sg_state = ncclIbCommStateConnect, sg_offset = 0, sg_buffer = [],
        sg_comm = Some (zero_send_setup\<lparr> ss_sock := zero_sock\<lparr> sk_state := ncclSocketStateReady \<rparr> \<rparr>) \<rparr> \<rparr>"
  have q: "take (Suc (Suc 0)) (cm_qpInfo example_meta) = [cm_qpInfo example_meta ! 0, cm_qpInfo example_meta ! 0]"
    by (simp add: example_meta_def)
  obtain ha' e' n' where run: "ncclIbConnect example_sp ?v ly (example_tables 5) 0 example_meta ha example_env \<lparr> nt_in = [], nt_log = [] \<rparr>
      = Some (ncclSystemError, None, ha', e', n')" and p: "ie_pdRefs e' 0 = 1"
    by (simp add: ncclIbConnect_def ha_def connect_check_def ncclSocketReady_def Let_def example_tables_group example_nqps
        connect_setup_def q numeral_2_eq_2 andThen_def ncclIbInitCommDevBase_def take_pd_cases verb_def ret_def example_env_def
        connect_qp_def ncclIbCreateQp_def conn_fail_def count_up_def)
  show ?case
    using run p failed_connect_frees_nothing [OF run, of CQs]
    by (intro exI [of _ ha] exI [of _ ha'] exI [of _ e'] exI [of _ n']) (simp add: taken_def [of "PdRef 0"] example_env_def)
qed

end
