(* ===== verification/SysFiles.thy ===== *)
theory SysFiles
  imports CString
begin

text \<open>
  What the statistics and topology code reads from the file system: whole small files, given by
  their contents, of which \<^verbatim>\<open>std::ifstream::getline(char*, n)\<close> reads one line into a buffer of
  \<open>n\<close> characters.
\<close>

section \<open>One line of a file\<close>

text \<open>A path that can be opened for reading has contents.\<close>

type_synonym files = "string \<Rightarrow> string option"

definition newline :: char where
  "newline = CHR 0x0A"

definition c_str :: "string \<Rightarrow> string" where
  "c_str s = takeWhile (\<lambda>c. c \<noteq> CHR 0x00) s"

text \<open>
  The characters up to the end of the line, at most \<open>n - 1\<close> of them, read as a C string; the
  stream is good when the end of the line was seen, that is when the line is ended by a newline
  and fits.
\<close>

definition getline_buf :: "nat \<Rightarrow> string \<Rightarrow> string \<times> bool" where
  "getline_buf n s =
     (let l = takeWhile (\<lambda>c. c \<noteq> newline) s
      in (c_str (take (n - 1) l), newline \<in> set s \<and> length l \<le> n - 1))"

definition good_line :: "files \<Rightarrow> nat \<Rightarrow> string \<Rightarrow> string option" where
  "good_line fs n path =
     (case fs path of
        None \<Rightarrow> None
      | Some s \<Rightarrow> (let (l, good) = getline_buf n s in if good then Some l else None))"

lemma c_str_id: "c_string s \<Longrightarrow> c_str s = s"
  by (simp add: c_str_def c_string_def takeWhile_eq_all_conv) metis

lemma getline_buf_line:
  assumes "newline \<notin> set l" "c_string l" "length l < n"
  shows "getline_buf n (l @ newline # rest) = (l, True)"
proof -
  have "takeWhile (\<lambda>c. c \<noteq> newline) (l @ newline # rest) = l"
    using assms(1) by (subst takeWhile_append2) auto
  then show ?thesis using assms(2,3) by (simp add: getline_buf_def c_str_id)
qed

section \<open>Switches of the environment\<close>

text \<open>\<^verbatim>\<open>disable && disable[0] > '0'\<close>: the characters are signed on the platforms the code is built for.\<close>

definition schar :: "char \<Rightarrow> int" where
  "schar c = (let k = (of_char c :: int) in if k < 128 then k else k - 256)"

definition switched_off :: "string option \<Rightarrow> bool" where
  "switched_off v = (case v of Some (c # _) \<Rightarrow> 48 < schar c | _ \<Rightarrow> False)"

end
