(* ===== verification/UnetPerf.thy ===== *)
theory UnetPerf
  imports SysFiles IbTypes
begin

text \<open>
  The performance monitor of a process, \<^verbatim>\<open>src/ucommd/unet_perf.cc\<close>: the object behind
  \<^verbatim>\<open>getUnetIbStat\<close> and \<^verbatim>\<open>getUnetBwStat\<close>. It locks a file that tells the monitoring tool that the
  process is alive, makes one segment of counters for the InfiniBand transport and, when the
  process has a rank, one with two counters for every rank.
\<close>

section \<open>The monitor object\<close>

definition kUnetPid :: string where "kUnetPid = ''pid''"
definition kUnetRank :: string where "kUnetRank = ''rank''"
definition kUnetLocalRank :: string where "kUnetLocalRank = ''local_rank''"
definition kUnetWorldSize :: string where "kUnetWorldSize = ''world_size''"
definition kUnetLocalSize :: string where "kUnetLocalSize = ''local_size''"
definition kUnetIbStats :: string where "kUnetIbStats = ''unet_ib_stats''"
definition kUnetBwStats :: string where "kUnetBwStats = ''unet_bw_stats''"
definition kLockPrefix :: string where "kLockPrefix = ''.ucommd_lock.''"
definition kRootDir :: string where "kRootDir = ''/dev/shm/''"

definition ib_counter_list :: "string list" where
  "ib_counter_list =
     [kUnetPid, kUnetRank, ''cq_count'', ''qp_count'', ''mr_count'', ''cpl_count'', ''cpl_err_count'',
      ''fifo_post_count'', ''fifo_recv_count'', ''tx_bytes'']"

definition bw_info_list :: "string list" where
  "bw_info_list = [kUnetPid, kUnetRank, kUnetLocalRank, kUnetWorldSize, kUnetLocalSize]"

text \<open>The loop over the ranks appends two names per rank; it does nothing for a negative size.\<close>

definition rank_counters :: "nat \<Rightarrow> string list" where
  "rank_counters i = [''tx_rank'' @ to_string_nat i, ''cpl_rank'' @ to_string_nat i]"

definition bw_counter_list :: "int \<Rightarrow> string list" where
  "bw_counter_list world_size = bw_info_list @ concat (map rank_counters [0..<nat world_size])"

text \<open>
  The states are the same three as those of a segment. The calls on the lock file are recorded in
  order; \<open>None\<close> for a segment or a counter object is the null pointer.
\<close>

datatype lock_call = OpenLock string int | CloseLock int | UnlinkLock string

record UnetPerfMonitor =
  pf_pid :: int
  pf_proc_name :: string
  pf_lock_fd :: int
  pf_lock_file :: string
  pf_rank :: int
  pf_local_rank :: int
  pf_world_size :: int
  pf_local_size :: int
  pf_shm_ib :: "StatsShm option"
  pf_shm_bw :: "StatsShm option"
  pf_ib_stat :: "Stat option"
  pf_bw_stat :: "Stat option"
  pf_bw_offset :: int           \<comment> \<open>the static \<open>bw_offset_\<close>\<close>
  pf_state :: shm_state
  pf_lock_calls :: "lock_call list"

text \<open>
  What the process finds around it: the environment, its number, the files under \<open>/proc\<close>, the
  name it was started under; the answers to \<open>open\<close> and \<open>flock\<close> (the number that \<open>errno\<close> holds after
  the \<open>close\<close> that follows a refused lock), and to the calls that make the two segments.
\<close>

record perf_env =
  pe_getenv :: "string \<Rightarrow> string option"
  pe_pid :: nat
  pe_files :: files
  pe_short_name :: string       \<comment> \<open>\<open>program_invocation_short_name\<close>\<close>
  pe_open :: int
  pe_flock :: "errno option"
  pe_ib_shm :: shm_env
  pe_bw_shm :: shm_env

definition env_set :: "perf_env \<Rightarrow> string \<Rightarrow> string option" where
  "env_set e v = (case pe_getenv e v of Some s \<Rightarrow> if s = [] then None else Some s | None \<Rightarrow> None)"

definition get_from_env :: "perf_env \<Rightarrow> string \<Rightarrow> string \<Rightarrow> int" where
  "get_from_env e torch_env ompi_env =
     (case env_set e torch_env of
        Some s \<Rightarrow> atoi s
      | None \<Rightarrow> (case env_set e ompi_env of Some s \<Rightarrow> atoi s | None \<Rightarrow> -1))"

definition blank_monitor :: UnetPerfMonitor where
  "blank_monitor =
     \<lparr> pf_pid = -1, pf_proc_name = [], pf_lock_fd = -1, pf_lock_file = [], pf_rank = -1,
       pf_local_rank = -1, pf_world_size = -1, pf_local_size = -1, pf_shm_ib = None, pf_shm_bw = None,
       pf_ib_stat = None, pf_bw_stat = None, pf_bw_offset = 5, pf_state = CREATED, pf_lock_calls = [] \<rparr>"

definition UnetPerfMonitor_new :: "perf_env \<Rightarrow> UnetPerfMonitor" where
  "UnetPerfMonitor_new e =
     (if switched_off (pe_getenv e ''SICL_UCOMMD_STATS_DISABLE'') then blank_monitor\<lparr> pf_state := ERROR \<rparr>
      else
        let comm = good_line (pe_files e) 128 (''/proc/'' @ to_string_nat (pe_pid e) @ ''/comm'');
            name = (case comm of Some l \<Rightarrow> l | None \<Rightarrow> []);
            name = (if name = [] then pe_short_name e else name)
        in blank_monitor\<lparr>
             pf_pid := int (pe_pid e), pf_proc_name := name,
             pf_lock_file := kRootDir @ kLockPrefix @ name @ ''.'' @ to_string_nat (pe_pid e),
             pf_rank := get_from_env e ''RANK'' ''OMPI_COMM_WORLD_RANK'',
             pf_local_rank := get_from_env e ''LOCAL_RANK'' ''OMPI_COMM_WORLD_LOCAL_RANK'',
             pf_world_size := get_from_env e ''WORLD_SIZE'' ''OMPI_COMM_WORLD_SIZE'',
             pf_local_size := get_from_env e ''LOCAL_WORLD_SIZE'' ''OMPI_COMM_WORLD_LOCAL_SIZE'' \<rparr>)"

section \<open>Initialisation\<close>

text \<open>
  One step of \<open>init\<close> either gives up (the state is set to \<open>ERROR\<close> and -1 returned) or goes on with
  the monitor as it is then.
\<close>

type_synonym perf_step = "UnetPerfMonitor + UnetPerfMonitor"

definition give_up :: "UnetPerfMonitor \<Rightarrow> perf_step" where
  "give_up m = Inl (m\<lparr> pf_state := ERROR \<rparr>)"

definition and_then :: "perf_step \<Rightarrow> (UnetPerfMonitor \<Rightarrow> perf_step) \<Rightarrow> perf_step" where
  "and_then r k = (case r of Inl m \<Rightarrow> Inl m | Inr m \<Rightarrow> k m)"

text \<open>A lock held by another process is not an error; the descriptor is closed all the same.\<close>

definition take_lock :: "perf_env \<Rightarrow> UnetPerfMonitor \<Rightarrow> perf_step" where
  "take_lock e m =
     (let fd = pe_open e;
          m = m\<lparr> pf_lock_calls := pf_lock_calls m @ [OpenLock (pf_lock_file m) fd] \<rparr>
      in if fd = -1 then give_up m
         else case pe_flock e of
                None \<Rightarrow> Inr (m\<lparr> pf_lock_fd := fd \<rparr>)
              | Some err \<Rightarrow>
                  let m = m\<lparr> pf_lock_calls := pf_lock_calls m @ [CloseLock fd] \<rparr>
                  in if err \<noteq> EWOULDBLOCK then give_up m else Inr (m\<lparr> pf_lock_fd := fd \<rparr>))"

text \<open>\<^verbatim>\<open>ib_stat_->set(UNET_PID, pid_)\<close> picks the operation by index, which cannot fail.\<close>

definition set_up_ib :: "perf_env \<Rightarrow> UnetPerfMonitor \<Rightarrow> perf_step" where
  "set_up_ib e m =
     (let (r, s) = StatsShm_init (pe_ib_shm e) (StatsShm_new ''_'' kUnetIbStats 1 ib_counter_list);
          m = m\<lparr> pf_shm_ib := Some s \<rparr>
      in if r \<noteq> 0 then give_up m
         else case allocStat s of
                (r, Some st, s) \<Rightarrow>
                  if r \<noteq> 0 then give_up m
                  else let mem = Stat_set st UNET_PID (word_of_int (pf_pid m)) (ss_mem s);
                           mem = Stat_set st UNET_RANK (word_of_int (pf_rank m)) mem
                       in Inr (m\<lparr> pf_shm_ib := Some (s\<lparr> ss_mem := mem \<rparr>), pf_ib_stat := Some st \<rparr>)
              | (_, None, s) \<Rightarrow> give_up (m\<lparr> pf_shm_ib := Some s \<rparr>))"

text \<open>The five calls of \<open>set\<close> by name, the first that fails ending the sequence.\<close>

fun set_all :: "Stat \<Rightarrow> (string \<times> int) list \<Rightarrow> counters \<Rightarrow> bool \<times> counters" where
  "set_all st [] mem = (True, mem)"
| "set_all st ((n, v) # nvs) mem =
     (let (r, mem) = Stat_set_name st n (word_of_int v) mem
      in if r \<noteq> 0 then (False, mem) else set_all st nvs mem)"

definition ranking_info :: "UnetPerfMonitor \<Rightarrow> (string \<times> int) list" where
  "ranking_info m =
     [(kUnetPid, pf_pid m), (kUnetRank, pf_rank m), (kUnetLocalRank, pf_local_rank m),
      (kUnetWorldSize, pf_world_size m), (kUnetLocalSize, pf_local_size m)]"

definition set_up_bw :: "perf_env \<Rightarrow> UnetPerfMonitor \<Rightarrow> perf_step" where
  "set_up_bw e m =
     (if pf_rank m < 0 then Inr m
      else
        let m = m\<lparr> pf_bw_offset := int (length bw_info_list) \<rparr>;
            (r, s) = StatsShm_init (pe_bw_shm e) (StatsShm_new ''_'' kUnetBwStats 1 (bw_counter_list (pf_world_size m)));
            m = m\<lparr> pf_shm_bw := Some s \<rparr>
        in if r \<noteq> 0 then give_up m
           else case allocStat s of
                  (r, Some st, s) \<Rightarrow>
                    if r \<noteq> 0 then give_up m
                    else let (good, mem) = set_all st (ranking_info m) (ss_mem s);
                             m = m\<lparr> pf_shm_bw := Some (s\<lparr> ss_mem := mem \<rparr>), pf_bw_stat := Some st \<rparr>
                         in if good then Inr m else give_up m
                | (_, None, s) \<Rightarrow> give_up (m\<lparr> pf_shm_bw := Some s \<rparr>))"

definition perf_init :: "perf_env \<Rightarrow> UnetPerfMonitor \<Rightarrow> int \<times> UnetPerfMonitor" where
  "perf_init e m =
     (case pf_state m of
        INITIALIZED \<Rightarrow> (0, m)
      | ERROR \<Rightarrow> (-1, m)
      | CREATED \<Rightarrow>
          (case and_then (and_then (take_lock e m) (set_up_ib e)) (set_up_bw e) of
             Inl m \<Rightarrow> (-1, m)
           | Inr m \<Rightarrow> (0, m\<lparr> pf_state := INITIALIZED \<rparr>)))"

text \<open>
  \<^verbatim>\<open>get_stat_\<close>: the one monitor of the process is made at the first call (\<open>None\<close> before it); every
  call tries to initialise it.
\<close>

definition get_stat :: "bool \<Rightarrow> perf_env \<Rightarrow> UnetPerfMonitor option \<Rightarrow> Stat option \<times> UnetPerfMonitor option" where
  "get_stat bw e mo =
     (let m = (case mo of None \<Rightarrow> UnetPerfMonitor_new e | Some m \<Rightarrow> m);
          (r, m) = perf_init e m
      in (if r \<noteq> 0 then None else if \<not> bw then pf_ib_stat m else pf_bw_stat m, Some m))"

definition getUnetIbStat :: "perf_env \<Rightarrow> UnetPerfMonitor option \<Rightarrow> Stat option \<times> UnetPerfMonitor option" where
  "getUnetIbStat = get_stat False"

definition getUnetBwStat :: "perf_env \<Rightarrow> UnetPerfMonitor option \<Rightarrow> Stat option \<times> UnetPerfMonitor option" where
  "getUnetBwStat = get_stat True"

text \<open>
  The destructor releases the counter objects, then the segments (whose destructor has no result
  when the segment was never mapped), and closes and removes the lock file.
\<close>

definition release_stat :: "Stat option \<Rightarrow> StatsShm option \<Rightarrow> StatsShm option" where
  "release_stat st shm =
     (case (st, shm) of (Some st, Some s) \<Rightarrow> Some (snd (freeStat st s)) | _ \<Rightarrow> shm)"

definition destroyed :: "StatsShm option \<Rightarrow> bool" where
  "destroyed shm = (case shm of None \<Rightarrow> True | Some s \<Rightarrow> StatsShm_destroy s \<noteq> None)"

definition UnetPerfMonitor_destroy :: "UnetPerfMonitor \<Rightarrow> UnetPerfMonitor option" where
  "UnetPerfMonitor_destroy m =
     (let bw = release_stat (pf_bw_stat m) (pf_shm_bw m);
          ib = release_stat (pf_ib_stat m) (pf_shm_ib m)
      in if \<not> destroyed bw \<or> \<not> destroyed ib then None
         else let m = m\<lparr> pf_bw_stat := None, pf_ib_stat := None, pf_shm_bw := None, pf_shm_ib := None \<rparr>;
                  m = (if 0 \<le> pf_lock_fd m
                       then m\<lparr> pf_lock_fd := -1,
                               pf_lock_calls := pf_lock_calls m @ [CloseLock (pf_lock_fd m), UnlinkLock (pf_lock_file m)] \<rparr>
                       else m)
              in Some (m\<lparr> pf_state := ERROR \<rparr>))"

section \<open>The names of the counters\<close>

lemma to_string_nat_inj [simp]: "to_string_nat a = to_string_nat b \<longleftrightarrow> a = b"
  by (metis parse_to_string_nat)

lemma length_rank_counters: "length (concat (map rank_counters [0..<n])) = 2 * n"
  by (induction n) (simp_all add: rank_counters_def)

lemma nth_rank_counters:
  "r < n \<Longrightarrow> concat (map rank_counters [0..<n]) ! (2 * r) = ''tx_rank'' @ to_string_nat r \<and>
     concat (map rank_counters [0..<n]) ! Suc (2 * r) = ''cpl_rank'' @ to_string_nat r"
proof (induction n)
  case (Suc n)
  let ?c = "concat (map rank_counters [0..<n])"
  have "concat (map rank_counters [0..<Suc n]) = ?c @ rank_counters n" "length ?c = 2 * n"
    by (simp_all add: length_rank_counters)
  then show ?case
    using Suc by (cases "r = n") (simp_all only: nth_append, simp_all add: rank_counters_def [of n] del: upt_Suc)
qed simp

lemma set_rank_counters:
  "set (concat (map rank_counters [0..<n])) = (\<lambda>i. ''tx_rank'' @ to_string_nat i) ` {..<n} \<union> (\<lambda>i. ''cpl_rank'' @ to_string_nat i) ` {..<n}"
  by (auto simp: rank_counters_def)

lemma distinct_rank_counters: "distinct (concat (map rank_counters [0..<n]))"
proof (induction n)
  case (Suc n)
  then show ?case by (auto simp: rank_counters_def)
qed simp

lemma length_bw_counter_list: "length (bw_counter_list w) = 5 + 2 * nat w"
  by (simp add: bw_counter_list_def bw_info_list_def length_rank_counters)

lemmas bw_info_names = bw_info_list_def kUnetPid_def kUnetRank_def kUnetLocalRank_def kUnetWorldSize_def kUnetLocalSize_def

lemma distinct_bw_counter_list: "distinct (bw_counter_list w)"
proof -
  have "distinct bw_info_list" by (simp add: bw_info_names)
  moreover have "set bw_info_list \<inter> set (concat (map rank_counters [0..<nat w])) = {}"
    unfolding set_rank_counters by (auto simp: bw_info_names)
  ultimately show ?thesis by (simp only: bw_counter_list_def distinct_append distinct_rank_counters)
qed

lemma distinct_ib_counter_list: "distinct ib_counter_list"
  by (simp add: ib_counter_list_def kUnetPid_def kUnetRank_def)

lemma nth_bw_counter_list:
  assumes "r < nat w"
  shows "bw_counter_list w ! (5 + 2 * r) = ''tx_rank'' @ to_string_nat r"
    "bw_counter_list w ! (6 + 2 * r) = ''cpl_rank'' @ to_string_nat r"
  using nth_rank_counters [OF assms]
  by (simp_all add: bw_counter_list_def bw_info_list_def numeral_eq_Suc nth_append)

section \<open>What initialisation leaves\<close>

lemma fresh_segment:
  assumes "StatsShm_init e (StatsShm_new i n 1 cl) = (0, s)"
  shows "allocStat s = (0, Some (Stat_new 0 0 0 cl),
      s\<lparr> ss_avail := [], ss_mem := replicate (length cl) 0, ss_group := [Stat_new 0 0 0 cl], ss_handles := 1 \<rparr>)"
    "ss_meta s \<noteq> None"
proof -
  show "ss_meta s \<noteq> None"
    using assms by (auto simp: StatsShm_init_def StatsShm_new_def create_shm_def Let_def split: if_splits option.splits)
  have s: "ss_state s = INITIALIZED" "ss_avail s = [0]" "ss_num_counters s = length cl" "ss_counter_list s = cl"
    "ss_mem s = replicate (length cl) 0" "ss_group s = []" "ss_handles s = 0"
    using assms by (auto simp: StatsShm_init_def StatsShm_new_def create_shm_def Let_def split: if_splits option.splits)
  have "Stat_clear (Stat_new 0 0 0 cl) (replicate (length cl) 0) = replicate (length cl) (0 :: u64)"
    by (rule nth_equalityI) (simp_all add: Stat_clear_def nth_clear_cells)
  then show "allocStat s = (0, Some (Stat_new 0 0 0 cl),
      s\<lparr> ss_avail := [], ss_mem := replicate (length cl) 0, ss_group := [Stat_new 0 0 0 cl], ss_handles := 1 \<rparr>)"
    using s by (simp add: allocStat_def Let_def)
qed

definition lives :: "string list \<Rightarrow> counters \<Rightarrow> StatsShm \<Rightarrow> bool" where
  "lives cl mem s \<longleftrightarrow> ss_meta s \<noteq> None \<and> ss_state s = INITIALIZED \<and> ss_group s = [Stat_new 0 0 0 cl] \<and> ss_mem s = mem"

lemma fresh_lives:
  assumes "StatsShm_init e (StatsShm_new i n 1 cl) = (0, s)"
  shows "lives cl mem (s\<lparr> ss_avail := av, ss_group := [Stat_new 0 0 0 cl], ss_handles := h, ss_mem := mem \<rparr>)"
  using fresh_segment(2) [OF assms] StatsShm_init_ok(1) [OF assms] by (simp add: lives_def wf_shm_def)

lemma take_lock_cases:
  assumes "take_lock e m = Inr m'"
  obtains fd calls where "m' = m\<lparr> pf_lock_fd := fd, pf_lock_calls := calls \<rparr>"
proof
  show "m' = m\<lparr> pf_lock_fd := pf_lock_fd m', pf_lock_calls := pf_lock_calls m' \<rparr>"
    using assms by (auto simp: take_lock_def give_up_def Let_def split: if_splits option.splits)
qed

definition fresh_ib_mem :: "UnetPerfMonitor \<Rightarrow> counters" where
  "fresh_ib_mem m = word_of_int (pf_pid m) # word_of_int (pf_rank m) # replicate 8 0"

definition fresh_bw_mem :: "UnetPerfMonitor \<Rightarrow> counters" where
  "fresh_bw_mem m = map (\<lambda>nv. word_of_int (snd nv)) (ranking_info m) @ replicate (2 * nat (pf_world_size m)) 0"

lemma set_up_ib_cases:
  assumes "set_up_ib e m = Inr m'"
  shows "\<exists>s. lives ib_counter_list (fresh_ib_mem m) s \<and> m' = m\<lparr> pf_shm_ib := Some s, pf_ib_stat := Some (Stat_new 0 0 0 ib_counter_list) \<rparr>"
proof -
  obtain r s where i: "StatsShm_init (pe_ib_shm e) (StatsShm_new ''_'' kUnetIbStats 1 ib_counter_list) = (r, s)" by force
  have r: "r = 0" using assms i by (auto simp: set_up_ib_def give_up_def Let_def split: if_splits)
  have mem: "Stat_set (Stat_new 0 0 0 ib_counter_list) UNET_RANK y
      (Stat_set (Stat_new 0 0 0 ib_counter_list) UNET_PID x (replicate (length ib_counter_list) 0)) = x # y # replicate 8 0" for x y
    by (simp add: Stat_set_def cell_def ib_counter_list_def numeral_eq_Suc)
  show ?thesis
    using assms fresh_segment(1) [OF i [unfolded r]] fresh_lives [OF i [unfolded r]] i r mem
    by (auto simp: set_up_ib_def Let_def fresh_ib_mem_def)
qed

text \<open>The five names are the first five counters, so all five calls succeed.\<close>

lemma set_all_first:
  assumes "distinct names" "map fst nvs @ rest = drop k names" "length xs = k"
  shows "set_all (Stat_new h i 0 names) nvs (xs @ replicate (length nvs) 0 @ ys) =
    (True, xs @ map (\<lambda>nv. word_of_int (snd nv)) nvs @ ys)"
  using assms(2,3)
proof (induction nvs arbitrary: xs k)
  case (Cons nv nvs)
  obtain n v where nv: "nv = (n, v)" by force
  have d: "drop k names = n # map fst nvs @ rest" using Cons.prems(1) nv by simp
  then have k: "k < length names" "names ! k = n" using nth_via_drop [OF d] by (auto simp: not_le [symmetric])
  have "st_by_name (Stat_new h i 0 names) n = Some k"
    using Stat_new_by_name [OF assms(1) k(1), of h i 0] k(2) by simp
  moreover have "map fst nvs @ rest = drop (Suc k) names" using d by (metis drop_Suc list.sel(3) tl_drop)
  ultimately show ?case
    using Cons.IH [of "Suc k" "xs @ [word_of_int v]"] Cons.prems(2)
    by (simp add: nv Stat_set_name_def list_update_append)
qed simp

lemma set_ranking_info:
  "set_all (Stat_new 0 0 0 (bw_counter_list (pf_world_size m))) (ranking_info m)
     (replicate (length (bw_counter_list (pf_world_size m))) 0) = (True, fresh_bw_mem m)"
proof -
  let ?names = "bw_counter_list (pf_world_size m)"
  have "map fst (ranking_info m) @ concat (map rank_counters [0..<nat (pf_world_size m)]) = drop 0 ?names"
    by (simp add: ranking_info_def bw_counter_list_def bw_info_list_def)
  note first = set_all_first [OF distinct_bw_counter_list this, of "[]" 0 0 "replicate (2 * nat (pf_world_size m)) 0"]
  have "replicate (length ?names) 0 = replicate (length (ranking_info m)) (0 :: u64) @ replicate (2 * nat (pf_world_size m)) 0"
    by (simp only: length_bw_counter_list replicate_add) (simp add: ranking_info_def numeral_eq_Suc)
  then show ?thesis using first by (simp add: fresh_bw_mem_def)
qed

lemma set_up_bw_cases:
  assumes "set_up_bw e m = Inr m'"
  shows "if pf_rank m < 0 then m' = m
    else \<exists>s. lives (bw_counter_list (pf_world_size m)) (fresh_bw_mem m) s \<and> m' = m\<lparr> pf_bw_offset := 5, pf_shm_bw := Some s,
      pf_bw_stat := Some (Stat_new 0 0 0 (bw_counter_list (pf_world_size m))) \<rparr>"
proof (cases "pf_rank m < 0")
  case True
  then show ?thesis using assms by (simp add: set_up_bw_def)
next
  case False
  let ?m = "m\<lparr> pf_bw_offset := 5 \<rparr>"
  obtain r s where i: "StatsShm_init (pe_bw_shm e) (StatsShm_new ''_'' kUnetBwStats 1 (bw_counter_list (pf_world_size m))) = (r, s)" by force
  have r: "r = 0" using assms i False by (auto simp: set_up_bw_def give_up_def Let_def split: if_splits)
  have inf: "ranking_info (m\<lparr> pf_bw_offset := x, pf_shm_bw := y \<rparr>) = ranking_info m" for x y
    by (simp add: ranking_info_def)
  show ?thesis
    using assms fresh_segment(1) [OF i [unfolded r]] fresh_lives [OF i [unfolded r]] i r False set_ranking_info [of m]
    by (auto simp: set_up_bw_def Let_def inf bw_info_list_def)
qed

lemma perf_init_success:
  assumes "perf_init e m = (0, m')" "pf_state m = CREATED"
  shows "\<exists>s. lives ib_counter_list (fresh_ib_mem m) s \<and> pf_shm_ib m' = Some s" "pf_ib_stat m' = Some (Stat_new 0 0 0 ib_counter_list)"
    "pf_state m' = INITIALIZED" "pf_rank m' = pf_rank m" "pf_world_size m' = pf_world_size m"
    "pf_rank m < 0 \<Longrightarrow> pf_bw_stat m' = pf_bw_stat m"
    "0 \<le> pf_rank m \<Longrightarrow> pf_bw_stat m' = Some (Stat_new 0 0 0 (bw_counter_list (pf_world_size m))) \<and> pf_bw_offset m' = 5 \<and>
       (\<exists>s. lives (bw_counter_list (pf_world_size m)) (fresh_bw_mem m) s \<and> pf_shm_bw m' = Some s)"
proof -
  obtain m1 m2 m3 where 1: "take_lock e m = Inr m1" and 2: "set_up_ib e m1 = Inr m2" and 3: "set_up_bw e m2 = Inr m3"
    and m': "m' = m3\<lparr> pf_state := INITIALIZED \<rparr>"
    using assms by (auto simp: perf_init_def and_then_def split: sum.splits)
  note e = set_up_ib_cases [OF 2] set_up_bw_cases [OF 3]
  obtain fd calls where m1: "m1 = m\<lparr> pf_lock_fd := fd, pf_lock_calls := calls \<rparr>" using take_lock_cases [OF 1] .
  then have f: "fresh_ib_mem m1 = fresh_ib_mem m" "pf_rank m1 = pf_rank m" "pf_world_size m1 = pf_world_size m"
    "pf_bw_stat m1 = pf_bw_stat m" "ranking_info m1 = ranking_info m"
    by (simp_all add: fresh_ib_mem_def ranking_info_def)
  obtain s where s: "lives ib_counter_list (fresh_ib_mem m1) s" and m2: "m2 = m1\<lparr> pf_shm_ib := Some s, pf_ib_stat := Some (Stat_new 0 0 0 ib_counter_list) \<rparr>"
    using e(1) by blast
  then have g: "pf_rank m2 = pf_rank m" "pf_world_size m2 = pf_world_size m" "pf_bw_stat m2 = pf_bw_stat m"
    "fresh_bw_mem m2 = fresh_bw_mem m"
    using f by (simp_all add: fresh_bw_mem_def ranking_info_def)
  show "\<exists>s. lives ib_counter_list (fresh_ib_mem m) s \<and> pf_shm_ib m' = Some s" "pf_ib_stat m' = Some (Stat_new 0 0 0 ib_counter_list)"
    "pf_state m' = INITIALIZED" "pf_rank m' = pf_rank m" "pf_world_size m' = pf_world_size m"
    "pf_rank m < 0 \<Longrightarrow> pf_bw_stat m' = pf_bw_stat m"
    "0 \<le> pf_rank m \<Longrightarrow> pf_bw_stat m' = Some (Stat_new 0 0 0 (bw_counter_list (pf_world_size m))) \<and> pf_bw_offset m' = 5 \<and>
       (\<exists>s. lives (bw_counter_list (pf_world_size m)) (fresh_bw_mem m) s \<and> pf_shm_bw m' = Some s)"
    using e(2) s m2 g f m' by (auto split: if_splits)
qed

section \<open>The object behind the two getters\<close>

lemma get_from_new:
  "pf_state (UnetPerfMonitor_new e) \<noteq> INITIALIZED" "pf_bw_stat (UnetPerfMonitor_new e) = None"
  "pf_lock_calls (UnetPerfMonitor_new e) = []"
  by (simp_all add: UnetPerfMonitor_new_def blank_monitor_def Let_def)

lemma new_success:
  assumes "perf_init e (UnetPerfMonitor_new e') = (0, m)"
  shows "pf_state (UnetPerfMonitor_new e') = CREATED"
  using assms get_from_new(1) [of e'] by (cases "pf_state (UnetPerfMonitor_new e')") (simp_all add: perf_init_def)

lemma perf_init_settles:
  assumes "perf_init e m = (r, m')"
  shows "pf_state m' \<noteq> CREATED" "r = 0 \<longleftrightarrow> pf_state m' = INITIALIZED"
proof -
  have lock: "pf_state x = ERROR" if "take_lock e m = Inl x" for x
    using that by (auto simp: take_lock_def give_up_def Let_def split: if_splits option.splits)
  have ib: "pf_state x = ERROR" if "set_up_ib e y = Inl x" for x y
    using that by (auto simp: set_up_ib_def give_up_def Let_def split: if_splits option.splits prod.splits)
  have bw: "pf_state x = ERROR" if "set_up_bw e y = Inl x" for x y
    using that by (auto simp: set_up_bw_def give_up_def Let_def split: if_splits option.splits prod.splits)
  show "pf_state m' \<noteq> CREATED" "r = 0 \<longleftrightarrow> pf_state m' = INITIALIZED"
    using assms lock ib bw by (auto simp: perf_init_def and_then_def split: shm_state.splits sum.splits)
qed

text \<open>A sequence of calls of the getters, from any threads, in the order the mutex gives them.\<close>

fun get_stats :: "(bool \<times> perf_env) list \<Rightarrow> UnetPerfMonitor option \<Rightarrow> Stat option list \<times> UnetPerfMonitor option" where
  "get_stats [] mo = ([], mo)"
| "get_stats ((bw, e) # cs) mo =
     (let (st, mo) = get_stat bw e mo; (sts, mo) = get_stats cs mo in (st # sts, mo))"

definition held_stat :: "UnetPerfMonitor \<Rightarrow> bool \<Rightarrow> Stat option" where
  "held_stat m bw = (if pf_state m \<noteq> INITIALIZED then None else if \<not> bw then pf_ib_stat m else pf_bw_stat m)"

lemma get_stat_settled: "pf_state m \<noteq> CREATED \<Longrightarrow> get_stat bw e (Some m) = (held_stat m bw, Some m)"
  by (cases "pf_state m") (simp_all add: get_stat_def perf_init_def held_stat_def)

text \<open>
  The monitor is initialised once: after the first call of a getter, whatever it found, every later sequence of calls leaves the
  monitor as it is and is answered from it: the same two objects each time when the first call succeeded, null when it failed.
\<close>
theorem perf_initialised_once:
  assumes "get_stat bw e None = (st, mo)"
  shows "\<exists>m. mo = Some m \<and> st = held_stat m bw \<and> get_stats calls mo = (map (\<lambda>c. held_stat m (fst c)) calls, mo)"
proof -
  obtain r m where i: "perf_init e (UnetPerfMonitor_new e) = (r, m)" by force
  have n: "pf_state m \<noteq> CREATED" using perf_init_settles(1) [OF i] .
  have "get_stats calls (Some m) = (map (\<lambda>c. held_stat m (fst c)) calls, Some m)"
    by (induction calls) (auto simp: get_stat_settled [OF n])
  moreover have "st = held_stat m bw"
    using assms i perf_init_settles(2) [OF i] by (auto simp: get_stat_def held_stat_def)
  ultimately show ?thesis using assms i by (auto simp: get_stat_def)
qed

section \<open>An example\<close>

definition example_shm_env :: shm_env where
  "example_shm_env = \<lparr> se_pid = 7, se_this = ''0x1'', se_time = ''100'', se_open = True, se_stat = Some 0,
     se_ftruncate = True, se_mmap = Some 4096 \<rparr>"

definition example_perf_env :: "errno option \<Rightarrow> perf_env" where
  "example_perf_env lock =
     \<lparr> pe_getenv = map_of [(''RANK'', ''1''), (''OMPI_COMM_WORLD_RANK'', ''5''), (''WORLD_SIZE'', ''2'')], pe_pid = 7,
       pe_files = (\<lambda>p. if p = ''/proc/7/comm'' then Some (''app'' @ [newline]) else None), pe_short_name = ''x'', pe_open = 3,
       pe_flock = lock, pe_ib_shm = example_shm_env, pe_bw_shm = example_shm_env \<rparr>"

text \<open>With a working shared memory and an openable lock file the initialisation succeeds, the lock taken or not.\<close>

definition shm_works :: "shm_env \<Rightarrow> bool" where
  "shm_works e \<longleftrightarrow> se_open e \<and> se_stat e \<noteq> None \<and> se_ftruncate e \<and> (case se_mmap e of None \<Rightarrow> False | Some a \<Rightarrow> a mod 8 = 0)"

lemma StatsShm_init_works:
  assumes "shm_works e"
  shows "\<exists>s. StatsShm_init e (StatsShm_new i n num cl) = (0, s)"
proof -
  obtain a where a: "se_mmap e = Some a" "a mod 8 = 0" using assms by (auto simp: shm_works_def split: option.splits)
  have "(a + sizeof_Meta + sizeof_Desc * k) mod 8 = 0" for k
    using a(2) by (simp add: sizeof_Meta_def sizeof_Desc_def mod_eq_0_iff_dvd)
  then show ?thesis
    using assms a by (auto simp: shm_works_def StatsShm_init_def StatsShm_new_def create_shm_def Let_def)
qed

lemma perf_init_works:
  assumes "\<not> switched_off (pe_getenv e ''SICL_UCOMMD_STATS_DISABLE'')" "pe_open e \<noteq> -1"
    "pe_flock e = None \<or> pe_flock e = Some EWOULDBLOCK" "shm_works (pe_ib_shm e)" "shm_works (pe_bw_shm e)"
  shows "\<exists>m. perf_init e (UnetPerfMonitor_new e) = (0, m)"
proof -
  have c: "pf_state (UnetPerfMonitor_new e) = CREATED"
    using assms(1) by (simp add: UnetPerfMonitor_new_def blank_monitor_def Let_def)
  have "\<exists>m'. take_lock e m = Inr m'" for m
    using assms(2,3) by (auto simp: take_lock_def Let_def)
  moreover have "\<exists>m'. set_up_ib e m = Inr m'" for m
  proof -
    obtain s where s: "StatsShm_init (pe_ib_shm e) (StatsShm_new ''_'' kUnetIbStats 1 ib_counter_list) = (0, s)"
      using StatsShm_init_works [OF assms(4)] by blast
    show ?thesis using s fresh_segment(1) [OF s] by (simp add: set_up_ib_def Let_def)
  qed
  moreover have "\<exists>m'. set_up_bw e m = Inr m'" for m
  proof -
    obtain s where s: "StatsShm_init (pe_bw_shm e) (StatsShm_new ''_'' kUnetBwStats 1 (bw_counter_list (pf_world_size m))) = (0, s)"
      using StatsShm_init_works [OF assms(5)] by blast
    have "ranking_info (m\<lparr> pf_bw_offset := x, pf_shm_bw := y \<rparr>) = ranking_info m" for x y
      by (simp add: ranking_info_def)
    then show ?thesis
      using s fresh_segment(1) [OF s] set_ranking_info [of m] by (simp add: set_up_bw_def Let_def)
  qed
  ultimately show ?thesis using c by (simp add: perf_init_def and_then_def) (metis sum.case(2))
qed

lemma example_perf_init:
  assumes "lock = None \<or> lock = Some EWOULDBLOCK"
  shows "\<exists>m. perf_init (example_perf_env lock) (UnetPerfMonitor_new (example_perf_env lock)) = (0, m)"
  by (rule perf_init_works)
    (use assms in \<open>simp_all add: example_perf_env_def switched_off_def shm_works_def example_shm_env_def\<close>)

lemma example_monitor:
  "pf_rank (UnetPerfMonitor_new (example_perf_env l)) = 1" "pf_world_size (UnetPerfMonitor_new (example_perf_env l)) = 2"
  "pf_lock_file (UnetPerfMonitor_new (example_perf_env l)) = ''/dev/shm/.ucommd_lock.app.7''"
  by code_simp+

theorem perf_initialised_once_witness:
  "\<exists>st m. get_stat False (example_perf_env None) None = (st, Some m) \<and> st \<noteq> None \<and>
     get_stats [(True, example_perf_env None), (False, example_perf_env None)] (Some m) = ([pf_bw_stat m, st], Some m)"
proof -
  let ?e = "example_perf_env None"
  obtain st mo where g: "get_stat False ?e None = (st, mo)" by force
  obtain m where i: "perf_init ?e (UnetPerfMonitor_new ?e) = (0, m)" using example_perf_init by blast
  have m: "mo = Some m" "st = pf_ib_stat m" using g i by (simp_all add: get_stat_def)
  have "pf_state m = INITIALIZED" "st \<noteq> None"
    using perf_init_success(2,3) [OF i new_success [OF i]] m by simp_all
  then show ?thesis
    using perf_initialised_once [OF g, of "[(True, ?e), (False, ?e)]"] m g by (auto simp: held_stat_def)
qed

section \<open>The counters of the ranks\<close>

lemma bw_stat_facts:
  assumes "perf_init e (UnetPerfMonitor_new e') = (0, m)" "0 \<le> pf_rank m" "pm_bwOffset pm = pf_bw_offset m"
  shows "pf_bw_stat m = Some (Stat_new 0 0 0 (bw_counter_list (pf_world_size m)))" "pm_bwOffset pm = 5"
    "\<exists>s. pf_shm_bw m = Some s \<and> length (ss_mem s) = 5 + 2 * nat (pf_world_size m)"
proof -
  note c = new_success [OF assms(1)]
  note s = perf_init_success [OF assms(1) c]
  show "pf_bw_stat m = Some (Stat_new 0 0 0 (bw_counter_list (pf_world_size m)))" "pm_bwOffset pm = 5"
    using s(4,5,7) assms(2,3) by auto
  show "\<exists>s. pf_shm_bw m = Some s \<and> length (ss_mem s) = 5 + 2 * nat (pf_world_size m)"
    using s(4,5,7) assms(2) by (auto simp: lives_def fresh_bw_mem_def ranking_info_def)
qed

text \<open>
  C28: After a successful initialisation in a process with a rank, the two index functions and the counter names agree for every rank
  of the job: \<open>UNET_BW_POST_BYTES_BY_RANK\<close> and \<open>UNET_BW_CPL_BYTES_BY_RANK\<close> give cells inside the segment, the ones
  named \<open>tx_rank<r>\<close> and \<open>cpl_rank<r>\<close>, so that adding by index is adding by name; no two of these cells coincide.
\<close>
theorem perf_rank_counters:
  assumes "perf_init e (UnetPerfMonitor_new e') = (0, m)" "0 \<le> pf_rank m" "pm_bwOffset pm = pf_bw_offset m"
    and "int r < pf_world_size m"
  shows "\<exists>bw shm. pf_bw_stat m = Some bw \<and> pf_shm_bw m = Some shm \<and>
     cell bw (UNET_BW_POST_BYTES_BY_RANK pm (int r)) < length (ss_mem shm) \<and>
     cell bw (UNET_BW_CPL_BYTES_BY_RANK pm (int r)) < length (ss_mem shm) \<and>
     (\<forall>v mem. Stat_add_name bw (''tx_rank'' @ to_string_nat r) v mem = (0, Stat_add bw (UNET_BW_POST_BYTES_BY_RANK pm (int r)) v mem) \<and>
        Stat_add_name bw (''cpl_rank'' @ to_string_nat r) v mem = (0, Stat_add bw (UNET_BW_CPL_BYTES_BY_RANK pm (int r)) v mem)) \<and>
     cell bw (UNET_BW_POST_BYTES_BY_RANK pm (int r)) \<noteq> cell bw (UNET_BW_CPL_BYTES_BY_RANK pm (int r))"
proof -
  note f = bw_stat_facts [OF assms(1-3)]
  let ?names = "bw_counter_list (pf_world_size m)"
  let ?bw = "Stat_new 0 0 0 ?names"
  have r: "r < nat (pf_world_size m)" using assms(4) by simp
  have c: "cell ?bw (UNET_BW_POST_BYTES_BY_RANK pm (int r)) = 5 + 2 * r" "cell ?bw (UNET_BW_CPL_BYTES_BY_RANK pm (int r)) = 6 + 2 * r"
    by (simp_all add: cell_def UNET_BW_POST_BYTES_BY_RANK_def UNET_BW_CPL_BYTES_BY_RANK_def f(2) nat_add_distrib nat_mult_distrib)
  have n: "st_by_name ?bw (''tx_rank'' @ to_string_nat r) = Some (5 + 2 * r)" "st_by_name ?bw (''cpl_rank'' @ to_string_nat r) = Some (6 + 2 * r)"
    using Stat_new_by_name [OF distinct_bw_counter_list, of "5 + 2 * r" "pf_world_size m" 0 0 0]
      Stat_new_by_name [OF distinct_bw_counter_list, of "6 + 2 * r" "pf_world_size m" 0 0 0] r
    by (simp_all add: nth_bw_counter_list [OF r] length_bw_counter_list)
  show ?thesis using f(1,3) c n r by (auto simp: Stat_add_name_def Stat_add_def)
qed

theorem perf_rank_counters_witness:
  "\<exists>m bw. perf_init (example_perf_env None) (UnetPerfMonitor_new (example_perf_env None)) = (0, m) \<and> pf_bw_stat m = Some bw \<and>
     Stat_add_name bw ''cpl_rank1'' 9 [0, 0, 0, 0, 0, 0, 0, 0, 0] = (0, [0, 0, 0, 0, 0, 0, 0, 0, 9])"
proof -
  let ?e = "example_perf_env None" and ?pm = "\<lparr> pm_splitDataOnQps = False, pm_arThreshold = 0, pm_asyncEvents = False, pm_bwOffset = 5 \<rparr>"
  obtain m where i: "perf_init ?e (UnetPerfMonitor_new ?e) = (0, m)" using example_perf_init by blast
  note s = perf_init_success [OF i new_success [OF i]]
  have r: "pf_rank m = 1" "pf_world_size m = 2" "pf_bw_offset m = 5" using s(4,5,7) by (simp_all add: example_monitor)
  then obtain bw where bw: "pf_bw_stat m = Some bw"
    "Stat_add_name bw (''cpl_rank'' @ to_string_nat 1) 9 [0, 0, 0, 0, 0, 0, 0, 0, 0] =
       (0, Stat_add bw (UNET_BW_CPL_BYTES_BY_RANK ?pm 1) 9 [0, 0, 0, 0, 0, 0, 0, 0, 0])"
    using perf_rank_counters [OF i, of ?pm 1] by auto
  have "st_base bw = 0" using bw(1) s(7) r by (auto simp: example_monitor)
  moreover have "to_string_nat 1 = ''1''" by code_simp
  ultimately show ?thesis
    using i bw by (auto simp: Stat_add_def cell_def UNET_BW_CPL_BYTES_BY_RANK_def counter_add_def)
qed

text \<open>
  Ranks from outside the job are not caught: the bytes completed for a peer that reports the rank -1 (it has none) are added to the counter
  named \<open>local_size\<close>, and those for a rank at or above the size of the job, or for any rank when the size is unknown, to a cell
  outside the segment.
\<close>
theorem perf_foreign_ranks:
  assumes "perf_init e (UnetPerfMonitor_new e') = (0, m)" "0 \<le> pf_rank m" "pm_bwOffset pm = pf_bw_offset m"
  shows "\<exists>bw shm. pf_bw_stat m = Some bw \<and> pf_shm_bw m = Some shm \<and>
     (\<forall>v mem. Stat_add_name bw ''local_size'' v mem = (0, Stat_add bw (UNET_BW_CPL_BYTES_BY_RANK pm (-1)) v mem)) \<and>
     (\<forall>r. length (ss_mem shm) \<le> cell bw (UNET_BW_CPL_BYTES_BY_RANK pm (int r)) \<longleftrightarrow> pf_world_size m \<le> int r)"
proof -
  note f = bw_stat_facts [OF assms]
  let ?names = "bw_counter_list (pf_world_size m)"
  let ?bw = "Stat_new 0 0 0 ?names"
  have c: "cell ?bw (UNET_BW_CPL_BYTES_BY_RANK pm (int r)) = 6 + 2 * r" for r
    by (simp add: cell_def UNET_BW_CPL_BYTES_BY_RANK_def f(2) nat_add_distrib nat_mult_distrib)
  have l: "cell ?bw (UNET_BW_CPL_BYTES_BY_RANK pm (-1)) = 4"
    by (simp add: cell_def UNET_BW_CPL_BYTES_BY_RANK_def f(2))
  have "?names ! 4 = ''local_size''"
    by (simp add: bw_counter_list_def bw_info_names numeral_eq_Suc)
  then have n: "st_by_name ?bw ''local_size'' = Some 4"
    using Stat_new_by_name [OF distinct_bw_counter_list, of 4 "pf_world_size m" 0 0 0] by (simp add: length_bw_counter_list)
  have "5 + 2 * nat w \<le> 6 + 2 * r \<longleftrightarrow> w \<le> int r" for w r by arith
  then show ?thesis using f(1,3) c l n by (auto simp: Stat_add_name_def Stat_add_def)
qed

theorem perf_foreign_ranks_witness:
  "\<exists>m bw. perf_init (example_perf_env None) (UnetPerfMonitor_new (example_perf_env None)) = (0, m) \<and> pf_bw_stat m = Some bw \<and>
     Stat_add_name bw ''local_size'' 9 [0, 0, 0, 0, 1, 0, 0, 0, 0] = (0, [0, 0, 0, 0, 10, 0, 0, 0, 0])"
proof -
  let ?e = "example_perf_env None" and ?pm = "\<lparr> pm_splitDataOnQps = False, pm_arThreshold = 0, pm_asyncEvents = False, pm_bwOffset = 5 \<rparr>"
  obtain m where i: "perf_init ?e (UnetPerfMonitor_new ?e) = (0, m)" using example_perf_init by blast
  note s = perf_init_success [OF i new_success [OF i]]
  have r: "pf_rank m = 1" "pf_world_size m = 2" "pf_bw_offset m = 5" using s(4,5,7) by (simp_all add: example_monitor)
  then obtain bw where bw: "pf_bw_stat m = Some bw"
    "Stat_add_name bw ''local_size'' 9 [0, 0, 0, 0, 1, 0, 0, 0, 0] =
       (0, Stat_add bw (UNET_BW_CPL_BYTES_BY_RANK ?pm (-1)) 9 [0, 0, 0, 0, 1, 0, 0, 0, 0])"
    using perf_foreign_ranks [OF i, of ?pm] by auto
  have "st_base bw = 0" using bw(1) s(7) r by (auto simp: example_monitor)
  then show ?thesis
    using i bw by (auto simp: Stat_add_def cell_def UNET_BW_CPL_BYTES_BY_RANK_def counter_add_def)
qed

section \<open>The lock file\<close>

text \<open>
  When the lock is held by another process the monitor goes on with a descriptor it has closed: if it can be destroyed at the end, the
  same number is closed twice, whatever file it stands for by then, and the other process's lock file is removed; with the lock taken it is
  closed once.
\<close>
theorem perf_lock_closed:
  assumes "perf_init e (UnetPerfMonitor_new e) = (0, m)" "0 \<le> pe_open e"
  shows "\<exists>m'. UnetPerfMonitor_destroy m = Some m' \<and>
     pf_lock_calls m' = OpenLock (pf_lock_file m) (pe_open e) #
       (if pe_flock e = None then [] else [CloseLock (pe_open e)]) @ [CloseLock (pe_open e), UnlinkLock (pf_lock_file m)]"
proof -
  note c = new_success [OF assms(1)]
  note s = perf_init_success [OF assms(1) c]
  let ?m0 = "UnetPerfMonitor_new e"
  obtain m1 m2 m3 where 1: "take_lock e ?m0 = Inr m1" and 2: "set_up_ib e m1 = Inr m2" and 3: "set_up_bw e m2 = Inr m3"
    and m: "m = m3\<lparr> pf_state := INITIALIZED \<rparr>"
    using assms(1) c by (auto simp: perf_init_def and_then_def split: sum.splits)
  have 1: "pf_lock_fd m1 = pe_open e" "pf_lock_file m1 = pf_lock_file ?m0"
    "pf_lock_calls m1 = OpenLock (pf_lock_file ?m0) (pe_open e) # (if pe_flock e = None then [] else [CloseLock (pe_open e)])"
    using 1 get_from_new(3) [of e] by (auto simp: take_lock_def give_up_def Let_def split: if_splits option.splits)
  have l: "pf_lock_fd m = pe_open e" "pf_lock_file m = pf_lock_file ?m0" "pf_lock_calls m = pf_lock_calls m1"
    using set_up_ib_cases [OF 2] set_up_bw_cases [OF 3] 1 m by (auto split: if_splits)
  have lives: "destroyed (release_stat st (Some s))" if "lives cl mem s" for st cl mem s
    using that by (auto simp: lives_def destroyed_def release_stat_def freeStat_def StatsShm_destroy_def split: option.splits)
  have bw: "pf_shm_bw m = None" if "pf_rank ?m0 < 0"
  proof -
    have "pf_shm_bw ?m0 = None" by (simp add: UnetPerfMonitor_new_def blank_monitor_def Let_def)
    moreover obtain fd calls where "m1 = ?m0\<lparr> pf_lock_fd := fd, pf_lock_calls := calls \<rparr>"
      using take_lock_cases [OF \<open>take_lock e ?m0 = Inr m1\<close>] .
    ultimately have "pf_shm_bw m1 = None" "pf_rank m1 = pf_rank ?m0" by simp_all
    moreover have "pf_shm_bw m2 = pf_shm_bw m1" "pf_rank m2 = pf_rank m1"
      using set_up_ib_cases [OF 2] by auto
    ultimately show ?thesis using that set_up_bw_cases [OF 3] m by simp
  qed
  have "destroyed (release_stat (pf_bw_stat m) (pf_shm_bw m))"
  proof (cases "pf_rank ?m0 < 0")
    case True
    then show ?thesis using bw by (auto simp: destroyed_def release_stat_def split: option.splits)
  next
    case False
    then show ?thesis using s(7) lives by auto
  qed
  moreover have "destroyed (release_stat (pf_ib_stat m) (pf_shm_ib m))" using s(1) lives by auto
  ultimately show ?thesis using l 1 assms(2) by (auto simp: UnetPerfMonitor_destroy_def Let_def)
qed

theorem perf_lock_closed_witness:
  "\<exists>m m'. perf_init (example_perf_env (Some EWOULDBLOCK)) (UnetPerfMonitor_new (example_perf_env (Some EWOULDBLOCK))) = (0, m) \<and>
     UnetPerfMonitor_destroy m = Some m' \<and>
     pf_lock_calls m' = [OpenLock (pf_lock_file m) 3, CloseLock 3, CloseLock 3, UnlinkLock (pf_lock_file m)]"
proof -
  let ?e = "example_perf_env (Some EWOULDBLOCK)"
  obtain m where i: "perf_init ?e (UnetPerfMonitor_new ?e) = (0, m)" using example_perf_init by blast
  show ?thesis using i perf_lock_closed [OF i] by (auto simp: example_perf_env_def)
qed

end
