(* ===== verification/IbvWrap.thy ===== *)
theory IbvWrap
  imports IbClose
begin

text \<open>
  The wrappers of the verbs library, \<^verbatim>\<open>src/unet/ibvwrap.cc\<close> and the inline ones of
  \<^verbatim>\<open>src/include/nccl/ibvwrap.h\<close>: each turns the library's own way of reporting a failure (a null
  pointer, -1, an error number) into a return code. What the library returns is an argument. The calls of a
  communicator's setup are put together to the library that \<^verbatim>\<open>unet_ib.cc\<close> sees.
\<close>

section \<open>The macros\<close>

text \<open>A pointer is a number, zero the null one; it is stored whatever the result.\<close>

definition IBV_PTR_CHECK :: "nat \<Rightarrow> nat \<Rightarrow> ncclResult \<times> nat" where
  "IBV_PTR_CHECK retval error_retval = (if retval = error_retval then ncclSystemError else ncclSuccess, retval)"

definition IBV_PTR_CHECK_ERRNO :: "nat \<Rightarrow> nat \<Rightarrow> ncclResult \<times> nat" where
  "IBV_PTR_CHECK_ERRNO retval error_retval = (if retval = error_retval then ncclSystemError else ncclSuccess, retval)"

text \<open>\<open>ENOTSUP\<close> and \<open>EOPNOTSUPP\<close> are one number on Linux. The second component is the flag \<^verbatim>\<open>supported\<close>.\<close>

abbreviation (input) lib_ENOTSUP :: int where "lib_ENOTSUP \<equiv> 95"
abbreviation (input) lib_EOPNOTSUPP :: int where "lib_EOPNOTSUPP \<equiv> 95"

definition IBV_INT_CHECK_RET_ERRNO_OPTIONAL :: "int \<Rightarrow> int \<Rightarrow> ncclResult \<times> nat" where
  "IBV_INT_CHECK_RET_ERRNO_OPTIONAL r success_retval =
     (if r = lib_ENOTSUP \<or> r = lib_EOPNOTSUPP then (ncclSuccess, 0)
      else if r \<noteq> success_retval then (ncclSystemError, 1)
      else (ncclSuccess, 1))"

definition IBV_INT_CHECK_RET_ERRNO :: "int \<Rightarrow> int \<Rightarrow> ncclResult" where
  "IBV_INT_CHECK_RET_ERRNO r success_retval = (if r \<noteq> success_retval then ncclSystemError else ncclSuccess)"

definition IBV_INT_CHECK :: "int \<Rightarrow> int \<Rightarrow> ncclResult" where
  "IBV_INT_CHECK r error_retval = (if r = error_retval then ncclSystemError else ncclSuccess)"

definition IBV_PASSTHRU :: "unit \<Rightarrow> ncclResult" where
  "IBV_PASSTHRU call = ncclSuccess"


section \<open>The wrappers\<close>

text \<open>Devices.\<close>

definition wrap_ibv_fork_init :: "int \<Rightarrow> ncclResult" where
  "wrap_ibv_fork_init r = IBV_INT_CHECK r (-1)"

definition wrap_ibv_get_device_list :: "nat \<Rightarrow> int \<Rightarrow> ncclResult \<times> nat \<times> int" where
  "wrap_ibv_get_device_list list num = (ncclSuccess, list, if list = 0 then 0 else num)"

definition wrap_ibv_free_device_list :: "ncclResult" where
  "wrap_ibv_free_device_list = IBV_PASSTHRU ()"

definition wrap_ibv_get_device_name :: "string \<Rightarrow> string" where
  "wrap_ibv_get_device_name name = name"

definition wrap_ibv_open_device :: "nat \<Rightarrow> ncclResult \<times> nat" where
  "wrap_ibv_open_device p = IBV_PTR_CHECK p 0"

definition wrap_ibv_close_device :: "int \<Rightarrow> ncclResult" where
  "wrap_ibv_close_device r = IBV_INT_CHECK r (-1)"

definition wrap_ibv_get_async_event :: "int \<Rightarrow> ncclResult" where
  "wrap_ibv_get_async_event r = IBV_INT_CHECK r (-1)"

definition wrap_ibv_ack_async_event :: "ncclResult" where
  "wrap_ibv_ack_async_event = IBV_PASSTHRU ()"

definition wrap_ibv_query_device :: "int \<Rightarrow> ncclResult" where
  "wrap_ibv_query_device r = IBV_INT_CHECK_RET_ERRNO r 0"

definition wrap_ibv_query_port :: "int \<Rightarrow> ncclResult" where
  "wrap_ibv_query_port r = IBV_INT_CHECK_RET_ERRNO r 0"

definition wrap_ibv_query_gid :: "int \<Rightarrow> ncclResult" where
  "wrap_ibv_query_gid r = IBV_INT_CHECK_RET_ERRNO r 0"

definition wrap_ibv_query_qp :: "int \<Rightarrow> ncclResult" where
  "wrap_ibv_query_qp r = IBV_INT_CHECK_RET_ERRNO r 0"

text \<open>Protection domains, memory regions, completion queues and queue pairs.\<close>

definition wrap_ibv_alloc_pd :: "nat \<Rightarrow> ncclResult \<times> nat" where
  "wrap_ibv_alloc_pd p = IBV_PTR_CHECK p 0"

definition wrap_ibv_dealloc_pd :: "int \<Rightarrow> ncclResult" where
  "wrap_ibv_dealloc_pd r = IBV_INT_CHECK_RET_ERRNO r 0"

definition wrap_ibv_reg_mr :: "nat \<Rightarrow> ncclResult \<times> nat" where
  "wrap_ibv_reg_mr p = IBV_PTR_CHECK p 0"

definition wrap_direct_ibv_reg_mr :: "nat \<Rightarrow> nat" where
  "wrap_direct_ibv_reg_mr p = p"

definition wrap_ibv_reg_mr_iova2 :: "nat \<Rightarrow> ncclResult \<times> nat" where
  "wrap_ibv_reg_mr_iova2 p = IBV_PTR_CHECK p 0"

definition wrap_ibv_reg_dmabuf_mr :: "nat \<Rightarrow> ncclResult \<times> nat" where
  "wrap_ibv_reg_dmabuf_mr p = IBV_PTR_CHECK_ERRNO p 0"

definition wrap_direct_ibv_reg_dmabuf_mr :: "nat \<Rightarrow> nat" where
  "wrap_direct_ibv_reg_dmabuf_mr p = p"

definition wrap_ibv_dereg_mr :: "int \<Rightarrow> ncclResult" where
  "wrap_ibv_dereg_mr r = IBV_INT_CHECK_RET_ERRNO r 0"

definition wrap_ibv_create_cq :: "nat \<Rightarrow> ncclResult \<times> nat" where
  "wrap_ibv_create_cq p = IBV_PTR_CHECK_ERRNO p 0"

definition wrap_ibv_destroy_cq :: "int \<Rightarrow> ncclResult" where
  "wrap_ibv_destroy_cq r = IBV_INT_CHECK_RET_ERRNO r 0"

definition wrap_ibv_destroy_qp :: "int \<Rightarrow> ncclResult" where
  "wrap_ibv_destroy_qp r = IBV_INT_CHECK_RET_ERRNO r 0"

definition wrap_ibv_create_qp :: "nat \<Rightarrow> ncclResult \<times> nat" where
  "wrap_ibv_create_qp p = IBV_PTR_CHECK_ERRNO p 0"

definition wrap_ibv_modify_qp :: "int \<Rightarrow> ncclResult" where
  "wrap_ibv_modify_qp r = IBV_INT_CHECK_RET_ERRNO r 0"

definition wrap_ibv_query_ece :: "int \<Rightarrow> ncclResult \<times> nat" where
  "wrap_ibv_query_ece r = IBV_INT_CHECK_RET_ERRNO_OPTIONAL r 0"

definition wrap_ibv_set_ece :: "int \<Rightarrow> ncclResult \<times> nat" where
  "wrap_ibv_set_ece r = IBV_INT_CHECK_RET_ERRNO_OPTIONAL r 0"

text \<open>Transfers: the number of completions polled is stored only when it is not negative.\<close>

definition wrap_ibv_poll_cq :: "int \<Rightarrow> ncclResult \<times> int option" where
  "wrap_ibv_poll_cq n = (if n < 0 then (ncclSystemError, None) else (ncclSuccess, Some n))"

definition wrap_ibv_post_send :: "int \<Rightarrow> ncclResult" where
  "wrap_ibv_post_send r = (if r \<noteq> 0 then ncclSystemError else ncclSuccess)"

definition wrap_ibv_post_recv :: "int \<Rightarrow> ncclResult" where
  "wrap_ibv_post_recv r = (if r \<noteq> 0 then ncclSystemError else ncclSuccess)"

definition wrap_ibv_event_type_str :: "string \<Rightarrow> ncclResult \<times> string" where
  "wrap_ibv_event_type_str s = (ncclSuccess, s)"


section \<open>The library behind the wrappers\<close>

text \<open>What the functions of the library return, given the calls so far: those that give an object, and those that give a number.\<close>

record libibverbs =
  lib_ptr :: "vcall list \<Rightarrow> vcall \<Rightarrow> nat"
  lib_int :: "vcall list \<Rightarrow> vcall \<Rightarrow> int"

text \<open>
  The wrapper each call of a setup goes through. This is no function of the program: it puts the wrappers together to the library that the
  model of \<^verbatim>\<open>unet_ib.cc\<close> has as a parameter.
\<close>

definition wrapped_call :: "libibverbs \<Rightarrow> vcall list \<Rightarrow> vcall \<Rightarrow> ncclResult \<times> nat" where
  "wrapped_call L tr c =
     (case c of
        AllocPd _ \<Rightarrow> wrap_ibv_alloc_pd (lib_ptr L tr c)
      | DeallocPd _ _ \<Rightarrow> (wrap_ibv_dealloc_pd (lib_int L tr c), 0)
      | CreateCq _ _ \<Rightarrow> wrap_ibv_create_cq (lib_ptr L tr c)
      | DestroyCq _ \<Rightarrow> (wrap_ibv_destroy_cq (lib_int L tr c), 0)
      | CreateQp _ _ _ _ _ \<Rightarrow> wrap_ibv_create_qp (lib_ptr L tr c)
      | DestroyQp _ \<Rightarrow> (wrap_ibv_destroy_qp (lib_int L tr c), 0)
      | ModifyQp _ _ \<Rightarrow> (wrap_ibv_modify_qp (lib_int L tr c), 0)
      | QueryEce _ \<Rightarrow> wrap_ibv_query_ece (lib_int L tr c)
      | SetEce _ _ \<Rightarrow> wrap_ibv_set_ece (lib_int L tr c)
      | RegSetup _ _ \<Rightarrow> wrap_ibv_reg_mr (lib_ptr L tr c)
      | DeregSetup _ \<Rightarrow> (wrap_ibv_dereg_mr (lib_int L tr c), 0)
      | ProbeDmabuf _ \<Rightarrow> (ncclSuccess, wrap_direct_ibv_reg_dmabuf_mr (lib_ptr L tr c)))"

text \<open>The documented meaning of the answers: an object or null; zero or an error number.\<close>

definition lib_ok :: "libibverbs \<Rightarrow> vcall list \<Rightarrow> vcall \<Rightarrow> bool" where
  "lib_ok L tr c =
     (case c of
        AllocPd _ \<Rightarrow> lib_ptr L tr c \<noteq> 0
      | CreateCq _ _ \<Rightarrow> lib_ptr L tr c \<noteq> 0
      | CreateQp _ _ _ _ _ \<Rightarrow> lib_ptr L tr c \<noteq> 0
      | RegSetup _ _ \<Rightarrow> lib_ptr L tr c \<noteq> 0
      | QueryEce _ \<Rightarrow> lib_int L tr c \<in> {0, lib_ENOTSUP}
      | SetEce _ _ \<Rightarrow> lib_int L tr c \<in> {0, lib_ENOTSUP}
      | ProbeDmabuf _ \<Rightarrow> True
      | _ \<Rightarrow> lib_int L tr c = 0)"


lemma wrapped_gives_qps: "sv_call v = wrapped_call L \<Longrightarrow> gives_qps v"
  by (auto simp: gives_qps_def wrapped_call_def wrap_ibv_create_qp_def IBV_PTR_CHECK_ERRNO_def split: if_splits)

section \<open>Failures on their way up\<close>

text \<open>All calls from one log to a later one were answered without a failure; or all but the last, which failed.\<close>

definition answered :: "libibverbs \<Rightarrow> vcall list \<Rightarrow> vcall list \<Rightarrow> bool" where
  "answered L tr tr' \<longleftrightarrow> (\<exists>cs. tr' = tr @ cs \<and> (\<forall>i < length cs. lib_ok L (tr @ take i cs) (cs ! i)))"

definition broken_off :: "libibverbs \<Rightarrow> vcall list \<Rightarrow> vcall list \<Rightarrow> bool" where
  "broken_off L tr tr' \<longleftrightarrow> (\<exists>tr1 c. answered L tr tr1 \<and> \<not> lib_ok L tr1 c \<and> tr' = tr1 @ [c])"

lemma answered_refl [intro, simp]: "answered L tr tr"
  by (simp add: answered_def)




text \<open>
  An action reports the failures of the library: it succeeds only if all its calls were answered, and a call that fails is its last
  and makes it a system error. It may fail for a reason of its own.
\<close>

definition reports :: "libibverbs \<Rightarrow> 'a act \<Rightarrow> bool" where
  "reports L m \<longleftrightarrow> (\<forall>e x e'. m e = (x, e') \<longrightarrow>
     answered L (ie_calls e) (ie_calls e') \<or> broken_off L (ie_calls e) (ie_calls e') \<and> x = Inl ncclSystemError)"





lemma reports_if [intro]: "reports L m \<Longrightarrow> reports L m' \<Longrightarrow> reports L (if b then m else m')"
  by simp



section \<open>The setup of a connection over the wrappers\<close>





















text \<open>
  \<^verbatim>\<open>ibv_fork_init\<close> returns an error number, never -1, so its failure is not noticed.
\<close>

lemma fork_init_never_fails: "0 \<le> r \<Longrightarrow> wrap_ibv_fork_init r = ncclSuccess"
  by (simp add: wrap_ibv_fork_init_def IBV_INT_CHECK_def)

end
