(* ===== verification/IbEvents.thy ===== *)
theory IbEvents
  imports IbvWrap IbRecv IbTest
begin

text \<open>
  The asynchronous events of the cards (\<^verbatim>\<open>src/unet/unet_ib.cc\<close>, \<^verbatim>\<open>ncclIbStatsInit\<close> to
  \<^verbatim>\<open>ncclIbAsyncThreadMain\<close>): the thread of a device counts the fatal ones, in the device's statistics or in those of
  the communicator whose queue they concern, and the transfer operations look at the counts. The thread is modelled
  over the sequence of the library's answers; where the sequence ends the thread waits for the next event.
\<close>

section \<open>Fatal error counts\<close>

text \<open>The statistics are found by address: a device's, or those in the base of a communicator.\<close>

datatype stats_ptr = DevStats nat | CommStats nat

type_synonym fatal_counts = "stats_ptr \<Rightarrow> u32"

definition ncclIbStatsInit :: "stats_ptr \<Rightarrow> fatal_counts \<Rightarrow> ncclResult \<times> fatal_counts" where
  "ncclIbStatsInit p c = (ncclSuccess, c(p := 0))"

definition ncclIbStatsFatalError :: "stats_ptr \<Rightarrow> fatal_counts \<Rightarrow> fatal_counts" where
  "ncclIbStatsFatalError p c = c(p := c p + 1)"

text \<open>The contexts of the queues, as they were given when the queues were created.\<close>

record contexts =
  cx_qp :: "nat \<Rightarrow> stats_ptr"
  cx_cq :: "nat \<Rightarrow> stats_ptr"

definition ncclIbQpFatalError :: "contexts \<Rightarrow> nat \<Rightarrow> fatal_counts \<Rightarrow> fatal_counts" where
  "ncclIbQpFatalError cx qp = ncclIbStatsFatalError (cx_qp cx qp)"

definition ncclIbCqFatalError :: "contexts \<Rightarrow> nat \<Rightarrow> fatal_counts \<Rightarrow> fatal_counts" where
  "ncclIbCqFatalError cx cq = ncclIbStatsFatalError (cx_cq cx cq)"

definition ncclIbDevFatalError :: "nat \<Rightarrow> fatal_counts \<Rightarrow> fatal_counts" where
  "ncclIbDevFatalError dev = ncclIbStatsFatalError (DevStats dev)"

section \<open>The thread of a device\<close>

datatype ibv_event_type =
    IBV_EVENT_CQ_ERR | IBV_EVENT_QP_FATAL | IBV_EVENT_QP_REQ_ERR | IBV_EVENT_QP_ACCESS_ERR
  | IBV_EVENT_COMM_EST | IBV_EVENT_SQ_DRAINED | IBV_EVENT_PATH_MIG | IBV_EVENT_PATH_MIG_ERR
  | IBV_EVENT_DEVICE_FATAL | IBV_EVENT_PORT_ACTIVE | IBV_EVENT_PORT_ERR | IBV_EVENT_LID_CHANGE
  | IBV_EVENT_PKEY_CHANGE | IBV_EVENT_SM_CHANGE | IBV_EVENT_SRQ_ERR | IBV_EVENT_SRQ_LIMIT_REACHED
  | IBV_EVENT_QP_LAST_WQE_REACHED | IBV_EVENT_CLIENT_REREGISTER | IBV_EVENT_UNKNOWN int

text \<open>The element of an event is the queue pair or the completion queue it concerns.\<close>

record ibv_async_event =
  event_type :: ibv_event_type
  element :: nat

definition handle_event :: "contexts \<Rightarrow> nat \<Rightarrow> ibv_async_event \<Rightarrow> fatal_counts \<Rightarrow> fatal_counts" where
  "handle_event cx dev ev c =
     (case event_type ev of
        IBV_EVENT_DEVICE_FATAL \<Rightarrow> ncclIbDevFatalError dev c
      | IBV_EVENT_CQ_ERR \<Rightarrow> ncclIbCqFatalError cx (element ev) c
      | IBV_EVENT_QP_FATAL \<Rightarrow> ncclIbQpFatalError cx (element ev) c
      | IBV_EVENT_QP_REQ_ERR \<Rightarrow> ncclIbQpFatalError cx (element ev) c
      | IBV_EVENT_QP_ACCESS_ERR \<Rightarrow> ncclIbQpFatalError cx (element ev) c
      | _ \<Rightarrow> c)"

text \<open>
  An answer of \<^verbatim>\<open>ibv_get_async_event\<close> is its return value with the event it stored; the
  result tells whether the thread still runs.
\<close>

fun ncclIbAsyncThreadMain ::
    "contexts \<Rightarrow> (ibv_event_type \<Rightarrow> string) \<Rightarrow> nat \<Rightarrow> (int \<times> ibv_async_event) list \<Rightarrow> fatal_counts \<Rightarrow> fatal_counts \<times> bool" where
  "ncclIbAsyncThreadMain cx type_str dev [] c = (c, True)"
| "ncclIbAsyncThreadMain cx type_str dev ((r, ev) # polls) c =
     (if wrap_ibv_get_async_event r \<noteq> ncclSuccess then (c, False)
      else if fst (wrap_ibv_event_type_str (type_str (event_type ev))) \<noteq> ncclSuccess then (c, False)
      else let c = handle_event cx dev ev c
           in if wrap_ibv_ack_async_event \<noteq> ncclSuccess then (c, False)
              else ncclIbAsyncThreadMain cx type_str dev polls c)"

section \<open>What is counted\<close>

definition fatal_for :: "contexts \<Rightarrow> nat \<Rightarrow> stats_ptr \<Rightarrow> ibv_async_event \<Rightarrow> bool" where
  "fatal_for cx dev p ev \<longleftrightarrow>
     event_type ev = IBV_EVENT_DEVICE_FATAL \<and> p = DevStats dev \<or>
     event_type ev = IBV_EVENT_CQ_ERR \<and> p = cx_cq cx (element ev) \<or>
     event_type ev \<in> {IBV_EVENT_QP_FATAL, IBV_EVENT_QP_REQ_ERR, IBV_EVENT_QP_ACCESS_ERR} \<and> p = cx_qp cx (element ev)"

definition fatal_events :: "contexts \<Rightarrow> nat \<Rightarrow> stats_ptr \<Rightarrow> (int \<times> ibv_async_event) list \<Rightarrow> nat" where
  "fatal_events cx dev p polls = length (filter (\<lambda>a. fatal_for cx dev p (snd a)) (takeWhile (\<lambda>a. fst a \<noteq> -1) polls))"

lemma handle_event_counts: "handle_event cx dev ev c p = c p + of_bool (fatal_for cx dev p ev)"
  by (cases "event_type ev")
    (auto simp: handle_event_def fatal_for_def ncclIbDevFatalError_def ncclIbCqFatalError_def ncclIbQpFatalError_def
      ncclIbStatsFatalError_def)

lemma async_step:
  "ncclIbAsyncThreadMain cx ts dev ((r, ev) # polls) c =
     (if r = -1 then (c, False) else ncclIbAsyncThreadMain cx ts dev polls (handle_event cx dev ev c))"
  by (simp add: wrap_ibv_get_async_event_def wrap_ibv_event_type_str_def wrap_ibv_ack_async_event_def IBV_INT_CHECK_def
      IBV_PASSTHRU_def)

declare ncclIbAsyncThreadMain.simps(2) [simp del]

lemma async_counts:
  "ncclIbAsyncThreadMain cx ts dev polls c = (c', run) \<Longrightarrow>
     c' p = c p + of_nat (fatal_events cx dev p polls) \<and> (run \<longleftrightarrow> -1 \<notin> fst ` set polls)"
proof (induction polls arbitrary: c)
  case Nil
  then show ?case by (simp add: fatal_events_def)
next
  case (Cons a polls)
  obtain r ev where a: "a = (r, ev)" by force
  show ?case
    using Cons by (cases "r = -1") (auto simp: a async_step fatal_events_def handle_event_counts)
qed

text \<open>
  The thread of a device counts every fatal event once, where it belongs: device errors in the statistics of its device, errors of a
  completion queue or a queue pair in those of the queue's communicator, everything else nowhere, in whatever order the
  events come; it goes on until the library fails.
\<close>
theorem async_events_counted:
  "fst (ncclIbAsyncThreadMain cx ts dev polls c) p = c p + of_nat (fatal_events cx dev p polls) \<and>
   (snd (ncclIbAsyncThreadMain cx ts dev polls c) \<longleftrightarrow> -1 \<notin> fst ` set polls)"
  using async_counts [of cx ts dev polls c] by (cases "ncclIbAsyncThreadMain cx ts dev polls c") simp

section \<open>What a fatal event does to the transfers\<close>

lemma sint_count:
  assumes "n < 2 ^ 32"
  shows "sint (of_nat n :: u32) = 0 \<longleftrightarrow> n = 0"
proof -
  have "sint (of_nat n :: u32) = 0 \<longleftrightarrow> (of_nat n :: u32) = 0" by (metis signed_0 signed_eq_0_iff)
  also have "\<dots> \<longleftrightarrow> 2 ^ 32 dvd n" by (simp add: word_of_nat_eq_0_iff)
  also have "\<dots> \<longleftrightarrow> n = 0" using assms by (auto dest: dvd_imp_le)
  finally show ?thesis .
qed

text \<open>
  C30: A fatal event stops the transfers of the communicator it concerns, and of no other: with fatal events reported to the caller, once one has been
  handled for the communicator, a receive and a test return a system error and change nothing; as long as there was none,
  the check they begin with passes.
\<close>
theorem fatal_event_stops_transfers:
  assumes "ncclIbStatsInit (CommStats k) c0 = (ncclSuccess, c)" "ncclIbAsyncThreadMain cx ts dev polls c = (c', run)"
    "pm_asyncEvents pm" "fatal_events cx dev (CommStats k) polls < 2 ^ 32"
    "cb_fatal (rc_base comm) = sint (c' (CommStats k))" "cb_fatal (ts_base st) = sint (c' (CommStats k))"
    "cb_ready (rc_base comm) \<noteq> 0" "n \<le> NCCL_NET_IB_MAX_RECVS"
  shows "if 0 < fatal_events cx dev (CommStats k) polls
    then ncclIbIrecv pm v n data sizes tags mhs comm w = (ncclSystemError, None, comm, w) \<and>
         ncclIbTest pm devFatal r st = (ncclSystemError, False, [], st)
    else ncclIbStatsCheckFatalCount pm (cb_fatal (rc_base comm)) = ncclSuccess \<and>
         ncclIbStatsCheckFatalCount pm (cb_fatal (ts_base st)) = ncclSuccess"
proof -
  have "c (CommStats k) = 0" using assms(1) by (auto simp: ncclIbStatsInit_def)
  then have "c' (CommStats k) = of_nat (fatal_events cx dev (CommStats k) polls)"
    using async_counts [OF assms(2)] by simp
  then have z: "sint (c' (CommStats k)) = 0 \<longleftrightarrow> fatal_events cx dev (CommStats k) polls = 0"
    using sint_count [OF assms(4)] by simp
  then show ?thesis
    using assms(3,5-8) by (simp add: ncclIbStatsCheckFatalCount_def ncclIbIrecv_def ncclIbTest.simps [of pm devFatal r st])
qed

text \<open>A queue pair of communicator 0 fails after an event that is not fatal, and after the device's.\<close>

definition example_contexts :: contexts where
  "example_contexts = \<lparr> cx_qp = (\<lambda>_. CommStats 0), cx_cq = (\<lambda>_. CommStats 1) \<rparr>"

definition example_events :: "(int \<times> ibv_async_event) list" where
  "example_events =
     [(0, \<lparr> event_type = IBV_EVENT_PORT_ERR, element = 1 \<rparr>), (0, \<lparr> event_type = IBV_EVENT_DEVICE_FATAL, element = 1 \<rparr>),
      (0, \<lparr> event_type = IBV_EVENT_QP_FATAL, element = 4 \<rparr>)]"

definition example_failed_comm :: ncclIbRecvComm where
  "example_failed_comm = example_recv_comm\<lparr> rc_base := (rc_base example_recv_comm)\<lparr> cb_fatal := 1 \<rparr> \<rparr>"

definition example_failed_test :: test_state where
  "example_failed_test = \<lparr> ts_base = rc_base example_failed_comm, ts_sizesFifo = [], ts_world = ie_world example_env, ts_cqs = (\<lambda>_. []) \<rparr>"

lemma example_events_counted:
  "fatal_events example_contexts 2 p example_events = of_bool (p = CommStats 0) + of_bool (p = DevStats 2)"
  by (auto simp: fatal_events_def fatal_for_def example_contexts_def example_events_def)

theorem fatal_event_stops_transfers_witness:
  "\<exists>c'. ncclIbAsyncThreadMain example_contexts (\<lambda>_. ''event'') 2 example_events (\<lambda>_. 0) = (c', True) \<and>
     c' (CommStats 0) = 1 \<and> c' (DevStats 2) = 1 \<and>
     ncclIbIrecv (example_params\<lparr> pm_asyncEvents := True \<rparr>) (\<lambda>_ _. ncclSuccess) 1 [0] [4] [0] [] example_failed_comm (ie_world example_env) =
       (ncclSystemError, None, example_failed_comm, ie_world example_env) \<and>
     ncclIbTest (example_params\<lparr> pm_asyncEvents := True \<rparr>) (\<lambda>_. 0) 0 example_failed_test = (ncclSystemError, False, [], example_failed_test)"
proof -
  obtain c' run where r: "ncclIbAsyncThreadMain example_contexts (\<lambda>_. ''event'') 2 example_events (\<lambda>_. 0) = (c', run)" by force
  note n = async_counts [OF r, unfolded example_events_counted]
  have c: "c' (CommStats 0) = 1" "c' (DevStats 2) = 1" using n by simp_all
  have run using n by (auto simp: example_events_def)
  moreover have i: "ncclIbStatsInit (CommStats 0) (\<lambda>_. 0) = (ncclSuccess, \<lambda>_. 0)"
    by (auto simp: ncclIbStatsInit_def)
  ultimately show ?thesis
    using fatal_event_stops_transfers [OF i r, of "example_params\<lparr> pm_asyncEvents := True \<rparr>" example_failed_comm example_failed_test 1
        "\<lambda>_ _. ncclSuccess" "[0]" "[4]" "[0]" "[]" "ie_world example_env" "\<lambda>_. 0" 0] c r
    by (simp add: example_events_counted example_failed_comm_def example_failed_test_def example_recv_sel)
qed

end
