(* ===== verification/IbApi.thy ===== *)
theory IbApi
  imports IbPair IbClose
begin

text \<open>
  The functions that offer the older interfaces of NCCL on the current ones (\<^verbatim>\<open>src/unet/unet_ib.cc\<close>, the
  functions with the suffixes \<open>v7\<close> and \<open>v6\<close>). The tables of function pointers only name them.
\<close>

section \<open>Properties\<close>

text \<open>The device type of every version is \<^verbatim>\<open>NCCL_NET_DEVICE_HOST\<close>.\<close>

record ncclNetProperties_v7 =
  p7_name :: string
  p7_pciPath :: "string option"
  p7_guid :: u64
  p7_ptrSupport :: "ptr_support list"
  p7_speed :: int
  p7_port :: int
  p7_latency :: int
  p7_maxComms :: int
  p7_maxRecvs :: nat
  p7_netDeviceVersion :: int

record ncclNetProperties_v6 =
  p6_name :: string
  p6_pciPath :: "string option"
  p6_guid :: u64
  p6_ptrSupport :: "ptr_support list"
  p6_speed :: int
  p6_port :: int
  p6_latency :: int
  p6_maxComms :: int
  p6_maxRecvs :: nat

definition ncclIbGetProperties_v7 :: "setup_verbs \<Rightarrow> ib_tables \<Rightarrow> nat \<Rightarrow> ncclNetProperties_v7 \<Rightarrow> ib_env
    \<Rightarrow> ncclResult \<times> ncclNetProperties_v7 \<times> ib_env" where
  "ncclIbGetProperties_v7 v t dev props e =
     (let (ret, p, e) = ncclIbGetProperties v t dev e in
      if ret \<noteq> ncclSuccess then (ret, props, e)
      else (ncclSuccess,
            \<lparr> p7_name = np_name p, p7_pciPath = np_pciPath p, p7_guid = np_guid p, p7_ptrSupport = np_ptrSupport p,
              p7_speed = np_speed p, p7_port = np_port p, p7_latency = np_latency p, p7_maxComms = np_maxComms p,
              p7_maxRecvs = np_maxRecvs p, p7_netDeviceVersion = np_netDeviceVersion p \<rparr>, e))"

definition ncclIbGetProperties_v6 :: "setup_verbs \<Rightarrow> ib_tables \<Rightarrow> nat \<Rightarrow> ncclNetProperties_v6 \<Rightarrow> ib_env
    \<Rightarrow> ncclResult \<times> ncclNetProperties_v6 \<times> ib_env" where
  "ncclIbGetProperties_v6 v t dev props e =
     (let (ret, p, e) = ncclIbGetProperties v t dev e in
      if ret \<noteq> ncclSuccess then (ret, props, e)
      else (ncclSuccess,
            \<lparr> p6_name = np_name p, p6_pciPath = np_pciPath p, p6_guid = np_guid p, p6_ptrSupport = np_ptrSupport p,
              p6_speed = np_speed p, p6_port = np_port p, p6_latency = np_latency p, p6_maxComms = np_maxComms p,
              p6_maxRecvs = np_maxRecvs p \<rparr>, e))"

section \<open>Memory and connections\<close>

text \<open>The size is an \<^verbatim>\<open>int\<close> that is converted to \<^verbatim>\<open>size_t\<close>.\<close>

definition ncclIbRegMr_v7 :: "mr_verbs \<Rightarrow> u64 \<Rightarrow> int \<Rightarrow> nat list \<Rightarrow> mr_dev list \<Rightarrow> world
    \<Rightarrow> (ncclResult \<times> nat list option \<times> mr_dev list \<times> world) option" where
  "ncclIbRegMr_v7 v data sz ids ds w = ncclIbRegMrDmaBuf v data (word_of_int sz) 0 (-1) ids ds w"

text \<open>The device handle that version 7 added is never written, so leaving it out changes nothing.\<close>

definition ncclIbConnect_v6 ::
    "setup_params \<Rightarrow> setup_verbs \<Rightarrow> meta_layout \<Rightarrow> ib_tables \<Rightarrow> nat \<Rightarrow> ncclIbConnectionMetadata \<Rightarrow> ncclIbHandle \<Rightarrow> ib_env \<Rightarrow> net
       \<Rightarrow> (ncclResult \<times> send_setup option \<times> ncclIbHandle \<times> ib_env \<times> net) option" where
  "ncclIbConnect_v6 sp v ly t dev junk ha e n = ncclIbConnect sp v ly t dev junk ha e n"

definition ncclIbAccept_v6 ::
    "setup_params \<Rightarrow> setup_verbs \<Rightarrow> meta_layout \<Rightarrow> ib_tables \<Rightarrow> ncclIbConnectionMetadata \<Rightarrow> ncclIbListenComm \<Rightarrow> ib_env \<Rightarrow> net
       \<Rightarrow> (ncclResult \<times> recv_setup option \<times> ncclIbListenComm \<times> ib_env \<times> net) option" where
  "ncclIbAccept_v6 sp v ly t junk lc e n = ncclIbAccept sp v ly t junk lc e n"

section \<open>The versions agree\<close>

lemma regmr_v7_same: "0 \<le> sz \<Longrightarrow> ncclIbRegMr_v7 v data sz ids ds w = ncclIbRegMr v data (word_of_nat (nat sz)) ids ds w"
  by (simp add: ncclIbRegMr_v7_def ncclIbRegMr_def)

lemma properties_agree:
  assumes "ncclIbGetProperties_v7 v t dev p7 e = (r7, q7, e7)" "ncclIbGetProperties_v6 v t dev p6 e = (r6, q6, e6)"
  shows "r7 = ncclSuccess" "r6 = ncclSuccess" "e7 = e6" "p7_speed q7 = p6_speed q6" "p7_ptrSupport q7 = p6_ptrSupport q6"
    "p7_port q7 = p6_port q6" "p7_maxRecvs q7 = NCCL_NET_IB_MAX_RECVS"
  using assms
  by (auto simp: ncclIbGetProperties_v7_def ncclIbGetProperties_v6_def ncclIbGetProperties_def Let_def split: prod.splits)

end
