(* ===== verification/VTopo.thy ===== *)
theory VTopo
  imports SysFiles "HOL-Library.Char_ord" "HOL-Library.List_Lexorder" "HOL-Library.Multiset"
begin

text \<open>
  The virtual topology of \<^verbatim>\<open>src/ucommd/gen_vtopo.cc\<close>: on a known machine with eight GPUs and four
  network cards behind eight PCI switches, a file is generated that tells NCCL to pair the switches. The host (the
  files, directories and links under \<^verbatim>\<open>/sys\<close>, the processor, the environment) is a parameter. A call of the
  standard library that throws (a position outside a string or a vector) has no result (\<open>None\<close>).
\<close>

section \<open>The ordered containers\<close>

text \<open>
  A \<^verbatim>\<open>std::map\<close> is the list of its pairs in the order of the keys, a \<^verbatim>\<open>std::set\<close> the list of its
  elements in order. Strings are ordered by their characters.
\<close>

type_synonym ('k, 'v) omap = "('k \<times> 'v) list"

text \<open>\<^verbatim>\<open>m[k]\<close>, with the element made from \<open>d\<close> when the key is new, then changed by \<open>f\<close>.\<close>

fun map_at :: "'k::linorder \<Rightarrow> 'v \<Rightarrow> ('v \<Rightarrow> 'v) \<Rightarrow> ('k, 'v) omap \<Rightarrow> ('k, 'v) omap" where
  "map_at k d f [] = [(k, f d)]"
| "map_at k d f ((a, v) # m) =
     (if k < a then (k, f d) # (a, v) # m else if k = a then (a, f v) # m else (a, v) # map_at k d f m)"

abbreviation (input) map_push :: "string \<Rightarrow> 'v \<Rightarrow> (string, 'v list) omap \<Rightarrow> (string, 'v list) omap" where
  "map_push k x \<equiv> map_at k [] (\<lambda>xs. xs @ [x])"

definition set_insert :: "string \<Rightarrow> string list \<Rightarrow> string list" where
  "set_insert x xs = (if x \<in> set xs then xs else insort x xs)"

lemma map_of_map_at:
  "sorted (map fst m) \<Longrightarrow>
   map_of (map_at k d f m) = (map_of m)(k \<mapsto> f (case map_of m k of None \<Rightarrow> d | Some v \<Rightarrow> v))"
proof (induction m)
  case (Cons av m)
  obtain a v where av: "av = (a, v)" by force
  have "map_of m k = None" if "k < a"
    using Cons.prems that av by (fastforce simp: map_of_eq_None_iff)
  then show ?case using Cons by (auto simp: av fun_eq_iff)
qed simp

lemma keys_map_at: "set (map fst (map_at k d f m)) = insert k (set (map fst m))"
  by (induction k d f m rule: map_at.induct) auto

lemma fst_map_at [simp]: "fst ` set (map_at k d f m) = insert k (fst ` set m)"
  using keys_map_at [of k d f m] by simp

lemma sorted_map_at:
  "sorted (map fst m) \<Longrightarrow> distinct (map fst m) \<Longrightarrow> sorted (map fst (map_at k d f m)) \<and> distinct (map fst (map_at k d f m))"
proof (induction m)
  case (Cons av m)
  obtain a v where av: "av = (a, v)" by force
  have "\<forall>b \<in> set (map fst (map_at k d f m)). a \<le> b" "a \<notin> set (map fst (map_at k d f m))" if "a < k"
    using Cons.prems that av unfolding keys_map_at by auto
  then show ?case using Cons by (auto simp: av)
qed simp

section \<open>The host\<close>

record vt_host =
  vh_getenv :: "string \<Rightarrow> string option"
  vh_files :: files
  vh_dir :: "string \<Rightarrow> string list option"      \<comment> \<open>the names, in the order \<open>readdir\<close> gives them\<close>
  vh_realpath :: "string \<Rightarrow> string option"
  vh_cpuid :: u32                                \<comment> \<open>\<open>eax\<close> of leaf 1\<close>
  vh_pid :: nat
  vh_mkdir :: "errno option"                     \<comment> \<open>the failure of \<open>mkdir\<close>\<close>
  vh_is_dir :: bool                              \<comment> \<open>what \<open>stat\<close> says of the directory\<close>
  vh_fopen :: bool

record GenVTopo =
  gv_upp :: "(string, string list) omap"          \<comment> \<open>\<open>upp_devs_\<close>\<close>
  gv_nv :: "string list"
  gv_ib :: "string list"
  gv_topo_file :: string

definition no_vtopo :: GenVTopo where
  "no_vtopo = \<lparr> gv_upp = [], gv_nv = [], gv_ib = [], gv_topo_file = [] \<rparr>"

definition env_nonempty :: "string option \<Rightarrow> bool" where
  "env_nonempty v \<longleftrightarrow> (case v of Some (c # cs) \<Rightarrow> True | _ \<Rightarrow> False)"

section \<open>The machine\<close>

definition product_known :: "vt_host \<Rightarrow> bool" where
  "product_known h \<longleftrightarrow>
     (case (good_line (vh_files h) 32 ''/sys/devices/virtual/dmi/id/product_name'',
            good_line (vh_files h) 32 ''/sys/devices/virtual/dmi/id/board_name'') of
        (Some pname, Some bname) \<Rightarrow> starts_with ''NF5688-M7'' pname \<or> starts_with ''NF5688-M7'' bname
      | _ \<Rightarrow> False)"

definition bit_field :: "nat \<Rightarrow> nat \<Rightarrow> u32 \<Rightarrow> nat" where
  "bit_field pos len val = unat (take_bit len (drop_bit pos val))"

definition cpu_model_id :: "u32 \<Rightarrow> nat" where
  "cpu_model_id val = bit_field 4 4 val + bit_field 16 4 val * 2 ^ 4"

definition cpu_family_id :: "u32 \<Rightarrow> nat" where
  "cpu_family_id val = bit_field 8 4 val + bit_field 20 8 val * 2 ^ 4"

section \<open>The devices\<close>

definition sys_nvidia :: string where
  "sys_nvidia = ''/sys/bus/pci/drivers/nvidia/''"

definition sys_infiniband :: string where
  "sys_infiniband = ''/sys/class/infiniband/''"

definition is_gpu :: "vt_host \<Rightarrow> string \<Rightarrow> bool" where
  "is_gpu h nvdev \<longleftrightarrow>
     (case nvdev of c # _ \<Rightarrow> c = CHR ''0'' | [] \<Rightarrow> False) \<and>
     (case good_line (vh_files h) 16 (sys_nvidia @ nvdev @ ''/class'') of
        Some dclass \<Rightarrow> dclass = ''0x030200'' \<or> dclass = ''0x030000''
      | None \<Rightarrow> False)"

definition nvidia_devs :: "vt_host \<Rightarrow> string list" where
  "nvidia_devs h = (case vh_dir h ''/sys/bus/pci/drivers/nvidia'' of None \<Rightarrow> [] | Some es \<Rightarrow> filter (is_gpu h) es)"

definition is_ib :: "vt_host \<Rightarrow> string \<Rightarrow> bool" where
  "is_ib h ibdev \<longleftrightarrow>
     (case vh_files h (sys_infiniband @ ibdev @ ''/node_type'') of
        Some (c # _) \<Rightarrow> 49 \<le> (of_char c :: nat) \<and> (of_char c :: nat) \<le> 51
      | _ \<Rightarrow> False)"

definition is_cx6 :: "vt_host \<Rightarrow> string \<Rightarrow> bool" where
  "is_cx6 h ibdev \<longleftrightarrow>
     (case good_line (vh_files h) 8 (sys_infiniband @ ibdev @ ''/hca_type'') of
        Some htype \<Rightarrow> htype \<in> {''MT4123'', ''MT4125'', ''MT4129'', ''MT4131'', ''MT4124''}
      | None \<Rightarrow> False)"

definition infiniband_devs :: "vt_host \<Rightarrow> string list" where
  "infiniband_devs h =
     (case vh_dir h ''/sys/class/infiniband'' of
        None \<Rightarrow> []
      | Some es \<Rightarrow> filter (\<lambda>d. d \<noteq> ''.'' \<and> d \<noteq> ''..'' \<and> is_ib h d \<and> is_cx6 h d) es)"

section \<open>The switches\<close>

text \<open>
  The bus number of the switch port above a device is cut out of the device's real path: twelve characters after the host bridge and the first
  port, from the position that is the size of the literal with its null.
\<close>

definition port_pos :: nat where
  "port_pos = length ''/sys/devices/pci0000:00/0000:00:00.0'' + 1"

definition bdf_len :: nat where
  "bdf_len = length ''0000:00:00.0''"

definition up_port :: "string \<Rightarrow> string" where
  "up_port rpath = take bdf_len (drop port_pos rpath)"

definition own_bdf :: "string \<Rightarrow> string" where
  "own_bdf rpath = take bdf_len (drop (length rpath - bdf_len) rpath)"

definition on_root :: "string \<Rightarrow> bool" where
  "on_root rpath \<longleftrightarrow> starts_with ''/sys/devices/pci0000:'' rpath \<or> starts_with ''/sys/devices/pci0001:'' rpath"

text \<open>
  The two loops that hang the devices under their ports differ in the link they follow and in the name they store;
  \<open>None\<close> for a path too short to cut.
\<close>

fun place_devs :: "vt_host \<Rightarrow> (string \<Rightarrow> string) \<Rightarrow> (string \<Rightarrow> string \<Rightarrow> string) \<Rightarrow> string list
    \<Rightarrow> (string, string list) omap \<Rightarrow> (string, string list) omap option" where
  "place_devs h link stored [] m = Some m"
| "place_devs h link stored (d # ds) m =
     (case vh_realpath h (link d) of
        None \<Rightarrow> place_devs h link stored ds m
      | Some rpath \<Rightarrow>
          if \<not> on_root rpath then place_devs h link stored ds m
          else if length rpath < port_pos then None
          else place_devs h link stored ds (map_push (up_port rpath) (stored d rpath) m))"

definition gpu_link :: "string \<Rightarrow> string" where
  "gpu_link nvdev = sys_nvidia @ nvdev"

definition nic_link :: "string \<Rightarrow> string" where
  "nic_link ibdev = sys_infiniband @ ibdev @ ''/device''"

definition place_gpus :: "vt_host \<Rightarrow> string list \<Rightarrow> (string, string list) omap \<Rightarrow> (string, string list) omap option" where
  "place_gpus h = place_devs h gpu_link (\<lambda>nvdev rpath. nvdev)"

definition place_nics :: "vt_host \<Rightarrow> string list \<Rightarrow> (string, string list) omap \<Rightarrow> (string, string list) omap option" where
  "place_nics h = place_devs h nic_link (\<lambda>ibdev rpath. own_bdf rpath)"

definition port_known :: "vt_host \<Rightarrow> string \<Rightarrow> bool" where
  "port_known h port \<longleftrightarrow> good_line (vh_files h) 32 (''/sys/bus/pci/devices/'' @ port @ ''/device'') = Some ''0xc030''"

text \<open>The ports two by two; an odd number would run past the end.\<close>

fun pairs_known :: "(string, string list) omap \<Rightarrow> bool option" where
  "pairs_known [] = Some True"
| "pairs_known [x] = None"
| "pairs_known (x # y # m) =
     (if \<not> (length (snd x) = 2 \<or> length (snd y) = 2) then Some False else pairs_known m)"

section \<open>The object\<close>

definition GenVTopo_new :: "vt_host \<Rightarrow> GenVTopo option" where
  "GenVTopo_new h =
     (if switched_off (vh_getenv h ''SICL_UCOMMD_VTOPO_DISABLE'') then Some no_vtopo
      else if env_nonempty (vh_getenv h ''NCCL_TOPO_FILE'') then Some no_vtopo
      else if \<not> product_known h then Some no_vtopo
      else if cpu_family_id (vh_cpuid h) \<noteq> 6 \<or> cpu_model_id (vh_cpuid h) \<noteq> 143 then Some no_vtopo
      else let nv = nvidia_devs h in
           if length nv \<noteq> 8 then Some (no_vtopo\<lparr> gv_nv := nv \<rparr>)
           else let ib = infiniband_devs h in
                if length ib \<noteq> 4 then Some (no_vtopo\<lparr> gv_nv := nv, gv_ib := ib \<rparr>)
                else let nv = sort nv in
                  case place_gpus h nv [] of
                    None \<Rightarrow> None
                  | Some upp \<Rightarrow>
                      if length nv \<noteq> length upp then Some (no_vtopo\<lparr> gv_nv := nv, gv_ib := ib \<rparr>)
                      else let ib = sort ib; none = no_vtopo\<lparr> gv_nv := nv, gv_ib := ib \<rparr> in
                        case place_nics h ib upp of
                          None \<Rightarrow> None
                        | Some upp \<Rightarrow>
                            if length nv \<noteq> length upp then Some none
                            else if \<not> list_all (port_known h) (map fst upp) then Some none
                            else case pairs_known upp of
                                   None \<Rightarrow> None
                                 | Some False \<Rightarrow> Some none
                                 | Some True \<Rightarrow> Some (none\<lparr> gv_upp := upp \<rparr>))"

section \<open>The topology\<close>

text \<open>For each NUMA node the switches, and under each the names of its devices.\<close>

type_synonym topology = "(int, (string, string list) omap) omap"

definition sys_pci :: string where
  "sys_pci = ''/sys/bus/pci/devices/''"

definition get_numa_node :: "vt_host \<Rightarrow> string \<Rightarrow> int" where
  "get_numa_node h bdf = (case good_line (vh_files h) 8 (sys_pci @ bdf @ ''/numa_node'') of Some nn \<Rightarrow> atoi nn | None \<Rightarrow> 0)"

definition topo_insert :: "int \<Rightarrow> string \<Rightarrow> string \<Rightarrow> topology \<Rightarrow> topology" where
  "topo_insert numa_node port dev = map_at numa_node [] (map_at port [] (set_insert dev))"

text \<open>\<^verbatim>\<open>std::vector::at\<close>, which throws outside the vector.\<close>

definition vec_at :: "'a list \<Rightarrow> nat \<Rightarrow> 'a option" where
  "vec_at xs i = (if i < length xs then Some (xs ! i) else None)"

fun build_topo :: "vt_host \<Rightarrow> (string, string list) omap \<Rightarrow> topology \<Rightarrow> topology option" where
  "build_topo h [] topo = Some topo"
| "build_topo h [x] topo = None"
| "build_topo h ((p1, d1) # (p2, d2) # m) topo =
     (if length d1 = 2
      then (case (vec_at d1 0, vec_at d1 1, vec_at d2 0) of
              (Some a, Some b, Some c) \<Rightarrow> build_topo h m (fold (topo_insert (get_numa_node h p1) p1) [a, b, c] topo)
            | _ \<Rightarrow> None)
      else (case (vec_at d1 0, vec_at d2 0, vec_at d2 1) of
              (Some a, Some b, Some c) \<Rightarrow> build_topo h m (fold (topo_insert (get_numa_node h p2) p2) [a, b, c] topo)
            | _ \<Rightarrow> None))"

section \<open>The file\<close>

definition attr :: "string \<times> string \<Rightarrow> string" where
  "attr nv = CHR '' '' # fst nv @ ''='' @ [CHR 0x22] @ snd nv @ [CHR 0x22]"

definition tag_line :: "string \<Rightarrow> (string \<times> string) list \<Rightarrow> string \<Rightarrow> string" where
  "tag_line start attrs end_mark = start @ concat (map attr attrs) @ end_mark @ [newline]"

definition get_info :: "vt_host \<Rightarrow> string \<Rightarrow> string \<Rightarrow> string" where
  "get_info h bdf a = (case good_line (vh_files h) 16 (sys_pci @ bdf @ ''/'' @ a) of Some out \<Rightarrow> out | None \<Rightarrow> ''unknown'')"

definition pci_attrs :: "vt_host \<Rightarrow> string \<Rightarrow> (string \<times> string) list" where
  "pci_attrs h bdf =
     [(''busid'', bdf), (''class'', get_info h bdf ''class''), (''vendor'', get_info h bdf ''vendor''),
      (''device'', get_info h bdf ''device''), (''subsystem_vendor'', get_info h bdf ''subsystem_vendor''),
      (''subsystem_device'', get_info h bdf ''subsystem_device''),
      (''link_speed'', get_info h bdf ''current_link_speed''), (''link_width'', get_info h bdf ''current_link_width'')]"

definition switch_lines :: "vt_host \<Rightarrow> string \<times> string list \<Rightarrow> string list" where
  "switch_lines h sw =
     tag_line ''    <pci'' (pci_attrs h (fst sw)) ''>'' #
     map (\<lambda>device. tag_line ''      <pci'' (pci_attrs h device) ''/>'') (snd sw) @
     [tag_line ''    </pci'' [] ''>'']"

text \<open>A processor map that cannot be read whole is cut; one that cannot be opened is \<open>f\<close>.\<close>

definition affinity :: "vt_host \<Rightarrow> int \<Rightarrow> string" where
  "affinity h node =
     (case vh_files h (''/sys/devices/system/node/node'' @ to_string_int node @ ''/cpumap'') of
        Some s \<Rightarrow> fst (getline_buf 128 s) | None \<Rightarrow> ''f'')"

definition node_lines :: "vt_host \<Rightarrow> int \<times> (string, string list) omap \<Rightarrow> string list" where
  "node_lines h nt =
     tag_line ''  <cpu'' [(''numaid'', to_string_int (fst nt)), (''affinity'', affinity h (fst nt)), (''arch'', ''x86_64''),
       (''vendor'', ''GenuineIntel''), (''familyid'', ''6''), (''modelid'', ''143'')] ''>'' #
     concat (map (switch_lines h) (snd nt)) @
     [tag_line ''  </cpu'' [] ''>'']"

definition topo_lines :: "vt_host \<Rightarrow> topology \<Rightarrow> string list" where
  "topo_lines h topo =
     tag_line ''<system'' [(''version'', ''1'')] ''>'' # concat (map (node_lines h) topo) @ [tag_line ''</system'' [] ''>'']"

text \<open>
  \<^verbatim>\<open>gen\<close> returns the object, the file it wrote, and the environment after it; a variable that is set, even to
  nothing, is not replaced.
\<close>

definition topo_dir_ok :: "vt_host \<Rightarrow> bool" where
  "topo_dir_ok h \<longleftrightarrow> (case vh_mkdir h of None \<Rightarrow> True | Some err \<Rightarrow> err = EEXIST \<and> vh_is_dir h)"

definition gen :: "vt_host \<Rightarrow> GenVTopo \<Rightarrow> (GenVTopo \<times> (string \<times> string list) option \<times> (string \<Rightarrow> string option)) option" where
  "gen h g =
     (if gv_upp g = [] then Some (g, None, vh_getenv h)
      else case build_topo h (gv_upp g) [] of
             None \<Rightarrow> None
           | Some topo \<Rightarrow>
               if \<not> topo_dir_ok h then Some (g, None, vh_getenv h)
               else let file = (if gv_topo_file g = [] then ''/tmp/.ucommd/.vtopo_'' @ to_string_nat (vh_pid h) @ ''.xml'' else gv_topo_file g);
                        g = g\<lparr> gv_topo_file := file \<rparr>
                    in if \<not> vh_fopen h then Some (g, None, vh_getenv h)
                       else Some (g, Some (file, topo_lines h topo),
                                  if vh_getenv h ''NCCL_TOPO_FILE'' = None then (vh_getenv h)(''NCCL_TOPO_FILE'' \<mapsto> file) else vh_getenv h))"

text \<open>The object is made at the first call, and its \<^verbatim>\<open>gen\<close> run only then.\<close>

definition tryGenVTopo :: "vt_host \<Rightarrow> GenVTopo option \<Rightarrow> (GenVTopo \<times> (string \<times> string list) option \<times> (string \<Rightarrow> string option)) option" where
  "tryGenVTopo h vtopo =
     (case vtopo of
        Some g \<Rightarrow> Some (g, None, vh_getenv h)
      | None \<Rightarrow> (case GenVTopo_new h of None \<Rightarrow> None | Some g \<Rightarrow> gen h g))"

text \<open>The destructor removes the file.\<close>

definition GenVTopo_destroy :: "GenVTopo \<Rightarrow> string list \<times> GenVTopo" where
  "GenVTopo_destroy g = (if gv_topo_file g = [] then [] else [gv_topo_file g], no_vtopo)"

section \<open>Hanging the devices under their ports\<close>

definition pushes :: "(string \<times> 'v) list \<Rightarrow> (string, 'v list) omap \<Rightarrow> (string, 'v list) omap" where
  "pushes ps m = fold (\<lambda>(p, x). map_push p x) ps m"

lemma pushes_simps [simp]: "pushes [] m = m" "pushes ((p, x) # ps) m = pushes ps (map_push p x m)"
  by (simp_all add: pushes_def)

lemma sorted_pushes:
  "sorted (map fst m) \<Longrightarrow> distinct (map fst m) \<Longrightarrow> sorted (map fst (pushes ps m)) \<and> distinct (map fst (pushes ps m))"
  by (induction ps arbitrary: m) (auto simp: sorted_map_at)

lemma keys_pushes: "fst ` set (pushes ps m) = fst ` set ps \<union> fst ` set m"
proof (induction ps arbitrary: m)
  case (Cons px ps)
  then show ?case by (cases px) (simp add: Un_commute Un_left_commute)
qed simp

lemma devs_map_push: "mset (concat (map snd (map_push p x m))) = add_mset x (mset (concat (map snd m)))"
  by (induction m) auto

lemma devs_pushes: "mset (concat (map snd (pushes ps m))) = mset (map snd ps) + mset (concat (map snd m))"
  by (induction ps arbitrary: m) (auto simp: devs_map_push simp del: map_at.simps)

lemma map_at_all:
  "\<forall>x \<in> set m. P (snd x) \<Longrightarrow> P (f d) \<Longrightarrow> \<forall>v. P v \<longrightarrow> P (f v) \<Longrightarrow> \<forall>x \<in> set (map_at k d f m). P (snd x)"
  by (induction k d f m rule: map_at.induct) auto

lemma filled_pushes: "\<forall>x \<in> set m. snd x \<noteq> [] \<Longrightarrow> \<forall>x \<in> set (pushes ps m). snd x \<noteq> []"
proof (induction ps arbitrary: m)
  case (Cons px ps)
  obtain p x where px: "px = (p, x)" by force
  have "\<forall>y \<in> set (map_push p x m). snd y \<noteq> []" using Cons.prems by (intro map_at_all) auto
  from Cons.IH [OF this] show ?case by (simp add: px)
qed simp

lemma grown_pushes:
  assumes "sorted (map fst m)" "distinct (map fst m)" "map_of m k = Some d"
  shows "\<exists>e. map_of (pushes ps m) k = Some (d @ e)"
  using assms
proof (induction ps arbitrary: m d)
  case (Cons px ps)
  obtain p x where px: "px = (p, x)" by force
  let ?d = "if k = p then d @ [x] else d"
  have "map_of (map_push p x m) k = Some ?d"
    unfolding map_of_map_at [OF Cons.prems(1)] using Cons.prems(3) by (cases "k = p") (simp_all del: map_of_eq_Some_iff)
  moreover note sorted_map_at [OF Cons.prems(1,2), of p "[]" "\<lambda>xs. xs @ [x]"]
  ultimately obtain e where "map_of (pushes ps (map_push p x m)) k = Some (?d @ e)" using Cons.IH by blast
  then show ?case by (auto simp: px)
qed simp

definition placing :: "vt_host \<Rightarrow> (string \<Rightarrow> string) \<Rightarrow> (string \<Rightarrow> string \<Rightarrow> string) \<Rightarrow> string \<Rightarrow> string \<times> string" where
  "placing h link stored d = (let r = the (vh_realpath h (link d)) in (up_port r, stored d r))"

lemma place_devs_pushes:
  "place_devs h link stored ds m = Some m' \<Longrightarrow>
   \<exists>ps. m' = pushes ps m \<and> length ps \<le> length ds \<and> (length ps = length ds \<longrightarrow> ps = map (placing h link stored) ds)"
proof (induction ds arbitrary: m)
  case Nil
  then show ?case by (intro exI [of _ "[]"]) simp
next
  case (Cons d ds)
  show ?case
  proof (cases "\<exists>r. vh_realpath h (link d) = Some r \<and> on_root r")
    case True
    then obtain r where r: "vh_realpath h (link d) = Some r" "on_root r" by blast
    then have "place_devs h link stored ds (map_push (up_port r) (stored d r) m) = Some m'"
      using Cons.prems by (simp split: if_splits)
    from Cons.IH [OF this] obtain ps where ps: "m' = pushes ps (map_push (up_port r) (stored d r) m)" "length ps \<le> length ds"
      "length ps = length ds \<longrightarrow> ps = map (placing h link stored) ds" by blast
    then show ?thesis
      by (intro exI [of _ "(up_port r, stored d r) # ps"]) (simp add: placing_def [of h link stored d] r(1))
  next
    case False
    then have "place_devs h link stored ds m = Some m'" using Cons.prems by (auto split: option.splits if_splits)
    from Cons.IH [OF this] show ?thesis by force
  qed
qed

section \<open>Counting\<close>

text \<open>A pair of ports with three devices: two under one, one under the other.\<close>

fun pairs_exact :: "(string, string list) omap \<Rightarrow> bool" where
  "pairs_exact [] \<longleftrightarrow> True"
| "pairs_exact [x] \<longleftrightarrow> False"
| "pairs_exact (x # y # m) \<longleftrightarrow>
     (length (snd x) = 2 \<and> length (snd y) = 1 \<or> length (snd x) = 1 \<and> length (snd y) = 2) \<and> pairs_exact m"

lemma pairs_bound:
  "pairs_known m = Some True \<Longrightarrow> \<forall>x \<in> set m. snd x \<noteq> [] \<Longrightarrow>
   3 * length m \<le> 2 * length (concat (map snd m)) \<and> (2 * length (concat (map snd m)) \<le> 3 * length m \<longrightarrow> pairs_exact m)"
proof (induction m rule: pairs_known.induct)
  case (3 x y m)
  let ?a = "length (snd x)" and ?b = "length (snd y)" and ?t = "length (concat (map snd m))"
  have pos: "0 < ?a" "0 < ?b" using 3(3) by simp_all
  have two: "?a = 2 \<or> ?b = 2" "pairs_known m = Some True" using 3(2) by (auto split: if_splits)
  have IH: "3 * length m \<le> 2 * ?t" "2 * ?t \<le> 3 * length m \<Longrightarrow> pairs_exact m"
    using 3(1) two 3(3) by auto
  have "(?a = 2 \<and> ?b = 1 \<or> ?a = 1 \<and> ?b = 2) \<and> 2 * ?t \<le> 3 * length m" if "2 * (?a + ?b + ?t) \<le> 3 * (length m + 2)"
    using pos two(1) IH(1) that by presburger
  moreover have "3 * (length m + 2) \<le> 2 * (?a + ?b + ?t)" using pos two(1) IH(1) by presburger
  ultimately show ?case using IH(2) by simp
qed simp_all

lemma singletons:
  "\<forall>x \<in> set m. snd x \<noteq> [] \<Longrightarrow> length (concat (map snd m)) \<le> length m \<Longrightarrow> \<forall>x \<in> set m. length (snd x) = 1"
proof (induction m)
  case (Cons x m)
  have "length m \<le> length (concat (map snd m))" using Cons.prems(1)
    by (induction m) (auto, metis One_nat_def Suc_leI add_mono length_greater_0_conv plus_1_eq_Suc snd_conv)
  moreover have "0 < length (snd x)" "length (snd x) + length (concat (map snd m)) \<le> Suc (length m)" using Cons.prems by simp_all
  ultimately have "length (snd x) = 1" "length (concat (map snd m)) \<le> length m" by linarith+
  then show ?case using Cons by simp
qed simp

section \<open>What is accepted\<close>

lemma new_cases:
  assumes "GenVTopo_new h = Some g" "gv_upp g \<noteq> []"
  obtains upp1 where "gv_nv g = sort (nvidia_devs h)" "gv_ib g = sort (infiniband_devs h)" "length (gv_nv g) = 8" "length (gv_ib g) = 4"
    "place_gpus h (gv_nv g) [] = Some upp1" "length upp1 = 8" "place_nics h (gv_ib g) upp1 = Some (gv_upp g)" "length (gv_upp g) = 8"
    "pairs_known (gv_upp g) = Some True" "list_all (port_known h) (map fst (gv_upp g))"
  using assms
  by (auto simp: GenVTopo_new_def Let_def no_vtopo_def split: if_splits option.splits bool.splits)

definition nic_bdf :: "vt_host \<Rightarrow> string \<Rightarrow> string" where
  "nic_bdf h ibdev = own_bdf (the (vh_realpath h (nic_link ibdev)))"

lemma accepted_facts:
  assumes "GenVTopo_new h = Some g" "gv_upp g \<noteq> []"
  shows "length (gv_nv g) = 8" "length (gv_ib g) = 4" "length (gv_upp g) = 8" "pairs_exact (gv_upp g)"
    "sorted (map fst (gv_upp g))" "distinct (map fst (gv_upp g))"
    "mset (concat (map snd (gv_upp g))) = mset (gv_nv g) + mset (map (nic_bdf h) (gv_ib g))"
    "\<forall>x \<in> set (gv_upp g). snd x \<noteq> [] \<and> hd (snd x) \<in> set (gv_nv g)"
proof -
  from assms obtain u where l: "length (gv_nv g) = 8" "length (gv_ib g) = 4" "length u = 8" "length (gv_upp g) = 8"
    and p: "place_gpus h (gv_nv g) [] = Some u" "place_nics h (gv_ib g) u = Some (gv_upp g)" "pairs_known (gv_upp g) = Some True"
    by (rule new_cases)
  obtain ps where ps: "u = pushes ps []" "length ps \<le> 8" "length ps = 8 \<longrightarrow> map snd ps = gv_nv g"
    using place_devs_pushes [OF p(1) [unfolded place_gpus_def]] l(1) by (auto simp: placing_def Let_def o_def)
  obtain qs where qs: "gv_upp g = pushes qs u" "length qs \<le> 4" "length qs = 4 \<longrightarrow> map snd qs = map (nic_bdf h) (gv_ib g)"
    using place_devs_pushes [OF p(2) [unfolded place_nics_def]] l(2) by (auto simp: placing_def Let_def o_def nic_bdf_def)
  have sd: "sorted (map fst u)" "distinct (map fst u)" using sorted_pushes [of "[]" ps] by (simp_all add: ps(1))
  have sd': "sorted (map fst (gv_upp g))" "distinct (map fst (gv_upp g))" using sorted_pushes [OF sd, of qs] by (simp_all add: qs(1))
  have fu: "\<forall>x \<in> set u. snd x \<noteq> []" using filled_pushes [of "[]" ps] by (simp add: ps(1))
  have fg: "\<forall>x \<in> set (gv_upp g). snd x \<noteq> []" using filled_pushes [OF fu, of qs] by (simp add: qs(1))
  have mu: "mset (concat (map snd u)) = mset (map snd ps)" using devs_pushes [of ps "[]"] by (simp add: ps(1))
  have mg: "mset (concat (map snd (gv_upp g))) = mset (map snd qs) + mset (concat (map snd u))"
    using devs_pushes [of qs u] by (simp add: qs(1))
  have cu: "length (concat (map snd u)) = length ps" using arg_cong [OF mu, of size] by simp
  have cg: "length (concat (map snd (gv_upp g))) = length qs + length ps"
    using arg_cong [OF mg, of size] cu by (simp add: size_mset [symmetric] del: size_mset)
  note b = pairs_bound [OF p(3) fg, unfolded cg l(4)]
  have "length ps = 8 \<and> length qs = 4" using conjunct1 [OF b] ps(2) qs(2) by presburger
  then have n: "length ps = 8" "length qs = 4" by simp_all
  show "length (gv_nv g) = 8" "length (gv_ib g) = 4" "length (gv_upp g) = 8" "pairs_exact (gv_upp g)"
    "sorted (map fst (gv_upp g))" "distinct (map fst (gv_upp g))"
    using l b n sd' by simp_all
  show "mset (concat (map snd (gv_upp g))) = mset (gv_nv g) + mset (map (nic_bdf h) (gv_ib g))"
    using mg mu ps(3) qs(3) n by (simp add: add.commute)
  have one: "\<forall>x \<in> set u. length (snd x) = 1" by (rule singletons [OF fu]) (simp add: cu n l(3))
  have keys: "fst ` set (gv_upp g) = fst ` set u"
  proof -
    have "fst ` set u \<subseteq> fst ` set (gv_upp g)" by (auto simp: qs(1) keys_pushes)
    moreover have "card (fst ` set u) = card (fst ` set (gv_upp g))"
      using distinct_card [OF sd(2)] distinct_card [OF sd'(2)] l(3,4) by simp
    ultimately show ?thesis by (metis List.finite_set card_subset_eq finite_imageI)
  qed
  show "\<forall>x \<in> set (gv_upp g). snd x \<noteq> [] \<and> hd (snd x) \<in> set (gv_nv g)"
  proof
    fix x assume x: "x \<in> set (gv_upp g)"
    then obtain d where d: "(fst x, d) \<in> set u" using keys by (metis (no_types, lifting) imageE image_eqI prod.collapse)
    then have "map_of u (fst x) = Some d" using sd(2) by simp
    from grown_pushes [OF sd this, of qs] obtain e where "map_of (gv_upp g) (fst x) = Some (d @ e)" by (auto simp: qs(1))
    then have sx: "snd x = d @ e" using x sd'(2) by (metis map_of_is_SomeI option.inject prod.collapse)
    obtain a where a: "d = [a]" using one d by (cases d) fastforce+
    have "a \<in> set (concat (map snd u))" using d a by force
    moreover have "set (concat (map snd u)) = set (gv_nv g)" using mset_eq_setD [OF mu] ps(3) n(1) by simp
    ultimately have "a \<in> set (gv_nv g)" by (simp only:)
    with sx show "snd x \<noteq> [] \<and> hd (snd x) \<in> set (gv_nv g)" using a by simp
  qed
qed

text \<open>
  C31: When the object accepts a machine, the counts leave only one shape: eight switch ports, in order, with one of the eight GPUs first under each, and the four
  network cards all placed, exactly one for each pair of neighbouring ports, so that each pair has two devices
  under one port and one under the other. Nothing found is lost or stored twice.
\<close>
theorem vtopo_accepts_pairs:
  assumes "GenVTopo_new h = Some g" "gv_upp g \<noteq> []"
  shows "length (gv_upp g) = 8 \<and> sorted (map fst (gv_upp g)) \<and> distinct (map fst (gv_upp g)) \<and> pairs_exact (gv_upp g) \<and>
    length (gv_nv g) = 8 \<and> length (gv_ib g) = 4 \<and>
    mset (concat (map snd (gv_upp g))) = mset (gv_nv g) + mset (map (nic_bdf h) (gv_ib g)) \<and>
    hd ` snd ` set (gv_upp g) \<subseteq> set (gv_nv g)"
  using accepted_facts [OF assms] by auto

section \<open>The generated topology\<close>

definition switches :: "topology \<Rightarrow> (string \<times> string list) list" where
  "switches topo = concat (map snd topo)"

definition topo_devs :: "topology \<Rightarrow> string list" where
  "topo_devs topo = concat (map snd (switches topo))"

lemma map_at_twice: "map_at k d f2 (map_at k d f1 m) = map_at k d (f2 \<circ> f1) m"
  by (induction k d f1 m rule: map_at.induct) auto

lemma map_at_new_key: "k \<notin> fst ` set m \<Longrightarrow> mset (map_at k d f m) = add_mset (k, f d) (mset m)"
  by (induction k d f m rule: map_at.induct) auto

lemma mset_switches_map_at:
  "\<exists>s. (s = [] \<or> (n, s) \<in> set topo) \<and> mset (switches (map_at n [] f topo)) + mset s = mset (switches topo) + mset (f s)"
proof (induction n "[] :: (string, string list) omap" f topo rule: map_at.induct)
  case (2 k f a v m)
  consider "k < a" | "k = a" | "a < k" by fastforce
  then show ?case
  proof cases
    case 1
    then show ?thesis by (intro exI [of _ "[]"]) (simp add: switches_def)
  next
    case 2
    then show ?thesis by (intro exI [of _ v]) (simp add: switches_def)
  next
    case 3
    then obtain s where s: "s = [] \<or> (k, s) \<in> set m" "mset (switches (map_at k [] f m)) + mset s = mset (switches m) + mset (f s)"
      using 2 by force
    then show ?thesis using 3 by (intro exI [of _ s]) (auto simp: switches_def ac_simps)
  qed
qed (simp add: switches_def)

text \<open>Three devices hung under a port that the topology does not have yet.\<close>

lemma insert_three:
  assumes "p \<notin> fst ` set (switches topo)" "distinct [a, b, c]"
  shows "\<exists>ds. mset (switches (fold (topo_insert n p) [a, b, c] topo)) = add_mset (p, ds) (mset (switches topo)) \<and> mset ds = {#a, b, c#}"
proof -
  let ?F = "map_at p [] (set_insert c) \<circ> (map_at p [] (set_insert b) \<circ> map_at p [] (set_insert a))"
  let ?G = "set_insert c \<circ> (set_insert b \<circ> set_insert a)"
  have F: "?F s = map_at p [] ?G s" for s by (simp add: map_at_twice)
  have e: "fold (topo_insert n p) [a, b, c] topo = map_at n [] ?F topo" by (simp add: topo_insert_def map_at_twice comp_assoc)
  obtain s where s: "s = [] \<or> (n, s) \<in> set topo" "mset (switches (map_at n [] ?F topo)) + mset s = mset (switches topo) + mset (?F s)"
    using mset_switches_map_at by blast
  have "p \<notin> fst ` set s" using s(1) assms(1) by (force simp: switches_def)
  then have "mset (?F s) = add_mset (p, ?G []) (mset s)" unfolding F by (rule map_at_new_key)
  then have "mset (switches (map_at n [] ?F topo)) = add_mset (p, ?G []) (mset (switches topo))" using s(2) by simp
  moreover have "mset (?G []) = {#a, b, c#}" using assms(2) by (auto simp: set_insert_def)
  ultimately show ?thesis unfolding e by blast
qed

lemma build_topo_total: "pairs_exact m \<Longrightarrow> build_topo h m topo \<noteq> None"
  by (induction h m topo rule: build_topo.induct) (auto simp: vec_at_def)

lemma build_topo_complete:
  assumes "pairs_exact m" "distinct (map fst m)" "distinct (concat (map snd m))" "fst ` set m \<inter> fst ` set (switches topo) = {}"
    "build_topo h m topo = Some topo'" "\<forall>sw \<in> set (switches topo). length (snd sw) = 3"
  shows "mset (topo_devs topo') = mset (topo_devs topo) + mset (concat (map snd m)) \<and>
    2 * length (switches topo') = 2 * length (switches topo) + length m \<and> (\<forall>sw \<in> set (switches topo'). length (snd sw) = 3)"
  using assms
proof (induction m arbitrary: topo rule: pairs_exact.induct)
  case (3 x y m)
  obtain p1 d1 p2 d2 where xy: "x = (p1, d1)" "y = (p2, d2)" by force
  have ex: "length d1 = 2 \<and> length d2 = 1 \<or> length d1 = 1 \<and> length d2 = 2" "pairs_exact m" using 3(2) by (simp_all add: xy)
  obtain p a b c where step: "build_topo h m (fold (topo_insert (get_numa_node h p) p) [a, b, c] topo) = Some topo'"
    and abc: "mset d1 + mset d2 = {#a, b, c#}" and p: "p = p1 \<or> p = p2"
  proof (cases "length d1 = 2")
    case True
    then have "length d2 = 1" using ex(1) by auto
    with True obtain u v w where "d1 = [u, v]" "d2 = [w]" by (auto simp: length_Suc_conv numeral_2_eq_2)
    then show ?thesis using 3(6) by (intro that [of p1 u v w]) (simp_all add: vec_at_def xy)
  next
    case False
    then have "length d1 = 1" "length d2 = 2" using ex(1) by auto
    then obtain u v w where "d1 = [u]" "d2 = [v, w]" by (auto simp: length_Suc_conv numeral_2_eq_2)
    then show ?thesis using 3(6) by (intro that [of p2 u v w]) (simp_all add: vec_at_def xy)
  qed
  have "distinct (d1 @ d2)" using 3(4) by (auto simp: xy)
  moreover have "mset (d1 @ d2) = mset [a, b, c]" using abc by simp
  ultimately have "distinct [a, b, c]" by (metis mset_eq_imp_distinct_iff)
  moreover have "p \<notin> fst ` set (switches topo)" using p 3(5) by (auto simp: xy)
  ultimately obtain ds where ds: "mset (switches (fold (topo_insert (get_numa_node h p) p) [a, b, c] topo)) = add_mset (p, ds) (mset (switches topo))"
    "mset ds = {#a, b, c#}" using insert_three by blast
  define t where "t = fold (topo_insert (get_numa_node h p) p) [a, b, c] topo"
  note ds = ds [folded t_def]
  have sw: "set (switches t) = insert (p, ds) (set (switches topo))" using arg_cong [OF ds(1), of set_mset] by simp
  have len: "length (switches t) = Suc (length (switches topo))" using arg_cong [OF ds(1), of size] by simp
  have "length ds = 3" using arg_cong [OF ds(2), of size] by simp
  then have three: "\<forall>sw \<in> set (switches t). length (snd sw) = 3" using 3(7) sw by auto
  have sum: "(\<Sum>x \<in># mset xs. mset (snd x)) = (\<Sum>x \<leftarrow> xs. mset (snd x))" for xs :: "(string \<times> string list) list"
    by (metis mset_map sum_mset_sum_list)
  have dev: "mset (topo_devs t) = mset ds + mset (topo_devs topo)"
    using arg_cong [OF ds(1), of "\<lambda>M. \<Sum>\<^sub># (image_mset (mset \<circ> snd) M)"] by (simp add: topo_devs_def mset_concat o_def sum)
  have "fst ` set m \<inter> fst ` set (switches t) = {}" "distinct (map fst m)" "distinct (concat (map snd m))"
    using 3(3-5) p by (auto simp: sw xy)
  from 3(1) [OF ex(2) this(2,3,1) step [folded t_def] three]
  show ?case using len dev ds(2) abc by (simp add: xy)
qed (auto simp: topo_devs_def switches_def)

text \<open>
  C32: On a machine that was accepted generation does not throw: every position it reads exists. With a usable directory it writes a file that shows four switches with three devices each,
  which are together all the GPUs and network cards found, each once, and points NCCL to the file unless the
  variable is set already, even to nothing.
\<close>
theorem vtopo_generates_all:
  assumes "GenVTopo_new h = Some g" "gv_upp g \<noteq> []" "distinct (gv_nv g @ map (nic_bdf h) (gv_ib g))" "topo_dir_ok h" "vh_fopen h"
  shows "\<exists>g' file topo env. gen h g = Some (g', Some (file, topo_lines h topo), env) \<and> gv_topo_file g' = file \<and>
    mset (topo_devs topo) = mset (gv_nv g) + mset (map (nic_bdf h) (gv_ib g)) \<and>
    length (switches topo) = 4 \<and> length ` snd ` set (switches topo) = {3} \<and>
    env ''NCCL_TOPO_FILE'' = (case vh_getenv h ''NCCL_TOPO_FILE'' of None \<Rightarrow> Some file | Some s \<Rightarrow> Some s)"
proof -
  note f = accepted_facts [OF assms(1,2)]
  obtain topo where t: "build_topo h (gv_upp g) [] = Some topo" using build_topo_total [OF f(4)] by fastforce
  have "distinct (concat (map snd (gv_upp g)))"
    using f(7) assms(3) by (metis mset_append mset_eq_imp_distinct_iff)
  from build_topo_complete [OF f(4,6) this _ t]
  have c: "mset (topo_devs topo) = mset (concat (map snd (gv_upp g)))" "length (switches topo) = 4" "\<forall>sw \<in> set (switches topo). length (snd sw) = 3"
    by (simp_all add: topo_devs_def switches_def f(3))
  then have "switches topo \<noteq> []" by auto
  then have "length ` snd ` set (switches topo) = {3}" using c(3) by (auto simp: image_iff neq_Nil_conv)
  then show ?thesis using t assms(2,4,5) c f(7) by (auto simp: gen_def Let_def split: option.splits)
qed

section \<open>An example\<close>

text \<open>Eight GPUs, each under a port of its own, and a card under every other port.\<close>

definition example_gpus :: "string list" where
  "example_gpus = [''00'', ''01'', ''02'', ''03'', ''04'', ''05'', ''06'', ''07'']"

definition example_cards :: "string list" where
  "example_cards = [''m0'', ''m2'', ''m4'', ''m6'']"

definition example_path :: "char \<Rightarrow> string" where
  "example_path c = ''/sys/devices/pci0000:00/0000:00:00.0/0000:2'' @ [c] @ '':00.0/0000:3'' @ [c] @ '':00.0''"

definition example_host :: vt_host where
  "example_host =
     \<lparr> vh_getenv = (\<lambda>_. None),
       vh_files = (\<lambda>p.
         if starts_with sys_nvidia p then Some (''0x030200'' @ [newline])
         else if starts_with sys_pci p then Some (''0xc030'' @ [newline])
         else if starts_with sys_infiniband p then (if last p = CHR ''e'' \<and> p ! 25 = CHR ''n'' then Some ''1'' else Some (''MT4129'' @ [newline]))
         else Some (''NF5688-M7'' @ [newline])),
       vh_dir = (\<lambda>p. if p = ''/sys/class/infiniband'' then Some ([''.'', ''..''] @ example_cards) else Some (''bind'' # rev example_gpus)),
       vh_realpath = (\<lambda>p. if starts_with sys_nvidia p then Some (example_path (last p)) else Some (example_path (p ! 23))),
       vh_cpuid = 0x806F8, vh_pid = 7, vh_mkdir = Some EEXIST, vh_is_dir = True, vh_fopen = True \<rparr>"

lemma example_gpus_found: "nvidia_devs example_host = rev example_gpus"
  by (simp add: nvidia_devs_def is_gpu_def example_host_def example_gpus_def good_line_def getline_buf_def starts_with_def
      sys_nvidia_def newline_def c_str_def)

lemma example_cards_found: "infiniband_devs example_host = example_cards"
  by (simp add: infiniband_devs_def is_ib_def is_cx6_def example_host_def example_cards_def good_line_def getline_buf_def starts_with_def
      sys_nvidia_def sys_pci_def sys_infiniband_def newline_def c_str_def)

lemma example_sorted: "sort (rev example_gpus) = example_gpus" "sort example_cards = example_cards"
  by (simp_all add: example_gpus_def example_cards_def)

lemma example_product: "product_known example_host" "cpu_family_id (vh_cpuid example_host) = 6" "cpu_model_id (vh_cpuid example_host) = 143"
  by (simp_all add: product_known_def example_host_def good_line_def getline_buf_def starts_with_def
      sys_nvidia_def sys_pci_def sys_infiniband_def newline_def c_str_def cpu_family_id_def cpu_model_id_def bit_field_def)

definition example_gpu_ports :: "(string, string list) omap" where
  "example_gpu_ports =
     [(''0000:20:00.0'', [''00'']), (''0000:21:00.0'', [''01'']), (''0000:22:00.0'', [''02'']), (''0000:23:00.0'', [''03'']),
      (''0000:24:00.0'', [''04'']), (''0000:25:00.0'', [''05'']), (''0000:26:00.0'', [''06'']), (''0000:27:00.0'', [''07''])]"

definition example_ports :: "(string, string list) omap" where
  "example_ports =
     [(''0000:20:00.0'', [''00'', ''0000:30:00.0'']), (''0000:21:00.0'', [''01'']), (''0000:22:00.0'', [''02'', ''0000:32:00.0'']),
      (''0000:23:00.0'', [''03'']), (''0000:24:00.0'', [''04'', ''0000:34:00.0'']), (''0000:25:00.0'', [''05'']),
      (''0000:26:00.0'', [''06'', ''0000:36:00.0'']), (''0000:27:00.0'', [''07''])]"

lemma example_place:
  "place_gpus example_host example_gpus [] = Some example_gpu_ports"
  "place_nics example_host example_cards example_gpu_ports = Some example_ports"
  by (simp_all add: place_gpus_def place_nics_def example_gpus_def example_cards_def example_gpu_ports_def example_ports_def
      example_host_def gpu_link_def nic_link_def starts_with_def sys_nvidia_def sys_infiniband_def example_path_def on_root_def
      port_pos_def up_port_def own_bdf_def bdf_len_def)

lemma example_ports_known: "list_all (port_known example_host) (map fst example_ports)" "pairs_known example_ports = Some True"
  by (simp_all add: port_known_def example_ports_def example_host_def good_line_def getline_buf_def starts_with_def
      sys_nvidia_def sys_pci_def newline_def c_str_def)

lemma example_accepted:
  "GenVTopo_new example_host = Some \<lparr> gv_upp = example_ports, gv_nv = example_gpus, gv_ib = example_cards, gv_topo_file = [] \<rparr>"
proof -
  have "length example_gpus = 8" "length example_cards = 4" "length example_gpu_ports = 8" "length example_ports = 8"
    by (simp_all add: example_gpus_def example_cards_def example_gpu_ports_def example_ports_def)
  moreover have "vh_getenv example_host v = None" for v by (simp add: example_host_def)
  ultimately show ?thesis
    by (simp add: GenVTopo_new_def switched_off_def env_nonempty_def example_product example_gpus_found example_cards_found
        example_sorted example_place example_ports_known no_vtopo_def Let_def)
qed

lemma example_nic_bdfs: "map (nic_bdf example_host) example_cards = [''0000:30:00.0'', ''0000:32:00.0'', ''0000:34:00.0'', ''0000:36:00.0'']"
  by (simp add: nic_bdf_def example_host_def example_cards_def nic_link_def starts_with_def sys_nvidia_def sys_infiniband_def
      example_path_def own_bdf_def bdf_len_def)

theorem vtopo_accepts_pairs_witness:
  "\<exists>g. GenVTopo_new example_host = Some g \<and> pairs_exact (gv_upp g) \<and> length (gv_upp g) = 8"
  using vtopo_accepts_pairs [OF example_accepted] example_accepted by (auto simp: example_ports_def)

theorem vtopo_generates_all_witness:
  "\<exists>g g' topo env. GenVTopo_new example_host = Some g \<and>
     gen example_host g = Some (g', Some (gv_topo_file g', topo_lines example_host topo), env) \<and>
     length (switches topo) = 4 \<and> env ''NCCL_TOPO_FILE'' = Some (gv_topo_file g')"
proof -
  have d: "distinct (example_gpus @ map (nic_bdf example_host) example_cards)"
    unfolding example_nic_bdfs by (simp add: example_gpus_def)
  have "topo_dir_ok example_host" "vh_fopen example_host" "vh_getenv example_host ''NCCL_TOPO_FILE'' = None"
    by (simp_all add: topo_dir_ok_def example_host_def)
  then show ?thesis
    using vtopo_generates_all [OF example_accepted] d example_accepted by (fastforce simp: example_ports_def)
qed

end
