(* ===== verification/MonScan.thy ===== *)
theory MonScan
  imports UnetPerf "HOL-Library.Multiset"
begin

text \<open>
  The monitoring tool's view of the processes, \<^verbatim>\<open>src/tools/monitor/monitor.cc\<close>: which processes hold a lock, which
  segments they have made, and the segments mapped. A computation that throws or reads outside
  a vector has no result (\<open>None\<close>).
\<close>

section \<open>The state of the tool\<close>

text \<open>The data of a mapped segment is live; it is found by the name it was mapped under.\<close>

record StatsShmInfo =
  si_shm :: string
  si_time :: int
  si_mapped :: "string option"   \<comment> \<open>\<open>addr\<close> and \<open>data\<close>\<close>
  si_size :: int
  si_desc :: "string list"
  si_counter_num :: int
  si_stat_num :: int

definition StatsShmInfo_new :: "string \<Rightarrow> StatsShmInfo" where
  "StatsShmInfo_new shm_name =
     \<lparr> si_shm = shm_name, si_time = 0, si_mapped = None, si_size = 0, si_desc = [], si_counter_num = 0, si_stat_num = 0 \<rparr>"

text \<open>
  The records are a hash map; it is modelled as the list of its pairs in the order they were made, which stands for the order of an
  iteration. The calls of \<open>mmap\<close> and \<open>munmap\<close> that succeed are recorded.
\<close>

record Monitor =
  mo_pids :: "int list"          \<comment> \<open>\<open>opts_.pids\<close>\<close>
  mo_lock_pids :: "int set"
  mo_ucommd_pids :: "int set"
  mo_records :: "(string \<times> StatsShmInfo list) list"
  mo_mmaps :: "string list"
  mo_munmaps :: "string list"

text \<open>What a file of \<^verbatim>\<open>/dev/shm\<close> holds: the header, the names and the counters that \<^verbatim>\<open>StatsShm\<close> lays out.\<close>

record shm_image =
  im_meta :: Meta
  im_desc :: "string list"
  im_mem :: counters

record mon_host =
  mh_locks :: "string option"                   \<comment> \<open>\<^verbatim>\<open>/proc/locks\<close>\<close>
  mh_uninit :: int                              \<comment> \<open>what an uninitialised \<^verbatim>\<open>int\<close> holds\<close>
  mh_dir :: "(string \<times> bool) list option"     \<comment> \<open>the entries of \<^verbatim>\<open>/dev/shm\<close>, and whether they are regular files\<close>
  mh_stat :: "string \<Rightarrow> int option"            \<comment> \<open>the size of a file\<close>
  mh_open :: "string \<Rightarrow> bool"
  mh_mmap :: "string \<Rightarrow> shm_image option"
  mh_access :: "string \<Rightarrow> bool"

section \<open>Processes that hold a lock\<close>

text \<open>Lines read into a buffer of \<open>n\<close> characters, until one does not fit.\<close>

function getlines :: "nat \<Rightarrow> string \<Rightarrow> string list" where
  "getlines n s =
     (if s = [] then []
      else let l = takeWhile (\<lambda>c. c \<noteq> newline) s; r = dropWhile (\<lambda>c. c \<noteq> newline) s
           in if n \<le> length l then [] else c_str l # getlines n (drop 1 r))"
  by pat_completeness auto
termination
proof (relation "measure (\<lambda>(n, s). length s)", simp, goal_cases)
  case (1 n s l r)
  have "length r \<le> length s" unfolding 1(3) by (rule length_dropWhile_le)
  then show ?case using 1(1) by (cases s) auto
qed

declare getlines.simps [simp del]

text \<open>\<^verbatim>\<open>ss >> tmp\<close>: a word and the rest, unless nothing is left.\<close>

definition word_of_stream :: "string \<Rightarrow> (string \<times> string) option" where
  "word_of_stream s =
     (let s = dropWhile is_space s
      in if s = [] then None else Some (takeWhile (\<lambda>c. \<not> is_space c) s, dropWhile (\<lambda>c. \<not> is_space c) s))"

fun skip_words :: "nat \<Rightarrow> string \<Rightarrow> string option" where
  "skip_words 0 s = Some s"
| "skip_words (Suc n) s = (case word_of_stream s of None \<Rightarrow> None | Some (w, r) \<Rightarrow> skip_words n r)"

text \<open>\<^verbatim>\<open>ss >> pid\<close>: nothing is stored when the stream is at its end; a word that is no number gives 0.\<close>

definition clamp_int :: "int \<Rightarrow> int" where
  "clamp_int v = max (- (2 ^ 31)) (min (2 ^ 31 - 1) v)"

definition int_of_stream :: "string \<Rightarrow> int option" where
  "int_of_stream s =
     (let s = dropWhile is_space s
      in if s = [] then None
         else let (neg, ds) = split_sign s; v = int (parse_digits 10 0 ds) in Some (clamp_int (if neg then - v else v)))"

definition lock_pid :: "int \<Rightarrow> string \<Rightarrow> int" where
  "lock_pid uninit lock =
     (case skip_words 4 lock of
        None \<Rightarrow> uninit
      | Some r \<Rightarrow> (case int_of_stream r of None \<Rightarrow> uninit | Some pid \<Rightarrow> pid))"

definition get_lock_pids :: "mon_host \<Rightarrow> Monitor \<Rightarrow> int \<times> Monitor" where
  "get_lock_pids h m =
     (case mh_locks h of
        None \<Rightarrow> (-1, m\<lparr> mo_lock_pids := {} \<rparr>)
      | Some s \<Rightarrow> (0, m\<lparr> mo_lock_pids := lock_pid (mh_uninit h) ` set (getlines 1024 s) \<rparr>))"

section \<open>Processes with statistics\<close>

text \<open>\<^verbatim>\<open>std::stoi\<close>, which throws when there is no number or it does not fit.\<close>

definition stoi :: "string \<Rightarrow> int option" where
  "stoi s =
     (let (neg, ds) = split_sign (dropWhile is_space s); v = int (parse_digits 10 0 ds); v = (if neg then - v else v)
      in if ds = [] \<or> digit_of 10 (hd ds) = None then None
         else if in_int32 v then Some v else None)"

text \<open>The number in the name of a lock file, its last field.\<close>

definition lock_file_pid :: "string \<Rightarrow> int" where
  "lock_file_pid d_name = atoi (last (getline_fields (CHR ''.'') d_name))"

definition stats_field :: "string \<Rightarrow> nat \<Rightarrow> string option" where
  "stats_field shm i = (let fs = getline_fields (CHR ''.'') shm in if i < length fs then Some (fs ! i) else None)"

text \<open>The segments of processes that hold no lock any more are unmapped and dropped.\<close>

definition info_pid :: "StatsShmInfo \<Rightarrow> int option" where
  "info_pid info = (case stats_field (si_shm info) 4 of None \<Rightarrow> None | Some f \<Rightarrow> stoi f)"

definition drop_infos :: "(StatsShmInfo \<Rightarrow> bool) \<Rightarrow> Monitor \<Rightarrow> Monitor" where
  "drop_infos gone m =
     m\<lparr> mo_records := map (\<lambda>(name, infos). (name, filter (\<lambda>i. \<not> gone i) infos)) (mo_records m),
        mo_munmaps := mo_munmaps m @ concat (map (\<lambda>(name, infos). map si_shm (filter gone infos)) (mo_records m)) \<rparr>"

definition all_infos :: "Monitor \<Rightarrow> StatsShmInfo list" where
  "all_infos m = concat (map snd (mo_records m))"

definition check_ucommd_pids :: "mon_host \<Rightarrow> Monitor \<Rightarrow> (int \<times> Monitor) option" where
  "check_ucommd_pids h m =
     (let alive = filter (\<lambda>p. p \<in> mo_lock_pids m) (mo_pids m);
          m = m\<lparr> mo_pids := alive, mo_ucommd_pids := set alive \<rparr>
      in if mo_ucommd_pids m \<noteq> {} then Some (0, m)
         else case mh_dir h of
                None \<Rightarrow> Some (-1, m)
              | Some entries \<Rightarrow>
                  let found = [lock_file_pid n. (n, reg) \<leftarrow> entries, reg \<and> starts_with kLockPrefix n];
                      m = m\<lparr> mo_ucommd_pids := set (filter (\<lambda>p. p \<in> mo_lock_pids m) found) \<rparr>
                  in if list_all (\<lambda>i. info_pid i \<noteq> None) (all_infos m)
                     then Some (0, drop_infos (\<lambda>i. the (info_pid i) \<notin> mo_lock_pids m) m) else None)"

section \<open>Segments\<close>

definition check_stats :: "mon_host \<Rightarrow> StatsShmInfo \<Rightarrow> (int \<times> StatsShmInfo) option" where
  "check_stats h info =
     (if si_shm info = [] then Some (1, info)
      else case mh_stat h (kRootDir @ si_shm info) of
             None \<Rightarrow> Some (-1, info)
           | Some sz \<Rightarrow>
               if sz = -1 then Some (1, info)
               else if \<not> mh_open h (kRootDir @ si_shm info) then Some (1, info)
               else case mh_mmap h (kRootDir @ si_shm info) of
                      None \<Rightarrow> Some (-1, info)
                    | Some im \<Rightarrow>
                        (case stoi (m_time (im_meta im)) of
                           None \<Rightarrow> None
                         | Some t \<Rightarrow>
                             let n = counter_num (im_meta im) in
                             if n \<noteq> int (length (im_desc im)) then None
                             else Some (0, info\<lparr> si_time := t, si_mapped := Some (si_shm info), si_size := sz,
                                           si_desc := si_desc info @ im_desc im, si_counter_num := n,
                                           si_stat_num := stat_num (im_meta im) \<rparr>)))"

text \<open>\<^verbatim>\<open>stats_records_[name].emplace_back(info)\<close>.\<close>

fun add_record :: "string \<Rightarrow> StatsShmInfo \<Rightarrow> (string \<times> StatsShmInfo list) list \<Rightarrow> (string \<times> StatsShmInfo list) list" where
  "add_record name info [] = [(name, [info])]"
| "add_record name info ((a, infos) # rs) = (if a = name then (a, infos @ [info]) # rs else (a, infos) # add_record name info rs)"

definition records_of :: "string \<Rightarrow> Monitor \<Rightarrow> StatsShmInfo list" where
  "records_of name m = (case map_of (mo_records m) name of None \<Rightarrow> [] | Some infos \<Rightarrow> infos)"

definition scan_entry :: "mon_host \<Rightarrow> string \<Rightarrow> Monitor \<Rightarrow> Monitor option" where
  "scan_entry h n m =
     (case (stats_field n 3, stats_field n 4) of
        (Some stats_name, Some pid) \<Rightarrow>
          if atoi pid \<notin> mo_ucommd_pids m then Some m
          else if n \<in> si_shm ` set (records_of stats_name m) then Some m
          else (case check_stats h (StatsShmInfo_new n) of
                  None \<Rightarrow> None
                | Some (r, info) \<Rightarrow>
                    if r \<noteq> 0 then Some m
                    else Some (m\<lparr> mo_records := add_record stats_name info (mo_records m), mo_mmaps := mo_mmaps m @ [n] \<rparr>))
      | _ \<Rightarrow> None)"

fun scan_entries :: "mon_host \<Rightarrow> (string \<times> bool) list \<Rightarrow> Monitor \<Rightarrow> Monitor option" where
  "scan_entries h [] m = Some m"
| "scan_entries h ((n, reg) # es) m =
     (if reg \<and> starts_with kPrefix n
      then (case scan_entry h n m of None \<Rightarrow> None | Some m \<Rightarrow> scan_entries h es m)
      else scan_entries h es m)"

definition scan_stats :: "mon_host \<Rightarrow> Monitor \<Rightarrow> (int \<times> Monitor) option" where
  "scan_stats h m =
     (case mh_dir h of
        None \<Rightarrow> Some (-1, m)
      | Some entries \<Rightarrow> map_option (\<lambda>m. (0, m)) (scan_entries h entries m))"

definition clean_stats :: "mon_host \<Rightarrow> Monitor \<Rightarrow> Monitor" where
  "clean_stats h m =
     (let m = drop_infos (\<lambda>i. \<not> mh_access h (kRootDir @ si_shm i)) m
      in m\<lparr> mo_records := filter (\<lambda>r. snd r \<noteq> []) (mo_records m) \<rparr>)"

text \<open>A failure of the first half is only reported, and leaves the pids as they are by then.\<close>

definition check_ucommd_pids_stats :: "mon_host \<Rightarrow> Monitor \<Rightarrow> Monitor option" where
  "check_ucommd_pids_stats h m =
     (let (r, m) = get_lock_pids h m in
      case (if r \<noteq> 0 then Some m else map_option snd (check_ucommd_pids h m)) of
        None \<Rightarrow> None
      | Some m \<Rightarrow> (case scan_stats h m of None \<Rightarrow> None | Some (_, m) \<Rightarrow> Some (clean_stats h m)))"

definition Monitor_new :: "mon_host \<Rightarrow> int list \<Rightarrow> Monitor option" where
  "Monitor_new h pids =
     check_ucommd_pids_stats h
       \<lparr> mo_pids = pids, mo_lock_pids = {}, mo_ucommd_pids = {}, mo_records = [], mo_mmaps = [], mo_munmaps = [] \<rparr>"

definition Monitor_destroy :: "Monitor \<Rightarrow> Monitor" where
  "Monitor_destroy m =
     m\<lparr> mo_ucommd_pids := {}, mo_lock_pids := {}, mo_records := [],
        mo_munmaps := mo_munmaps m @ map si_shm (all_infos m) \<rparr>"

section \<open>The mappings\<close>

text \<open>
  What is mapped and not unmapped are the segments of the records, each under the name it carries
  and once there.
\<close>

definition records_ok :: "(string \<times> StatsShmInfo list) list \<Rightarrow> bool" where
  "records_ok rs \<longleftrightarrow> distinct (map fst rs) \<and>
     (\<forall>(name, infos) \<in> set rs. distinct (map si_shm infos) \<and> (\<forall>i \<in> set infos. stats_field (si_shm i) 3 = Some name))"

definition mon_inv :: "Monitor \<Rightarrow> bool" where
  "mon_inv m \<longleftrightarrow> mset (mo_mmaps m) = mset (mo_munmaps m) + mset (map si_shm (all_infos m)) \<and> records_ok (mo_records m)"

lemma all_infos_update [simp]:
  "all_infos (m\<lparr> mo_pids := a \<rparr>) = all_infos m" "all_infos (m\<lparr> mo_lock_pids := b \<rparr>) = all_infos m"
  "all_infos (m\<lparr> mo_ucommd_pids := b \<rparr>) = all_infos m"
  by (simp_all add: all_infos_def)

lemma mon_inv_update [simp]:
  "mon_inv (m\<lparr> mo_pids := a \<rparr>) = mon_inv m" "mon_inv (m\<lparr> mo_lock_pids := b \<rparr>) = mon_inv m"
  "mon_inv (m\<lparr> mo_ucommd_pids := b \<rparr>) = mon_inv m"
  by (simp_all add: mon_inv_def)

lemma mset_filter_parts:
  "mset (concat (map (\<lambda>(name, infos). map si_shm (filter gone infos)) rs)) +
     mset (concat (map (\<lambda>(name, infos). map si_shm (filter (\<lambda>i. \<not> gone i) infos)) rs)) =
   mset (map si_shm (concat (map snd rs)))"
proof (induction rs)
  case (Cons r rs)
  have "mset (map si_shm (filter gone xs)) + mset (map si_shm (filter (\<lambda>i. \<not> gone i) xs)) = mset (map si_shm xs)" for xs
    by (induction xs) auto
  from this [of "snd r"] Cons show ?case by (cases r) (simp add: ac_simps)
qed simp

lemma mon_inv_drop: "mon_inv m \<Longrightarrow> mon_inv (drop_infos gone m)"
proof -
  assume m: "mon_inv m"
  have a: "map si_shm (all_infos (drop_infos gone m)) =
      concat (map (\<lambda>(name, infos). map si_shm (filter (\<lambda>i. \<not> gone i) infos)) (mo_records m))"
    by (simp add: all_infos_def drop_infos_def map_concat o_def split_def)
  have "records_ok (mo_records (drop_infos gone m))"
    using m by (auto simp: mon_inv_def records_ok_def drop_infos_def split_def o_def distinct_map_filter)
  then show ?thesis
    using m mset_filter_parts [of gone "mo_records m"] unfolding mon_inv_def a
    by (simp add: drop_infos_def all_infos_def)
qed

lemma mon_inv_pids: "mon_inv m \<Longrightarrow> get_lock_pids h m = (r, m') \<Longrightarrow> mon_inv m'"
  by (auto simp: get_lock_pids_def split: option.splits)

lemma mon_inv_check: "mon_inv m \<Longrightarrow> check_ucommd_pids h m = Some (r, m') \<Longrightarrow> mon_inv m'"
  by (auto simp: check_ucommd_pids_def Let_def mon_inv_drop split: if_splits option.splits)

lemma add_record_infos: "mset (concat (map snd (add_record name info rs))) = add_mset info (mset (concat (map snd rs)))"
  by (induction name info rs rule: add_record.induct) auto

lemma fst_add_record: "fst ` set (add_record name info rs) = insert name (fst ` set rs)"
  by (induction name info rs rule: add_record.induct) auto

lemma records_ok_Cons:
  "records_ok ((a, infos) # rs) \<longleftrightarrow> a \<notin> fst ` set rs \<and> distinct (map si_shm infos) \<and>
     (\<forall>i \<in> set infos. stats_field (si_shm i) 3 = Some a) \<and> records_ok rs"
  by (auto simp: records_ok_def)

lemma records_ok_add:
  assumes "records_ok rs" "stats_field (si_shm info) 3 = Some name"
    "si_shm info \<notin> si_shm ` set (case map_of rs name of None \<Rightarrow> [] | Some infos \<Rightarrow> infos)"
  shows "records_ok (add_record name info rs)"
  using assms
proof (induction name info rs rule: add_record.induct)
  case (2 name info a infos rs)
  then show ?case
    by (cases "a = name") (auto simp: records_ok_Cons fst_add_record split: option.splits)
qed (simp add: records_ok_def)

lemma check_stats_shm: "check_stats h info = Some (r, info') \<Longrightarrow> si_shm info' = si_shm info"
  by (auto simp: check_stats_def Let_def split: if_splits option.splits)

lemma mon_inv_scan_entry:
  assumes "mon_inv m" "scan_entry h n m = Some m'"
  shows "mon_inv m'"
proof (cases "m' = m")
  case False
  then obtain name info where f: "stats_field n 3 = Some name" "n \<notin> si_shm ` set (records_of name m)" "si_shm info = n"
    "m' = m\<lparr> mo_records := add_record name info (mo_records m), mo_mmaps := mo_mmaps m @ [n] \<rparr>"
    using assms(2) check_stats_shm [of h "StatsShmInfo_new n"]
    by (auto simp: scan_entry_def StatsShmInfo_new_def split: option.splits if_splits)
  have "mset (map si_shm (all_infos m')) = add_mset n (mset (map si_shm (all_infos m)))"
    using arg_cong [OF add_record_infos [of name info "mo_records m"], of "image_mset si_shm"] f(3,4)
    by (simp add: all_infos_def)
  moreover have "records_ok (mo_records m')"
    using assms(1) f records_ok_add [of "mo_records m" info name] by (simp add: mon_inv_def records_of_def)
  ultimately show ?thesis using assms(1) f(4) by (simp add: mon_inv_def)
qed (use assms in simp)

lemma mon_inv_scan_entries: "mon_inv m \<Longrightarrow> scan_entries h es m = Some m' \<Longrightarrow> mon_inv m'"
  by (induction h es m rule: scan_entries.induct) (auto split: if_splits option.splits dest: mon_inv_scan_entry)

lemma mon_inv_clean: "mon_inv m \<Longrightarrow> mon_inv (clean_stats h m)"
proof -
  assume "mon_inv m"
  then have m: "mon_inv (drop_infos gone m)" for gone by (rule mon_inv_drop)
  have "concat (map snd (filter (\<lambda>r. snd r \<noteq> []) rs)) = concat (map snd rs)" for rs :: "(string \<times> StatsShmInfo list) list"
    by (induction rs) auto
  moreover have "records_ok rs \<Longrightarrow> records_ok (filter P rs)" for rs P
    by (auto simp: records_ok_def distinct_map_filter)
  ultimately show ?thesis using m by (simp add: clean_stats_def Let_def mon_inv_def all_infos_def)
qed

lemma mon_inv_round:
  assumes "mon_inv m" "check_ucommd_pids_stats h m = Some m'"
  shows "mon_inv m'"
proof -
  obtain r m1 where g: "get_lock_pids h m = (r, m1)" by force
  have 1: "mon_inv m1" by (rule mon_inv_pids [OF assms(1) g])
  obtain m2 where 2: "(if r \<noteq> 0 then Some m1 else map_option snd (check_ucommd_pids h m1)) = Some m2" and
    s: "(case scan_stats h m2 of None \<Rightarrow> None | Some (_, m) \<Rightarrow> Some (clean_stats h m)) = Some m'"
    using assms(2) g by (auto simp: check_ucommd_pids_stats_def split: option.splits)
  have "mon_inv m2" using 1 2 mon_inv_check [OF 1] by (auto split: if_splits)
  then have "mon_inv m3" if "scan_stats h m2 = Some (q, m3)" for q m3
    using that mon_inv_scan_entries [of m2 h] by (auto simp: scan_stats_def split: option.splits)
  then show ?thesis using s by (auto split: option.splits prod.splits intro: mon_inv_clean)
qed

text \<open>The rounds of checks that the tool makes as it runs, on whatever the host shows each time.\<close>

fun mon_rounds :: "mon_host list \<Rightarrow> Monitor \<Rightarrow> Monitor option" where
  "mon_rounds [] m = Some m"
| "mon_rounds (h # hs) m = (case check_ucommd_pids_stats h m of None \<Rightarrow> None | Some m \<Rightarrow> mon_rounds hs m)"

lemma mon_inv_rounds: "mon_inv m \<Longrightarrow> mon_rounds hs m = Some m' \<Longrightarrow> mon_inv m'"
  by (induction hs m rule: mon_rounds.induct) (auto split: option.splits dest: mon_inv_round)

lemma mon_inv_new:
  assumes "Monitor_new h pids = Some m"
  shows "mon_inv m"
proof (rule mon_inv_round)
  show "mon_inv \<lparr> mo_pids = pids, mo_lock_pids = {}, mo_ucommd_pids = {}, mo_records = [], mo_mmaps = [], mo_munmaps = [] \<rparr>"
    by (simp add: mon_inv_def records_ok_def all_infos_def)
qed (use assms in \<open>simp only: Monitor_new_def\<close>)

text \<open>
  C33: The tool maps and unmaps in balance: after any rounds of checks, whatever processes and segments come and go, the segments mapped and not unmapped are exactly
  those of the records, none of them twice, and the destructor unmaps the rest.
\<close>
theorem monitor_unmaps_all:
  assumes "Monitor_new h pids = Some m" "mon_rounds hs m = Some m'"
  shows "mset (mo_mmaps m') = mset (mo_munmaps m') + mset (map si_shm (all_infos m')) \<and> distinct (map si_shm (all_infos m')) \<and>
    mset (mo_munmaps (Monitor_destroy m')) = mset (mo_mmaps (Monitor_destroy m'))"
proof -
  have i: "mon_inv m'" by (rule mon_inv_rounds [OF mon_inv_new [OF assms(1)] assms(2)])
  have "distinct (map si_shm (concat (map snd rs)))" if "records_ok rs" for rs
    using that
  proof (induction rs)
    case (Cons r rs)
    obtain a infos where r: "r = (a, infos)" by force
    have "stats_field (si_shm x) 3 \<noteq> Some a" if "x \<in> set (concat (map snd rs))" for x
    proof -
      from that obtain b ys where "(b, ys) \<in> set rs" "x \<in> set ys" by auto
      then have "stats_field (si_shm x) 3 = Some b" "b \<noteq> a"
        using Cons.prems by (auto simp: records_ok_def r split_def image_iff)
      then show ?thesis by simp
    qed
    then have "si_shm ` set infos \<inter> si_shm ` set (concat (map snd rs)) = {}"
      using Cons.prems by (auto simp: r records_ok_Cons simp del: set_concat)
    then show ?case using Cons by (simp add: r records_ok_Cons)
  qed simp
  then have "distinct (map si_shm (all_infos m'))" using i by (simp add: mon_inv_def all_infos_def)
  then show ?thesis using i by (simp add: mon_inv_def Monitor_destroy_def)
qed

section \<open>What the processes write is found\<close>

definition image_of :: "StatsShm \<Rightarrow> shm_image" where
  "image_of s = \<lparr> im_meta = the (ss_meta s), im_desc = ss_desc s, im_mem = ss_mem s \<rparr>"

definition plain :: "string \<Rightarrow> bool" where
  "plain s \<longleftrightarrow> CHR ''.'' \<notin> set s"

lemma plain_to_string_nat [simp]: "plain (to_string_nat n)"
  using to_string_nat_digits digit_char_neq [of _ "CHR ''.''"] by (fastforce simp: plain_def)

lemma shm_name_fields:
  assumes "plain i" "plain name" "plain this" "this \<noteq> []"
  shows "getline_fields (CHR ''.'') (shm_file_name i name pid this) = [[], ''ucommd_stats'', i, name, to_string_nat pid, this]"
proof -
  let ?fs = "[[], ''ucommd_stats'', i, name, to_string_nat pid, this]"
  have "shm_file_name i name pid this = join_with (CHR ''.'') ?fs"
    by (simp add: shm_file_name_def kPrefix_def)
  moreover have "\<forall>f \<in> set ?fs. CHR ''.'' \<notin> set f"
    using assms plain_to_string_nat [of pid] by (auto simp: plain_def)
  ultimately show ?thesis using getline_fields_join [of ?fs "CHR ''.''"] assms(4) by simp
qed

lemma stoi_to_string_nat: "t < 2 ^ 31 \<Longrightarrow> stoi (to_string_nat t) = Some (int t)"
proof -
  assume t: "t < 2 ^ 31"
  obtain d ds where d: "d < 10" "to_string_nat t = digit_char d # ds" using to_string_nat_hd by blast
  have "int t < 2 ^ 31" using t by (metis of_nat_less_iff of_nat_numeral of_nat_power)
  then show ?thesis
    using split_sign_to_string_nat [of t "[]"] parse_to_string_nat [of t] d
    by (simp add: stoi_def Let_def in_int32_def)
qed

lemma initialised_segment:
  assumes "StatsShm_init e (StatsShm_new i name num cl) = (0, s)"
  shows "ss_shm s = shm_file_name i name (se_pid e) (se_this e)" "ss_desc s = map (strncpy (DESC_LEN_MAX - 1)) cl"
    "\<exists>meta. ss_meta s = Some meta \<and> counter_num meta = int (length cl) \<and> stat_num meta = int num \<and>
       m_time meta = strncpy (NAME_LEN_MAX - 1) (se_time e)"
  using assms by (auto simp: StatsShm_init_def StatsShm_new_def create_shm_def Let_def split: if_splits option.splits)

lemma kPrefix_shm: "starts_with kPrefix (shm_file_name i name pid this)"
  by (simp add: starts_with_def shm_file_name_def kPrefix_def)

lemma set_add_record:
  "map_of (add_record name info rs) k =
     (if k = name then Some ((case map_of rs name of None \<Rightarrow> [] | Some infos \<Rightarrow> infos) @ [info]) else map_of rs k)"
  by (induction name info rs rule: add_record.induct) auto

lemma records_of_add [simp]:
  "records_of k (m\<lparr> mo_records := add_record name info (mo_records m), mo_mmaps := x \<rparr>) =
     (if k = name then records_of name m @ [info] else records_of k m)"
  by (simp add: records_of_def set_add_record)

lemma scan_entry_grows:
  assumes "scan_entry h n m = Some m'"
  shows "set (records_of k m) \<subseteq> set (records_of k m')" "mo_ucommd_pids m' = mo_ucommd_pids m"
  using assms by (auto simp: scan_entry_def split: option.splits if_splits)

lemma scan_entries_grows:
  "scan_entries h es m = Some m' \<Longrightarrow> set (records_of k m) \<subseteq> set (records_of k m') \<and> mo_ucommd_pids m' = mo_ucommd_pids m"
proof (induction es arbitrary: m)
  case (Cons x es)
  obtain n reg where x: "x = (n, reg)" by force
  show ?case
  proof (cases "reg \<and> starts_with kPrefix n")
    case True
    then obtain m1 where m1: "scan_entry h n m = Some m1" "scan_entries h es m1 = Some m'"
      using Cons.prems by (auto simp: x split: option.splits)
    show ?thesis using scan_entry_grows [OF m1(1)] Cons.IH [OF m1(2)] by (metis subset_trans)
  next
    case False
    then show ?thesis using Cons by (auto simp: x split: if_splits)
  qed
qed simp

text \<open>What the record of a segment says.\<close>

definition describes :: "StatsShm \<Rightarrow> int \<Rightarrow> nat \<Rightarrow> int \<Rightarrow> string list \<Rightarrow> StatsShmInfo \<Rightarrow> bool" where
  "describes s t num sz cl info \<longleftrightarrow>
     info = \<lparr> si_shm = ss_shm s, si_time = t, si_mapped = Some (ss_shm s), si_size = sz, si_desc = map (strncpy 127) cl,
              si_counter_num = int (length cl), si_stat_num = int num \<rparr>"

lemma check_stats_image:
  assumes "StatsShm_init e (StatsShm_new i name num cl) = (0, s)" "se_time e = to_string_nat t" "t < 2 ^ 31"
    "mh_stat h (kRootDir @ ss_shm s) = Some sz" "0 \<le> sz" "mh_open h (kRootDir @ ss_shm s)"
    "mh_mmap h (kRootDir @ ss_shm s) = Some (image_of s')" "ss_meta s' = ss_meta s" "ss_desc s' = ss_desc s"
  shows "\<exists>info. check_stats h (StatsShmInfo_new (ss_shm s)) = Some (0, info) \<and> describes s (int t) num sz cl info"
proof -
  note g = initialised_segment [OF assms(1)]
  obtain meta where m: "ss_meta s = Some meta" "counter_num meta = int (length cl)" "stat_num meta = int num"
    "m_time meta = strncpy (NAME_LEN_MAX - 1) (se_time e)" using g(3) by blast
  have "t < 10 ^ 10" using assms(3) by (rule less_trans) simp
  then have "length (to_string_nat t) \<le> 10" using length_to_string_nat [of t 10] by simp
  then have "stoi (m_time meta) = Some (int t)"
    using stoi_to_string_nat [OF assms(3)] by (simp add: m(4) assms(2) strncpy_def NAME_LEN_MAX_def)
  moreover have "ss_shm s \<noteq> []" by (simp add: g(1) shm_file_name_def kPrefix_def)
  ultimately show ?thesis
    using assms(4-9) m g(2) by (simp add: check_stats_def StatsShmInfo_new_def image_of_def describes_def DESC_LEN_MAX_def)
qed

text \<open>The records of one file: a scan that comes by it leaves one that is as the file says.\<close>

definition told :: "(StatsShmInfo \<Rightarrow> bool) \<Rightarrow> string \<Rightarrow> string \<Rightarrow> Monitor \<Rightarrow> bool" where
  "told says shm name m \<longleftrightarrow> (\<forall>y \<in> set (records_of name m). si_shm y = shm \<longrightarrow> says y)"

lemma scan_entry_other:
  assumes "scan_entry h n m = Some m'" "n \<noteq> shm" "told says shm name m"
  shows "told says shm name m'"
  using assms check_stats_shm [of h "StatsShmInfo_new n"] unfolding told_def
  by (auto simp: scan_entry_def StatsShmInfo_new_def split: if_splits option.splits)

lemma scan_entries_reaches:
  assumes here: "\<And>m1 m2. scan_entry h shm m1 = Some m2 \<Longrightarrow> pid \<in> mo_ucommd_pids m1 \<Longrightarrow> told says shm name m1 \<Longrightarrow>
      \<exists>y \<in> set (records_of name m2). says y"
    and start: "starts_with kPrefix shm"
  shows "scan_entries h es m = Some m' \<Longrightarrow> (shm, True) \<in> set es \<Longrightarrow> pid \<in> mo_ucommd_pids m \<Longrightarrow> told says shm name m \<Longrightarrow>
    \<exists>y \<in> set (records_of name m'). says y"
proof (induction es arbitrary: m)
  case (Cons x es)
  obtain n reg where x: "x = (n, reg)" by force
  show ?case
  proof (cases "reg \<and> starts_with kPrefix n")
    case True
    then obtain m3 where m3: "scan_entry h n m = Some m3" "scan_entries h es m3 = Some m'"
      using Cons.prems(1) by (auto simp: x split: option.splits)
    show ?thesis
    proof (cases "n = shm")
      case True
      from here [OF m3(1) [unfolded True] Cons.prems(3,4)] show ?thesis using scan_entries_grows [OF m3(2), of name] by blast
    next
      case False
      from scan_entry_other [OF m3(1) False Cons.prems(4)] show ?thesis
        using Cons.IH [OF m3(2)] Cons.prems(2,3) scan_entry_grows(2) [OF m3(1)] False by (auto simp: x)
    qed
  next
    case False
    then have "scan_entries h es m = Some m'" "(shm, True) \<in> set es" using Cons.prems(1,2) start by (auto simp: x split: if_splits)
    then show ?thesis using Cons by blast
  qed
qed simp

lemma records_of_all: "set (records_of name m) \<subseteq> set (all_infos m)"
  by (cases "map_of (mo_records m) name") (force simp: records_of_def all_infos_def dest: map_of_SomeD)+

text \<open>
  C35: What a process writes the tool reads back: a segment that was initialised, of a process the tool has found, is recorded under the segment's
  name after a scan of the directory, with the counter names (cut to 127 characters), the numbers of counters and objects, and the
  time it was made, unless it was recorded before.
\<close>
theorem monitor_finds_segment:
  assumes "StatsShm_init e (StatsShm_new i name num cl) = (0, s)" "se_time e = to_string_nat t" "t < 2 ^ 31"
    and "plain i" "plain name" "plain (se_this e)" "se_this e \<noteq> []" "se_pid e < 2 ^ 31"
    and "mh_dir h = Some es" "(ss_shm s, True) \<in> set es" "mh_stat h (kRootDir @ ss_shm s) = Some sz" "0 \<le> sz" "mh_open h (kRootDir @ ss_shm s)"
    and "mh_mmap h (kRootDir @ ss_shm s) = Some (image_of s')" "ss_meta s' = ss_meta s" "ss_desc s' = ss_desc s"
    and "int (se_pid e) \<in> mo_ucommd_pids m" "ss_shm s \<notin> si_shm ` set (all_infos m)" "scan_stats h m = Some (r, m')"
  shows "r = 0 \<and> (\<exists>info \<in> set (records_of name m'). describes s (int t) num sz cl info)"
proof -
  note g = initialised_segment [OF assms(1)]
  have f: "stats_field (ss_shm s) 3 = Some name" "stats_field (ss_shm s) 4 = Some (to_string_nat (se_pid e))"
    by (simp_all add: stats_field_def g(1) shm_name_fields [OF assms(4-7)])
  have pid: "atoi (to_string_nat (se_pid e)) = int (se_pid e)" using atoi_to_string_nat [OF assms(8), of "[]"] by simp
  have start: "starts_with kPrefix (ss_shm s)" by (simp add: g(1) kPrefix_shm)
  obtain info where info: "check_stats h (StatsShmInfo_new (ss_shm s)) = Some (0, info)" "describes s (int t) num sz cl info"
    using check_stats_image [OF assms(1-3,11-16)] by blast
  let ?says = "describes s (int t) num sz cl"
  have here: "\<exists>y \<in> set (records_of name m2). ?says y"
    if "scan_entry h (ss_shm s) m1 = Some m2" "int (se_pid e) \<in> mo_ucommd_pids m1" "told ?says (ss_shm s) name m1" for m1 m2
    using that info by (auto simp: scan_entry_def told_def f pid split: if_splits option.splits)
  have "told ?says (ss_shm s) name m" using assms(18) records_of_all [of name m] by (force simp: told_def)
  with scan_entries_reaches [of h "ss_shm s", OF here start _ assms(10,17)] show ?thesis
    using assms(9,19) by (auto simp: scan_stats_def split: option.splits)
qed

section \<open>The processes that hold their lock are found\<close>

text \<open>A line of \<^verbatim>\<open>/proc/locks\<close>: words, each with the blanks after it, the number of the process and more.\<close>

definition spaced :: "(string \<times> string) list \<Rightarrow> string" where
  "spaced wps = concat (map (\<lambda>(w, p). w @ p) wps)"

definition word_blank :: "string \<times> string \<Rightarrow> bool" where
  "word_blank wp \<longleftrightarrow> fst wp \<noteq> [] \<and> snd wp \<noteq> [] \<and> list_all (\<lambda>c. \<not> is_space c) (fst wp) \<and> list_all is_space (snd wp)"

lemma word_of_stream_spaced:
  assumes "list_all is_space p0" "word_blank (w, p)"
  shows "word_of_stream (p0 @ w @ p @ r) = Some (w, p @ r)"
proof -
  obtain c cs where w: "w = c # cs" "\<not> is_space c" using assms(2) by (cases w) (auto simp: word_blank_def)
  obtain d ds where p: "p = d # ds" "is_space d" using assms(2) by (cases p) (auto simp: word_blank_def)
  have "dropWhile is_space (p0 @ w @ p @ r) = w @ p @ r"
    using assms(1) w by (subst dropWhile_append2) (auto simp: list_all_iff)
  moreover have "takeWhile (\<lambda>c. \<not> is_space c) (w @ p @ r) = w" "dropWhile (\<lambda>c. \<not> is_space c) (w @ p @ r) = p @ r"
    using assms(2) p by (auto simp: word_blank_def list_all_iff takeWhile_append2 dropWhile_append2)
  ultimately show ?thesis using w by (simp add: word_of_stream_def Let_def)
qed

lemma skip_words_spaced:
  "list_all is_space p0 \<Longrightarrow> list_all word_blank wps \<Longrightarrow>
   \<exists>p. list_all is_space p \<and> skip_words (length wps) (p0 @ spaced wps @ r) = Some (p @ r)"
proof (induction wps arbitrary: p0)
  case (Cons wp wps)
  obtain w p where wp: "wp = (w, p)" by force
  have "list_all is_space p" "word_blank (w, p)" using Cons.prems by (simp_all add: wp word_blank_def)
  then show ?case
    using Cons.IH [of p] Cons.prems word_of_stream_spaced [of p0 w p "spaced wps @ r"] by (auto simp: wp spaced_def)
qed (auto simp: spaced_def)

lemma int_of_stream_pid:
  assumes "list_all is_space p" "k < 2 ^ 31" "rest = [] \<or> digit_of 10 (hd rest) = None"
  shows "int_of_stream (p @ to_string_nat k @ rest) = Some (int k)"
proof -
  obtain d ds where d: "d < 10" "to_string_nat k = digit_char d # ds" using to_string_nat_hd by blast
  have drop: "dropWhile is_space (p @ to_string_nat k @ rest) = to_string_nat k @ rest"
    using assms(1) d by (subst dropWhile_append2) (auto simp: list_all_iff)
  have "split_sign (to_string_nat k @ rest) = (False, to_string_nat k @ rest)"
    using split_sign_to_string_nat [of k rest] d by simp
  moreover have "\<forall>c \<in> set (to_string_nat k). digit_of 10 c \<noteq> None" by (auto dest!: to_string_nat_digits)
  then have "parse_digits 10 0 (to_string_nat k @ rest) = k"
    using parse_digits_stop [OF _ assms(3), of "to_string_nat k" 0] parse_to_string_nat [of k] by simp
  moreover have "int k < 2 ^ 31" using assms(2) by (metis of_nat_less_iff of_nat_numeral of_nat_power)
  ultimately show ?thesis by (simp add: int_of_stream_def drop clamp_int_def)
qed

definition held_line :: "(string \<times> string) list \<Rightarrow> nat \<Rightarrow> string \<Rightarrow> string" where
  "held_line wps pid rest = spaced wps @ to_string_nat pid @ rest"

lemma lock_pid_held:
  assumes "list_all word_blank wps" "length wps = 4" "pid < 2 ^ 31" "rest = [] \<or> digit_of 10 (hd rest) = None"
  shows "lock_pid uninit (held_line wps pid rest) = int pid"
proof -
  obtain p where "list_all is_space p" "skip_words 4 (held_line wps pid rest) = Some (p @ to_string_nat pid @ rest)"
    using skip_words_spaced [of "[]" wps "to_string_nat pid @ rest"] assms(1,2) by (auto simp: held_line_def)
  then show ?thesis using int_of_stream_pid [OF _ assms(3,4)] by (simp add: lock_pid_def)
qed

lemma split_fields_append:
  "split_fields sep cur (xs @ sep # ys) = split_fields sep cur (xs @ [sep]) @ split_fields sep [] ys"
  by (induction xs arbitrary: cur) auto

lemma lock_file_pid_name:
  assumes "pid < 2 ^ 31"
  shows "lock_file_pid (kLockPrefix @ name @ ''.'' @ to_string_nat pid) = int pid"
proof -
  have "getline_fields (CHR ''.'') ((kLockPrefix @ name) @ CHR ''.'' # to_string_nat pid) =
      split_fields (CHR ''.'') [] ((kLockPrefix @ name) @ [CHR ''.'']) @ [to_string_nat pid]"
    unfolding getline_fields_def
    by (subst split_fields_append) (use split_fields_end [of "CHR ''.''" "to_string_nat pid" "[]"] plain_to_string_nat [of pid] in \<open>simp add: plain_def\<close>)
  then show ?thesis using atoi_to_string_nat [OF assms, of "[]"] by (simp add: lock_file_pid_def)
qed

text \<open>
  C36: A process that holds its lock is found, whatever its name: from the lock file that the performance monitor of a process makes, and the
  line the kernel keeps for its lock, the tool reads the process's number, dots in the name of the program included.
\<close>
theorem monitor_finds_process:
  assumes "\<not> switched_off (pe_getenv e ''SICL_UCOMMD_STATS_DISABLE'')" "pe_pid e < 2 ^ 31"
    and "mh_locks h = Some locks" "held_line wps (pe_pid e) rest \<in> set (getlines 1024 locks)"
    and "list_all word_blank wps" "length wps = 4" "rest = [] \<or> digit_of 10 (hd rest) = None"
    and "mo_pids m = []" "mh_dir h = Some es" "(d_name, True) \<in> set es" "pf_lock_file (UnetPerfMonitor_new e) = kRootDir @ d_name"
    and "get_lock_pids h m = (r, m1)" "check_ucommd_pids h m1 = Some (r', m2)"
  shows "r = 0 \<and> r' = 0 \<and> int (pe_pid e) \<in> mo_ucommd_pids m2"
proof -
  obtain name where d: "d_name = kLockPrefix @ name @ ''.'' @ to_string_nat (pe_pid e)"
    using assms(1,11) by (auto simp: UnetPerfMonitor_new_def blank_monitor_def Let_def)
  have start: "starts_with kLockPrefix d_name" by (simp add: d starts_with_def)
  have "int (pe_pid e) \<in> lock_pid (mh_uninit h) ` set (getlines 1024 locks)"
    using assms(4) lock_pid_held [OF assms(5,6,2,7), of "mh_uninit h"] by (metis image_eqI)
  then have m1: "r = 0" "mo_pids m1 = []" "int (pe_pid e) \<in> mo_lock_pids m1"
    using assms(3,8,12) by (auto simp: get_lock_pids_def)
  have "int (pe_pid e) \<in> set [lock_file_pid n. (n, reg) \<leftarrow> es, reg \<and> starts_with kLockPrefix n]"
    using assms(10) start lock_file_pid_name [OF assms(2), of name] by (force simp: d)
  moreover have "r' = 0 \<and> mo_ucommd_pids m2 =
      set (filter (\<lambda>p. p \<in> mo_lock_pids m1) [lock_file_pid n. (n, reg) \<leftarrow> es, reg \<and> starts_with kLockPrefix n])"
    using assms(9,13) m1(2) by (auto simp: check_ucommd_pids_def Let_def drop_infos_def simp del: set_filter split: if_splits)
  ultimately show ?thesis using m1(1,3) by simp
qed

text \<open>A process that waits for a lock is listed with an arrow, which moves the words: it is taken for process 0.\<close>

lemma lock_pid_waiting:
  assumes "list_all word_blank [(w1, p1), (''->'', p2), (w2, p3), (w3, p4), (w4, p5)]"
    "split_sign w4 = (False, w4)" "digit_of 10 (hd w4) = None"
  shows "lock_pid uninit (held_line [(w1, p1), (''->'', p2), (w2, p3), (w3, p4), (w4, p5)] pid rest) = 0"
proof -
  let ?r = "w4 @ p5 @ to_string_nat pid @ rest"
  define ws where "ws = [(w1, p1), (''->'', p2), (w2, p3), (w3, p4)]"
  have l: "length ws = 4" "held_line [(w1, p1), (''->'', p2), (w2, p3), (w3, p4), (w4, p5)] pid rest = spaced ws @ ?r"
    "list_all word_blank ws"
    using assms(1) by (simp_all add: ws_def held_line_def spaced_def)
  obtain p where p: "list_all is_space p" "skip_words 4 (spaced ws @ ?r) = Some (p @ ?r)"
    using skip_words_spaced [of "[]" ws ?r] l(1,3) by auto
  obtain c cs where w: "w4 = c # cs" "\<not> is_space c" "digit_of 10 c = None" using assms(1,3) by (cases w4) (auto simp: word_blank_def)
  have "dropWhile is_space (p @ ?r) = ?r" using p(1) w by (subst dropWhile_append2) (auto simp: list_all_iff)
  moreover have "split_sign ?r = (False, ?r)" using assms(2) w by (auto split: if_splits)
  ultimately have "int_of_stream (p @ ?r) = Some 0" using w by (simp add: int_of_stream_def clamp_int_def)
  then show ?thesis using p(2) l(2) by (simp add: lock_pid_def)
qed

section \<open>Examples\<close>

definition example_image :: shm_image where
  "example_image =
     \<lparr> im_meta = \<lparr> m_shm = [], m_time = ''100'', m_name = ''a'', counter_num = 1, stat_num = 1, meta_size = 536, desc_size = 128,
         stats_size = 8, total_size = 672 \<rparr>, im_desc = [''pid''], im_mem = [7] \<rparr>"

definition example_segment_name :: string where
  "example_segment_name = ''.ucommd_stats._.a.7.0x1''"

definition example_locks :: string where
  "example_locks = ''1: FLOCK  ADVISORY  WRITE 7 x'' @ [newline]"

definition example_mon_host :: "bool \<Rightarrow> mon_host" where
  "example_mon_host alive =
     \<lparr> mh_locks = Some (if alive then example_locks else []), mh_uninit = 0,
       mh_dir = Some (if alive then [(''.ucommd_lock.p.q.7'', True), (example_segment_name, True)] else []),
       mh_stat = (\<lambda>_. Some 672), mh_open = (\<lambda>_. True), mh_mmap = (\<lambda>_. Some example_image), mh_access = (\<lambda>_. alive) \<rparr>"

definition example_info :: StatsShmInfo where
  "example_info = \<lparr> si_shm = example_segment_name, si_time = 100, si_mapped = Some example_segment_name, si_size = 672,
     si_desc = [''pid''], si_counter_num = 1, si_stat_num = 1 \<rparr>"

definition example_mon :: "bool \<Rightarrow> Monitor" where
  "example_mon alive =
     \<lparr> mo_pids = [], mo_lock_pids = (if alive then {7} else {}), mo_ucommd_pids = (if alive then {7} else {}),
       mo_records = (if alive then [(''a'', [example_info])] else []),
       mo_mmaps = [example_segment_name], mo_munmaps = (if alive then [] else [example_segment_name]) \<rparr>"

lemma example_fields:
  "stats_field example_segment_name 3 = Some ''a''" "stats_field example_segment_name 4 = Some ''7''"
  "atoi ''7'' = 7" "stoi ''7'' = Some 7" "stoi ''100'' = Some 100" "lock_file_pid ''.ucommd_lock.p.q.7'' = 7"
  "starts_with kPrefix example_segment_name" "starts_with kLockPrefix ''.ucommd_lock.p.q.7''"
  "\<not> starts_with kPrefix ''.ucommd_lock.p.q.7''" "\<not> starts_with kLockPrefix example_segment_name" "example_segment_name \<noteq> []"
  by code_simp+

lemma example_lock_pids: "lock_pid 0 ` set (getlines 1024 example_locks) = {7}"
  by code_simp

lemma example_first: "Monitor_new (example_mon_host True) [] = Some (example_mon True)"
  by (simp add: Monitor_new_def check_ucommd_pids_stats_def get_lock_pids_def example_mon_host_def example_lock_pids check_ucommd_pids_def
      all_infos_def drop_infos_def scan_stats_def scan_entry_def example_fields records_of_def check_stats_def StatsShmInfo_new_def
      example_image_def clean_stats_def example_mon_def example_info_def)

lemma example_second: "check_ucommd_pids_stats (example_mon_host False) (example_mon True) = Some (example_mon False)"
  by (simp add: check_ucommd_pids_stats_def get_lock_pids_def example_mon_host_def getlines.simps check_ucommd_pids_def
      all_infos_def drop_infos_def scan_stats_def example_fields info_pid_def clean_stats_def example_mon_def example_info_def)

theorem monitor_unmaps_all_witness:
  "\<exists>m m'. Monitor_new (example_mon_host True) [] = Some m \<and> mo_mmaps m = [example_segment_name] \<and> mo_munmaps m = [] \<and>
     mon_rounds [example_mon_host False] m = Some m' \<and> mset (mo_munmaps m') = {#example_segment_name#}"
proof -
  have r: "mon_rounds [example_mon_host False] (example_mon True) = Some (example_mon False)" by (simp add: example_second)
  show ?thesis
    using monitor_unmaps_all [OF example_first r] example_first r
    by (intro exI [of _ "example_mon True"] exI [of _ "example_mon False"]) (simp add: example_mon_def all_infos_def)
qed

theorem monitor_finds_process_witness:
  "\<exists>m1 m2 r'. get_lock_pids (example_mon_host True) (example_mon False) = (0, m1) \<and>
     check_ucommd_pids (example_mon_host True) m1 = Some (r', m2) \<and> 7 \<in> mo_ucommd_pids m2"
proof -
  let ?h = "example_mon_host True"
  let ?e = "(example_perf_env None)\<lparr> pe_files := (\<lambda>_. Some (''p.q'' @ [newline])) \<rparr>"
  let ?ws = "[(''1:'', '' ''), (''FLOCK'', ''  ''), (''ADVISORY'', ''  ''), (''WRITE'', '' '')]"
  obtain m1 where g: "get_lock_pids ?h (example_mon False) = (0, m1)"
    by (simp add: get_lock_pids_def example_mon_host_def)
  have m1: "mo_pids m1 = []" "all_infos m1 = []" using g by (auto simp: get_lock_pids_def example_mon_host_def example_mon_def all_infos_def)
  then have "check_ucommd_pids ?h m1 \<noteq> None" by (simp add: check_ucommd_pids_def example_mon_host_def Let_def)
  then obtain r' m2 where c: "check_ucommd_pids ?h m1 = Some (r', m2)" by force
  have name: "pf_lock_file (UnetPerfMonitor_new ?e) = kRootDir @ ''.ucommd_lock.p.q.7''"
  proof -
    have "good_line (\<lambda>_. Some (''p.q'' @ [newline])) 128 p = Some ''p.q''" for p
      by (simp add: good_line_def getline_buf_def newline_def c_str_def)
    moreover have "to_string_nat 7 = ''7''" by code_simp
    ultimately show ?thesis
      by (simp add: UnetPerfMonitor_new_def example_perf_env_def switched_off_def Let_def kLockPrefix_def)
  qed
  have line: "held_line ?ws 7 '' x'' = ''1: FLOCK  ADVISORY  WRITE 7 x''" by code_simp
  then have in_file: "held_line ?ws (pe_pid ?e) '' x'' \<in> set (getlines 1024 example_locks)"
    by (simp add: example_perf_env_def example_locks_def getlines.simps newline_def c_str_def)
  have "list_all word_blank ?ws" "digit_of 10 (hd '' x'') = None" by code_simp+
  then show ?thesis
    using monitor_finds_process [of ?e ?h _ ?ws "'' x''" "example_mon False" _ _ 0 m1 r' m2, OF _ _ _ in_file _ _ _ _ _ _ name g c] g c
    by (auto simp: example_perf_env_def switched_off_def example_mon_host_def example_mon_def)
qed

text \<open>The segment of the InfiniBand counters, read back by a tool that knows process 7.\<close>

theorem monitor_finds_segment_witness:
  "\<exists>s h m m' info. StatsShm_init example_shm_env (StatsShm_new ''_'' kUnetIbStats 1 ib_counter_list) = (0, s) \<and>
     scan_stats h m = Some (0, m') \<and> mo_records m = [] \<and> info \<in> set (records_of kUnetIbStats m') \<and> si_shm info = ss_shm s \<and>
     si_stat_num info = 1 \<and> si_counter_num info = 10"
proof -
  have works: "shm_works example_shm_env" by (simp add: shm_works_def example_shm_env_def)
  obtain s where s: "StatsShm_init example_shm_env (StatsShm_new ''_'' kUnetIbStats 1 ib_counter_list) = (0, s)"
    using StatsShm_init_works [OF works] by blast
  define h where "h = \<lparr> mh_locks = None, mh_uninit = 0, mh_dir = Some [(ss_shm s, True)], mh_stat = (\<lambda>_. Some 1896), mh_open = (\<lambda>_. True),
    mh_mmap = (\<lambda>_. Some (image_of s)), mh_access = (\<lambda>_. True) \<rparr>"
  define m where "m = \<lparr> mo_pids = [], mo_lock_pids = {}, mo_ucommd_pids = {7}, mo_records = [], mo_mmaps = [], mo_munmaps = [] \<rparr>"
  have t: "se_time example_shm_env = to_string_nat 100" by code_simp
  have p: "plain ''_''" "plain kUnetIbStats" "plain (se_this example_shm_env)" "se_this example_shm_env \<noteq> []" "se_pid example_shm_env = 7"
    by (simp_all add: plain_def kUnetIbStats_def example_shm_env_def)
  have f: "stats_field (ss_shm s) 3 = Some kUnetIbStats" "stats_field (ss_shm s) 4 = Some (to_string_nat 7)" "starts_with kPrefix (ss_shm s)"
    using initialised_segment(1) [OF s] p shm_name_fields [OF p(1-4), of 7] kPrefix_shm by (simp_all add: stats_field_def)
  obtain info where "check_stats h (StatsShmInfo_new (ss_shm s)) = Some (0, info)"
    using check_stats_image [OF s t, of h 1896 s] by (auto simp: h_def)
  then obtain m' where sc: "scan_stats h m = Some (0, m')"
    using f atoi_to_string_nat [of 7 "[]"] by (simp add: scan_stats_def h_def m_def scan_entry_def records_of_def)
  have "int (se_pid example_shm_env) \<in> mo_ucommd_pids m" "all_infos m = []" by (simp_all add: m_def p all_infos_def)
  then obtain info where "info \<in> set (records_of kUnetIbStats m')" "describes s 100 1 1896 ib_counter_list info"
    using monitor_finds_segment [OF s t _ p(1-4), of h "[(ss_shm s, True)]" 1896 s m 0 m'] sc p(5) by (auto simp: h_def)
  moreover have "length ib_counter_list = 10" by (simp add: ib_counter_list_def)
  ultimately show ?thesis using s sc by (intro exI [of _ s] exI [of _ h] exI [of _ m] exI [of _ m'] exI [of _ info]) (simp add: describes_def m_def)
qed

end
