(* ===== verification/MonPrint.thy ===== *)
theory MonPrint
  imports MonScan
begin

text \<open>
  What the monitoring tool shows (\<^verbatim>\<open>src/tools/monitor/monitor.cc\<close>): the throughput to every rank, computed from the counters
  of completed bytes, or the table of all counters, once per tick of its timer. Output is the text written; the
  time of day is a parameter. A division by zero and a position outside a vector or a segment have no result (\<open>None\<close>).
\<close>

section \<open>Numbers with units\<close>

definition units :: "string list" where
  "units = [''B'', ''KiB'', ''MiB'', ''GiB'', ''TiB'']"

fun shrink :: "nat \<Rightarrow> nat \<Rightarrow> nat \<Rightarrow> nat \<times> nat" where
  "shrink 0 bytes index = (bytes, index)"
| "shrink (Suc k) bytes index = (if bytes > 10240 then shrink k (bytes div 1024) (index + 1) else (bytes, index))"

text \<open>The loop runs at most four times, as the index stays below 4.\<close>

definition human_string :: "nat \<Rightarrow> string" where
  "human_string bytes = (let (b, i) = shrink 4 bytes 0 in to_string_nat b @ units ! i)"

section \<open>The throughput\<close>

text \<open>
  The static variables of \<^verbatim>\<open>bw_print_func\<close>; a hash map read with \<open>[]\<close> is a function with the default.
\<close>

record bw_state =
  bw_world :: u64
  bw_local_world :: u64
  bw_unprinted :: "int \<Rightarrow> int \<Rightarrow> u64 list"
  bw_prev_cql :: "int \<Rightarrow> int \<Rightarrow> u64"
  bw_local2global :: "int \<Rightarrow> int"
  bw_local2pid :: "int \<Rightarrow> int"
  bw_prev_get_ns :: u64
  bw_prev_print_ns :: u64

definition bw_start :: bw_state where
  "bw_start =
     \<lparr> bw_world = 0, bw_local_world = 0, bw_unprinted = (\<lambda>_ _. []), bw_prev_cql = (\<lambda>_ _. 0), bw_local2global = (\<lambda>_. 0),
       bw_local2pid = (\<lambda>_. 0), bw_prev_get_ns = 0, bw_prev_print_ns = 0 \<rparr>"

definition c_int :: "u64 \<Rightarrow> int" where
  "c_int w = signed_take_bit 31 (uint w)"

definition upd2 :: "(int \<Rightarrow> int \<Rightarrow> 'v) \<Rightarrow> int \<Rightarrow> int \<Rightarrow> 'v \<Rightarrow> int \<Rightarrow> int \<Rightarrow> 'v" where
  "upd2 f a b v = f(a := (f a)(b := v))"

definition bw_rate :: "u64 \<Rightarrow> u64 \<Rightarrow> u64 \<Rightarrow> u64" where
  "bw_rate now prev duration = (now - prev) * 1000000000 div duration"

text \<open>A counter of a segment, from the place where its object begins.\<close>

definition counter_at :: "counters \<Rightarrow> nat \<Rightarrow> u64 option" where
  "counter_at mem p = (if p < length mem then Some (mem ! p) else None)"

text \<open>
  One cell, which is volatile and read three times: for the comparison, for the rate, and for the value that is kept.
\<close>

definition bw_cell :: "u64 \<Rightarrow> u64 \<Rightarrow> u64 \<Rightarrow> u64 \<Rightarrow> int \<Rightarrow> int \<Rightarrow> bw_state \<Rightarrow> bw_state" where
  "bw_cell v1 v2 v3 duration lr k s =
     (if bw_prev_cql s lr k = v1 then s
      else s\<lparr> bw_unprinted := upd2 (bw_unprinted s) lr k (bw_unprinted s lr k @ [bw_rate v2 (bw_prev_cql s lr k) duration]),
              bw_prev_cql := upd2 (bw_prev_cql s) lr k v3 \<rparr>)"

text \<open>The ranks from \<open>i\<close> on, \<open>n\<close> of them, when nobody writes while the cells are read.\<close>

fun bw_ranks :: "counters \<Rightarrow> nat \<Rightarrow> u64 \<Rightarrow> int \<Rightarrow> nat \<Rightarrow> nat \<Rightarrow> bw_state \<Rightarrow> bw_state option" where
  "bw_ranks mem base duration lr i 0 s = Some s"
| "bw_ranks mem base duration lr i (Suc n) s =
     (case counter_at mem (base + 2 * i + 6) of
        None \<Rightarrow> None
      | Some v \<Rightarrow> bw_ranks mem base duration lr (Suc i) n (bw_cell v v v duration lr (c_int_of_long (int i)) s))"

text \<open>One object: who it belongs to, a new start when the size of the job changed, and its ranks.\<close>

definition bw_object :: "counters \<Rightarrow> nat \<Rightarrow> u64 \<Rightarrow> bw_state \<Rightarrow> bw_state option" where
  "bw_object mem base duration s =
     (if length mem \<le> base + 4 then None
      else
        let pid = c_int (mem ! base); rank = c_int (mem ! (base + 1)); lr = c_int (mem ! (base + 2));
            s = (if bw_world s \<noteq> mem ! (base + 3) \<or> bw_local_world s \<noteq> mem ! (base + 4)
                 then bw_start\<lparr> bw_world := mem ! (base + 3), bw_local_world := mem ! (base + 4),
                                bw_prev_get_ns := bw_prev_get_ns s, bw_prev_print_ns := bw_prev_print_ns s \<rparr>
                 else s);
            s = s\<lparr> bw_local2global := (bw_local2global s)(lr := rank), bw_local2pid := (bw_local2pid s)(lr := pid) \<rparr>
        in bw_ranks mem base duration lr 0 (unat (bw_world s)) s)"

fun bw_objects :: "counters \<Rightarrow> nat \<Rightarrow> nat list \<Rightarrow> u64 \<Rightarrow> bw_state \<Rightarrow> bw_state option" where
  "bw_objects mem cn [] duration s = Some s"
| "bw_objects mem cn (i # is) duration s =
     (case bw_object mem (i * cn) duration s of None \<Rightarrow> None | Some s \<Rightarrow> bw_objects mem cn is duration s)"

text \<open>The segments are read where they are mapped, as they are now.\<close>

definition info_mem :: "(string \<Rightarrow> counters) \<Rightarrow> StatsShmInfo \<Rightarrow> counters" where
  "info_mem live info = (case si_mapped info of None \<Rightarrow> [] | Some name \<Rightarrow> live name)"

fun bw_infos :: "(string \<Rightarrow> counters) \<Rightarrow> StatsShmInfo list \<Rightarrow> u64 \<Rightarrow> bw_state \<Rightarrow> bw_state option" where
  "bw_infos live [] duration s = Some s"
| "bw_infos live (info # infos) duration s =
     (case bw_objects (info_mem live info) (nat (si_counter_num info)) [0..<nat (si_stat_num info)] duration s of
        None \<Rightarrow> None | Some s \<Rightarrow> bw_infos live infos duration s)"

definition endl :: string where "endl = [newline]"

definition header :: "string \<Rightarrow> string" where
  "header time_stamp = endl @ ''========================='' @ endl @ time_stamp"

text \<open>The average of the rates since the last time they were shown.\<close>

definition rank_text :: "bw_state \<Rightarrow> nat \<Rightarrow> nat \<Rightarrow> string" where
  "rank_text s i j =
     (let rs = bw_unprinted s (c_int_of_long (int i)) (c_int_of_long (int j)) in
      if rs = [] then []
      else ''['' @ to_string_nat j @ '']='' @ human_string (unat (sum_list rs div of_nat (length rs))) @ ''/s '')"

definition local_line :: "bw_state \<Rightarrow> nat \<Rightarrow> string" where
  "local_line s i =
     ''['' @ to_string_nat i @ '']['' @ to_string_int (bw_local2global s (c_int_of_long (int i))) @ '']['' @
     to_string_int (bw_local2pid s (c_int_of_long (int i))) @ '']'' @ ''[tx_thruput_to_rank] '' @
     concat (map (rank_text s i) [0..<unat (bw_world s)]) @ endl"

definition bw_print_func ::
    "(string \<Rightarrow> counters) \<Rightarrow> u64 \<Rightarrow> string \<Rightarrow> StatsShmInfo list \<Rightarrow> bw_state \<Rightarrow> (bw_state \<times> string) option" where
  "bw_print_func live now time_stamp infos s =
     (let duration = now - bw_prev_get_ns s in
      if duration < 1000000 then Some (s, [])
      else case bw_infos live infos duration (s\<lparr> bw_prev_get_ns := now \<rparr>) of
             None \<Rightarrow> None
           | Some s \<Rightarrow>
               if now - bw_prev_print_ns s > 1000000000
               then let s = s\<lparr> bw_prev_print_ns := now \<rparr>
                    in Some (s\<lparr> bw_unprinted := (\<lambda>_ _. []) \<rparr>,
                             header time_stamp @ concat (map (local_line s) [0..<unat (bw_local_world s)]))
               else Some (s, []))"

section \<open>The table\<close>

fun contains :: "string \<Rightarrow> string \<Rightarrow> bool" where
  "contains pat [] \<longleftrightarrow> pat = []"
| "contains pat (c # cs) \<longleftrightarrow> starts_with pat (c # cs) \<or> contains pat cs"

definition col_width :: "string \<Rightarrow> nat option" where
  "col_width desc =
     (if contains ''bytes'' desc then Some 20
      else if length desc \<le> 8 then Some 8
      else if 8 < length desc \<and> length desc \<le> 12 then Some 12
      else if 12 < length desc \<and> length desc \<le> 16 then Some 16
      else None)"

text \<open>A name too long gives no width, and the widths that follow move up.\<close>

definition widths :: "string list \<Rightarrow> nat list" where
  "widths ds = List.map_filter col_width ds"

definition setw :: "nat \<Rightarrow> string \<Rightarrow> string" where
  "setw w s = replicate (w - length s) (CHR '' '') @ s"

fun columns :: "nat list \<Rightarrow> nat \<Rightarrow> string list \<Rightarrow> string option" where
  "columns ws i [] = Some endl"
| "columns ws i (t # ts) =
     (if i < length ws then map_option (\<lambda>r. setw (ws ! i) t @ ''    '' @ r) (columns ws (Suc i) ts) else None)"

fun table_rows :: "nat list \<Rightarrow> counters \<Rightarrow> nat \<Rightarrow> nat list \<Rightarrow> string option" where
  "table_rows ws mem cn [] = Some []"
| "table_rows ws mem cn (i # is) =
     (case counter_at mem (i * cn) of
        None \<Rightarrow> None
      | Some v \<Rightarrow>
          if v = 0 then table_rows ws mem cn is
          else if length mem < i * cn + cn then None
          else case columns ws 0 (map (\<lambda>c. to_string_nat (unat c)) (take cn (drop (i * cn) mem))) of
                 None \<Rightarrow> None
               | Some line \<Rightarrow> map_option (\<lambda>r. line @ r) (table_rows ws mem cn is))"

fun table_infos :: "(string \<Rightarrow> counters) \<Rightarrow> nat list \<Rightarrow> StatsShmInfo list \<Rightarrow> string option" where
  "table_infos live ws [] = Some []"
| "table_infos live ws (info # infos) =
     (case table_rows ws (info_mem live info) (nat (si_counter_num info)) [0..<nat (si_stat_num info)] of
        None \<Rightarrow> None
      | Some rows \<Rightarrow> map_option (\<lambda>r. rows @ r) (table_infos live ws infos))"

definition table_stats :: "(string \<Rightarrow> counters) \<Rightarrow> string \<times> StatsShmInfo list \<Rightarrow> string option" where
  "table_stats live stats =
     (if contains ''unet_bw_stats'' (fst stats) then Some []
      else case snd stats of
             [] \<Rightarrow> None
           | info # infos \<Rightarrow>
               let ws = widths (si_desc info) in
               (case columns ws 0 (si_desc info) of
                  None \<Rightarrow> None
                | Some titles \<Rightarrow>
                    map_option (\<lambda>rows. replicate (length (fst stats)) (CHR ''-'') @ endl @ fst stats @ endl @ titles @ rows)
                      (table_infos live ws (snd stats))))"

fun table_all :: "(string \<Rightarrow> counters) \<Rightarrow> (string \<times> StatsShmInfo list) list \<Rightarrow> string option" where
  "table_all live [] = Some []"
| "table_all live (st # sts) =
     (case table_stats live st of None \<Rightarrow> None | Some t \<Rightarrow> map_option (\<lambda>r. t @ r) (table_all live sts))"

section \<open>The loop\<close>

record mon_opts =
  op_bw_print :: bool
  op_interval_ns :: int

definition timer_spec :: "mon_opts \<Rightarrow> int \<times> int" where
  "timer_spec o' =
     (if op_interval_ns o' < 0 then (if op_bw_print o' then 0 else 1, if op_bw_print o' then 10 * 1000 * 1000 else 0)
      else (op_interval_ns o' div 1000000000, op_interval_ns o' mod 1000000000))"

text \<open>What comes before the loop: the failures of the timer, and the number of ticks between two checks.\<close>

definition run_start :: "bool \<Rightarrow> bool \<Rightarrow> mon_opts \<Rightarrow> (int + int) option" where
  "run_start created armed o' =
     (if \<not> created then Some (Inl (-1))
      else if \<not> armed then Some (Inl (-1))
      else let ns = fst (timer_spec o') * 1000000000 + snd (timer_spec o')
           in if ns = 0 then None else Some (Inr (10 * 1000000000 div ns)))"

record mon_run =
  mr_mon :: Monitor
  mr_bw :: bw_state
  mr_t :: u64

text \<open>What the world shows at a tick.\<close>

record mon_tick =
  mt_read :: bool                     \<comment> \<open>\<open>read\<close> of the timer did not fail for good\<close>
  mt_host :: mon_host
  mt_now :: u64
  mt_stamp :: string
  mt_live :: "string \<Rightarrow> counters"

text \<open>\<open>Inl\<close> ends the program with a code; \<open>Inr\<close> goes on with the text written.\<close>

definition run_tick :: "mon_opts \<Rightarrow> int \<Rightarrow> mon_tick \<Rightarrow> mon_run \<Rightarrow> (int + mon_run \<times> string) option" where
  "run_tick o' check_pid_interval tk r =
     (if \<not> mt_read tk then Some (Inl (-1))
      else if check_pid_interval = 0 then None
      else
        let t = mr_t r + 1 in
        case (if t mod word_of_int check_pid_interval = 0 then check_ucommd_pids_stats (mt_host tk) (mr_mon r) else Some (mr_mon r)) of
          None \<Rightarrow> None
        | Some m \<Rightarrow>
            if op_bw_print o'
            then map_option (\<lambda>(bw, out). Inr (\<lparr> mr_mon = m, mr_bw = bw, mr_t = t \<rparr>, out))
                   (bw_print_func (mt_live tk) (mt_now tk) (mt_stamp tk) (records_of ''unet_bw_stats'' m) (mr_bw r))
            else if mo_ucommd_pids m = {} \<or> mo_records m = []
            then map_option (\<lambda>m. Inr (\<lparr> mr_mon = m, mr_bw = mr_bw r, mr_t = t \<rparr>, header (mt_stamp tk)))
                   (if t mod 60 \<noteq> 0 then check_ucommd_pids_stats (mt_host tk) m else Some m)
            else map_option (\<lambda>table. Inr (\<lparr> mr_mon = m, mr_bw = mr_bw r, mr_t = t \<rparr>, header (mt_stamp tk) @ table))
                   (table_all (mt_live tk) (mo_records m)))"

fun run_ticks :: "mon_opts \<Rightarrow> int \<Rightarrow> mon_tick list \<Rightarrow> mon_run \<Rightarrow> (int + mon_run \<times> string) option" where
  "run_ticks o' k [] r = Some (Inr (r, []))"
| "run_ticks o' k (tk # tks) r =
     (case run_tick o' k tk r of
        Some (Inr (r, out)) \<Rightarrow>
          map_option (\<lambda>x. case x of Inl c \<Rightarrow> Inl c | Inr (r, out') \<Rightarrow> Inr (r, out @ out')) (run_ticks o' k tks r)
      | other \<Rightarrow> other)"

definition Monitor_run :: "bool \<Rightarrow> bool \<Rightarrow> mon_opts \<Rightarrow> mon_tick list \<Rightarrow> Monitor \<Rightarrow> (int + mon_run \<times> string) option" where
  "Monitor_run created armed o' tks m =
     (case run_start created armed o' of
        None \<Rightarrow> None
      | Some (Inl c) \<Rightarrow> Some (Inl c)
      | Some (Inr k) \<Rightarrow> run_ticks o' k tks \<lparr> mr_mon = m, mr_bw = bw_start, mr_t = 0 \<rparr>)"

section \<open>Units\<close>

lemma shrink_props:
  "shrink k b i = (b', i') \<Longrightarrow> i \<le> i' \<and> i' \<le> i + k \<and> b' = b div 1024 ^ (i' - i) \<and> (i' = i + k \<or> b' \<le> 10240) \<and>
     (i' = i \<or> 10240 < b div 1024 ^ (i' - i - 1))"
proof (induction k b i rule: shrink.induct)
  case (2 k b i)
  show ?case
  proof (cases "b > 10240")
    case True
    then have s: "shrink k (b div 1024) (i + 1) = (b', i')" using 2(2) by simp
    note IH = 2(1) [OF True s]
    then obtain n where n: "i' = i + 1 + n" using le_Suc_ex by blast
    have d: "b div 1024 div 1024 ^ m = b div 1024 ^ Suc m" for m by (simp add: div_mult2_eq)
    have "b' = b div 1024 ^ Suc n" using IH n d [of n] by simp
    moreover have "i' = i + 1 \<or> 10240 < b div 1024 ^ (i' - i - 1)"
      using IH n d [of "n - 1"] by (cases n) auto
    ultimately show ?thesis using IH n True by auto
  qed (use 2 in simp)
qed simp

text \<open>
  A number of bytes is shown in the smallest unit that needs no more than 10240 of it, rounded down, and in TiB when none is enough.
\<close>
theorem human_string_unit:
  "\<exists>i \<le> 4. human_string b = to_string_nat (b div 1024 ^ i) @ units ! i \<and> (i = 4 \<or> b div 1024 ^ i \<le> 10240) \<and>
     (i = 0 \<or> 10240 < b div 1024 ^ (i - 1))"
proof -
  obtain b' i where s: "shrink 4 b 0 = (b', i)" by force
  from shrink_props [OF s] show ?thesis by (intro exI [of _ i]) (auto simp: human_string_def s)
qed

section \<open>What the throughput is computed from\<close>

lemma c_int_of_rank: "i < 2 ^ 31 \<Longrightarrow> c_int_of_long (int i) = int i"
  unfolding c_int_of_long_def by (rule signed_take_bit_int_eq_self) (simp_all add: order.trans [of _ 0])

lemma upd2_apply: "upd2 f a b v x y = (if x = a \<and> y = b then v else f x y)"
  by (simp add: upd2_def)

text \<open>What one rank leaves in the maps: its counter, and a rate when it changed.\<close>

definition rank_done :: "counters \<Rightarrow> nat \<Rightarrow> u64 \<Rightarrow> int \<Rightarrow> bw_state \<Rightarrow> bw_state \<Rightarrow> nat \<Rightarrow> bool" where
  "rank_done mem base d lr s s' j \<longleftrightarrow>
     base + 2 * j + 6 < length mem \<and> bw_prev_cql s' lr (int j) = mem ! (base + 2 * j + 6) \<and>
     bw_unprinted s' lr (int j) = bw_unprinted s lr (int j) @
       (if bw_prev_cql s lr (int j) = mem ! (base + 2 * j + 6) then []
        else [bw_rate (mem ! (base + 2 * j + 6)) (bw_prev_cql s lr (int j)) d])"

text \<open>
  What the process adds between the second and the third reading of a cell is in no rate: the next one starts from the third.
\<close>

theorem bytes_between_readings_lost:
  assumes "bw_prev_cql s lr k \<noteq> v1" "w \<noteq> v3"
  shows "bw_unprinted (bw_cell w w w d' lr k (bw_cell v1 v2 v3 d lr k s)) lr k =
    bw_unprinted s lr k @ [bw_rate v2 (bw_prev_cql s lr k) d, bw_rate w v3 d']"
  using assms by (simp add: bw_cell_def upd2_apply)

lemma bw_ranks_values:
  assumes "bw_ranks mem base d lr i n s = Some s'" "i + n \<le> 2 ^ 31"
  shows "(\<forall>j \<in> {i..<i + n}. rank_done mem base d lr s s' j) \<and>
    (\<forall>k. k \<notin> int ` {i..<i + n} \<longrightarrow> bw_prev_cql s' lr k = bw_prev_cql s lr k \<and> bw_unprinted s' lr k = bw_unprinted s lr k)"
  using assms
proof (induction n arbitrary: i s)
  case (Suc n)
  let ?v = "mem ! (base + 2 * i + 6)"
  have b: "base + 2 * i + 6 < length mem" using Suc.prems(1) by (auto simp: counter_at_def split: if_splits)
  define s1 where "s1 = bw_cell ?v ?v ?v d lr (int i) s"
  have r: "bw_ranks mem base d lr (Suc i) n s1 = Some s'"
    using Suc.prems b by (simp add: counter_at_def c_int_of_rank s1_def Let_def split: if_splits)
  have here: "rank_done mem base d lr s s1 i" using b by (simp add: rank_done_def s1_def bw_cell_def upd2_apply)
  have other: "bw_prev_cql s1 lr k = bw_prev_cql s lr k \<and> bw_unprinted s1 lr k = bw_unprinted s lr k" if "k \<noteq> int i" for k
    using that by (simp add: s1_def bw_cell_def upd2_apply)
  note IH = Suc.IH [OF r]
  have later: "rank_done mem base d lr s s' j" if "j \<in> {Suc i..<Suc i + n}" for j
    using IH that other [of "int j"] Suc.prems(2) by (simp add: rank_done_def)
  have "int i \<notin> int ` {Suc i..<Suc i + n}" by auto
  then have now: "rank_done mem base d lr s s' i"
    using IH here Suc.prems(2) by (simp add: rank_done_def)
  show ?case
  proof (intro conjI ballI allI impI)
    show "rank_done mem base d lr s s' j" if "j \<in> {i..<i + Suc n}" for j
      using that now later [of j] by (cases "j = i") auto
  next
    fix k assume k: "k \<notin> int ` {i..<i + Suc n}"
    then have "k \<noteq> int i" "k \<notin> int ` {Suc i..<Suc i + n}" by (auto simp: image_iff)
    then show "bw_prev_cql s' lr k = bw_prev_cql s lr k" "bw_unprinted s' lr k = bw_unprinted s lr k"
      using IH Suc.prems(2) other [of k] by auto
  qed
qed simp

lemma bw_rate_exact:
  assumes "unat prev \<le> unat v"
  shows "unat (bw_rate v prev d) = ((unat v - unat prev) * 10 ^ 9 mod 2 ^ 64) div unat d"
proof -
  have "unat (v - prev) = unat v - unat prev" using assms by (simp add: unat_sub word_le_nat_alt)
  moreover have "unat (x * 1000000000) = unat x * 10 ^ 9 mod 2 ^ 64" for x :: u64
    by (simp add: unat_word_ariths)
  ultimately show ?thesis by (simp only: bw_rate_def unat_div)
qed

text \<open>
  C37: The throughput the tool shows for a rank comes from the counter that the transport adds to for that rank: as long as the job is the same,
  a sample takes over the cell \<open>UNET_BW_CPL_BYTES_BY_RANK\<close> of the object and, when it changed, adds the rate per second since the sample before; the
  product with 10^9 is taken modulo 2^64, so the rate is too small once 18.4 GB have been completed between two samples.
\<close>
theorem monitor_reads_rank_counter:
  assumes "bw_object mem (st_base st) d s = Some s'" "mem ! (st_base st + 3) = bw_world s" "mem ! (st_base st + 4) = bw_local_world s"
    and "unat (bw_world s) \<le> 2 ^ 31" "r < unat (bw_world s)" "pm_bwOffset pm = 5" "lr = c_int (mem ! (st_base st + 2))"
    and "v = Stat_get st (UNET_BW_CPL_BYTES_BY_RANK pm (int r)) mem" "prev = bw_prev_cql s lr (int r)" "unat prev \<le> unat v"
  shows "bw_prev_cql s' lr (int r) = v \<and>
    bw_unprinted s' lr (int r) = bw_unprinted s lr (int r) @ (if prev = v then [] else [bw_rate v prev d]) \<and>
    unat (bw_rate v prev d) = ((unat v - unat prev) * 10 ^ 9 mod 2 ^ 64) div unat d"
proof -
  have c: "cell st (UNET_BW_CPL_BYTES_BY_RANK pm (int r)) = st_base st + 2 * r + 6"
    by (simp add: cell_def UNET_BW_CPL_BYTES_BY_RANK_def assms(6) nat_add_distrib nat_mult_distrib)
  obtain g p where rk: "bw_ranks mem (st_base st) d lr 0 (unat (bw_world s)) (s\<lparr> bw_local2global := g, bw_local2pid := p \<rparr>) = Some s'"
    using assms(1-3,7) by (auto simp: bw_object_def Let_def split: if_splits)
  have "rank_done mem (st_base st) d lr (s\<lparr> bw_local2global := g, bw_local2pid := p \<rparr>) s' r"
    using bw_ranks_values [OF rk] assms(4,5) by simp
  then have "bw_prev_cql s' lr (int r) = v \<and>
    bw_unprinted s' lr (int r) = bw_unprinted s lr (int r) @ (if prev = v then [] else [bw_rate v prev d])"
    using assms(8,9) by (simp add: rank_done_def Stat_get_def c)
  then show ?thesis using bw_rate_exact [OF assms(10)] by simp
qed

text \<open>Rank 0 of a job of two: 18446744074 bytes in one second are shown as a rate of 0.\<close>

theorem monitor_reads_rank_counter_witness:
  "\<exists>s'. bw_object [7, 0, 0, 2, 1, 0, 18446744074, 0, 5] 0 1000000000 (bw_start\<lparr> bw_world := 2, bw_local_world := 1 \<rparr>) = Some s' \<and>
     bw_prev_cql s' 0 0 = 18446744074 \<and> bw_unprinted s' 0 0 = [0]"
proof -
  let ?mem = "[7, 0, 0, 2, 1, 0, 18446744074, 0, 5] :: u64 list" and ?s = "bw_start\<lparr> bw_world := 2, bw_local_world := 1 \<rparr>"
  let ?st = "Stat_new 0 0 0 (bw_counter_list 2)"
  let ?pm = "\<lparr> pm_splitDataOnQps = False, pm_arThreshold = 0, pm_asyncEvents = False, pm_bwOffset = 5 \<rparr>"
  have two: "bw_ranks m b d lr 0 2 s = bw_ranks m b d lr 0 (Suc (Suc 0)) s" for m b d lr s
    by (simp only: numeral_2_eq_2)
  have "\<exists>s'. bw_object ?mem 0 1000000000 ?s = Some s'"
    by (simp add: bw_object_def bw_start_def two counter_at_def Let_def)
  then obtain s' where s': "bw_object ?mem (st_base ?st) 1000000000 ?s = Some s'" by auto
  have "c_int 0 = 0" by (simp add: c_int_def)
  moreover have "bw_rate 18446744074 0 1000000000 = 0" by (simp add: bw_rate_def)
  ultimately show ?thesis
    using monitor_reads_rank_counter [OF s', of 0 ?pm 0 18446744074 0] s'
    by (simp add: bw_start_def Stat_get_def cell_def UNET_BW_CPL_BYTES_BY_RANK_def)
qed

section \<open>The interval\<close>

text \<open>
  The sampling interval the user gives can kill the tool: with 0, or with more than ten seconds, it ends with a division by zero at the latest at its first
  tick; every other interval, and the default, gives a positive number of ticks between two checks of the processes.
\<close>
theorem monitor_interval:
  assumes "mt_read tk"
  shows "if op_interval_ns o' = 0 \<or> 10 ^ 10 < op_interval_ns o'
    then Monitor_run True True o' (tk # tks) m = None
    else \<exists>k > 0. run_start True True o' = Some (Inr k)"
proof -
  let ?n = "op_interval_ns o'"
  have spec: "fst (timer_spec o') * 1000000000 + snd (timer_spec o') =
      (if ?n < 0 then (if op_bw_print o' then 10000000 else 1000000000) else ?n)"
    by (simp add: timer_spec_def)
  have start: "run_start True True o' =
      (if ?n = 0 then None else Some (Inr (10 * 1000000000 div (if ?n < 0 then (if op_bw_print o' then 10000000 else 1000000000) else ?n))))"
    by (simp add: run_start_def spec Let_def)
  show ?thesis
  proof (cases "?n = 0 \<or> 10 ^ 10 < ?n")
    case True
    have "10 * 1000000000 div ?n = 0" if "10 ^ 10 < ?n" using that by (simp add: div_pos_pos_trivial)
    then have "Monitor_run True True o' (tk # tks) m = None"
      using True assms by (auto simp: Monitor_run_def start run_tick_def)
    then show ?thesis using True by simp
  next
    case False
    have "0 < 10 * 1000000000 div ?n" if "0 \<le> ?n"
      using False that by (simp add: pos_imp_zdiv_pos_iff)
    then show ?thesis using False by (auto simp: start)
  qed
qed

definition example_tick :: mon_tick where
  "example_tick = \<lparr> mt_read = True, mt_host = example_mon_host True, mt_now = 0, mt_stamp = [], mt_live = (\<lambda>_. []) \<rparr>"

theorem monitor_interval_witness:
  "Monitor_run True True \<lparr> op_bw_print = True, op_interval_ns = 10000000001 \<rparr> [example_tick] (example_mon True) = None"
  using monitor_interval [of example_tick "\<lparr> op_bw_print = True, op_interval_ns = 10000000001 \<rparr>" "[]" "example_mon True"]
  by (simp add: example_tick_def)

section \<open>The table of the transport\<close>

lemma columns_fit: "i + length ts \<le> length ws \<Longrightarrow> columns ws i ts \<noteq> None"
  by (induction ws i ts rule: columns.induct) auto

lemma table_rows_fit:
  "length mem \<ge> k \<Longrightarrow> \<forall>i \<in> set is. i * cn + cn \<le> k \<and> 0 < cn \<Longrightarrow> cn \<le> length ws \<Longrightarrow> table_rows ws mem cn is \<noteq> None"
proof (induction ws mem cn "is" rule: table_rows.induct)
  case (2 ws mem cn i "is")
  have b: "i * cn < length mem" "i * cn + cn \<le> length mem" using 2(3,4) by auto
  have "columns ws 0 (map (\<lambda>c. to_string_nat (unat c)) (take cn (drop (i * cn) mem))) \<noteq> None"
    by (rule columns_fit) (use 2(5) in simp)
  moreover have "table_rows ws mem cn is \<noteq> None"
  proof (cases "mem ! (i * cn) = 0")
    case True
    then show ?thesis using 2(1) [of "mem ! (i * cn)"] 2(3-5) b by (auto simp: counter_at_def)
  next
    case False
    then show ?thesis using 2(2) [of "mem ! (i * cn)"] 2(3-5) b calculation by (auto simp: counter_at_def)
  qed
  ultimately show ?case using b by (auto simp: counter_at_def)
qed simp

lemma length_widths: "\<forall>d \<in> set ds. col_width d \<noteq> None \<Longrightarrow> length (widths ds) = length ds"
  by (induction ds) (auto simp: widths_def List.map_filter_simps)

text \<open>
  The counters of the transport can always be shown: each of its ten names has a column, so for segments that are as the plugin
  lays them out no position is read outside a row, whatever the counters are.
\<close>
theorem monitor_table_total:
  assumes "infos \<noteq> []" "\<forall>info \<in> set infos. si_desc info = ib_counter_list \<and> si_counter_num info = 10 \<and> si_stat_num info = 1 \<and>
      10 \<le> length (info_mem live info)"
  shows "table_stats live (kUnetIbStats, infos) \<noteq> None"
proof -
  have "\<forall>d \<in> set ib_counter_list. col_width d \<noteq> None"
    by (simp add: ib_counter_list_def kUnetPid_def kUnetRank_def col_width_def starts_with_def)
  then have w: "length (widths ib_counter_list) = 10" by (simp add: length_widths) (simp add: ib_counter_list_def)
  have "table_infos live (widths ib_counter_list) is \<noteq> None" if "set is \<subseteq> set infos" for "is"
    using that
  proof (induction "is")
    case (Cons info "is")
    have "table_rows (widths ib_counter_list) (info_mem live info) 10 [0..<1] \<noteq> None"
      by (rule table_rows_fit [of 10]) (use Cons.prems assms(2) w in auto)
    then show ?case using Cons assms(2) by (auto simp del: table_rows.simps upt_rec_numeral)
  qed simp
  moreover have "columns (widths ib_counter_list) 0 ib_counter_list \<noteq> None"
    by (rule columns_fit) (simp add: w, simp add: ib_counter_list_def)
  moreover obtain info others where i: "infos = info # others" using assms(1) by (cases infos) auto
  ultimately have "table_infos live (widths ib_counter_list) (info # others) \<noteq> None" "columns (widths ib_counter_list) 0 ib_counter_list \<noteq> None"
    by blast+
  moreover have "si_desc info = ib_counter_list" using assms(2) i by simp
  ultimately show ?thesis by (auto simp: i table_stats_def Let_def simp del: table_infos.simps)
qed

text \<open>The record of the example, with the counters of process 7.\<close>

definition example_ib_info :: StatsShmInfo where
  "example_ib_info = example_info\<lparr> si_desc := ib_counter_list, si_counter_num := 10 \<rparr>"

theorem monitor_table_total_witness:
  "table_stats (\<lambda>_. [7, 1, 2, 3, 4, 5, 6, 7, 8, 9]) (kUnetIbStats, [example_ib_info]) \<noteq> None"
  using monitor_table_total [of "[example_ib_info]" "\<lambda>_. [7, 1, 2, 3, 4, 5, 6, 7, 8, 9]"]
  by (simp add: example_ib_info_def example_info_def info_mem_def)

end
