(* ===== verification/EndToEnd.thy ===== *)
theory EndToEnd
  imports CtsRing Completion IbPair
begin

text \<open>
  The operations of \<^verbatim>\<open>src/unet/unet_ib.cc\<close> together, from the connection on: receives, sends, tests and flushes of the
  two ends in any order, with the network and the thread of asynchronous events in between. A connection starts
  the channel of offers empty, every operation is a step of that channel, and each end's next queue pair is the one
  its number of messages leads to, whatever the other has done.
\<close>

section \<open>Operations that turn the queue pairs\<close>

text \<open>
  Of a communicator's base, only the request table and the index of the next queue pair change, and the index by \<open>m\<close>
  queue pairs.
\<close>

definition turned :: "nat \<Rightarrow> ncclIbNetCommBase \<Rightarrow> ncclIbNetCommBase \<Rightarrow> bool" where
  "turned m b b' \<longleftrightarrow> length (cb_reqs b') = length (cb_reqs b) \<and>
     b' = b\<lparr> cb_reqs := cb_reqs b', cb_qpIndex := (if m = 0 then cb_qpIndex b else (cb_qpIndex b + m) mod cb_nqps b) \<rparr>"

lemma turned_sel:
  assumes "turned m b b'"
  shows "cb_ndevs b' = cb_ndevs b" "cb_qps b' = cb_qps b" "cb_nqps b' = cb_nqps b" "cb_devIndex b' = cb_devIndex b"
    "cb_ready b' = cb_ready b" "cb_fatal b' = cb_fatal b" "length (cb_reqs b') = length (cb_reqs b)"
    "cb_qpIndex b' = (if m = 0 then cb_qpIndex b else (cb_qpIndex b + m) mod cb_nqps b)"
proof -
  obtain rs where b': "b' = b\<lparr> cb_reqs := rs, cb_qpIndex := (if m = 0 then cb_qpIndex b else (cb_qpIndex b + m) mod cb_nqps b) \<rparr>"
    and l: "length (cb_reqs b') = length (cb_reqs b)"
    using assms by (auto simp: turned_def)
  show "cb_ndevs b' = cb_ndevs b" "cb_qps b' = cb_qps b" "cb_nqps b' = cb_nqps b" "cb_devIndex b' = cb_devIndex b"
    "cb_ready b' = cb_ready b" "cb_fatal b' = cb_fatal b" "length (cb_reqs b') = length (cb_reqs b)"
    "cb_qpIndex b' = (if m = 0 then cb_qpIndex b else (cb_qpIndex b + m) mod cb_nqps b)"
    by (simp_all add: l) (simp_all add: b')
qed

lemma turned_refl [simp]: "turned 0 b b"
  by (simp add: turned_def)

lemma turned_trans: "turned m a b \<Longrightarrow> turned n b c \<Longrightarrow> turned (m + n) a c"
  unfolding turned_def by (cases a; cases b; cases c) (auto simp: mod_add_left_eq add.assoc mod_simps)

lemma turned_upd_req [simp]: "turned 0 b (upd_req i f b)"
  by (simp add: turned_def upd_req_def)

lemma turned_fold_upd_req [simp]: "turned 0 b (fold (\<lambda>i. upd_req i (f i)) is b)"
proof (induction "is" arbitrary: b)
  case (Cons i "is")
  show ?case using turned_trans [OF turned_upd_req Cons.IH] by simp
qed simp

lemma turned_next_qp: "turned 1 b (next_qp b)"
  by (simp add: turned_def next_qp_def)

lemma turned_get_request: "ncclIbGetRequest b = (res, b', i) \<Longrightarrow> turned 0 b b'"
  by (auto simp: ncclIbGetRequest_def turned_def split: option.splits)

lemma turned_qp_at: "turned m b b' \<Longrightarrow> cb_qpIndex b < cb_nqps b \<Longrightarrow> qp_at b' k = qp_at b (m + k)"
  by (simp add: qp_at_def turned_sel mod_add_left_eq add.assoc)

lemma turned_index_less: "turned m b b' \<Longrightarrow> cb_qpIndex b < cb_nqps b \<Longrightarrow> cb_qpIndex b' < cb_nqps b'"
  by (simp add: turned_sel)

section \<open>Sends and receives turn the queue pairs by a round\<close>

text \<open>A successful loop posts one chain on each of the next \<open>k\<close> queue pairs, whatever the requests are.\<close>

lemma turned_advance_reqs: "turned 0 (sc_base comm) (sc_base (advance_reqs nq is comm))"
  by (simp add: advance_reqs_def)

lemma multi_send_loop_turns:
  assumes "multi_send_loop v slot is nq k ch tot comm w = (res, tot', comm', w')" "\<not> ncclCheckFails res"
    "cb_qpIndex (sc_base comm) < cb_nqps (sc_base comm)"
  shows "res = ncclSuccess \<and> turned k (sc_base comm) (sc_base comm') \<and> sc_fifoHead comm' = sc_fifoHead comm \<and>
    (\<exists>ops. wd_posts w' = wd_posts w @ ops \<and> map op_qp ops = map (\<lambda>j. qp_handle (qp_at (sc_base comm) j)) [0..<k])"
  using assms
proof (induction v slot "is" nq k ch tot comm w rule: multi_send_loop.induct)
  case (1 v slot "is" nq ch tot comm w)
  then show ?case by simp
next
  case (2 v slot "is" nq k ch tot comm w)
  let ?b = "sc_base comm"
  let ?qp = "cb_qps ?b ! cb_qpIndex ?b"
  let ?ch = "prep_chain comm slot ?qp nq is ch"
  let ?c = "(advance_reqs nq is comm)\<lparr> sc_base := next_qp (sc_base (advance_reqs nq is comm)) \<rparr>"
  obtain res1 w1 where p: "nic_post v (PostSend (qp_handle ?qp) (chain_posted ?ch)) w = (res1, w1)" by fastforce
  have nf: "\<not> ncclCheckFails res1" using "2.prems"(1,2) p by (auto simp: Let_def split: if_splits)
  have rec: "multi_send_loop v slot is nq k (advance_chain comm nq is ?ch) (tot + chain_bytes comm nq is) ?c w1 = (res, tot', comm', w')"
    using "2.prems"(1) p nf by (simp add: Let_def)
  have t: "turned 1 ?b (sc_base ?c)" using turned_trans [OF turned_advance_reqs turned_next_qp, of comm nq "is"] by simp
  note ih = "2.IH" [OF refl refl refl p [symmetric] refl nf refl refl refl rec "2.prems"(2) turned_index_less [OF t "2.prems"(3)]]
  have w1: "wd_posts w1 = wd_posts w @ [PostSend (qp_handle (qp_at ?b 0)) (chain_posted ?ch)]"
    using p nf "2.prems"(3) by (auto simp: nic_post_def Let_def qp_at_0)
  from ih obtain ops where ops: "wd_posts w' = wd_posts w1 @ ops"
    "map op_qp ops = map (\<lambda>j. qp_handle (qp_at (sc_base ?c) j)) [0..<k]" by blast
  have "[0..<Suc k] = 0 # map Suc [0..<k]" by (simp add: upt_conv_Cons map_Suc_upt del: upt_Suc)
  then have "map op_qp (PostSend (qp_handle (qp_at ?b 0)) (chain_posted ?ch) # ops) =
      map (\<lambda>j. qp_handle (qp_at ?b j)) [0..<Suc k]"
    using ops(2) turned_qp_at [OF t "2.prems"(3)] by (simp del: upt_Suc)
  moreover have "turned (Suc k) ?b (sc_base comm')" using turned_trans [OF t, of k] ih by simp
  moreover have "sc_fifoHead ?c = sc_fifoHead comm" by (simp add: advance_reqs_def)
  ultimately show ?case using ih w1 ops(1) by (simp del: upt_Suc)
qed

lemma multi_send_turns:
  assumes "ncclIbMultiSend pm v slot comm w = (res, comm', w')" "\<not> ncclCheckFails res"
    "cb_qpIndex (sc_base comm) < cb_nqps (sc_base comm)"
  shows "turned (conn_nqps pm (sc_base comm)) (sc_base comm) (sc_base comm') \<and> sc_fifoHead comm' = sc_fifoHead comm \<and>
    map op_qp (new_posts w w') = map (\<lambda>j. qp_handle (qp_at (sc_base comm) j)) [0..<conn_nqps pm (sc_base comm)]"
proof -
  let ?n = "conn_nqps pm (sc_base comm)"
  let ?is = "slot_reqs comm slot (nat (slot_nreqs comm slot))"
  let ?c = "store_sizes comm slot ?is"
  have c: "sc_base ?c = sc_base comm" "sc_fifoHead ?c = sc_fifoHead comm" by (simp_all add: store_sizes_def)
  obtain res1 tot comm1 w1 where l: "multi_send_loop v slot ?is ?n ?n (build_chain pm comm slot ?is) 0 ?c w = (res1, tot, comm1, w1)"
    by (cases "multi_send_loop v slot ?is ?n ?n (build_chain pm comm slot ?is) 0 ?c w") auto
  have r: "\<not> ncclCheckFails res1" "comm' = comm1" "w' = ib_add UNET_IB_TX_BYTES tot w1"
    using assms(1,2) l c by (auto simp: ncclIbMultiSend_def Let_def split: if_splits)
  from multi_send_loop_turns [OF l r(1)] assms(3) r(2,3) c show ?thesis by (auto simp: new_posts_def)
qed

text \<open>
  A send that does not fail either leaves the head and the queue pairs, or moves the head by one and turns the queue pairs by the
  round it has posted on.
\<close>

lemma isend_turns:
  assumes run: "ncclIbIsend pm v data sz tag mh ds comm w = Some (res, req, ds', comm', w')" and ok: "\<not> ncclCheckFails res"
    and q: "cb_qpIndex (sc_base comm) < cb_nqps (sc_base comm)"
  obtains (waits) "sc_fifoHead comm' = sc_fifoHead comm" "turned 0 (sc_base comm) (sc_base comm')"
  | (sent) "sc_fifoHead comm' = sc_fifoHead comm + 1"
      "turned (conn_nqps pm (sc_base comm)) (sc_base comm) (sc_base comm')"
      "map op_qp (new_posts w w') = map (\<lambda>j. qp_handle (qp_at (sc_base comm) j)) [0..<conn_nqps pm (sc_base comm)]"
proof (cases "\<exists>fifo. comm' = comm\<lparr> sc_fifo := fifo \<rparr>")
  case True
  then show thesis using waits by auto
next
  case False
  let ?s = "cur_slot comm" and ?n = "nat (slot_nreqs comm (cur_slot comm))"
  obtain fifo r where m: "isend_matched pm v ?s ?n r data sz mh (comm\<lparr> sc_fifo := fifo \<rparr>) (ib_inc UNET_IB_FIFO_RECV_COUNT w) = (res, req, comm', w')"
  proof -
    have ne: "comm' \<noteq> comm" using False by (metis ncclIbSendComm.surjective ncclIbSendComm.update_convs(2))
    then have go: "\<not> cb_ready (sc_base comm) = 0" "sf_idx (sc_fifo comm ! row ?s 0) = sc_fifoHead comm + 1"
      using run ok by (auto simp: ncclIbIsend_def Let_def split: if_splits)
    obtain ds1 fifo where sp: "spin_all (sc_fifoHead comm + 1) (map (row ?s) [1..<?n]) ds (sc_fifo comm) = Some (ds1, fifo)"
      using run go by (auto simp: ncclIbIsend_def Let_def split: option.splits)
    obtain r where "find_match (comm\<lparr> sc_fifo := fifo \<rparr>) ?s ?n tag = Some r"
      using run go sp False by (cases "find_match (comm\<lparr> sc_fifo := fifo \<rparr>) ?s ?n tag") (auto simp: ncclIbIsend_def Let_def)
    with run go sp have "isend_matched pm v ?s ?n r data sz mh (comm\<lparr> sc_fifo := fifo \<rparr>) (ib_inc UNET_IB_FIFO_RECV_COUNT w) = (res, req, comm', w')"
      by (auto simp: ncclIbIsend_def Let_def split: prod.splits)
    then show thesis by (rule that)
  qed
  obtain res1 b o1 where g: "ncclIbGetRequest (sc_base comm) = (res1, b, o1)" by (metis prod_cases3)
  have tb: "turned 0 (sc_base comm) b" by (rule turned_get_request [OF g])
  show thesis
  proof (cases o1)
    case None
    then show thesis using m g tb waits by (auto simp: isend_matched_def Let_def split: if_splits)
  next
    case (Some i)
    let ?c1 = "comm\<lparr> sc_fifo := fifo \<rparr>"
    let ?c2 = "\<lambda>s. ?c1\<lparr> sc_base := upd_req i (fill_send_request pm ?c1 (int ?n) s data mh) b,
      sc_fifoReqs := (sc_fifoReqs comm)[row ?s r := Some i] \<rparr>"
    have t2: "turned 0 (sc_base comm) (sc_base (?c2 s))" for s using turned_trans [OF tb turned_upd_req] by simp
    have n2: "conn_nqps pm (sc_base (?c2 s)) = conn_nqps pm (sc_base comm)"
      "qp_at (sc_base (?c2 s)) = qp_at (sc_base comm)" for s
      using turned_sel [OF t2 [of s]] by (simp_all add: conn_nqps_def qp_at_def fun_eq_iff)
    obtain s where cases2: "comm' = ?c1 \<or> comm' = ?c2 s \<or>
        (\<exists>comm2 res2. ncclIbMultiSend pm v ?s (?c2 s) (ib_inc UNET_IB_FIFO_RECV_COUNT w) = (res2, comm2, w') \<and> \<not> ncclCheckFails res2 \<and>
          comm' = (clear_slot ?s comm2)\<lparr> sc_fifoHead := sc_fifoHead comm2 + 1 \<rparr>)"
      using m ok g Some by (auto simp: isend_matched_def Let_def split: if_splits prod.splits)
    then consider "comm' = ?c1" | "comm' = ?c2 s" | comm2 res2 where
      "ncclIbMultiSend pm v ?s (?c2 s) (ib_inc UNET_IB_FIFO_RECV_COUNT w) = (res2, comm2, w')" "\<not> ncclCheckFails res2"
      "comm' = (clear_slot ?s comm2)\<lparr> sc_fifoHead := sc_fifoHead comm2 + 1 \<rparr>" by blast
    then show thesis
    proof cases
      case 1
      then show thesis using waits by simp
    next
      case 2
      then show thesis using waits t2 by simp
    next
      case 3
      have "cb_qpIndex (sc_base (?c2 s)) < cb_nqps (sc_base (?c2 s))" by (rule turned_index_less [OF t2 q])
      note mt = multi_send_turns [OF 3(1,2) this]
      have "turned (conn_nqps pm (sc_base comm)) (sc_base comm) (sc_base comm2)"
        using turned_trans [OF t2 [of s]] mt n2(1) [of s] by (metis add_0)
      moreover have "new_posts (ib_inc UNET_IB_FIFO_RECV_COUNT w) w' = new_posts w w'" by (simp add: new_posts_def)
      ultimately show thesis using mt 3(3) n2 sent by (simp add: clear_slot_def)
    qed
  qed
qed

text \<open>A successful receive turns the queue pairs by the round it has posted its receive requests on.\<close>

lemma irecv_turns:
  assumes "recv_inv comm" "ncclIbIrecv pm v n data sizes tags mhs comm w = (ncclSuccess, rq, comm', w')"
  obtains req wr where "rc_fifoTail comm' = rc_fifoTail comm + 1"
    "cb_qpIndex (rc_base comm') = (cb_qpIndex (rc_base comm) + conn_nqps pm (rc_base comm)) mod cb_nqps (rc_base comm)"
    "cb_nqps (rc_base comm') = cb_nqps (rc_base comm)" "cb_ndevs (rc_base comm') = cb_ndevs (rc_base comm)"
    "cb_qps (rc_base comm') = cb_qps (rc_base comm)"
    "new_posts w w' = map (\<lambda>k. PostRecv (qp_handle (qp_at (rc_base comm) k)) (word_of_nat req)) [0..<conn_nqps pm (rc_base comm)] @
       [PostSend (qp_handle (cts_qp comm)) [wr]]"
proof -
  obtain req where "rc_fifoTail comm' = rc_fifoTail comm + 1"
    "wd_posts w' = wd_posts w @ map (\<lambda>k. PostRecv (qp_handle (qp_at (rc_base comm) k)) (word_of_nat req))
         [0..<conn_nqps pm (rc_base comm)] @ [PostSend (qp_handle (cts_qp comm)) [cts_wr comm n req (cts_qp comm)]]"
    "rc_base comm' = upd_req req (\<lambda>r. cts_event comm ((count_events (rc_base comm) (conn_nqps pm (rc_base comm))
         (fresh_recv n (cb_ndevs (rc_base comm)) r))\<lparr> recv_sizes := tail_slot comm \<rparr>))
       ((rc_base comm)\<lparr> cb_qpIndex := (cb_qpIndex (rc_base comm) + conn_nqps pm (rc_base comm)) mod cb_nqps (rc_base comm),
          cb_devIndex := (cb_devIndex (rc_base comm) + 1) mod cb_ndevs (rc_base comm) \<rparr>)"
    by (rule irecv_closed [OF assms])
  then show thesis by (intro that [of req "cts_wr comm n req (cts_qp comm)"]) (simp_all add: new_posts_append)
qed

section \<open>Tests and flushes leave the queue pairs\<close>

lemma turned_complete_sends: "complete_sends i wid js b = (res, b') \<Longrightarrow> turned 0 b b'"
proof (induction i wid js b rule: complete_sends.induct)
  case (2 i wid j js b)
  show ?case
  proof (cases "rq_events (cb_reqs b ! decode_wr_id wid j) ! i \<le> 0")
    case False
    with 2 have "turned 0 (upd_req (decode_wr_id wid j) (dec_event i) b) b'" by (simp add: Let_def)
    from turned_trans [OF turned_upd_req this] show ?thesis by simp
  qed (use 2 in \<open>simp add: Let_def\<close>)
qed simp

text \<open>Of a communicator under test, the base keeps all but its table and the array of sizes its length.\<close>

definition tested :: "test_state \<Rightarrow> test_state \<Rightarrow> bool" where
  "tested st st' \<longleftrightarrow> turned 0 (ts_base st) (ts_base st') \<and> length (ts_sizesFifo st') = length (ts_sizesFifo st)"

lemma tested_refl [simp]: "tested st st"
  by (simp add: tested_def)

lemma tested_trans: "tested a b \<Longrightarrow> tested b c \<Longrightarrow> tested a c"
  unfolding tested_def using turned_trans [of 0 "ts_base a" "ts_base b" 0 "ts_base c"] by simp

lemma tested_handle_wc:
  assumes "handle_wc pm i wc st = (res, st')"
  shows "tested st st'"
proof -
  obtain res1 b where c: "complete_sends i (wc_wr_id wc) [0..<nat (rq_nreqs (wc_req wc (ts_base st)))] (ts_base st) = (res1, b)"
    by fastforce
  note t = turned_complete_sends [OF c]
  show ?thesis
    using assms t c unfolding handle_wc_def Let_def tested_def
    by (cases "wc_ok wc"; cases "rq_type (wc_req wc (ts_base st)) = NCCL_NET_IB_REQ_SEND") (auto split: if_splits)
qed

lemma tested_handle_wcs: "handle_wcs pm i wcs st = (res, st') \<Longrightarrow> tested st st'"
proof (induction pm i wcs st arbitrary: res st' rule: handle_wcs.induct)
  case (2 pm i wc wcs st)
  obtain res1 st1 where h: "handle_wc pm i wc st = (res1, st1)" by fastforce
  with 2 tested_handle_wc [OF h] tested_trans show ?case by (auto split: if_splits)
qed simp

lemma tested_test_dev:
  assumes "test_dev pm df r i st = (res, n, st')"
  shows "tested st st'"
proof -
  obtain res1 wcs st1 where p: "poll_cq i st = (res1, wcs, st1)" by (metis prod_cases3)
  have t1: "tested st st1" using p by (auto simp: poll_cq_def tested_def split: list.splits prod.splits)
  obtain res2 st2 where h: "handle_wcs pm i wcs st1 = (res2, st2)" by fastforce
  have "tested st st2" by (rule tested_trans [OF t1 tested_handle_wcs [OF h]])
  then show ?thesis using assms p h t1 by (auto simp: test_dev_def Let_def split: if_splits)
qed

lemma tested_test_pass:
  assumes "test_pass pm df r st = (res, n, st')"
  shows "tested st st'"
proof -
  obtain r1 n1 s1 where d0: "test_dev pm df r 0 st = (r1, n1, s1)" by (metis prod_cases3)
  obtain r2 n2 s2 where d1: "test_dev pm df r 1 s1 = (r2, n2, s2)" by (metis prod_cases3)
  show ?thesis using assms d0 d1 tested_test_dev [OF d0] tested_trans [OF tested_test_dev [OF d0] tested_test_dev [OF d1]]
    by (auto simp: test_pass_def split: if_splits)
qed

lemma tested_ncclIbTest: "ncclIbTest pm df r st = (res, fin, sizes, st') \<Longrightarrow> tested st st'"
proof (induction pm df r st arbitrary: res fin sizes st' rule: ncclIbTest.induct)
  case (1 pm df r st)
  let ?c = "ncclIbStatsCheckFatalCount pm (cb_fatal (ts_base st))" and ?req = "cb_reqs (ts_base st) ! r"
  show ?case
  proof (cases "ncclCheckFails ?c \<or> rq_events ?req ! 0 = 0 \<and> rq_events ?req ! 1 = 0")
    case True
    then show ?thesis
      using "1.prems" by (auto simp: ncclIbTest.simps [of pm df r st] tested_def ncclIbFreeRequest_def Let_def split: if_splits)
  next
    case False
    obtain r1 n s1 where p: "test_pass pm df r st = (r1, n, s1)" by (metis prod_cases3)
    note t = tested_test_pass [OF p]
    show ?thesis
    proof (cases "ncclCheckFails r1 \<or> n = 0")
      case True
      then show ?thesis using "1.prems" False p t by (auto simp: ncclIbTest.simps [of pm df r st] Let_def split: if_splits)
    next
      case go: False
      have "ncclIbTest pm df r s1 = (res, fin, sizes, st')"
        using "1.prems" False p go by (auto simp: ncclIbTest.simps [of pm df r st] Let_def split: if_splits)
      from "1.IH" [OF refl refl _ _ p [symmetric] refl _ _ this] False go show ?thesis by (blast intro: tested_trans [OF t])
    qed
  qed
qed

text \<open>A flush changes the base only, and of it the table.\<close>

lemma flush_devs_turns:
  "flush_devs v req addr mh is comm w = (res, comm', w') \<Longrightarrow>
   comm' = comm\<lparr> rc_base := rc_base comm' \<rparr> \<and> turned 0 (rc_base comm) (rc_base comm')"
proof (induction v req addr mh "is" comm w rule: flush_devs.induct)
  case (2 v req addr mh i "is" comm w)
  obtain res1 w1 where p: "nic_post v (PostSend (gf_qp (rc_flush comm ! i)) [zero_wr\<lparr> wr_id := word_of_nat req, wr_remote_addr := addr,
       wr_rkey := mk_rkeys mh ! i, wr_sg := Some (gf_sge (rc_flush comm ! i)), wr_opcode := IBV_WR_RDMA_READ, wr_signaled := True \<rparr>]) w
     = (res1, w1)" by fastforce
  show ?case
  proof (cases "ncclCheckFails res1")
    case True
    then show ?thesis using "2.prems" p by (auto simp: Let_def)
  next
    case False
    let ?c = "comm\<lparr> rc_base := upd_req req (ncclIbAddEvent i) (rc_base comm) \<rparr>"
    have "flush_devs v req addr mh is ?c w1 = (res, comm', w')" using "2.prems" p False by (simp add: Let_def)
    from "2.IH" [OF refl p [symmetric] refl False this]
    have a: "comm' = ?c\<lparr> rc_base := rc_base comm' \<rparr>" "turned 0 (rc_base ?c) (rc_base comm')" by simp_all
    have "turned 0 (rc_base comm) (rc_base ?c)" by simp
    from turned_trans [OF this a(2)] have "turned 0 (rc_base comm) (rc_base comm')" by simp
    moreover have "comm' = comm\<lparr> rc_base := rc_base comm' \<rparr>" using a(1) by simp
    ultimately show ?thesis by blast
  qed
qed simp

lemma iflush_turns:
  assumes "ncclIbIflush v n data sizes mhs comm w = (res, rq, comm', w')"
  shows "comm' = comm\<lparr> rc_base := rc_base comm' \<rparr> \<and> turned 0 (rc_base comm) (rc_base comm')"
proof (cases "\<not> rc_flushEnabled comm \<or> last_nonzero (take n sizes) 0 (-1) = -1")
  case True
  then show ?thesis using assms by (auto simp: ncclIbIflush_def Let_def)
next
  case False
  obtain res1 b o1 where g: "ncclIbGetRequest (rc_base comm) = (res1, b, o1)" by (metis prod_cases3)
  note tb = turned_get_request [OF g]
  show ?thesis
  proof (cases o1)
    case None
    then show ?thesis using assms False g tb by (auto simp: ncclIbIflush_def Let_def)
  next
    case (Some req)
    let ?b = "upd_req req (\<lambda>r. r\<lparr> rq_type := NCCL_NET_IB_REQ_FLUSH, rq_sock := True \<rparr>) b"
    let ?l = "last_nonzero (take n sizes) 0 (-1)"
    obtain r2 c2 w2 where f: "flush_devs v req (data ! nat ?l) (mhs ! nat ?l) [0..<cb_ndevs ?b] (comm\<lparr> rc_base := ?b \<rparr>) w = (r2, c2, w2)"
      by (metis prod_cases3)
    have c2: "comm' = c2" using assms False g Some f by (auto simp: ncclIbIflush_def Let_def split: if_splits)
    note t = flush_devs_turns [OF f]
    have "turned 0 (rc_base comm) ?b" using turned_trans [OF tb turned_upd_req] by simp
    then have "turned 0 (rc_base comm) (rc_base comm')" using turned_trans [of 0 "rc_base comm" ?b 0] t c2 by simp
    moreover have "comm' = comm\<lparr> rc_base := rc_base comm' \<rparr>" using t c2 by (metis ncclIbRecvComm.update_convs(1) ncclIbRecvComm.surjective)
    ultimately show ?thesis by blast
  qed
qed

section \<open>The operations of both ends\<close>

text \<open>
  The steps of a connection: the successful calls of the two ends, tests whatever they return, entries that land, sizes that
  the sender writes, and the counts of fatal errors, which the thread of asynchronous events raises. A receive starts only when fewer than 256
  offers are open, as it holds one of the 256 requests until the sender has used its offer.
\<close>

inductive transport_step :: "ib_params \<Rightarrow> cts \<Rightarrow> cts_event \<Rightarrow> cts \<Rightarrow> bool" for pm where
  receive: "ncclIbIrecv pm v n data sizes tags mhs (ct_recv c) w = (ncclSuccess, rq, comm', w') \<Longrightarrow> 0 < n \<Longrightarrow>
    length (ct_hist c) < unat (sc_fifoHead (ct_send c)) + 256 \<Longrightarrow> length (ct_hist c) + 2 < 2 ^ 64 \<Longrightarrow>
    ws = slot_writes comm' (tail_slot (ct_recv c)) n \<Longrightarrow>
    transport_step pm c (Offered (map snd ws))
      (c\<lparr> ct_recv := comm', ct_net := ct_net c @ ws, ct_hist := ct_hist c @ [map snd ws] \<rparr>)"
| land: "ct_net c = xs @ (p, e) # ys \<Longrightarrow>
    transport_step pm c Internal
      (c\<lparr> ct_net := xs @ ys, ct_send := (ct_send c)\<lparr> sc_fifo := (sc_fifo (ct_send c))[p := e] \<rparr> \<rparr>)"
| send: "mset (ct_net c) = mset (ds @ rest) \<Longrightarrow>
    ncclIbIsend pm v data sz tag mh ds (ct_send c) w = Some (res, req, ds', comm', w') \<Longrightarrow> \<not> ncclCheckFails res \<Longrightarrow>
    slot = cur_slot (ct_send c) \<Longrightarrow> n = nat (slot_nreqs (ct_send c) slot) \<Longrightarrow>
    ev = (if sc_fifoHead comm' = sc_fifoHead (ct_send c) then Internal
          else Taken (sc_fifo (ct_send c) ! row slot 0 # map (\<lambda>k. sc_fifo comm' ! row slot k) [1..<n])) \<Longrightarrow>
    transport_step pm c ev (c\<lparr> ct_send := comm', ct_net := ds' @ rest \<rparr>)"
| test_send: "ts_base st = sc_base (ct_send c) \<Longrightarrow> ncclIbTest pm devFatal r st = (res, fin, szs, st') \<Longrightarrow>
    transport_step pm c Internal (c\<lparr> ct_send := (ct_send c)\<lparr> sc_base := ts_base st' \<rparr> \<rparr>)"
| test_recv: "ts_base st = rc_base (ct_recv c) \<Longrightarrow> ts_sizesFifo st = rc_sizesFifo (ct_recv c) \<Longrightarrow>
    ncclIbTest pm devFatal r st = (res, fin, szs, st') \<Longrightarrow>
    transport_step pm c Internal (c\<lparr> ct_recv := (ct_recv c)\<lparr> rc_base := ts_base st', rc_sizesFifo := ts_sizesFifo st' \<rparr> \<rparr>)"
| flush: "ncclIbIflush v n data sizes mhs (ct_recv c) w = (ncclSuccess, rq, comm', w') \<Longrightarrow>
    transport_step pm c Internal (c\<lparr> ct_recv := comm' \<rparr>)"
| sizes: "length zs = length (rc_sizesFifo (ct_recv c)) \<Longrightarrow>
    transport_step pm c Internal (c\<lparr> ct_recv := (ct_recv c)\<lparr> rc_sizesFifo := zs \<rparr> \<rparr>)"
| fatal: "transport_step pm c Internal
    (c\<lparr> ct_send := (ct_send c)\<lparr> sc_base := (sc_base (ct_send c))\<lparr> cb_fatal := x \<rparr> \<rparr>,
       ct_recv := (ct_recv c)\<lparr> rc_base := (rc_base (ct_recv c))\<lparr> cb_fatal := y \<rparr> \<rparr> \<rparr>)"

abbreviation transport_run :: "ib_params \<Rightarrow> cts \<Rightarrow> cts_event list \<Rightarrow> cts \<Rightarrow> bool" where
  "transport_run pm \<equiv> run (transport_step pm)"

lemma recv_inv_tested:
  assumes "recv_inv r" "turned 0 (rc_base r) b" "length zs = length (rc_sizesFifo r)"
  shows "recv_inv (r\<lparr> rc_base := b, rc_sizesFifo := zs \<rparr>)"
  using assms by (simp add: recv_inv_def turned_sel tail_slot_def)

text \<open>Every step is one of the channel.\<close>

lemma other_send: "sc_fifo s = sc_fifo (ct_send c) \<Longrightarrow> sc_fifoHead s = sc_fifoHead (ct_send c) \<Longrightarrow> recv_inv (ct_recv c) \<Longrightarrow>
    cts_step pm c Internal (c\<lparr> ct_send := s \<rparr>)"
  using cts_step.other [of s c "ct_recv c" pm] by simp

lemma other_recv: "recv_inv r \<Longrightarrow> rc_fifoTail r = rc_fifoTail (ct_recv c) \<Longrightarrow> cts_step pm c Internal (c\<lparr> ct_recv := r \<rparr>)"
  using cts_step.other [of "ct_send c" c r pm] by simp

lemma transport_cts:
  assumes "transport_step pm c ev c'" "recv_inv (ct_recv c)"
  shows "cts_step pm c ev c'"
  using assms(1)
proof cases
  case receive
  then show ?thesis by (simp add: cts_step.post)
next
  case land
  then show ?thesis using cts_step.land by simp
next
  case send
  then show ?thesis using cts_step.send by blast
next
  case test_send
  then show ?thesis using assms(2) other_send by simp
next
  case (test_recv st df r res fin szs st')
  then have "turned 0 (rc_base (ct_recv c)) (ts_base st')" "length (ts_sizesFifo st') = length (rc_sizesFifo (ct_recv c))"
    using tested_ncclIbTest [OF test_recv(5)] by (simp_all add: tested_def)
  then show ?thesis using test_recv(1,2) other_recv [OF recv_inv_tested [OF assms(2)]] by simp
next
  case (flush v n data szs mhs w rq comm')
  note t = iflush_turns [OF flush(3)]
  have "comm' = (ct_recv c)\<lparr> rc_base := rc_base comm', rc_sizesFifo := rc_sizesFifo (ct_recv c) \<rparr>" using t by (cases comm') auto
  then have "recv_inv comm'" "rc_fifoTail comm' = rc_fifoTail (ct_recv c)"
    using recv_inv_tested [OF assms(2), of "rc_base comm'" "rc_sizesFifo (ct_recv c)"] t by (metis, metis ncclIbRecvComm.select_convs(6) ncclIbRecvComm.surjective ncclIbRecvComm.update_convs(1))
  then show ?thesis using flush(1,2) other_recv by simp
next
  case (sizes zs)
  then show ?thesis using other_recv [of "(ct_recv c)\<lparr> rc_sizesFifo := zs \<rparr>" c] assms(2) by (simp add: recv_inv_def tail_slot_def)
next
  case (fatal y x)
  then show ?thesis
    using cts_step.other [of "(ct_send c)\<lparr> sc_base := (sc_base (ct_send c))\<lparr> cb_fatal := x \<rparr> \<rparr>" c
        "(ct_recv c)\<lparr> rc_base := (rc_base (ct_recv c))\<lparr> cb_fatal := y \<rparr> \<rparr>" pm] assms(2)
    by (simp add: recv_inv_def tail_slot_def)
qed

text \<open>
  The invariant over a connection with \<open>nd\<close> devices and the queue pairs \<open>sqps\<close> and \<open>rqps\<close>, \<open>nq\<close> of them in use: each end's
  next queue pair is the one its number of messages leads to.
\<close>

definition round_qps :: "ib_params \<Rightarrow> nat \<Rightarrow> nat \<Rightarrow> nat" where
  "round_qps pm nd nq = (if pm_splitDataOnQps pm then nq else nd)"

definition in_turn :: "ib_params \<Rightarrow> nat \<Rightarrow> nat \<Rightarrow> ncclIbQp list \<Rightarrow> nat \<Rightarrow> ncclIbNetCommBase \<Rightarrow> bool" where
  "in_turn pm nd nq qps m b \<longleftrightarrow> cb_ndevs b = nd \<and> cb_nqps b = nq \<and> cb_qps b = qps \<and> 0 < nq \<and>
     cb_qpIndex b = (m * round_qps pm nd nq) mod nq"

definition aligned :: "ib_params \<Rightarrow> nat \<Rightarrow> nat \<Rightarrow> ncclIbQp list \<Rightarrow> ncclIbQp list \<Rightarrow> cts \<Rightarrow> bool" where
  "aligned pm nd nq sqps rqps c \<longleftrightarrow> cts_inv c \<and>
     in_turn pm nd nq sqps (unat (sc_fifoHead (ct_send c))) (sc_base (ct_send c)) \<and>
     in_turn pm nd nq rqps (unat (rc_fifoTail (ct_recv c))) (rc_base (ct_recv c))"

lemma conn_nqps_round: "in_turn pm nd nq qps m b \<Longrightarrow> conn_nqps pm b = round_qps pm nd nq"
  by (simp add: in_turn_def conn_nqps_def round_qps_def)

lemma in_turn_stays: "in_turn pm nd nq qps m b \<Longrightarrow> turned 0 b b' \<Longrightarrow> in_turn pm nd nq qps m b'"
  by (simp add: in_turn_def turned_sel)

lemma in_turn_turns:
  assumes "in_turn pm nd nq qps m b" "turned (conn_nqps pm b) b b'"
  shows "in_turn pm nd nq qps (m + 1) b'"
proof -
  let ?n = "round_qps pm nd nq"
  have "conn_nqps pm b = ?n" by (rule conn_nqps_round [OF assms(1)])
  moreover have "(m * ?n mod nq + ?n) mod nq = ((m + 1) * ?n) mod nq" by (simp add: mod_add_left_eq add.commute [of _ ?n] mod_add_right_eq)
  ultimately show ?thesis
    using assms turned_sel [OF assms(2)] by (auto simp: in_turn_def split: if_splits)
qed

lemma in_turn_qp_at: "in_turn pm nd nq qps m b \<Longrightarrow> qp_at b k = qps ! ((m * round_qps pm nd nq + k) mod nq)"
  by (simp add: in_turn_def qp_at_def mod_add_left_eq)

lemma unat_next: "unat (x :: u64) + 1 < 2 ^ 64 \<Longrightarrow> unat (x + 1) = unat x + 1"
  by (rule unat_Suc)

text \<open>Each step keeps it; a send that completes and a receive advance the number of their side.\<close>

lemma aligned_step:
  assumes "transport_step pm c ev c'" "aligned pm nd nq sqps rqps c"
  shows "aligned pm nd nq sqps rqps c' \<and> queue_step (cts_queue c) ev (cts_queue c')"
proof -
  have inv: "cts_inv c" and S: "in_turn pm nd nq sqps (unat (sc_fifoHead (ct_send c))) (sc_base (ct_send c))"
    and R: "in_turn pm nd nq rqps (unat (rc_fifoTail (ct_recv c))) (rc_base (ct_recv c))"
    using assms(2) by (simp_all add: aligned_def)
  have ri: "recv_inv (ct_recv c)" using inv by (simp add: cts_inv_def)
  have step: "cts_step pm c ev c'" by (rule transport_cts [OF assms(1) ri])
  note q = cts_step_queue [OF step inv]
  have "in_turn pm nd nq sqps (unat (sc_fifoHead (ct_send c'))) (sc_base (ct_send c')) \<and>
      in_turn pm nd nq rqps (unat (rc_fifoTail (ct_recv c'))) (rc_base (ct_recv c'))"
    using assms(1)
  proof cases
    case (receive v n data sizes tags mhs w rq comm' w' ws)
    obtain req wr where t: "rc_fifoTail comm' = rc_fifoTail (ct_recv c) + 1"
      "cb_qpIndex (rc_base comm') = (cb_qpIndex (rc_base (ct_recv c)) + conn_nqps pm (rc_base (ct_recv c))) mod cb_nqps (rc_base (ct_recv c))"
      "cb_nqps (rc_base comm') = cb_nqps (rc_base (ct_recv c))" "cb_ndevs (rc_base comm') = cb_ndevs (rc_base (ct_recv c))"
      "cb_qps (rc_base comm') = cb_qps (rc_base (ct_recv c))"
      by (rule irecv_turns [OF ri receive(3)])
    have "unat (rc_fifoTail comm') = unat (rc_fifoTail (ct_recv c)) + 1"
      using unat_next [of "rc_fifoTail (ct_recv c)"] inv by (simp add: t(1) cts_inv_def)
    moreover have "(cb_qpIndex (rc_base (ct_recv c)) + round_qps pm nd nq) mod nq = ((unat (rc_fifoTail (ct_recv c)) + 1) * round_qps pm nd nq) mod nq"
      using R by (simp add: in_turn_def add.commute [of _ "round_qps pm nd nq"] mod_add_right_eq)
    ultimately have "in_turn pm nd nq rqps (unat (rc_fifoTail comm')) (rc_base comm')"
      using R t conn_nqps_round [OF R] by (simp add: in_turn_def)
    then show ?thesis using S receive(2) by simp
  next
    case land
    then show ?thesis using S R by simp
  next
    case (send ds rest v data sz tag mh w res req ds' comm' w' slot n)
    have "cb_qpIndex (sc_base (ct_send c)) < cb_nqps (sc_base (ct_send c))" using S by (simp add: in_turn_def)
    then show ?thesis
    proof (rule isend_turns [OF send(3,4)])
      assume "sc_fifoHead comm' = sc_fifoHead (ct_send c)" "turned 0 (sc_base (ct_send c)) (sc_base comm')"
      then show ?thesis using in_turn_stays [OF S] R send(1) by simp
    next
      assume h: "sc_fifoHead comm' = sc_fifoHead (ct_send c) + 1"
        and t: "turned (conn_nqps pm (sc_base (ct_send c))) (sc_base (ct_send c)) (sc_base comm')"
      have "unat (sc_fifoHead (ct_send c)) < length (ct_hist c)"
      proof -
        have "ev = Taken (sc_fifo (ct_send c) ! row slot 0 # map (\<lambda>k. sc_fifo comm' ! row slot k) [1..<n])" using send(7) h by simp
        then have "cts_queue c \<noteq> []" using q by (auto elim: queue_stepE)
        then show ?thesis by (simp add: cts_queue_def offers_def cts_ring_def)
      qed
      then have "unat (sc_fifoHead comm') = unat (sc_fifoHead (ct_send c)) + 1"
        using unat_next [of "sc_fifoHead (ct_send c)"] inv h by (simp add: cts_inv_def)
      then show ?thesis using in_turn_turns [OF S t] R send(1) by simp
    qed
  next
    case (test_send st df r res fin szs st')
    then show ?thesis using in_turn_stays [OF S] tested_ncclIbTest [OF test_send(4)] R by (simp add: tested_def)
  next
    case (test_recv st df r res fin szs st')
    then show ?thesis using in_turn_stays [OF R] tested_ncclIbTest [OF test_recv(5)] S by (simp add: tested_def)
  next
    case (flush v n data szs mhs w rq comm' w')
    note t = iflush_turns [OF flush(3)]
    have "rc_fifoTail comm' = rc_fifoTail (ct_recv c)"
      using t by (metis ncclIbRecvComm.select_convs(6) ncclIbRecvComm.surjective ncclIbRecvComm.update_convs(1))
    then show ?thesis using in_turn_stays [OF R] t S flush(2) by simp
  next
    case sizes
    then show ?thesis using S R by simp
  next
    case fatal
    then show ?thesis using S R by (simp add: in_turn_def)
  qed
  then show ?thesis using q by (simp add: aligned_def)
qed

section \<open>From the connection on\<close>

text \<open>The channel of a new connection, when the receiver has read the sender's flag.\<close>

definition new_channel :: "send_setup \<Rightarrow> recv_setup \<Rightarrow> cts" where
  "new_channel c r =
     \<lparr> ct_send = ss_comm c,
       ct_recv = (rt_comm r)\<lparr> rc_base := (rc_base (rt_comm r))\<lparr> cb_ready := cb_ready (sc_base (ss_comm c)) \<rparr> \<rparr>,
       ct_net = [], ct_hist = [] \<rparr>"

lemma accept_setup_fresh:
  assumes "accept_setup sp v t dev junk rem c e = (Inr (c', m), e')" "rt_comm c = zero_recv_comm"
  shows "rc_fifoTail (rt_comm c') = 0 \<and> cb_qpIndex (rc_base (rt_comm c')) = 0"
  using assms by (auto simp: accept_setup_def Let_def andThen_Inr zero_recv_comm_def zero_comm_base_def)

lemma connected_fresh:
  assumes "connected sp v t dev sp' v' t' dev' c e r f"
  shows "cts_start (new_channel c r)" "send_inv pm (ss_comm c)"
    "aligned pm (length (group t dev)) (nqps_of sp t dev) (cb_qps (sc_base (ss_comm c))) (cb_qps (rc_base (rt_comm r))) (new_channel c r)"
proof -
  have ok: "conn_ok (length (group t dev)) (nqps_of sp t dev) c" "acc_ok (length (group t dev)) (nqps_of sp t dev) r"
    by (rule connected_facts [OF assms], assumption)+
  have z: "rc_fifoTail (rt_comm r) = 0" "cb_qpIndex (rc_base (rt_comm r)) = 0"
    using assms accept_setup_fresh unfolding connected_def by blast+
  show st: "cts_start (new_channel c r)"
    using ok z by (simp add: cts_start_def new_channel_def conn_ok_def acc_ok_def fresh_send_def recv_inv_def tail_slot_def)
  show "send_inv pm (ss_comm c)" by (rule conn_ok_inv [OF ok(1)])
  show "aligned pm (length (group t dev)) (nqps_of sp t dev) (cb_qps (sc_base (ss_comm c))) (cb_qps (rc_base (rt_comm r))) (new_channel c r)"
    using cts_start_inv [OF st] ok z
    by (simp add: aligned_def in_turn_def new_channel_def conn_ok_def acc_ok_def fresh_send_def)
qed

text \<open>
  So the operations are two queue machines on the same invariant: the open offers, and the history, which nothing leaves.
\<close>

lemma transport_hist:
  assumes "aligned pm nd nq sqps rqps c" "transport_step pm c ev c'"
  shows "ct_hist c @ offered_in [ev] = ct_hist c'"
proof -
  have "recv_inv (ct_recv c)" using assms(1) by (simp add: aligned_def cts_inv_def)
  from transport_cts [OF assms(2) this] show ?thesis by cases auto
qed

interpretation transport: queue_machine "transport_step pm" "aligned pm nd nq sqps rqps" cts_queue
    "\<lambda>ev. offered_in [ev]" "\<lambda>ev. taken_in [ev]" for pm nd nq sqps rqps
  by unfold_locales (auto dest: aligned_step intro: queue_step_lists)

interpretation history: queue_machine "transport_step pm" "aligned pm nd nq sqps rqps" ct_hist
    "\<lambda>ev. offered_in [ev]" "\<lambda>ev. []" for pm nd nq sqps rqps
  by unfold_locales (simp add: transport_hist)

text \<open>Along a run the numbers of the two sides are those of the offers taken and made.\<close>

lemma transport_run_facts:
  assumes "transport_run pm c evs x" "cts_start c" "aligned pm nd nq sqps rqps c"
  shows "aligned pm nd nq sqps rqps x \<and> offered_in evs = taken_in evs @ cts_queue x \<and>
    length (offered_in evs) = unat (rc_fifoTail (ct_recv x)) \<and> length (taken_in evs) = unat (sc_fifoHead (ct_send x))"
proof -
  have x: "aligned pm nd nq sqps rqps x" by (rule transport.run_keeps [OF assms(1,3)])
  have q: "offered_in evs = taken_in evs @ cts_queue x"
    using transport.run_moves [OF assms(1,3)] cts_start_inv [OF assms(2)] by (simp add: offered_concat taken_concat)
  have "offered_in evs = ct_hist x"
    using history.run_moves [OF assms(1,3)] assms(2) by (simp add: offered_concat cts_start_def)
  moreover have inv: "cts_inv x" using x by (simp add: aligned_def)
  then have "length (ct_hist x) = unat (rc_fifoTail (ct_recv x))" "unat (sc_fifoHead (ct_send x)) \<le> length (ct_hist x)"
    using ring_invD(2) [of "cts_ring x"] by (simp_all add: cts_inv_def rg_tail_def cts_ring_def)
  moreover have "length (cts_queue x) = length (ct_hist x) - unat (sc_fifoHead (ct_send x))"
    by (simp add: cts_queue_def offers_def cts_ring_def)
  moreover have "length (offered_in evs) = length (taken_in evs) + length (cts_queue x)" using q by simp
  ultimately show ?thesis using x q by simp
qed

end
