(* ===== verification/Message.thy ===== *)
theory Message
  imports EndToEnd
begin

text \<open>
  One message through the operations of \<^verbatim>\<open>src/unet/unet_ib.cc\<close>: the receive that asks for it, the offer that lands, the send
  that uses the offer, the bytes its writes place, and the tests by which each end learns that it is done. The completions
  are those a card gives for the work posted: one for each signalled request, under its identifier, on the queue of the device it was
  posted on, and one for each write with immediate data on the side it goes to, under the identifier of the receive request that was waiting.
\<close>

section \<open>The completions of the posted work\<close>

definition chain_wc :: "nic_op \<Rightarrow> ibv_wc" where
  "chain_wc op = \<lparr> wc_ok = True, wc_wr_id = wr_id (last (op_wrs op)), wc_opcode = IBV_WC_SEND_SIDE, wc_imm = 0 \<rparr>"

definition on_dev :: "ncclIbNetCommBase \<Rightarrow> nat \<Rightarrow> nat \<Rightarrow> nat list" where
  "on_dev b m d = filter (\<lambda>k. qp_devIndex (qp_at b k) = d) [0..<m]"

text \<open>The sender's: one for each chain, as its last request is the signalled one.\<close>

definition send_wcs :: "ncclIbNetCommBase \<Rightarrow> nic_op list \<Rightarrow> nat \<Rightarrow> ibv_wc list" where
  "send_wcs b ops d = map (\<lambda>k. chain_wc (ops ! k)) (on_dev b (length ops) d)"

fun op_recv_id :: "nic_op \<Rightarrow> u64" where
  "op_recv_id (PostRecv h i) = i"
| "op_recv_id (PostSend h wrs) = 0"

definition imm_wc :: "nic_op \<Rightarrow> nic_op \<Rightarrow> ibv_wc" where
  "imm_wc rop sop = \<lparr> wc_ok = True, wc_wr_id = op_recv_id rop, wc_opcode = IBV_WC_RECV_RDMA_WITH_IMM,
                      wc_imm = wr_imm (last (op_wrs sop)) \<rparr>"

text \<open>The receiver's: the immediate data of each chain, and the offer's own when it is signalled.\<close>

definition recv_wcs :: "ncclIbNetCommBase \<Rightarrow> nat \<Rightarrow> nic_op list \<Rightarrow> nic_op list \<Rightarrow> nat \<Rightarrow> ibv_wc list" where
  "recv_wcs b ctsDev rops sops d = map (\<lambda>k. imm_wc (rops ! k) (sops ! k)) (on_dev b (length sops) d) @
     (if wr_signaled (last (op_wrs (last rops))) \<and> ctsDev = d then [chain_wc (last rops)] else [])"

text \<open>What a test finds: these completions, in any order and any batches of up to four.\<close>

definition brings :: "test_state \<Rightarrow> (nat \<Rightarrow> ibv_wc list) \<Rightarrow> bool" where
  "brings st q \<longleftrightarrow> (\<forall>d \<in> {0, 1}. mset (owed d st) = mset (q d) \<and> batches_ok (ts_cqs st d))"

lemma length_on_dev: "length (on_dev b m d) = dev_count b m d"
  by (simp add: on_dev_def dev_count_def)

lemma brings_owed:
  assumes "brings st q" "d < 2"
  shows "set (owed d st) = set (q d)" "length (owed d st) = length (q d)" "batches_ok (ts_cqs st d)"
  using assms mset_eq_setD mset_eq_length unfolding brings_def by (auto simp: less_2_cases_iff)

text \<open>One way a card may bring them: one at a time.\<close>

definition one_by_one :: "ncclIbNetCommBase \<Rightarrow> int list \<Rightarrow> world \<Rightarrow> (nat \<Rightarrow> ibv_wc list) \<Rightarrow> test_state" where
  "one_by_one b zs w q = \<lparr> ts_base = b, ts_sizesFifo = zs, ts_world = w, ts_cqs = (\<lambda>d. map (\<lambda>wc. (ncclSuccess, [wc])) (q d)) \<rparr>"

lemma one_by_one_sel [simp]: "ts_base (one_by_one b zs w q) = b" "ts_sizesFifo (one_by_one b zs w q) = zs"
  by (simp_all add: one_by_one_def)

lemma one_by_one_brings [simp]: "brings (one_by_one b zs w q) q"
  by (simp add: one_by_one_def brings_def owed_def o_def) (auto simp: batches_ok_def)

section \<open>The offer\<close>

text \<open>A connection between messages: no offer is open or on its way, and the sender has a request to spare.\<close>

definition between_messages :: "ib_params \<Rightarrow> cts \<Rightarrow> bool" where
  "between_messages pm c \<longleftrightarrow> cts_inv c \<and> cts_queue c = [] \<and> ct_net c = [] \<and> send_inv pm (ct_send c) \<and>
     cb_ready (sc_base (ct_send c)) \<noteq> 0 \<and> unused (sc_base (ct_send c)) \<noteq> {} \<and>
     (\<forall>k < 8. sc_fifoReqs (ct_send c) ! row (cur_slot (ct_send c)) k = None) \<and>
     \<not> ncclCheckFails (ncclIbStatsCheckFatalCount pm (cb_fatal (sc_base (ct_send c)))) \<and>
     conn_nqps pm (sc_base (ct_send c)) = conn_nqps pm (rc_base (ct_recv c)) \<and>
     (\<forall>k. qp_devIndex (qp_at (rc_base (ct_recv c)) k) < 2) \<and>
     sf_rkeys (rc_fifo (ct_recv c) ! row (tail_slot (ct_recv c)) 0) \<noteq> []"

text \<open>The sender once the entries of the receiver's slot have landed.\<close>

definition landed :: "cts \<Rightarrow> ncclIbRecvComm \<Rightarrow> nat \<Rightarrow> ncclIbSendComm" where
  "landed c r n = (ct_send c)\<lparr> sc_fifo := fold (\<lambda>(p, e) f. f[p := e]) (slot_writes r (tail_slot (ct_recv c)) n) (sc_fifo (ct_send c)) \<rparr>"

lemma cur_is_tail_slot:
  assumes "cts_inv c" "cts_queue c = []"
  shows "cur_slot (ct_send c) = tail_slot (ct_recv c)" "sc_fifoHead (ct_send c) = rc_fifoTail (ct_recv c)"
proof -
  have "unat (sc_fifoHead (ct_send c)) = unat (rc_fifoTail (ct_recv c))"
    using assms ring_invD(2) [of "cts_ring c"]
    by (simp add: cts_inv_def cts_queue_def offers_def cts_ring_def rg_tail_def)
  then show "sc_fifoHead (ct_send c) = rc_fifoTail (ct_recv c)" by (simp add: word_unat_eq_iff)
  then show "cur_slot (ct_send c) = tail_slot (ct_recv c)" by (simp add: cur_slot_def tail_slot_def)
qed

lemma fold_rkeys_0: "0 < m \<Longrightarrow> ks \<noteq> [] \<Longrightarrow> fold (\<lambda>j ks. ks[j := f j]) [0..<m] ks ! 0 = f 0"
proof -
  assume m: "0 < m" and ks: "ks \<noteq> []"
  have len: "fold (\<lambda>j ks. ks[j := f j]) js ks \<noteq> []" if "ks \<noteq> []" for js and ks :: "'a list"
    using that by (induction js arbitrary: ks) simp_all
  have "fold (\<lambda>j ks. ks[j := f j]) js ks ! 0 = (if 0 \<in> set js then f 0 else ks ! 0)" if "ks \<noteq> []" for js and ks :: "'a list"
    using that by (induction js arbitrary: ks) (auto simp: nth_list_update)
  from this [OF ks, of "[0..<m]"] m show ?thesis by simp
qed

lemma landed_offer_ready:
  assumes between: "between_messages pm c"
    and run: "ncclIbIrecv pm v 1 [data] [sz] [tag] [mh] (ct_recv c) w = (ncclSuccess, rq, r, w')"
    and ok: "data \<noteq> 0" "0 \<le> sz" "mk_rkeys mh ! 0 \<noteq> 0"
  shows "send_inv pm (landed c r 1)" "offer_ready (landed c r 1) tag"
    "sf_size (sc_fifo (landed c r 1) ! row (cur_slot (landed c r 1)) 0) = sz"
    "sf_addr (sc_fifo (landed c r 1) ! row (cur_slot (landed c r 1)) 0) = data"
proof -
  let ?s = "tail_slot (ct_recv c)"
  define lc where "lc = landed c r 1"
  have inv: "cts_inv c" "recv_inv (ct_recv c)" "send_inv pm (ct_send c)" using between by (simp_all add: between_messages_def cts_inv_def)
  have slot: "cur_slot (ct_send c) = ?s" "sc_fifoHead (ct_send c) = rc_fifoTail (ct_recv c)"
    using cur_is_tail_slot [OF inv(1)] between by (simp_all add: between_messages_def)
  have s: "row ?s 0 < 2048" using row_less [OF tail_slot_less] by simp
  have len: "length (rc_fifo (ct_recv c)) = 2048" "length (sc_fifo (ct_send c)) = 2048" "0 < cb_ndevs (rc_base (ct_recv c))"
    "sf_rkeys (rc_fifo (ct_recv c) ! row ?s 0) \<noteq> []"
    using inv between by (simp_all add: recv_inv_def send_inv_def between_messages_def)
  let ?e = "cts_entry (ct_recv c) 1 data sz tag mh (rc_fifo (ct_recv c) ! row ?s 0)"
  obtain req where "rc_fifo r = offered (ct_recv c) 1 [data] [sz] [tag] [mh]" by (rule irecv_closed [OF inv(2) run])
  then have e: "rc_fifo r ! row ?s 0 = ?e" using offered_nth(1) [OF len(1), of 1 0] by simp
  have c: "lc = (ct_send c)\<lparr> sc_fifo := (sc_fifo (ct_send c))[row ?s 0 := ?e] \<rparr>" by (simp add: lc_def landed_def slot_writes_def e)
  have cur: "cur_slot lc = ?s" using slot by (simp add: c cur_slot_def)
  have f: "sc_fifo lc ! row ?s 0 = ?e" using s len by (simp add: c)
  show "sf_size (sc_fifo (landed c r 1) ! row (cur_slot (landed c r 1)) 0) = sz"
    "sf_addr (sc_fifo (landed c r 1) ! row (cur_slot (landed c r 1)) 0) = data"
    unfolding lc_def [symmetric] cur f by (simp_all add: cts_entry_def)
  have n: "slot_nreqs lc ?s = 1" by (simp add: slot_nreqs_def f) (simp add: cts_entry_def)
  have none: "sc_fifoReqs lc ! row (cur_slot lc) k = None" if "k < 8" for k
    using between slot that unfolding cur by (simp add: c between_messages_def)
  then show "send_inv pm (landed c r 1)" using inv(3) cur slot unfolding lc_def [symmetric] send_inv_def by (simp add: c)
  have "sf_rkeys ?e ! 0 \<noteq> 0" using fold_rkeys_0 [OF len(3,4)] ok(3) by (simp add: cts_entry_def)
  then show "offer_ready (landed c r 1) tag"
    unfolding lc_def [symmetric] offer_ready_def Let_def cur n f using between ok slot none [of 0]
    by (simp add: c bad_recv_info_def between_messages_def cur) (simp add: cts_entry_def)
qed

section \<open>The send\<close>

text \<open>A send that uses the offer: its bytes, its chains, and the request the sender keeps.\<close>

lemma isend_request:
  assumes inv: "send_inv pm comm" and off: "offer_ready comm tag" and sz: "0 \<le> sz" "sz < 2 ^ 31" and v: "\<forall>h p. v h p = ncclSuccess"
    and fit: "chunks_fit (min sz (sf_size (sc_fifo comm ! row (cur_slot comm) 0))) (conn_nqps pm (sc_base comm))"
  defines "e \<equiv> sc_fifo comm ! row (cur_slot comm) 0"
  defines "s \<equiv> min sz (sf_size e)"
  obtains i comm' w' where "ncclIbIsend pm v data sz tag mh ds comm w = Some (ncclSuccess, Some i, ds, comm', w')" "i < 256"
    "rdma_writes src (new_posts w w') dst = copied src data (nat s) (sf_addr e) dst"
    "length (new_posts w w') = conn_nqps pm (sc_base comm)"
    "\<forall>k < length (new_posts w w'). wr_id (last (op_wrs (new_posts w w' ! k))) = encode_wr_id [i] \<and>
       wr_imm (last (op_wrs (new_posts w w' ! k))) = word_of_int s"
    "rq_type (cb_reqs (sc_base comm') ! i) = NCCL_NET_IB_REQ_SEND" "rq_nreqs (cb_reqs (sc_base comm') ! i) = 1"
    "send_size (cb_reqs (sc_base comm') ! i) = s" "rq_events (cb_reqs (sc_base comm') ! i) = send_events pm (sc_base comm)"
    "length (cb_reqs (sc_base comm')) = MAX_REQUESTS" "cb_fatal (sc_base comm') = cb_fatal (sc_base comm)"
proof -
  obtain i sz' comm2 w' where i: "i \<in> unused (sc_base comm)" and s: "sz' = min sz (sf_size (sc_fifo comm ! row (cur_slot comm) 0))"
    and ready: "send_ready (with_request pm (cur_slot comm) 1 0 data sz' mh i comm) (cur_slot comm) [i]"
    and ms: "ncclIbMultiSend pm v (cur_slot comm) (with_request pm (cur_slot comm) 1 0 data sz' mh i comm)
       (ib_inc UNET_IB_FIFO_RECV_COUNT w) = (ncclSuccess, comm2, w')"
    and run: "ncclIbIsend pm v data sz tag mh ds comm w = Some (ncclSuccess, Some i, ds,
       (clear_slot (cur_slot comm) comm2)\<lparr> sc_fifoHead := sc_fifoHead comm2 + 1 \<rparr>, w')"
    by (rule isend_single [OF inv off sz v])
  let ?d = "with_request pm (cur_slot comm) 1 0 data sz' mh i comm" and ?w = "ib_inc UNET_IB_FIFO_RECV_COUNT w"
  let ?n = "conn_nqps pm (sc_base comm)"
  have s': "s = sz'" by (simp add: s_def e_def s)
  have b: "i < length (cb_reqs (sc_base comm))" "length (cb_reqs (sc_base comm)) = MAX_REQUESTS" "cb_qpIndex (sc_base comm) < cb_nqps (sc_base comm)"
    "0 < cb_nqps (sc_base comm)" "0 < cb_ndevs (sc_base comm)"
    using i inv by (auto simp: unused_def send_inv_def)
  have n: "conn_nqps pm (sc_base ?d) = ?n" "0 < ?n" using b by (simp_all add: conn_nqps_def)
  have rq: "get_req ?d i = fill_send_request pm comm 1 sz' data mh ((get_req comm i)\<lparr> rq_sock := False,
      rq_devBases := [None, None], rq_events := [0, 0] \<rparr>)" by (simp add: get_req_with_request [OF b(1,1)])
  have new: "new_posts ?w w' = new_posts w w'" by (simp add: new_posts_def)
  have copies: "rdma_writes src (new_posts w w') dst = copied src data (nat s) (sf_addr e) dst"
    using multi_send_copies_one [OF ready _ ms, of src dst] n rq fit by (simp add: new fill_send_request_sel s' s e_def)
  note ops = multi_send_ops [OF ready ms, unfolded new n(1)]
  have wrs: "wr_id (last (op_wrs (new_posts w w' ! k))) = encode_wr_id [i] \<and> wr_imm (last (op_wrs (new_posts w w' ! k))) = word_of_int s"
    if "k < length (new_posts w w')" for k
  proof -
    have keys: "map wr_key (op_wrs (new_posts w w' ! k)) =
        replicate (length [i] - (if has_extra pm ?d [i] then 0 else 1)) (0, IBV_WR_RDMA_WRITE, False, 0) @
        [(encode_wr_id [i], IBV_WR_RDMA_WRITE_WITH_IMM, True, send_imm ?d [i])]"
      using multi_send_completions [OF ready ms, of k] that by (simp only: new n(1) ops(1))
    then have "wr_key (last (op_wrs (new_posts w w' ! k))) = (encode_wr_id [i], IBV_WR_RDMA_WRITE_WITH_IMM, True, send_imm ?d [i])"
      by (metis last_map last_snoc list.map_disc_iff append_is_Nil_conv not_Cons_self2)
    then show ?thesis unfolding send_imm_def by (simp add: wr_key_def rq [simplified] fill_send_request_sel s')
  qed
  have at: "at_chunk (store_sizes ?d (cur_slot comm) [i]) [i] ?n ?n comm2" using multi_send_closed(3) [OF ready ms] n by simp
  have r2: "get_req comm2 i = (get_req ?d i)\<lparr> send_offset := i32 (int ?n * chunkSize (send_size (get_req ?d i)) ?n) \<rparr>"
    using at_chunk_req [OF at] b by (simp add: store_sizes_def get_req_def with_request_def)
  have "rq_events (get_req ?d i) = send_events pm (sc_base comm)"
    unfolding rq by (rule fill_send_request_events) (use b in simp_all)
  then have kept: "rq_type (get_req comm2 i) = NCCL_NET_IB_REQ_SEND" "rq_nreqs (get_req comm2 i) = 1"
    "send_size (get_req comm2 i) = s" "rq_events (get_req comm2 i) = send_events pm (sc_base comm)"
    by (simp_all add: r2 rq [simplified] fill_send_request_sel s')
  have "cb_fatal (sc_base comm2) = cb_fatal (sc_base comm)" "length (cb_reqs (sc_base comm2)) = MAX_REQUESTS"
    using at b by (auto simp: at_chunk_def store_sizes_def with_request_def)
  then show thesis
    by (intro that [OF run _ copies]) (use kept b ops(1) wrs in \<open>simp_all add: clear_slot_def get_req_def\<close>)
qed

section \<open>The tests\<close>

definition quiet :: "ib_params \<Rightarrow> (nat \<Rightarrow> int) \<Rightarrow> bool" where
  "quiet pm devFatal \<longleftrightarrow> (\<forall>d < 2. \<not> ncclCheckFails (ncclIbStatsCheckFatalCount pm (devFatal d)))"

lemma set_on_dev: "set (on_dev b m d) \<subseteq> {..<m}"
  by (auto simp: on_dev_def)

lemma send_test_done:
  assumes st: "brings st (send_wcs b ops)" and q: "quiet pm devFatal" and i: "i < 256"
    and len: "length ops = conn_nqps pm b" and ids: "\<And>k. k < length ops \<Longrightarrow> wr_id (last (op_wrs (ops ! k))) = encode_wr_id [i]"
    and rq: "rq_type (cb_reqs (ts_base st) ! i) = NCCL_NET_IB_REQ_SEND" "rq_nreqs (cb_reqs (ts_base st) ! i) = 1"
      "send_size (cb_reqs (ts_base st) ! i) = s" "rq_events (cb_reqs (ts_base st) ! i) = send_events pm b"
    and base: "length (cb_reqs (ts_base st)) = MAX_REQUESTS" "\<not> ncclCheckFails (ncclIbStatsCheckFatalCount pm (cb_fatal (ts_base st)))"
  shows "\<exists>st'. ncclIbTest pm devFatal i st = (ncclSuccess, True, [s], st')"
proof -
  have named: "\<forall>wc \<in> set (owed 0 st @ owed 1 st). names_sends [i] wc"
  proof
    fix wc assume "wc \<in> set (owed 0 st @ owed 1 st)"
    then obtain d where "wc \<in> set (send_wcs b ops d)" using brings_owed(1) [OF st] by auto
    then obtain k where "k < length ops" "wc = chain_wc (ops ! k)" using set_on_dev [of b "length ops" d] by (auto simp: send_wcs_def)
    then show "names_sends [i] wc" using ids by (simp add: names_sends_def chain_wc_def)
  qed
  have "rq_events (cb_reqs (ts_base st) ! i) = [int (length (owed 0 st)), int (length (owed 1 st))]"
    using brings_owed(2) [OF st] by (simp add: rq(4) send_events_def send_wcs_def length_on_dev len)
  then have "send_wait pm (ts_base st) [i] i st (owed 0 st) (owed 1 st)"
    unfolding send_wait_def using base i rq named by (simp add: only_events_def)
  then have "sends.waiting pm (ts_base st) [i] i st"
    using brings_owed(3) [OF st] by (simp add: sends.waiting_def)
  from sends.drains [OF this, of devFatal] q obtain st1 where
    w: "send_wait pm (ts_base st) [i] i st1 [] []" and run: "ncclIbTest pm devFatal i st = (ncclSuccess, True,
      done_sizes st1 (cb_reqs (ts_base st1) ! i), st1\<lparr> ts_base := ncclIbFreeRequest i (ts_base st1) \<rparr>)"
    by (auto simp: quiet_def)
  have "only_events [i] (ts_base st) (ts_base st1)" using w by (simp add: send_wait_def)
  from only_events_sel [OF this, of i] have "done_sizes st1 (cb_reqs (ts_base st1) ! i) = [s]"
    using rq i by (simp add: done_sizes_def)
  then show ?thesis using run by simp
qed

lemma recv_test_done:
  assumes st: "brings st (recv_wcs b (qp_devIndex qp) rops sops)" and q: "quiet pm devFatal"
    and rops: "rops = map (\<lambda>k. PostRecv (qp_handle (qp_at b k)) (word_of_nat i)) [0..<m] @ [PostSend (qp_handle qp) [wr]]"
      "wr_signaled wr \<Longrightarrow> wr_id wr = word_of_nat i"
    and sops: "length sops = m" "0 < m" "\<And>k. k < m \<Longrightarrow> wr_imm (last (op_wrs (sops ! k))) = word_of_int s" "0 \<le> s" "s < 2 ^ 31"
    and rq: "rq_type (cb_reqs (ts_base st) ! i) = NCCL_NET_IB_REQ_RECV" "rq_nreqs (cb_reqs (ts_base st) ! i) = 1"
      "rq_events (cb_reqs (ts_base st) ! i) = map (\<lambda>d. int (dev_count b m d) +
         (if wr_signaled wr \<and> qp_devIndex qp = d then 1 else 0)) [0, 1]" "i < MAX_REQUESTS"
      "row (recv_sizes (cb_reqs (ts_base st) ! i)) 0 < length (ts_sizesFifo st)"
    and base: "length (cb_reqs (ts_base st)) = MAX_REQUESTS" "\<not> ncclCheckFails (ncclIbStatsCheckFatalCount pm (cb_fatal (ts_base st)))"
    and devs: "\<And>k. k < m \<Longrightarrow> qp_devIndex (qp_at b k) < 2"
  shows "\<exists>st'. ncclIbTest pm devFatal i st = (ncclSuccess, True, [s], st')"
proof -
  let ?q = "recv_wcs b (qp_devIndex qp) rops sops"
  have imm: "sint (word_of_int s :: u32) = s" using sops(4,5) by (simp add: signed_of_int signed_take_bit_int_eq_self)
  have each: "rops ! k = PostRecv (qp_handle (qp_at b k)) (word_of_nat i)" if "k < m" for k
    using that by (simp add: rops(1) nth_append)
  have last: "last rops = PostSend (qp_handle qp) [wr]" by (simp add: rops(1))
  have named: "\<forall>wc \<in> set (owed 0 st @ owed 1 st). names_recv i s wc"
  proof
    fix wc assume "wc \<in> set (owed 0 st @ owed 1 st)"
    then obtain d where "wc \<in> set (?q d)" using brings_owed(1) [OF st] by auto
    then consider k where "k < m" "wc = imm_wc (rops ! k) (sops ! k)" | "wr_signaled wr" "wc = chain_wc (last rops)"
      using set_on_dev [of b m d] by (auto simp: recv_wcs_def last sops(1) split: if_splits)
    then show "names_recv i s wc"
      using each sops(3) rops(2) imm by cases (auto simp: last names_recv_def imm_wc_def chain_wc_def)
  qed
  have "imm_wc (rops ! 0) (sops ! 0) \<in> set (?q (qp_devIndex (qp_at b 0)))"
    using sops(1,2) by (auto simp: recv_wcs_def on_dev_def)
  then have "imm_wc (rops ! 0) (sops ! 0) \<in> set (owed 0 st @ owed 1 st)"
    using brings_owed(1) [OF st] devs [OF sops(2)] by (auto simp: less_2_cases_iff)
  then have brought: "brings_size (owed 0 st @ owed 1 st)"
    unfolding brings_size_def by (metis ibv_wc.select_convs(3) imm_wc_def)
  have "rq_events (cb_reqs (ts_base st) ! i) = [int (length (owed 0 st)), int (length (owed 1 st))]"
    using brings_owed(2) [OF st] by (simp add: rq(3) recv_wcs_def last length_on_dev sops(1))
  then have "recv_wait pm (ts_base st) (ts_sizesFifo st) s i st (owed 0 st) (owed 1 st)"
    unfolding recv_wait_def using base rq named brought by (simp add: only_events_def)
  then have "recvs.waiting pm (ts_base st) (ts_sizesFifo st) s i st"
    using brings_owed(3) [OF st] by (simp add: recvs.waiting_def)
  from recvs.drains [OF this, of devFatal] q obtain st1 where
    w: "recv_wait pm (ts_base st) (ts_sizesFifo st) s i st1 [] []" and run: "ncclIbTest pm devFatal i st = (ncclSuccess, True,
      done_sizes st1 (cb_reqs (ts_base st1) ! i), st1\<lparr> ts_base := ncclIbFreeRequest i (ts_base st1) \<rparr>)"
    by (auto simp: quiet_def)
  have "only_events [i] (ts_base st) (ts_base st1)" using w by (simp add: recv_wait_def)
  from only_events_sel [OF this rq(4)] have "done_sizes st1 (cb_reqs (ts_base st1) ! i) = [s]"
    using rq w by (simp add: done_sizes_def recv_wait_def brings_size_def)
  then show ?thesis using run by simp
qed

text \<open>The receiver's test, from the receive that was posted and the chains of any send that answers it.\<close>

lemma irecv_test_done:
  assumes between: "between_messages pm c" and q: "quiet pm devFatal"
    and run: "ncclIbIrecv pm vr 1 [rdata] [rsize] [tag] [rmh] (ct_recv c) w = (ncclSuccess, Some rq, rcomm, w1)"
    and sops: "length sops = conn_nqps pm (sc_base (ct_send c))" "\<forall>k < length sops. wr_imm (last (op_wrs (sops ! k))) = word_of_int s"
      "0 \<le> s" "s < 2 ^ 31"
    and st: "ts_base st = rc_base rcomm" "ts_sizesFifo st = rc_sizesFifo rcomm"
      "brings st (recv_wcs (rc_base (ct_recv c)) (qp_devIndex (cts_qp (ct_recv c))) (new_posts w w1) sops)"
  shows "\<exists>st'. ncclIbTest pm devFatal rq st = (ncclSuccess, True, [s], st')"
proof -
  have inv: "recv_inv (ct_recv c)" and nq: "conn_nqps pm (sc_base (ct_send c)) = conn_nqps pm (rc_base (ct_recv c))"
    and devs: "\<And>k. qp_devIndex (qp_at (rc_base (ct_recv c)) k) < 2"
    using between by (simp_all add: between_messages_def cts_inv_def)
  have pos: "0 < conn_nqps pm (rc_base (ct_recv c))" using inv by (auto simp: conn_nqps_def recv_inv_def)
  obtain req wr where R: "Some rq = Some req" "req \<in> unused (rc_base (ct_recv c))"
    "new_posts w w1 = map (\<lambda>k. PostRecv (qp_handle (qp_at (rc_base (ct_recv c)) k)) (word_of_nat req))
        [0..<conn_nqps pm (rc_base (ct_recv c))] @ [PostSend (qp_handle (cts_qp (ct_recv c))) [wr]]"
    "wr_id wr = (if wr_signaled wr then word_of_nat req else 0)"
    "rq_type (cb_reqs (rc_base rcomm) ! req) = NCCL_NET_IB_REQ_RECV" "rq_nreqs (cb_reqs (rc_base rcomm) ! req) = int 1"
    "recv_sizes (cb_reqs (rc_base rcomm) ! req) = tail_slot (ct_recv c)"
    "rq_events (cb_reqs (rc_base rcomm) ! req) = map (\<lambda>d. int (dev_count (rc_base (ct_recv c)) (conn_nqps pm (rc_base (ct_recv c))) d) +
       (if wr_signaled wr \<and> qp_devIndex (cts_qp (ct_recv c)) = d then 1 else 0)) [0, 1]"
    "cb_fatal (rc_base rcomm) = cb_fatal (rc_base (ct_recv c))"
    by (rule irecv_request [OF inv run]) (rule that, (assumption | blast)+)
  have "req = rq" using R(1) by simp
  note R = R [unfolded this]
  have fatal: "\<not> ncclCheckFails (ncclIbStatsCheckFatalCount pm (cb_fatal (rc_base (ct_recv c))))"
    using run by (auto simp: ncclIbIrecv_def Let_def split: if_splits)
  have inv': "recv_inv rcomm" using irecv_keeps_inv [OF inv run] by simp
  show ?thesis
  proof (rule recv_test_done [OF st(3) q R(3)])
    show "rq < MAX_REQUESTS" using R(1,2) inv by (simp add: unused_def recv_inv_def)
    show "row (recv_sizes (cb_reqs (ts_base st) ! rq)) 0 < length (ts_sizesFifo st)"
      using R(1,7) inv' row_less [OF tail_slot_less, of 0] by (simp add: st recv_inv_def)
  qed (use R sops nq pos devs fatal inv' st in \<open>simp_all add: recv_inv_def\<close>)
qed

section \<open>One message\<close>

text \<open>
  C1: a message arrives, and both ends learn it: on a connection between messages, when a receive of one buffer has succeeded and its
  offer has landed, a send with that tag succeeds, all the work it posts puts the first \<open>min sz rsize\<close> bytes of the sender's buffer
  into the receiver's and changes nothing else (if that number is not so close to \<open>2^31\<close> that the arithmetic of the chunks
  overflows), and when a card has brought the completions of the work posted, in any order and any batches
  of up to four, \<^verbatim>\<open>ncclIbTest\<close> reports the request done at either end, with that number of bytes.
\<close>
theorem message_delivered:
  assumes "between_messages pm c" "quiet pm devFatal" "\<forall>h p. vs h p = ncclSuccess"
    and "ncclIbIrecv pm vr 1 [rdata] [rsize] [tag] [rmh] (ct_recv c) w = (ncclSuccess, Some rq, rcomm, w1)"
      "rdata \<noteq> 0" "0 \<le> rsize" "mk_rkeys rmh ! 0 \<noteq> 0"
    and "0 \<le> sz" "sz < 2 ^ 31" "chunks_fit (min sz rsize) (conn_nqps pm (sc_base (ct_send c)))"
  shows "\<exists>i scomm u1. ncclIbIsend pm vs data sz tag mh [] (landed c rcomm 1) u = Some (ncclSuccess, Some i, [], scomm, u1) \<and>
    rdma_writes src (new_posts u u1) dst = copied src data (nat (min sz rsize)) rdata dst \<and>
    (\<forall>st. ts_base st = sc_base scomm \<and> brings st (send_wcs (sc_base (ct_send c)) (new_posts u u1)) \<longrightarrow>
       (\<exists>st'. ncclIbTest pm devFatal i st = (ncclSuccess, True, [min sz rsize], st'))) \<and>
    (\<forall>st. ts_base st = rc_base rcomm \<and> ts_sizesFifo st = rc_sizesFifo rcomm \<and>
       brings st (recv_wcs (rc_base (ct_recv c)) (qp_devIndex (cts_qp (ct_recv c))) (new_posts w w1) (new_posts u u1)) \<longrightarrow>
       (\<exists>st'. ncclIbTest pm devFatal rq st = (ncclSuccess, True, [min sz rsize], st')))"
proof -
  let ?s = "min sz rsize"
  note off = landed_offer_ready [OF assms(1,4-7)]
  have fatal: "\<not> ncclCheckFails (ncclIbStatsCheckFatalCount pm (cb_fatal (sc_base (ct_send c))))"
    using assms(1) by (simp add: between_messages_def)
  have base: "sc_base (landed c rcomm 1) = sc_base (ct_send c)" by (simp add: landed_def)
  obtain i scomm u1 where S: "ncclIbIsend pm vs data sz tag mh [] (landed c rcomm 1) u = Some (ncclSuccess, Some i, [], scomm, u1)" "i < 256"
      "rdma_writes src (new_posts u u1) dst = copied src data (nat ?s) rdata dst"
      "length (new_posts u u1) = conn_nqps pm (sc_base (ct_send c))"
      "\<forall>k < length (new_posts u u1). wr_id (last (op_wrs (new_posts u u1 ! k))) = encode_wr_id [i] \<and>
         wr_imm (last (op_wrs (new_posts u u1 ! k))) = word_of_int ?s"
      "rq_type (cb_reqs (sc_base scomm) ! i) = NCCL_NET_IB_REQ_SEND" "rq_nreqs (cb_reqs (sc_base scomm) ! i) = 1"
      "send_size (cb_reqs (sc_base scomm) ! i) = ?s" "rq_events (cb_reqs (sc_base scomm) ! i) = send_events pm (sc_base (ct_send c))"
      "length (cb_reqs (sc_base scomm)) = MAX_REQUESTS" "cb_fatal (sc_base scomm) = cb_fatal (sc_base (ct_send c))"
    by (rule isend_request [OF off(1,2) assms(8,9,3), unfolded off(3,4) base, OF assms(10), of data mh "[]" u src dst])
  have "\<exists>st'. ncclIbTest pm devFatal i st = (ncclSuccess, True, [?s], st')"
    if "ts_base st = sc_base scomm" "brings st (send_wcs (sc_base (ct_send c)) (new_posts u u1))" for st
    by (rule send_test_done [OF that(2) assms(2) S(2,4)]) (use S fatal that(1) in simp_all)
  moreover have "\<exists>st'. ncclIbTest pm devFatal rq st = (ncclSuccess, True, [?s], st')"
    if "ts_base st = rc_base rcomm" "ts_sizesFifo st = rc_sizesFifo rcomm"
      "brings st (recv_wcs (rc_base (ct_recv c)) (qp_devIndex (cts_qp (ct_recv c))) (new_posts w w1) (new_posts u u1))" for st
    by (rule irecv_test_done [OF assms(1,2,4) S(4) _ _ _ that]) (use S(5) assms(6,8,9) in auto)
  ultimately show ?thesis using S(1,3) by blast
qed

section \<open>A new connection\<close>

text \<open>Both ends of a new connection have all their requests, no errors, and the sender is ready: it is between messages.\<close>

lemma connect_setup_fatal:
  "connect_setup sp v t dev junk c e = (Inr (c', m), e') \<Longrightarrow> cb_fatal (sc_base (ss_comm c')) = cb_fatal (sc_base (ss_comm c))"
  by (auto simp: connect_setup_def Let_def andThen_Inr)

lemma connect_finish_base:
  "connect_finish sp v c m e = (Inr c', e') \<Longrightarrow>
   cb_fatal (sc_base (ss_comm c')) = cb_fatal (sc_base (ss_comm c)) \<and> cb_ready (sc_base (ss_comm c')) = 1"
  by (auto simp: connect_finish_def Let_def andThen_Inr)

lemma accept_setup_base:
  assumes "accept_setup sp v t dev junk rem c e = (Inr (c', m), e')" "rt_comm c = zero_recv_comm"
  shows "cb_fatal (rc_base (rt_comm c')) = 0" "cb_reqs (rc_base (rt_comm c')) = replicate MAX_REQUESTS zero_request"
    "rc_fifo (rt_comm c') = replicate 2048 zero_fifo"
  using assms by (auto simp: accept_setup_def Let_def andThen_Inr zero_recv_comm_def zero_comm_base_def)

lemma connected_clean:
  assumes "connected sp v t dev sp' v' t' dev' c e r f"
  shows "cb_fatal (sc_base (ss_comm c)) = 0" "cb_ready (sc_base (ss_comm c)) = 1" "cb_fatal (rc_base (rt_comm r)) = 0"
    "cb_reqs (rc_base (rt_comm r)) = replicate MAX_REQUESTS zero_request" "rc_fifo (rt_comm r) = replicate 2048 zero_fifo"
    "length (group t dev) \<le> 2"
proof -
  obtain junk junk' c0 c1 m1 e0 e1 r0 f0 m2 e2 where fit: "setup_fits sp t dev junk"
    and zero: "ss_comm c0 = zero_send_comm" "rt_comm r0 = zero_recv_comm"
    and s: "connect_setup sp v t dev junk c0 e0 = (Inr (c1, m1), e1)"
      "accept_setup sp' v' t' dev' junk' m1 r0 f0 = (Inr (r, m2), f)" "connect_finish sp v c1 m2 e2 = (Inr c, e)"
    using assms unfolding connected_def by blast
  show "cb_fatal (sc_base (ss_comm c)) = 0" "cb_ready (sc_base (ss_comm c)) = 1"
    using connect_setup_fatal [OF s(1)] connect_finish_base [OF s(3)] zero by (simp_all add: zero_send_comm_def zero_comm_base_def)
  show "cb_fatal (rc_base (rt_comm r)) = 0" "cb_reqs (rc_base (rt_comm r)) = replicate MAX_REQUESTS zero_request"
    "rc_fifo (rt_comm r) = replicate 2048 zero_fifo"
    by (rule accept_setup_base [OF s(2) zero(2)])+
  show "length (group t dev) \<le> 2" using fit by (auto simp: setup_fits_def)
qed

lemma unused_fresh: "cb_reqs b = replicate MAX_REQUESTS zero_request \<Longrightarrow> unused b \<noteq> {}"
proof -
  assume "cb_reqs b = replicate MAX_REQUESTS zero_request"
  then have "0 \<in> unused b" by (simp add: unused_def zero_request_def)
  then show ?thesis by blast
qed

lemma connected_between:
  assumes cn: "connected sp v t dev sp' v' t' dev' c e r f"
  shows "between_messages pm (new_channel c r)"
proof -
  let ?c = "new_channel c r" and ?nd = "length (group t dev)" and ?nq = "nqps_of sp t dev"
  note fresh = connected_fresh [OF cn] and clean = connected_clean [OF cn]
  have ok: "conn_ok ?nd ?nq c" "acc_ok ?nd ?nq r" by (rule connected_facts [OF cn], assumption)+
  have S: "fresh_send (ss_comm c)" "cb_ndevs (sc_base (ss_comm c)) = ?nd" "cb_nqps (sc_base (ss_comm c)) = ?nq" "0 < ?nq" "0 < ?nd"
    using ok(1) by (simp_all add: conn_ok_def)
  have R: "cb_ndevs (rc_base (rt_comm r)) = ?nd" "cb_nqps (rc_base (rt_comm r)) = ?nq"
    "\<And>q. q < ?nq \<Longrightarrow> qp_devIndex (cb_qps (rc_base (rt_comm r)) ! q) = q mod ?nd"
    using ok(2) by (simp_all add: acc_ok_def)
  have dev: "qp_devIndex (qp_at (rc_base (ct_recv ?c)) k) < 2" for k
  proof -
    let ?q = "(cb_qpIndex (rc_base (rt_comm r)) + k) mod ?nq"
    have "qp_at (rc_base (ct_recv ?c)) k = cb_qps (rc_base (rt_comm r)) ! ?q" by (simp add: new_channel_def qp_at_def R(2))
    moreover have "?q mod ?nd < 2" using mod_less_divisor [OF S(5), of ?q] clean(6) by linarith
    moreover have "?q < ?nq" using S(4) by (rule mod_less_divisor)
    ultimately show ?thesis by (simp only: R(3))
  qed
  have sel: "ct_send ?c = ss_comm c" "ct_net ?c = []" "conn_nqps pm (rc_base (ct_recv ?c)) = conn_nqps pm (rc_base (rt_comm r))"
    "rc_fifo (ct_recv ?c) = replicate 2048 zero_fifo"
    using clean(5) by (simp_all add: new_channel_def conn_nqps_def)
  have q: "cts_queue ?c = []" by (simp add: cts_queue_def offers_def cts_ring_def new_channel_def)
  have none: "\<forall>k < 8. sc_fifoReqs (ss_comm c) ! row (cur_slot (ss_comm c)) k = None"
    using S(1) row_less [OF cur_slot_less] by (simp add: fresh_send_def)
  have free: "unused (sc_base (ss_comm c)) \<noteq> {}" using S(1) by (intro unused_fresh) (simp add: fresh_send_def)
  have "sf_rkeys (replicate 2048 zero_fifo ! row (tail_slot (ct_recv ?c)) 0) \<noteq> []"
    using row_less [OF tail_slot_less, of 0 "ct_recv ?c"] by (simp add: zero_fifo_def)
  then show ?thesis
    unfolding between_messages_def sel using fresh(2,3) clean(1,2) dev q none free S(2,3) R(1,2)
    by (simp add: aligned_def ncclIbStatsCheckFatalCount_def conn_nqps_def)
qed

section \<open>Meeting the receive\<close>

text \<open>
  C2: a message goes out to queue pairs on which its receive waits: on a connection, when the sender completes the slot of message number
  \<open>j\<close> and the receiver posted its \<open>j\<close>th receive, whatever either side did before, the \<open>k\<close>th chain is posted on a queue pair that
  was joined, in both directions, to the queue pair of the \<open>k\<close>th receive request.
\<close>
theorem sends_meet_receives:
  assumes "connected sp v t dev sp' v' t' dev' c e r f"
    and "transport_run pm (new_channel c r) evs x"
      "ncclIbIrecv pm vr n data sizes tags mhs (ct_recv x) w = (ncclSuccess, rq, rcomm, w1)"
    and "transport_run pm (new_channel c r) evs' y" "ncclIbIsend pm vs sdata sz tag mh ds (ct_send y) u = Some (res, req, ds', scomm, u1)"
      "\<not> ncclCheckFails res" "sc_fifoHead scomm \<noteq> sc_fifoHead (ct_send y)"
    and "length (offered_in evs) = length (taken_in evs')" "k < length (new_posts u u1)"
  shows "\<exists>sq rq' req'. op_qp (new_posts u u1 ! k) = sq \<and> new_posts w w1 ! k = PostRecv rq' req' \<and>
    points_to (ie_calls e) sq (sv_qpn v' rq') \<and> points_to (ie_calls f) rq' (sv_qpn v sq)"
proof -
  let ?nd = "length (group t dev)" and ?nq = "nqps_of sp t dev"
  let ?sqps = "cb_qps (sc_base (ss_comm c))" and ?rqps = "cb_qps (rc_base (rt_comm r))"
  note fresh = connected_fresh [OF assms(1)]
  note X = transport_run_facts [OF assms(2) fresh(1) fresh(3)] and Y = transport_run_facts [OF assms(4) fresh(1) fresh(3)]
  define j where "j = length (taken_in evs')"
  have R: "recv_inv (ct_recv x)" "in_turn pm ?nd ?nq ?rqps j (rc_base (ct_recv x))"
    using X assms(8) by (auto simp: aligned_def cts_inv_def j_def)
  have S: "in_turn pm ?nd ?nq ?sqps j (sc_base (ct_send y))" using Y by (auto simp: aligned_def j_def)
  let ?q = "(j * round_qps pm ?nd ?nq + k) mod ?nq"
  have less: "cb_qpIndex (sc_base (ct_send y)) < cb_nqps (sc_base (ct_send y))" and nq: "0 < ?nq" using S by (simp_all add: in_turn_def)
  have sent: "map op_qp (new_posts u u1) = map (\<lambda>j. qp_handle (qp_at (sc_base (ct_send y)) j)) [0..<round_qps pm ?nd ?nq]"
    by (rule isend_turns [OF assms(5,6) less]) (use assms(7) conn_nqps_round [OF S] in simp_all)
  then have k: "k < round_qps pm ?nd ?nq" using assms(9) by (metis length_map diff_zero length_upt)
  have "op_qp (new_posts u u1 ! k) = map op_qp (new_posts u u1) ! k" using assms(9) by simp
  then have s: "op_qp (new_posts u u1 ! k) = qp_handle (?sqps ! ?q)" using sent k in_turn_qp_at [OF S, of k] by simp
  obtain req' wr where "new_posts w w1 = map (\<lambda>k. PostRecv (qp_handle (qp_at (rc_base (ct_recv x)) k)) (word_of_nat req'))
      [0..<conn_nqps pm (rc_base (ct_recv x))] @ [PostSend (qp_handle (cts_qp (ct_recv x))) [wr]]"
    by (rule irecv_turns [OF R(1) assms(3)])
  then have p: "new_posts w w1 ! k = PostRecv (qp_handle (?rqps ! ?q)) (word_of_nat req')"
    using k conn_nqps_round [OF R(2)] in_turn_qp_at [OF R(2), of k] by (simp add: nth_append)
  have "points_to (ie_calls e) (qp_handle (?sqps ! ?q)) (sv_qpn v' (qp_handle (?rqps ! ?q))) \<and>
      points_to (ie_calls f) (qp_handle (?rqps ! ?q)) (sv_qpn v (qp_handle (?sqps ! ?q)))"
    by (rule connected_facts [OF assms(1)]) (use nq in simp)
  then show ?thesis using s p by blast
qed

section \<open>A concrete connection\<close>

text \<open>The first receive of a new connection, on cards that take all work.\<close>

lemma first_receive:
  assumes "connected sp v t dev sp' v' t' dev' c e r f" "\<forall>h p. vr h p = ncclSuccess"
  obtains rq rcomm w1 where "ncclIbIrecv pm vr 1 data sizes tags mhs (ct_recv (new_channel c r)) w = (ncclSuccess, Some rq, rcomm, w1)"
proof -
  let ?r = "ct_recv (new_channel c r)"
  note clean = connected_clean [OF assms(1)]
  have inv: "recv_inv ?r" using connected_fresh(1) [OF assms(1)] by (simp add: cts_start_def)
  have ready: "cb_ready (rc_base ?r) \<noteq> 0" "cb_fatal (rc_base ?r) = 0" "unused (rc_base ?r) \<noteq> {}"
    using clean by (auto intro!: unused_fresh simp: new_channel_def)
  obtain rq rcomm w1 where run: "ncclIbIrecv pm vr 1 data sizes tags mhs ?r w = (ncclSuccess, rq, rcomm, w1)"
    by (rule irecv_total [OF ready(1) _ ready(2,3) assms(2), of 1]) auto
  obtain req where "rq = Some req" by (rule irecv_closed [OF inv run])
  then show thesis using run that by blast
qed

abbreviation (input) example_keys :: ncclIbMrKeys where
  "example_keys \<equiv> \<lparr> mk_lkeys = [1, 2], mk_rkeys = [5, 6] \<rparr>"

lemma quiet_example: "quiet example_params (\<lambda>_. 0)"
  by (simp add: quiet_def ncclIbStatsCheckFatalCount_def)

lemma example_chunks_fit:
  assumes "connected example_sp v (example_tables m) 0 sp' v' t' dev' c e r f"
  shows "chunks_fit 700 (conn_nqps example_params (sc_base (ct_send (new_channel c r))))"
proof -
  have "conn_ok (length (group (example_tables m) 0)) (nqps_of example_sp (example_tables m) 0) c"
    by (rule connected_facts [OF assms])
  then have "conn_nqps example_params (sc_base (ct_send (new_channel c r))) = 2"
    by (simp add: conn_ok_def example_tables_group example_nqps conn_nqps_def example_params_def new_channel_def)
  then show ?thesis by (simp add: chunks_fit_def)
qed

theorem message_delivered_witness:
  "\<exists>c e r f rq rcomm w1 i scomm u1 st st'.
     connected example_sp example_setup_verbs (example_tables 5) 0 example_sp example_setup_verbs (example_tables 3) 0 c e r f \<and>
     ncclIbIrecv example_params (\<lambda>_ _. ncclSuccess) 1 [8192] [1000] [9] [example_keys] (ct_recv (new_channel c r)) example_world =
       (ncclSuccess, Some rq, rcomm, w1) \<and>
     ncclIbIsend example_params (\<lambda>_ _. ncclSuccess) 4096 700 9 example_keys [] (landed (new_channel c r) rcomm 1) example_world =
       Some (ncclSuccess, Some i, [], scomm, u1) \<and>
     rdma_writes (\<lambda>a. ucast a) (new_posts example_world u1) (\<lambda>_. 0) = copied (\<lambda>a. ucast a) 4096 700 8192 (\<lambda>_. 0) \<and>
     ncclIbTest example_params (\<lambda>_. 0) i (one_by_one (sc_base scomm) [] example_world
       (send_wcs (sc_base (ct_send (new_channel c r))) (new_posts example_world u1))) = (ncclSuccess, True, [700], st) \<and>
     ncclIbTest example_params (\<lambda>_. 0) rq (one_by_one (rc_base rcomm) (rc_sizesFifo rcomm) example_world
       (recv_wcs (rc_base (ct_recv (new_channel c r))) (qp_devIndex (cts_qp (ct_recv (new_channel c r))))
         (new_posts example_world w1) (new_posts example_world u1))) = (ncclSuccess, True, [700], st')"
proof -
  obtain c e r f where cn: "connected example_sp example_setup_verbs (example_tables 5) 0 example_sp example_setup_verbs (example_tables 3) 0 c e r f"
    using example_connected by blast
  obtain rq rcomm w1 where run: "ncclIbIrecv example_params (\<lambda>_ _. ncclSuccess) 1 [8192] [1000] [9] [example_keys]
      (ct_recv (new_channel c r)) example_world = (ncclSuccess, Some rq, rcomm, w1)"
    by (rule first_receive [OF cn, of "\<lambda>_ _. ncclSuccess"]) auto
  let ?sq = "\<lambda>u1. send_wcs (sc_base (ct_send (new_channel c r))) (new_posts example_world u1)"
  let ?rq = "\<lambda>u1. recv_wcs (rc_base (ct_recv (new_channel c r))) (qp_devIndex (cts_qp (ct_recv (new_channel c r))))
         (new_posts example_world w1) (new_posts example_world u1)"
  obtain i scomm u1 where S: "ncclIbIsend example_params (\<lambda>_ _. ncclSuccess) 4096 700 9 example_keys [] (landed (new_channel c r) rcomm 1) example_world =
       Some (ncclSuccess, Some i, [], scomm, u1)"
     "rdma_writes (\<lambda>a. ucast a) (new_posts example_world u1) (\<lambda>_. 0) = copied (\<lambda>a. ucast a) 4096 700 8192 (\<lambda>_. 0)"
     "\<forall>st. ts_base st = sc_base scomm \<and> brings st (?sq u1) \<longrightarrow> (\<exists>st'. ncclIbTest example_params (\<lambda>_. 0) i st = (ncclSuccess, True, [700], st'))"
     "\<forall>st. ts_base st = rc_base rcomm \<and> ts_sizesFifo st = rc_sizesFifo rcomm \<and> brings st (?rq u1) \<longrightarrow>
        (\<exists>st'. ncclIbTest example_params (\<lambda>_. 0) rq st = (ncclSuccess, True, [700], st'))"
    using message_delivered [OF connected_between [OF cn] quiet_example _ run, of "\<lambda>_ _. ncclSuccess" 700 4096 example_keys example_world "\<lambda>a. ucast a" "\<lambda>_. 0"]
      example_chunks_fit [OF cn] by auto
  from S(3) have "\<exists>st'. ncclIbTest example_params (\<lambda>_. 0) i (one_by_one (sc_base scomm) [] example_world (?sq u1)) = (ncclSuccess, True, [700], st')" by simp
  moreover from S(4) have "\<exists>st'. ncclIbTest example_params (\<lambda>_. 0) rq (one_by_one (rc_base rcomm) (rc_sizesFifo rcomm) example_world (?rq u1)) =
      (ncclSuccess, True, [700], st')" by simp
  ultimately show ?thesis using cn run S(1,2) by blast
qed

theorem sends_meet_receives_witness:
  "\<exists>c e r f rq rcomm w1 res req ds scomm u1 y.
     connected example_sp example_setup_verbs (example_tables 5) 0 example_sp example_setup_verbs (example_tables 3) 0 c e r f \<and>
     ncclIbIrecv example_params (\<lambda>_ _. ncclSuccess) 1 [8192] [1000] [9] [example_keys] (ct_recv (new_channel c r)) example_world =
       (ncclSuccess, Some rq, rcomm, w1) \<and>
     ncclIbIsend example_params (\<lambda>_ _. ncclSuccess) 4096 700 9 example_keys [] y example_world = Some (res, req, ds, scomm, u1) \<and>
     (\<exists>sq rq' req'. op_qp (new_posts example_world u1 ! 0) = sq \<and> new_posts example_world w1 ! 0 = PostRecv rq' req' \<and>
        points_to (ie_calls e) sq (sv_qpn example_setup_verbs rq') \<and> points_to (ie_calls f) rq' (sv_qpn example_setup_verbs sq))"
proof -
  obtain c e r f where cn: "connected example_sp example_setup_verbs (example_tables 5) 0 example_sp example_setup_verbs (example_tables 3) 0 c e r f"
    using example_connected by blast
  let ?c = "new_channel c r" and ?v = "\<lambda>_ _. ncclSuccess :: ncclResult"
  obtain rq rcomm w1 where run: "ncclIbIrecv example_params ?v 1 [8192] [1000] [9] [example_keys] (ct_recv ?c) example_world =
      (ncclSuccess, Some rq, rcomm, w1)"
    by (rule first_receive [OF cn, of ?v]) auto
  let ?ws = "slot_writes rcomm (tail_slot (ct_recv ?c)) 1"
  let ?c1 = "?c\<lparr> ct_recv := rcomm, ct_net := ct_net ?c @ ?ws, ct_hist := ct_hist ?c @ [map snd ?ws] \<rparr>"
  have new: "ct_net ?c = []" "ct_hist ?c = []" by (simp_all add: new_channel_def)
  have "transport_step example_params ?c (Offered (map snd ?ws)) ?c1"
    by (rule transport_step.receive [OF run _ _ _ refl]) (simp_all add: new)
  moreover obtain p en where ws: "?ws = [(p, en)]" by (simp add: slot_writes_def)
  have land: "landed ?c rcomm 1 = (ct_send ?c)\<lparr> sc_fifo := (sc_fifo (ct_send ?c))[p := en] \<rparr>" by (simp only: landed_def ws) simp
  have "ct_net ?c1 = [] @ (p, en) # []" unfolding ws by (simp add: new)
  from transport_step.land [OF this, of example_params]
  have "transport_step example_params ?c1 Internal (?c1\<lparr> ct_net := [], ct_send := landed ?c rcomm 1 \<rparr>)" unfolding land by simp
  ultimately have evs: "transport_run example_params ?c [Offered (map snd ?ws), Internal] (?c1\<lparr> ct_net := [], ct_send := landed ?c rcomm 1 \<rparr>)"
    by (rule run_two)
  note off = landed_offer_ready [OF connected_between [OF cn] run]
  obtain i comm2 w2 where send: "ncclIbIsend example_params ?v 4096 700 9 example_keys [] (landed ?c rcomm 1) example_world =
      Some (ncclSuccess, Some i, [], (clear_slot (cur_slot (landed ?c rcomm 1)) comm2)\<lparr> sc_fifoHead := sc_fifoHead comm2 + 1 \<rparr>, w2)"
      "sc_fifoHead comm2 = sc_fifoHead (landed ?c rcomm 1)"
    by (rule isend_single [OF off(1,2), of 700 ?v 4096 example_keys example_world "[]"]) auto
  let ?s = "(clear_slot (cur_slot (landed ?c rcomm 1)) comm2)\<lparr> sc_fifoHead := sc_fifoHead comm2 + 1 \<rparr>"
  have len: "length (new_posts example_world w2) = conn_nqps example_params (sc_base (landed ?c rcomm 1))"
    by (rule isend_request [OF off(1,2), of 700 ?v 4096 example_keys "[]" example_world])
      (use send(1) off(3) example_chunks_fit [OF cn] in \<open>auto simp: landed_def\<close>)
  have "0 < conn_nqps example_params (sc_base (landed ?c rcomm 1))" using off(1) by (auto simp: conn_nqps_def send_inv_def)
  then have k: "0 < length (new_posts example_world w2)" using len by simp
  have "sc_fifoHead ?s \<noteq> sc_fifoHead (landed ?c rcomm 1)" using send(2) by simp
  from sends_meet_receives [OF cn run.start run evs _ _ _ _ k] send(1) this cn run
  show ?thesis by fastforce
qed

end
