(* ===== verification/Alloc.thy ===== *)
theory Alloc
  imports Prelude
begin

text \<open>
  The allocation helpers of \<^verbatim>\<open>src/include/nccl/alloc.h\<close>. The heap maps the address of an object to its bytes; where
  the system places an object of a size, at a given alignment where one is asked for, or that it has no memory left, is a parameter, and so is
  what fresh memory holds. A write outside an
  object, like any use of a freed one, is undefined and has no result. The numbers of bytes are computed in the 64 bits of
  \<^verbatim>\<open>size_t\<close>, in which a product may wrap around. The log lines are not modelled.
\<close>

section \<open>The heap\<close>

record obj =
  ob_size :: nat
  ob_data :: "nat \<Rightarrow> u8"

type_synonym heap = "nat \<Rightarrow> obj option"

record allocator =
  al_place :: "heap \<Rightarrow> u64 \<Rightarrow> nat option"            \<comment> \<open>\<^verbatim>\<open>malloc\<close>: of a size\<close>
  al_memalign :: "heap \<Rightarrow> u64 \<Rightarrow> u64 \<Rightarrow> nat option"  \<comment> \<open>\<^verbatim>\<open>posix_memalign\<close>: of an alignment and a size\<close>
  al_junk :: "nat \<Rightarrow> u8"

definition sys_malloc :: "allocator \<Rightarrow> u64 \<Rightarrow> heap \<Rightarrow> (nat \<times> heap) option" where
  "sys_malloc al n h = map_option (\<lambda>p. (p, h(p \<mapsto> \<lparr> ob_size = unat n, ob_data = al_junk al \<rparr>))) (al_place al h n)"

text \<open>\<^verbatim>\<open>posix_memalign\<close>: \<open>None\<close> is an error number; an alignment has to be a power of two and a multiple of eight.\<close>

definition alignment_ok :: "u64 \<Rightarrow> bool" where
  "alignment_ok a \<longleftrightarrow> 8 \<le> a \<and> and a (a - 1) = 0"

definition sys_posix_memalign :: "allocator \<Rightarrow> u64 \<Rightarrow> u64 \<Rightarrow> heap \<Rightarrow> (nat \<times> heap) option" where
  "sys_posix_memalign al a n h =
     (if alignment_ok a
      then map_option (\<lambda>p. (p, h(p \<mapsto> \<lparr> ob_size = unat n, ob_data = al_junk al \<rparr>))) (al_memalign al h a n) else None)"

definition sys_memset0 :: "nat \<Rightarrow> nat \<Rightarrow> nat \<Rightarrow> heap \<Rightarrow> heap option" where
  "sys_memset0 p off n h =
     (case h p of
        None \<Rightarrow> None
      | Some ob \<Rightarrow>
          if off + n \<le> ob_size ob
          then Some (h(p \<mapsto> ob\<lparr> ob_data := \<lambda>i. if off \<le> i \<and> i < off + n then 0 else ob_data ob i \<rparr>))
          else None)"

text \<open>Copying nothing is allowed from anywhere.\<close>

definition sys_memcpy :: "nat \<Rightarrow> nat option \<Rightarrow> nat \<Rightarrow> heap \<Rightarrow> heap option" where
  "sys_memcpy p q n h =
     (if n = 0 then Some h
      else case (h p, Option.bind q h) of
             (Some ob, Some src) \<Rightarrow>
               if n \<le> ob_size ob \<and> n \<le> ob_size src
               then Some (h(p \<mapsto> ob\<lparr> ob_data := \<lambda>i. if i < n then ob_data src i else ob_data ob i \<rparr>)) else None
           | _ \<Rightarrow> None)"

definition sys_free :: "nat option \<Rightarrow> heap \<Rightarrow> heap option" where
  "sys_free q h = (case q of None \<Rightarrow> Some h | Some p \<Rightarrow> if h p = None then None else Some (h(p := None)))"

section \<open>The helpers\<close>

text \<open>\<open>es\<close> is the size of an element; the result has the pointer after the call.\<close>

definition ncclCallocDebug :: "allocator \<Rightarrow> u64 \<Rightarrow> nat option \<Rightarrow> u64 \<Rightarrow> heap \<Rightarrow> (ncclResult \<times> nat option \<times> heap) option" where
  "ncclCallocDebug al es ptr nelem h =
     (case sys_malloc al (nelem * es) h of
        None \<Rightarrow> Some (ncclSystemError, ptr, h)
      | Some (p, h) \<Rightarrow> map_option (\<lambda>h. (ncclSuccess, Some p, h)) (sys_memset0 p 0 (unat (nelem * es)) h))"

definition ncclRealloc :: "allocator \<Rightarrow> u64 \<Rightarrow> nat option \<Rightarrow> u64 \<Rightarrow> u64 \<Rightarrow> heap \<Rightarrow> (ncclResult \<times> nat option \<times> heap) option" where
  "ncclRealloc al es ptr oldNelem nelem h =
     (if nelem < oldNelem then Some (ncclInternalError, ptr, h)
      else if nelem = oldNelem then Some (ncclSuccess, ptr, h)
      else case sys_malloc al (nelem * es) h of
             None \<Rightarrow> Some (ncclSystemError, ptr, h)
           | Some (p, h) \<Rightarrow>
               case sys_memcpy p ptr (unat (oldNelem * es)) h of
                 None \<Rightarrow> None
               | Some h \<Rightarrow>
                   case sys_free ptr h of
                     None \<Rightarrow> None
                   | Some h \<Rightarrow>
                       map_option (\<lambda>h. (ncclSuccess, Some p, h))
                         (sys_memset0 p (unat oldNelem * unat es) (unat ((nelem - oldNelem) * es)) h))"

text \<open>
  \<^verbatim>\<open>ROUNDUP\<close> is in \<^verbatim>\<open>size_t\<close> and its result is kept in an \<^verbatim>\<open>int\<close>: the low 32 bits, which
  \<^verbatim>\<open>posix_memalign\<close> gets extended by their sign; but all of \<open>sz\<close> is cleared.
\<close>

definition size_aligned :: "u64 \<Rightarrow> u64 \<Rightarrow> u64" where
  "size_aligned sz page_size = scast (ucast ((sz + page_size - 1) div page_size * page_size) :: u32)"

definition ncclIbMallocDebug :: "allocator \<Rightarrow> u64 \<Rightarrow> nat option \<Rightarrow> u64 \<Rightarrow> heap \<Rightarrow> (ncclResult \<times> nat option \<times> heap) option" where
  "ncclIbMallocDebug al page_size ptr sz h =
     (case sys_posix_memalign al page_size (size_aligned sz page_size) h of
        None \<Rightarrow> Some (ncclSystemError, ptr, h)
      | Some (p, h) \<Rightarrow> map_option (\<lambda>h. (ncclSuccess, Some p, h)) (sys_memset0 p 0 (unat sz) h))"

section \<open>What they give\<close>

text \<open>The system places an object where there is none.\<close>

definition places_fresh :: "allocator \<Rightarrow> bool" where
  "places_fresh al \<longleftrightarrow> (\<forall>h n p. al_place al h n = Some p \<longrightarrow> h p = None)"

definition zeroed :: "heap \<Rightarrow> nat \<Rightarrow> nat \<Rightarrow> nat \<Rightarrow> bool" where
  "zeroed h p i j \<longleftrightarrow> (\<exists>ob. h p = Some ob \<and> j \<le> ob_size ob \<and> (\<forall>k. i \<le> k \<and> k < j \<longrightarrow> ob_data ob k = 0))"

lemma sys_malloc_Some: "sys_malloc al n h = Some (p, h') \<longleftrightarrow>
    al_place al h n = Some p \<and> h' = h(p \<mapsto> \<lparr> ob_size = unat n, ob_data = al_junk al \<rparr>)"
  by (auto simp: sys_malloc_def)

lemma sys_malloc_None: "sys_malloc al n h = None \<longleftrightarrow> al_place al h n = None"
  by (simp add: sys_malloc_def)

lemma calloc_gives:
  "ncclCallocDebug al es ptr nelem h =
     Some (case al_place al h (nelem * es) of
             None \<Rightarrow> (ncclSystemError, ptr, h)
           | Some p \<Rightarrow> (ncclSuccess, Some p, h(p \<mapsto> \<lparr> ob_size = unat (nelem * es),
               ob_data = \<lambda>i. if i < unat (nelem * es) then 0 else al_junk al i \<rparr>)))"
  by (cases "al_place al h (nelem * es)") (simp_all add: ncclCallocDebug_def sys_malloc_def sys_memset0_def cong: if_cong)

text \<open>An element count whose size in bytes wraps around is not noticed: the object is smaller than its elements.\<close>

lemma calloc_wraps:
  assumes "al_place al h 0 = Some p"
  shows "\<exists>h'. ncclCallocDebug al 8 None (2 ^ 61) h = Some (ncclSuccess, Some p, h') \<and> map_option ob_size (h' p) = Some 0"
proof -
  have wrap: "(2 ^ 61 :: u64) * 8 = 0" by simp
  show ?thesis unfolding calloc_gives wrap using assms by simp
qed

text \<open>
  \<^verbatim>\<open>ncclRealloc\<close> of more elements gives an object with the old elements followed by zeros, frees the old object, and keeps
  every other; without memory, or for fewer elements, it fails and changes nothing.
\<close>

lemma realloc_gives:
  assumes al: "places_fresh al" and n: "oldNelem < nelem" "unat nelem * unat es < 2 ^ 64"
    and old: "case ptr of None \<Rightarrow> oldNelem = 0 | Some q \<Rightarrow> \<exists>ob. h q = Some ob \<and> unat oldNelem * unat es \<le> ob_size ob"
    and place: "al_place al h (nelem * es) = Some p"
  obtains h' ob where "ncclRealloc al es ptr oldNelem nelem h = Some (ncclSuccess, Some p, h')"
    "h' p = Some ob" "ob_size ob = unat nelem * unat es"
    "\<forall>k < unat nelem * unat es. ob_data ob k =
       (if k < unat oldNelem * unat es then (case ptr of None \<Rightarrow> 0 | Some q \<Rightarrow> ob_data (the (h q)) k) else 0)"
    "\<forall>q. ptr = Some q \<longrightarrow> h' q = None" "\<forall>q. q \<noteq> p \<and> Some q \<noteq> ptr \<longrightarrow> h' q = h q"
proof -
  have le: "unat oldNelem \<le> unat nelem" using n(1) by (simp add: word_less_nat_alt)
  have bytes: "unat (nelem * es) = unat nelem * unat es" using n(2) by (simp add: unat_mult_lem [THEN iffD1])
  have "unat oldNelem * unat es < 2 ^ 64" using le n(2) by (meson le_less_trans mult_le_mono1)
  then have obytes: "unat (oldNelem * es) = unat oldNelem * unat es" by (simp add: unat_mult_lem [THEN iffD1])
  have diff: "unat (nelem - oldNelem) = unat nelem - unat oldNelem" using n(1) by (simp add: unat_sub word_le_less_eq)
  have "unat (nelem - oldNelem) * unat es < 2 ^ 64" using diff n(2) by (metis diff_le_self le_less_trans mult_le_mono1)
  then have dbytes: "unat ((nelem - oldNelem) * es) = unat nelem * unat es - unat oldNelem * unat es"
    by (simp add: unat_mult_lem [THEN iffD1] diff diff_mult_distrib)
  have obn: "unat oldNelem * unat es \<le> unat nelem * unat es" using le by (rule mult_le_mono1)
  have free: "h p = None" using al place by (simp add: places_fresh_def)
  have ne: "\<not> nelem < oldNelem" "nelem \<noteq> oldNelem" using n(1) by auto
  let ?N = "unat nelem * unat es" and ?O = "unat oldNelem * unat es"
  show thesis
  proof (cases ptr)
    case None
    let ?h = "h(p \<mapsto> \<lparr> ob_size = ?N, ob_data = \<lambda>i. if 0 \<le> i \<and> i < ?N then 0 else al_junk al i \<rparr>)"
    have "ncclRealloc al es ptr oldNelem nelem h = Some (ncclSuccess, Some p, ?h)"
      using None old ne place bytes
      by (simp add: ncclRealloc_def sys_malloc_def sys_memcpy_def sys_free_def sys_memset0_def cong: if_cong)
    then show thesis by (rule that) (use None in \<open>auto simp: old\<close>)
  next
    case (Some q)
    then obtain ob where ob: "h q = Some ob" "?O \<le> ob_size ob" using old by auto
    have pq: "p \<noteq> q" using ob free by auto
    let ?d = "\<lambda>i. if ?O \<le> i \<and> i < ?O + (?N - ?O) then 0 else if i < ?O then ob_data ob i else al_junk al i"
    let ?h = "(h(p \<mapsto> \<lparr> ob_size = ?N, ob_data = ?d \<rparr>))(q := None)"
    have "ncclRealloc al es ptr oldNelem nelem h = Some (ncclSuccess, Some p, ?h)"
      using Some ne place bytes obytes dbytes obn ob pq
      by (auto simp: ncclRealloc_def sys_malloc_def sys_memcpy_def sys_free_def sys_memset0_def fun_upd_twist cong: if_cong)
    then show thesis by (rule that) (use Some ob pq obn in auto)
  qed
qed

section \<open>Pages\<close>

lemma roundup_unat:
  assumes "0 < page" "unat (sz :: u64) + unat page < 2 ^ 64"
  shows "unat ((sz + page - 1) div page * page) = (unat sz + unat page - 1) div unat page * unat page"
proof -
  have p: "1 \<le> unat page" using assms(1) by (simp add: word_less_nat_alt)
  have "unat (sz + page) = unat sz + unat page" using assms(2) by (simp add: unat_add_lem [THEN iffD1])
  moreover have "1 \<le> sz + page" using calculation p by (simp add: word_le_nat_alt)
  ultimately have a: "unat (sz + page - 1) = unat sz + unat page - 1" by (simp add: unat_sub)
  have "(unat sz + unat page - 1) div unat page * unat page \<le> unat sz + unat page - 1" by simp
  then have "(unat sz + unat page - 1) div unat page * unat page < 2 ^ 64" using assms(2) by linarith
  then have "unat ((sz + page - 1) div page) * unat page < 2 ^ 64" by (simp only: unat_div a)
  then show ?thesis by (simp add: unat_mult_lem [THEN iffD1] unat_div a)
qed

lemma roundup_bounds:
  assumes "0 < (p :: nat)"
  shows "s \<le> (s + p - 1) div p * p" "(s + p - 1) div p * p < s + p"
proof -
  have d: "(s + p - 1) div p * p + (s + p - 1) mod p = s + p - 1" by simp
  moreover have "(s + p - 1) mod p \<le> p - 1" using mod_less_divisor [OF assms, of "s + p - 1"] by linarith
  ultimately show "s \<le> (s + p - 1) div p * p" "(s + p - 1) div p * p < s + p" using assms by linarith+
qed

lemma unat_low_scast:
  fixes x :: u64
  assumes "unat x mod 2 ^ 32 < 2 ^ 31"
  shows "unat (scast (ucast x :: u32) :: u64) = unat x mod 2 ^ 32"
proof -
  let ?m = "unat x mod 2 ^ 32"
  have "(ucast x :: u32) = word_of_nat ?m" by (simp add: word_unat_eq_iff unsigned_ucast_eq unsigned_of_nat take_bit_eq_mod)
  moreover have "sint (word_of_nat ?m :: u32) = int ?m"
    using assms by (simp add: signed_of_nat signed_take_bit_int_eq_self)
  ultimately have "scast (ucast x :: u32) = (word_of_int (int ?m) :: u64)" by (simp add: scast_eq)
  also have "\<dots> = word_of_nat ?m" by simp
  finally show ?thesis using assms by (simp add: unsigned_of_nat take_bit_nat_eq_self)
qed

text \<open>What \<^verbatim>\<open>posix_memalign\<close> promises of one heap: an address at the alignment, and room that no object has.\<close>

definition memalign_places :: "allocator \<Rightarrow> heap \<Rightarrow> bool" where
  "memalign_places al h \<longleftrightarrow>
     (\<forall>a n p. al_memalign al h a n = Some p \<longrightarrow> unat a dvd p \<and> h p = None \<and>
        (\<forall>q ob. h q = Some ob \<longrightarrow> p + unat n \<le> q \<or> q + ob_size ob \<le> p))"

text \<open>The object at \<open>p\<close> is made of whole pages, and no other object has a byte on one of them.\<close>

definition own_pages :: "nat \<Rightarrow> heap \<Rightarrow> nat \<Rightarrow> bool" where
  "own_pages page h p \<longleftrightarrow>
     (\<exists>ob. h p = Some ob \<and> page dvd p \<and> page dvd ob_size ob \<and>
        (\<forall>q ob'. q \<noteq> p \<longrightarrow> h q = Some ob' \<longrightarrow>
           (\<forall>i < ob_size ob'. \<forall>j < ob_size ob. (q + i) div page \<noteq> (p + j) div page)))"

lemma own_pagesI:
  assumes "memalign_places al h" "al_memalign al h a n = Some p" "0 < unat a" "unat a dvd unat n" "ob_size ob = unat n"
  shows "own_pages (unat a) (h(p \<mapsto> ob)) p"
proof -
  have p: "unat a dvd p" "\<And>q ob. h q = Some ob \<Longrightarrow> p + unat n \<le> q \<or> q + ob_size ob \<le> p"
    using assms(1,2) unfolding memalign_places_def by blast+
  obtain P N where PN: "p = P * unat a" "unat n = N * unat a" using p(1) assms(4) by (metis dvdE mult.commute)
  have "(q + i) div unat a \<noteq> (p + j) div unat a" if o: "h q = Some ob'" "i < ob_size ob'" "j < unat n" for q ob' i j
  proof -
    have j: "P \<le> (p + j) div unat a" "(p + j) div unat a < P + N"
      using o(3) assms(3) PN by (simp_all add: div_less_iff_less_mult less_eq_div_iff_mult_less_eq distrib_right)
    from p(2) [OF o(1)] consider "(P + N) * unat a \<le> q + i" | "q + i < P * unat a" using o(2) PN by (auto simp: distrib_right)
    then show ?thesis
    proof cases
      case 1
      then have "P + N \<le> (q + i) div unat a" using assms(3) by (simp add: less_eq_div_iff_mult_less_eq)
      then show ?thesis using j by linarith
    next
      case 2
      then have "(q + i) div unat a < P" using assms(3) by (simp add: div_less_iff_less_mult)
      then show ?thesis using j by linarith
    qed
  qed
  then show ?thesis unfolding own_pages_def using p(1) assms(4,5) by auto
qed

text \<open>The bytes asked for, as long as the rounded size has its bit 31 clear.\<close>

lemma size_aligned_low:
  fixes page sz :: u64
  assumes "0 < page" "unat sz + unat page < 2 ^ 64"
  defines "r \<equiv> (unat sz + unat page - 1) div unat page * unat page"
  assumes "r mod 2 ^ 32 < 2 ^ 31"
  shows "size_aligned sz page = word_of_nat (r mod 2 ^ 32)" "unat (word_of_nat (r mod 2 ^ 32) :: u64) = r mod 2 ^ 32"
proof -
  have "unat ((sz + page - 1) div page * page) = r" using roundup_unat [OF assms(1,2)] by (simp add: r_def)
  then have "unat (size_aligned sz page) = r mod 2 ^ 32"
    using unat_low_scast [of "(sz + page - 1) div page * page"] assms(4) unfolding size_aligned_def by metis
  then show "size_aligned sz page = word_of_nat (r mod 2 ^ 32)" "unat (word_of_nat (r mod 2 ^ 32) :: u64) = r mod 2 ^ 32"
    by (simp_all add: word_unat_eq_iff unsigned_of_nat take_bit_nat_eq_self)
qed

text \<open>
  C25: \<^verbatim>\<open>ncclIbMalloc\<close> gives pages of its own, or fails and changes nothing, as long as the rounded size fits the
  \<^verbatim>\<open>int\<close> that holds it: the object begins at a page and is made of whole pages, the least number of them that has room for
  \<open>sz\<close> bytes, those bytes are zero, no other object has a byte on one of these pages, and every other object stays as it was. Of
  4 GB and more whose rounded size has its bit 31 clear the object is too small, and memory behind it is cleared.
\<close>
theorem ib_malloc_bounds:
  fixes page sz :: u64
  assumes "alignment_ok page" "unat sz + unat page < 2 ^ 64" "memalign_places al h"
  defines "r \<equiv> (unat sz + unat page - 1) div unat page * unat page"
  shows "if r < 2 ^ 31 then
      unat sz \<le> r \<and> r < unat sz + unat page \<and>
      (case al_memalign al h page (word_of_nat r) of
         None \<Rightarrow> ncclIbMallocDebug al page ptr sz h = Some (ncclSystemError, ptr, h)
       | Some p \<Rightarrow> \<exists>h'. ncclIbMallocDebug al page ptr sz h = Some (ncclSuccess, Some p, h') \<and>
           h' = h(p \<mapsto> \<lparr> ob_size = r, ob_data = \<lambda>i. if i < unat sz then 0 else al_junk al i \<rparr>) \<and> own_pages (unat page) h' p)
    else if 2 ^ 32 \<le> unat sz \<and> r mod 2 ^ 32 < 2 ^ 31 then
      ncclIbMallocDebug al page ptr sz h =
        (if al_memalign al h page (word_of_nat (r mod 2 ^ 32)) = None then Some (ncclSystemError, ptr, h) else None)
    else True"
proof -
  have pos: "0 < page" "0 < unat page" using assms(1) by (auto simp: alignment_ok_def word_less_nat_alt word_le_nat_alt)
  note b = roundup_bounds [OF pos(2), of "unat sz", folded r_def]
  note al = size_aligned_low [OF pos(1) assms(2), folded r_def]
  show ?thesis
  proof (cases "r < 2 ^ 31")
    case True
    then have "r mod 2 ^ 32 = r" by simp
    with al True have s: "size_aligned sz page = word_of_nat r" "unat (word_of_nat r :: u64) = r" by metis+
    have "unat page dvd r" by (simp add: r_def)
    with s(2) own_pagesI [OF assms(3) _ pos(2), of "word_of_nat r"] True b s(1) assms(1) show ?thesis
      by (cases "al_memalign al h page (word_of_nat r)")
        (simp_all add: ncclIbMallocDebug_def sys_posix_memalign_def sys_memset0_def cong: if_cong)
  next
    case False
    have "ncclIbMallocDebug al page ptr sz h =
        (if al_memalign al h page (word_of_nat (r mod 2 ^ 32)) = None then Some (ncclSystemError, ptr, h) else None)"
      if c: "2 ^ 32 \<le> unat sz" "r mod 2 ^ 32 < 2 ^ 31"
    proof -
      have "m < 2 ^ 31 \<Longrightarrow> 2 ^ 32 \<le> s \<Longrightarrow> \<not> s \<le> m" for m s :: nat by simp
      from this [OF c(2,1)] have "\<not> unat sz \<le> r mod 2 ^ 32" .
      then show ?thesis using al [OF c(2)] assms(1)
        by (cases "al_memalign al h page (word_of_nat (r mod 2 ^ 32))")
          (simp_all add: ncclIbMallocDebug_def sys_posix_memalign_def sys_memset0_def)
    qed
    then show ?thesis using False by simp
  qed
qed

text \<open>A heap with one small object, and a page behind it.\<close>

definition example_alloc :: allocator where
  "example_alloc = \<lparr> al_place = \<lambda>h n. None,
     al_memalign = \<lambda>h a n. if a = 4096 \<and> n < 2 ^ 40 then Some 8192 else None, al_junk = \<lambda>_. 255 \<rparr>"

definition example_heap :: heap where
  "example_heap = [4096 \<mapsto> \<lparr> ob_size = 100, ob_data = \<lambda>_. 7 \<rparr>]"

lemma example_places: "memalign_places example_alloc example_heap"
  by (auto simp: memalign_places_def example_alloc_def example_heap_def split: if_splits)

theorem ib_malloc_bounds_witness:
  "\<exists>h'. ncclIbMallocDebug example_alloc 4096 None 5000 example_heap = Some (ncclSuccess, Some 8192, h') \<and>
     own_pages 4096 h' 8192 \<and> map_option ob_size (h' 8192) = Some 8192 \<and> map_option ob_size (h' 4096) = Some 100 \<and>
   ncclIbMallocDebug example_alloc 4096 None (2 ^ 32 + 1) example_heap = None"
  using ib_malloc_bounds [of 4096 5000 example_alloc example_heap None, OF _ _ example_places]
    ib_malloc_bounds [of 4096 "2 ^ 32 + 1" example_alloc example_heap None, OF _ _ example_places]
  by (simp add: example_alloc_def alignment_ok_def example_heap_def)

end
