(* ===== verification/Plugin.thy ===== *)
theory Plugin
  imports IbTypes IbDevs VTopo
begin

text \<open>
  How NCCL gets at the plugin (\<^verbatim>\<open>src/unet/plugin.cc\<close> and the tables of \<^verbatim>\<open>src/unet/unet_ib.cc\<close>): the tables of
  functions, one for each version of NCCL's interface, of which NCCL finds the exported ones by name. At first their only function is
  \<^verbatim>\<open>plugin_init\<close>, which puts the InfiniBand tables in their place. A function is the name of its definition. The
  environment parameters of \<^verbatim>\<open>unet_ib.cc\<close> are here too. The log lines are not modelled.
\<close>

section \<open>Environment parameters\<close>

text \<open>The value of a parameter the first time it is asked for.\<close>

definition NCCL_PARAM :: "string \<Rightarrow> int \<Rightarrow> (string \<Rightarrow> string option) \<Rightarrow> int" where
  "NCCL_PARAM env deftVal getenv = fst (ncclParam (getenv (''NCCL_'' @ env)) deftVal INT64_MIN)"

definition SICL_PARAM :: "string \<Rightarrow> int \<Rightarrow> (string \<Rightarrow> string option) \<Rightarrow> int" where
  "SICL_PARAM env deftVal getenv = fst (ncclParam (getenv (''SICL_'' @ env)) deftVal INT64_MIN)"

definition ncclParamIbIsGlobal :: "(string \<Rightarrow> string option) \<Rightarrow> int" where
  "ncclParamIbIsGlobal = NCCL_PARAM ''IB_IS_GLOBAL'' 0"

definition ncclParamIbGidIndex :: "(string \<Rightarrow> string option) \<Rightarrow> int" where
  "ncclParamIbGidIndex = NCCL_PARAM ''IB_GID_INDEX'' (-1)"

definition ncclParamIbRoceVersionNum :: "(string \<Rightarrow> string option) \<Rightarrow> int" where
  "ncclParamIbRoceVersionNum = NCCL_PARAM ''IB_ROCE_VERSION_NUM'' 2"

definition ncclParamIbTimeout :: "(string \<Rightarrow> string option) \<Rightarrow> int" where
  "ncclParamIbTimeout = NCCL_PARAM ''IB_TIMEOUT'' 22"

definition ncclParamIbRetryCnt :: "(string \<Rightarrow> string option) \<Rightarrow> int" where
  "ncclParamIbRetryCnt = NCCL_PARAM ''IB_RETRY_CNT'' 7"

definition ncclParamIbPkey :: "(string \<Rightarrow> string option) \<Rightarrow> int" where
  "ncclParamIbPkey = NCCL_PARAM ''IB_PKEY'' 0"

definition ncclParamIbUseInline :: "(string \<Rightarrow> string option) \<Rightarrow> int" where
  "ncclParamIbUseInline = NCCL_PARAM ''IB_USE_INLINE'' 0"

definition ncclParamIbSl :: "(string \<Rightarrow> string option) \<Rightarrow> int" where
  "ncclParamIbSl = NCCL_PARAM ''IB_SL'' 0"

definition ncclParamIbTc :: "(string \<Rightarrow> string option) \<Rightarrow> int" where
  "ncclParamIbTc = NCCL_PARAM ''IB_TC'' 0"

definition ncclParamIbArThreshold :: "(string \<Rightarrow> string option) \<Rightarrow> int" where
  "ncclParamIbArThreshold = NCCL_PARAM ''IB_AR_THRESHOLD'' 8192"

definition ncclParamIbPciRelaxedOrdering :: "(string \<Rightarrow> string option) \<Rightarrow> int" where
  "ncclParamIbPciRelaxedOrdering = NCCL_PARAM ''IB_PCI_RELAXED_ORDERING'' 2"

definition ncclParamIbAdaptiveRouting :: "(string \<Rightarrow> string option) \<Rightarrow> int" where
  "ncclParamIbAdaptiveRouting = NCCL_PARAM ''IB_ADAPTIVE_ROUTING'' (-2)"

definition ncclParamIbFifoTc :: "(string \<Rightarrow> string option) \<Rightarrow> int" where
  "ncclParamIbFifoTc = NCCL_PARAM ''IB_FIFO_TC'' 0"

definition ncclParamIbAsyncEvents :: "(string \<Rightarrow> string option) \<Rightarrow> int" where
  "ncclParamIbAsyncEvents = NCCL_PARAM ''IB_RETURN_ASYNC_EVENTS'' 1"

definition ncclParamIbEceEnable :: "(string \<Rightarrow> string option) \<Rightarrow> int" where
  "ncclParamIbEceEnable = NCCL_PARAM ''IB_ECE_ENABLE'' 1"

definition siclParamUnetDisable :: "(string \<Rightarrow> string option) \<Rightarrow> int" where
  "siclParamUnetDisable = SICL_PARAM ''UNET_DISABLE'' 0"

definition ncclParamIbMergeVfs :: "(string \<Rightarrow> string option) \<Rightarrow> int" where
  "ncclParamIbMergeVfs = NCCL_PARAM ''IB_MERGE_VFS'' 1"

definition ncclParamIbMergeNics :: "(string \<Rightarrow> string option) \<Rightarrow> int" where
  "ncclParamIbMergeNics = NCCL_PARAM ''IB_MERGE_NICS'' 1"

definition ncclParamIbQpsPerConn :: "(string \<Rightarrow> string option) \<Rightarrow> int" where
  "ncclParamIbQpsPerConn = NCCL_PARAM ''IB_QPS_PER_CONNECTION'' 2"

definition ncclParamIbGdrFlushDisable :: "(string \<Rightarrow> string option) \<Rightarrow> int" where
  "ncclParamIbGdrFlushDisable = NCCL_PARAM ''GDR_FLUSH_DISABLE'' 0"

definition ncclParamIbSplitDataOnQps :: "(string \<Rightarrow> string option) \<Rightarrow> int" where
  "ncclParamIbSplitDataOnQps = NCCL_PARAM ''IB_SPLIT_DATA_ON_QPS'' 0"


text \<open>The settings of discovery and transfer, as the code reads them where it uses them.\<close>

definition config_of_env :: "bool \<Rightarrow> (string \<Rightarrow> string option) \<Rightarrow> ib_config" where
  "config_of_env ro_flag getenv =
     \<lparr> cf_disable = siclParamUnetDisable getenv \<noteq> 0, cf_merge_vfs = ncclParamIbMergeVfs getenv \<noteq> 0,
       cf_merge_nics = ncclParamIbMergeNics getenv \<noteq> 0, cf_adaptive_routing = ncclParamIbAdaptiveRouting getenv,
       cf_relaxed_ordering = ncclParamIbPciRelaxedOrdering getenv, cf_ro_flag = ro_flag \<rparr>"

definition transfer_of_env :: "int \<Rightarrow> (string \<Rightarrow> string option) \<Rightarrow> ib_params" where
  "transfer_of_env bwOffset getenv =
     \<lparr> pm_splitDataOnQps = ncclParamIbSplitDataOnQps getenv \<noteq> 0, pm_arThreshold = ncclParamIbArThreshold getenv,
       pm_asyncEvents = ncclParamIbAsyncEvents getenv \<noteq> 0, pm_bwOffset = bwOffset \<rparr>"

lemma param_unset: "getenv (''NCCL_'' @ env) = None \<Longrightarrow> NCCL_PARAM env d getenv = d"
  by (simp add: NCCL_PARAM_def ncclParam_def ncclLoadParam_def)

text \<open>With an empty environment everything has its default.\<close>

lemma transfer_defaults: "(\<And>v. getenv v = None) \<Longrightarrow> transfer_of_env off getenv =
    \<lparr> pm_splitDataOnQps = False, pm_arThreshold = 8192, pm_asyncEvents = True, pm_bwOffset = off \<rparr>"
  by (simp add: transfer_of_env_def ncclParamIbSplitDataOnQps_def ncclParamIbArThreshold_def ncclParamIbAsyncEvents_def param_unset)

section \<open>The tables\<close>

datatype net_fn =
    Fn_plugin_init nat
  | Fn_IbInit | Fn_IbDevices | Fn_IbGetProperties | Fn_IbGetProperties_v7 | Fn_IbGetProperties_v6 | Fn_IbListen
  | Fn_IbConnect | Fn_IbConnect_v6 | Fn_IbAccept | Fn_IbAccept_v6 | Fn_IbRegMr | Fn_IbRegMr_v7 | Fn_IbRegMrDmaBuf
  | Fn_IbDeregMr | Fn_IbIsend | Fn_IbIrecv | Fn_IbIflush | Fn_IbTest | Fn_IbCloseSend | Fn_IbCloseRecv | Fn_IbCloseListen

record ncclNet_v5 =
  nn_name :: string
  nn_init :: "net_fn option"
  nn_devices :: "net_fn option"
  nn_getProperties :: "net_fn option"
  nn_listen :: "net_fn option"
  nn_connect :: "net_fn option"
  nn_accept :: "net_fn option"
  nn_regMr :: "net_fn option"
  nn_deregMr :: "net_fn option"
  nn_isend :: "net_fn option"
  nn_irecv :: "net_fn option"
  nn_iflush :: "net_fn option"
  nn_test :: "net_fn option"
  nn_closeSend :: "net_fn option"
  nn_closeRecv :: "net_fn option"
  nn_closeListen :: "net_fn option"

record ncclNet_v6 = ncclNet_v5 +
  nn_regMrDmaBuf :: "net_fn option"

record ncclNet_v8 = ncclNet_v6 +
  nn_getDeviceMr :: "net_fn option"
  nn_irecvConsumed :: "net_fn option"

definition ibvPlugin_v8 :: ncclNet_v8 where
  "ibvPlugin_v8 =
     \<lparr> nn_name = ''UNET_IBV'',
       nn_init = Some Fn_IbInit,
       nn_devices = Some Fn_IbDevices,
       nn_getProperties = Some Fn_IbGetProperties,
       nn_listen = Some Fn_IbListen,
       nn_connect = Some Fn_IbConnect,
       nn_accept = Some Fn_IbAccept,
       nn_regMr = Some Fn_IbRegMr,
       nn_deregMr = Some Fn_IbDeregMr,
       nn_isend = Some Fn_IbIsend,
       nn_irecv = Some Fn_IbIrecv,
       nn_iflush = Some Fn_IbIflush,
       nn_test = Some Fn_IbTest,
       nn_closeSend = Some Fn_IbCloseSend,
       nn_closeRecv = Some Fn_IbCloseRecv,
       nn_closeListen = Some Fn_IbCloseListen,
       nn_regMrDmaBuf = Some Fn_IbRegMrDmaBuf,
       nn_getDeviceMr = None,
       nn_irecvConsumed = None \<rparr>"

definition ibvPlugin_v7 :: ncclNet_v8 where
  "ibvPlugin_v7 =
     \<lparr> nn_name = ''UNET_IBV'',
       nn_init = Some Fn_IbInit,
       nn_devices = Some Fn_IbDevices,
       nn_getProperties = Some Fn_IbGetProperties_v7,
       nn_listen = Some Fn_IbListen,
       nn_connect = Some Fn_IbConnect,
       nn_accept = Some Fn_IbAccept,
       nn_regMr = Some Fn_IbRegMr_v7,
       nn_deregMr = Some Fn_IbDeregMr,
       nn_isend = Some Fn_IbIsend,
       nn_irecv = Some Fn_IbIrecv,
       nn_iflush = Some Fn_IbIflush,
       nn_test = Some Fn_IbTest,
       nn_closeSend = Some Fn_IbCloseSend,
       nn_closeRecv = Some Fn_IbCloseRecv,
       nn_closeListen = Some Fn_IbCloseListen,
       nn_regMrDmaBuf = Some Fn_IbRegMrDmaBuf,
       nn_getDeviceMr = None,
       nn_irecvConsumed = None \<rparr>"

definition ibvPlugin_v6 :: ncclNet_v6 where
  "ibvPlugin_v6 =
     \<lparr> nn_name = ''UNET_IBV'',
       nn_init = Some Fn_IbInit,
       nn_devices = Some Fn_IbDevices,
       nn_getProperties = Some Fn_IbGetProperties_v6,
       nn_listen = Some Fn_IbListen,
       nn_connect = Some Fn_IbConnect_v6,
       nn_accept = Some Fn_IbAccept_v6,
       nn_regMr = Some Fn_IbRegMr_v7,
       nn_deregMr = Some Fn_IbDeregMr,
       nn_isend = Some Fn_IbIsend,
       nn_irecv = Some Fn_IbIrecv,
       nn_iflush = Some Fn_IbIflush,
       nn_test = Some Fn_IbTest,
       nn_closeSend = Some Fn_IbCloseSend,
       nn_closeRecv = Some Fn_IbCloseRecv,
       nn_closeListen = Some Fn_IbCloseListen,
       nn_regMrDmaBuf = Some Fn_IbRegMrDmaBuf \<rparr>"

definition ibvPlugin_v5 :: ncclNet_v5 where
  "ibvPlugin_v5 =
     \<lparr> nn_name = ''UNET_IBV'',
       nn_init = Some Fn_IbInit,
       nn_devices = Some Fn_IbDevices,
       nn_getProperties = Some Fn_IbGetProperties_v6,
       nn_listen = Some Fn_IbListen,
       nn_connect = Some Fn_IbConnect_v6,
       nn_accept = Some Fn_IbAccept_v6,
       nn_regMr = Some Fn_IbRegMr_v7,
       nn_deregMr = Some Fn_IbDeregMr,
       nn_isend = Some Fn_IbIsend,
       nn_irecv = Some Fn_IbIrecv,
       nn_iflush = Some Fn_IbIflush,
       nn_test = Some Fn_IbTest,
       nn_closeSend = Some Fn_IbCloseSend,
       nn_closeRecv = Some Fn_IbCloseRecv,
       nn_closeListen = Some Fn_IbCloseListen \<rparr>"

text \<open>A table of which only the name and the first function are given: the others are null.\<close>

definition init_table_v5 :: "string \<Rightarrow> net_fn \<Rightarrow> ncclNet_v5" where
  "init_table_v5 name f =
     \<lparr> nn_name = name, nn_init = Some f, nn_devices = None, nn_getProperties = None, nn_listen = None, nn_connect = None,
       nn_accept = None, nn_regMr = None, nn_deregMr = None, nn_isend = None, nn_irecv = None, nn_iflush = None, nn_test = None,
       nn_closeSend = None, nn_closeRecv = None, nn_closeListen = None \<rparr>"

definition init_table_v6 :: "string \<Rightarrow> net_fn \<Rightarrow> ncclNet_v6" where
  "init_table_v6 name f = ncclNet_v5.extend (init_table_v5 name f) \<lparr> nn_regMrDmaBuf = None, \<dots> = () \<rparr>"

definition init_table_v8 :: "string \<Rightarrow> net_fn \<Rightarrow> ncclNet_v8" where
  "init_table_v8 name f =
     ncclNet_v5.extend (init_table_v5 name f)
       \<lparr> nn_regMrDmaBuf = None, nn_getDeviceMr = None, nn_irecvConsumed = None \<rparr>"

section \<open>Loading\<close>

datatype nccl_unet_plugin = NCCL_UNET_IBV | NCCL_UNET_UCX | NCCL_UNET_OFI | NCCL_UNET_LAST

text \<open>
  The exported tables, the logger (by its address), the object of the virtual topology, and the effects of making that: the environment and
  the files written.
\<close>

record plugin =
  pl_v8 :: ncclNet_v8
  pl_v7 :: ncclNet_v8
  pl_v6 :: ncclNet_v6
  pl_v5 :: ncclNet_v5
  pl_unet :: nccl_unet_plugin
  pl_log :: "nat option"
  pl_vtopo :: "GenVTopo option"
  pl_env :: "string \<Rightarrow> string option"
  pl_written :: "(string \<times> string list) list"

definition plugin_fresh :: "(string \<Rightarrow> string option) \<Rightarrow> plugin" where
  "plugin_fresh env =
     \<lparr> pl_v8 = init_table_v8 ''UNET'' (Fn_plugin_init 8), pl_v7 = init_table_v8 ''UNET'' (Fn_plugin_init 7),
       pl_v6 = init_table_v6 ''UNET'' (Fn_plugin_init 6), pl_v5 = init_table_v5 ''UNET'' (Fn_plugin_init 5),
       pl_unet = NCCL_UNET_LAST, pl_log = None, pl_vtopo = None, pl_env = env, pl_written = [] \<rparr>"

text \<open>Every branch of the switch does the same. An exception of the constructor of the topology ends the program.\<close>

definition plugin_setup :: "vt_host \<Rightarrow> plugin \<Rightarrow> plugin option" where
  "plugin_setup h pl =
     (let pl = pl\<lparr> pl_unet := NCCL_UNET_IBV \<rparr>;
          pl = pl\<lparr> pl_v8 := ibvPlugin_v8, pl_v7 := ibvPlugin_v7, pl_v6 := ibvPlugin_v6, pl_v5 := ibvPlugin_v5 \<rparr>
      in case tryGenVTopo (h\<lparr> vh_getenv := pl_env pl \<rparr>) (pl_vtopo pl) of
           None \<Rightarrow> None
         | Some (g, file, env) \<Rightarrow>
             Some (pl\<lparr> pl_vtopo := Some g, pl_env := env,
                       pl_written := pl_written pl @ (case file of None \<Rightarrow> [] | Some f \<Rightarrow> [f]) \<rparr>))"

definition init_of :: "nat \<Rightarrow> plugin \<Rightarrow> net_fn option" where
  "init_of ver pl = (if ver = 8 then nn_init (pl_v8 pl) else if ver = 7 then nn_init (pl_v7 pl)
     else if ver = 6 then nn_init (pl_v6 pl) else nn_init (pl_v5 pl))"

text \<open>What discovery finds: its settings are read from the environment; the interfaces it may use.\<close>

type_synonym ib_world = "bool \<times> ib_host \<times> (string \<times> ncclSocketAddress) list option"

definition run_IbInit :: "ib_world \<Rightarrow> plugin \<Rightarrow> ib_state \<Rightarrow> (ncclResult \<times> plugin \<times> ib_state) option" where
  "run_IbInit = (\<lambda>(ro_flag, ho, ifs) pl ib.
     map_option (\<lambda>(res, ib). (res, pl, ib)) (ncclIbInit (config_of_env ro_flag (pl_env pl)) ho (pl_env pl) ifs ib))"

text \<open>
  The table that \<^verbatim>\<open>plugin_init\<close> calls through has been replaced by then: were another \<^verbatim>\<open>plugin_init\<close> still in it the call
  would not end, and any other function has another type.
\<close>

definition plugin_init :: "nat \<Rightarrow> vt_host \<Rightarrow> ib_world \<Rightarrow> nat \<Rightarrow> plugin \<Rightarrow> ib_state \<Rightarrow> (ncclResult \<times> plugin \<times> ib_state) option" where
  "plugin_init ver h w logFunction pl ib =
     (case plugin_setup h pl of
        None \<Rightarrow> None
      | Some pl \<Rightarrow>
          let pl = pl\<lparr> pl_log := Some logFunction \<rparr>
          in case init_of ver pl of Some Fn_IbInit \<Rightarrow> run_IbInit w pl ib | _ \<Rightarrow> None)"

text \<open>A call of NCCL: the first function of the exported table of its version.\<close>

definition nccl_init :: "nat \<Rightarrow> vt_host \<Rightarrow> ib_world \<Rightarrow> nat \<Rightarrow> plugin \<Rightarrow> ib_state \<Rightarrow> (ncclResult \<times> plugin \<times> ib_state) option" where
  "nccl_init ver h w logFunction pl ib =
     (case init_of ver pl of
        Some (Fn_plugin_init v) \<Rightarrow> plugin_init v h w logFunction pl ib
      | Some Fn_IbInit \<Rightarrow> run_IbInit w pl ib
      | _ \<Rightarrow> None)"

section \<open>A loaded plugin\<close>

definition plugin_loaded :: "plugin \<Rightarrow> bool" where
  "plugin_loaded pl \<longleftrightarrow> pl_v8 pl = ibvPlugin_v8 \<and> pl_v7 pl = ibvPlugin_v7 \<and> pl_v6 pl = ibvPlugin_v6 \<and> pl_v5 pl = ibvPlugin_v5 \<and>
     pl_vtopo pl \<noteq> None \<and> pl_log pl \<noteq> None"

lemma table_sel [simp]:
  "nn_init (init_table_v5 name f) = Some f" "nn_init (init_table_v6 name f) = Some f" "nn_init (init_table_v8 name f) = Some f"
  "nn_init ibvPlugin_v8 = Some Fn_IbInit" "nn_init ibvPlugin_v7 = Some Fn_IbInit"
  "nn_init ibvPlugin_v6 = Some Fn_IbInit" "nn_init ibvPlugin_v5 = Some Fn_IbInit"
  by (simp_all add: init_table_v5_def init_table_v6_def init_table_v8_def ncclNet_v5.extend_def
      ibvPlugin_v8_def ibvPlugin_v7_def ibvPlugin_v6_def ibvPlugin_v5_def)

lemma init_of_loaded: "plugin_loaded pl \<Longrightarrow> init_of ver pl = Some Fn_IbInit"
  by (simp add: init_of_def plugin_loaded_def)

lemma plugin_setup_loads:
  "plugin_setup h pl = Some pl' \<Longrightarrow> plugin_loaded (pl'\<lparr> pl_log := Some log \<rparr>)"
  by (auto simp: plugin_setup_def plugin_loaded_def Let_def split: option.splits prod.splits)

lemma nccl_init_loaded: "plugin_loaded pl \<Longrightarrow> nccl_init ver h w log pl ib = run_IbInit w pl ib"
  by (simp add: nccl_init_def init_of_loaded)

lemma run_IbInit_keeps: "run_IbInit w pl ib = Some (res, pl', ib') \<Longrightarrow> pl' = pl"
  by (auto simp: run_IbInit_def split: prod.splits)

lemma plugin_fresh_sel [simp]:
  "pl_v8 (plugin_fresh env) = init_table_v8 ''UNET'' (Fn_plugin_init 8)" "pl_v7 (plugin_fresh env) = init_table_v8 ''UNET'' (Fn_plugin_init 7)"
  "pl_v6 (plugin_fresh env) = init_table_v6 ''UNET'' (Fn_plugin_init 6)" "pl_v5 (plugin_fresh env) = init_table_v5 ''UNET'' (Fn_plugin_init 5)"
  by (simp_all add: plugin_fresh_def)

text \<open>
  C34: the first call of NCCL, through the table of whatever version, puts the InfiniBand functions of all four versions
  in place, keeps the logger, makes the virtual topology and then discovers the devices with the environment that has left; from then on a
  call through any table only discovers devices: neither the tables, the logger nor the topology change again.
\<close>
theorem plugin_loads_once:
  assumes "ver \<in> {5, 6, 7, 8}" "nccl_init ver h w log (plugin_fresh env) ib = Some (res, pl, ib')"
  shows "plugin_loaded pl \<and> pl_log pl = Some log \<and> length (pl_written pl) \<le> 1 \<and>
    (case tryGenVTopo (h\<lparr> vh_getenv := env \<rparr>) None of
       None \<Rightarrow> False
     | Some (g, file, env') \<Rightarrow> pl_vtopo pl = Some g \<and> pl_env pl = env' \<and>
         run_IbInit w pl ib = Some (res, pl, ib')) \<and>
    (\<forall>ver' h' w' log' ib2. nccl_init ver' h' w' log' pl ib2 = run_IbInit w' pl ib2 \<and>
       pred_option (\<lambda>(res2, pl2, ib3). pl2 = pl) (nccl_init ver' h' w' log' pl ib2))"
proof -
  have "nccl_init ver h w log (plugin_fresh env) ib = plugin_init ver h w log (plugin_fresh env) ib"
    using assms(1) by (auto simp: nccl_init_def init_of_def)
  then obtain pl0 where s: "plugin_setup h (plugin_fresh env) = Some pl0"
    and r: "run_IbInit w (pl0\<lparr> pl_log := Some log \<rparr>) ib = Some (res, pl, ib')"
    using assms(2) init_of_loaded [OF plugin_setup_loads]
    by (auto simp: plugin_init_def Let_def split: option.splits)
  have pl: "pl = pl0\<lparr> pl_log := Some log \<rparr>" by (rule run_IbInit_keeps [OF r])
  have ld: "plugin_loaded pl" using plugin_setup_loads [OF s] pl by simp
  obtain g fl env' where t: "tryGenVTopo (h\<lparr> vh_getenv := env \<rparr>) None = Some (g, fl, env')" "pl_vtopo pl0 = Some g" "pl_env pl0 = env'"
    "pl_written pl0 = (case fl of None \<Rightarrow> [] | Some f \<Rightarrow> [f])"
    using s by (auto simp: plugin_setup_def plugin_fresh_def Let_def split: option.splits)
  have "pred_option (\<lambda>(res2, pl2, ib3). pl2 = pl) (run_IbInit w' pl ib2)" for w' ib2
    by (cases "run_IbInit w' pl ib2") (auto dest: run_IbInit_keeps)
  then show ?thesis using ld t r pl nccl_init_loaded [OF ld] by (auto split: option.splits)
qed

definition example_env :: "string \<Rightarrow> string option" where
  "example_env v = (if v = ''SICL_UCOMMD_VTOPO_DISABLE'' then Some ''1'' else None)"

definition example_load :: "(ncclResult \<times> plugin \<times> ib_state) option" where
  "example_load = nccl_init 7 VTopo.example_host (True, IbDevs.example_host, example_ifs) 1234 (plugin_fresh example_env) ib_fresh"

lemma example_load_runs: "map_option fst example_load = Some ncclSuccess"
  by code_simp

theorem plugin_loads_once_witness:
  "\<exists>pl ib. example_load = Some (ncclSuccess, pl, ib) \<and> plugin_loaded pl \<and> pl_log pl = Some 1234 \<and> pl_vtopo pl = Some no_vtopo"
proof -
  obtain pl ib where l: "example_load = Some (ncclSuccess, pl, ib)" using example_load_runs by auto
  have "tryGenVTopo (VTopo.example_host\<lparr> vh_getenv := example_env \<rparr>) None = Some (no_vtopo, None, example_env)"
    by (simp add: tryGenVTopo_def GenVTopo_new_def gen_def example_env_def no_vtopo_def switched_off_def schar_def)
  with plugin_loads_once [OF _ l [unfolded example_load_def]] have "plugin_loaded pl \<and> pl_log pl = Some 1234 \<and> pl_vtopo pl = Some no_vtopo" by simp
  with l show ?thesis by blast
qed

end
