(* ===== verification/Logging.thy ===== *)
theory Logging
  imports Plugin SocketAddr
begin

text \<open>
  What the program only says: the logger of the SiCL tools (\<^verbatim>\<open>src/ucommd/logger.cc\<close>), the text of a socket
  address (\<^verbatim>\<open>src/unet/socket.cc\<close>), and the names of threads and of the loaded library
  (\<^verbatim>\<open>src/unet/misc.cc\<close>). The text of a message after its format, the time and the resolver are parameters.
\<close>

section \<open>The logger\<close>

datatype LogLevel = FATAL | ERROR | WARN | INFO | DEBUG | TRACE

definition level_number :: "LogLevel \<Rightarrow> nat" where
  "level_number l = (case l of FATAL \<Rightarrow> 0 | ERROR \<Rightarrow> 1 | WARN \<Rightarrow> 2 | INFO \<Rightarrow> 3 | DEBUG \<Rightarrow> 4 | TRACE \<Rightarrow> 5)"

definition log_level_names :: "string list" where
  "log_level_names = [''FATAL'', ''ERROR'', ''WARN'', ''INFO'', ''DEBUG'', ''TRACE'']"

record Logger =
  lg_level :: LogLevel
  lg_hostname :: string

text \<open>\<^verbatim>\<open>gethostname\<close> fails, or gives a name that fits the 256 bytes, which are zero before.\<close>

definition Logger_new :: "(string \<Rightarrow> string option) \<Rightarrow> string option \<Rightarrow> Logger" where
  "Logger_new getenv hostname =
     \<lparr> lg_level = WARN,
       lg_hostname = (case getenv ''NODE_NAME'' of
           Some (c # cs) \<Rightarrow> take 64 (c # cs)
         | _ \<Rightarrow> (case hostname of Some n \<Rightarrow> n | None \<Rightarrow> take 16 ''unknown'')) \<rparr>"

definition setLevel :: "LogLevel \<Rightarrow> Logger \<Rightarrow> Logger" where
  "setLevel l lg = lg\<lparr> lg_level := l \<rparr>"

definition pad_left :: "nat \<Rightarrow> char \<Rightarrow> string \<Rightarrow> string" where
  "pad_left n c s = replicate (n - length s) c @ s"

text \<open>The output of one call: \<open>stamp\<close> is what \<^verbatim>\<open>strftime\<close> makes of the time, in a buffer of 80 bytes, and \<open>usec\<close> its microseconds.\<close>

definition log_line :: "Logger \<Rightarrow> string \<Rightarrow> nat \<Rightarrow> nat \<Rightarrow> LogLevel \<Rightarrow> string \<Rightarrow> string" where
  "log_line lg stamp usec pid level msg =
     (if level_number level > level_number (lg_level lg) then []
      else let stamp_ms = take 83 (stamp @ ''.'' @ pad_left 3 CHR ''0'' (to_string_nat (usec div 1000)))
           in ''[SiCL:'' @ log_level_names ! level_number level @ '' '' @ stamp_ms @ '' '' @ lg_hostname lg @ '':'' @ to_string_nat pid @
              ''] '' @ msg @ [CHR 0x0A])"

lemma default_level: "log_line (Logger_new getenv hostname) stamp usec pid level msg \<noteq> [] \<longleftrightarrow> level \<in> {FATAL, ERROR, WARN}"
  by (cases level) (simp_all add: log_line_def Logger_new_def level_number_def Let_def)

text \<open>Lowering the level never adds a line and never changes one.\<close>

lemma setLevel_monotone:
  assumes "level_number l \<le> level_number (lg_level lg)"
  shows "log_line (setLevel l lg) stamp usec pid level msg \<in> {[], log_line lg stamp usec pid level msg}"
  using assms by (auto simp: log_line_def setLevel_def)

section \<open>Socket addresses\<close>

text \<open>\<^verbatim>\<open>getnameinfo\<close> gives the host and the service; without a buffer or an address the result is null.\<close>

definition ncclSocketToString ::
    "(ncclSocketAddress \<Rightarrow> bool \<Rightarrow> string \<times> string) \<Rightarrow> ncclSocketAddress option \<Rightarrow> bool \<Rightarrow> bool \<Rightarrow> string option" where
  "ncclSocketToString getnameinfo addr buf numericHostForm =
     (case addr of
        None \<Rightarrow> None
      | Some a \<Rightarrow>
          if \<not> buf then None
          else if sa_family a \<noteq> AF_INET \<and> sa_family a \<noteq> AF_INET6 then Some []
          else case getnameinfo a numericHostForm of (host, service) \<Rightarrow> Some (host @ ''<'' @ service @ ''>''))"

section \<open>Names\<close>

text \<open>\<^verbatim>\<open>dladdr\<close> fails, or gives the file of the library.\<close>

definition get_plugin_lib_path :: "string option \<Rightarrow> string option" where
  "get_plugin_lib_path dladdr = dladdr"

definition ncclParamSetThreadName :: "(string \<Rightarrow> string option) \<Rightarrow> int" where
  "ncclParamSetThreadName = NCCL_PARAM ''SET_THREAD_NAME'' 0"

definition NCCL_THREAD_NAMELEN :: nat where
  "NCCL_THREAD_NAMELEN = 16"

text \<open>The name given to the thread, if one is: what fits the buffer with the final zero.\<close>

definition ncclSetThreadName :: "(string \<Rightarrow> string option) \<Rightarrow> string \<Rightarrow> string option" where
  "ncclSetThreadName getenv text =
     (if ncclParamSetThreadName getenv \<noteq> 1 then None else Some (take (NCCL_THREAD_NAMELEN - 1) text))"

text \<open>The thread of a device's events is called after the device's number, in two places.\<close>

definition async_thread_text :: "nat \<Rightarrow> string" where
  "async_thread_text n = ''UNET IbvAsync '' @ pad_left 2 CHR '' '' (to_string_nat n)"

text \<open>The text is one character too long: the last digit is cut, and the first ten devices have threads of the same name.\<close>

lemma to_string_nat_one: "n < 10 \<Longrightarrow> to_string_nat n = [digit_char n]"
  by (subst to_string_nat.simps) simp

theorem thread_names_collide:
  assumes "i < 10" "j < 10"
  shows "ncclSetThreadName getenv (async_thread_text i) = ncclSetThreadName getenv (async_thread_text j)"
  using assms by (simp add: ncclSetThreadName_def async_thread_text_def NCCL_THREAD_NAMELEN_def pad_left_def to_string_nat_one)

end
