(* ===== verification/MonOptions.thy ===== *)
theory MonOptions
  imports MonPrint
begin

text \<open>
  The command line of the monitoring tool (\<^verbatim>\<open>src/tools/monitor/options.h\<close>, \<^verbatim>\<open>main.cc\<close>). What
  \<^verbatim>\<open>getopt_long\<close> finds is a parameter: the list of what its calls return before \<open>-1\<close>. The list of process
  numbers is read from a string stream as the C++ library does: a number that is missing or does not fit an
  \<^verbatim>\<open>int\<close> makes the stream fail, which ends the list.
\<close>

section \<open>Options\<close>

datatype getopt_result =
    OptPid string              \<comment> \<open>\<open>'p'\<close> and its argument\<close>
  | OptShowBw                  \<comment> \<open>\<open>kOpt\<close>\<close>
  | OptSampleInterval string   \<comment> \<open>\<open>kOpt+1\<close> and its argument\<close>
  | OptHelp                    \<comment> \<open>\<open>'h'\<close>\<close>
  | OptUnknown                 \<comment> \<open>\<open>'?'\<close>\<close>

record Options = mon_opts +
  op_pids :: "int list"

definition no_options :: Options where
  "no_options = \<lparr> op_bw_print = False, op_interval_ns = -1, op_pids = [] \<rparr>"

text \<open>\<^verbatim>\<open>iss >> pid\<close> and \<^verbatim>\<open>iss >> c\<close>: the value and what is left, or \<open>None\<close> when the stream fails.\<close>

definition stream_int :: "string \<Rightarrow> (int \<times> string) option" where
  "stream_int s =
     (let (neg, ds) = split_sign (dropWhile is_space s);
          digits = takeWhile (\<lambda>c. digit_of 10 c \<noteq> None) ds;
          v = (if neg then - int (parse_digits 10 0 digits) else int (parse_digits 10 0 digits))
      in if digits = [] \<or> \<not> in_int32 v then None else Some (v, drop (length digits) ds))"

definition stream_char :: "string \<Rightarrow> (char \<times> string) option" where
  "stream_char s = (case dropWhile is_space s of [] \<Rightarrow> None | c # r \<Rightarrow> Some (c, r))"

lemma split_sign_length: "split_sign s = (neg, ds) \<Longrightarrow> length ds \<le> length s"
  by (cases s) (auto split: if_splits)

lemma stream_int_shorter:
  assumes "stream_int s = Some (v, r)"
  shows "length r < length s"
proof -
  obtain neg ds where d: "split_sign (dropWhile is_space s) = (neg, ds)" by fastforce
  define digits where "digits = takeWhile (\<lambda>c. digit_of 10 c \<noteq> None) ds"
  have "r = drop (length digits) ds" "digits \<noteq> []" using assms d by (auto simp: stream_int_def digits_def Let_def split: if_splits)
  then have "length r = length ds - length digits" "0 < length digits" by simp_all
  moreover have "length digits \<le> length ds" unfolding digits_def by (rule length_takeWhile_le)
  moreover have "length ds \<le> length s" using split_sign_length [OF d] length_dropWhile_le [of is_space s] by linarith
  ultimately show ?thesis by linarith
qed

lemma stream_char_shorter: "stream_char s = Some (c, r) \<Longrightarrow> length r < length s"
  using length_dropWhile_le [of is_space s] by (auto simp: stream_char_def split: list.splits)

text \<open>The loop: one character, whatever it is, parts a number from the next. Without one the stream is at its end.\<close>

function pid_list :: "string \<Rightarrow> int list" where
  "pid_list s =
     (case stream_int s of
        None \<Rightarrow> []
      | Some (pid, r) \<Rightarrow> pid # (case stream_char r of None \<Rightarrow> [] | Some (c, r) \<Rightarrow> pid_list r))"
  by pat_completeness auto
termination
proof (relation "measure length", simp, goal_cases)
  case (1 s pr pid r cr c r')
  then show ?case using stream_int_shorter [of s pid r] stream_char_shorter [of r c r'] by simp
qed

declare pid_list.simps [simp del]

text \<open>\<^verbatim>\<open>atoll\<close> is \<^verbatim>\<open>strtol\<close> to the base 10, as \<^verbatim>\<open>long\<close> and \<^verbatim>\<open>long long\<close> are the same.\<close>

definition atoll :: "string \<Rightarrow> int" where
  "atoll s = strtol10 s"

fun parseArgs :: "getopt_result list \<Rightarrow> Options \<Rightarrow> int \<times> Options" where
  "parseArgs [] op = (0, op)"
| "parseArgs (OptPid optarg # os) op = parseArgs os (op\<lparr> op_pids := op_pids op @ pid_list optarg \<rparr>)"
| "parseArgs (OptShowBw # os) op = parseArgs os (op\<lparr> op_bw_print := True \<rparr>)"
| "parseArgs (OptSampleInterval optarg # os) op = parseArgs os (op\<lparr> op_interval_ns := atoll optarg \<rparr>)"
| "parseArgs (OptHelp # os) op = (1, op)"
| "parseArgs (OptUnknown # os) op = (1, op)"

text \<open>The program: the monitor is made with the options, then runs; \<open>None\<close> is an exception or a division by zero.\<close>

definition monitor_main :: "getopt_result list \<Rightarrow> mon_host \<Rightarrow> bool \<Rightarrow> bool \<Rightarrow> mon_tick list \<Rightarrow> (int + mon_run \<times> string) option" where
  "monitor_main args h created armed tks =
     (case parseArgs args no_options of
        (ret, op) \<Rightarrow>
          if ret \<noteq> 0 then Some (Inl ret)
          else case Monitor_new h (op_pids op) of
                 None \<Rightarrow> None
               | Some m \<Rightarrow> Monitor_run created armed (mon_opts.truncate op) tks m)"

section \<open>Lists of process numbers\<close>

lemma takeWhile_digits:
  assumes "rest = [] \<or> digit_of 10 (hd rest) = None"
  shows "takeWhile (\<lambda>c. digit_of 10 c \<noteq> None) (to_string_nat k @ rest) = to_string_nat k"
proof -
  have d: "\<forall>c \<in> set (to_string_nat k). digit_of 10 c \<noteq> None" by (auto dest!: to_string_nat_digits)
  moreover have "takeWhile (\<lambda>c. digit_of 10 c \<noteq> None) rest = []" using assms by (cases rest) auto
  ultimately show ?thesis by (simp add: takeWhile_append2)
qed

lemma stream_int_number:
  assumes "k < 2 ^ 31" "rest = [] \<or> digit_of 10 (hd rest) = None"
  shows "stream_int (to_string_nat k @ rest) = Some (int k, rest)"
proof -
  obtain d ds where d: "d < 10" "to_string_nat k = digit_char d # ds" using to_string_nat_hd by blast
  have drop: "dropWhile is_space (to_string_nat k @ rest) = to_string_nat k @ rest" using d by simp
  have sp: "split_sign (to_string_nat k @ rest) = (False, to_string_nat k @ rest)"
    using split_sign_to_string_nat [of k rest] d by simp
  have "int k < 2 ^ 31" using assms(1) by (metis of_nat_less_iff of_nat_numeral of_nat_power)
  then have "in_int32 (int k)" by (simp add: in_int32_def)
  then show ?thesis
    unfolding stream_int_def drop sp by (simp only: Let_def prod.case takeWhile_digits [OF assms(2)] parse_to_string_nat) simp
qed

fun join_pids :: "char \<Rightarrow> nat list \<Rightarrow> string" where
  "join_pids sep [] = []"
| "join_pids sep [k] = to_string_nat k"
| "join_pids sep (k # l # ks) = to_string_nat k @ sep # join_pids sep (l # ks)"

text \<open>
  A list of process numbers with one separator between each two, not a blank and not a digit, is read back.
\<close>

lemma pid_list_join:
  assumes "\<not> is_space sep" "digit_of 10 sep = None" "\<forall>k \<in> set ks. k < 2 ^ 31"
  shows "pid_list (join_pids sep ks) = map int ks"
  using assms(3)
proof (induction ks rule: induct_list012)
  case 1
  show ?case by (simp add: pid_list.simps stream_int_def)
next
  case (2 k)
  then show ?case using stream_int_number [of k "[]"] by (simp add: pid_list.simps stream_char_def)
next
  case (3 k l ks)
  have "stream_int (to_string_nat k @ sep # join_pids sep (l # ks)) = Some (int k, sep # join_pids sep (l # ks))"
    using stream_int_number [of k "sep # join_pids sep (l # ks)"] 3 assms(2) by simp
  moreover have "stream_char (sep # join_pids sep (l # ks)) = Some (sep, join_pids sep (l # ks))"
    using assms(1) by (simp add: stream_char_def)
  ultimately show ?case using 3 by (subst pid_list.simps) simp
qed

text \<open>A number that is missing ends the list, and the numbers after it are lost.\<close>

lemma pid_list_stops:
  assumes "k < 2 ^ 31" "\<not> is_space sep" "digit_of 10 sep = None" "stream_int rest = None"
  shows "pid_list (to_string_nat k @ sep # rest) = [int k]"
proof -
  have "stream_int (to_string_nat k @ sep # rest) = Some (int k, sep # rest)"
    using stream_int_number [of k "sep # rest"] assms by simp
  moreover have "stream_char (sep # rest) = Some (sep, rest)" using assms(2) by (simp add: stream_char_def)
  ultimately show ?thesis using assms(4) by (subst pid_list.simps) (simp add: pid_list.simps [of rest])
qed

text \<open>
  The tool with a list of process numbers watches those: the numbers reach the monitor as they were written, whatever the
  other options are, unless one asks for help or is unknown, when the tool ends with 1.
\<close>

lemma parseArgs_pids:
  assumes "OptHelp \<notin> set os" "OptUnknown \<notin> set os"
  shows "fst (parseArgs os op) = 0 \<and>
    op_pids (snd (parseArgs os op)) = op_pids op @ concat (map (\<lambda>x. case x of OptPid s \<Rightarrow> pid_list s | _ \<Rightarrow> []) os)"
  using assms by (induction os op rule: parseArgs.induct) auto

lemma parseArgs_help: "OptHelp \<in> set os \<or> OptUnknown \<in> set os \<Longrightarrow> fst (parseArgs os op) = 1"
  by (induction os op rule: parseArgs.induct) auto

theorem monitor_main_options:
  "monitor_main os h created armed tks =
     (if OptHelp \<in> set os \<or> OptUnknown \<in> set os then Some (Inl 1)
      else case Monitor_new h (concat (map (\<lambda>x. case x of OptPid s \<Rightarrow> pid_list s | _ \<Rightarrow> []) os)) of
             None \<Rightarrow> None
           | Some m \<Rightarrow> Monitor_run created armed (mon_opts.truncate (snd (parseArgs os no_options))) tks m)"
proof (cases "OptHelp \<in> set os \<or> OptUnknown \<in> set os")
  case True
  then show ?thesis using parseArgs_help [OF True, of no_options] by (auto simp: monitor_main_def split: prod.splits)
next
  case False
  then show ?thesis using parseArgs_pids [of os no_options]
    by (auto simp: monitor_main_def no_options_def split: prod.splits option.splits)
qed

text \<open>An interval that is no number, or 0, is 0: with it the tool divides by zero before its first tick.\<close>

lemma zero_interval_traps:
  assumes "atoll s = 0" "Monitor_new h [] \<noteq> None"
  shows "monitor_main [OptSampleInterval s] h True True tks = None"
  using assms
  by (auto simp: monitor_main_def no_options_def mon_opts.truncate_def Monitor_run_def run_start_def timer_spec_def)

lemma example_pids: "pid_list ''12,345;6 x 7'' = [12, 345, 6, 7]"
  by code_simp

lemma example_pids_lost: "pid_list ''12,,34'' = [12]"
  by code_simp

end
