(* ===== verification/Spec2Isabelle.thy ===== *)
theory Spec2Isabelle
  imports Prelude Machine CString Tuner IfList Completion IbRecv CtsRing IbMrCache IbGid IbDevs Handshake IbPair IbClose
    UnetPerf IbvWrap IbEvents IbApi VTopo MonScan MonPrint EndToEnd Message Alloc Plugin Logging MonOptions
begin

text \<open>
  A verification library of the SiCL extensions for NCCL: a network plugin that moves messages over InfiniBand and RoCE
  cards (\<^verbatim>\<open>src/unet\<close>), a tuner plugin that chooses algorithms (\<^verbatim>\<open>src/utuner\<close>), the statistics,
  logging and topology services both share (\<^verbatim>\<open>src/ucommd\<close>), and a tool that watches the statistics
  (\<^verbatim>\<open>tools/monitor\<close>). Definitions have the names of the source and follow it branch by branch; every
  theory opens with a text that says which file and functions it translates.

  \<^bold>\<open>How the parts interact.\<close> NCCL finds a table of functions in the plugin and calls its first one (Plugin), which makes
  the virtual topology file (VTopo) and discovers the devices (IbDevs). For each pair of processes NCCL listens, connects and
  accepts: a socket handshake (Handshake, over Socket and SocketIO) carries the metadata by which queue pairs are joined
  (IbSetup, IbConnect, IbAccept, IbPair). Then it registers buffers (IbMrCache), posts receives and sends and tests them: a
  receive writes an offer, with the address and size of its buffers, into a ring in the sender's memory and posts receive requests; a
  send waits for the offer, writes the data over all queue pairs and ends with immediate data, whose arrival completes the
  receive (IbTypes, IbRequests, IbSend, IbRecv, IbTest). A thread counts fatal errors that stop the transfers (IbEvents). Transfers add
  to counters in shared memory (Stats, UnetPerf), from which the tool finds processes and computes throughput (MonScan,
  MonPrint, MonOptions).

  \<^bold>\<open>Theories, by component.\<close>
    \<^item> Prelude: return codes and the propagation of errors (\<^verbatim>\<open>types.h\<close>, \<^verbatim>\<open>checks.h\<close>,
      \<^verbatim>\<open>align.h\<close>), words, lists. CString: the string functions of the C library the sources use.
    \<^item> Tuner: \<^verbatim>\<open>utuner/plugin.c\<close>, the tables in full; the choice is the nearest entry.
    \<^item> IfList: \<^verbatim>\<open>unet/misc.cc\<close>, lists of interfaces and parameters. Alloc: \<^verbatim>\<open>alloc.h\<close> over a heap of objects.
      Logging: \<^verbatim>\<open>logger.cc\<close> and the texts of \<^verbatim>\<open>misc.cc\<close> and \<^verbatim>\<open>socket.cc\<close>.
    \<^item> Stats: \<^verbatim>\<open>ucommd/stats.cc\<close>, named counters over windows of one array, and the life of the segment. Three
      interfaces (locales) are shared: Refcount, interpreted on protection domains and cached regions; Pool, on the objects of the
      segment and the request table; Machine, on the ring of offers and the whole transport.
    \<^item> SocketAddr, SocketIO, Socket, Handshake: \<^verbatim>\<open>unet/socket.cc\<close>: addresses, transfers, the state machine, and two sockets together.
    \<^item> IbGid, IbDevs, IbSetup: choice of the GID, discovery and merging, protection domains and queue pairs.
    \<^item> IbConnect, IbAccept, IbPair, IbClose: the stages of both ends, what their composition joins, and what closing gives back.
    \<^item> IbTypes, IbRequests, IbSend, IbRecv, IbTest: the transfer operations, whole. WrId, MultiSend, RdmaMemory, Rdma, Isend, Completion and
      CtsRing hold their theory: identifiers, the closed form of the posted chains, memory under RDMA writes, the bytes the chains write, the
      invariant of sends, the draining of completions (a locale interpreted on sends and receives), and the ring of offers as a refinement of a queue.
    \<^item> EndToEnd, Message: the operations of both ends as one transition system, and one message followed from the receive to the two tests.
    \<^item> IbMrCache, IbEvents, IbApi, IbvWrap: cached registrations, asynchronous events, the adapters of older interfaces, the wrappers of the verbs library
      and how its failures leave the setup of a connection.
    \<^item> Plugin: the tables of \<^verbatim>\<open>unet_ib.cc\<close> and the loading in \<^verbatim>\<open>plugin.cc\<close>, and the parameters of the environment.
    \<^item> VTopo, UnetPerf, SysFiles: \<^verbatim>\<open>gen_vtopo.cc\<close> and \<^verbatim>\<open>unet_perf.cc\<close> over a file system that is a parameter.
    \<^item> MonScan, MonPrint, MonOptions: \<^verbatim>\<open>monitor.cc\<close>, \<^verbatim>\<open>options.h\<close>, \<^verbatim>\<open>main.cc\<close>.

  \<^bold>\<open>State and effects.\<close> A struct is a record, passed and returned; objects that are shared are named by
  their index in a table (requests, devices, communicators of a queue). A call of a library or the system
  is an answer the model is given: one answer for each call in a list (sockets), a function of the call and of the calls
  before it (verbs), or a value of a record (directories, time). The work posted to the card and the calls made are recorded
  in order, and the properties speak of these records. Integers are words of their width where they wrap (counters, addresses, identifiers, sizes in
  bytes), and unbounded where the code keeps them in range, with the range in the property where it is not obvious. The one place where
  ordinary arguments leave the range of an \<^verbatim>\<open>int\<close> is the division of a buffer into chunks, for sizes close to \<open>2^31\<close>: there the
  model keeps the 32 bits in two's complement, the properties of sends have the range \<open>chunks_fit\<close> as a hypothesis, and
  \<open>largest_sends_move_nothing\<close> shows what happens behind it. Errors are
  values of \<^verbatim>\<open>ncclResult_t\<close>. \<open>None\<close> as the result of a whole operation is behaviour that C++ leaves undefined
  (an access outside an array, a division by zero), an exception nothing catches, or a loop that does not end; properties that an operation has a
  result are stated as such.

  \<^bold>\<open>Loops and bounds.\<close> Loops are structural recursion over what they visit. The wait for all entries of an offer recurs over
  the deliveries that are still to come. \<^verbatim>\<open>ncclIbTest\<close> loops as long as a pass yields completions, and its measure is the
  number of polls that still return some. The blocking socket loops use up one answer of the system each round; a list that ends is a call that has not returned
  yet, and termination is proved for enough answers. The bounds are those of the code: 32 devices, 2 per merged device, 128 queue pairs, 256 requests
  of which 8 share an offer, a ring of 256 offers, identifiers of eight bits for each of up to eight requests. The counts of offers are 64-bit words that
  the theory keeps below their end, which is an assumption of the step relation.

  \<^bold>\<open>What the lemmas show.\<close> Transfers: the writes of a message, of all its chains together, put exactly its bytes at
  the offered address and change no other byte, events and completions
  balance, every offer is used once and in order, a message goes to the queue pairs its receive waits on, and both ends report it done with its size.
  Connections: queue pairs, memory keys and MTU are exchanged crosswise, each stage keeps its shape, what a communicator takes it gives back,
  and a failure of the library ends the setup at once with a system error. Sockets:
  agreement, exact transfers, bounded retries. Discovery, GIDs, cache, statistics, topology and monitor: invariants and functional
  specifications of their results; round trips of what one part writes and another reads. Where the code differs from
  what it means to do, the lemma states what it does, and the manifest lists the finding.

  \<^bold>\<open>Assumptions.\<close> Memory is allocated where a theory does not say otherwise (Alloc has the failures). An operation under a lock is one step. A
  card completes the signalled work that was posted to it once, under its identifier; a write with immediate data consumes the
  receive request that waits on the queue pair it is joined to. Unordered maps are visited in the order of insertion. The cache of
  registrations is studied with memory to grow, and with a library that takes every live region back.

  \<^bold>\<open>Not modelled.\<close> The texts of warnings and traces, sleeps, the bodies of the third-party libraries (verbs, getopt, the C library
  beyond what CString and the stream functions define), CUDA, the byte layout of structures (a parameter of the connection), weak memory and
  the interleaving inside one operation. Headers that only hold constants or declare functions have no definition of their own.
\<close>

end
